(* ===== verification/Prelude.thy ===== *)
theory Prelude
  imports Main "HOL-Library.Word"
begin

unbundle bit_operations_syntax

text \<open>
  Shared vocabulary of the development: the machine types of the Rust sources, the
  result type with the propagation operator of \<^verbatim>\<open>?\<close>, big-endian byte
  conversions, and the list and word facts that the component theories use.

  A \<^verbatim>\<open>u8\<close>, \<^verbatim>\<open>u16\<close>, \<^verbatim>\<open>u32\<close> or \<^verbatim>\<open>u64\<close> is a word of that width.
  A \<^verbatim>\<open>usize\<close> is a natural number: slice lengths and offsets never leave its
  range, and where the code uses \<^verbatim>\<open>checked_add\<close> or \<^verbatim>\<open>checked_mul\<close>
  the bound \<open>usize_max\<close> (of a 64-bit target) is written out.
\<close>

type_synonym byte = "8 word"
type_synonym u8 = "8 word"
type_synonym u16 = "16 word"
type_synonym u32 = "32 word"
type_synonym u64 = "64 word"
type_synonym bytes = "byte list"

named_theorems cbor_simps \<open>unfolding rules of the CBOR codec\<close>
named_theorems codec_simps \<open>round trips of encoders and decoders\<close>

definition usize_max :: nat where
  "usize_max = 2 ^ 64 - 1"

text \<open>Addition of unsigned integers that clamps to the largest value.\<close>

definition saturating_add :: "'a::len word \<Rightarrow> 'a word \<Rightarrow> 'a word" where
  "saturating_add a b = (if unat a + unat b < 2 ^ LENGTH('a) then a + b else - 1)"

definition checked_add :: "nat \<Rightarrow> nat \<Rightarrow> nat option" where
  "checked_add a b = (if a + b \<le> usize_max then Some (a + b) else None)"

definition checked_mul :: "nat \<Rightarrow> nat \<Rightarrow> nat option" where
  "checked_mul a b = (if a * b \<le> usize_max then Some (a * b) else None)"

text \<open>Conversion of a \<^verbatim>\<open>u64\<close> to \<^verbatim>\<open>usize\<close>, which cannot fail on a 64-bit target.\<close>

definition usize_try_from :: "u64 \<Rightarrow> nat option" where
  "usize_try_from v = (if unat v \<le> usize_max then Some (unat v) else None)"

section \<open>Results\<close>

text \<open>\<open>and_then\<close> is the early return of \<^verbatim>\<open>?\<close>: an error is passed on, a value goes on.\<close>

definition and_then :: "'e + 'a \<Rightarrow> ('a \<Rightarrow> 'e + 'b) \<Rightarrow> 'e + 'b" where
  "and_then r f = (case r of Inl e \<Rightarrow> Inl e | Inr a \<Rightarrow> f a)"

definition map_err :: "('e \<Rightarrow> 'f) \<Rightarrow> 'e + 'a \<Rightarrow> 'f + 'a" where
  "map_err g r = (case r of Inl e \<Rightarrow> Inl (g e) | Inr a \<Rightarrow> Inr a)"

definition ok_or :: "'a option \<Rightarrow> 'e \<Rightarrow> 'e + 'a" where
  "ok_or x e = (case x of None \<Rightarrow> Inl e | Some a \<Rightarrow> Inr a)"

definition is_ok :: "'e + 'a \<Rightarrow> bool" where
  "is_ok r = (case r of Inl _ \<Rightarrow> False | Inr _ \<Rightarrow> True)"

section \<open>Bytes\<close>

text \<open>\<open>be_bytes k n\<close>: the \<open>k\<close> low bytes of \<open>n\<close>, most significant first.\<close>

fun be_bytes :: "nat \<Rightarrow> nat \<Rightarrow> bytes" where
  "be_bytes 0 n = []"
| "be_bytes (Suc k) n = be_bytes k (n div 256) @ [of_nat n]"

definition be_val :: "bytes \<Rightarrow> nat" where
  "be_val bs = foldl (\<lambda>a b. a * 256 + unat b) 0 bs"

definition to_be_bytes :: "'a::len word \<Rightarrow> bytes" where
  "to_be_bytes w = be_bytes (LENGTH('a) div 8) (unat w)"

definition from_be_bytes :: "bytes \<Rightarrow> 'a::len word" where
  "from_be_bytes bs = of_nat (be_val bs)"

text \<open>Well-formed UTF-8, as the table of \<^verbatim>\<open>core::str::from_utf8\<close> accepts it.\<close>

definition utf8_cont :: "byte \<Rightarrow> bool" where
  "utf8_cont b = (0x80 \<le> b \<and> b \<le> 0xBF)"

fun utf8_valid :: "bytes \<Rightarrow> bool" where
  "utf8_valid [] = True"
| "utf8_valid (a # bs) =
    (if a < 0x80 then utf8_valid bs
     else (case bs of
        [] \<Rightarrow> False
      | b # cs \<Rightarrow>
          if 0xC2 \<le> a \<and> a \<le> 0xDF then utf8_cont b \<and> utf8_valid cs
          else (case cs of
             [] \<Rightarrow> False
           | c # ds \<Rightarrow>
               if 0xE0 \<le> a \<and> a \<le> 0xEF then
                 (if a = 0xE0 then 0xA0 \<le> b \<and> b \<le> 0xBF
                  else if a = 0xED then 0x80 \<le> b \<and> b \<le> 0x9F
                  else utf8_cont b) \<and> utf8_cont c \<and> utf8_valid ds
               else (case ds of
                  [] \<Rightarrow> False
                | d # es \<Rightarrow>
                    if 0xF0 \<le> a \<and> a \<le> 0xF4 then
                      (if a = 0xF0 then 0x90 \<le> b \<and> b \<le> 0xBF
                       else if a = 0xF4 then 0x80 \<le> b \<and> b \<le> 0x8F
                       else utf8_cont b) \<and> utf8_cont c \<and> utf8_cont d \<and> utf8_valid es
                    else False))))"

section \<open>Facts about results\<close>

lemma and_then_simps [simp]:
  "and_then (Inl e) f = Inl e" "and_then (Inr a) f = f a"
  by (simp_all add: and_then_def)

lemma and_then_cong [fundef_cong]:
  "r = r' \<Longrightarrow> (\<And>a. r' = Inr a \<Longrightarrow> f a = g a) \<Longrightarrow> and_then r f = and_then r' g"
  by (cases r') (auto simp: and_then_def)

lemma and_then_Inr:
  "and_then r f = Inr b \<longleftrightarrow> (\<exists>a. r = Inr a \<and> f a = Inr b)"
  by (cases r) auto

lemma and_then_assoc: "and_then (and_then r f) g = and_then r (\<lambda>a. and_then (f a) g)"
  by (cases r) auto

lemma map_err_simps [simp]:
  "map_err g (Inl e) = Inl (g e)" "map_err g (Inr a) = Inr a"
  by (simp_all add: map_err_def)

lemma map_err_Inr [simp]: "map_err g r = Inr a \<longleftrightarrow> r = Inr a"
  by (cases r) auto

lemma ok_or_simps [simp]: "ok_or None e = Inl e" "ok_or (Some a) e = Inr a"
  by (simp_all add: ok_or_def)

lemma ok_or_Inr [simp]: "ok_or x e = Inr a \<longleftrightarrow> x = Some a"
  by (cases x) auto

lemma is_ok_simps [simp]: "is_ok (Inl e) = False" "is_ok (Inr a) = True"
  by (simp_all add: is_ok_def)

lemma is_ok_iff: "is_ok r \<longleftrightarrow> (\<exists>a. r = Inr a)"
  by (cases r) auto

lemma checked_add_Some: "checked_add a b = Some c \<longleftrightarrow> c = a + b \<and> a + b \<le> usize_max"
  by (auto simp: checked_add_def)

lemma checked_mul_Some: "checked_mul a b = Some c \<longleftrightarrow> c = a * b \<and> a * b \<le> usize_max"
  by (auto simp: checked_mul_def)

lemma unat_lt2p: "unat (w :: 'a::len word) < 2 ^ LENGTH('a)"
  by (rule unsigned_less)

lemma unat_ucast_mod: "unat (ucast (w :: 'a::len word) :: 'b::len word) = unat w mod 2 ^ LENGTH('b)"
  by (simp only: unsigned_ucast_eq take_bit_eq_mod)

lemma unat_ucast_up:
  "unat (ucast (a :: u8) :: u64) = unat a" "unat (ucast (b :: u16) :: u64) = unat b"
  "unat (ucast (c :: u32) :: u64) = unat c"
  using unat_lt2p [of a] unat_lt2p [of b] unat_lt2p [of c]
  by (simp_all add: unsigned_ucast_eq take_bit_eq_mod)

lemma ucast_ucast_down [simp]:
  "ucast (ucast (a :: u8) :: u64) = a" "ucast (ucast (b :: u16) :: u64) = b"
  "ucast (ucast (c :: u32) :: u64) = c"
  using unat_lt2p [of a] unat_lt2p [of b] unat_lt2p [of c]
  by (simp_all add: word_unat_eq_iff unat_ucast_mod)

lemma ucast_ucast_up:
  "unat (v :: u64) < 2 ^ LENGTH('a::len) \<Longrightarrow> ucast (ucast v :: 'a word) = v"
  using unat_lt2p [of v] by (simp only: word_unat_eq_iff unat_ucast_mod) simp

lemma unat_le_usize_max: "unat (v :: u64) \<le> usize_max"
proof -
  have "unat v < 2 ^ 64" using unat_lt2p [of v] by simp
  then show ?thesis by (simp add: usize_max_def)
qed

lemma usize_try_from_Some [simp]: "usize_try_from v = Some (unat v)"
  by (simp add: usize_try_from_def unat_le_usize_max)

section \<open>Facts about bytes and words\<close>

lemma length_be_bytes [simp]: "length (be_bytes k n) = k"
  by (induction k arbitrary: n) auto

lemma be_bytes_numeral [simp]:
  "be_bytes (numeral k) n = be_bytes (pred_numeral k) (n div 256) @ [of_nat n]"
  by (simp only: numeral_eq_Suc [of k] be_bytes.simps)

lemma be_val_Nil [simp]: "be_val [] = 0"
  by (simp add: be_val_def)

lemma be_val_snoc [simp]: "be_val (bs @ [b]) = be_val bs * 256 + unat b"
  by (simp add: be_val_def)

lemma be_val_be_bytes: "be_val (be_bytes k n) = n mod 256 ^ k"
proof (induction k arbitrary: n)
  case 0
  then show ?case by simp
next
  case (Suc k)
  have "be_val (be_bytes (Suc k) n) = (n div 256) mod 256 ^ k * 256 + n mod 256"
    by (simp add: Suc.IH unat_of_nat)
  also have "\<dots> = n mod (256 * 256 ^ k)"
    by (simp add: mod_mult2_eq)
  finally show ?case by simp
qed

lemma be_val_bound: "be_val bs < 256 ^ length bs"
proof (induction bs rule: rev_induct)
  case Nil
  then show ?case by simp
next
  case (snoc b bs)
  have "unat b < 256" using unat_lt2p [of b] by simp
  with snoc.IH show ?case by simp
qed

lemma be_bytes_be_val: "length bs = k \<Longrightarrow> be_bytes k (be_val bs) = bs"
proof (induction bs arbitrary: k rule: rev_induct)
  case Nil
  then show ?case by simp
next
  case (snoc b bs)
  have b: "unat b < 256" using unat_lt2p [of b] by simp
  have "(of_nat (be_val bs * 256 + unat b) :: byte) = b"
    using b by (simp only: word_unat_eq_iff unat_of_nat) simp
  moreover have "(be_val bs * 256 + unat b) div 256 = be_val bs" using b by simp
  moreover obtain j where "k = Suc j" "length bs = j" using snoc.prems by (cases k) auto
  ultimately show ?case using snoc.IH [of j] by simp
qed

lemma length_to_be_bytes [simp]: "length (to_be_bytes (w :: 'a::len word)) = LENGTH('a) div 8"
  by (simp add: to_be_bytes_def)

lemma from_to_be_bytes [simp]:
  assumes "8 dvd LENGTH('a::len)"
  shows "from_be_bytes (to_be_bytes (w :: 'a word)) = w"
proof -
  obtain m where m: "LENGTH('a) = 8 * m" using assms by blast
  then have "256 ^ (LENGTH('a) div 8) = (2::nat) ^ LENGTH('a)"
    by (simp add: power_mult)
  then show ?thesis
    using unat_lt2p [of w] by (simp add: from_be_bytes_def to_be_bytes_def be_val_be_bytes)
qed

lemma power_256: "(256::nat) ^ k = 2 ^ (k * 8)"
proof -
  have "(2::nat) ^ (8 * k) = (2 ^ 8) ^ k" by (rule power_mult)
  then show ?thesis by (simp add: mult.commute)
qed

lemma to_from_be_bytes:
  assumes "length bs * 8 = LENGTH('a::len)"
  shows "to_be_bytes (from_be_bytes bs :: 'a word) = bs"
proof -
  have "be_val bs < 2 ^ LENGTH('a)"
    using be_val_bound [of bs] by (simp add: power_256 assms)
  moreover have "LENGTH('a) div 8 = length bs" using assms by simp
  ultimately show ?thesis
    by (simp add: to_be_bytes_def from_be_bytes_def unat_of_nat be_bytes_be_val)
qed

section \<open>Cursors into a byte list\<close>

lemma drop_ConsD:
  assumes "drop off d = x # xs"
  shows "off < length d" and "d ! off = x" and "drop (Suc off) d = xs"
proof -
  show l: "off < length d" using assms by (cases "off < length d") auto
  then show "d ! off = x" and "drop (Suc off) d = xs"
    using assms by (simp_all add: Cons_nth_drop_Suc [symmetric])
qed

lemma drop_append_len: "drop off d = xs @ ys \<Longrightarrow> drop (off + length xs) d = ys"
proof -
  assume "drop off d = xs @ ys"
  then have "drop (length xs) (drop off d) = ys" by simp
  then show ?thesis by (simp add: add.commute)
qed

lemma drop_length: "drop off d = xs \<Longrightarrow> xs \<noteq> [] \<Longrightarrow> length d = off + length xs"
  by auto

end
