(* ===== verification/Cbor_Float.thy ===== *)
theory Cbor_Float
  imports Prelude
begin

text \<open>
  Floating-point values as the CBOR codec handles them (\<^verbatim>\<open>cbor/src/encode.rs\<close>,
  \<^verbatim>\<open>cbor/src/decode/head.rs\<close>, \<^verbatim>\<open>cbor/src/decode/impls.rs\<close>). A float is its
  bit pattern: \<^verbatim>\<open>f64\<close> a 64-bit word, \<^verbatim>\<open>f32\<close> a 32-bit word and the
  \<^verbatim>\<open>f16\<close> of the \<^verbatim>\<open>half\<close> crate a 16-bit word. Comparison, \<^verbatim>\<open>is_nan\<close>,
  \<^verbatim>\<open>classify\<close> and the widening of \<^verbatim>\<open>f32\<close> to \<^verbatim>\<open>f64\<close> are the
  standard library's and are defined on the bits. The narrowing conversions come from
  the \<^verbatim>\<open>half\<close> and \<^verbatim>\<open>num_traits\<close> crates, whose sources are not part of the
  repository: they are the fields of \<open>float_ops\<close>, an argument of every definition that
  uses them.
\<close>

type_synonym f16 = "16 word"
type_synonym f32 = "32 word"
type_synonym f64 = "64 word"

record float_ops =
  f16_from_f64 :: "f64 \<Rightarrow> f16 option"
  f16_to_f64 :: "f16 \<Rightarrow> f64"
  f16_from_f32 :: "f32 \<Rightarrow> f16 option"
  f16_to_f32 :: "f16 \<Rightarrow> f32 option"
  f32_from_f64 :: "f64 \<Rightarrow> f32 option"
  f32_to_f64 :: "f32 \<Rightarrow> f64 option"
  f16_NAN :: f16

datatype FpCategory = Nan | Infinite | Zero | Subnormal | Normal

text \<open>\<open>classify\<close> of a float with \<open>m\<close> mantissa and \<open>e\<close> exponent bits.\<close>

definition classify_bits :: "nat \<Rightarrow> nat \<Rightarrow> 'a::len word \<Rightarrow> FpCategory" where
  "classify_bits m e w =
    (let man = unat w mod 2 ^ m; ex = unat w div 2 ^ m mod 2 ^ e
     in if ex = 2 ^ e - 1 then (if man = 0 then Infinite else Nan)
        else if ex = 0 then (if man = 0 then Zero else Subnormal)
        else Normal)"

definition f32_classify :: "f32 \<Rightarrow> FpCategory" where
  "f32_classify = classify_bits 23 8"

definition f64_classify :: "f64 \<Rightarrow> FpCategory" where
  "f64_classify = classify_bits 52 11"

definition f32_is_nan :: "f32 \<Rightarrow> bool" where
  "f32_is_nan v = (f32_classify v = Nan)"

definition f64_is_nan :: "f64 \<Rightarrow> bool" where
  "f64_is_nan v = (f64_classify v = Nan)"

text \<open>The IEEE comparison \<^verbatim>\<open>==\<close>: not a NaN, and the same bits or two zeros.\<close>

definition f64_eq :: "f64 \<Rightarrow> f64 \<Rightarrow> bool" where
  "f64_eq a b = (\<not> f64_is_nan a \<and> \<not> f64_is_nan b \<and>
     (a = b \<or> (f64_classify a = Zero \<and> f64_classify b = Zero)))"

definition f32_eq :: "f32 \<Rightarrow> f32 \<Rightarrow> bool" where
  "f32_eq a b = (\<not> f32_is_nan a \<and> \<not> f32_is_nan b \<and>
     (a = b \<or> (f32_classify a = Zero \<and> f32_classify b = Zero)))"

text \<open>The position of the highest set bit of \<open>m\<close> below \<open>2 ^ k\<close>.\<close>

fun top_bit :: "nat \<Rightarrow> nat \<Rightarrow> nat" where
  "top_bit 0 m = 0"
| "top_bit (Suc k) m = (if 2 ^ k \<le> m then k else top_bit k m)"

text \<open>
  \<^verbatim>\<open>f64::from(f32)\<close>: exact for every number; a NaN stays a NaN, made quiet, with its
  payload moved to the high mantissa bits.
\<close>

definition f32_into_f64 :: "f32 \<Rightarrow> f64" where
  "f32_into_f64 w =
    (let n = unat w; s = n div 2 ^ 31; ex = n div 2 ^ 23 mod 2 ^ 8; man = n mod 2 ^ 23;
         sign = s * 2 ^ 63
     in if ex = 255 then
          (if man = 0 then of_nat (sign + 2047 * 2 ^ 52)
           else of_nat (sign + 2047 * 2 ^ 52 + 2 ^ 51 + (man mod 2 ^ 22) * 2 ^ 29))
        else if ex = 0 then
          (if man = 0 then of_nat sign
           else let k = top_bit 23 man
                in of_nat (sign + (874 + k) * 2 ^ 52 + (man - 2 ^ k) * 2 ^ (52 - k)))
        else of_nat (sign + (ex + 896) * 2 ^ 52 + man * 2 ^ 29))"

text \<open>
  \<open>lossless_float_coerce\<close>: the narrowed value, when widening it again compares equal.
\<close>

definition lossless_float_coerce ::
  "(f64 \<Rightarrow> 'a option) \<Rightarrow> ('a \<Rightarrow> f64) \<Rightarrow> f64 \<Rightarrow> 'a option" where
  "lossless_float_coerce from_f64 into_f64 v =
    (case from_f64 v of
       Some f \<Rightarrow> if f64_eq (into_f64 f) v then Some f else None
     | None \<Rightarrow> None)"

lemma lossless_float_coerce_Some:
  "lossless_float_coerce fr into v = Some f \<longleftrightarrow> fr v = Some f \<and> f64_eq (into f) v"
  by (auto simp: lossless_float_coerce_def split: option.splits if_splits)

lemma f64_eq_sym: "f64_eq a b \<Longrightarrow> f64_eq b a"
  by (auto simp: f64_eq_def)

lemma f64_eq_refl: "\<not> f64_is_nan a \<Longrightarrow> f64_eq a a"
  by (simp add: f64_eq_def)

lemma f64_eq_not_nan: "f64_eq a b \<Longrightarrow> \<not> f64_is_nan a" "f64_eq a b \<Longrightarrow> \<not> f64_is_nan b"
  by (auto simp: f64_eq_def)

end
