(* ===== verification/Cbor_Encode.thy ===== *)
theory Cbor_Encode
  imports Cbor_Float
begin

unbundle bit_operations_syntax

text \<open>
  The canonical CBOR encoder, \<^verbatim>\<open>cbor/src/encode.rs\<close>. An \<open>encoder\<close> is the byte
  buffer under construction. A method that cannot fail is a function from encoder to
  encoder; one that may panic (a definite-length sequence that receives the wrong number
  of items) returns an option, \<open>None\<close> being the panic. The closures that fill arrays
  and maps are functions on the \<open>sequence\<close> helper.
\<close>

record encoder =
  enc_data :: bytes

text \<open>A \<^verbatim>\<open>ToCbor\<close> implementation: what \<^verbatim>\<open>to_cbor\<close> does to the encoder.\<close>

type_synonym emitter = "encoder \<Rightarrow> encoder option"

section \<open>Encoder\<close>

definition encoder_new :: encoder where
  "encoder_new = \<lparr>enc_data = []\<rparr>"

definition encoder_build :: "encoder \<Rightarrow> bytes" where
  "encoder_build e = enc_data e"

definition encoder_offset :: "encoder \<Rightarrow> nat" where
  "encoder_offset e = length (enc_data e)"

definition push_all :: "bytes \<Rightarrow> encoder \<Rightarrow> encoder" where
  "push_all bs e = e\<lparr>enc_data := enc_data e @ bs\<rparr>"

definition emit_extend :: "bytes \<Rightarrow> encoder \<Rightarrow> (nat \<times> nat) \<times> encoder" where
  "emit_extend b e =
    (let start = encoder_offset e; e' = push_all b e
     in ((start, encoder_offset e'), e'))"

definition emit_uint_minor :: "u8 \<Rightarrow> u64 \<Rightarrow> encoder \<Rightarrow> encoder" where
  "emit_uint_minor major val e =
    (if val < 24 then push_all [push_bit 5 major OR ucast val] e
     else if val < 0x100 then
       push_all [ucast val] (push_all [push_bit 5 major OR 24] e)
     else if val < 0x10000 then
       push_all (to_be_bytes (ucast val :: u16)) (push_all [push_bit 5 major OR 25] e)
     else if val < 0x100000000 then
       push_all (to_be_bytes (ucast val :: u32)) (push_all [push_bit 5 major OR 26] e)
     else push_all (to_be_bytes val) (push_all [push_bit 5 major OR 27] e))"

definition emit_tag :: "u64 \<Rightarrow> encoder \<Rightarrow> encoder" where
  "emit_tag tag e = emit_uint_minor 6 tag e"

definition emit_raw :: "bytes \<Rightarrow> encoder \<Rightarrow> (nat \<times> nat) \<times> encoder" where
  "emit_raw d e =
    (let start = encoder_offset e; e' = push_all d e
     in ((start, encoder_offset e'), e'))"

definition emit_bytes :: "bytes \<Rightarrow> encoder \<Rightarrow> (nat \<times> nat) \<times> encoder" where
  "emit_bytes b e = emit_extend b (emit_uint_minor 2 (of_nat (length b)) e)"

definition emit_string :: "bytes \<Rightarrow> encoder \<Rightarrow> (nat \<times> nat) \<times> encoder" where
  "emit_string b e = emit_extend b (emit_uint_minor 3 (of_nat (length b)) e)"

section \<open>Indefinite-length strings\<close>

definition byte_stream_new :: "encoder \<Rightarrow> encoder" where
  "byte_stream_new e = push_all [push_bit 5 2 OR 31] e"

definition byte_stream_emit :: "bytes \<Rightarrow> encoder \<Rightarrow> encoder" where
  "byte_stream_emit b e = snd (emit_bytes b e)"

definition byte_stream_end :: "encoder \<Rightarrow> encoder" where
  "byte_stream_end e = push_all [0xFF] e"

definition emit_byte_stream :: "(encoder \<Rightarrow> encoder) \<Rightarrow> encoder \<Rightarrow> encoder" where
  "emit_byte_stream f e = byte_stream_end (f (byte_stream_new e))"

definition text_stream_new :: "encoder \<Rightarrow> encoder" where
  "text_stream_new e = push_all [push_bit 5 3 OR 31] e"

definition text_stream_emit :: "bytes \<Rightarrow> encoder \<Rightarrow> encoder" where
  "text_stream_emit b e = snd (emit_string b e)"

definition text_stream_end :: "encoder \<Rightarrow> encoder" where
  "text_stream_end e = push_all [0xFF] e"

definition emit_text_stream :: "(encoder \<Rightarrow> encoder) \<Rightarrow> encoder \<Rightarrow> encoder" where
  "emit_text_stream f e = text_stream_end (f (text_stream_new e))"

section \<open>Arrays and maps\<close>

record sequence =
  seq_encoder :: encoder
  seq_start :: nat
  seq_count :: "nat option"
  seq_idx :: nat

text \<open>
  \<open>D\<close> is the const generic of \<^verbatim>\<open>Sequence\<close>: 1 for an array, 2 for a map. The
  product \<^verbatim>\<open>c * D\<close> is a \<^verbatim>\<open>usize\<close> multiplication.
\<close>

definition sequence_new :: "nat \<Rightarrow> encoder \<Rightarrow> nat option \<Rightarrow> sequence" where
  "sequence_new D e count =
    (let start = encoder_offset e; major = (if D = 1 then 4 else 5);
         e' = (case count of
                 Some c \<Rightarrow> emit_uint_minor major (of_nat c) e
               | None \<Rightarrow> push_all [push_bit 5 major OR 31] e)
     in \<lparr>seq_encoder = e', seq_start = start,
         seq_count = map_option (\<lambda>c. c * D mod 2 ^ 64) count, seq_idx = 0\<rparr>)"

definition sequence_offset :: "sequence \<Rightarrow> nat" where
  "sequence_offset s = encoder_offset (seq_encoder s) - seq_start s"

definition next_field :: "sequence \<Rightarrow> sequence option" where
  "next_field s =
    (let s' = s\<lparr>seq_idx := seq_idx s + 1\<rparr>
     in case seq_count s' of
          Some count \<Rightarrow> if seq_idx s' > count then None else Some s'
        | None \<Rightarrow> Some s')"

definition sequence_end :: "sequence \<Rightarrow> encoder option" where
  "sequence_end s =
    (case seq_count s of
       None \<Rightarrow> Some (push_all [0xFF] (seq_encoder s))
     | Some count \<Rightarrow> if seq_idx s \<noteq> count then None else Some (seq_encoder s))"

definition sequence_skip_value :: "sequence \<Rightarrow> sequence option" where
  "sequence_skip_value s = next_field s"

definition sequence_emit :: "emitter \<Rightarrow> sequence \<Rightarrow> sequence option" where
  "sequence_emit em s =
    (case next_field s of
       None \<Rightarrow> None
     | Some s' \<Rightarrow> (case em (seq_encoder s') of
                     None \<Rightarrow> None
                   | Some e' \<Rightarrow> Some (s'\<lparr>seq_encoder := e'\<rparr>)))"

definition emit_seq :: "nat \<Rightarrow> nat option \<Rightarrow> (sequence \<Rightarrow> sequence option) \<Rightarrow> emitter" where
  "emit_seq D count f e =
    (case f (sequence_new D e count) of None \<Rightarrow> None | Some a \<Rightarrow> sequence_end a)"

definition emit_array :: "nat option \<Rightarrow> (sequence \<Rightarrow> sequence option) \<Rightarrow> emitter" where
  "emit_array count f e = emit_seq 1 count f e"

definition emit_map :: "nat option \<Rightarrow> (sequence \<Rightarrow> sequence option) \<Rightarrow> emitter" where
  "emit_map count f e = emit_seq 2 count f e"

text \<open>
  The fallible variants: the closure may also return an error, which is passed on (the
  caller then drops the partly written buffer).
\<close>

definition try_emit_seq ::
  "nat \<Rightarrow> nat option \<Rightarrow> (sequence \<Rightarrow> ('e + sequence) option) \<Rightarrow> encoder \<Rightarrow> ('e + encoder) option"
  where
  "try_emit_seq D count f e =
    (case f (sequence_new D e count) of
       None \<Rightarrow> None
     | Some (Inl err) \<Rightarrow> Some (Inl err)
     | Some (Inr a) \<Rightarrow> map_option Inr (sequence_end a))"

definition try_emit_array ::
  "nat option \<Rightarrow> (sequence \<Rightarrow> ('e + sequence) option) \<Rightarrow> encoder \<Rightarrow> ('e + encoder) option" where
  "try_emit_array count f e = try_emit_seq 1 count f e"

definition try_emit_map ::
  "nat option \<Rightarrow> (sequence \<Rightarrow> ('e + sequence) option) \<Rightarrow> encoder \<Rightarrow> ('e + encoder) option" where
  "try_emit_map count f e = try_emit_seq 2 count f e"

text \<open>Emitting a list of items into a sequence, the body of the loops and tuples below.\<close>

fun emit_fields :: "emitter list \<Rightarrow> sequence \<Rightarrow> sequence option" where
  "emit_fields [] s = Some s"
| "emit_fields (em # ems) s =
    (case sequence_emit em s of None \<Rightarrow> None | Some s' \<Rightarrow> emit_fields ems s')"

definition emit_array_slice :: "emitter list \<Rightarrow> emitter" where
  "emit_array_slice values e =
    (case emit_fields values (sequence_new 1 e (Some (length values))) of
       None \<Rightarrow> None | Some a \<Rightarrow> sequence_end a)"

section \<open>ToCbor implementations\<close>

definition tagged_to_cbor :: "u64 \<Rightarrow> emitter \<Rightarrow> emitter" where
  "tagged_to_cbor tag inner e = inner (emit_tag tag e)"

definition raw_to_cbor :: "bytes \<Rightarrow> emitter" where
  "raw_to_cbor b e = Some (snd (emit_raw b e))"

definition bytes_header_to_cbor :: "u64 \<Rightarrow> emitter" where
  "bytes_header_to_cbor n e = Some (emit_uint_minor 2 n e)"

definition bytes_to_cbor :: "bytes \<Rightarrow> emitter" where
  "bytes_to_cbor b e = Some (snd (emit_bytes b e))"

definition string_to_cbor :: "bytes \<Rightarrow> emitter" where
  "string_to_cbor b e = Some (snd (emit_string b e))"

definition uint_to_cbor :: "'a::len word \<Rightarrow> emitter" where
  "uint_to_cbor v e = Some (emit_uint_minor 0 (ucast v) e)"

text \<open>Signed integers are read by \<open>sint\<close>; \<^verbatim>\<open>unsigned_abs\<close> cannot overflow.\<close>

definition int_to_cbor :: "'a::len word \<Rightarrow> emitter" where
  "int_to_cbor v e =
    Some (if 0 \<le> sint v then emit_uint_minor 0 (of_int (sint v)) e
          else emit_uint_minor 1 (of_int \<bar>sint v\<bar> - 1) e)"

definition bool_to_cbor :: "bool \<Rightarrow> emitter" where
  "bool_to_cbor b e = Some (push_all [push_bit 5 7 OR (if b then 21 else 20)] e)"

definition f16_to_cbor :: "f16 \<Rightarrow> emitter" where
  "f16_to_cbor f e = Some (push_all (to_be_bytes f) (push_all [push_bit 5 7 OR 25] e))"

definition f32_to_cbor :: "float_ops \<Rightarrow> f32 \<Rightarrow> emitter" where
  "f32_to_cbor F v e =
    Some (if f32_is_nan v then
            push_all (to_be_bytes (f16_NAN F)) (push_all [push_bit 5 7 OR 25] e)
          else (case lossless_float_coerce (f16_from_f64 F) (f16_to_f64 F) (f32_into_f64 v) of
             Some f \<Rightarrow> push_all (to_be_bytes f) (push_all [push_bit 5 7 OR 25] e)
           | None \<Rightarrow> push_all (to_be_bytes v) (push_all [push_bit 5 7 OR 26] e)))"

definition f64_to_cbor :: "float_ops \<Rightarrow> f64 \<Rightarrow> emitter" where
  "f64_to_cbor F v e =
    Some (if f64_is_nan v then
            push_all (to_be_bytes (f16_NAN F)) (push_all [push_bit 5 7 OR 25] e)
          else (case lossless_float_coerce (f16_from_f64 F) (f16_to_f64 F) v of
             Some f \<Rightarrow> push_all (to_be_bytes f) (push_all [push_bit 5 7 OR 25] e)
           | None \<Rightarrow> (case lossless_float_coerce (f32_from_f64 F) f32_into_f64 v of
                Some f \<Rightarrow> push_all (to_be_bytes f) (push_all [push_bit 5 7 OR 26] e)
              | None \<Rightarrow> push_all (to_be_bytes v) (push_all [push_bit 5 7 OR 27] e))))"

definition option_to_cbor :: "('a \<Rightarrow> emitter) \<Rightarrow> 'a option \<Rightarrow> emitter" where
  "option_to_cbor em x e =
    (case x of Some v \<Rightarrow> em v e | None \<Rightarrow> Some (push_all [push_bit 5 7 OR 23] e))"

definition slice_to_cbor :: "('a \<Rightarrow> emitter) \<Rightarrow> 'a list \<Rightarrow> emitter" where
  "slice_to_cbor em xs e = emit_array_slice (map em xs) e"

text \<open>A tuple of 2 to 16 components, each given by its own emitter.\<close>

definition tuple_to_cbor :: "emitter list \<Rightarrow> emitter" where
  "tuple_to_cbor ems e = emit_array (Some (length ems)) (emit_fields ems) e"

definition emit_value :: "emitter \<Rightarrow> bytes option" where
  "emit_value em = map_option encoder_build (em encoder_new)"

section \<open>What the emitters append\<close>

text \<open>
  \<open>writes em bs\<close>: the emitter never panics and appends exactly \<open>bs\<close>, whatever the
  buffer holds. The initial bytes of an item as one byte string: \<open>head_bytes\<close>.
\<close>

definition writes :: "emitter \<Rightarrow> bytes \<Rightarrow> bool" where
  "writes em bs \<longleftrightarrow> (\<forall>e. em e = Some (push_all bs e))"

definition head_bytes :: "u8 \<Rightarrow> u64 \<Rightarrow> bytes" where
  "head_bytes major val = enc_data (emit_uint_minor major val encoder_new)"

lemma push_all_push_all [simp]: "push_all bs (push_all cs e) = push_all (cs @ bs) e"
  by (simp add: push_all_def)

lemma push_all_Nil [simp]: "push_all [] e = e"
  by (simp add: push_all_def)

lemma enc_data_push_all [simp]: "enc_data (push_all bs e) = enc_data e @ bs"
  by (simp add: push_all_def)

lemma enc_data_new [simp]: "enc_data encoder_new = []"
  by (simp add: encoder_new_def)

lemma encoder_offset_push_all [simp]: "encoder_offset (push_all bs e) = encoder_offset e + length bs"
  by (simp add: encoder_offset_def)

lemma emit_uint_minor_eq: "emit_uint_minor major val e = push_all (head_bytes major val) e"
  by (simp add: head_bytes_def emit_uint_minor_def)

lemma head_bytes_cases:
  "head_bytes major val =
    (if val < 24 then [push_bit 5 major OR ucast val]
     else if val < 0x100 then [push_bit 5 major OR 24, ucast val]
     else if val < 0x10000 then (push_bit 5 major OR 25) # to_be_bytes (ucast val :: u16)
     else if val < 0x100000000 then (push_bit 5 major OR 26) # to_be_bytes (ucast val :: u32)
     else (push_bit 5 major OR 27) # to_be_bytes val)"
  by (simp add: head_bytes_def emit_uint_minor_def)

lemma length_head_bytes:
  "length (head_bytes major val) =
    (if val < 24 then 1 else if val < 0x100 then 2 else if val < 0x10000 then 3
     else if val < 0x100000000 then 5 else 9)"
  by (simp add: head_bytes_cases)

lemma head_bytes_nonempty [simp]: "head_bytes major val \<noteq> []" "0 < length (head_bytes major val)"
  by (simp_all add: head_bytes_cases)

lemma emit_extend_eq:
  "emit_extend b e = ((encoder_offset e, encoder_offset e + length b), push_all b e)"
  by (simp add: emit_extend_def Let_def)

lemma emit_raw_eq:
  "emit_raw b e = ((encoder_offset e, encoder_offset e + length b), push_all b e)"
  by (simp add: emit_raw_def Let_def)

lemma snd_emit_bytes: "snd (emit_bytes b e) = push_all (head_bytes 2 (of_nat (length b)) @ b) e"
  by (simp add: emit_bytes_def emit_extend_eq emit_uint_minor_eq)

lemma snd_emit_string: "snd (emit_string b e) = push_all (head_bytes 3 (of_nat (length b)) @ b) e"
  by (simp add: emit_string_def emit_extend_eq emit_uint_minor_eq)

lemma writesD: "writes em bs \<Longrightarrow> em e = Some (push_all bs e)"
  by (simp add: writes_def)

lemma writes_emit_value: "writes em bs \<Longrightarrow> emit_value em = Some bs"
  by (simp add: writes_def emit_value_def encoder_build_def)

lemma writes_raw [intro]: "writes (raw_to_cbor b) b"
  by (simp add: writes_def raw_to_cbor_def emit_raw_eq)

lemma writes_bytes_header [intro]: "writes (bytes_header_to_cbor n) (head_bytes 2 n)"
  by (simp add: writes_def bytes_header_to_cbor_def emit_uint_minor_eq)

lemma writes_bytes [intro]: "writes (bytes_to_cbor b) (head_bytes 2 (of_nat (length b)) @ b)"
  by (simp add: writes_def bytes_to_cbor_def snd_emit_bytes)

lemma writes_string [intro]: "writes (string_to_cbor b) (head_bytes 3 (of_nat (length b)) @ b)"
  by (simp add: writes_def string_to_cbor_def snd_emit_string)

lemma writes_uint [intro]: "writes (uint_to_cbor v) (head_bytes 0 (ucast v))"
  by (simp add: writes_def uint_to_cbor_def emit_uint_minor_eq)

lemma writes_bool [intro]: "writes (bool_to_cbor b) [if b then 0xF5 else 0xF4]"
  by (simp add: writes_def bool_to_cbor_def)

lemma writes_tagged [intro]: "writes em bs \<Longrightarrow> writes (tagged_to_cbor t em) (head_bytes 6 t @ bs)"
  by (simp add: writes_def tagged_to_cbor_def emit_tag_def emit_uint_minor_eq)

section \<open>Sequences emit exactly their declared number of items\<close>

lemma sequence_emit_writes:
  "writes em bs \<Longrightarrow> sequence_emit em s =
    (case seq_count s of
       Some c \<Rightarrow> if c \<le> seq_idx s then None
                 else Some (s\<lparr>seq_idx := Suc (seq_idx s), seq_encoder := push_all bs (seq_encoder s)\<rparr>)
     | None \<Rightarrow> Some (s\<lparr>seq_idx := Suc (seq_idx s), seq_encoder := push_all bs (seq_encoder s)\<rparr>))"
  by (auto simp: sequence_emit_def next_field_def writes_def Let_def split: option.splits)

lemma emit_fields_writes:
  assumes "list_all2 writes ems bss"
  shows "emit_fields ems s =
    (if case seq_count s of Some c \<Rightarrow> ems \<noteq> [] \<and> c < seq_idx s + length ems | None \<Rightarrow> False then None
     else Some (s\<lparr>seq_idx := seq_idx s + length ems,
                  seq_encoder := push_all (concat bss) (seq_encoder s)\<rparr>))"
  using assms
proof (induction ems bss arbitrary: s rule: list_all2_induct)
  case Nil
  then show ?case by (simp split: option.splits)
next
  case (Cons em ems bs bss)
  then show ?case
    by (cases "seq_count s") (auto simp: sequence_emit_writes)
qed

lemma emit_seq_writes:
  assumes "list_all2 writes ems bss"
  shows "emit_seq D count (emit_fields ems) e =
    (case count of
       Some c \<Rightarrow> if length ems = c * D mod 2 ^ 64
                 then Some (push_all (head_bytes (if D = 1 then 4 else 5) (of_nat c) @ concat bss) e)
                 else None
     | None \<Rightarrow> Some (push_all ((push_bit 5 (if D = 1 then 4 else 5) OR 31) # concat bss @ [0xFF]) e))"
  by (cases count)
    (auto simp: emit_seq_def emit_fields_writes [OF assms] sequence_new_def sequence_end_def
      Let_def emit_uint_minor_eq)

lemma writes_tuple [intro]:
  assumes "list_all2 writes ems bss" and "length ems < 2 ^ 64"
  shows "writes (tuple_to_cbor ems) (head_bytes 4 (of_nat (length ems)) @ concat bss)"
  using assms by (simp add: writes_def tuple_to_cbor_def emit_array_def emit_seq_writes)

lemma emit_array_slice_eq: "emit_array_slice ems = tuple_to_cbor ems"
  by (rule ext) (simp add: emit_array_slice_def tuple_to_cbor_def emit_array_def emit_seq_def)

lemma writes_slice:
  assumes "list_all2 (\<lambda>x bs. writes (em x) bs) xs bss" and "length xs < 2 ^ 64"
  shows "writes (slice_to_cbor em xs) (head_bytes 4 (of_nat (length xs)) @ concat bss)"
proof -
  have "list_all2 writes (map em xs) bss"
    using assms(1) by (simp add: list_all2_map1)
  then show ?thesis
    using writes_tuple [of "map em xs" bss] assms(2)
    by (simp add: writes_def slice_to_cbor_def emit_array_slice_eq)
qed

end
