(* ===== verification/Cbor_Head.thy ===== *)
theory Cbor_Head
  imports Cbor_Encode
begin

unbundle bit_operations_syntax

text \<open>
  The head of a CBOR data item, \<^verbatim>\<open>cbor/src/decode/head.rs\<close>, with the error type of
  \<^verbatim>\<open>cbor/src/decode/mod.rs\<close>. \<open>head_from_cbor\<close> has the two paths of the source: the
  fast one when nine bytes are at hand, the byte-at-a-time one otherwise. A slice
  \<^verbatim>\<open>&data[offset..]\<close> is \<open>drop offset data\<close>; the bounds lemmas show that no offset
  ever passes the end of the slice, where Rust would panic. The value of a
  \<^verbatim>\<open>Utf8Error\<close> or \<^verbatim>\<open>TryFromIntError\<close> is not modelled.
\<close>

datatype ItemKind = KUnsignedInteger | KNegativeInteger | KDefiniteBytes | KIndefiniteBytes
  | KDefiniteText | KIndefiniteText | KDefiniteArray | KIndefiniteArray | KDefiniteMap
  | KIndefiniteMap | KFalse | KTrue | KNull | KUndefined | KSimple u8 | KFloat

record ItemType =
  it_tagged :: bool
  it_kind :: ItemKind

datatype cbor_error = TooBig | NeedMoreData nat | AdditionalItems | NoMoreItems
  | InvalidMinorValue u8 | IncorrectType string ItemType | UnexpectedTag | InvalidChunk
  | InvalidSimpleType u8 | PartialMap | MaxRecursion | InvalidUtf8 | TryFromIntError
  | PrecisionLoss

datatype marker = UnsignedInteger u64 | NegativeInteger u64 | Bytes "u64 option"
  | Text "u64 option" | Array "u64 option" | Map "u64 option" | MFalse | MTrue | MNull
  | MUndefined | Simple u8 | Float f64

record head =
  head_tags :: "u64 list"
  head_marker :: marker

fun kind_of_marker :: "marker \<Rightarrow> ItemKind" where
  "kind_of_marker (UnsignedInteger _) = KUnsignedInteger"
| "kind_of_marker (NegativeInteger _) = KNegativeInteger"
| "kind_of_marker (Bytes (Some _)) = KDefiniteBytes"
| "kind_of_marker (Bytes None) = KIndefiniteBytes"
| "kind_of_marker (Text (Some _)) = KDefiniteText"
| "kind_of_marker (Text None) = KIndefiniteText"
| "kind_of_marker (Array (Some _)) = KDefiniteArray"
| "kind_of_marker (Array None) = KIndefiniteArray"
| "kind_of_marker (Map (Some _)) = KDefiniteMap"
| "kind_of_marker (Map None) = KIndefiniteMap"
| "kind_of_marker MFalse = KFalse"
| "kind_of_marker MTrue = KTrue"
| "kind_of_marker MNull = KNull"
| "kind_of_marker MUndefined = KUndefined"
| "kind_of_marker (Simple v) = KSimple v"
| "kind_of_marker (Float _) = KFloat"

definition head_item_type :: "head \<Rightarrow> ItemType" where
  "head_item_type h =
    \<lparr>it_tagged = (head_tags h \<noteq> []), it_kind = kind_of_marker (head_marker h)\<rparr>"

section \<open>Initial-byte arguments\<close>

text \<open>\<open>to_array n\<close>: the first \<open>n\<close> bytes, or how many are missing.\<close>

definition to_array :: "nat \<Rightarrow> bytes \<Rightarrow> cbor_error + bytes" where
  "to_array n d =
    (if length d < n then Inl (NeedMoreData (n - length d)) else Inr (take n d))"

definition parse_uint_minor :: "u8 \<Rightarrow> bytes \<Rightarrow> cbor_error + (u64 \<times> bool \<times> nat)" where
  "parse_uint_minor minor d =
    (if minor = 24 then
       (case d of [] \<Rightarrow> Inl (NeedMoreData 1) | v # _ \<Rightarrow> Inr (ucast v, v > 23, 1))
     else if minor = 25 then
       and_then (to_array 2 d) (\<lambda>a. let v = (from_be_bytes a :: u16)
         in Inr (ucast v, v > 0xFF, 2))
     else if minor = 26 then
       and_then (to_array 4 d) (\<lambda>a. let v = (from_be_bytes a :: u32)
         in Inr (ucast v, v > 0xFFFF, 4))
     else if minor = 27 then
       and_then (to_array 8 d) (\<lambda>a. let v = (from_be_bytes a :: u64)
         in Inr (v, v > 0xFFFFFFFF, 8))
     else if minor < 24 then Inr (ucast minor, True, 0)
     else Inl (InvalidMinorValue minor))"

text \<open>The fast variant reads from eight bytes that are known to be there.\<close>

definition parse_uint_minor_fast :: "u8 \<Rightarrow> bytes \<Rightarrow> cbor_error + (u64 \<times> bool \<times> nat)" where
  "parse_uint_minor_fast minor d =
    (if minor < 24 then Inr (ucast minor, True, 0)
     else if minor = 24 then Inr (ucast (d ! 0), d ! 0 > 23, 1)
     else if minor = 25 then
       (let v = (from_be_bytes [d ! 0, d ! 1] :: u16) in Inr (ucast v, v > 0xFF, 2))
     else if minor = 26 then
       (let v = (from_be_bytes [d ! 0, d ! 1, d ! 2, d ! 3] :: u32)
        in Inr (ucast v, v > 0xFFFF, 4))
     else if minor = 27 then
       (let v = (from_be_bytes d :: u64) in Inr (v, v > 0xFFFFFFFF, 8))
     else Inl (InvalidMinorValue minor))"

definition major_of :: "byte \<Rightarrow> byte" where
  "major_of b = drop_bit 5 b"

definition minor_of :: "byte \<Rightarrow> byte" where
  "minor_of b = b AND 0x1F"

lemma parse_uint_minor_len:
  "parse_uint_minor m d = Inr (v, s, n) \<Longrightarrow> n \<le> length d \<and> n \<le> 8"
  by (auto simp: parse_uint_minor_def to_array_def Let_def and_then_Inr
      split: if_splits list.splits)

lemma take_8_nth:
  assumes "8 \<le> length d"
  shows "take 2 d = [d ! 0, d ! 1]" "take 4 d = [d ! 0, d ! 1, d ! 2, d ! 3]"
  using assms by (auto simp: list_eq_iff_nth_eq nth_Cons' less_Suc_eq numeral_eq_Suc)

text \<open>Where eight bytes are available the two argument readers agree.\<close>

lemma parse_uint_minor_fast_eq:
  assumes "8 \<le> length d"
  shows "parse_uint_minor_fast m (take 8 d) = parse_uint_minor m d"
proof -
  obtain a ds where d: "d = a # ds" using assms by (cases d) auto
  have "take 2 (take 8 d) = [take 8 d ! 0, take 8 d ! 1]"
    "take 4 (take 8 d) = [take 8 d ! 0, take 8 d ! 1, take 8 d ! 2, take 8 d ! 3]"
    using take_8_nth [of "take 8 d"] assms by simp_all
  then show ?thesis
    using assms d by (auto simp: parse_uint_minor_fast_def parse_uint_minor_def to_array_def)
qed

section \<open>Tags\<close>

text \<open>
  The loop of \<open>parse_tags\<close>: while the next byte has major type 6, read the tag number.
  Both branches of the source (nine bytes at hand, or fewer) are kept.
\<close>

function parse_tags_loop ::
  "bytes \<Rightarrow> u64 list \<Rightarrow> bool \<Rightarrow> nat \<Rightarrow> cbor_error + (u64 list \<times> bool \<times> nat)" where
  "parse_tags_loop d tags shortest offset =
    (if 9 \<le> length (drop offset d) then
       (let m = d ! offset in
        if major_of m = 6 then
          and_then (parse_uint_minor_fast (minor_of m) (take 8 (drop (offset + 1) d)))
            (\<lambda>(tag, s, n).
               case checked_add (offset + 1) n of
                 None \<Rightarrow> Inl TooBig
               | Some off \<Rightarrow> parse_tags_loop d (tags @ [tag]) (shortest \<and> s) off)
        else Inr (tags, shortest, offset))
     else if offset < length d then
       (let m = d ! offset in
        if major_of m = 6 then
          and_then (parse_uint_minor (minor_of m) (drop (offset + 1) d))
            (\<lambda>(tag, s, n).
               case checked_add (offset + 1) n of
                 None \<Rightarrow> Inl TooBig
               | Some off \<Rightarrow> parse_tags_loop d (tags @ [tag]) (shortest \<and> s) off)
        else Inr (tags, shortest, offset))
     else Inr (tags, shortest, offset))"
  by pat_completeness auto
termination
  by (relation "measure (\<lambda>(d, tags, s, offset). length d - offset)")
    (auto simp: checked_add_Some)

declare parse_tags_loop.simps [simp del]

definition parse_tags :: "bytes \<Rightarrow> cbor_error + (u64 list \<times> bool \<times> nat)" where
  "parse_tags d = parse_tags_loop d [] True 0"

section \<open>Heads\<close>

definition head_of_major :: "byte \<Rightarrow> u64 option \<Rightarrow> marker" where
  "head_of_major major v =
    (if major = 2 then Bytes v else if major = 3 then Text v
     else if major = 4 then Array v else Map v)"

text \<open>
  The canonicality checks of the wide floats: a NaN, an infinity or a zero has a shorter
  form, and so has a number that survives the trip through a narrower format.
\<close>

definition f32_head_shortest :: "float_ops \<Rightarrow> f32 \<Rightarrow> bool" where
  "f32_head_shortest F v =
    (case f32_classify v of
       Nan \<Rightarrow> False | Infinite \<Rightarrow> False | Zero \<Rightarrow> False
     | _ \<Rightarrow> (case f16_from_f32 F v of
               Some v16 \<Rightarrow> \<not> (case f16_to_f32 F v16 of Some w \<Rightarrow> f32_eq w v | None \<Rightarrow> False)
             | None \<Rightarrow> True))"

definition f64_head_shortest :: "float_ops \<Rightarrow> f64 \<Rightarrow> bool" where
  "f64_head_shortest F v =
    (case f64_classify v of
       Nan \<Rightarrow> False | Infinite \<Rightarrow> False | Zero \<Rightarrow> False
     | _ \<Rightarrow> (case f32_from_f64 F v of
               Some v32 \<Rightarrow> \<not> (case f32_to_f64 F v32 of Some w \<Rightarrow> f64_eq w v | None \<Rightarrow> False)
             | None \<Rightarrow> (case f16_from_f64 F v of
                 Some v16 \<Rightarrow> \<not> f64_eq (f16_to_f64 F v16) v
               | None \<Rightarrow> True)))"

text \<open>Major type 7: simple values and floats; \<open>d\<close> starts after the initial byte.\<close>

definition parse_simple ::
  "float_ops \<Rightarrow> byte \<Rightarrow> bytes \<Rightarrow> bool \<Rightarrow> cbor_error + (marker \<times> bool \<times> nat)" where
  "parse_simple F minor d shortest =
    (if minor = 20 then Inr (MFalse, shortest, 0)
     else if minor = 21 then Inr (MTrue, shortest, 0)
     else if minor = 22 then Inr (MNull, shortest, 0)
     else if minor = 23 then Inr (MUndefined, shortest, 0)
     else if minor \<le> 19 then Inr (Simple minor, shortest, 0)
     else if minor = 24 then
       (case d of
          [] \<Rightarrow> Inl (NeedMoreData 1)
        | v # _ \<Rightarrow> if v < 32 then Inl (InvalidSimpleType v) else Inr (Simple v, shortest, 1))
     else if minor = 25 then
       and_then (to_array 2 d)
         (\<lambda>a. Inr (Float (f16_to_f64 F (from_be_bytes a)), shortest, 2))
     else if minor = 26 then
       and_then (to_array 4 d)
         (\<lambda>a. let v = (from_be_bytes a :: f32)
              in Inr (Float (f32_into_f64 v), shortest \<and> f32_head_shortest F v, 4))
     else if minor = 27 then
       and_then (to_array 8 d)
         (\<lambda>a. let v = (from_be_bytes a :: f64)
              in Inr (Float v, shortest \<and> f64_head_shortest F v, 8))
     else Inl (InvalidSimpleType minor))"

text \<open>
  The slow match on the initial byte, \<open>d\<close> being what follows it. The source marks
  major type 6 as unreachable here; \<open>parse_tags_stops\<close> below shows that the byte
  after the tags never has that type.
\<close>

definition parse_marker_slow ::
  "float_ops \<Rightarrow> byte \<Rightarrow> bytes \<Rightarrow> bool \<Rightarrow> cbor_error + (marker \<times> bool \<times> nat)" where
  "parse_marker_slow F m d shortest =
    (let major = major_of m; minor = minor_of m in
     if major = 0 then
       and_then (parse_uint_minor minor d)
         (\<lambda>(v, s, n). Inr (UnsignedInteger v, shortest \<and> s, n))
     else if major = 1 then
       and_then (parse_uint_minor minor d)
         (\<lambda>(v, s, n). Inr (NegativeInteger v, shortest \<and> s, n))
     else if 2 \<le> major \<and> major \<le> 5 then
       (if minor = 31 then Inr (head_of_major major None, shortest, 0)
        else and_then (parse_uint_minor minor d)
          (\<lambda>(v, s, n). Inr (head_of_major major (Some v), shortest \<and> s, n)))
     else parse_simple F minor d shortest)"

definition head_from_cbor :: "float_ops \<Rightarrow> bytes \<Rightarrow> cbor_error + (head \<times> bool \<times> nat)" where
  "head_from_cbor F d =
    and_then (parse_tags d) (\<lambda>(tags, shortest, offset).
      if 9 \<le> length (drop offset d) then
        (let m = d ! offset; rest = take 8 (drop (offset + 1) d); offset = offset + 1;
             major = major_of m; minor = minor_of m in
         if major \<le> 5 then
           (if minor = 31 \<and> major \<ge> 2 then
              Inr (\<lparr>head_tags = tags, head_marker = head_of_major major None\<rparr>, shortest, offset)
            else
              and_then (parse_uint_minor_fast minor rest) (\<lambda>(v, s, n).
                Inr (\<lparr>head_tags = tags,
                       head_marker = (if major = 0 then UnsignedInteger v
                                      else if major = 1 then NegativeInteger v
                                      else head_of_major major (Some v))\<rparr>,
                     shortest \<and> s, offset + n)))
         else
           and_then (parse_marker_slow F m (drop offset d) shortest) (\<lambda>(mk, s, n).
             Inr (\<lparr>head_tags = tags, head_marker = mk\<rparr>, s, offset + n)))
      else if offset < length d then
        (let m = d ! offset; offset = offset + 1 in
         and_then (parse_marker_slow F m (drop offset d) shortest) (\<lambda>(mk, s, n).
           Inr (\<lparr>head_tags = tags, head_marker = mk\<rparr>, s, offset + n)))
      else Inl (NeedMoreData 1))"

section \<open>Bits of the initial byte\<close>

lemma major_of_head:
  assumes "m < 8" and "n < 32"
  shows "major_of (push_bit 5 m OR n) = m" "minor_of (push_bit 5 m OR n) = n"
proof -
  have n: "take_bit 5 n = n"
    using assms(2) by (simp add: word_unat_eq_iff take_bit_eq_mod unat_mod_distrib word_less_nat_alt)
  have m: "take_bit 3 m = m"
    using assms(1) by (simp add: word_unat_eq_iff take_bit_eq_mod unat_mod_distrib word_less_nat_alt)
  have "drop_bit 5 (push_bit 5 m) = take_bit 3 m"
    by (rule bit_word_eqI) (auto simp: bit_simps)
  moreover have "drop_bit 5 n = 0" using n by (metis drop_bit_take_bit diff_self_eq_0 take_bit_0)
  ultimately show "major_of (push_bit 5 m OR n) = m"
    using m by (simp add: major_of_def drop_bit_or)
  have "(0x1F :: byte) = mask 5" by (simp add: mask_eq_exp_minus_1)
  then have "minor_of (push_bit 5 m OR n) = take_bit 5 (push_bit 5 m) OR take_bit 5 n"
    by (simp add: minor_of_def take_bit_eq_mask bit.conj_disj_distrib2)
  then show "minor_of (push_bit 5 m OR n) = n"
    using n by (simp add: take_bit_push_bit)
qed

lemma minor_of_lt [simp]: "minor_of b < 32"
proof -
  have "minor_of b \<le> 0x1F" by (simp add: minor_of_def word_and_le1)
  then show ?thesis by (rule le_less_trans) simp
qed

lemma major_of_lt [simp]: "major_of b < 8"
proof -
  have "unat b div 32 < 8" using unat_lt2p [of b] by simp
  then have "unat (major_of b) < 8"
    by (simp add: major_of_def drop_bit_eq_div unat_div)
  then show ?thesis by (simp add: word_less_nat_alt)
qed

lemma initial_byte_split: "b = push_bit 5 (major_of b) OR minor_of b"
proof -
  have "(0x1F :: byte) = mask 5" by (simp add: mask_eq_exp_minus_1)
  then have "minor_of b = take_bit 5 b" by (simp add: minor_of_def take_bit_eq_mask)
  then show ?thesis
    by (simp add: major_of_def) (rule bit_word_eqI, auto simp: bit_simps)
qed

section \<open>A reference decoder without the fast path\<close>

text \<open>
  \<open>head_ref\<close> reads a head by recursion over the bytes, as RFC 8949 describes it: any
  number of tags, then one item head; every argument is read by \<open>parse_uint_minor\<close>.
\<close>

function head_ref :: "float_ops \<Rightarrow> bytes \<Rightarrow> cbor_error + (head \<times> bool \<times> nat)" where
  "head_ref F [] = Inl (NeedMoreData 1)"
| "head_ref F (m # d) =
    (if major_of m = 6 then
       and_then (parse_uint_minor (minor_of m) d) (\<lambda>(t, s, n).
         and_then (head_ref F (drop n d)) (\<lambda>(h, s', n').
           Inr (h\<lparr>head_tags := t # head_tags h\<rparr>, s \<and> s', 1 + n + n')))
     else and_then (parse_marker_slow F m d True) (\<lambda>(mk, s, n).
            Inr (\<lparr>head_tags = [], head_marker = mk\<rparr>, s, 1 + n)))"
  by pat_completeness auto
termination
  by (relation "measure (\<lambda>(F, d). length d)") auto

declare head_ref.simps(2) [simp del]

lemma parse_marker_slow_shortest:
  "parse_marker_slow F m d sh =
    and_then (parse_marker_slow F m d True) (\<lambda>(mk, s, n). Inr (mk, sh \<and> s, n))"
  by (cases sh)
    (auto simp: parse_marker_slow_def parse_simple_def Let_def and_then_assoc
      intro!: and_then_cong [OF refl] split: list.splits)

lemma parse_simple_len: "parse_simple F m d sh = Inr (mk, s, n) \<Longrightarrow> n \<le> length d"
  by (auto simp: parse_simple_def to_array_def Let_def and_then_Inr split: if_splits list.splits)

lemma parse_marker_slow_len: "parse_marker_slow F m d sh = Inr (mk, s, n) \<Longrightarrow> n \<le> length d"
  by (auto simp: parse_marker_slow_def Let_def and_then_Inr
      split: if_splits dest!: parse_uint_minor_len parse_simple_len)

text \<open>One iteration of the tag loop, whichever branch it takes.\<close>

lemma parse_tags_loop_step:
  "parse_tags_loop d tags shortest offset =
    (if offset < length d \<and> major_of (d ! offset) = 6 then
       and_then (parse_uint_minor (minor_of (d ! offset)) (drop (offset + 1) d)) (\<lambda>(tag, s, n).
         case checked_add (offset + 1) n of
           None \<Rightarrow> Inl TooBig
         | Some off \<Rightarrow> parse_tags_loop d (tags @ [tag]) (shortest \<and> s) off)
     else Inr (tags, shortest, offset))"
proof (cases "9 \<le> length (drop offset d)")
  case True
  then have "parse_uint_minor_fast (minor_of (d ! offset)) (take 8 (drop (offset + 1) d))
    = parse_uint_minor (minor_of (d ! offset)) (drop (offset + 1) d)"
    by (intro parse_uint_minor_fast_eq) simp
  with True show ?thesis
    by (subst parse_tags_loop.simps) (auto simp: Let_def)
next
  case False
  then show ?thesis
    by (subst parse_tags_loop.simps) (auto simp: Let_def)
qed

lemma parse_tags_loop_bounds:
  "parse_tags_loop d tags sh offset = Inr (tags', sh', off') \<Longrightarrow> offset \<le> length d \<Longrightarrow>
    offset \<le> off' \<and> off' \<le> length d \<and> (off' < length d \<longrightarrow> major_of (d ! off') \<noteq> 6)"
proof (induction d tags sh offset rule: parse_tags_loop.induct)
  case (1 d tags sh offset)
  show ?case
  proof (cases "offset < length d \<and> major_of (d ! offset) = 6")
    case False
    with "1.prems" show ?thesis by (subst (asm) parse_tags_loop_step) auto
  next
    case True
    with "1.prems" obtain tag s n where
      p: "parse_uint_minor (minor_of (d ! offset)) (drop (offset + 1) d) = Inr (tag, s, n)"
      and ov: "offset + 1 + n \<le> usize_max"
      and l: "parse_tags_loop d (tags @ [tag]) (sh \<and> s) (offset + 1 + n) = Inr (tags', sh', off')"
      by (subst (asm) parse_tags_loop_step)
        (auto simp: and_then_Inr checked_add_def split: if_splits)
    have n: "offset + 1 + n \<le> length d"
      using parse_uint_minor_len [OF p] True by simp linarith
    have "9 \<le> length (drop offset d) \<Longrightarrow>
        parse_uint_minor_fast (minor_of (d ! offset)) (take 8 (drop (offset + 1) d)) = Inr (tag, s, n)"
      using p by (subst parse_uint_minor_fast_eq) auto
    then have "offset + 1 + n \<le> off' \<and> off' \<le> length d \<and> (off' < length d \<longrightarrow> major_of (d ! off') \<noteq> 6)"
      using "1.IH" True p l n ov
      by (cases "9 \<le> length (drop offset d)") (auto simp: checked_add_def)
    then show ?thesis by simp
  qed
qed

text \<open>The tag scan stays inside the slice and stops at a byte that is not a tag.\<close>

lemma parse_tags_stops:
  "parse_tags d = Inr (tags, sh, off) \<Longrightarrow>
    off \<le> length d \<and> (off < length d \<longrightarrow> major_of (d ! off) \<noteq> 6)"
  using parse_tags_loop_bounds [of d "[]" True 0] by (simp add: parse_tags_def)

section \<open>The fast path agrees with the reference\<close>

lemma head_from_cbor_slow:
  "head_from_cbor F d =
    and_then (parse_tags d) (\<lambda>(tags, shortest, offset).
      if offset < length d then
        and_then (parse_marker_slow F (d ! offset) (drop (offset + 1) d) shortest) (\<lambda>(mk, s, n).
          Inr (\<lparr>head_tags = tags, head_marker = mk\<rparr>, s, offset + 1 + n))
      else Inl (NeedMoreData 1))"
proof -
  have fast: "parse_uint_minor_fast m (take 8 (drop (Suc offset) d))
      = parse_uint_minor m (drop (Suc offset) d)"
    if "9 \<le> length d - offset" for offset :: nat and m
    using that by (intro parse_uint_minor_fast_eq) simp
  have nums: "\<not> (2::byte) \<le> 1" "\<not> (2::byte) \<le> 0" "\<And>a::byte. a \<noteq> 0 \<Longrightarrow> a \<noteq> 1 \<Longrightarrow> 2 \<le> a"
    by (simp_all add: word_le_nat_alt word_unat_eq_iff)
  show ?thesis
    unfolding head_from_cbor_def
    by (rule and_then_cong [OF refl])
      (auto simp: Let_def fast nums parse_marker_slow_def and_then_assoc
        intro!: and_then_cong [OF refl])
qed

lemma head_from_cbor_len: "head_from_cbor F d = Inr (h, s, n) \<Longrightarrow> 1 \<le> n \<and> n \<le> length d"
  by (fastforce simp: head_from_cbor_slow and_then_Inr split: if_splits
      dest: parse_marker_slow_len)

lemma parse_tags_loop_ref:
  assumes "length d \<le> usize_max"
  shows "offset \<le> length d \<Longrightarrow>
    and_then (parse_tags_loop d tags sh offset) (\<lambda>(tags, shortest, offset).
      if offset < length d then
        and_then (parse_marker_slow F (d ! offset) (drop (offset + 1) d) shortest) (\<lambda>(mk, s, n).
          Inr (\<lparr>head_tags = tags, head_marker = mk\<rparr>, s, offset + 1 + n))
      else Inl (NeedMoreData 1))
    = and_then (head_ref F (drop offset d)) (\<lambda>(h, s, n).
        Inr (h\<lparr>head_tags := tags @ head_tags h\<rparr>, sh \<and> s, offset + n))"
proof (induction "length d - offset" arbitrary: offset tags sh rule: less_induct)
  case less
  show ?case
  proof (cases "offset < length d")
    case False
    then show ?thesis by (subst parse_tags_loop_step) simp
  next
    case True
    then have dr: "drop offset d = d ! offset # drop (Suc offset) d"
      by (simp add: Cons_nth_drop_Suc)
    show ?thesis
    proof (cases "major_of (d ! offset) = 6")
      case False
      then show ?thesis using True
        by (subst parse_tags_loop_step)
          (simp add: dr head_ref.simps(2) parse_marker_slow_shortest [of F _ _ sh] and_then_assoc,
           auto intro!: and_then_cong [OF refl])
    next
      case m6: True
      show ?thesis
      proof (cases "parse_uint_minor (minor_of (d ! offset)) (drop (Suc offset) d)")
        case (Inl e)
        then show ?thesis using True m6
          by (subst parse_tags_loop_step) (simp add: dr head_ref.simps(2))
      next
        case (Inr r)
        obtain t s n where r: "r = (t, s, n)" by (cases r)
        from Inr r have n: "offset + 1 + n \<le> length d"
          using parse_uint_minor_len True by fastforce
        with assms have ov: "checked_add (Suc offset) n = Some (Suc offset + n)"
          by (simp add: checked_add_def)
        show ?thesis using True m6 Inr r n ov
            less.hyps [of "Suc offset + n" "tags @ [t]" "sh \<and> s"]
          by (subst parse_tags_loop_step)
            (simp add: dr head_ref.simps(2) and_then_assoc add.commute add.left_commute,
             auto intro!: and_then_cong [OF refl] simp: add_ac)
      qed
    qed
  qed
qed

lemma head_from_cbor_ref:
  assumes "length d \<le> usize_max"
  shows "head_from_cbor F d = head_ref F d"
proof -
  have "and_then (head_ref F d) (\<lambda>(h, s, n). Inr (h\<lparr>head_tags := head_tags h\<rparr>, s, n)) = head_ref F d"
    by (cases "head_ref F d") auto
  then show ?thesis
    using parse_tags_loop_ref [OF assms, of 0 "[]" True F]
    by (simp add: head_from_cbor_slow parse_tags_def)
qed

section \<open>Consumption and locality\<close>

lemma head_ref_Cons_Inr:
  "head_ref F (m # d) = Inr (h, s, n) \<longleftrightarrow>
    (if major_of m = 6 then
       \<exists>t s1 n1 h2 s2 n2. parse_uint_minor (minor_of m) d = Inr (t, s1, n1) \<and>
         head_ref F (drop n1 d) = Inr (h2, s2, n2) \<and>
         h = h2\<lparr>head_tags := t # head_tags h2\<rparr> \<and> s = (s1 \<and> s2) \<and> n = 1 + n1 + n2
     else \<exists>mk n1. parse_marker_slow F m d True = Inr (mk, s, n1) \<and>
         h = \<lparr>head_tags = [], head_marker = mk\<rparr> \<and> n = 1 + n1)"
proof (cases "major_of m = 6")
  case True
  show ?thesis
  proof (cases "parse_uint_minor (minor_of m) d")
    case (Inr r)
    obtain t s1 n1 where "r = (t, s1, n1)" by (cases r)
    with Inr True show ?thesis
      by (cases "head_ref F (drop n1 d)") (auto simp: head_ref.simps(2))
  qed (simp add: True head_ref.simps(2))
next
  case False
  then show ?thesis
    by (cases "parse_marker_slow F m d True") (auto simp: head_ref.simps(2))
qed

lemma head_ref_len: "head_ref F d = Inr (h, s, n) \<Longrightarrow> 1 \<le> n \<and> n \<le> length d"
proof (induction F d arbitrary: h s n rule: head_ref.induct)
  case (1 F)
  then show ?case by simp
next
  case (2 F m d)
  show ?case
  proof (cases "major_of m = 6")
    case True
    with "2.prems" obtain t s1 n1 h2 s2 n2 where
      p: "parse_uint_minor (minor_of m) d = Inr (t, s1, n1)"
      and h: "head_ref F (drop n1 d) = Inr (h2, s2, n2)" and n: "n = 1 + n1 + n2"
      by (simp add: head_ref_Cons_Inr) blast
    from "2.IH" [OF True p] h have "1 \<le> n2 \<and> n2 \<le> length (drop n1 d)" by simp
    with parse_uint_minor_len [OF p] n show ?thesis by simp linarith
  next
    case False
    with "2.prems" show ?thesis
      by (auto simp: head_ref.simps(2) and_then_Inr dest: parse_marker_slow_len)
  qed
qed

lemma to_array_Inr: "to_array k d = Inr a \<longleftrightarrow> k \<le> length d \<and> a = take k d"
  by (auto simp: to_array_def)

lemma to_array_take: "k \<le> length d \<Longrightarrow> to_array k (take k d @ r) = Inr (take k d)"
  by (simp add: to_array_def)

lemmas to_array_local = and_then_Inr to_array_Inr to_array_take Let_def

lemma parse_uint_minor_local:
  "parse_uint_minor m d = Inr (v, s, n) \<Longrightarrow> parse_uint_minor m (take n d @ r) = Inr (v, s, n)"
  unfolding parse_uint_minor_def
  by (cases d) (auto simp: to_array_local split: if_splits)

lemma parse_simple_local:
  "parse_simple F m d sh = Inr (mk, s, n) \<Longrightarrow> parse_simple F m (take n d @ r) sh = Inr (mk, s, n)"
  unfolding parse_simple_def
  by (cases d) (auto simp: to_array_local split: if_splits)

lemma parse_marker_slow_local:
  assumes "parse_marker_slow F m d sh = Inr (mk, s, n)"
  shows "parse_marker_slow F m (take n d @ r) sh = Inr (mk, s, n)"
proof (cases "parse_uint_minor (minor_of m) d")
  case (Inl e)
  with assms show ?thesis
    by (auto simp: parse_marker_slow_def Let_def parse_simple_local split: if_splits)
next
  case (Inr q)
  obtain v s1 n1 where q: "q = (v, s1, n1)" by (cases q)
  with Inr have "parse_uint_minor (minor_of m) (take n1 d @ r) = Inr (v, s1, n1)"
    by (simp add: parse_uint_minor_local)
  with assms Inr q show ?thesis
    by (auto simp: parse_marker_slow_def Let_def parse_simple_local split: if_splits)
qed

text \<open>A head depends only on the bytes it consumes.\<close>

lemma head_ref_local:
  "head_ref F d = Inr (h, s, n) \<Longrightarrow> head_ref F (take n d @ r) = Inr (h, s, n)"
proof (induction F d arbitrary: h s n rule: head_ref.induct)
  case (1 F)
  then show ?case by simp
next
  case (2 F m d)
  show ?case
  proof (cases "major_of m = 6")
    case True
    with "2.prems" obtain t s1 n1 h2 s2 n2 where
      p: "parse_uint_minor (minor_of m) d = Inr (t, s1, n1)"
      and h: "head_ref F (drop n1 d) = Inr (h2, s2, n2)"
      and eqs: "h = h2\<lparr>head_tags := t # head_tags h2\<rparr>" "s = (s1 \<and> s2)" "n = 1 + n1 + n2"
      by (simp add: head_ref_Cons_Inr) blast
    have n1: "n1 \<le> length d" using parse_uint_minor_len [OF p] by simp
    have "take (n1 + n2) d @ r = take n1 d @ (take n2 (drop n1 d) @ r)"
      by (simp add: take_add)
    moreover have "drop n1 (take n1 d @ (take n2 (drop n1 d) @ r)) = take n2 (drop n1 d) @ r"
      using n1 by simp
    ultimately show ?thesis
      using "2.IH" [OF True p] h eqs True parse_uint_minor_local [OF p, of "take n2 (drop n1 d) @ r"]
      by (simp add: head_ref.simps(2))
  next
    case False
    with "2.prems" obtain mk n1 where
      p: "parse_marker_slow F m d True = Inr (mk, s, n1)"
      and h: "h = \<lparr>head_tags = [], head_marker = mk\<rparr>" "n = 1 + n1"
      by (auto simp: head_ref.simps(2) and_then_Inr)
    then show ?thesis
      using False parse_marker_slow_local [OF p] by (simp add: head_ref.simps(2))
  qed
qed

section \<open>Heads that the encoder writes\<close>

lemma ucast_lt:
  "(v :: u64) < 24 \<Longrightarrow> (ucast v :: byte) < 24" "(v :: u64) < 24 \<Longrightarrow> ucast (ucast v :: byte) = v"
  "(v :: u64) < 0x100 \<Longrightarrow> ucast (ucast v :: byte) = v"
  "(v :: u64) < 0x10000 \<Longrightarrow> ucast (ucast v :: u16) = v"
  "(v :: u64) < 0x100000000 \<Longrightarrow> ucast (ucast v :: u32) = v"
  by (auto simp: word_less_nat_alt word_unat_eq_iff unsigned_ucast_eq take_bit_eq_mod unat_mod_distrib)

lemma minor_lt_32: "(n :: byte) < 24 \<Longrightarrow> n < 32"
  by (simp add: word_less_nat_alt)

text \<open>The argument that \<open>head_bytes\<close> writes is read back, minimally encoded.\<close>

lemma head_bytes_parse:
  assumes "maj < 8"
  obtains m args where "head_bytes maj v = m # args" "major_of m = maj" "minor_of m \<noteq> 31"
    "\<And>r. parse_uint_minor (minor_of m) (args @ r) = Inr (v, True, length args)"
proof -
  have gt: "\<not> v < 24 \<Longrightarrow> v < 0x100 \<Longrightarrow> (ucast v :: byte) > 23"
    "\<not> v < 0x100 \<Longrightarrow> v < 0x10000 \<Longrightarrow> (ucast v :: u16) > 0xFF"
    "\<not> v < 0x10000 \<Longrightarrow> v < 0x100000000 \<Longrightarrow> (ucast v :: u32) > 0xFFFF"
    "\<not> v < 0x100000000 \<Longrightarrow> v > 0xFFFFFFFF"
    by (auto simp: word_less_nat_alt word_unat_eq_iff unsigned_ucast_eq take_bit_eq_mod unat_mod_distrib)
  have ne: "\<And>n::byte. n < 24 \<Longrightarrow> n \<noteq> 24 \<and> n \<noteq> 25 \<and> n \<noteq> 26 \<and> n \<noteq> 27 \<and> n \<noteq> 31"
    by auto
  consider "v < 24" | "\<not> v < 24" "v < 0x100" | "\<not> v < 24" "\<not> v < 0x100" "v < 0x10000"
    | "\<not> v < 24" "\<not> v < 0x100" "\<not> v < 0x10000" "v < 0x100000000"
    | "\<not> v < 24" "\<not> v < 0x100" "\<not> v < 0x10000" "\<not> v < 0x100000000"
    by blast
  then show thesis
  proof cases
    case 1
    then show ?thesis
      using that [of "push_bit 5 maj OR ucast v" "[]"] assms ne [OF ucast_lt(1) [OF 1]]
      by (simp add: head_bytes_cases major_of_head ucast_lt minor_lt_32 parse_uint_minor_def)
  next
    case 2
    then show ?thesis
      using that [of "push_bit 5 maj OR 24" "[ucast v]"] assms gt(1)
      by (simp add: head_bytes_cases major_of_head ucast_lt parse_uint_minor_def)
  next
    case 3
    then show ?thesis
      using that [of "push_bit 5 maj OR 25" "to_be_bytes (ucast v :: u16)"] assms gt(2)
      by (simp add: head_bytes_cases major_of_head ucast_lt parse_uint_minor_def to_array_def)
  next
    case 4
    then show ?thesis
      using that [of "push_bit 5 maj OR 26" "to_be_bytes (ucast v :: u32)"] assms gt(3)
      by (simp add: head_bytes_cases major_of_head ucast_lt parse_uint_minor_def to_array_def)
  next
    case 5
    then show ?thesis
      using that [of "push_bit 5 maj OR 27" "to_be_bytes v"] assms gt(4)
      by (simp add: head_bytes_cases major_of_head parse_uint_minor_def to_array_def)
  qed
qed

definition major_marker :: "byte \<Rightarrow> u64 \<Rightarrow> marker" where
  "major_marker maj v =
    (if maj = 0 then UnsignedInteger v else if maj = 1 then NegativeInteger v
     else head_of_major maj (Some v))"

lemma head_ref_head_bytes [cbor_simps]:
  assumes "maj \<le> 5"
  shows "head_ref F (head_bytes maj v @ r) =
    Inr (\<lparr>head_tags = [], head_marker = major_marker maj v\<rparr>, True, length (head_bytes maj v))"
proof -
  have lt: "maj < 8" using assms by (simp add: word_less_nat_alt word_le_nat_alt)
  then obtain m args where h: "head_bytes maj v = m # args" "major_of m = maj" "minor_of m \<noteq> 31"
    "\<And>r. parse_uint_minor (minor_of m) (args @ r) = Inr (v, True, length args)"
    by (rule head_bytes_parse) blast
  have ge2: "maj \<noteq> 0 \<Longrightarrow> maj \<noteq> 1 \<Longrightarrow> 2 \<le> maj" by (simp add: word_le_nat_alt word_unat_eq_iff)
  have "maj \<noteq> 6" using assms by auto
  then show ?thesis
    using h assms ge2
    by (auto simp: head_ref.simps(2) parse_marker_slow_def Let_def major_marker_def)
qed

text \<open>Tags in front of an item are collected in order.\<close>

lemma head_ref_tag [cbor_simps]:
  "head_ref F (head_bytes 6 t @ d) =
    and_then (head_ref F d) (\<lambda>(h, s, n).
      Inr (h\<lparr>head_tags := t # head_tags h\<rparr>, s, length (head_bytes 6 t) + n))"
proof -
  obtain m args where h: "head_bytes 6 t = m # args" "major_of m = 6"
    "\<And>r. parse_uint_minor (minor_of m) (args @ r) = Inr (t, True, length args)"
    by (rule head_bytes_parse [of 6 t]) (simp, blast)
  then show ?thesis by (simp add: head_ref.simps(2))
qed

section \<open>Minimal encoding is unique\<close>

lemma to_be_bytes_take:
  "length d \<ge> 2 \<Longrightarrow> to_be_bytes (from_be_bytes (take 2 d) :: u16) = take 2 d"
  "length d \<ge> 4 \<Longrightarrow> to_be_bytes (from_be_bytes (take 4 d) :: u32) = take 4 d"
  "length d \<ge> 8 \<Longrightarrow> to_be_bytes (from_be_bytes (take 8 d) :: u64) = take 8 d"
  by (rule to_from_be_bytes, simp)+

text \<open>An argument accepted as shortest is the very byte string that the encoder writes.\<close>

lemma parse_uint_minor_canonical:
  assumes "parse_uint_minor mi d = Inr (v, True, n)"
  shows "(push_bit 5 maj OR mi) # take n d = head_bytes maj v"
proof -
  have ng: "\<And>b::byte. b > 23 \<Longrightarrow> \<not> (ucast b :: u64) < 24" "\<And>b::byte. (ucast b :: u64) < 0x100"
    "\<And>b::u16. b > 0xFF \<Longrightarrow> \<not> (ucast b :: u64) < 24" "\<And>b::u16. b > 0xFF \<Longrightarrow> \<not> (ucast b :: u64) < 0x100"
    "\<And>b::u16. (ucast b :: u64) < 0x10000"
    "\<And>b::u32. b > 0xFFFF \<Longrightarrow> \<not> (ucast b :: u64) < 24" "\<And>b::u32. b > 0xFFFF \<Longrightarrow> \<not> (ucast b :: u64) < 0x100"
    "\<And>b::u32. b > 0xFFFF \<Longrightarrow> \<not> (ucast b :: u64) < 0x10000" "\<And>b::u32. (ucast b :: u64) < 0x100000000"
    "\<And>b::u64. b > 0xFFFFFFFF \<Longrightarrow> \<not> b < 24" "\<And>b::u64. b > 0xFFFFFFFF \<Longrightarrow> \<not> b < 0x100"
    "\<And>b::u64. b > 0xFFFFFFFF \<Longrightarrow> \<not> b < 0x10000" "\<And>b::u64. b > 0xFFFFFFFF \<Longrightarrow> \<not> b < 0x100000000"
    "\<And>b::byte. b < 24 \<Longrightarrow> (ucast b :: u64) < 24"
    using unat_lt2p [where 'a = 8] unat_lt2p [where 'a = 16] unat_lt2p [where 'a = 32]
    by (auto simp: word_less_nat_alt unat_ucast_up not_less)
  have uc: "\<And>b::byte. ucast (ucast b :: u64) = b" "\<And>b::u16. ucast (ucast b :: u64) = b"
    "\<And>b::u32. ucast (ucast b :: u64) = b"
    by (simp_all add: ucast_up_ucast_id is_up)
  show ?thesis
    using assms unfolding parse_uint_minor_def
    by (auto simp: head_bytes_cases and_then_Inr to_array_Inr Let_def ng uc to_be_bytes_take
        split: if_splits list.splits)
qed

text \<open>
  Hence a head that decodes as shortest, with major type 0 to 5 and a definite argument,
  is what the encoder writes for its tags and its marker.
\<close>

fun marker_bytes :: "marker \<Rightarrow> bytes option" where
  "marker_bytes (UnsignedInteger v) = Some (head_bytes 0 v)"
| "marker_bytes (NegativeInteger v) = Some (head_bytes 1 v)"
| "marker_bytes (Bytes (Some v)) = Some (head_bytes 2 v)"
| "marker_bytes (Text (Some v)) = Some (head_bytes 3 v)"
| "marker_bytes (Array (Some v)) = Some (head_bytes 4 v)"
| "marker_bytes (Map (Some v)) = Some (head_bytes 5 v)"
| "marker_bytes _ = None"

lemma byte_le_5: "2 \<le> (m::byte) \<Longrightarrow> m \<le> 5 \<Longrightarrow> m \<noteq> 2 \<Longrightarrow> m \<noteq> 3 \<Longrightarrow> m \<noteq> 4 \<Longrightarrow> m = 5"
  by (simp add: word_le_nat_alt word_unat_eq_iff)

lemma parse_simple_marker_bytes:
  "parse_simple F mi d sh = Inr (mk, s, n) \<Longrightarrow> marker_bytes mk = None"
  by (auto simp: parse_simple_def and_then_Inr Let_def split: if_splits list.splits)

lemma parse_marker_slow_canonical:
  assumes "parse_marker_slow F m d True = Inr (mk, True, n)" and "marker_bytes mk = Some bs"
  shows "m # take n d = bs"
proof (cases "parse_uint_minor (minor_of m) d")
  case (Inl e)
  with assms show ?thesis
    by (auto simp: parse_marker_slow_def Let_def head_of_major_def dest: parse_simple_marker_bytes
        split: if_splits)
next
  case (Inr q)
  obtain v s n1 where q: "q = (v, s, n1)" by (cases q)
  have "s \<Longrightarrow> (push_bit 5 (major_of m) OR minor_of m) # take n1 d = head_bytes (major_of m) v"
    using Inr q by (intro parse_uint_minor_canonical) simp
  then have "s \<Longrightarrow> m # take n1 d = head_bytes (major_of m) v"
    by (simp flip: initial_byte_split)
  with assms Inr q show ?thesis
    by (auto simp: parse_marker_slow_def Let_def head_of_major_def
        dest: parse_simple_marker_bytes byte_le_5 split: if_splits)
qed

lemma head_ref_canonical:
  "head_ref F d = Inr (h, True, n) \<Longrightarrow> marker_bytes (head_marker h) = Some bs \<Longrightarrow>
    take n d = concat (map (head_bytes 6) (head_tags h)) @ bs"
proof (induction F d arbitrary: h n rule: head_ref.induct)
  case (1 F)
  then show ?case by simp
next
  case (2 F m d)
  show ?case
  proof (cases "major_of m = 6")
    case True
    with "2.prems" obtain t s1 n1 h2 s2 n2 where
      p: "parse_uint_minor (minor_of m) d = Inr (t, s1, n1)"
      and h: "head_ref F (drop n1 d) = Inr (h2, s2, n2)"
      and eqs: "h = h2\<lparr>head_tags := t # head_tags h2\<rparr>" "s1" "s2" "n = 1 + n1 + n2"
      by (auto simp: head_ref_Cons_Inr)
    have "(push_bit 5 (major_of m) OR minor_of m) # take n1 d = head_bytes (major_of m) t"
      using p eqs by (intro parse_uint_minor_canonical) simp
    then have "m # take n1 d = head_bytes 6 t" by (metis True initial_byte_split)
    moreover have "take n2 (drop n1 d) = concat (map (head_bytes 6) (head_tags h2)) @ bs"
      using "2.IH" [OF True p] h eqs "2.prems" by simp
    ultimately show ?thesis using eqs by (simp add: take_add)
  next
    case False
    with "2.prems" show ?thesis
      by (auto simp: head_ref_Cons_Inr dest: parse_marker_slow_canonical)
  qed
qed

end
