(* ===== verification/Cbor_Decode.thy ===== *)
theory Cbor_Decode
  imports Cbor_Head
begin

text \<open>
  The decoder proper: \<^verbatim>\<open>cbor/src/decode/mod.rs\<close> and
  \<^verbatim>\<open>cbor/src/decode/series.rs\<close>. A \<open>series\<close> is the cursor over the items of an
  array, a map or a top-level sequence (\<open>D\<close> is its const generic: 1, 2 or 0). The
  cursor's \<^verbatim>\<open>&mut usize\<close> is a field of the record; the caller reads the final
  offset from the cursor that is handed back. A closure receives a \<open>cvalue\<close> and
  returns its result with the (possibly advanced) value; the error conversion
  \<^verbatim>\<open>From<Error>\<close> is an argument.
\<close>

record series =
  sr_data :: bytes
  sr_count :: "nat option"
  sr_offset :: nat
  sr_parsed :: nat

definition offset_extent :: "bytes \<Rightarrow> nat \<Rightarrow> u64 \<Rightarrow> cbor_error + (nat \<times> nat)" where
  "offset_extent d offset len =
    (case Option.bind (usize_try_from len) (checked_add offset) of
       None \<Rightarrow> Inl TooBig
     | Some e \<Rightarrow> if e > length d then Inl (NeedMoreData (e - length d)) else Inr (offset, e))"

section \<open>Series\<close>

definition series_new :: "bytes \<Rightarrow> nat option \<Rightarrow> nat \<Rightarrow> series" where
  "series_new d count offset =
    \<lparr>sr_data = d, sr_count = count, sr_offset = offset, sr_parsed = 0\<rparr>"

definition series_try_new ::
  "nat \<Rightarrow> bytes \<Rightarrow> u64 option \<Rightarrow> nat \<Rightarrow> cbor_error + series" where
  "series_try_new D d count offset =
    (case count of
       None \<Rightarrow> Inr (series_new d None offset)
     | Some c \<Rightarrow>
         (case Option.bind (usize_try_from c) (\<lambda>c. checked_mul c (max D 1)) of
            None \<Rightarrow> Inl TooBig
          | Some n \<Rightarrow> Inr (series_new d (Some n) offset)))"

definition series_count :: "nat \<Rightarrow> series \<Rightarrow> nat option" where
  "series_count D s = map_option (\<lambda>c. c div max D 1) (sr_count s)"

definition is_definite :: "series \<Rightarrow> bool" where
  "is_definite s = (sr_count s \<noteq> None)"

definition at_end :: "nat \<Rightarrow> series \<Rightarrow> cbor_error + (bool \<times> series)" where
  "at_end D s =
    (case sr_count s of
       Some count \<Rightarrow> Inr (sr_parsed s \<ge> count, s)
     | None \<Rightarrow>
         if D = 0 \<and> sr_offset s = length (sr_data s) then
           Inr (True, s\<lparr>sr_count := Some (sr_parsed s)\<rparr>)
         else if sr_offset s \<ge> length (sr_data s) then
           Inl (NeedMoreData (sr_offset s + 1 - length (sr_data s)))
         else if D > 0 \<and> sr_data s ! sr_offset s = 0xFF then
           (if \<not> D dvd sr_parsed s then Inl PartialMap
            else Inr (True, s\<lparr>sr_offset := sr_offset s + 1, sr_count := Some (sr_parsed s)\<rparr>))
         else Inr (False, s))"

definition series_complete :: "nat \<Rightarrow> series \<Rightarrow> 'a \<Rightarrow> cbor_error + ('a \<times> series)" where
  "series_complete D s t =
    and_then (at_end D s) (\<lambda>(e, s'). if \<not> e then Inl AdditionalItems else Inr (t, s'))"

definition series_advance :: "nat \<Rightarrow> series \<Rightarrow> series" where
  "series_advance len s = s\<lparr>sr_parsed := sr_parsed s + 1, sr_offset := sr_offset s + len\<rparr>"

section \<open>Skipping\<close>

text \<open>The definite length of a chunk of an indefinite byte or text string, if it is one.\<close>

definition chunk_len :: "bool \<Rightarrow> head \<Rightarrow> u64 option" where
  "chunk_len is_bytes h =
    (if head_tags h \<noteq> [] then None
     else (case head_marker h of
             Bytes l \<Rightarrow> if is_bytes then l else None
           | Text l \<Rightarrow> if is_bytes then None else l
           | _ \<Rightarrow> None))"

function skip_chunks ::
  "float_ops \<Rightarrow> bool \<Rightarrow> bytes \<Rightarrow> bool \<Rightarrow> nat \<Rightarrow> cbor_error + (bool \<times> nat)" where
  "skip_chunks F is_bytes d shortest offset =
    (if offset < length d \<and> d ! offset = 0xFF then Inr (shortest, offset + 1)
     else and_then (head_from_cbor F (drop offset d)) (\<lambda>(h, s, len).
       case checked_add offset len of
         None \<Rightarrow> Inl TooBig
       | Some off \<Rightarrow>
           (case chunk_len is_bytes h of
              None \<Rightarrow> Inl InvalidChunk
            | Some l \<Rightarrow>
                and_then (offset_extent d off l) (\<lambda>(_, e).
                  skip_chunks F is_bytes d (shortest \<and> s) e))))"
  by pat_completeness auto
termination
proof (relation "measure (\<lambda>(F, b, d, s, offset). length d - offset)", goal_cases)
  case (2 F b d sh off x h sl s len o1 l ext st e)
  then have "1 \<le> len" and "len \<le> length (drop off d)"
    using head_from_cbor_len [of F "drop off d" h s len] by auto
  then show ?case
    using 2 by (auto simp: offset_extent_def checked_add_Some split: if_splits option.splits
        bind_splits)
qed simp

declare skip_chunks.simps [simp del]

text \<open>
  \<open>skip_value\<close> walks one item, \<open>series_skip_value\<close> one item of a series and
  \<open>skip_to_end\<close> the rest of a series. The recursion is bounded by the nesting budget
  \<open>r\<close> and, at one level, by the bytes that remain: every item takes at least one.
\<close>

function skip_value :: "float_ops \<Rightarrow> bytes \<Rightarrow> nat \<Rightarrow> cbor_error + (bool \<times> nat)"
  and series_skip_value :: "float_ops \<Rightarrow> nat \<Rightarrow> series \<Rightarrow> nat \<Rightarrow> cbor_error + (bool \<times> series)"
  and skip_to_end :: "float_ops \<Rightarrow> nat \<Rightarrow> series \<Rightarrow> nat \<Rightarrow> cbor_error + (bool \<times> series)" where
  "skip_value F d r =
    and_then (head_from_cbor F d) (\<lambda>(h, shortest, offset).
      case head_marker h of
        Bytes (Some v) \<Rightarrow> and_then (offset_extent d offset v) (\<lambda>(_, e). Inr (shortest, e))
      | Text (Some v) \<Rightarrow> and_then (offset_extent d offset v) (\<lambda>(_, e). Inr (shortest, e))
      | Bytes None \<Rightarrow> skip_chunks F True d shortest offset
      | Text None \<Rightarrow> skip_chunks F False d shortest offset
      | Array count \<Rightarrow>
          if r = 0 then Inl MaxRecursion
          else and_then (series_try_new 1 d count offset) (\<lambda>s.
                 and_then (skip_to_end F 1 s (r - 1)) (\<lambda>(sh, s').
                   Inr (shortest \<and> sh, sr_offset s')))
      | Map count \<Rightarrow>
          if r = 0 then Inl MaxRecursion
          else and_then (series_try_new 2 d count offset) (\<lambda>s.
                 and_then (skip_to_end F 2 s (r - 1)) (\<lambda>(sh, s').
                   Inr (shortest \<and> sh, sr_offset s')))
      | _ \<Rightarrow> Inr (shortest, offset))"
| "series_skip_value F D s r =
    and_then (at_end D s) (\<lambda>(e, s1).
      if e then Inl NoMoreItems
      else and_then (skip_value F (drop (sr_offset s1) (sr_data s1)) r) (\<lambda>(sh, len).
             Inr (sh, series_advance len s1)))"
| "skip_to_end F D s r =
    and_then (at_end D s) (\<lambda>(e, s1).
      if e then Inr (True, s1)
      else and_then (series_skip_value F D s1 r) (\<lambda>(sh, s2).
             and_then (skip_to_end F D s2 r) (\<lambda>(sh', s3). Inr (sh \<and> sh', s3))))"
  by pat_completeness auto

lemma at_end_mono:
  "at_end D s = Inr (e, s1) \<Longrightarrow>
    sr_data s1 = sr_data s \<and> sr_offset s \<le> sr_offset s1 \<and> (\<not> e \<longrightarrow> s1 = s)"
  by (auto simp: at_end_def split: option.splits if_splits)

lemma series_try_new_fields:
  "series_try_new D d count off = Inr s \<Longrightarrow> sr_data s = d \<and> sr_offset s = off \<and> sr_parsed s = 0"
  by (auto simp: series_try_new_def series_new_def split: option.splits)

lemma offset_extent_bounds:
  "offset_extent d off l = Inr (a, e) \<Longrightarrow> a = off \<and> off \<le> e \<and> e \<le> length d \<and> e = off + unat l"
  by (auto simp: offset_extent_def checked_add_Some split: option.splits if_splits bind_splits)

lemma skip_chunks_bounds:
  "skip_chunks F b d sh off = Inr (sh', n) \<Longrightarrow> off < n \<and> n \<le> length d"
proof (induction F b d sh off rule: skip_chunks.induct)
  case (1 F b d sh off)
  show ?case
  proof (cases "off < length d \<and> d ! off = 0xFF")
    case True
    with "1.prems" show ?thesis by (subst (asm) skip_chunks.simps) auto
  next
    case False
    with "1.prems" obtain h s len l a e where
      h: "head_from_cbor F (drop off d) = Inr (h, s, len)"
      and ov: "checked_add off len = Some (off + len)" and c: "chunk_len b h = Some l"
      and x: "offset_extent d (off + len) l = Inr (a, e)"
      and k: "skip_chunks F b d (sh \<and> s) e = Inr (sh', n)"
      by (subst (asm) skip_chunks.simps)
        (auto simp: and_then_Inr checked_add_Some split: option.splits)
    have "e < n \<and> n \<le> length d"
      using "1.IH" [OF False h refl refl ov c x refl k] .
    with offset_extent_bounds [OF x] head_from_cbor_len [OF h] show ?thesis by simp
  qed
qed

text \<open>On their domain the walkers advance, which gives their termination.\<close>

lemma skip_dom_advance:
  "skip_value_series_skip_value_skip_to_end_dom (Inl (F, d, r)) \<Longrightarrow>
    (\<forall>sh n. skip_value F d r = Inr (sh, n) \<longrightarrow> 0 < n \<and> d \<noteq> [])"
  "skip_value_series_skip_value_skip_to_end_dom (Inr (Inl (F, D, s, r))) \<Longrightarrow>
    (\<forall>sh s'. series_skip_value F D s r = Inr (sh, s') \<longrightarrow>
       sr_data s' = sr_data s \<and> sr_offset s < sr_offset s' \<and> sr_offset s < length (sr_data s))"
  "skip_value_series_skip_value_skip_to_end_dom (Inr (Inr (F, D, s, r))) \<Longrightarrow>
    (\<forall>sh s'. skip_to_end F D s r = Inr (sh, s') \<longrightarrow>
       sr_data s' = sr_data s \<and> sr_offset s \<le> sr_offset s')"
proof (induction rule: skip_value_series_skip_value_skip_to_end.pinduct)
  case (1 F d r)
  show ?case
  proof (intro allI impI)
    fix sh n
    assume k: "skip_value F d r = Inr (sh, n)"
    with 1(1) obtain h s off where h: "head_from_cbor F d = Inr (h, s, off)"
      by (auto simp: skip_value.psimps and_then_Inr)
    note IH = 1(2) [OF h refl refl] 1(3) [OF h refl refl]
    from head_from_cbor_len [OF h] have "0 < off" "d \<noteq> []" by auto
    have "0 < n"
    proof (cases "\<exists>c. head_marker h = Array c \<or> head_marker h = Map c")
      case False
      with \<open>0 < off\<close> k 1(1) h show ?thesis
        by (cases "head_marker h")
          (auto simp: skip_value.psimps and_then_Inr split: option.splits
            dest!: skip_chunks_bounds offset_extent_bounds)
    next
      case True
      then obtain c D where c: "head_marker h = Array c \<and> D = (1::nat) \<or> head_marker h = Map c \<and> D = 2"
        by blast
      with k 1(1) h obtain a sh' s' where a: "r \<noteq> 0" "series_try_new D d c off = Inr a"
        "skip_to_end F D a (r - 1) = Inr (sh', s')" "n = sr_offset s'"
        by (elim disjE; simp add: skip_value.psimps and_then_Inr split: if_splits; blast)
      with c have "sr_offset a \<le> sr_offset s'" using IH by blast
      with a(2,4) \<open>0 < off\<close> show ?thesis by (auto dest: series_try_new_fields)
    qed
    with \<open>d \<noteq> []\<close> show "0 < n \<and> d \<noteq> []" by simp
  qed
next
  case (2 F D s r)
  show ?case
  proof (intro allI impI)
    fix sh s'
    assume "series_skip_value F D s r = Inr (sh, s')"
    with 2(1) obtain s1 len where a: "at_end D s = Inr (False, s1)"
      and k: "skip_value F (drop (sr_offset s1) (sr_data s1)) r = Inr (sh, len)"
      and s': "s' = series_advance len s1"
      by (auto simp: series_skip_value.psimps and_then_Inr split: if_splits)
    have "0 < len \<and> drop (sr_offset s1) (sr_data s1) \<noteq> []"
      using 2(2) [OF a refl] k by blast
    with at_end_mono [OF a] s'
    show "sr_data s' = sr_data s \<and> sr_offset s < sr_offset s' \<and> sr_offset s < length (sr_data s)"
      by (simp add: series_advance_def)
  qed
next
  case (3 F D s r)
  show ?case
  proof (intro allI impI)
    fix sh s'
    assume k: "skip_to_end F D s r = Inr (sh, s')"
    with 3(1) obtain e s1 where a: "at_end D s = Inr (e, s1)"
      by (auto simp: skip_to_end.psimps and_then_Inr)
    show "sr_data s' = sr_data s \<and> sr_offset s \<le> sr_offset s'"
    proof (cases e)
      case True
      with k 3(1) a at_end_mono [OF a] show ?thesis by (simp add: skip_to_end.psimps)
    next
      case False
      with k 3(1) a obtain sh1 s2 sh2 where
        k1: "series_skip_value F D s1 r = Inr (sh1, s2)" and k2: "skip_to_end F D s2 r = Inr (sh2, s')"
        by (simp add: skip_to_end.psimps and_then_Inr) blast
      have "sr_data s2 = sr_data s1 \<and> sr_offset s1 < sr_offset s2"
        using 3(2) [OF a refl False] k1 by blast
      moreover have "sr_data s' = sr_data s2 \<and> sr_offset s2 \<le> sr_offset s'"
        using 3(3) [OF a refl False k1 refl] k2 by blast
      ultimately show ?thesis using at_end_mono [OF a] by simp
    qed
  qed
qed

termination skip_value
proof (relation "inv_image (less_than <*lex*> less_than) (\<lambda>x. case x of
    Inl (F, d, r) \<Rightarrow> (r, 3 * length d)
  | Inr (Inl (F, D, s, r)) \<Rightarrow> (r, 3 * (length (sr_data s) - sr_offset s) + 1)
  | Inr (Inr (F, D, s, r)) \<Rightarrow> (r, 3 * (length (sr_data s) - sr_offset s) + 2))", goal_cases)
  case 1
  then show ?case by auto
next
  case (6 F D s r x e s1 y sh s2)
  then have "sr_data s2 = sr_data s1 \<and> sr_offset s1 < sr_offset s2 \<and> sr_offset s1 < length (sr_data s1)"
    using skip_dom_advance(2) [of F D s1 r] by blast
  moreover have "s1 = s" using 6 at_end_mono [of D s e s1] by auto
  ultimately show ?case by auto
next
  case (4 F D s r x e s1)
  then have "s1 = s" using at_end_mono [of D s e s1] by auto
  then show ?case by auto
next
  case (5 F D s r x e s1)
  then have "s1 = s" using at_end_mono [of D s e s1] by auto
  then show ?case by auto
qed auto

declare skip_value.simps [simp del] series_skip_value.simps [simp del] skip_to_end.simps [simp del]

section \<open>The walkers stay inside the slice\<close>

lemma at_end_bounds:
  "at_end D s = Inr (e, s1) \<Longrightarrow> sr_offset s \<le> length (sr_data s) \<Longrightarrow>
    sr_data s1 = sr_data s \<and> sr_offset s \<le> sr_offset s1 \<and> sr_offset s1 \<le> length (sr_data s)"
  by (auto simp: at_end_def split: option.splits if_splits)

lemma skip_bounds:
  "\<forall>sh n. skip_value F d r = Inr (sh, n) \<longrightarrow> 0 < n \<and> n \<le> length d"
  "\<forall>sh s'. series_skip_value F D s r = Inr (sh, s') \<longrightarrow> sr_offset s \<le> length (sr_data s) \<longrightarrow>
     sr_data s' = sr_data s \<and> sr_offset s < sr_offset s' \<and> sr_offset s' \<le> length (sr_data s)"
  "\<forall>sh s'. skip_to_end F D s r = Inr (sh, s') \<longrightarrow> sr_offset s \<le> length (sr_data s) \<longrightarrow>
     sr_data s' = sr_data s \<and> sr_offset s \<le> sr_offset s' \<and> sr_offset s' \<le> length (sr_data s)"
proof (induction F d r and F D s r and F D s r rule: skip_value_series_skip_value_skip_to_end.induct)
  case (1 F d r)
  show ?case
  proof (intro allI impI)
    fix sh n
    assume k: "skip_value F d r = Inr (sh, n)"
    then obtain h s off where h: "head_from_cbor F d = Inr (h, s, off)"
      by (auto simp: skip_value.simps [of F d r] and_then_Inr)
    note IH = 1(1) [OF h refl refl] 1(2) [OF h refl refl]
    from head_from_cbor_len [OF h] have off: "0 < off" "off \<le> length d" by auto
    show "0 < n \<and> n \<le> length d"
    proof (cases "\<exists>c. head_marker h = Array c \<or> head_marker h = Map c")
      case False
      with off k h show ?thesis
        by (cases "head_marker h")
          (auto simp: skip_value.simps [of F d r] and_then_Inr split: option.splits
            dest!: skip_chunks_bounds offset_extent_bounds)
    next
      case True
      then obtain c D where c: "head_marker h = Array c \<and> D = (1::nat) \<or> head_marker h = Map c \<and> D = 2"
        by blast
      with k h obtain a sh' s' where a: "r \<noteq> 0" "series_try_new D d c off = Inr a"
        "skip_to_end F D a (r - 1) = Inr (sh', s')" "n = sr_offset s'"
        by (elim disjE; simp add: skip_value.simps [of F d r] and_then_Inr split: if_splits; blast)
      note f = series_try_new_fields [OF a(2)]
      then have "sr_offset a \<le> length (sr_data a)" using off by simp
      with c a have "sr_offset a \<le> sr_offset s' \<and> sr_offset s' \<le> length (sr_data a)"
        using IH by blast
      with f a(4) off show ?thesis by simp
    qed
  qed
next
  case (2 F D s r)
  show ?case
  proof (intro allI impI)
    fix sh s'
    assume "series_skip_value F D s r = Inr (sh, s')" and le: "sr_offset s \<le> length (sr_data s)"
    then obtain s1 len where a: "at_end D s = Inr (False, s1)"
      and k: "skip_value F (drop (sr_offset s1) (sr_data s1)) r = Inr (sh, len)"
      and s': "s' = series_advance len s1"
      by (auto simp: series_skip_value.simps [of F D s r] and_then_Inr split: if_splits)
    have "0 < len \<and> len \<le> length (drop (sr_offset s1) (sr_data s1))"
      using 2 [OF a refl] k by blast
    with at_end_mono [OF a] s' le
    show "sr_data s' = sr_data s \<and> sr_offset s < sr_offset s' \<and> sr_offset s' \<le> length (sr_data s)"
      by (simp add: series_advance_def) linarith
  qed
next
  case (3 F D s r)
  show ?case
  proof (intro allI impI)
    fix sh s'
    assume k: "skip_to_end F D s r = Inr (sh, s')" and le: "sr_offset s \<le> length (sr_data s)"
    then obtain e s1 where a: "at_end D s = Inr (e, s1)"
      by (auto simp: skip_to_end.simps [of F D s r] and_then_Inr)
    show "sr_data s' = sr_data s \<and> sr_offset s \<le> sr_offset s' \<and> sr_offset s' \<le> length (sr_data s)"
    proof (cases e)
      case True
      with k a at_end_bounds [OF a le] show ?thesis by (simp add: skip_to_end.simps [of F D s r])
    next
      case False
      with k a obtain sh1 s2 sh2 where
        k1: "series_skip_value F D s1 r = Inr (sh1, s2)" and k2: "skip_to_end F D s2 r = Inr (sh2, s')"
        by (simp add: skip_to_end.simps [of F D s r] and_then_Inr) blast
      from False have s1: "s1 = s" using at_end_mono [OF a] by simp
      with le have "sr_offset s1 \<le> length (sr_data s1)" by simp
      then have "sr_data s2 = sr_data s1 \<and> sr_offset s1 < sr_offset s2 \<and> sr_offset s2 \<le> length (sr_data s1)"
        using 3(1) [OF a refl False] k1 by blast
      then have b: "sr_data s2 = sr_data s \<and> sr_offset s < sr_offset s2 \<and> sr_offset s2 \<le> length (sr_data s2)"
        using s1 by simp
      have "sr_data s' = sr_data s2 \<and> sr_offset s2 \<le> sr_offset s' \<and> sr_offset s' \<le> length (sr_data s2)"
        using 3(2) [OF a refl False k1 refl] k2 b by blast
      with b show ?thesis by auto
    qed
  qed
qed

section \<open>Values and closures\<close>

datatype cvalue = VUnsignedInteger u64 | VNegativeInteger u64 | VBytes "nat \<times> nat"
  | VByteStream "(nat \<times> nat) list" | VText bytes | VTextStream "bytes list" | VArray series
  | VMap series | VFalse | VTrue | VNull | VUndefined | VSimple u8 | VFloat f64

fun kind_of_value :: "cvalue \<Rightarrow> ItemKind" where
  "kind_of_value (VUnsignedInteger _) = KUnsignedInteger"
| "kind_of_value (VNegativeInteger _) = KNegativeInteger"
| "kind_of_value (VBytes _) = KDefiniteBytes"
| "kind_of_value (VByteStream _) = KIndefiniteBytes"
| "kind_of_value (VText _) = KDefiniteText"
| "kind_of_value (VTextStream _) = KIndefiniteText"
| "kind_of_value (VArray a) = (if is_definite a then KDefiniteArray else KIndefiniteArray)"
| "kind_of_value (VMap m) = (if is_definite m then KDefiniteMap else KIndefiniteMap)"
| "kind_of_value VFalse = KFalse"
| "kind_of_value VTrue = KTrue"
| "kind_of_value VNull = KNull"
| "kind_of_value VUndefined = KUndefined"
| "kind_of_value (VSimple v) = KSimple v"
| "kind_of_value (VFloat _) = KFloat"

definition value_item_type :: "cvalue \<Rightarrow> u64 list \<Rightarrow> ItemType" where
  "value_item_type v tags = \<lparr>it_tagged = (tags \<noteq> []), it_kind = kind_of_value v\<rparr>"

text \<open>\<^verbatim>\<open>Value::skip\<close>: finish a value that has been handed to a closure.\<close>

definition value_skip :: "float_ops \<Rightarrow> cvalue \<Rightarrow> nat \<Rightarrow> cbor_error + (bool \<times> cvalue)" where
  "value_skip F v r =
    (case v of
       VArray a \<Rightarrow> if r = 0 then Inl MaxRecursion
                   else and_then (skip_to_end F 1 a (r - 1)) (\<lambda>(sh, a'). Inr (sh, VArray a'))
     | VMap m \<Rightarrow> if r = 0 then Inl MaxRecursion
                 else and_then (skip_to_end F 2 m (r - 1)) (\<lambda>(sh, m'). Inr (sh, VMap m'))
     | _ \<Rightarrow> Inr (True, v))"

definition slice :: "bytes \<Rightarrow> nat \<times> nat \<Rightarrow> bytes" where
  "slice d x = take (snd x - fst x) (drop (fst x) d)"

text \<open>
  The chunk loops of \<open>parse_value\<close>. For text every chunk is checked to be UTF-8.
\<close>

function gather_chunks ::
  "float_ops \<Rightarrow> bool \<Rightarrow> bytes \<Rightarrow> bool \<Rightarrow> nat \<Rightarrow> (nat \<times> nat) list \<Rightarrow>
   cbor_error + ((nat \<times> nat) list \<times> bool \<times> nat)" where
  "gather_chunks F is_bytes d shortest offset chunks =
    (if offset < length d \<and> d ! offset = 0xFF then Inr (chunks, shortest, offset + 1)
     else and_then (head_from_cbor F (drop offset d)) (\<lambda>(h, s, len).
       case checked_add offset len of
         None \<Rightarrow> Inl TooBig
       | Some off \<Rightarrow>
           (case chunk_len is_bytes h of
              None \<Rightarrow> Inl InvalidChunk
            | Some l \<Rightarrow>
                and_then (offset_extent d off l) (\<lambda>(a, e).
                  if is_bytes \<or> utf8_valid (slice d (a, e)) then
                    gather_chunks F is_bytes d (shortest \<and> s) e (chunks @ [(a, e)])
                  else Inl InvalidUtf8))))"
  by pat_completeness auto
termination
proof (relation "measure (\<lambda>(F, b, d, s, offset, c). length d - offset)", goal_cases)
  case (2 F b d sh off c x h sl s len o1 l ext a e)
  then have "1 \<le> len" and "len \<le> length (drop off d)"
    using head_from_cbor_len [of F "drop off d" h s len] by auto
  then show ?case
    using 2 offset_extent_bounds [of d o1 l a e] by (auto simp: checked_add_Some)
qed simp

declare gather_chunks.simps [simp del]

type_synonym ('e, 'a) closure = "cvalue \<Rightarrow> bool \<Rightarrow> u64 list \<Rightarrow> 'e + ('a \<times> cvalue)"

definition series_of :: "cvalue \<Rightarrow> series \<Rightarrow> series" where
  "series_of v s = (case v of VArray a \<Rightarrow> a | VMap a \<Rightarrow> a | _ \<Rightarrow> s)"

definition parse_value ::
  "(cbor_error \<Rightarrow> 'e) \<Rightarrow> float_ops \<Rightarrow> ('e, 'a) closure \<Rightarrow> bytes \<Rightarrow> 'e + ('a \<times> nat)" where
  "parse_value conv F f d =
    and_then (map_err conv (head_from_cbor F d)) (\<lambda>(h, shortest, offset).
      let tags = head_tags h;
          scalar = (\<lambda>v. and_then (f v shortest tags) (\<lambda>(r, _). Inr (r, offset)));
          nested = (\<lambda>D mk count.
            and_then (map_err conv (series_try_new D d count offset)) (\<lambda>s.
              and_then (f (mk s) shortest tags) (\<lambda>(r, v).
                and_then (map_err conv (series_complete D (series_of v s) r)) (\<lambda>(r, s').
                  Inr (r, sr_offset s')))))
      in case head_marker h of
           UnsignedInteger v \<Rightarrow> scalar (VUnsignedInteger v)
         | NegativeInteger v \<Rightarrow> scalar (VNegativeInteger v)
         | Bytes (Some len) \<Rightarrow>
             and_then (map_err conv (offset_extent d offset len)) (\<lambda>(a, e).
               and_then (f (VBytes (a, e)) shortest tags) (\<lambda>(r, _). Inr (r, e)))
         | Bytes None \<Rightarrow>
             and_then (map_err conv (gather_chunks F True d shortest offset [])) (\<lambda>(cs, s, e).
               and_then (f (VByteStream cs) s tags) (\<lambda>(r, _). Inr (r, e)))
         | Text (Some len) \<Rightarrow>
             and_then (map_err conv (offset_extent d offset len)) (\<lambda>(a, e).
               if utf8_valid (slice d (a, e)) then
                 and_then (f (VText (slice d (a, e))) shortest tags) (\<lambda>(r, _). Inr (r, e))
               else Inl (conv InvalidUtf8))
         | Text None \<Rightarrow>
             and_then (map_err conv (gather_chunks F False d shortest offset [])) (\<lambda>(cs, s, e).
               and_then (f (VTextStream (map (slice d) cs)) s tags) (\<lambda>(r, _). Inr (r, e)))
         | Array count \<Rightarrow> nested 1 VArray count
         | Map count \<Rightarrow> nested 2 VMap count
         | MFalse \<Rightarrow> scalar VFalse
         | MTrue \<Rightarrow> scalar VTrue
         | MNull \<Rightarrow> scalar VNull
         | MUndefined \<Rightarrow> scalar VUndefined
         | Simple v \<Rightarrow> scalar (VSimple v)
         | Float v \<Rightarrow> scalar (VFloat v))"

text \<open>
  \<^verbatim>\<open>parse_sequence\<close>, \<^verbatim>\<open>parse_array\<close> and \<^verbatim>\<open>parse_map\<close>: the closure works on
  the cursor itself.
\<close>

definition parse_sequence ::
  "(cbor_error \<Rightarrow> 'e) \<Rightarrow> (series \<Rightarrow> 'e + ('a \<times> series)) \<Rightarrow> bytes \<Rightarrow> 'e + ('a \<times> nat)" where
  "parse_sequence conv f d =
    and_then (f (series_new d None 0)) (\<lambda>(r, s).
      and_then (map_err conv (series_complete 0 s ())) (\<lambda>(_, s'). Inr (r, sr_offset s')))"

definition parse_array ::
  "(cbor_error \<Rightarrow> 'e) \<Rightarrow> float_ops \<Rightarrow> (series \<Rightarrow> bool \<Rightarrow> u64 list \<Rightarrow> 'e + ('a \<times> series)) \<Rightarrow>
   bytes \<Rightarrow> 'e + ('a \<times> nat)" where
  "parse_array conv F f d =
    and_then (map_err conv (head_from_cbor F d)) (\<lambda>(h, shortest, offset).
      case head_marker h of
        Array count \<Rightarrow>
          and_then (map_err conv (series_try_new 1 d count offset)) (\<lambda>a.
            and_then (f a shortest (head_tags h)) (\<lambda>(r, a').
              and_then (map_err conv (series_complete 1 a' r)) (\<lambda>(r, s). Inr (r, sr_offset s))))
      | _ \<Rightarrow> Inl (conv (IncorrectType ''Array'' (head_item_type h))))"

definition parse_map ::
  "(cbor_error \<Rightarrow> 'e) \<Rightarrow> float_ops \<Rightarrow> (series \<Rightarrow> bool \<Rightarrow> u64 list \<Rightarrow> 'e + ('a \<times> series)) \<Rightarrow>
   bytes \<Rightarrow> 'e + ('a \<times> nat)" where
  "parse_map conv F f d =
    and_then (map_err conv (head_from_cbor F d)) (\<lambda>(h, shortest, offset).
      case head_marker h of
        Map count \<Rightarrow>
          and_then (map_err conv (series_try_new 2 d count offset)) (\<lambda>m.
            and_then (f m shortest (head_tags h)) (\<lambda>(r, m').
              and_then (map_err conv (series_complete 2 m' r)) (\<lambda>(r, s). Inr (r, sr_offset s))))
      | _ \<Rightarrow> Inl (conv (IncorrectType ''Map'' (head_item_type h))))"

section \<open>Items of a series\<close>

definition series_parse_value ::
  "(cbor_error \<Rightarrow> 'e) \<Rightarrow> float_ops \<Rightarrow> nat \<Rightarrow> ('e, 'a) closure \<Rightarrow> series \<Rightarrow> 'e + ('a \<times> series)" where
  "series_parse_value conv F D f s =
    and_then (map_err conv (at_end D s)) (\<lambda>(e, s1).
      if e then Inl (conv NoMoreItems)
      else and_then (parse_value conv F f (drop (sr_offset s1) (sr_data s1))) (\<lambda>(v, len).
             Inr (v, series_advance len s1)))"

definition series_try_parse_value ::
  "(cbor_error \<Rightarrow> 'e) \<Rightarrow> float_ops \<Rightarrow> nat \<Rightarrow> ('e, 'a) closure \<Rightarrow> series \<Rightarrow> 'e + ('a option \<times> series)"
  where
  "series_try_parse_value conv F D f s =
    and_then (map_err conv (at_end D s)) (\<lambda>(e, s1).
      if e then Inr (None, s1)
      else and_then (series_parse_value conv F D f s1) (\<lambda>(v, s2). Inr (Some v, s2)))"

type_synonym ('e, 'a) from_cbor = "bytes \<Rightarrow> 'e + ('a \<times> bool \<times> nat)"

definition series_parse ::
  "(cbor_error \<Rightarrow> 'e) \<Rightarrow> nat \<Rightarrow> ('e, 'a) from_cbor \<Rightarrow> series \<Rightarrow> 'e + ('a \<times> series)" where
  "series_parse conv D fc s =
    and_then (map_err conv (at_end D s)) (\<lambda>(e, s1).
      if e then Inl (conv NoMoreItems)
      else and_then (fc (drop (sr_offset s1) (sr_data s1))) (\<lambda>(v, _, len).
             Inr (v, series_advance len s1)))"

definition series_try_parse ::
  "(cbor_error \<Rightarrow> 'e) \<Rightarrow> nat \<Rightarrow> ('e, 'a) from_cbor \<Rightarrow> series \<Rightarrow> 'e + ('a option \<times> series)" where
  "series_try_parse conv D fc s =
    and_then (map_err conv (at_end D s)) (\<lambda>(e, s1).
      if e then Inr (None, s1)
      else and_then (series_parse conv D fc s1) (\<lambda>(v, s2). Inr (Some v, s2)))"

definition series_parse_array ::
  "(cbor_error \<Rightarrow> 'e) \<Rightarrow> float_ops \<Rightarrow> nat \<Rightarrow> (series \<Rightarrow> bool \<Rightarrow> u64 list \<Rightarrow> 'e + ('a \<times> series)) \<Rightarrow>
   series \<Rightarrow> 'e + ('a \<times> series)" where
  "series_parse_array conv F D f s =
    and_then (map_err conv (at_end D s)) (\<lambda>(e, s1).
      if e then Inl (conv NoMoreItems)
      else and_then (parse_array conv F f (drop (sr_offset s1) (sr_data s1))) (\<lambda>(v, len).
             Inr (v, series_advance len s1)))"

definition series_parse_map ::
  "(cbor_error \<Rightarrow> 'e) \<Rightarrow> float_ops \<Rightarrow> nat \<Rightarrow> (series \<Rightarrow> bool \<Rightarrow> u64 list \<Rightarrow> 'e + ('a \<times> series)) \<Rightarrow>
   series \<Rightarrow> 'e + ('a \<times> series)" where
  "series_parse_map conv F D f s =
    and_then (map_err conv (at_end D s)) (\<lambda>(e, s1).
      if e then Inl (conv NoMoreItems)
      else and_then (parse_map conv F f (drop (sr_offset s1) (sr_data s1))) (\<lambda>(v, len).
             Inr (v, series_advance len s1)))"

definition parse :: "('e, 'a) from_cbor \<Rightarrow> bytes \<Rightarrow> 'e + 'a" where
  "parse fc d = and_then (fc d) (\<lambda>(v, _, _). Inr v)"

definition parse_exact :: "(cbor_error \<Rightarrow> 'e) \<Rightarrow> ('e, 'a) from_cbor \<Rightarrow> bytes \<Rightarrow> 'e + 'a" where
  "parse_exact conv fc d =
    and_then (fc d) (\<lambda>(v, _, len). if len = length d then Inr v else Inl (conv AdditionalItems))"

end
