(* ===== verification/Cbor_Impls.thy ===== *)
theory Cbor_Impls
  imports Cbor_Decode
begin

text \<open>
  The \<^verbatim>\<open>FromCbor\<close> implementations of \<^verbatim>\<open>cbor/src/decode/impls.rs\<close> and the
  \<^verbatim>\<open>Untagged\<close> wrapper of \<^verbatim>\<open>cbor/src/decode/mod.rs\<close>, and the contract that
  pairs an encoder with a decoder: the locale \<open>cbor_codec\<close> (what is written is read back,
  whatever follows it) and its extension \<open>canonical_codec\<close> (what is read as shortest is
  what would be written).
\<close>

section \<open>Decoders\<close>

definition u64_from_cbor :: "float_ops \<Rightarrow> (cbor_error, u64) from_cbor" where
  "u64_from_cbor F d =
    and_then (head_from_cbor F d) (\<lambda>(h, shortest, offset).
      case head_marker h of
        UnsignedInteger v \<Rightarrow> Inr (v, shortest \<and> head_tags h = [], offset)
      | _ \<Rightarrow> Inl (IncorrectType ''Untagged Unsigned Integer'' (head_item_type h)))"

text \<open>\<^verbatim>\<open>u8\<close>, \<^verbatim>\<open>u16\<close>, \<^verbatim>\<open>u32\<close> and \<^verbatim>\<open>usize\<close>: the value must fit.\<close>

definition uint_from_cbor :: "float_ops \<Rightarrow> (cbor_error, 'a::len word) from_cbor" where
  "uint_from_cbor F d =
    and_then (u64_from_cbor F d) (\<lambda>(v, shortest, len).
      if unat v < 2 ^ LENGTH('a) then Inr (ucast v, shortest, len) else Inl TryFromIntError)"

definition i64_try_from :: "u64 \<Rightarrow> cbor_error + int" where
  "i64_try_from v = (if unat v < 2 ^ 63 then Inr (int (unat v)) else Inl TryFromIntError)"

definition i64_from_cbor :: "float_ops \<Rightarrow> (cbor_error, int) from_cbor" where
  "i64_from_cbor F d =
    and_then (head_from_cbor F d) (\<lambda>(h, shortest, offset).
      case head_marker h of
        UnsignedInteger v \<Rightarrow>
          and_then (i64_try_from v) (\<lambda>i. Inr (i, shortest \<and> head_tags h = [], offset))
      | NegativeInteger n \<Rightarrow>
          and_then (i64_try_from n) (\<lambda>i. Inr (- 1 - i, shortest \<and> head_tags h = [], offset))
      | _ \<Rightarrow> Inl (IncorrectType ''Untagged Integer'' (head_item_type h)))"

text \<open>\<^verbatim>\<open>i8\<close>, \<^verbatim>\<open>i16\<close>, \<^verbatim>\<open>i32\<close> and \<^verbatim>\<open>isize\<close>, as signed words.\<close>

definition int_from_cbor :: "float_ops \<Rightarrow> (cbor_error, 'a::len word) from_cbor" where
  "int_from_cbor F d =
    and_then (i64_from_cbor F d) (\<lambda>(v, shortest, len).
      if - (2 ^ (LENGTH('a) - 1)) \<le> v \<and> v < 2 ^ (LENGTH('a) - 1)
      then Inr (of_int v, shortest, len) else Inl TryFromIntError)"

definition f64_from_cbor :: "float_ops \<Rightarrow> (cbor_error, f64) from_cbor" where
  "f64_from_cbor F d =
    and_then (head_from_cbor F d) (\<lambda>(h, shortest, offset).
      case head_marker h of
        Float v \<Rightarrow> Inr (v, shortest \<and> head_tags h = [], offset)
      | _ \<Rightarrow> Inl (IncorrectType ''Untagged Float'' (head_item_type h)))"

definition narrow_f16 :: "float_ops \<Rightarrow> f64 \<Rightarrow> f16 option" where
  "narrow_f16 F v =
    (case f16_from_f64 F v of
       None \<Rightarrow> None
     | Some f \<Rightarrow> if f64_is_nan v \<or> f64_eq (f16_to_f64 F f) v then Some f else None)"

definition narrow_f32 :: "float_ops \<Rightarrow> f64 \<Rightarrow> f32 option" where
  "narrow_f32 F v =
    (case f32_from_f64 F v of
       None \<Rightarrow> None
     | Some f \<Rightarrow>
         if f64_is_nan v \<or> (case f32_to_f64 F f of Some w \<Rightarrow> f64_eq w v | None \<Rightarrow> False)
         then Some f else None)"

definition f16_from_cbor :: "float_ops \<Rightarrow> (cbor_error, f16) from_cbor" where
  "f16_from_cbor F d =
    and_then (f64_from_cbor F d) (\<lambda>(v, shortest, len).
      and_then (ok_or (narrow_f16 F v) PrecisionLoss) (\<lambda>f. Inr (f, shortest, len)))"

definition f32_from_cbor :: "float_ops \<Rightarrow> (cbor_error, f32) from_cbor" where
  "f32_from_cbor F d =
    and_then (f64_from_cbor F d) (\<lambda>(v, shortest, len).
      and_then (ok_or (narrow_f32 F v) PrecisionLoss) (\<lambda>f. Inr (f, shortest, len)))"

definition bool_from_cbor :: "float_ops \<Rightarrow> (cbor_error, bool) from_cbor" where
  "bool_from_cbor F d =
    and_then (head_from_cbor F d) (\<lambda>(h, shortest, offset).
      case head_marker h of
        MFalse \<Rightarrow> Inr (False, shortest \<and> head_tags h = [], offset)
      | MTrue \<Rightarrow> Inr (True, shortest \<and> head_tags h = [], offset)
      | _ \<Rightarrow> Inl (IncorrectType ''Untagged Boolean'' (head_item_type h)))"

definition string_from_cbor :: "float_ops \<Rightarrow> (cbor_error, bytes) from_cbor" where
  "string_from_cbor F d =
    and_then (parse_value id F (\<lambda>v shortest tags.
      case v of
        VText t \<Rightarrow> Inr ((t, shortest \<and> tags = []), v)
      | VTextStream chunks \<Rightarrow> Inr ((concat chunks, False), v)
      | _ \<Rightarrow> Inl (IncorrectType ''Untagged Text String'' (value_item_type v tags))) d)
    (\<lambda>((t, s), len). Inr (t, s, len))"

definition boxed_bytes_from_cbor :: "float_ops \<Rightarrow> (cbor_error, bytes) from_cbor" where
  "boxed_bytes_from_cbor F d =
    and_then (parse_value id F (\<lambda>v shortest tags.
      case v of
        VBytes r \<Rightarrow> Inr ((slice d r, shortest \<and> tags = []), v)
      | VByteStream ranges \<Rightarrow> Inr ((concat (map (slice d) ranges), False), v)
      | _ \<Rightarrow> Inl (IncorrectType ''Untagged Byte String'' (value_item_type v tags))) d)
    (\<lambda>((b, s), len). Inr (b, s, len))"

definition option_from_cbor ::
  "(cbor_error \<Rightarrow> 'e) \<Rightarrow> float_ops \<Rightarrow> ('e, 'a) from_cbor \<Rightarrow> ('e, 'a option) from_cbor" where
  "option_from_cbor conv F fc d =
    and_then (map_err conv (head_from_cbor F d)) (\<lambda>(h, shortest, len).
      if head_marker h = MUndefined then Inr (None, shortest \<and> head_tags h = [], len)
      else and_then (fc d) (\<lambda>(v, s, len). Inr (Some v, s, len)))"

text \<open>The tuple forms that keep the flag and the length of the inner decode.\<close>

definition with_shortest_len :: "('e, 'a) from_cbor \<Rightarrow> ('e, 'a \<times> bool \<times> nat) from_cbor" where
  "with_shortest_len fc d = and_then (fc d) (\<lambda>(v, s, n). Inr ((v, s, n), s, n))"

definition with_shortest :: "('e, 'a) from_cbor \<Rightarrow> ('e, 'a \<times> bool) from_cbor" where
  "with_shortest fc d = and_then (fc d) (\<lambda>(v, s, n). Inr ((v, s), s, n))"

definition with_len :: "('e, 'a) from_cbor \<Rightarrow> ('e, 'a \<times> nat) from_cbor" where
  "with_len fc d = and_then (fc d) (\<lambda>(v, s, n). Inr ((v, n), s, n))"

definition untagged :: "(cbor_error \<Rightarrow> 'e) \<Rightarrow> ('e, 'a) from_cbor \<Rightarrow> ('e, 'a) from_cbor" where
  "untagged conv fc d =
    (case d of
       b # _ \<Rightarrow> if 0xC0 \<le> b \<and> b \<le> 0xDB then Inl (conv UnexpectedTag) else fc d
     | [] \<Rightarrow> fc d)"

section \<open>The codec contract\<close>

locale cbor_codec =
  fixes to_cbor :: "'a \<Rightarrow> emitter"
    and from_cbor :: "('e, 'a) from_cbor"
    and conv :: "cbor_error \<Rightarrow> 'e"
    and enc :: "'a \<Rightarrow> bytes"
    and valid :: "'a \<Rightarrow> bool"
  assumes to_cbor_writes: "valid x \<Longrightarrow> writes (to_cbor x) (enc x)"
    and from_cbor_enc: "valid x \<Longrightarrow> length (enc x @ r) \<le> usize_max \<Longrightarrow>
      from_cbor (enc x @ r) = Inr (x, True, length (enc x))"
begin

lemma emit_parse_exact:
  "valid x \<Longrightarrow> length (enc x) \<le> usize_max \<Longrightarrow>
    \<exists>bs. emit_value (to_cbor x) = Some bs \<and> parse_exact conv from_cbor bs = Inr x"
  using from_cbor_enc [of x "[]"] writes_emit_value [OF to_cbor_writes [of x]]
  by (simp add: parse_exact_def)

lemma emit_then_parse:
  "valid x \<Longrightarrow> \<exists>bs. emit_value (to_cbor x) = Some bs \<and>
    (\<forall>r. length (bs @ r) \<le> usize_max \<longrightarrow> from_cbor (bs @ r) = Inr (x, True, length bs))"
  using from_cbor_enc writes_emit_value [OF to_cbor_writes [of x]] by blast

lemma trailing_rejected:
  "valid x \<Longrightarrow> length (enc x @ r) \<le> usize_max \<Longrightarrow> r \<noteq> [] \<Longrightarrow>
    parse_exact conv from_cbor (enc x @ r) = Inl (conv AdditionalItems)"
  by (simp add: parse_exact_def from_cbor_enc del: length_append) simp

lemma enc_prefix_free:
  assumes "valid x" "valid y" "enc x @ r = enc y @ r'" "length (enc x @ r) \<le> usize_max"
  shows "x = y \<and> r = r'"
proof -
  have "Inr (x, True, length (enc x)) = (Inr (y, True, length (enc y)) :: 'e + _)"
    using from_cbor_enc [of x r] from_cbor_enc [of y r'] assms by simp
  then have "x = y" by simp
  then show ?thesis using assms(3) by simp
qed

text \<open>Reading the value as the next item of a definite-length series.\<close>

lemma series_parse_enc:
  assumes "valid x" and "sr_count s = Some c" and "sr_parsed s < c"
    and "drop (sr_offset s) (sr_data s) = enc x @ r" and "length (sr_data s) \<le> usize_max"
  shows "series_parse conv D from_cbor s = Inr (x, series_advance (length (enc x)) s)"
proof -
  have "length (enc x @ r) \<le> length (sr_data s)"
    unfolding assms(4) [symmetric] by simp
  then have "length (enc x @ r) \<le> usize_max" using assms(5) by simp
  then show ?thesis
    using assms by (simp add: series_parse_def at_end_def from_cbor_enc del: length_append)
qed

end

text \<open>
  A canonical decoder also says which encodings are minimal: the flag is set exactly for
  the bytes that the encoder writes.
\<close>

locale canonical_codec = cbor_codec +
  assumes shortest_enc: "from_cbor d = Inr (x, True, n) \<Longrightarrow> length d \<le> usize_max \<Longrightarrow> take n d = enc x"
    and consumed: "from_cbor d = Inr (x, s, n) \<Longrightarrow> length d \<le> usize_max \<Longrightarrow> n \<le> length d"
begin

lemma shortest_iff:
  assumes "from_cbor d = Inr (x, s, n)" and "valid x" and "length d \<le> usize_max"
  shows "s \<longleftrightarrow> take n d = enc x"
proof
  assume s
  with assms show "take n d = enc x" by (intro shortest_enc) simp_all
next
  assume t: "take n d = enc x"
  then have "d = enc x @ drop n d" by (metis append_take_drop_id)
  moreover from this have "from_cbor (enc x @ drop n d) = Inr (x, True, length (enc x))"
    using assms(2,3) by (metis from_cbor_enc)
  ultimately show s using assms(1) by simp
qed

end

section \<open>The implementations meet the contract\<close>

text \<open>The head that \<open>head_bytes\<close> writes, as the full decoder reads it.\<close>

lemma head_from_cbor_head_bytes [cbor_simps]:
  assumes "maj \<le> 5" and "length (head_bytes maj v @ r) \<le> usize_max"
  shows "head_from_cbor F (head_bytes maj v @ r) =
    Inr (\<lparr>head_tags = [], head_marker = major_marker maj v\<rparr>, True, length (head_bytes maj v))"
  using assms by (simp add: head_from_cbor_ref head_ref_head_bytes)

lemma u64_from_cbor_Inr:
  "u64_from_cbor F d = Inr (v, s, n) \<longleftrightarrow>
    (\<exists>h sh. head_from_cbor F d = Inr (h, sh, n) \<and> head_marker h = UnsignedInteger v \<and>
      s = (sh \<and> head_tags h = []))"
proof (cases "head_from_cbor F d")
  case (Inr q)
  obtain h sh m where "q = (h, sh, m)" by (cases q)
  with Inr show ?thesis by (cases "head_marker h") (auto simp: u64_from_cbor_def)
qed (simp add: u64_from_cbor_def)

lemma u64_from_cbor_canonical:
  assumes "u64_from_cbor F d = Inr (v, True, n)" and "length d \<le> usize_max"
  shows "take n d = head_bytes 0 v"
proof -
  obtain h where "head_ref F d = Inr (h, True, n)" "head_marker h = UnsignedInteger v" "head_tags h = []"
    using assms by (auto simp: u64_from_cbor_Inr head_from_cbor_ref)
  then show ?thesis using head_ref_canonical [of F d h n] by simp
qed

lemma u64_from_cbor_len: "u64_from_cbor F d = Inr (v, s, n) \<Longrightarrow> 1 \<le> n \<and> n \<le> length d"
  by (auto simp: u64_from_cbor_Inr dest: head_from_cbor_len)

interpretation u64_codec: canonical_codec "uint_to_cbor :: u64 \<Rightarrow> emitter" "u64_from_cbor F" id
  "head_bytes 0" "\<lambda>_. True" for F
proof (unfold_locales, goal_cases)
  case (1 x)
  show ?case using writes_uint [of x] by simp
next
  case (2 x r)
  then show ?case
    by (simp add: u64_from_cbor_def head_from_cbor_head_bytes major_marker_def del: length_append)
next
  case (3 d x n)
  then show ?case by (rule u64_from_cbor_canonical)
next
  case (4 d x s n)
  then show ?case using u64_from_cbor_len by blast
qed

text \<open>The narrower unsigned types, at each width the code instantiates.\<close>

lemma uint_from_cbor_enc:
  assumes "LENGTH('a::len) \<le> 64" and "length (head_bytes 0 (ucast (x :: 'a word)) @ r) \<le> usize_max"
  shows "uint_from_cbor F (head_bytes 0 (ucast x) @ r) = Inr (x, True, length (head_bytes 0 (ucast x)))"
proof -
  have u: "unat (ucast x :: u64) = unat x"
  proof -
    have "(2::nat) ^ LENGTH('a) \<le> 2 ^ 64" using assms(1) by (intro power_increasing) simp_all
    then have "unat x < 2 ^ 64" using unat_lt2p [of x] by linarith
    then show ?thesis by (simp add: unat_ucast_mod)
  qed
  then have "ucast (ucast x :: u64) = x"
    using unat_lt2p [of x] by (simp add: word_unat_eq_iff unat_ucast_mod)
  with u show ?thesis
    using assms(2) unat_lt2p [of x]
    by (simp add: uint_from_cbor_def u64_codec.from_cbor_enc del: length_append)
qed

lemma uint_from_cbor_canonical:
  assumes "uint_from_cbor F d = Inr (x :: 'a::len word, True, n)" and "length d \<le> usize_max"
    and "LENGTH('a) \<le> 64"
  shows "take n d = head_bytes 0 (ucast x)"
proof -
  obtain v where v: "u64_from_cbor F d = Inr (v, True, n)" "unat v < 2 ^ LENGTH('a)" "x = ucast v"
    using assms(1) by (auto simp: uint_from_cbor_def and_then_Inr split: if_splits)
  have "(ucast (ucast v :: 'a word) :: u64) = v"
    using v(2) unat_lt2p [of v] by (simp add: word_unat_eq_iff unat_ucast_mod)
  with u64_from_cbor_canonical [OF v(1) assms(2)] v(3) show ?thesis by simp
qed

lemma uint_from_cbor_len: "uint_from_cbor F d = Inr (v, s, n) \<Longrightarrow> 1 \<le> n \<and> n \<le> length d"
  by (auto simp: uint_from_cbor_def and_then_Inr split: if_splits dest!: u64_from_cbor_len)

interpretation u8_codec: canonical_codec "uint_to_cbor :: u8 \<Rightarrow> emitter" "uint_from_cbor F" id
  "\<lambda>v. head_bytes 0 (ucast v)" "\<lambda>_. True" for F
  by unfold_locales
    (auto intro: uint_from_cbor_enc uint_from_cbor_canonical dest: uint_from_cbor_len)

interpretation u16_codec: canonical_codec "uint_to_cbor :: u16 \<Rightarrow> emitter" "uint_from_cbor F" id
  "\<lambda>v. head_bytes 0 (ucast v)" "\<lambda>_. True" for F
  by unfold_locales
    (auto intro: uint_from_cbor_enc uint_from_cbor_canonical dest: uint_from_cbor_len)

interpretation u32_codec: canonical_codec "uint_to_cbor :: u32 \<Rightarrow> emitter" "uint_from_cbor F" id
  "\<lambda>v. head_bytes 0 (ucast v)" "\<lambda>_. True" for F
  by unfold_locales
    (auto intro: uint_from_cbor_enc uint_from_cbor_canonical dest: uint_from_cbor_len)

text \<open>Signed integers, modelled as signed words.\<close>

definition int_enc :: "int \<Rightarrow> bytes" where
  "int_enc i = (if 0 \<le> i then head_bytes 0 (of_int i) else head_bytes 1 (of_int (- 1 - i)))"

lemma int_to_cbor_writes: "writes (int_to_cbor v) (int_enc (sint v))"
proof (cases "0 \<le> sint v")
  case True
  then show ?thesis by (simp add: writes_def int_to_cbor_def int_enc_def emit_uint_minor_eq)
next
  case False
  then have e: "of_int \<bar>sint v\<bar> - 1 = (of_int (- 1 - sint v) :: u64)" by simp
  show ?thesis
    by (simp only: writes_def int_to_cbor_def int_enc_def emit_uint_minor_eq if_not_P [OF False] e) simp
qed

lemma unat_of_int_64: "0 \<le> i \<Longrightarrow> i < 2 ^ 64 \<Longrightarrow> int (unat (of_int i :: u64)) = i"
  by (simp add: uint_word_of_int take_bit_eq_mod flip: uint_nat)

lemma unat_of_int_63: "0 \<le> i \<Longrightarrow> i < 2 ^ 63 \<Longrightarrow> unat (of_int i :: u64) < 2 ^ 63"
proof -
  assume i: "0 \<le> i" "i < 2 ^ 63"
  then have "int (unat (of_int i :: u64)) < int (2 ^ 63)" by (subst unat_of_int_64) simp_all
  then show ?thesis by (simp only: of_nat_less_iff)
qed

lemma i64_from_cbor_enc:
  assumes "- (2 ^ 63) \<le> i" and "i < 2 ^ 63" and "length (int_enc i @ r) \<le> usize_max"
  shows "i64_from_cbor F (int_enc i @ r) = Inr (i, True, length (int_enc i))"
proof (cases "0 \<le> i")
  case True
  then have "int (unat (of_int i :: u64)) = i" using assms(2) by (intro unat_of_int_64) simp_all
  moreover have "unat (of_int i :: u64) < 2 ^ 63" using True assms(2) by (rule unat_of_int_63)
  ultimately show ?thesis
    using True assms(3)
    by (simp add: i64_from_cbor_def int_enc_def head_from_cbor_head_bytes major_marker_def
        i64_try_from_def del: length_append)
next
  case False
  then have "int (unat (of_int (- 1 - i) :: u64)) = - 1 - i"
    using assms(1) by (intro unat_of_int_64) simp_all
  moreover have "unat (of_int (- 1 - i) :: u64) < 2 ^ 63"
    using False assms(1) by (intro unat_of_int_63) simp_all
  ultimately show ?thesis
    using False assms(3)
    by (simp add: i64_from_cbor_def int_enc_def head_from_cbor_head_bytes major_marker_def
        i64_try_from_def del: length_append of_int_diff)
qed

lemma int_from_cbor_enc:
  assumes "LENGTH('a::len) \<le> 64" and "length (int_enc (sint (x :: 'a word)) @ r) \<le> usize_max"
  shows "int_from_cbor F (int_enc (sint x) @ r) = Inr (x, True, length (int_enc (sint x)))"
proof -
  have r: "- (2 ^ (LENGTH('a) - 1)) \<le> sint x" "sint x < 2 ^ (LENGTH('a) - 1)"
    using sint_greater_eq [of x] sint_less [of x] by simp_all
  have "(2::int) ^ (LENGTH('a) - 1) \<le> 2 ^ 63" using assms(1) by (intro power_increasing) simp_all
  with r have "- (2 ^ 63) \<le> sint x" "sint x < 2 ^ 63" by linarith+
  with r show ?thesis
    using assms(2) by (simp add: int_from_cbor_def i64_from_cbor_enc del: length_append)
qed

interpretation i64_codec: cbor_codec "int_to_cbor :: 64 word \<Rightarrow> emitter" "int_from_cbor F" id
  "\<lambda>v. int_enc (sint v)" "\<lambda>_. True" for F
  by unfold_locales (simp_all add: int_to_cbor_writes int_from_cbor_enc del: length_append)

interpretation i32_codec: cbor_codec "int_to_cbor :: 32 word \<Rightarrow> emitter" "int_from_cbor F" id
  "\<lambda>v. int_enc (sint v)" "\<lambda>_. True" for F
  by unfold_locales (simp_all add: int_to_cbor_writes int_from_cbor_enc del: length_append)

section \<open>Strings\<close>

lemma offset_extent_append:
  assumes "length (a @ b @ c) \<le> usize_max" and "unat l = length b"
  shows "offset_extent (a @ b @ c) (length a) l = Inr (length a, length a + length b)"
  using assms by (simp add: offset_extent_def checked_add_def)

lemma slice_append [simp]: "slice (a @ b @ c) (length a, length a + length b) = b"
  by (simp add: slice_def)

lemma unat_of_nat_length: "n \<le> usize_max \<Longrightarrow> unat (of_nat n :: u64) = n"
  by (simp add: unat_of_nat usize_max_def)

lemma string_from_cbor_enc:
  assumes "utf8_valid t" and "length ((head_bytes 3 (of_nat (length t)) @ t) @ r) \<le> usize_max"
  shows "string_from_cbor F ((head_bytes 3 (of_nat (length t)) @ t) @ r) =
    Inr (t, True, length (head_bytes 3 (of_nat (length t)) @ t))"
proof -
  let ?h = "head_bytes 3 (of_nat (length t))"
  have l: "length (?h @ t @ r) \<le> usize_max" "unat (of_nat (length t) :: u64) = length t"
    using assms(2) by (simp_all add: unat_of_nat_length)
  show ?thesis
    using assms(1) head_from_cbor_head_bytes [of 3 "of_nat (length t)" "t @ r" F] l
      offset_extent_append [OF l(1), of "of_nat (length t)"]
    by (simp add: string_from_cbor_def parse_value_def major_marker_def head_of_major_def Let_def)
qed

lemma boxed_bytes_from_cbor_enc:
  assumes "length ((head_bytes 2 (of_nat (length t)) @ t) @ r) \<le> usize_max"
  shows "boxed_bytes_from_cbor F ((head_bytes 2 (of_nat (length t)) @ t) @ r) =
    Inr (t, True, length (head_bytes 2 (of_nat (length t)) @ t))"
proof -
  let ?h = "head_bytes 2 (of_nat (length t))"
  have l: "length (?h @ t @ r) \<le> usize_max" "unat (of_nat (length t) :: u64) = length t"
    using assms by (simp_all add: unat_of_nat_length)
  show ?thesis
    using head_from_cbor_head_bytes [of 2 "of_nat (length t)" "t @ r" F] l
      offset_extent_append [OF l(1), of "of_nat (length t)"]
    by (simp add: boxed_bytes_from_cbor_def parse_value_def major_marker_def head_of_major_def Let_def)
qed

interpretation string_codec: cbor_codec string_to_cbor "string_from_cbor F" id
  "\<lambda>t. head_bytes 3 (of_nat (length t)) @ t" utf8_valid for F
  by unfold_locales (auto simp del: append_assoc length_append intro: string_from_cbor_enc)

interpretation bytes_codec: cbor_codec bytes_to_cbor "boxed_bytes_from_cbor F" id
  "\<lambda>t. head_bytes 2 (of_nat (length t)) @ t" "\<lambda>_. True" for F
  by unfold_locales (auto simp del: append_assoc length_append intro: boxed_bytes_from_cbor_enc)

section \<open>Booleans, floats and the untagged wrapper\<close>

lemma head_ref_simple:
  assumes "minor_of m = mi" and "major_of m = 7" and "parse_simple F mi d True = Inr (mk, s, n)"
  shows "head_ref F (m # d) = Inr (\<lparr>head_tags = [], head_marker = mk\<rparr>, s, 1 + n)"
proof -
  have "\<not> (7::byte) \<le> 5" by simp
  with assms show ?thesis by (simp add: head_ref.simps(2) parse_marker_slow_def)
qed

lemma bool_from_cbor_enc:
  assumes "length ([if b then 0xF5 else 0xF4] @ r) \<le> usize_max"
  shows "bool_from_cbor F ([if b then 0xF5 else 0xF4] @ r) = Inr (b, True, 1)"
proof -
  have m: "minor_of (if b then 0xF5 else 0xF4) = (if b then 21 else 20)"
    "major_of (if b then 0xF5 else 0xF4) = 7"
    by (simp_all add: minor_of_def major_of_def)
  have "head_ref F ((if b then 0xF5 else 0xF4) # r) =
      Inr (\<lparr>head_tags = [], head_marker = (if b then MTrue else MFalse)\<rparr>, True, 1 + 0)"
    by (rule head_ref_simple [OF m]) (simp add: parse_simple_def)
  with assms show ?thesis
    by (simp add: bool_from_cbor_def head_from_cbor_ref)
qed

interpretation bool_codec: cbor_codec bool_to_cbor "bool_from_cbor F" id
  "\<lambda>b. [if b then 0xF5 else 0xF4]" "\<lambda>_. True" for F
  by unfold_locales (simp_all add: writes_bool bool_from_cbor_enc del: length_append append_Cons)

end
