(* ===== verification/Cbor_Float_Laws.thy ===== *)
theory Cbor_Float_Laws
  imports Cbor_Impls
begin

unbundle bit_operations_syntax

text \<open>
  Floating-point items: the bytes the encoder writes for them (\<^verbatim>\<open>ToCbor\<close> for \<^verbatim>\<open>f64\<close>,
  \<^verbatim>\<open>f32\<close> and \<^verbatim>\<open>half::f16\<close> in \<^verbatim>\<open>cbor/src/encode.rs\<close>), what the head decoder makes of
  them, and, under the documented behaviour of the conversions of the float crates, that the decoder
  flags the form the encoder chose as the shortest one.
\<close>

section \<open>The behaviour of the conversions\<close>

text \<open>
  Conversions are exact where they can be: an \<^verbatim>\<open>f64\<close> whose value some \<^verbatim>\<open>f16\<close> has narrows
  to that value; the zeros and the infinities are such values; and widening a number, in one step or
  in two, keeps its value.
\<close>

definition float_spec :: "float_ops \<Rightarrow> bool" where
  "float_spec F \<longleftrightarrow>
    (\<forall>h v. f64_eq (f16_to_f64 F h) v \<longrightarrow> (\<exists>h'. f16_from_f64 F v = Some h' \<and> f64_eq (f16_to_f64 F h') v)) \<and>
    (\<forall>v. f64_classify v = Zero \<or> f64_classify v = Infinite \<longrightarrow> (\<exists>h. f64_eq (f16_to_f64 F h) v)) \<and>
    (\<forall>h w. f16_to_f32 F h = Some w \<and> \<not> f32_is_nan w \<longrightarrow> f64_eq (f16_to_f64 F h) (f32_into_f64 w)) \<and>
    (\<forall>f w. f32_to_f64 F f = Some w \<and> \<not> f64_is_nan w \<longrightarrow> f64_eq w (f32_into_f64 f))"

section \<open>Widening an \<^verbatim>\<open>f32\<close>\<close>

lemma f64_classify_parts:
  assumes "s < 2" and "ex < 2048" and "man < 2 ^ 52"
  shows "f64_classify (of_nat (s * 2 ^ 63 + ex * 2 ^ 52 + man)) =
    (if ex = 2047 then (if man = 0 then Infinite else Nan)
     else if ex = 0 then (if man = 0 then Zero else Subnormal) else Normal)"
proof -
  let ?n = "s * 2 ^ 63 + ex * 2 ^ 52 + man"
  have lt: "?n < 2 ^ 64" using assms by simp
  have u: "unat (of_nat ?n :: f64) = ?n" using lt by (subst unat_of_nat) simp
  have "?n = man + (s * 2048 + ex) * 2 ^ 52" by simp
  then have d: "?n div 2 ^ 52 = s * 2048 + ex" "?n mod 2 ^ 52 = man"
    using assms(3) by (simp_all only: div_mult_self1 mod_mult_self1) simp_all
  have e: "(s * 2048 + ex) mod 2 ^ 11 = ex" using assms by simp
  show ?thesis unfolding f64_classify_def classify_bits_def u d e Let_def by simp
qed

lemma top_bit_bounds: "0 < m \<Longrightarrow> m < 2 ^ k \<Longrightarrow> 2 ^ top_bit k m \<le> m \<and> m < 2 ^ Suc (top_bit k m) \<and> top_bit k m < k"
proof (induction k)
  case (Suc k)
  then show ?case by (cases "2 ^ k \<le> m") auto
qed simp

text \<open>The category is kept, but that a subnormal \<^verbatim>\<open>f32\<close> is a normal \<^verbatim>\<open>f64\<close>.\<close>

lemma f32_into_f64_classify:
  "f64_classify (f32_into_f64 w) = (case f32_classify w of Subnormal \<Rightarrow> Normal | c \<Rightarrow> c)"
proof -
  define s ex man where "s = unat w div 2 ^ 31" and "ex = unat w div 2 ^ 23 mod 2 ^ 8" and "man = unat w mod 2 ^ 23"
  have "unat w < 2 ^ 32" using unat_lt2p [of w] by simp
  then have s: "s < 2" by (simp add: s_def)
  have ex: "ex < 256" and man: "man < 2 ^ 23" by (simp_all add: ex_def man_def)
  have c: "f32_classify w = (if ex = 255 then (if man = 0 then Infinite else Nan)
     else if ex = 0 then (if man = 0 then Zero else Subnormal) else Normal)"
    unfolding f32_classify_def classify_bits_def Let_def ex_def [symmetric] man_def [symmetric] by simp
  have i: "f32_into_f64 w =
      (if ex = 255 then
          (if man = 0 then of_nat (s * 2 ^ 63 + 2047 * 2 ^ 52 + 0)
           else of_nat (s * 2 ^ 63 + 2047 * 2 ^ 52 + (2 ^ 51 + (man mod 2 ^ 22) * 2 ^ 29)))
        else if ex = 0 then
          (if man = 0 then of_nat (s * 2 ^ 63 + 0 * 2 ^ 52 + 0)
           else of_nat (s * 2 ^ 63 + (874 + top_bit 23 man) * 2 ^ 52 + (man - 2 ^ top_bit 23 man) * 2 ^ (52 - top_bit 23 man)))
        else of_nat (s * 2 ^ 63 + (ex + 896) * 2 ^ 52 + man * 2 ^ 29))"
    unfolding f32_into_f64_def Let_def s_def [symmetric] ex_def [symmetric] man_def [symmetric]
    by (simp only: add.assoc mult_zero_left add_0_right add_0_left)
  consider (inf) "ex = 255" "man = 0" | (nan) "ex = 255" "man \<noteq> 0" | (zero) "ex = 0" "man = 0" | (sub) "ex = 0" "man \<noteq> 0"
    | (norm) "ex \<noteq> 255" "ex \<noteq> 0" by blast
  then show ?thesis
  proof cases
    case nan
    have "man mod 2 ^ 22 < 2 ^ 22" by simp
    then have "2 ^ 51 + (man mod 2 ^ 22) * 2 ^ 29 < (2 ^ 52 :: nat)" by simp
    from f64_classify_parts [OF s _ this, of 2047] nan i c show ?thesis by simp
  next
    case sub
    let ?k = "top_bit 23 man"
    have k: "2 ^ ?k \<le> man" "man < 2 ^ Suc ?k" "?k < 23" using top_bit_bounds [OF _ man] sub by auto
    have "(man - 2 ^ ?k) * 2 ^ (52 - ?k) < 2 ^ ?k * 2 ^ (52 - ?k)" using k by simp
    also have "\<dots> = (2 ^ 52 :: nat)" using k(3) by (simp flip: power_add)
    finally have "(man - 2 ^ ?k) * 2 ^ (52 - ?k) < 2 ^ 52" .
    from f64_classify_parts [OF s _ this, of "874 + ?k"] sub i c k(3) show ?thesis by simp
  next
    case inf
    from f64_classify_parts [OF s, of 2047 0] inf i c show ?thesis by simp
  next
    case zero
    from f64_classify_parts [OF s, of 0 0] zero i c show ?thesis by simp
  next
    case norm
    have "man * 2 ^ 29 < 2 ^ 52" using man by simp
    from f64_classify_parts [OF s _ this, of "ex + 896"] norm i c ex show ?thesis by simp
  qed
qed

lemma f32_into_f64_is_nan [simp]: "f64_is_nan (f32_into_f64 w) \<longleftrightarrow> f32_is_nan w"
  by (simp add: f64_is_nan_def f32_is_nan_def f32_into_f64_classify split: FpCategory.split)

lemma f32_into_f64_eq: "f32_eq a b \<Longrightarrow> f64_eq (f32_into_f64 a) (f32_into_f64 b)"
  by (auto simp: f32_eq_def f64_eq_def f32_into_f64_classify)

lemma f64_eq_trans: "f64_eq a b \<Longrightarrow> f64_eq b c \<Longrightarrow> f64_eq a c"
  by (auto simp: f64_eq_def)

lemma f64_eq_classify: "f64_eq a b \<Longrightarrow> f64_classify a = f64_classify b"
  by (auto simp: f64_eq_def)

section \<open>The bytes of a float\<close>

definition f32_bytes :: "float_ops \<Rightarrow> f32 \<Rightarrow> bytes" where
  "f32_bytes F v =
    (if f32_is_nan v then 0xF9 # to_be_bytes (f16_NAN F)
     else case lossless_float_coerce (f16_from_f64 F) (f16_to_f64 F) (f32_into_f64 v) of
            Some f \<Rightarrow> 0xF9 # to_be_bytes f
          | None \<Rightarrow> 0xFA # to_be_bytes v)"

definition f64_bytes :: "float_ops \<Rightarrow> f64 \<Rightarrow> bytes" where
  "f64_bytes F v =
    (if f64_is_nan v then 0xF9 # to_be_bytes (f16_NAN F)
     else case lossless_float_coerce (f16_from_f64 F) (f16_to_f64 F) v of
            Some f \<Rightarrow> 0xF9 # to_be_bytes f
          | None \<Rightarrow> (case lossless_float_coerce (f32_from_f64 F) f32_into_f64 v of
                       Some f \<Rightarrow> 0xFA # to_be_bytes f
                     | None \<Rightarrow> 0xFB # to_be_bytes v))"

lemma writes_float:
  "writes (f16_to_cbor f) (0xF9 # to_be_bytes f)"
  "writes (f32_to_cbor F v) (f32_bytes F v)"
  "writes (f64_to_cbor F w) (f64_bytes F w)"
  by (simp_all add: writes_def f16_to_cbor_def f32_to_cbor_def f32_bytes_def f64_to_cbor_def f64_bytes_def
      split: option.split)

lemma float_bytes_shape:
  "f32_bytes F v \<noteq> [] \<and> hd (f32_bytes F v) \<noteq> 0xFF"
  "f64_bytes F w \<noteq> [] \<and> hd (f64_bytes F w) \<noteq> 0xFF"
  by (simp_all add: f32_bytes_def f64_bytes_def split: option.split)

section \<open>The heads the decoder reads\<close>

lemma head_ref_f16:
  "head_ref F (0xF9 # to_be_bytes (f :: f16) @ r) =
    Inr (\<lparr>head_tags = [], head_marker = Float (f16_to_f64 F f)\<rparr>, True, 3)"
  by (simp add: head_ref.simps(2) major_of_def minor_of_def parse_marker_slow_def parse_simple_def
      to_array_def)

lemma head_ref_f32:
  "head_ref F (0xFA # to_be_bytes (f :: f32) @ r) =
    Inr (\<lparr>head_tags = [], head_marker = Float (f32_into_f64 f)\<rparr>, f32_head_shortest F f, 5)"
  by (simp add: head_ref.simps(2) major_of_def minor_of_def parse_marker_slow_def parse_simple_def
      to_array_def)

lemma head_ref_f64:
  "head_ref F (0xFB # to_be_bytes (f :: f64) @ r) =
    Inr (\<lparr>head_tags = [], head_marker = Float f\<rparr>, f64_head_shortest F f, 9)"
  by (simp add: head_ref.simps(2) major_of_def minor_of_def parse_marker_slow_def parse_simple_def
      to_array_def)

text \<open>A number without an \<^verbatim>\<open>f16\<close> is no zero and no infinity, and no \<^verbatim>\<open>f16\<close> compares equal to it.\<close>

lemma no_f16:
  assumes "float_spec F" and "lossless_float_coerce (f16_from_f64 F) (f16_to_f64 F) v = None"
  shows "\<not> f64_eq (f16_to_f64 F h) v" and "f64_classify v \<noteq> Zero" and "f64_classify v \<noteq> Infinite"
proof -
  have n: "\<not> f64_eq (f16_to_f64 F h) v" for h
    using assms by (fastforce simp: float_spec_def lossless_float_coerce_def split: option.splits if_splits)
  show "\<not> f64_eq (f16_to_f64 F h) v" by (rule n)
  show "f64_classify v \<noteq> Zero" "f64_classify v \<noteq> Infinite"
    using assms(1) n unfolding float_spec_def by blast+
qed

lemma f32_form_shortest:
  assumes "float_spec F" and "f64_eq (f32_into_f64 f) v"
    and "lossless_float_coerce (f16_from_f64 F) (f16_to_f64 F) v = None"
  shows "f32_head_shortest F f"
proof -
  note n = no_f16 [OF assms(1,3)]
  have c: "f64_classify (f32_into_f64 f) = f64_classify v" by (rule f64_eq_classify [OF assms(2)])
  have nan: "\<not> f32_is_nan f" using f64_eq_not_nan(1) [OF assms(2)] by simp
  have "\<not> f32_eq w f" if "f16_to_f32 F h = Some w" for h w
  proof
    assume e: "f32_eq w f"
    then have "\<not> f32_is_nan w" by (simp add: f32_eq_def)
    then have "f64_eq (f16_to_f64 F h) (f32_into_f64 w)" using assms(1) that unfolding float_spec_def by blast
    with f32_into_f64_eq [OF e] assms(2) have "f64_eq (f16_to_f64 F h) v" using f64_eq_trans by blast
    with n(1) show False by blast
  qed
  then show ?thesis
    using n(2,3) c nan
    by (auto simp: f32_head_shortest_def f32_is_nan_def f32_into_f64_classify split: FpCategory.splits option.splits)
qed

lemma f64_form_shortest:
  assumes "float_spec F" and "\<not> f64_is_nan v"
    and "lossless_float_coerce (f16_from_f64 F) (f16_to_f64 F) v = None"
    and "lossless_float_coerce (f32_from_f64 F) f32_into_f64 v = None"
  shows "f64_head_shortest F v"
proof -
  note n = no_f16 [OF assms(1,3)]
  have "\<not> f64_eq w v" if s: "f32_from_f64 F v = Some f" "f32_to_f64 F f = Some w" for f w
  proof
    assume e: "f64_eq w v"
    then have "f64_eq w (f32_into_f64 f)"
      using assms(1) s(2) f64_eq_not_nan(1) unfolding float_spec_def by blast
    with e have "f64_eq (f32_into_f64 f) v" using f64_eq_sym f64_eq_trans by blast
    with s(1) assms(4) show False by (simp add: lossless_float_coerce_def)
  qed
  then show ?thesis
    using n assms(2)
    by (auto simp: f64_head_shortest_def f64_is_nan_def split: FpCategory.splits option.splits)
qed

lemma float_head:
  assumes "float_spec F"
  shows "\<exists>w. head_ref F (f32_bytes F v @ r) =
      Inr (\<lparr>head_tags = [], head_marker = Float w\<rparr>, True, length (f32_bytes F v))"
    and "\<exists>w. head_ref F (f64_bytes F x @ r) =
      Inr (\<lparr>head_tags = [], head_marker = Float w\<rparr>, True, length (f64_bytes F x))"
proof -
  show "\<exists>w. head_ref F (f32_bytes F v @ r) =
      Inr (\<lparr>head_tags = [], head_marker = Float w\<rparr>, True, length (f32_bytes F v))"
    using f32_form_shortest [OF assms f64_eq_refl, of v]
    by (auto simp: f32_bytes_def head_ref_f16 head_ref_f32 split: option.split)
  show "\<exists>w. head_ref F (f64_bytes F x @ r) =
      Inr (\<lparr>head_tags = [], head_marker = Float w\<rparr>, True, length (f64_bytes F x))"
    using f64_form_shortest [OF assms, of x] f32_form_shortest [OF assms, of _ x]
    by (auto simp: f64_bytes_def head_ref_f16 head_ref_f32 head_ref_f64 lossless_float_coerce_Some split: option.split)
qed

section \<open>Conversions with this behaviour\<close>

text \<open>The conversions that narrow nothing but the zeros and the infinities behave as stated.\<close>

definition half_to_f64 :: "f16 \<Rightarrow> f64" where
  "half_to_f64 h = (if h = 0x7C00 then 0x7FF0000000000000 else if h = 0xFC00 then 0xFFF0000000000000
     else if h = 0 then 0 else 0x7FF8000000000000)"

definition sample_floats :: float_ops where
  "sample_floats = \<lparr>
    f16_from_f64 = (\<lambda>v. if f64_classify v = Zero then Some 0
      else if v = 0x7FF0000000000000 then Some 0x7C00 else if v = 0xFFF0000000000000 then Some 0xFC00 else None),
    f16_to_f64 = half_to_f64, f16_from_f32 = \<lambda>_. None, f16_to_f32 = \<lambda>_. None,
    f32_from_f64 = \<lambda>_. None, f32_to_f64 = (\<lambda>f. Some (f32_into_f64 f)), f16_NAN = 0x7E00\<rparr>"

lemma f64_infinite: "f64_classify v = Infinite \<Longrightarrow> v = 0x7FF0000000000000 \<or> v = 0xFFF0000000000000"
proof -
  assume "f64_classify v = Infinite"
  then have c: "unat v mod 2 ^ 52 = 0" "unat v div 2 ^ 52 mod 2048 = 2047"
    by (auto simp: f64_classify_def classify_bits_def Let_def split: if_splits)
  define q where "q = unat v div 2 ^ 52"
  have u: "unat v = q * 2 ^ 52" using c(1) div_mult_mod_eq [of "unat v" "2 ^ 52"] unfolding q_def by linarith
  have "unat v < 2 ^ 64" using unat_lt2p [of v] by simp
  then have "q < 4096" using u by simp
  then have "q div 2048 = 0 \<or> q div 2048 = 1" by linarith
  then have "q = 2047 \<or> q = 4095"
    using c(2) div_mult_mod_eq [of q 2048] unfolding q_def [symmetric] by (elim disjE) simp_all
  then have "unat v = 0x7FF0000000000000 \<or> unat v = 0xFFF0000000000000" using u by auto
  moreover have "v = of_nat (unat v)" by simp
  ultimately show ?thesis by (metis of_nat_numeral)
qed

lemma half_to_f64_classify:
  "f64_classify 0x7FF0000000000000 = Infinite" "f64_classify 0xFFF0000000000000 = Infinite"
  "f64_classify 0 = Zero" "f64_classify 0x7FF8000000000000 = Nan"
  by (simp_all add: f64_classify_def classify_bits_def)

lemma half_narrows:
  assumes "f64_classify v = Zero \<or> f64_classify v = Infinite"
  shows "\<exists>h. f16_from_f64 sample_floats v = Some h \<and> f64_eq (half_to_f64 h) v"
  using assms f64_infinite [of v]
  by (auto simp: sample_floats_def half_to_f64_def f64_eq_def f64_is_nan_def half_to_f64_classify)

lemma half_values: "f64_eq (half_to_f64 h) v \<Longrightarrow> f64_classify v = Zero \<or> f64_classify v = Infinite"
  by (auto simp: half_to_f64_def f64_eq_def f64_is_nan_def half_to_f64_classify split: if_splits)

lemma sample_floats_spec: "float_spec sample_floats"
proof -
  have "f16_to_f64 sample_floats = half_to_f64" "f16_to_f32 sample_floats = (\<lambda>_. None)"
    "f32_to_f64 sample_floats = (\<lambda>f. Some (f32_into_f64 f))"
    by (simp_all add: sample_floats_def)
  then show ?thesis
    unfolding float_spec_def using half_narrows half_values by (intro conjI allI impI) (auto intro: f64_eq_refl, blast+)
qed

end
