(* ===== verification/Cbor_Items.thy ===== *)
theory Cbor_Items
  imports Cbor_Float_Laws
begin

unbundle bit_operations_syntax

text \<open>
  CBOR data items as trees, written through the encoder of \<^verbatim>\<open>cbor/src/encode.rs\<close> and
  walked by \<open>skip_value\<close> of \<^verbatim>\<open>cbor/src/decode/mod.rs\<close>. The tree type is a
  specification: it stands for what a client of the encoder may emit.
\<close>

datatype item = IUint u64 | INeg u64 | IFloat16 f16 | IFloat32 f32 | IFloat64 f64
  | IBytes bytes | IText bytes | IBool bool | IUndefined
  | IByteStream "bytes list" | ITextStream "bytes list" | ITagged u64 item
  | IArray bool "item list" | IMap bool "item list"

text \<open>
  The first argument of \<open>IArray\<close> and \<open>IMap\<close> is definiteness; a map lists its keys and
  values alternately.
\<close>

fun item_to_cbor :: "float_ops \<Rightarrow> item \<Rightarrow> emitter" where
  "item_to_cbor F (IUint v) = uint_to_cbor v"
| "item_to_cbor F (INeg v) = (\<lambda>e. Some (emit_uint_minor 1 v e))"
| "item_to_cbor F (IFloat16 f) = f16_to_cbor f"
| "item_to_cbor F (IFloat32 v) = f32_to_cbor F v"
| "item_to_cbor F (IFloat64 v) = f64_to_cbor F v"
| "item_to_cbor F (IBytes b) = bytes_to_cbor b"
| "item_to_cbor F (IText b) = string_to_cbor b"
| "item_to_cbor F (IBool b) = bool_to_cbor b"
| "item_to_cbor F IUndefined = option_to_cbor bool_to_cbor None"
| "item_to_cbor F (IByteStream bs) = (\<lambda>e. Some (emit_byte_stream (fold byte_stream_emit bs) e))"
| "item_to_cbor F (ITextStream bs) = (\<lambda>e. Some (emit_text_stream (fold text_stream_emit bs) e))"
| "item_to_cbor F (ITagged t i) = tagged_to_cbor t (item_to_cbor F i)"
| "item_to_cbor F (IArray d xs) =
    emit_array (if d then Some (length xs) else None) (emit_fields (map (item_to_cbor F) xs))"
| "item_to_cbor F (IMap d xs) =
    emit_map (if d then Some (length xs div 2) else None) (emit_fields (map (item_to_cbor F) xs))"

fun item_bytes :: "float_ops \<Rightarrow> item \<Rightarrow> bytes" where
  "item_bytes F (IUint v) = head_bytes 0 v"
| "item_bytes F (INeg v) = head_bytes 1 v"
| "item_bytes F (IFloat16 f) = 0xF9 # to_be_bytes f"
| "item_bytes F (IFloat32 v) = f32_bytes F v"
| "item_bytes F (IFloat64 v) = f64_bytes F v"
| "item_bytes F (IBytes b) = head_bytes 2 (of_nat (length b)) @ b"
| "item_bytes F (IText b) = head_bytes 3 (of_nat (length b)) @ b"
| "item_bytes F (IBool b) = [if b then 0xF5 else 0xF4]"
| "item_bytes F IUndefined = [0xF7]"
| "item_bytes F (IByteStream bs) =
    0x5F # concat (map (\<lambda>b. head_bytes 2 (of_nat (length b)) @ b) bs) @ [0xFF]"
| "item_bytes F (ITextStream bs) =
    0x7F # concat (map (\<lambda>b. head_bytes 3 (of_nat (length b)) @ b) bs) @ [0xFF]"
| "item_bytes F (ITagged t i) = head_bytes 6 t @ item_bytes F i"
| "item_bytes F (IArray d xs) =
    (if d then head_bytes 4 (of_nat (length xs)) @ concat (map (item_bytes F) xs)
     else 0x9F # concat (map (item_bytes F) xs) @ [0xFF])"
| "item_bytes F (IMap d xs) =
    (if d then head_bytes 5 (of_nat (length xs div 2)) @ concat (map (item_bytes F) xs)
     else 0xBF # concat (map (item_bytes F) xs) @ [0xFF])"

fun item_ok :: "item \<Rightarrow> bool" where
  "item_ok (ITagged t i) = item_ok i"
| "item_ok (IArray d xs) = (\<forall>x \<in> set xs. item_ok x)"
| "item_ok (IMap d xs) = (even (length xs) \<and> (\<forall>x \<in> set xs. item_ok x))"
| "item_ok _ = True"

text \<open>Whether a float is among the items: only then do the conversions of the float crates matter.\<close>

fun has_float :: "item \<Rightarrow> bool" where
  "has_float (IFloat16 f) = True"
| "has_float (IFloat32 v) = True"
| "has_float (IFloat64 v) = True"
| "has_float (ITagged t i) = has_float i"
| "has_float (IArray d xs) = (\<exists>x \<in> set xs. has_float x)"
| "has_float (IMap d xs) = (\<exists>x \<in> set xs. has_float x)"
| "has_float _ = False"

text \<open>The nesting that \<open>skip_value\<close> counts against its budget.\<close>

fun item_depth :: "item \<Rightarrow> nat" where
  "item_depth (ITagged t i) = item_depth i"
| "item_depth (IArray d xs) = Suc (fold max (map item_depth xs) 0)"
| "item_depth (IMap d xs) = Suc (fold max (map item_depth xs) 0)"
| "item_depth _ = 0"

lemma fold_max_le: "fold max xs (a::nat) \<le> k \<longleftrightarrow> a \<le> k \<and> (\<forall>x \<in> set xs. x \<le> k)"
  by (induction xs arbitrary: a) auto

lemma item_depth_le:
  "item_depth (IArray d xs) \<le> Suc k \<longleftrightarrow> (\<forall>x \<in> set xs. item_depth x \<le> k)"
  "item_depth (IMap d xs) \<le> Suc k \<longleftrightarrow> (\<forall>x \<in> set xs. item_depth x \<le> k)"
  by (simp_all add: fold_max_le)

lemma item_bytes_pos: "0 < length (item_bytes F i)"
  by (cases i) (auto simp: float_bytes_shape)

lemma length_le_concat_items: "length xs \<le> length (concat (map (item_bytes F) xs))"
proof (induction xs)
  case (Cons x xs)
  then show ?case using item_bytes_pos [of F x] by (simp, linarith)
qed simp

section \<open>The encoder writes the bytes of the tree\<close>

lemma fold_byte_stream_emit:
  "fold byte_stream_emit bs e = push_all (concat (map (\<lambda>b. head_bytes 2 (of_nat (length b)) @ b) bs)) e"
  by (induction bs arbitrary: e) (simp_all add: byte_stream_emit_def snd_emit_bytes)

lemma fold_text_stream_emit:
  "fold text_stream_emit bs e = push_all (concat (map (\<lambda>b. head_bytes 3 (of_nat (length b)) @ b) bs)) e"
  by (induction bs arbitrary: e) (simp_all add: text_stream_emit_def snd_emit_string)

lemma items_writes:
  assumes "length (concat (map (item_bytes F) xs)) \<le> usize_max"
    and "\<And>x. x \<in> set xs \<Longrightarrow> length (item_bytes F x) \<le> usize_max \<Longrightarrow> writes (item_to_cbor F x) (item_bytes F x)"
  shows "list_all2 writes (map (item_to_cbor F) xs) (map (item_bytes F) xs)" and "length xs < 2 ^ 64"
proof -
  have "length (item_bytes F x) \<le> usize_max" if "x \<in> set xs" for x
    using that assms(1) member_le_sum_list [of "length (item_bytes F x)" "map (length \<circ> item_bytes F) xs"]
    by (auto simp: length_concat)
  with assms(2) show "list_all2 writes (map (item_to_cbor F) xs) (map (item_bytes F) xs)"
    by (auto simp: list_all2_map1 list_all2_map2 list_all2_same)
  show "length xs < 2 ^ 64"
    using assms(1) length_le_concat_items [of xs F] by (simp add: usize_max_def)
qed

lemma item_to_cbor_writes:
  "item_ok i \<Longrightarrow> length (item_bytes F i) \<le> usize_max \<Longrightarrow> writes (item_to_cbor F i) (item_bytes F i)"
proof (induction i)
  case (ITagged t i)
  then show ?case by (auto intro!: writes_tagged)
next
  case (IArray d xs)
  have l: "length (concat (map (item_bytes F) xs)) \<le> usize_max" using IArray.prems by (cases d) auto
  show ?case
    using emit_seq_writes [OF items_writes(1) [OF l], of 1] items_writes(2) [OF l] IArray
    by (auto simp: writes_def emit_array_def)
next
  case (IMap d xs)
  have l: "length (concat (map (item_bytes F) xs)) \<le> usize_max" using IMap.prems by (cases d) auto
  show ?case
    using emit_seq_writes [OF items_writes(1) [OF l], of 2] items_writes(2) [OF l] IMap
    by (auto simp: writes_def emit_map_def)
qed (auto simp: writes_float, auto simp: writes_def uint_to_cbor_def emit_uint_minor_eq bytes_to_cbor_def snd_emit_bytes
    string_to_cbor_def snd_emit_string bool_to_cbor_def option_to_cbor_def emit_byte_stream_def
    byte_stream_new_def byte_stream_end_def fold_byte_stream_emit emit_text_stream_def
    text_stream_new_def text_stream_end_def fold_text_stream_emit)

section \<open>Skipping a written item\<close>

lemma head_bytes_hd: "maj < 7 \<Longrightarrow> hd (head_bytes maj v) \<noteq> 0xFF"
proof -
  assume maj: "maj < 7"
  then have "maj < 8" by (simp add: word_less_nat_alt)
  then obtain m args where "head_bytes maj v = m # args" "major_of m = maj"
    by (rule head_bytes_parse) blast
  moreover have "major_of 0xFF = 7" by (simp add: major_of_def)
  ultimately show ?thesis using maj by auto
qed

lemma item_bytes_hd: "hd (item_bytes F i @ r) \<noteq> 0xFF"
  by (induction i) (auto simp: head_bytes_hd hd_append float_bytes_shape)

definition tag_bytes :: "u64 list \<Rightarrow> bytes" where
  "tag_bytes ts = concat (map (head_bytes 6) ts)"

lemma head_ref_tags:
  "head_ref F (tag_bytes ts @ d) = and_then (head_ref F d) (\<lambda>(h, s, n).
     Inr (h\<lparr>head_tags := ts @ head_tags h\<rparr>, s, length (tag_bytes ts) + n))"
proof (induction ts)
  case Nil
  then show ?case by (cases "head_ref F d") (auto simp: tag_bytes_def)
next
  case (Cons t ts)
  have "head_ref F (tag_bytes (t # ts) @ d) = head_ref F (head_bytes 6 t @ (tag_bytes ts @ d))"
    by (simp add: tag_bytes_def)
  then show ?case
    unfolding head_ref_tag Cons.IH and_then_assoc
    by (cases "head_ref F d") (auto simp: tag_bytes_def)
qed

text \<open>Walking the chunks of an indefinite-length string.\<close>

lemma skip_chunks_enc:
  assumes "maj = (if is_bytes then 2 else 3)" and "length d \<le> usize_max"
    and "drop off d = concat (map (\<lambda>b. head_bytes maj (of_nat (length b)) @ b) bs) @ 0xFF # r"
  shows "skip_chunks F is_bytes d sh off =
    Inr (sh, off + length (concat (map (\<lambda>b. head_bytes maj (of_nat (length b)) @ b) bs)) + 1)"
  using assms(3)
proof (induction bs arbitrary: off)
  case Nil
  then have "drop off d = 0xFF # r" by simp
  from drop_ConsD [OF this] show ?case by (subst skip_chunks.simps) simp
next
  case (Cons b bs)
  let ?h = "head_bytes maj (of_nat (length b))"
  let ?rest = "concat (map (\<lambda>b. head_bytes maj (of_nat (length b)) @ b) bs) @ 0xFF # r"
  have dr: "drop off d = ?h @ b @ ?rest" using Cons.prems by simp
  then have len: "length d = off + length (?h @ b @ ?rest)" by (rule drop_length) simp
  then have "off < length d" by simp
  then have "d ! off = hd (?h @ b @ ?rest)" by (simp only: dr [symmetric] hd_drop_conv_nth)
  then have ff: "d ! off \<noteq> 0xFF" using assms(1) by (simp add: head_bytes_hd hd_append)
  have bl: "unat (of_nat (length b) :: u64) = length b"
    using len assms(2) by (intro unat_of_nat_length) simp
  have "length (drop off d) \<le> usize_max" using assms(2) by simp
  then have hd: "head_from_cbor F (drop off d) =
      Inr (\<lparr>head_tags = [], head_marker = major_marker maj (of_nat (length b))\<rparr>, True, length ?h)"
    unfolding dr using assms(1) by (intro head_from_cbor_head_bytes) simp_all
  have ck: "checked_add off (length ?h) = Some (off + length ?h)"
    using len assms(2) by (simp add: checked_add_def)
  have cl: "chunk_len is_bytes \<lparr>head_tags = [], head_marker = major_marker maj (of_nat (length b))\<rparr>
      = Some (of_nat (length b))"
    using assms(1) by (simp add: chunk_len_def major_marker_def head_of_major_def)
  have ox: "offset_extent d (off + length ?h) (of_nat (length b)) =
      Inr (off + length ?h, off + length ?h + length b)"
    using len assms(2) bl by (simp add: offset_extent_def checked_add_def)
  have "drop (off + length ?h + length b) d = ?rest"
    by (rule drop_append_len [OF drop_append_len [OF dr]])
  from Cons.IH [OF this] ff hd ck cl ox show ?case
    by (subst skip_chunks.simps) simp
qed

text \<open>
  Walking the items of a series, given that each item is skipped as stated: \<open>skips\<close> is
  what \<open>skip_value\<close> does with the bytes of an item, under any tags, with budget \<open>k\<close>.
\<close>

definition skips :: "float_ops \<Rightarrow> item \<Rightarrow> bool" where
  "skips F i \<longleftrightarrow> (\<forall>ts r k. length (tag_bytes ts @ item_bytes F i @ r) \<le> usize_max \<longrightarrow>
     skip_value F (tag_bytes ts @ item_bytes F i @ r) k =
       (if item_depth i \<le> k then Inr (True, length (tag_bytes ts @ item_bytes F i)) else Inl MaxRecursion))"

lemma skipsD:
  assumes "skips F i" and "length (item_bytes F i @ r) \<le> usize_max"
  shows "skip_value F (item_bytes F i @ r) k =
    (if item_depth i \<le> k then Inr (True, length (item_bytes F i)) else Inl MaxRecursion)"
  using assms(1) [unfolded skips_def, rule_format, of "[]" r k] assms(2) by (simp add: tag_bytes_def)

text \<open>Where the cursor stands: \<open>n\<close> items to go, definite or up to a break byte.\<close>

definition cursor_at :: "nat \<Rightarrow> series \<Rightarrow> nat \<Rightarrow> bytes \<Rightarrow> bytes \<Rightarrow> bool" where
  "cursor_at D s n bs tail \<longleftrightarrow>
    drop (sr_offset s) (sr_data s) = bs @ tail \<and> length (sr_data s) \<le> usize_max \<and>
    (case sr_count s of
       Some c \<Rightarrow> c = sr_parsed s + n
     | None \<Rightarrow> 0 < D \<and> D dvd sr_parsed s + n \<and> (\<exists>r. tail = 0xFF # r))"

lemma skip_to_end_items:
  assumes "\<forall>x \<in> set xs. skips F x"
    and "cursor_at D s (length xs) (concat (map (item_bytes F) xs)) tail"
  shows "if \<forall>x \<in> set xs. item_depth x \<le> k
    then \<exists>s'. skip_to_end F D s k = Inr (True, s') \<and>
      sr_offset s' = sr_offset s + length (concat (map (item_bytes F) xs)) + (if sr_count s = None then 1 else 0)
    else skip_to_end F D s k = Inl MaxRecursion"
  using assms
proof (induction xs arbitrary: s)
  case Nil
  then have "\<exists>s'. at_end D s = Inr (True, s') \<and> sr_offset s' = sr_offset s + (if sr_count s = None then 1 else 0)"
    by (auto simp: at_end_def cursor_at_def dest: drop_ConsD split: option.splits)
  then show ?case by (subst skip_to_end.simps) auto
next
  case (Cons x xs)
  let ?rest = "concat (map (item_bytes F) xs) @ tail"
  have dr: "drop (sr_offset s) (sr_data s) = item_bytes F x @ ?rest" and le: "length (sr_data s) \<le> usize_max"
    using Cons.prems(2) by (simp_all add: cursor_at_def)
  have ne: "item_bytes F x @ ?rest \<noteq> []" using item_bytes_pos [of F x] by auto
  have off: "sr_offset s < length (sr_data s)"
    using drop_length [OF dr ne] ne by simp
  have "sr_data s ! sr_offset s = hd (item_bytes F x @ ?rest)"
    using off by (simp only: dr [symmetric] hd_drop_conv_nth)
  with item_bytes_hd have ff: "sr_data s ! sr_offset s \<noteq> 0xFF" by simp
  have ae: "at_end D s = Inr (False, s)"
    using Cons.prems(2) ff off by (auto simp: at_end_def cursor_at_def split: option.splits)
  have sk: "skip_value F (drop (sr_offset s) (sr_data s)) k =
      (if item_depth x \<le> k then Inr (True, length (item_bytes F x)) else Inl MaxRecursion)"
    unfolding dr
  proof (rule skipsD)
    show "skips F x" using Cons.prems(1) by simp
    show "length (item_bytes F x @ ?rest) \<le> usize_max"
      using le length_drop [of "sr_offset s" "sr_data s"] by (simp add: dr)
  qed
  show ?case
  proof (cases "item_depth x \<le> k")
    case False
    then show ?thesis using ae sk
      by (subst skip_to_end.simps) (simp add: series_skip_value.simps)
  next
    case True
    let ?s = "series_advance (length (item_bytes F x)) s"
    have "cursor_at D ?s (length xs) (concat (map (item_bytes F) xs)) tail"
      using Cons.prems(2) drop_append_len [OF dr]
      by (auto simp: cursor_at_def series_advance_def split: option.splits)
    with Cons.IH Cons.prems(1) have IH: "if \<forall>x \<in> set xs. item_depth x \<le> k
      then \<exists>s'. skip_to_end F D ?s k = Inr (True, s') \<and>
        sr_offset s' = sr_offset ?s + length (concat (map (item_bytes F) xs)) + (if sr_count ?s = None then 1 else 0)
      else skip_to_end F D ?s k = Inl MaxRecursion" by simp
    have step: "skip_to_end F D s k = and_then (skip_to_end F D ?s k) (\<lambda>(sh', s3). Inr (sh', s3))"
      using True ae sk by (subst skip_to_end.simps) (simp add: series_skip_value.simps)
    show ?thesis
    proof (cases "\<forall>x \<in> set xs. item_depth x \<le> k")
      case all: True
      with IH obtain s' where "skip_to_end F D ?s k = Inr (True, s')"
        "sr_offset s' = sr_offset ?s + length (concat (map (item_bytes F) xs)) + (if sr_count ?s = None then 1 else 0)"
        by auto
      with all True step show ?thesis by (simp add: series_advance_def)
    next
      case False
      with IH have "skip_to_end F D ?s k = Inl MaxRecursion" by (auto split: if_splits)
      with False step show ?thesis by auto
    qed
  qed
qed

text \<open>An array or a map below its head.\<close>

lemma skip_nested:
  assumes xs: "\<forall>x \<in> set xs. skips F x" and D: "D = 1 \<or> D = 2" and ev: "D dvd length xs"
    and head: "head_from_cbor F d = Inr (h, True, off)"
    and mk: "head_marker h = (if D = 1 then Array c else Map c)"
    and dr: "drop off d = concat (map (item_bytes F) xs) @ tail" and len: "length d \<le> usize_max"
    and cnt: "case c of Some v \<Rightarrow> unat v * D = length xs | None \<Rightarrow> \<exists>r. tail = 0xFF # r"
  shows "skip_value F d k =
    (if item_depth (IArray True xs) \<le> k
     then Inr (True, off + length (concat (map (item_bytes F) xs)) + (if c = None then 1 else 0))
     else Inl MaxRecursion)"
proof (cases k)
  case 0
  then show ?thesis using head mk D by (subst skip_value.simps) auto
next
  case (Suc k')
  have D1: "max D 1 = D" using D by auto
  have "length xs \<le> length (concat (map (item_bytes F) xs))" by (rule length_le_concat_items)
  also have "\<dots> \<le> length (drop off d)" by (simp only: dr length_append)
  also have "\<dots> \<le> usize_max" using len by simp
  finally have cm: "length xs \<le> usize_max" .
  let ?s = "series_new d (if c = None then None else Some (length xs)) off"
  have "series_try_new D d c off = Inr ?s"
    using cnt cm by (cases c) (auto simp: series_try_new_def checked_mul_def D1 simp del: One_nat_def)
  moreover define s where "s = ?s"
  ultimately have s: "series_try_new D d c off = Inr s" "sr_data s = d" "sr_offset s = off"
    "sr_parsed s = 0" "sr_count s = (if c = None then None else Some (length xs))"
    by (simp_all add: series_new_def)
  have "cursor_at D s (length xs) (concat (map (item_bytes F) xs)) tail"
    using s dr len cnt D ev by (cases c) (auto simp: cursor_at_def)
  note end_items = skip_to_end_items [OF xs this, of k']
  have step: "skip_value F d k = and_then (skip_to_end F D s k') (\<lambda>(sh, s'). Inr (sh, sr_offset s'))"
    using Suc head mk D s(1) by (subst skip_value.simps) auto
  show ?thesis
  proof (cases "\<forall>x \<in> set xs. item_depth x \<le> k'")
    case True
    then show ?thesis using end_items step s Suc by (auto simp: item_depth_le simp del: item_depth.simps)
  next
    case False
    then have "skip_to_end F D s k' = Inl MaxRecursion" using end_items by (auto split: if_splits)
    with False show ?thesis using step Suc by (auto simp: item_depth_le simp del: item_depth.simps)
  qed
qed

text \<open>The heads of all items, behind any tags.\<close>

lemma head_behind_tags:
  assumes "head_ref F d = Inr (h, True, n)" and "length (tag_bytes ts @ d) \<le> usize_max"
  shows "head_from_cbor F (tag_bytes ts @ d) =
    Inr (h\<lparr>head_tags := ts @ head_tags h\<rparr>, True, length (tag_bytes ts) + n)"
  using assms by (simp add: head_from_cbor_ref head_ref_tags)

lemma head_ref_indefinite:
  "head_ref F (0x5F # d) = Inr (\<lparr>head_tags = [], head_marker = Bytes None\<rparr>, True, 1)"
  "head_ref F (0x7F # d) = Inr (\<lparr>head_tags = [], head_marker = Text None\<rparr>, True, 1)"
  "head_ref F (0x9F # d) = Inr (\<lparr>head_tags = [], head_marker = Array None\<rparr>, True, 1)"
  "head_ref F (0xBF # d) = Inr (\<lparr>head_tags = [], head_marker = Map None\<rparr>, True, 1)"
  by (simp_all add: head_ref.simps(2) major_of_def minor_of_def parse_marker_slow_def head_of_major_def)

lemma head_ref_simple_items:
  "head_ref F (0xF4 # d) = Inr (\<lparr>head_tags = [], head_marker = MFalse\<rparr>, True, 1)"
  "head_ref F (0xF5 # d) = Inr (\<lparr>head_tags = [], head_marker = MTrue\<rparr>, True, 1)"
  "head_ref F (0xF7 # d) = Inr (\<lparr>head_tags = [], head_marker = MUndefined\<rparr>, True, 1)"
  by (simp_all add: head_ref.simps(2) major_of_def minor_of_def parse_marker_slow_def parse_simple_def)

lemmas item_heads = head_ref_indefinite head_ref_simple_items head_ref_head_bytes

text \<open>Items without nested items: the extent after the head is known from the head.\<close>

fun scalar_marker :: "marker \<Rightarrow> bool" where
  "scalar_marker (Bytes c) = False"
| "scalar_marker (Text c) = False"
| "scalar_marker (Array c) = False"
| "scalar_marker (Map c) = False"
| "scalar_marker _ = True"

lemma skips_scalar:
  assumes "\<And>r. \<exists>m. head_ref F (item_bytes F i @ r) =
      Inr (\<lparr>head_tags = [], head_marker = m\<rparr>, True, length (item_bytes F i)) \<and> scalar_marker m"
    and "item_depth i = 0"
  shows "skips F i"
  unfolding skips_def
proof (intro allI impI)
  fix ts r k
  assume l: "length (tag_bytes ts @ item_bytes F i @ r) \<le> usize_max"
  show "skip_value F (tag_bytes ts @ item_bytes F i @ r) k =
      (if item_depth i \<le> k then Inr (True, length (tag_bytes ts @ item_bytes F i)) else Inl MaxRecursion)"
  proof -
    obtain m where m: "head_ref F (item_bytes F i @ r) =
        Inr (\<lparr>head_tags = [], head_marker = m\<rparr>, True, length (item_bytes F i))" "scalar_marker m"
      using assms(1) by blast
    show ?thesis
      using head_behind_tags [OF m(1) l] assms(2) m(2)
      by (subst skip_value.simps) (cases m; force)
  qed
qed

lemma skips_string:
  assumes "maj = 2 \<or> maj = 3" and "item_bytes F i = head_bytes maj (of_nat (length b)) @ b" and "item_depth i = 0"
  shows "skips F i"
  unfolding skips_def
proof (intro allI impI)
  fix ts r k
  let ?h = "head_bytes maj (of_nat (length b))"
  assume l: "length (tag_bytes ts @ item_bytes F i @ r) \<le> usize_max"
  have hd: "head_ref F (item_bytes F i @ r) =
      Inr (\<lparr>head_tags = [], head_marker = major_marker maj (of_nat (length b))\<rparr>, True, length ?h)"
    using assms(1) by (auto simp: assms(2) head_ref_head_bytes)
  have "length ((tag_bytes ts @ ?h) @ b @ r) \<le> usize_max" using l by (simp add: assms(2))
  moreover from this have "unat (of_nat (length b) :: u64) = length b"
    by (intro unat_of_nat_length) simp
  ultimately have "offset_extent (tag_bytes ts @ item_bytes F i @ r) (length (tag_bytes ts) + length ?h) (of_nat (length b))
      = Inr (length (tag_bytes ts) + length ?h, length (tag_bytes ts) + length ?h + length b)"
    using offset_extent_append [of "tag_bytes ts @ ?h" b r "of_nat (length b)"] by (simp add: assms(2))
  then show "skip_value F (tag_bytes ts @ item_bytes F i @ r) k =
      (if item_depth i \<le> k then Inr (True, length (tag_bytes ts @ item_bytes F i)) else Inl MaxRecursion)"
    using head_behind_tags [OF hd l] assms(1,3)
    by (subst skip_value.simps)
      (auto simp: major_marker_def head_of_major_def assms(2))
qed

lemma skips_stream:
  assumes "maj = (if ib then 2 else 3)" and "item_depth i = 0"
    and "item_bytes F i = (if ib then 0x5F else 0x7F) #
      concat (map (\<lambda>b. head_bytes maj (of_nat (length b)) @ b) bs) @ [0xFF]"
  shows "skips F i"
  unfolding skips_def
proof (intro allI impI)
  fix ts r k
  let ?cs = "concat (map (\<lambda>b. head_bytes maj (of_nat (length b)) @ b) bs)"
  let ?d = "tag_bytes ts @ item_bytes F i @ r"
  assume l: "length ?d \<le> usize_max"
  have "drop (length (tag_bytes ts) + 1) ?d = ?cs @ 0xFF # r" by (simp add: assms(3))
  from skip_chunks_enc [OF assms(1) l this]
  have "skip_chunks F ib ?d True (length (tag_bytes ts) + 1) = Inr (True, length (tag_bytes ts @ item_bytes F i))"
    by (simp add: assms(3))
  moreover have "head_ref F (item_bytes F i @ r) =
      Inr (\<lparr>head_tags = [], head_marker = (if ib then Bytes None else Text None)\<rparr>, True, 1)"
    by (simp add: assms(3) item_heads)
  from head_behind_tags [OF this l]
  have "head_from_cbor F ?d =
      Inr (\<lparr>head_tags = ts, head_marker = (if ib then Bytes None else Text None)\<rparr>, True, length (tag_bytes ts) + 1)"
    by simp
  ultimately show "skip_value F ?d k =
      (if item_depth i \<le> k then Inr (True, length (tag_bytes ts @ item_bytes F i)) else Inl MaxRecursion)"
    using assms(2) by (subst skip_value.simps) (cases ib; simp)
qed

lemma skips_nested:
  assumes xs: "\<forall>x \<in> set xs. skips F x" and D: "D = 1 \<or> D = 2" and ev: "D dvd length xs"
    and i: "item_bytes F i = hb @ concat (map (item_bytes F) xs) @ (if df then [] else [0xFF])"
    and dep: "item_depth i = item_depth (IArray True xs)"
    and hd: "\<And>r. head_ref F (hb @ r) = Inr (\<lparr>head_tags = [], head_marker = (if D = 1 then Array c else Map c)\<rparr>, True, length hb)"
    and cnt: "length xs \<le> usize_max \<Longrightarrow> if df then c = Some (of_nat (length xs div D)) else c = None"
  shows "skips F i"
  unfolding skips_def
proof (intro allI impI)
  fix ts r k
  let ?d = "tag_bytes ts @ item_bytes F i @ r"
  let ?tail = "(if df then r else 0xFF # r)"
  assume l: "length ?d \<le> usize_max"
  have head: "head_from_cbor F ?d = Inr (\<lparr>head_tags = ts, head_marker = (if D = 1 then Array c else Map c)\<rparr>,
      True, length (tag_bytes ts) + length hb)"
    using head_behind_tags [of F "item_bytes F i @ r" _ _ ts, OF _ l] hd
    by (simp add: i)
  have dr: "drop (length (tag_bytes ts) + length hb) ?d = concat (map (item_bytes F) xs) @ ?tail"
    by (simp add: i)
  have n: "length xs \<le> usize_max"
    using length_le_concat_items [of xs F] l by (simp add: i)
  then have "unat (of_nat (length xs div D) :: u64) = length xs div D"
    by (intro unat_of_nat_length) (rule le_trans [OF div_le_dividend])
  then have "case c of Some v \<Rightarrow> unat v * D = length xs | None \<Rightarrow> \<exists>r'. ?tail = 0xFF # r'"
    using cnt [OF n] ev by (cases df) auto
  from skip_nested [OF xs D ev head _ dr l this, of k] cnt [OF n] dep
  show "skip_value F ?d k =
      (if item_depth i \<le> k then Inr (True, length (tag_bytes ts @ item_bytes F i)) else Inl MaxRecursion)"
    by (cases df) (simp_all add: i)
qed

lemma skips_item: "item_ok i \<Longrightarrow> has_float i \<longrightarrow> float_spec F \<Longrightarrow> skips F i"
proof (induction i)
  case (ITagged t i)
  then have "skips F i" by simp
  then show ?case
    unfolding skips_def
  proof (intro allI impI, goal_cases)
    case (1 ts r k)
    then show ?case
      using \<open>skips F i\<close> [unfolded skips_def, rule_format, of "ts @ [t]" r k]
      by (simp add: tag_bytes_def)
  qed
next
  case (IArray df xs)
  then show ?case
    by (intro skips_nested [where D = 1 and df = df and xs = xs
          and hb = "if df then head_bytes 4 (of_nat (length xs)) else [0x9F]"
          and c = "if df then Some (of_nat (length xs)) else None"])
      (auto simp: item_heads major_marker_def head_of_major_def)
next
  case (IMap df xs)
  then show ?case
    by (intro skips_nested [where D = 2 and df = df and xs = xs
          and hb = "if df then head_bytes 5 (of_nat (length xs div 2)) else [0xBF]"
          and c = "if df then Some (of_nat (length xs div 2)) else None"])
      (auto simp: item_heads major_marker_def head_of_major_def)
next
  case (IByteStream bs)
  show ?case by (rule skips_stream [where ib = True and bs = bs]) simp_all
next
  case (ITextStream bs)
  show ?case by (rule skips_stream [where ib = False and bs = bs]) simp_all
next
  case (IBytes b)
  show ?case by (rule skips_string [where maj = 2 and b = b]) simp_all
next
  case (IText b)
  show ?case by (rule skips_string [where maj = 3 and b = b]) simp_all
next
  case (IFloat32 v)
  then have "float_spec F" by simp
  from float_head(1) [OF this] show ?case
    by (intro skips_scalar) (simp_all, metis scalar_marker.simps)
next
  case (IFloat64 v)
  then have "float_spec F" by simp
  from float_head(2) [OF this] show ?case
    by (intro skips_scalar) (simp_all, metis scalar_marker.simps)
qed (rule skips_scalar; simp add: item_heads major_marker_def head_ref_f16)+

end
