(* ===== verification/Cbor_Props.thy ===== *)
theory Cbor_Props
  imports Cbor_Items
begin

unbundle bit_operations_syntax

text \<open>
  What the CBOR codec guarantees, over the definitions of the \<^verbatim>\<open>Cbor_*\<close> theories.
  Slices in Rust never hold more than \<open>usize_max\<close> bytes, so a bound on the length of the
  input is no restriction of the code's behaviour.
\<close>

section \<open>Floats\<close>

lemma f64_from_cbor_ref:
  assumes "head_ref F d = Inr (\<lparr>head_tags = [], head_marker = Float w\<rparr>, s, n)" and "length d \<le> usize_max"
  shows "f64_from_cbor F d = Inr (w, s, n)"
  using assms by (simp add: f64_from_cbor_def head_from_cbor_ref)

lemma f64_round_trip:
  "\<exists>bs. writes (f64_to_cbor F v) bs \<and> (\<forall>r. length (bs @ r) \<le> usize_max \<longrightarrow>
     (\<exists>w s. f64_from_cbor F (bs @ r) = Inr (w, s, length bs) \<and>
        (if f64_is_nan v then w = f16_to_f64 F (f16_NAN F) else f64_eq w v)))"
proof -
  consider (nan) "f64_is_nan v"
    | (half) f where "\<not> f64_is_nan v" "lossless_float_coerce (f16_from_f64 F) (f16_to_f64 F) v = Some f"
    | (single) f where "\<not> f64_is_nan v" "lossless_float_coerce (f16_from_f64 F) (f16_to_f64 F) v = None"
        "lossless_float_coerce (f32_from_f64 F) f32_into_f64 v = Some f"
    | (double) "\<not> f64_is_nan v" "lossless_float_coerce (f16_from_f64 F) (f16_to_f64 F) v = None"
        "lossless_float_coerce (f32_from_f64 F) f32_into_f64 v = None"
    by (metis not_None_eq)
  then show ?thesis
  proof cases
    case nan
    then show ?thesis
      by (intro exI [of _ "0xF9 # to_be_bytes (f16_NAN F)"])
        (auto simp: writes_def f64_to_cbor_def f64_from_cbor_ref [OF head_ref_f16])
  next
    case (half f)
    then have "f64_eq (f16_to_f64 F f) v" by (simp add: lossless_float_coerce_Some)
    with half show ?thesis
      by (intro exI [of _ "0xF9 # to_be_bytes f"])
        (auto simp: writes_def f64_to_cbor_def f64_from_cbor_ref [OF head_ref_f16])
  next
    case (single f)
    then have "f64_eq (f32_into_f64 f) v" by (simp add: lossless_float_coerce_Some)
    with single show ?thesis
      by (intro exI [of _ "0xFA # to_be_bytes f"])
        (auto simp: writes_def f64_to_cbor_def f64_from_cbor_ref [OF head_ref_f32])
  next
    case double
    then show ?thesis
      by (intro exI [of _ "0xFB # to_be_bytes v"])
        (auto simp: writes_def f64_to_cbor_def f64_from_cbor_ref [OF head_ref_f64] f64_eq_refl)
  qed
qed

section \<open>Properties\<close>

text \<open>C26. The bounds-check-free fast path of the head decoder never changes a result:
  value, tags, canonical flag, length and error agree with the byte-at-a-time reading of
  RFC 8949 on every slice.\<close>

theorem head_decoder_meets_reference:
  assumes "length d \<le> usize_max"
  shows "head_from_cbor F d = head_ref F d"
  using assms by (rule head_from_cbor_ref)

theorem head_decoder_meets_reference_witness:
  "length [0xD8, 0x18, 0x19, 0x01, 0x00, 0, 0, 0, 0, 0, 0, 0 :: byte] \<le> usize_max \<and>
    (\<forall>F. head_from_cbor F [0xD8, 0x18, 0x19, 0x01, 0x00, 0, 0, 0, 0, 0, 0, 0] =
      head_ref F [0xD8, 0x18, 0x19, 0x01, 0x00, 0, 0, 0, 0, 0, 0, 0])"
proof -
  have h: "length [0xD8, 0x18, 0x19, 0x01, 0x00, 0, 0, 0, 0, 0, 0, 0 :: byte] \<le> usize_max"
    by (simp add: usize_max_def)
  show ?thesis using h head_decoder_meets_reference [OF h] by simp
qed

text \<open>C1. Every item built from what the encoder encodes itself (integers, floats of the three widths,
  byte and text strings, booleans, undefined, tags, definite and indefinite arrays, maps and string
  streams, nested to any depth; not pre-encoded raw bytes) and that is no longer than a slice can be is
  written without a panic, and the skipper steps over exactly its bytes, reporting canonical form, if the
  nesting is within the recursion budget, and fails with the recursion error otherwise, whatever bytes
  follow. Where floats are among the items, the conversions of the float crates are exact where they can
  be.\<close>

theorem skip_written_item:
  assumes "item_ok i" and "length (item_bytes F i @ r) \<le> usize_max" and "has_float i \<longrightarrow> float_spec F"
  shows "emit_value (item_to_cbor F i) = Some (item_bytes F i) \<and>
    skip_value F (item_bytes F i @ r) k =
      (if item_depth i \<le> k then Inr (True, length (item_bytes F i)) else Inl MaxRecursion)"
proof
  show "emit_value (item_to_cbor F i) = Some (item_bytes F i)"
    using assms by (intro writes_emit_value item_to_cbor_writes) simp_all
  show "skip_value F (item_bytes F i @ r) k =
      (if item_depth i \<le> k then Inr (True, length (item_bytes F i)) else Inl MaxRecursion)"
    using skips_item [OF assms(1,3)] assms(2) by (rule skipsD)
qed

theorem skip_written_item_witness:
  "emit_value (item_to_cbor sample_floats (IArray True [IUint 1, IArray False [IBytes [7], IFloat64 0x3FF199999999999A]])) =
      Some [0x82, 0x01, 0x9F, 0x41, 0x07, 0xFB, 0x3F, 0xF1, 0x99, 0x99, 0x99, 0x99, 0x99, 0x9A, 0xFF] \<and>
    skip_value sample_floats
      [0x82, 0x01, 0x9F, 0x41, 0x07, 0xFB, 0x3F, 0xF1, 0x99, 0x99, 0x99, 0x99, 0x99, 0x9A, 0xFF, 0x00] 2 = Inr (True, 15) \<and>
    skip_value sample_floats
      [0x82, 0x01, 0x9F, 0x41, 0x07, 0xFB, 0x3F, 0xF1, 0x99, 0x99, 0x99, 0x99, 0x99, 0x9A, 0xFF, 0x00] 1 = Inl MaxRecursion"
proof -
  let ?i = "IArray True [IUint 1, IArray False [IBytes [7], IFloat64 0x3FF199999999999A]]"
  have ok: "item_ok ?i" by simp
  have f: "f64_bytes sample_floats 0x3FF199999999999A = [0xFB, 0x3F, 0xF1, 0x99, 0x99, 0x99, 0x99, 0x99, 0x9A]"
    by (simp add: f64_bytes_def sample_floats_def lossless_float_coerce_def f64_is_nan_def f64_classify_def
        classify_bits_def to_be_bytes_def)
  have b: "item_bytes sample_floats ?i =
      [0x82, 0x01, 0x9F, 0x41, 0x07, 0xFB, 0x3F, 0xF1, 0x99, 0x99, 0x99, 0x99, 0x99, 0x9A, 0xFF]"
    by (simp add: head_bytes_cases f)
  have l: "length (item_bytes sample_floats ?i @ [0]) \<le> usize_max" unfolding b by (simp add: usize_max_def)
  have s: "has_float ?i \<longrightarrow> float_spec sample_floats" using sample_floats_spec by blast
  show ?thesis
    using skip_written_item [OF ok l s, of 2] skip_written_item [OF ok l s, of 1]
    unfolding b by simp
qed

text \<open>C27. Canonical form is unique for the heads with a definite argument: a head of major type 0 to 5
  (an integer, or a string, array or map of known length), behind any tags, that the decoder flags as
  shortest consists of exactly the bytes that the encoder writes for its tags and its argument. Nothing
  is claimed of indefinite-length heads, simple values and floats; the flag of a half-precision NaN is
  not exact, as \<open>half_nan_flagged_shortest\<close> shows.\<close>

theorem shortest_head_is_encoders:
  assumes "length d \<le> usize_max" and "head_from_cbor F d = Inr (h, True, n)"
    and "marker_bytes (head_marker h) = Some bs"
  shows "take n d = concat (map (head_bytes 6) (head_tags h)) @ bs"
  using assms by (simp add: head_from_cbor_ref head_ref_canonical)

theorem shortest_head_is_encoders_witness:
  "take 3 [0xC1, 0x18, 0x64 :: byte] = concat (map (head_bytes 6) [1]) @ head_bytes 0 100"
proof -
  let ?F = "\<lparr>f16_from_f64 = \<lambda>_. None, f16_to_f64 = \<lambda>_. 0, f16_from_f32 = \<lambda>_. None,
    f16_to_f32 = \<lambda>_. None, f32_from_f64 = \<lambda>_. None, f32_to_f64 = \<lambda>_. None, f16_NAN = 0x7E00\<rparr>"
  let ?h = "\<lparr>head_tags = [1], head_marker = UnsignedInteger 100\<rparr>"
  have l: "length [0xC1, 0x18, 0x64 :: byte] \<le> usize_max" by (simp add: usize_max_def)
  have h: "head_from_cbor ?F [0xC1, 0x18, 0x64] = Inr (?h, True, 3)"
    by (simp add: head_from_cbor_ref [OF l] head_ref.simps(2) major_of_def minor_of_def
        parse_uint_minor_def parse_marker_slow_def)
  have m: "marker_bytes (head_marker ?h) = Some (head_bytes 0 100)" by simp
  show ?thesis using shortest_head_is_encoders [OF l h m] by (simp only: head.simps)
qed

text \<open>Every half-precision form is flagged shortest, a NaN with a payload too, although the encoder
  writes one NaN only.\<close>

lemma half_nan_flagged_shortest:
  "head_from_cbor sample_floats [0xF9, 0x7E, 0x01] = Inr (\<lparr>head_tags = [], head_marker = Float 0x7FF8000000000000\<rparr>, True, 3)"
  "emit_value (f64_to_cbor sample_floats 0x7FF8000000000000) = Some [0xF9, 0x7E, 0x00]"
proof -
  have b: "[0xF9, 0x7E, 0x01] = 0xF9 # to_be_bytes (0x7E01 :: f16) @ []" by (simp add: to_be_bytes_def)
  have "length [0xF9, 0x7E, 0x01 :: byte] \<le> usize_max" by (simp add: usize_max_def)
  then show "head_from_cbor sample_floats [0xF9, 0x7E, 0x01] =
      Inr (\<lparr>head_tags = [], head_marker = Float 0x7FF8000000000000\<rparr>, True, 3)"
    by (simp only: head_from_cbor_ref) (simp add: b head_ref_f16 sample_floats_def half_to_f64_def del: append_Nil2)
  show "emit_value (f64_to_cbor sample_floats 0x7FF8000000000000) = Some [0xF9, 0x7E, 0x00]"
    by (simp add: writes_emit_value [OF writes_float(3)] f64_bytes_def f64_is_nan_def half_to_f64_classify
        sample_floats_def to_be_bytes_def)
qed

text \<open>C31. The skipper always makes progress and never runs past the end of the slice: a
  successful skip consumes at least one byte and at most the bytes there are, for any
  input whatsoever.\<close>

theorem skip_value_in_bounds:
  assumes "skip_value F d k = Inr (sh, n)"
  shows "0 < n \<and> n \<le> length d"
  using assms skip_bounds(1) [of F d k] by blast

theorem skip_value_in_bounds_witness:
  "\<exists>n. (\<forall>F. skip_value F [0x82, 0x01, 0x02, 0x03] 1 = Inr (True, n)) \<and> 0 < n \<and> n \<le> 4"
proof -
  have s: "skip_value F [0x82, 0x01, 0x02, 0x03] 1 = Inr (True, 3)" for F
  proof -
    have "skips F (IArray True [IUint 1, IUint 2])" by (rule skips_item) simp_all
    from skipsD [OF this, of "[0x03]" 1] show ?thesis
      by (simp add: head_bytes_cases usize_max_def)
  qed
  show ?thesis using s skip_value_in_bounds [OF s] by auto
qed

text \<open>C34. A definite-length array or map filled with well-behaved items panics exactly
  when the number of items is not the declared count (twice the count for a map);
  otherwise the buffer grows by the head and the items.\<close>

theorem definite_sequence_exact:
  assumes "list_all2 writes ems bss" and "D = 1 \<or> D = 2" and "c * D < 2 ^ 64"
  shows "emit_seq D (Some c) (emit_fields ems) e =
    (if length ems = c * D
     then Some (push_all (head_bytes (if D = 1 then 4 else 5) (of_nat c) @ concat bss) e)
     else None)"
  using assms(3) by (simp add: emit_seq_writes [OF assms(1)])

theorem definite_sequence_exact_witness:
  "emit_seq 1 (Some 2) (emit_fields [uint_to_cbor (1 :: u8), uint_to_cbor (2 :: u8)]) encoder_new
      = Some \<lparr>enc_data = [0x82, 1, 2]\<rparr>
   \<and> emit_seq 1 (Some 2) (emit_fields [uint_to_cbor (1 :: u8)]) encoder_new = None"
proof -
  have w2: "list_all2 writes [uint_to_cbor (1 :: u8), uint_to_cbor (2 :: u8)] [[1], [2]]"
    using writes_uint [of "1 :: u8"] writes_uint [of "2 :: u8"] by (simp add: head_bytes_cases)
  have w1: "list_all2 writes [uint_to_cbor (1 :: u8)] [[1]]"
    using writes_uint [of "1 :: u8"] by (simp add: head_bytes_cases)
  show ?thesis
    using definite_sequence_exact [OF w2, of 1 2 encoder_new]
      definite_sequence_exact [OF w1, of 1 2 encoder_new]
    by (simp add: head_bytes_cases encoder_new_def push_all_def)
qed

text \<open>A 64-bit float survives the codec: the narrowed form the encoder chooses decodes
  to a value that compares equal to the original (a NaN to the canonical NaN), for any
  narrowing functions of the float crates.\<close>

lemma float_survives_codec:
  assumes "emit_value (f64_to_cbor F v) = Some bs" and "length (bs @ r) \<le> usize_max"
  shows "\<exists>w s. f64_from_cbor F (bs @ r) = Inr (w, s, length bs) \<and>
    (if f64_is_nan v then w = f16_to_f64 F (f16_NAN F) else f64_eq w v)"
proof -
  obtain cs where cs: "writes (f64_to_cbor F v) cs"
    "\<And>r. length (cs @ r) \<le> usize_max \<Longrightarrow> \<exists>w s. f64_from_cbor F (cs @ r) = Inr (w, s, length cs) \<and>
      (if f64_is_nan v then w = f16_to_f64 F (f16_NAN F) else f64_eq w v)"
    using f64_round_trip [of F v] by blast
  have "cs = bs" using writes_emit_value [OF cs(1)] assms(1) by simp
  with cs(2) assms(2) show ?thesis by blast
qed

lemma float_survives_codec_instance:
  "\<exists>F w s. f64_from_cbor F [0xFB, 0x3F, 0xF1, 0x99, 0x99, 0x99, 0x99, 0x99, 0x9A] = Inr (w, s, 9) \<and>
    f64_eq w 0x3FF199999999999A"
proof -
  let ?F = "\<lparr>f16_from_f64 = \<lambda>_. None, f16_to_f64 = \<lambda>_. 0, f16_from_f32 = \<lambda>_. None,
    f16_to_f32 = \<lambda>_. None, f32_from_f64 = \<lambda>_. None, f32_to_f64 = \<lambda>_. None, f16_NAN = 0x7E00\<rparr>"
  have e: "emit_value (f64_to_cbor ?F 0x3FF199999999999A) =
      Some [0xFB, 0x3F, 0xF1, 0x99, 0x99, 0x99, 0x99, 0x99, 0x9A]"
    by (simp add: emit_value_def f64_to_cbor_def f64_is_nan_def f64_classify_def classify_bits_def
        lossless_float_coerce_def to_be_bytes_def encoder_build_def)
  have n: "\<not> f64_is_nan 0x3FF199999999999A"
    by (simp add: f64_is_nan_def f64_classify_def classify_bits_def)
  have l: "length ([0xFB, 0x3F, 0xF1, 0x99, 0x99, 0x99, 0x99, 0x99, 0x9A] @ [] :: bytes) \<le> usize_max"
    by (simp add: usize_max_def)
  show ?thesis
    using float_survives_codec [OF e l] n by (intro exI [of _ ?F]) (simp add: eval_nat_numeral)
qed

end
