(* ===== verification/Bpv7_Error.thy ===== *)
theory Bpv7_Error
  imports Cbor_Impls
begin

text \<open>
  The error domains of the \<^verbatim>\<open>bpv7\<close> crate (\<^verbatim>\<open>error.rs\<close>, \<^verbatim>\<open>eid/error.rs\<close>,
  \<^verbatim>\<open>bpsec/error.rs\<close> and the error types of \<^verbatim>\<open>crc.rs\<close>, \<^verbatim>\<open>status_report.rs\<close>
  and \<^verbatim>\<open>bundle.rs\<close>), the keys of \<^verbatim>\<open>bpsec/key.rs\<close> that one of them carries, and
  the two functions through which every scalar field is decoded:
  \<open>require_canonical\<close> and \<open>parse_canonical\<close>. The trait bounds of those functions
  (\<^verbatim>\<open>From<CborError>\<close>, \<^verbatim>\<open>Into<E>\<close>, \<^verbatim>\<open>HasInvalidField\<close>) are arguments; the
  locale \<open>error_domain\<close> states what every domain's instances have in common. Messages
  that a dependency formats (the parser's, the crypto library's) are not kept.
\<close>

section \<open>Keys\<close>

datatype key_use = Signature | Encryption | UnknownUse

datatype key_operation = Sign | Verify | Encrypt | Decrypt | WrapKey | UnwrapKey | DeriveKey
  | DeriveBits | UnknownOperation

datatype key_algorithm = Direct | A128KW | A192KW | A256KW | HS256 | HS384 | HS512
  | HS256_A128KW | HS256_A192KW | HS256_A256KW | HS384_A128KW | HS384_A192KW | HS384_A256KW
  | HS512_A128KW | HS512_A192KW | HS512_A256KW | UnknownAlgorithm

datatype enc_algorithm = A128GCM | A256GCM | UnknownEnc

datatype key_type = EllipticCurve | RSA | OctetSequence bytes | UnknownType

record key =
  key_type :: key_type
  key_algorithm :: "key_algorithm option"
  enc_algorithm :: "enc_algorithm option"
  key_operations :: "key_operation list option"
  key_id :: "string option"
  key_use :: "key_use option"

text \<open>\<^verbatim>\<open>KeySet::key\<close>: the first key that permits one of the operations; the source is
  ignored.\<close>

definition key_set_key :: "key list \<Rightarrow> 'eid \<Rightarrow> key_operation list \<Rightarrow> key option" where
  "key_set_key keys source operations =
    find (\<lambda>k. case key_operations k of
                Some ops \<Rightarrow> list_ex (\<lambda>op. op \<in> set ops) operations
              | None \<Rightarrow> False) keys"

section \<open>Error types\<close>

datatype block_type = Primary | Payload | PreviousNode | BundleAge_block | HopCount | BlockIntegrity
  | BlockSecurity | UnrecognisedBlock u64

datatype crc_error = InvalidType u64 | UnexpectedCrcValue | IncorrectCrc | MissingCrc
  | CrcInvalidCBOR cbor_error

datatype eid_error = IpnInvalidAllocatorId u64 | IpnInvalidNodeNumber u64
  | IpnInvalidServiceNumber u64 | UnsupportedScheme u64 | InvalidNodeId | MismatchedService
  | EidParseError | EidInvalidField string eid_error | InvalidSsp | EidNotCanonical
  | EidInvalidCBOR cbor_error

datatype bpsec_context = BIB_HMAC_SHA2 | BCB_AES_GCM | UnrecognisedCtx u64

datatype bpsec_error = NotEncrypted | NotSigned | MaybeHasBib u64 | StrandsCiphertext u64
  | MismatchedTargetResult | MissingSecurityTarget | InvalidSecuritySource | InvalidBIBTarget
  | UnrecognisedContext u64 | CrcPresent | InvalidBCBTarget | BCBMustShareTarget
  | InvalidTargetFlags | InvalidContextParameter u64 | InvalidIvLength nat
  | MissingContextParameter u64 | InvalidContextResult u64 | MissingContextResult u64
  | BCBMustReplicate | BCBDeleteFlag | BIBMustBeEncrypted | DuplicateOpTarget | NoTargets
  | InvalidContext bpsec_context | DecryptionFailed | NoKey | IntegrityCheckFailed
  | EncryptionFailed | InvalidKey key_operation key | BpsecInvalidField string bpsec_error
  | BpsecInvalidEid eid_error | BpsecNotCanonical | UnsupportedOperation
  | SourceOutOfRange nat nat nat | BpsecInvalidCBOR cbor_error | Algorithm

datatype bp_error = AdditionalData | InvalidVersion u64 | PossibleBpv6 | NotABundle u8
  | MissingPayload | DuplicateBlockNumber u64 | InvalidBlockNumber u64 block_type
  | InvalidFragmentInfo u64 u64 | InvalidHopLimit u64 | DuplicateBlocks block_type
  | Unsupported u64 | InvalidFlags | Altered | NotCanonical | MissingBlock u64
  | InvalidBPSec bpsec_error | InvalidCrc crc_error | InvalidEid eid_error
  | InvalidStatusReport status_error | InvalidCBOR cbor_error | InvalidField string bp_error
and status_error = UnknownAdminRecordType u64 | ReservedStatusReportReason
  | SrInvalidField string status_error | SrInvalidEid eid_error | SrInvalidBundle bp_error
  | SrNotCanonical | SrInvalidCBOR cbor_error

section \<open>Conversions\<close>

definition eid_of_cbor :: "cbor_error \<Rightarrow> eid_error" where
  "eid_of_cbor e = (if e = UnexpectedTag then EidNotCanonical else EidInvalidCBOR e)"

definition bpsec_of_cbor :: "cbor_error \<Rightarrow> bpsec_error" where
  "bpsec_of_cbor e = (if e = UnexpectedTag then BpsecNotCanonical else BpsecInvalidCBOR e)"

definition bp_of_cbor :: "cbor_error \<Rightarrow> bp_error" where
  "bp_of_cbor e = (if e = UnexpectedTag then NotCanonical else InvalidCBOR e)"

definition status_of_cbor :: "cbor_error \<Rightarrow> status_error" where
  "status_of_cbor e = (if e = UnexpectedTag then SrNotCanonical else SrInvalidCBOR e)"

text \<open>\<^verbatim>\<open>map_field_err\<close>: convert the error into the domain and label it.\<close>

definition map_field_err :: "(string \<Rightarrow> 'e \<Rightarrow> 'e) \<Rightarrow> ('f \<Rightarrow> 'e) \<Rightarrow> string \<Rightarrow> 'f + 'a \<Rightarrow> 'e + 'a" where
  "map_field_err invalid_field into field r = map_err (\<lambda>e. invalid_field field (into e)) r"

definition require_canonical ::
  "(cbor_error \<Rightarrow> 'f) \<Rightarrow> ('f \<Rightarrow> 'e) \<Rightarrow> (string \<Rightarrow> 'e \<Rightarrow> 'e) \<Rightarrow> nat \<Rightarrow> ('f, 'a) from_cbor \<Rightarrow>
   series \<Rightarrow> string \<Rightarrow> 'e \<Rightarrow> 'e + ('a \<times> series)" where
  "require_canonical conv into invalid_field D fc s field not_canonical =
    (case series_parse conv D (with_shortest (untagged conv fc)) s of
       Inl e \<Rightarrow> Inl (invalid_field field (into e))
     | Inr ((t, shortest), s') \<Rightarrow>
         if shortest then Inr (t, s') else Inl (invalid_field field not_canonical))"

definition parse_canonical ::
  "(cbor_error \<Rightarrow> 'f) \<Rightarrow> ('f \<Rightarrow> 'e) \<Rightarrow> ('f, 'a) from_cbor \<Rightarrow> bytes \<Rightarrow> 'e \<Rightarrow> 'e + ('a \<times> nat)" where
  "parse_canonical conv into fc d not_canonical =
    and_then (map_err into (parse (with_shortest_len (untagged conv fc)) d)) (\<lambda>(v, shortest, len).
      if shortest then Inr (v, len) else Inl not_canonical)"

text \<open>\<^verbatim>\<open>parse_item\<close> of \<^verbatim>\<open>parse.rs\<close>: the tolerant counterpart of \<open>require_canonical\<close>,
  which hands the canonical flag back.\<close>

definition parse_item ::
  "(cbor_error \<Rightarrow> 'f) \<Rightarrow> ('f \<Rightarrow> bp_error) \<Rightarrow> ('f, 'a) from_cbor \<Rightarrow> series \<Rightarrow> string \<Rightarrow>
   bp_error + (('a \<times> bool) \<times> series)" where
  "parse_item conv into fc s field =
    map_field_err InvalidField into field (series_parse conv 1 (with_shortest (untagged conv fc)) s)"

text \<open>\<^verbatim>\<open>require_canonical::<u64, Error, 1>\<close> on the fields of a bundle-level array.\<close>

abbreviation require_u64 :: "float_ops \<Rightarrow> series \<Rightarrow> string \<Rightarrow> bp_error + (u64 \<times> series)" where
  "require_u64 F s field \<equiv>
    require_canonical id bp_of_cbor InvalidField 1 (u64_from_cbor F) s field NotCanonical"

section \<open>What the domains share\<close>

locale error_domain =
  fixes conv :: "cbor_error \<Rightarrow> 'e"
    and invalid_field :: "string \<Rightarrow> 'e \<Rightarrow> 'e"
    and not_canonical :: 'e
  assumes conv_tag: "conv UnexpectedTag = not_canonical"
    and conv_inj: "conv c = conv d \<Longrightarrow> c = d"
    and field_inj: "invalid_field f a = invalid_field g b \<Longrightarrow> f = g \<and> a = b"
begin

text \<open>A tag in front of a field is reported exactly as a non-minimal encoding is, from its
  first byte: nothing after that byte is looked at.\<close>

lemma tagged_field_rejected:
  assumes "at_end D s = Inr (False, s)" and "drop (sr_offset s) (sr_data s) = b # r"
    and "0xC0 \<le> b" "b \<le> 0xDB"
  shows "require_canonical id conv invalid_field D fc s field not_canonical =
    Inl (invalid_field field not_canonical)"
  using assms
  by (simp add: require_canonical_def series_parse_def with_shortest_def untagged_def conv_tag)

lemma tagged_value_rejected:
  assumes "0xC0 \<le> b" "b \<le> 0xDB"
  shows "parse_canonical id conv fc (b # r) not_canonical = Inl not_canonical"
  using assms
  by (simp add: parse_canonical_def parse_def with_shortest_len_def untagged_def conv_tag)

text \<open>No other decoding failure is reported as a canonical-encoding violation.\<close>

lemma not_canonical_sources:
  "conv e = not_canonical \<Longrightarrow> e = UnexpectedTag"
  using conv_inj [of e UnexpectedTag] conv_tag by simp

end

interpretation bp_domain: error_domain bp_of_cbor InvalidField NotCanonical
  by unfold_locales (auto simp: bp_of_cbor_def split: if_splits)

interpretation eid_domain: error_domain eid_of_cbor EidInvalidField EidNotCanonical
  by unfold_locales (auto simp: eid_of_cbor_def split: if_splits)

interpretation bpsec_domain: error_domain bpsec_of_cbor BpsecInvalidField BpsecNotCanonical
  by unfold_locales (auto simp: bpsec_of_cbor_def split: if_splits)

interpretation status_domain: error_domain status_of_cbor SrInvalidField SrNotCanonical
  by unfold_locales (auto simp: status_of_cbor_def split: if_splits)

end
