(* ===== verification/Bpv7_Codec.thy ===== *)
theory Bpv7_Codec
  imports Bpv7_Error
begin

text \<open>
  How the codecs of the CBOR layer compose: reading a written value through
  \<open>require_canonical\<close>, \<open>parse_canonical\<close> and \<open>parse_item\<close>, and reading a
  written array through \<open>parse_array\<close>. The locale \<open>untagged_codec\<close> adds to the codec
  contract that an encoding never opens with a tag or a break byte; \<open>strict_codec\<close> adds
  that nothing but the canonical encoding is read back as canonical.
\<close>

section \<open>First bytes\<close>

definition plain_start :: "bytes \<Rightarrow> bool" where
  "plain_start bs \<longleftrightarrow> (case bs of [] \<Rightarrow> False | b # _ \<Rightarrow> \<not> (0xC0 \<le> b \<and> b \<le> 0xDB) \<and> b \<noteq> 0xFF)"

lemma plain_start_append [simp]: "plain_start bs \<Longrightarrow> plain_start (bs @ r)"
  by (cases bs) (auto simp: plain_start_def)

lemma plain_startD: "plain_start bs \<Longrightarrow> \<exists>b r. bs = b # r \<and> b \<noteq> 0xFF \<and> \<not> (0xC0 \<le> b \<and> b \<le> 0xDB)"
  by (cases bs) (auto simp: plain_start_def)

lemma major_of_tag: "0xC0 \<le> (b :: byte) \<Longrightarrow> b \<le> 0xDB \<Longrightarrow> major_of b = 6"
  by (simp add: major_of_def word_le_nat_alt word_unat_eq_iff drop_bit_eq_div unat_div)

lemma plain_start_head [simp]: "maj \<le> 5 \<Longrightarrow> plain_start (head_bytes maj v)"
proof -
  assume maj: "maj \<le> 5"
  then have m8: "maj < 8" "maj \<noteq> 6" "maj \<noteq> 7" by (auto simp: word_le_nat_alt word_less_nat_alt)
  then obtain m args where hb: "head_bytes maj v = m # args" and mj: "major_of m = maj"
    by (elim head_bytes_parse) blast
  have "major_of 0xFF = 7" by (simp add: major_of_def)
  with m8 mj have "m \<noteq> 0xFF" by auto
  moreover have "\<not> (0xC0 \<le> m \<and> m \<le> 0xDB)" using m8 mj major_of_tag [of m] by auto
  ultimately show ?thesis by (simp add: plain_start_def hb)
qed

lemma untagged_plain: "plain_start d \<Longrightarrow> untagged conv fc d = fc d"
  by (auto simp: untagged_def plain_start_def split: list.splits)

lemma untagged_Inr: "untagged conv fc d = Inr x \<Longrightarrow> fc d = Inr x"
  by (auto simp: untagged_def split: list.splits if_splits)

section \<open>Cursors\<close>

text \<open>
  \<open>field_at D s bs r\<close>: the cursor stands in front of \<open>bs\<close>, there is an item to read
  and \<open>r\<close> follows it.
\<close>

definition field_at :: "nat \<Rightarrow> series \<Rightarrow> bytes \<Rightarrow> bytes \<Rightarrow> bool" where
  "field_at D s bs r \<longleftrightarrow> drop (sr_offset s) (sr_data s) = bs @ r \<and> length (sr_data s) \<le> usize_max \<and>
    at_end D s = Inr (False, s)"

lemma field_at_len: "field_at D s bs r \<Longrightarrow> length (bs @ r) \<le> usize_max"
proof -
  assume a: "field_at D s bs r"
  then have "length (bs @ r) = length (drop (sr_offset s) (sr_data s))" by (simp add: field_at_def)
  also have "\<dots> \<le> length (sr_data s)" by simp
  finally show ?thesis using a by (simp add: field_at_def)
qed

section \<open>Untagged codecs\<close>

locale untagged_codec = cbor_codec +
  assumes enc_plain: "valid x \<Longrightarrow> plain_start (enc x)"
begin

lemma untagged_enc:
  "valid x \<Longrightarrow> length (enc x @ r) \<le> usize_max \<Longrightarrow>
    untagged conv from_cbor (enc x @ r) = Inr (x, True, length (enc x))"
  by (simp add: untagged_plain enc_plain from_cbor_enc del: length_append)

lemma series_parse_at:
  "valid x \<Longrightarrow> field_at D s (enc x) r \<Longrightarrow>
    series_parse conv D from_cbor s = Inr (x, series_advance (length (enc x)) s)"
  using field_at_len [of D s "enc x" r]
  by (simp add: series_parse_def field_at_def from_cbor_enc del: length_append)

lemma series_flagged_at:
  "valid x \<Longrightarrow> field_at D s (enc x) r \<Longrightarrow>
    series_parse conv D (with_shortest (untagged conv from_cbor)) s =
      Inr ((x, True), series_advance (length (enc x)) s)"
  using field_at_len [of D s "enc x" r]
  by (simp add: series_parse_def field_at_def with_shortest_def untagged_enc del: length_append)

lemma require_canonical_at:
  "valid x \<Longrightarrow> field_at D s (enc x) r \<Longrightarrow>
    require_canonical conv into fld D from_cbor s field nc = Inr (x, series_advance (length (enc x)) s)"
  by (simp add: require_canonical_def series_flagged_at)

lemma parse_item_at:
  "valid x \<Longrightarrow> field_at 1 s (enc x) r \<Longrightarrow>
    parse_item conv into from_cbor s field = Inr ((x, True), series_advance (length (enc x)) s)"
  by (simp add: parse_item_def map_field_err_def series_flagged_at del: One_nat_def)

lemma parse_canonical_enc:
  "valid x \<Longrightarrow> length (enc x @ r) \<le> usize_max \<Longrightarrow>
    parse_canonical conv into from_cbor (enc x @ r) nc = Inr (x, length (enc x))"
  by (simp add: parse_canonical_def parse_def with_shortest_len_def untagged_enc del: length_append)


end

text \<open>The decoder reads as canonical only what the encoder writes.\<close>

locale strict_codec = untagged_codec + canonical_codec
begin

lemma canonical_prefix:
  assumes "from_cbor d = Inr (x, True, n)" and "length d \<le> usize_max"
  shows "\<exists>r. d = enc x @ r \<and> n = length (enc x)"
proof -
  have t: "take n d = enc x" using assms by (rule shortest_enc)
  have "n \<le> length d" using assms by (rule consumed)
  then have "n = length (enc x)" using t [symmetric] by simp
  moreover have "d = enc x @ drop n d" using t by (metis append_take_drop_id)
  ultimately show ?thesis by blast
qed

lemma series_flagged_inv:
  assumes "series_parse conv D (with_shortest (untagged conv from_cbor)) s = Inr ((x, True), s')"
    and "length (sr_data s) \<le> usize_max"
  shows "\<exists>r. field_at D s (enc x) r \<and> s' = series_advance (length (enc x)) s"
proof -
  obtain e s1 where a: "at_end D s = Inr (e, s1)"
    using assms(1) by (auto simp: series_parse_def and_then_Inr)
  with assms(1) obtain n where e: "\<not> e" and p: "untagged conv from_cbor (drop (sr_offset s1) (sr_data s1)) = Inr (x, True, n)"
    and s': "s' = series_advance n s1"
    by (auto simp: series_parse_def and_then_Inr with_shortest_def split: if_splits)
  have s1: "s1 = s" using at_end_mono [OF a] e by simp
  obtain r where "drop (sr_offset s) (sr_data s) = enc x @ r" "n = length (enc x)"
    using canonical_prefix [OF untagged_Inr [OF p]] assms(2) s1 by (force simp: le_diff_conv)
  with a e s1 s' assms(2) show ?thesis by (auto simp: field_at_def)
qed

lemma series_parse_inv:
  assumes "series_parse conv D from_cbor s = Inr (x, s')"
    and "\<forall>d x sh n. from_cbor d = Inr (x, sh, n) \<longrightarrow> sh" and "length (sr_data s) \<le> usize_max"
  shows "\<exists>r. field_at D s (enc x) r \<and> s' = series_advance (length (enc x)) s"
proof -
  obtain e s1 where a: "at_end D s = Inr (e, s1)"
    using assms(1) by (auto simp: series_parse_def and_then_Inr)
  with assms(1) obtain sh n where e: "\<not> e" and p: "from_cbor (drop (sr_offset s1) (sr_data s1)) = Inr (x, sh, n)"
    and s': "s' = series_advance n s1"
    by (auto simp: series_parse_def and_then_Inr split: if_splits)
  have s1: "s1 = s" using at_end_mono [OF a] e by simp
  from assms(2) p have sh by blast
  with p have "from_cbor (drop (sr_offset s) (sr_data s)) = Inr (x, True, n)" using s1 by simp
  from canonical_prefix [OF this] assms(3)
  obtain r where "drop (sr_offset s) (sr_data s) = enc x @ r" "n = length (enc x)" by (force simp: le_diff_conv)
  with a e s1 s' assms(3) show ?thesis by (auto simp: field_at_def)
qed

lemma require_canonical_inv:
  assumes "require_canonical conv into fld D from_cbor s field nc = Inr (x, s')"
    and "length (sr_data s) \<le> usize_max"
  shows "\<exists>r. field_at D s (enc x) r \<and> s' = series_advance (length (enc x)) s"
  using assms
  by (intro series_flagged_inv) (auto simp: require_canonical_def split: sum.splits if_splits prod.splits)

lemma parse_item_inv:
  assumes "parse_item conv into from_cbor s field = Inr ((x, True), s')"
    and "length (sr_data s) \<le> usize_max"
  shows "\<exists>r. field_at 1 s (enc x) r \<and> s' = series_advance (length (enc x)) s"
  using assms by (intro series_flagged_inv) (simp_all add: parse_item_def map_field_err_def)

lemma parse_canonical_inv:
  assumes "parse_canonical conv into from_cbor d nc = Inr (x, n)" and "length d \<le> usize_max"
  shows "\<exists>r. d = enc x @ r \<and> n = length (enc x)"
  using assms
  by (intro canonical_prefix) (auto simp: parse_canonical_def parse_def with_shortest_len_def
      and_then_Inr split: if_splits dest: untagged_Inr)


end

interpretation u64_strict: strict_codec "uint_to_cbor :: u64 \<Rightarrow> emitter" "u64_from_cbor F" id
  "head_bytes 0" "\<lambda>_. True" for F
  by unfold_locales simp

section \<open>Arrays\<close>

lemma series_try_new_array [simp]:
  "series_try_new 1 d count off = Inr (series_new d (map_option unat count) off)"
  using unat_le_usize_max
  by (cases count) (auto simp: series_try_new_def checked_mul_def Option.bind_def split: option.splits)

lemma parse_array_definite:
  assumes "d = head_bytes 4 c @ body" and "length d \<le> usize_max"
    and "f (series_new d (Some (unat c)) (length (head_bytes 4 c))) True [] = Inr (x, s)"
    and "at_end 1 s = Inr (True, s')"
  shows "parse_array conv F f d = Inr (x, sr_offset s')"
proof -
  have "head_from_cbor F d = Inr (\<lparr>head_tags = [], head_marker = Array (Some c)\<rparr>, True, length (head_bytes 4 c))"
    using head_from_cbor_head_bytes [of 4 c body F] assms(1,2) by (simp add: major_marker_def head_of_major_def)
  then show ?thesis
    using assms(3,4) by (simp add: parse_array_def series_complete_def del: One_nat_def)
qed

lemma parse_array_Inr:
  assumes "parse_array conv F f d = Inr (r, n)"
  shows "\<exists>count sh tags off a' s.
    head_from_cbor F d = Inr (\<lparr>head_tags = tags, head_marker = Array count\<rparr>, sh, off) \<and>
    f (series_new d (map_option unat count) off) sh tags = Inr (r, a') \<and>
    at_end 1 a' = Inr (True, s) \<and> n = sr_offset s"
proof -
  obtain h sh off where h: "head_from_cbor F d = Inr (h, sh, off)"
    using assms by (auto simp: parse_array_def and_then_Inr)
  obtain tags mk where hh: "h = \<lparr>head_tags = tags, head_marker = mk\<rparr>" by (cases h)
  obtain count where c: "mk = Array count"
    using assms h hh by (cases mk) (auto simp: parse_array_def)
  show ?thesis
    using assms h hh c
    by (auto simp: parse_array_def and_then_Inr series_complete_def simp del: One_nat_def split: if_splits)
qed

lemma canonical_array_head:
  assumes "head_from_cbor F d = Inr (\<lparr>head_tags = [], head_marker = Array (Some c)\<rparr>, True, off)"
    and "length d \<le> usize_max"
  shows "\<exists>r. d = head_bytes 4 c @ r \<and> off = length (head_bytes 4 c)"
proof -
  have "take off d = head_bytes 4 c"
    using head_ref_canonical [of F d _ off] assms by (simp add: head_from_cbor_ref)
  moreover have "off \<le> length d" using head_from_cbor_len [OF assms(1)] by simp
  ultimately have "d = head_bytes 4 c @ drop off d" "off = length (head_bytes 4 c)"
    by (metis append_take_drop_id) (metis \<open>off \<le> length d\<close> \<open>take off d = head_bytes 4 c\<close> length_take min.absorb2)
  then show ?thesis by blast
qed

text \<open>Walking a definite cursor over the fields of an array.\<close>

lemma at_end_definite:
  "at_end D \<lparr>sr_data = d, sr_count = Some c, sr_offset = off, sr_parsed = k\<rparr> =
    Inr (c \<le> k, \<lparr>sr_data = d, sr_count = Some c, sr_offset = off, sr_parsed = k\<rparr>)"
  by (simp add: at_end_def)

lemma series_advance_simps [simp]:
  "sr_data (series_advance n s) = sr_data s" "sr_count (series_advance n s) = sr_count s"
  "sr_offset (series_advance n s) = sr_offset s + n" "sr_parsed (series_advance n s) = Suc (sr_parsed s)"
  by (simp_all add: series_advance_def)

lemma series_new_simps [simp]:
  "sr_data (series_new d c off) = d" "sr_count (series_new d c off) = c"
  "sr_offset (series_new d c off) = off" "sr_parsed (series_new d c off) = 0"
  by (simp_all add: series_new_def)

lemma field_at_definite:
  "sr_count s = Some c \<Longrightarrow> field_at D s bs r \<longleftrightarrow>
    drop (sr_offset s) (sr_data s) = bs @ r \<and> length (sr_data s) \<le> usize_max \<and> sr_parsed s < c"
  by (auto simp: field_at_def at_end_def)

lemma at_end_definite_iff:
  "sr_count s = Some c \<Longrightarrow> at_end D s = Inr (e, s') \<longleftrightarrow> (e \<longleftrightarrow> c \<le> sr_parsed s) \<and> s' = s"
  by (auto simp: at_end_def)

lemma field_at_rest: "field_at D s bs r \<Longrightarrow> drop (sr_offset s + length bs) (sr_data s) = r"
  by (rule drop_append_len) (simp add: field_at_def)

section \<open>Written arrays\<close>

text \<open>\<open>array_enc fs\<close> is the definite array of the items \<open>fs\<close>, and \<open>reads s fs r\<close> says
  that the cursor has exactly the items \<open>fs\<close> in front of it, with \<open>r\<close> after the array.\<close>

definition array_enc :: "bytes list \<Rightarrow> bytes" where
  "array_enc fs = head_bytes 4 (of_nat (length fs)) @ concat fs"

definition reads :: "series \<Rightarrow> bytes list \<Rightarrow> bytes \<Rightarrow> bool" where
  "reads s fs r \<longleftrightarrow> drop (sr_offset s) (sr_data s) = concat fs @ r \<and>
    length (sr_data s) \<le> usize_max \<and> sr_offset s \<le> length (sr_data s) \<and>
    sr_count s = Some (sr_parsed s + length fs)"

lemma reads_field: "reads s (b # fs) r \<Longrightarrow> field_at 1 s b (concat fs @ r)"
  by (simp add: reads_def field_at_definite)

lemma reads_advance: "reads s (b # fs) r \<Longrightarrow> reads (series_advance (length b) s) fs r"
proof -
  assume a: "reads s (b # fs) r"
  then have d: "drop (sr_offset s) (sr_data s) = b @ (concat fs @ r)" by (simp add: reads_def)
  then have "length (b @ concat fs @ r) = length (sr_data s) - sr_offset s" by (metis length_drop)
  moreover have "sr_offset s \<le> length (sr_data s)" using a by (simp add: reads_def)
  ultimately have "sr_offset s + length b \<le> length (sr_data s)" by simp
  then show ?thesis using a drop_append_len [OF d] by (simp add: reads_def)
qed

lemma reads_done:
  assumes "reads s [] r"
  shows "at_end D s = Inr (True, s)" and "is_definite s"
  using assms by (simp_all add: reads_def at_end_def is_definite_def)

lemma reads_more: "reads s (b # fs) r \<Longrightarrow> at_end D s = Inr (False, s)"
  by (simp add: reads_def at_end_def)

lemma reads_end_offset: "reads s [] r \<Longrightarrow> sr_offset s = length (sr_data s) - length r"
proof -
  assume a: "reads s [] r"
  then have "length r = length (sr_data s) - sr_offset s" by (simp add: reads_def flip: length_drop)
  then show ?thesis using a by (simp add: reads_def)
qed

lemma writes_array:
  "list_all2 writes ems fs \<Longrightarrow> length ems < 2 ^ 64 \<Longrightarrow> writes (tuple_to_cbor ems) (array_enc fs)"
  using writes_tuple [of ems fs] by (auto simp: array_enc_def list_all2_lengthD)

lemma plain_start_array [simp]: "plain_start (array_enc fs)"
  by (simp add: array_enc_def)

lemma parse_array_reads:
  assumes "length (array_enc fs @ r) \<le> usize_max" and "length fs < 2 ^ 64"
    and "\<And>s. reads s fs r \<Longrightarrow> sr_data s = array_enc fs @ r \<Longrightarrow>
      sr_offset s = length (head_bytes 4 (of_nat (length fs))) \<Longrightarrow> sr_parsed s = 0 \<Longrightarrow>
      \<exists>s'. f s True [] = Inr (x, s') \<and> reads s' [] r \<and> sr_data s' = sr_data s"
  shows "parse_array conv F f (array_enc fs @ r) = Inr (x, length (array_enc fs))"
proof -
  let ?c = "of_nat (length fs) :: u64"
  let ?s = "series_new (array_enc fs @ r) (Some (length fs)) (length (head_bytes 4 ?c))"
  have c: "unat ?c = length fs" using assms(2) by (simp add: unat_of_nat)
  have "reads ?s fs r" using assms(1) by (simp add: reads_def array_enc_def)
  then obtain s' where s': "f ?s True [] = Inr (x, s')" "reads s' [] r" "sr_data s' = array_enc fs @ r"
    using assms(3) [of ?s] by auto
  have "parse_array conv F f (array_enc fs @ r) = Inr (x, sr_offset s')"
  proof (rule parse_array_definite)
    show "array_enc fs @ r = head_bytes 4 ?c @ (concat fs @ r)" by (simp add: array_enc_def)
    show "at_end 1 s' = Inr (True, s')" by (rule reads_done [OF s'(2)])
  qed (use assms(1) c s' in simp_all)
  then show ?thesis using reads_end_offset [OF s'(2)] s'(3) by simp
qed

section \<open>Arrays that were read\<close>

text \<open>\<open>walked s0 bss s\<close>: reading items whose bytes were \<open>bss\<close> took the cursor from
  \<open>s0\<close> to \<open>s\<close>.\<close>

definition walked :: "series \<Rightarrow> bytes list \<Rightarrow> series \<Rightarrow> bool" where
  "walked s0 bss s \<longleftrightarrow> sr_data s = sr_data s0 \<and> sr_count s = sr_count s0 \<and>
    sr_offset s = sr_offset s0 + length (concat bss) \<and> sr_parsed s = sr_parsed s0 + length bss \<and>
    (\<exists>r. drop (sr_offset s0) (sr_data s0) = concat bss @ r) \<and>
    sr_offset s \<le> length (sr_data s) \<and>
    (\<forall>c. sr_count s0 = Some c \<longrightarrow> bss \<noteq> [] \<longrightarrow> sr_parsed s \<le> c)"

lemma walked_refl: "sr_offset s \<le> length (sr_data s) \<Longrightarrow> walked s [] s"
  by (auto simp: walked_def)

lemma walked_offset: "walked s0 bss s \<Longrightarrow> sr_offset s \<le> length (sr_data s)"
  unfolding walked_def by (elim conjE)

lemma walked_step:
  assumes "walked s0 bss s" and "field_at D s b r"
  shows "walked s0 (bss @ [b]) (series_advance (length b) s)"
proof -
  obtain q where q: "drop (sr_offset s0) (sr_data s0) = concat bss @ q"
    using assms(1) by (auto simp: walked_def)
  have dr: "drop (sr_offset s) (sr_data s) = b @ r" using assms(2) by (simp add: field_at_def)
  have "drop (sr_offset s) (sr_data s) = q"
    using drop_append_len [OF q] assms(1) by (simp add: walked_def)
  then have "q = b @ r" using dr by simp
  moreover have "sr_offset s + length b \<le> length (sr_data s)"
  proof -
    have "length (b @ r) = length (sr_data s) - sr_offset s" by (metis dr length_drop)
    then show ?thesis using walked_offset [OF assms(1)] by simp
  qed
  moreover have "\<forall>c. sr_count s0 = Some c \<longrightarrow> Suc (sr_parsed s) \<le> c"
    using assms by (auto simp: walked_def field_at_def at_end_def)
  ultimately show ?thesis using assms(1) q by (auto simp: walked_def)
qed

lemma parse_array_walked:
  assumes "head_from_cbor F d = Inr (\<lparr>head_tags = [], head_marker = Array count\<rparr>, True, off)"
    and "walked (series_new d (map_option unat count) off) bss a" and "bss \<noteq> []"
    and "at_end 1 a = Inr (True, e)" and "length d \<le> usize_max"
  shows "sr_offset e \<le> length d" and "is_definite a \<Longrightarrow> take (sr_offset e) d = array_enc bss"
proof -
  note w = assms(2) [unfolded walked_def]
  have "sr_data a = d" using w by simp
  with walked_offset [OF assms(2)] show "sr_offset e \<le> length d" using at_end_bounds [OF assms(4)] by simp
  assume "is_definite a"
  then obtain c where c: "count = Some c" using w by (auto simp: is_definite_def)
  obtain q where d: "d = head_bytes 4 c @ q" "off = length (head_bytes 4 c)"
    using canonical_array_head [OF assms(1) [unfolded c] assms(5)] by auto
  have n: "unat c = length bss" and e: "e = a"
    using assms(3,4) w c by (auto simp: at_end_definite_iff)
  have "of_nat (length bss) = c" unfolding n [symmetric] by simp
  moreover obtain r where "q = concat bss @ r" using w d by auto
  ultimately show "take (sr_offset e) d = array_enc bss"
    using w d e by (simp add: array_enc_def)
qed

end
