(* ===== verification/Bpv7_Types.thy ===== *)
theory Bpv7_Types
  imports Bpv7_Codec
begin

text \<open>
  The leaf types of a bundle: \<^verbatim>\<open>dtn_time.rs\<close>, \<^verbatim>\<open>lifetime.rs\<close>,
  \<^verbatim>\<open>bundle_age.rs\<close> and \<^verbatim>\<open>hop_info.rs\<close>, with the proofs that each meets the
  codec contract. A \<^verbatim>\<open>core::time::Duration\<close> is its number of nanoseconds (a natural
  number). An \<^verbatim>\<open>OffsetDateTime\<close> of the \<^verbatim>\<open>time\<close> crate is its distance from the
  DTN epoch in nanoseconds (an integer); the operations of that crate are arguments,
  collected in \<open>time_ops\<close>, and \<open>time_spec\<close> states their documented behaviour.
\<close>

section \<open>Durations and instants\<close>

type_synonym duration = nat

definition as_millis :: "duration \<Rightarrow> nat" where
  "as_millis d = d div 1000000"

definition from_millis :: "u64 \<Rightarrow> duration" where
  "from_millis m = unat m * 1000000"

record time_ops =
  tm_whole_milliseconds :: "int \<Rightarrow> int"
  tm_saturating_add :: "int \<Rightarrow> int \<Rightarrow> int"
  tm_nanosecond :: "int \<Rightarrow> nat"

text \<open>Documented behaviour: whole milliseconds round towards zero, addition is clamped to
  the representable instants \<open>lo\<close> to \<open>hi\<close>, and the nanosecond accessor is the
  nanosecond within the second (the epoch is a whole second).\<close>

definition time_spec :: "time_ops \<Rightarrow> int \<Rightarrow> int \<Rightarrow> bool" where
  "time_spec T lo hi \<longleftrightarrow> lo \<le> 0 \<and> 0 \<le> hi \<and>
    (\<forall>d. tm_whole_milliseconds T d = sgn d * (\<bar>d\<bar> div 1000000)) \<and>
    (\<forall>t d. tm_saturating_add T t d = max lo (min hi (t + d))) \<and>
    (\<forall>t. tm_nanosecond T t = nat (t mod 1000000000))"

section \<open>DtnTime\<close>

datatype DtnTime = DtnTime (millisecs: u64)

definition u64_MAX :: u64 where
  "u64_MAX = 0xFFFFFFFFFFFFFFFF"

definition saturating_from :: "time_ops \<Rightarrow> int \<Rightarrow> DtnTime" where
  "saturating_from T t =
    (let millisecs = tm_whole_milliseconds T t
     in DtnTime (if millisecs < 0 then 0
                 else if millisecs > uint u64_MAX then u64_MAX
                 else word_of_int millisecs))"

definition dtn_time_try_from :: "time_ops \<Rightarrow> int \<Rightarrow> DtnTime option" where
  "dtn_time_try_from T t =
    (let millisecs = tm_whole_milliseconds T t
     in if millisecs < 0 \<or> millisecs > uint u64_MAX then None
        else Some (DtnTime (word_of_int millisecs)))"

text \<open>The seconds are cast to \<^verbatim>\<open>i64\<close> and the rest to \<^verbatim>\<open>i32\<close>; both casts keep the value
  as a signed word.\<close>

definition dtn_time_into :: "time_ops \<Rightarrow> DtnTime \<Rightarrow> int" where
  "dtn_time_into T t =
    tm_saturating_add T 0
      (sint (ucast (millisecs t div 1000) :: 64 word) * 1000000000 +
       sint (ucast (millisecs t mod 1000 * 1000000) :: 32 word))"

definition dtn_time_to_cbor :: "DtnTime \<Rightarrow> emitter" where
  "dtn_time_to_cbor t = uint_to_cbor (millisecs t)"

definition dtn_time_from_cbor :: "float_ops \<Rightarrow> (bp_error, DtnTime) from_cbor" where
  "dtn_time_from_cbor F d =
    and_then (parse_canonical id bp_of_cbor (u64_from_cbor F) d NotCanonical) (\<lambda>(m, len).
      Inr (DtnTime m, True, len))"

section \<open>Lifetime and BundleAge\<close>

datatype Lifetime = Lifetime (lifetime_ms: u64)

definition lifetime_into_duration :: "Lifetime \<Rightarrow> duration" where
  "lifetime_into_duration l = from_millis (lifetime_ms l)"

definition lifetime_from_duration :: "duration \<Rightarrow> Lifetime" where
  "lifetime_from_duration d =
    Lifetime (if as_millis d < 2 ^ 64 then of_nat (as_millis d) else u64_MAX)"

definition lifetime_to_cbor :: "Lifetime \<Rightarrow> emitter" where
  "lifetime_to_cbor l = uint_to_cbor (lifetime_ms l)"

definition lifetime_from_cbor :: "float_ops \<Rightarrow> (bp_error, Lifetime) from_cbor" where
  "lifetime_from_cbor F d =
    and_then (parse_canonical id bp_of_cbor (u64_from_cbor F) d NotCanonical) (\<lambda>(v, len).
      Inr (Lifetime v, True, len))"

datatype BundleAge = BundleAge (age_ms: u64)

definition age_into_duration :: "BundleAge \<Rightarrow> duration" where
  "age_into_duration a = from_millis (age_ms a)"

definition age_from_duration :: "duration \<Rightarrow> BundleAge" where
  "age_from_duration d =
    BundleAge (if as_millis d < 2 ^ 64 then of_nat (as_millis d) else u64_MAX)"

definition age_to_cbor :: "BundleAge \<Rightarrow> emitter" where
  "age_to_cbor a = uint_to_cbor (age_ms a)"

definition age_from_cbor :: "float_ops \<Rightarrow> (bp_error, BundleAge) from_cbor" where
  "age_from_cbor F d =
    and_then (parse_canonical id bp_of_cbor (u64_from_cbor F) d NotCanonical) (\<lambda>(v, len).
      Inr (BundleAge v, True, len))"

section \<open>HopInfo\<close>

text \<open>The limit is a \<^verbatim>\<open>NonZeroU8\<close>: a byte with the invariant \<open>hop_info_ok\<close>.\<close>

record HopInfo =
  hop_limit :: u8
  hop_count :: u64

definition hop_info_ok :: "HopInfo \<Rightarrow> bool" where
  "hop_info_ok h = (hop_limit h \<noteq> 0)"

definition hop_info_to_cbor :: "HopInfo \<Rightarrow> emitter" where
  "hop_info_to_cbor h =
    tuple_to_cbor [uint_to_cbor (ucast (hop_limit h) :: u64), uint_to_cbor (hop_count h)]"

definition nonzero_u8 :: "u64 \<Rightarrow> u8 option" where
  "nonzero_u8 raw = (if unat raw < 256 \<and> (ucast raw :: u8) \<noteq> 0 then Some (ucast raw) else None)"

definition hop_info_from_cbor :: "float_ops \<Rightarrow> (bp_error, HopInfo) from_cbor" where
  "hop_info_from_cbor F d =
    and_then (parse_array bp_of_cbor F (\<lambda>a shortest tags.
      if \<not> shortest \<or> tags \<noteq> [] then Inl NotCanonical
      else and_then (require_u64 F a ''hop limit'') (\<lambda>(raw, a).
        and_then (ok_or (nonzero_u8 raw) (InvalidHopLimit raw)) (\<lambda>limit.
          and_then (require_u64 F a ''hop count'') (\<lambda>(count, a).
            Inr ((\<lparr>hop_limit = limit, hop_count = count\<rparr>, is_definite a), a))))) d)
    (\<lambda>((v, s), len). Inr (v, s, len))"

section \<open>The scalar newtypes meet the contract\<close>

text \<open>Every newtype over \<^verbatim>\<open>u64\<close> (times, flags, type codes) is decoded through
  \<open>parse_canonical\<close> and a total constructor \<open>mk\<close>; \<open>valid\<close> singles out the values
  that a constructor call can build.\<close>

lemma parse_canonical_len:
  "parse_canonical id conv (u64_from_cbor F) d nc = Inr (v, n) \<Longrightarrow> 1 \<le> n \<and> n \<le> length d"
  by (auto simp: parse_canonical_def parse_def with_shortest_len_def and_then_Inr split: if_splits
      dest!: untagged_Inr u64_from_cbor_len)

locale u64_newtype =
  fixes to_cbor :: "'a \<Rightarrow> emitter"
    and from_cbor :: "('e, 'a) from_cbor"
    and conv :: "cbor_error \<Rightarrow> 'e"
    and nc :: 'e
    and F :: float_ops
    and mk :: "u64 \<Rightarrow> 'a"
    and dest :: "'a \<Rightarrow> u64"
    and valid :: "'a \<Rightarrow> bool"
  assumes to_cbor: "to_cbor x = uint_to_cbor (dest x)"
    and from_cbor: "from_cbor d =
      and_then (parse_canonical id conv (u64_from_cbor F) d nc) (\<lambda>(v, len). Inr (mk v, True, len))"
    and mk_dest: "valid x \<Longrightarrow> mk (dest x) = x"
    and dest_mk: "dest (mk v) = v"
    and valid_mk: "valid (mk v)"
begin

lemma decoded_flag: "from_cbor d = Inr (x, s, n) \<Longrightarrow> s \<and> valid x \<and> 1 \<le> n \<and> n \<le> length d"
  using valid_mk by (auto simp: from_cbor and_then_Inr dest!: parse_canonical_len)

lemma decoded_bytes:
  "from_cbor d = Inr (x, s, n) \<Longrightarrow> length d \<le> usize_max \<Longrightarrow> take n d = head_bytes 0 (dest x)"
  by (auto simp: from_cbor and_then_Inr dest_mk dest!: u64_strict.parse_canonical_inv)

end

sublocale u64_newtype \<subseteq> strict_codec to_cbor from_cbor conv "\<lambda>x. head_bytes 0 (dest x)" valid
proof (unfold_locales, goal_cases)
  case (1 x)
  then show ?case using writes_uint [of "dest x"] by (simp add: to_cbor)
next
  case (2 x r)
  then show ?case
    by (simp add: from_cbor u64_strict.parse_canonical_enc mk_dest del: length_append)
qed (auto dest: decoded_flag decoded_bytes)

context u64_newtype
begin

lemma series_parse_read:
  assumes "series_parse conv D from_cbor s = Inr (x, s')" and "length (sr_data s) \<le> usize_max"
  shows "\<exists>r. field_at D s (head_bytes 0 (dest x)) r \<and> s' = series_advance (length (head_bytes 0 (dest x))) s"
  using assms by (intro series_parse_inv) (auto dest: decoded_flag)

end

interpretation dtn_time_codec: u64_newtype dtn_time_to_cbor "dtn_time_from_cbor F" bp_of_cbor
  NotCanonical F DtnTime millisecs "\<lambda>_. True" for F
  by unfold_locales (simp_all add: dtn_time_to_cbor_def dtn_time_from_cbor_def)

interpretation lifetime_codec: u64_newtype lifetime_to_cbor "lifetime_from_cbor F" bp_of_cbor
  NotCanonical F Lifetime lifetime_ms "\<lambda>_. True" for F
  by unfold_locales (simp_all add: lifetime_to_cbor_def lifetime_from_cbor_def)

interpretation age_codec: u64_newtype age_to_cbor "age_from_cbor F" bp_of_cbor
  NotCanonical F BundleAge age_ms "\<lambda>_. True" for F
  by unfold_locales (simp_all add: age_to_cbor_def age_from_cbor_def)

section \<open>HopInfo meets the contract\<close>

definition hop_info_enc :: "HopInfo \<Rightarrow> bytes" where
  "hop_info_enc h = array_enc [head_bytes 0 (ucast (hop_limit h)), head_bytes 0 (hop_count h)]"

lemma nonzero_u8_ucast [simp]: "nonzero_u8 (ucast (b :: u8)) = (if b = 0 then None else Some b)"
  using unat_lt2p [of b] by (simp add: nonzero_u8_def unat_ucast_up)

lemma nonzero_u8_Some: "nonzero_u8 raw = Some b \<longleftrightarrow> raw = ucast b \<and> b \<noteq> 0"
proof
  assume "nonzero_u8 raw = Some b"
  then have "unat raw < 256" "b = ucast raw" "b \<noteq> 0" by (auto simp: nonzero_u8_def split: if_splits)
  then show "raw = ucast b \<and> b \<noteq> 0" using ucast_ucast_up [of raw, where 'a = 8] by simp
qed simp

lemma hop_info_writes: "writes (hop_info_to_cbor h) (hop_info_enc h)"
  unfolding hop_info_to_cbor_def hop_info_enc_def
  using writes_uint [of "ucast (hop_limit h) :: u64"] writes_uint [of "hop_count h"]
  by (intro writes_array) simp_all

lemma hop_info_from_cbor_enc:
  assumes "hop_info_ok h" and "length (hop_info_enc h @ r) \<le> usize_max"
  shows "hop_info_from_cbor F (hop_info_enc h @ r) = Inr (h, True, length (hop_info_enc h))"
proof -
  let ?l = "head_bytes 0 (ucast (hop_limit h))" and ?c = "head_bytes 0 (hop_count h)"
  show ?thesis
    unfolding hop_info_from_cbor_def hop_info_enc_def
  proof (subst parse_array_reads [where x = "(h, True)"], goal_cases)
    case 1
    then show ?case using assms(2) by (simp add: hop_info_enc_def)
  next
    case (3 s)
    note r1 = reads_advance [OF 3(1)]
    note r2 = reads_advance [OF r1]
    show ?case
      using assms(1) r2
      by (simp add: hop_info_ok_def reads_done [OF r2]
          u64_strict.require_canonical_at [OF TrueI reads_field [OF 3(1)]]
          u64_strict.require_canonical_at [OF TrueI reads_field [OF r1]] del: One_nat_def)
  qed simp_all
qed

text \<open>Conversely a canonical decode comes from those bytes; an indefinite array is accepted
  but flagged.\<close>

lemma hop_info_from_cbor_inv:
  assumes "hop_info_from_cbor F d = Inr (h, s, n)" and "length d \<le> usize_max"
  shows "hop_info_ok h \<and> n \<le> length d \<and> (s \<longrightarrow> take n d = hop_info_enc h)"
proof -
  obtain count sh tags off a' e where
    hd: "head_from_cbor F d = Inr (\<lparr>head_tags = tags, head_marker = Array count\<rparr>, sh, off)"
    and f: "(\<lambda>a shortest tags.
      if \<not> shortest \<or> tags \<noteq> [] then Inl NotCanonical
      else and_then (require_u64 F a ''hop limit'') (\<lambda>(raw, a).
        and_then (ok_or (nonzero_u8 raw) (InvalidHopLimit raw)) (\<lambda>limit.
          and_then (require_u64 F a ''hop count'') (\<lambda>(count, a).
            Inr ((\<lparr>hop_limit = limit, hop_count = count\<rparr>, is_definite a), a)))))
      (series_new d (map_option unat count) off) sh tags = Inr ((h, s), a')"
    and e: "at_end 1 a' = Inr (True, e)" "n = sr_offset e"
    using assms(1) unfolding hop_info_from_cbor_def by (auto simp: and_then_Inr dest!: parse_array_Inr)
  let ?a = "series_new d (map_option unat count) off"
  from f have sh: "sh" "tags = []" by (auto split: if_splits)
  with f obtain raw a1 where r1: "require_u64 F ?a ''hop limit'' = Inr (raw, a1)"
    and l: "nonzero_u8 raw = Some (hop_limit h)"
    and r2: "require_u64 F a1 ''hop count'' = Inr (hop_count h, a')" and s: "s = is_definite a'"
    by (auto simp: and_then_Inr split: if_splits)
  have hd': "head_from_cbor F d = Inr (\<lparr>head_tags = [], head_marker = Array count\<rparr>, True, off)"
    using hd sh by simp
  have off: "off \<le> length d" using head_from_cbor_len [OF hd] by simp
  then have w0: "walked ?a [] ?a" by (intro walked_refl) simp
  obtain q1 where q1: "field_at 1 ?a (head_bytes 0 raw) q1" "a1 = series_advance (length (head_bytes 0 raw)) ?a"
    using u64_strict.require_canonical_inv [OF r1] assms(2) by auto
  obtain q2 where q2: "field_at 1 a1 (head_bytes 0 (hop_count h)) q2" "a' = series_advance (length (head_bytes 0 (hop_count h))) a1"
    using u64_strict.require_canonical_inv [OF r2] assms(2) q1(2) by auto
  have "walked ?a [head_bytes 0 raw, head_bytes 0 (hop_count h)] a'"
    using walked_step [OF walked_step [OF w0 q1(1)], folded q1(2), OF q2(1)] q2(2) by simp
  note pw = parse_array_walked [OF hd' this _ e(1) assms(2)]
  show ?thesis
    using pw sh(1) l e(2) s by (simp add: nonzero_u8_Some hop_info_ok_def hop_info_enc_def)
qed

lemma hop_info_plain: "plain_start (hop_info_enc h)"
  by (simp add: hop_info_enc_def)

interpretation hop_info_codec: strict_codec hop_info_to_cbor "hop_info_from_cbor F" bp_of_cbor
  hop_info_enc hop_info_ok for F
  by unfold_locales
    (auto simp: hop_info_writes hop_info_from_cbor_enc hop_info_plain dest: hop_info_from_cbor_inv
      simp del: length_append)

section \<open>Conversions\<close>

lemma uint_u64_MAX [simp]: "uint u64_MAX = 2 ^ 64 - 1" "unat u64_MAX = 2 ^ 64 - 1"
  by (simp_all add: u64_MAX_def)

lemma uint_u64_less: "uint (v :: u64) < 2 ^ 64"
  using uint_bounded [of v] by simp

text \<open>Neither cast of \<open>dtn_time_into\<close> loses a bit: the instant is exactly the number of
  milliseconds after the epoch, up to the clamp of the library.\<close>

lemma dtn_time_into_nanos:
  "dtn_time_into T t = tm_saturating_add T 0 (uint (millisecs t) * 1000000)"
proof -
  let ?m = "uint (millisecs t)"
  have b: "?m < 18446744073709551616" "0 \<le> ?m" using uint_u64_less [of "millisecs t"] by simp_all
  have u: "uint (millisecs t div 1000) = ?m div 1000" "uint (millisecs t mod 1000 * 1000000) = ?m mod 1000 * 1000000"
  proof -
    show "uint (millisecs t div 1000) = ?m div 1000" by (simp add: uint_div)
    have "?m mod 1000 * 1000000 < 18446744073709551616" using pos_mod_bound [of 1000 ?m] by linarith
    moreover have "0 \<le> ?m mod 1000 * 1000000" by simp
    ultimately show "uint (millisecs t mod 1000 * 1000000) = ?m mod 1000 * 1000000"
      by (simp add: uint_word_ariths uint_mod)
  qed
  have "sint (ucast (millisecs t div 1000) :: 64 word) = ?m div 1000"
  proof -
    have "?m div 1000 < 9223372036854775808" "0 \<le> ?m div 1000"
      using b div_mult_mod_eq [of ?m 1000] pos_mod_sign [of 1000 ?m]
      by (linarith, simp add: pos_imp_zdiv_nonneg_iff)
    then show ?thesis by (simp add: sint_uint u signed_take_bit_int_eq_self)
  qed
  moreover have "sint (ucast (millisecs t mod 1000 * 1000000) :: 32 word) = ?m mod 1000 * 1000000"
  proof -
    have r: "?m mod 1000 * 1000000 < 2147483648" "0 \<le> ?m mod 1000 * 1000000"
      using pos_mod_bound [of 1000 ?m] by (linarith, simp)
    then have "uint (ucast (millisecs t mod 1000 * 1000000) :: 32 word) = ?m mod 1000 * 1000000"
      by (simp add: unsigned_ucast_eq u take_bit_eq_mod)
    then show ?thesis using r by (simp add: sint_uint signed_take_bit_int_eq_self)
  qed
  moreover have "?m div 1000 * 1000000000 + ?m mod 1000 * 1000000 = ?m * 1000000"
    using div_mult_mod_eq [of ?m 1000] by linarith
  ultimately show ?thesis by (simp add: dtn_time_into_def)
qed

lemma dtn_time_round_trip:
  assumes "time_spec T lo hi" and "uint (millisecs t) * 1000000 \<le> hi"
  shows "dtn_time_try_from T (dtn_time_into T t) = Some t" and "saturating_from T (dtn_time_into T t) = t"
proof -
  have "lo \<le> uint (millisecs t) * 1000000" using assms(1) by (simp add: time_spec_def) (smt (verit) uint_ge_0)
  then have i: "dtn_time_into T t = uint (millisecs t) * 1000000"
    using assms by (simp add: dtn_time_into_nanos time_spec_def)
  have w: "tm_whole_milliseconds T (dtn_time_into T t) = uint (millisecs t)"
  proof -
    have "tm_whole_milliseconds T (uint (millisecs t) * 1000000) =
        sgn (uint (millisecs t) * 1000000) * (\<bar>uint (millisecs t) * 1000000\<bar> div 1000000)"
      using assms(1) by (simp add: time_spec_def)
    moreover have "uint (millisecs t) = 0 \<or> 0 < uint (millisecs t)"
      using uint_ge_0 [of "millisecs t"] by linarith
    ultimately show ?thesis by (auto simp: i sgn_if abs_if)
  qed
  have "uint (millisecs t) \<le> 2 ^ 64 - 1" using uint_u64_less [of "millisecs t"] by simp
  then show "dtn_time_try_from T (dtn_time_into T t) = Some t" "saturating_from T (dtn_time_into T t) = t"
    by (simp_all add: dtn_time_try_from_def saturating_from_def w Let_def)
qed

lemma saturating_from_before_epoch: "time_spec T lo hi \<Longrightarrow> i < 0 \<Longrightarrow> saturating_from T i = DtnTime 0"
proof -
  assume spec: "time_spec T lo hi" and i: "i < 0"
  have w: "tm_whole_milliseconds T i = - (\<bar>i\<bar> div 1000000)"
    using spec i by (simp add: time_spec_def)
  have "0 \<le> \<bar>i\<bar> div 1000000" by (simp add: pos_imp_zdiv_nonneg_iff)
  then show ?thesis unfolding saturating_from_def Let_def w by auto
qed

lemma saturating_from_checked: "dtn_time_try_from T i = Some t \<Longrightarrow> saturating_from T i = t"
  by (auto simp: dtn_time_try_from_def saturating_from_def Let_def split: if_splits)

lemma lifetime_round_trip: "lifetime_from_duration (lifetime_into_duration l) = l"
  using unat_lt2p [of "lifetime_ms l"]
  by (simp add: lifetime_from_duration_def lifetime_into_duration_def as_millis_def from_millis_def)

lemma lifetime_saturates: "unat (lifetime_ms (lifetime_from_duration d)) = min (as_millis d) (2 ^ 64 - 1)"
  by (auto simp: lifetime_from_duration_def unat_of_nat)

lemma age_round_trip: "age_from_duration (age_into_duration a) = a"
  using unat_lt2p [of "age_ms a"]
  by (simp add: age_from_duration_def age_into_duration_def as_millis_def from_millis_def)

end
