(* ===== verification/Bpv7_Timestamp.thy ===== *)
theory Bpv7_Timestamp
  imports Bpv7_Types
begin

unbundle bit_operations_syntax

text \<open>
  \<^verbatim>\<open>creation_timestamp.rs\<close>: the creation timestamp, its codec and its two issuers.
  \<^verbatim>\<open>CreationTimestamp::now\<close> is a lock-free loop over one shared atomic; it is modelled as
  a step relation in which any number of threads interleave, a weak compare-and-exchange may
  fail spuriously, and a relaxed load may return any value the atomic ever held.
\<close>

section \<open>The timestamp\<close>

record CreationTimestamp =
  creation_time :: "DtnTime option"
  sequence_number :: u64

definition from_parts :: "DtnTime option \<Rightarrow> u64 \<Rightarrow> CreationTimestamp" where
  "from_parts t n = \<lparr>creation_time = t, sequence_number = n\<rparr>"

definition into_parts :: "CreationTimestamp \<Rightarrow> DtnTime option \<times> u64" where
  "into_parts c = (creation_time c, sequence_number c)"

definition is_clocked :: "CreationTimestamp \<Rightarrow> bool" where
  "is_clocked c = (creation_time c \<noteq> None)"

definition as_datetime :: "time_ops \<Rightarrow> CreationTimestamp \<Rightarrow> int option" where
  "as_datetime T c =
    (case creation_time c of
       None \<Rightarrow> None
     | Some t \<Rightarrow>
         Some (tm_saturating_add T (dtn_time_into T t)
           (sint (ucast (min (sequence_number c) 999999) :: 64 word))))"

definition timestamp_try_from :: "time_ops \<Rightarrow> int \<Rightarrow> CreationTimestamp option" where
  "timestamp_try_from T t =
    (case dtn_time_try_from T t of
       None \<Rightarrow> None
     | Some d \<Rightarrow> Some \<lparr>creation_time = Some d, sequence_number = of_nat (tm_nanosecond T t mod 1000000)\<rparr>)"

definition timestamp_to_cbor :: "CreationTimestamp \<Rightarrow> emitter" where
  "timestamp_to_cbor c =
    tuple_to_cbor [dtn_time_to_cbor (case creation_time c of Some t \<Rightarrow> t | None \<Rightarrow> DtnTime 0),
                   uint_to_cbor (sequence_number c)]"

definition timestamp_from_cbor :: "float_ops \<Rightarrow> (bp_error, CreationTimestamp) from_cbor" where
  "timestamp_from_cbor F d =
    and_then (parse_array bp_of_cbor F (\<lambda>a shortest tags.
      if \<not> shortest \<or> tags \<noteq> [] then Inl NotCanonical
      else and_then (map_field_err InvalidField id ''bundle creation time''
                       (series_parse bp_of_cbor 1 (dtn_time_from_cbor F) a)) (\<lambda>(t, a).
        and_then (require_u64 F a ''sequence number'') (\<lambda>(n, a).
          Inr ((\<lparr>creation_time = (if millisecs t = 0 then None else Some t), sequence_number = n\<rparr>,
                is_definite a), a)))) d)
    (\<lambda>((v, s), len). Inr (v, s, len))"

section \<open>Issuing timestamps\<close>

definition SEQ_BITS :: nat where
  "SEQ_BITS = 20"

definition now_candidate :: "time_ops \<Rightarrow> int \<Rightarrow> u64" where
  "now_candidate T now =
    (push_bit SEQ_BITS (min (millisecs (saturating_from T now)) (drop_bit SEQ_BITS u64_MAX))) OR
    of_nat (tm_nanosecond T now mod 1000000)"

definition next_issue :: "u64 \<Rightarrow> u64 \<Rightarrow> u64" where
  "next_issue prev candidate = max (saturating_add prev 1) candidate"

definition unpack_issued :: "u64 \<Rightarrow> CreationTimestamp" where
  "unpack_issued issued =
    \<lparr>creation_time = Some (DtnTime (drop_bit SEQ_BITS issued)),
     sequence_number = issued AND (push_bit SEQ_BITS 1 - 1)\<rparr>"

text \<open>
  The shared state: the atomic \<^verbatim>\<open>LAST_ISSUED\<close>, the values it held before (its
  modification order), and where each thread stands in \<^verbatim>\<open>now()\<close>. The ghost log records
  the issued values in the order of the successful exchanges.
\<close>

datatype now_thread = Idle | Trying u64 u64

record now_state =
  last_issued :: u64
  history :: "u64 list"
  threads :: "nat \<Rightarrow> now_thread"
  issued_log :: "u64 list"

definition now_init :: now_state where
  "now_init = \<lparr>last_issued = 0, history = [0], threads = (\<lambda>_. Idle), issued_log = []\<rparr>"

inductive now_step :: "time_ops \<Rightarrow> now_state \<Rightarrow> now_state \<Rightarrow> bool" for T where
  load: "threads s i = Idle \<Longrightarrow> l \<in> set (history s) \<Longrightarrow>
    now_step T s (s\<lparr>threads := (threads s)(i := Trying (now_candidate T now) l)\<rparr>)"
| exchange_ok: "threads s i = Trying c l \<Longrightarrow> l = last_issued s \<Longrightarrow>
    now_step T s (s\<lparr>last_issued := next_issue l c, history := history s @ [next_issue l c],
      threads := (threads s)(i := Idle), issued_log := issued_log s @ [next_issue l c]\<rparr>)"
| exchange_failed: "threads s i = Trying c l \<Longrightarrow> actual \<in> set (history s) \<Longrightarrow>
    now_step T s (s\<lparr>threads := (threads s)(i := Trying c actual)\<rparr>)"

inductive_cases now_stepE: "now_step T s s'"

inductive now_reachable :: "time_ops \<Rightarrow> now_state \<Rightarrow> bool" for T where
  init: "now_reachable T now_init"
| step: "now_reachable T s \<Longrightarrow> now_step T s s' \<Longrightarrow> now_reachable T s'"

text \<open>\<^verbatim>\<open>new_sequential\<close>: a fetch-and-add on the global counter, which wraps.\<close>

definition new_sequential :: "u64 \<Rightarrow> CreationTimestamp \<times> u64" where
  "new_sequential counter = (\<lparr>creation_time = None, sequence_number = counter\<rparr>, counter + 1)"

section \<open>The codec\<close>

definition timestamp_ok :: "CreationTimestamp \<Rightarrow> bool" where
  "timestamp_ok c = (creation_time c \<noteq> Some (DtnTime 0))"

definition timestamp_ms :: "CreationTimestamp \<Rightarrow> u64" where
  "timestamp_ms c = (case creation_time c of Some t \<Rightarrow> millisecs t | None \<Rightarrow> 0)"

definition timestamp_enc :: "CreationTimestamp \<Rightarrow> bytes" where
  "timestamp_enc c = array_enc [head_bytes 0 (timestamp_ms c), head_bytes 0 (sequence_number c)]"

lemma timestamp_writes: "writes (timestamp_to_cbor c) (timestamp_enc c)"
  unfolding timestamp_to_cbor_def timestamp_enc_def
  using dtn_time_codec.to_cbor_writes [OF TrueI, of "case creation_time c of Some t \<Rightarrow> t | None \<Rightarrow> DtnTime 0"]
    writes_uint [of "sequence_number c"]
  by (intro writes_array) (simp_all add: timestamp_ms_def split: option.splits)

lemma timestamp_from_cbor_enc:
  assumes "timestamp_ok c" and "length (timestamp_enc c @ r) \<le> usize_max"
  shows "timestamp_from_cbor F (timestamp_enc c @ r) = Inr (c, True, length (timestamp_enc c))"
  unfolding timestamp_from_cbor_def timestamp_enc_def
proof (subst parse_array_reads [where x = "(c, True)"], goal_cases)
  case 1
  then show ?case using assms(2) by (simp add: timestamp_enc_def)
next
  case (3 s)
  note r1 = reads_advance [OF 3(1)]
  note r2 = reads_advance [OF r1]
  have f1: "field_at 1 s (head_bytes 0 (millisecs (DtnTime (timestamp_ms c)))) (concat [head_bytes 0 (sequence_number c)] @ r)"
    using reads_field [OF 3(1)] by simp
  have c: "c = \<lparr>creation_time = (if timestamp_ms c = 0 then None else Some (DtnTime (timestamp_ms c))),
      sequence_number = sequence_number c\<rparr>"
    using assms(1)
    by (cases c) (auto simp: timestamp_ok_def timestamp_ms_def DtnTime.expand split: option.splits)
  show ?case
    using r2 dtn_time_codec.series_parse_at [OF TrueI f1] c
    by (simp add: map_field_err_def reads_done [OF r2]
        u64_strict.require_canonical_at [OF TrueI reads_field [OF r1]] del: One_nat_def)
qed simp_all

lemma timestamp_from_cbor_inv:
  assumes "timestamp_from_cbor F d = Inr (c, s, n)" and "length d \<le> usize_max"
  shows "timestamp_ok c \<and> n \<le> length d \<and> (s \<longrightarrow> take n d = timestamp_enc c)"
proof -
  obtain count sh tags off a' e where
    hd: "head_from_cbor F d = Inr (\<lparr>head_tags = tags, head_marker = Array count\<rparr>, sh, off)"
    and f: "(\<lambda>a shortest tags.
      if \<not> shortest \<or> tags \<noteq> [] then Inl NotCanonical
      else and_then (map_field_err InvalidField id ''bundle creation time''
                       (series_parse bp_of_cbor 1 (dtn_time_from_cbor F) a)) (\<lambda>(t, a).
        and_then (require_u64 F a ''sequence number'') (\<lambda>(n, a).
          Inr ((\<lparr>creation_time = (if millisecs t = 0 then None else Some t), sequence_number = n\<rparr>,
                is_definite a), a))))
      (series_new d (map_option unat count) off) sh tags = Inr ((c, s), a')"
    and e: "at_end 1 a' = Inr (True, e)" "n = sr_offset e"
    using assms(1) unfolding timestamp_from_cbor_def by (auto simp: and_then_Inr dest!: parse_array_Inr)
  let ?a = "series_new d (map_option unat count) off"
  from f have sh: "sh" "tags = []" by (auto split: if_splits)
  with f obtain t a1 where r1: "series_parse bp_of_cbor 1 (dtn_time_from_cbor F) ?a = Inr (t, a1)"
    and r2: "require_u64 F a1 ''sequence number'' = Inr (sequence_number c, a')"
    and c: "creation_time c = (if millisecs t = 0 then None else Some t)" and s: "s = is_definite a'"
    by (auto simp: and_then_Inr map_field_err_def)
  have hd': "head_from_cbor F d = Inr (\<lparr>head_tags = [], head_marker = Array count\<rparr>, True, off)"
    using hd sh by simp
  have off: "off \<le> length d" using head_from_cbor_len [OF hd] by simp
  then have w0: "walked ?a [] ?a" by (intro walked_refl) simp
  obtain q1 where q1: "field_at 1 ?a (head_bytes 0 (millisecs t)) q1" "a1 = series_advance (length (head_bytes 0 (millisecs t))) ?a"
    using dtn_time_codec.series_parse_read [OF r1] assms(2) by auto
  obtain q2 where q2: "field_at 1 a1 (head_bytes 0 (sequence_number c)) q2"
      "a' = series_advance (length (head_bytes 0 (sequence_number c))) a1"
    using u64_strict.require_canonical_inv [OF r2] assms(2) q1(2) by auto
  have "walked ?a [head_bytes 0 (millisecs t), head_bytes 0 (sequence_number c)] a'"
    using walked_step [OF walked_step [OF w0 q1(1)], folded q1(2), OF q2(1)] q2(2) by simp
  note pw = parse_array_walked [OF hd' this _ e(1) assms(2)]
  have "timestamp_ms c = millisecs t" "timestamp_ok c"
    using c by (auto simp: timestamp_ms_def timestamp_ok_def)
  then show ?thesis
    using pw e(2) s by (simp add: timestamp_enc_def)
qed

lemma timestamp_plain: "plain_start (timestamp_enc c)"
  by (simp add: timestamp_enc_def)

interpretation timestamp_codec: strict_codec timestamp_to_cbor "timestamp_from_cbor F" bp_of_cbor
  timestamp_enc timestamp_ok for F
  by unfold_locales
    (auto simp: timestamp_writes timestamp_from_cbor_enc timestamp_plain dest: timestamp_from_cbor_inv
      simp del: length_append)

section \<open>Order of the issued pairs\<close>

text \<open>The derived \<^verbatim>\<open>Ord\<close>: the time first, an absent one below every present one.\<close>

definition timestamp_lt :: "CreationTimestamp \<Rightarrow> CreationTimestamp \<Rightarrow> bool" where
  "timestamp_lt a b =
    (case (creation_time a, creation_time b) of
       (None, Some _) \<Rightarrow> True
     | (Some _, None) \<Rightarrow> False
     | (None, None) \<Rightarrow> sequence_number a < sequence_number b
     | (Some x, Some y) \<Rightarrow> millisecs x < millisecs y \<or>
         (millisecs x = millisecs y \<and> sequence_number a < sequence_number b))"

lemma seq_mask: "(push_bit SEQ_BITS 1 - 1 :: u64) = mask 20"
  by (simp add: SEQ_BITS_def mask_eq_exp_minus_1)

lemma unpack_nat:
  "unat (drop_bit SEQ_BITS (v :: u64)) = unat v div 1048576"
  "unat (v AND (push_bit SEQ_BITS 1 - 1)) = unat v mod 1048576"
  unfolding seq_mask
  by (simp_all add: SEQ_BITS_def unsigned_drop_bit_eq drop_bit_eq_div take_bit_eq_mask [symmetric]
      unsigned_take_bit_eq take_bit_eq_mod unat_div unat_mod)

lemma unpack_lt_iff: "timestamp_lt (unpack_issued a) (unpack_issued b) \<longleftrightarrow> a < b"
proof -
  let ?x = "unat a" and ?y = "unat b" and ?k = "1048576 :: nat"
  have "?x < ?y \<longleftrightarrow> ?x div ?k < ?y div ?k \<or> (?x div ?k = ?y div ?k \<and> ?x mod ?k < ?y mod ?k)"
  proof
    assume l: "?x < ?y"
    then have "?x div ?k \<le> ?y div ?k" by (intro div_le_mono) simp
    moreover have "?x mod ?k < ?y mod ?k" if "?x div ?k = ?y div ?k"
      using l that div_mult_mod_eq [of ?x ?k] div_mult_mod_eq [of ?y ?k] by linarith
    ultimately show "?x div ?k < ?y div ?k \<or> (?x div ?k = ?y div ?k \<and> ?x mod ?k < ?y mod ?k)" by linarith
  next
    assume "?x div ?k < ?y div ?k \<or> (?x div ?k = ?y div ?k \<and> ?x mod ?k < ?y mod ?k)"
    then show "?x < ?y"
    proof
      assume "?x div ?k < ?y div ?k"
      then show ?thesis by (meson div_le_mono leD leI)
    next
      assume "?x div ?k = ?y div ?k \<and> ?x mod ?k < ?y mod ?k"
      then show ?thesis using div_mult_mod_eq [of ?x ?k] div_mult_mod_eq [of ?y ?k] by linarith
    qed
  qed
  then show ?thesis
    by (simp only: timestamp_lt_def unpack_issued_def word_less_nat_alt unpack_nat CreationTimestamp.simps
        word_unat_eq_iff [of "drop_bit SEQ_BITS a"] option.case prod.case DtnTime.sel)
qed

lemma next_issue_mono: "l < next_issue l c \<or> (l = u64_MAX \<and> next_issue l c = u64_MAX)"
proof (cases "l = u64_MAX")
  case True
  moreover have "c \<le> u64_MAX" using unat_lt2p [of c] by (simp add: word_le_nat_alt)
  moreover have "saturating_add u64_MAX 1 = u64_MAX" by (simp add: saturating_add_def) (simp add: u64_MAX_def)
  ultimately show ?thesis by (simp add: next_issue_def max_absorb1)
next
  case False
  then have "unat l \<noteq> 2 ^ 64 - 1" by (simp add: word_unat_eq_iff)
  then have "unat l + 1 < 2 ^ 64" using unat_lt2p [of l] by simp
  then have "unat (saturating_add l 1) = unat l + 1"
    by (simp add: saturating_add_def unat_word_ariths)
  then have "l < saturating_add l 1" by (simp add: word_less_nat_alt)
  then show ?thesis by (simp add: next_issue_def less_max_iff_disj)
qed

lemma next_issue_candidate: "c \<le> next_issue l c"
  by (simp add: next_issue_def)

section \<open>The issuing loop under interleaving\<close>

definition issue_order :: "u64 \<Rightarrow> u64 \<Rightarrow> bool" where
  "issue_order a b \<longleftrightarrow> a < b \<or> (a = u64_MAX \<and> b = u64_MAX)"

definition now_inv :: "now_state \<Rightarrow> bool" where
  "now_inv s \<longleftrightarrow> history s = 0 # issued_log s \<and> last (history s) = last_issued s \<and>
    sorted_wrt issue_order (history s)"

lemma issue_order_trans: "issue_order a b \<Longrightarrow> issue_order b c \<Longrightarrow> issue_order a c"
  using less_trans [of a b c] by (auto simp: issue_order_def)

lemma now_inv_init: "now_inv now_init"
  by (simp add: now_inv_def now_init_def)

lemma now_inv_issue:
  assumes "now_inv s" and "n = next_issue (last_issued s) c"
  shows "sorted_wrt issue_order (history s @ [n])"
proof -
  have o: "issue_order (last_issued s) n"
    using next_issue_mono [of "last_issued s" c] assms(2) by (simp add: issue_order_def)
  have h: "history s = butlast (history s) @ [last_issued s]"
    using assms(1) by (metis append_butlast_last_id list.distinct(1) now_inv_def)
  have "issue_order x n" if "x \<in> set (history s)" for x
  proof -
    have "sorted_wrt issue_order (butlast (history s) @ [last_issued s])"
      using assms(1) unfolding h [symmetric] now_inv_def by blast
    then have "\<forall>y \<in> set (butlast (history s)). issue_order y (last_issued s)"
      by (simp add: sorted_wrt_append)
    moreover have "x \<in> set (butlast (history s)) \<or> x = last_issued s"
      using that by (subst (asm) h) auto
    ultimately have "x = last_issued s \<or> issue_order x (last_issued s)" by blast
    then show ?thesis using o issue_order_trans by blast
  qed
  moreover have "sorted_wrt issue_order (history s)" using assms(1) unfolding now_inv_def by blast
  ultimately show ?thesis by (simp add: sorted_wrt_append)
qed

lemma now_inv_step: "now_inv s \<Longrightarrow> now_step T s s' \<Longrightarrow> now_inv s'"
proof (erule now_step.cases, goal_cases)
  case (2 u i c l)
  then have h: "sorted_wrt issue_order (history s @ [next_issue (last_issued s) c])"
    by (intro now_inv_issue) simp_all
  from 2 have "history s = 0 # issued_log s" by (simp add: now_inv_def)
  with 2 h show ?case by (simp add: now_inv_def)
qed (auto simp: now_inv_def)

lemma now_reachable_inv: "now_reachable T s \<Longrightarrow> now_inv s"
  by (induction rule: now_reachable.induct) (auto intro: now_inv_init now_inv_step)

lemma issued_strict:
  assumes "now_inv s" and "last_issued s \<noteq> u64_MAX"
  shows "sorted_wrt (<) (history s)"
proof -
  have "x \<noteq> u64_MAX" if "x \<in> set (history s)" for x
  proof
    assume x: "x = u64_MAX"
    obtain ys where h: "history s = ys @ [last_issued s]"
      using assms(1) by (metis append_butlast_last_id list.distinct(1) now_inv_def)
    with that x assms(2) have "x \<in> set ys" by auto
    then have "issue_order x (last_issued s)"
      using assms(1) h by (auto simp: now_inv_def sorted_wrt_append)
    moreover have "\<not> u64_MAX < last_issued s"
      using unat_lt2p [of "last_issued s"] by (simp add: word_less_nat_alt)
    ultimately show False using x assms(2) by (auto simp: issue_order_def)
  qed
  then show ?thesis
    using assms(1) sorted_wrt_mono_rel [of "history s" issue_order "(<)"]
    by (auto simp: now_inv_def issue_order_def)
qed

lemma issued_pairs_increase:
  assumes "now_reachable T s" and "last_issued s \<noteq> u64_MAX"
  shows "sorted_wrt timestamp_lt (map unpack_issued (issued_log s))"
proof -
  note inv = now_reachable_inv [OF assms(1)]
  have "sorted_wrt (<) (issued_log s)"
    using issued_strict [OF inv assms(2)] inv by (simp add: now_inv_def)
  then show ?thesis by (simp add: sorted_wrt_map unpack_lt_iff)
qed

text \<open>A thread is never stuck: alone it finishes within two steps.\<close>

lemma now_progress:
  assumes "now_reachable T s" and "threads s i = Trying c l"
  shows "\<exists>s' s''. now_step T s s' \<and> now_step T s' s'' \<and> threads s'' i = Idle \<and>
    issued_log s'' = issued_log s @ [next_issue (last_issued s) c]"
proof -
  let ?s' = "s\<lparr>threads := (threads s)(i := Trying c (last_issued s))\<rparr>"
  have "last_issued s \<in> set (history s)"
    using now_reachable_inv [OF assms(1)] unfolding now_inv_def by (metis last_in_set list.distinct(1))
  with assms(2) have 1: "now_step T s ?s'" by (rule now_step.exchange_failed)
  have "threads ?s' i = Trying c (last_issued s)" "last_issued s = last_issued ?s'" by simp_all
  then have 2: "now_step T ?s' (?s'\<lparr>last_issued := next_issue (last_issued s) c,
      history := history ?s' @ [next_issue (last_issued s) c], threads := (threads ?s')(i := Idle),
      issued_log := issued_log ?s' @ [next_issue (last_issued s) c]\<rparr>)" (is "now_step T ?s' ?s''")
    by (rule now_step.exchange_ok)
  have "threads ?s'' i = Idle \<and> issued_log ?s'' = issued_log s @ [next_issue (last_issued s) c]" by simp
  with 1 2 show ?thesis by blast
qed

end
