(* ===== verification/Bpv7_Flags.thy ===== *)
theory Bpv7_Flags
  imports Bpv7_Types
begin

unbundle bit_operations_syntax

text \<open>
  The coded scalars of a bundle: bundle and block processing control flags
  (\<^verbatim>\<open>bundle.rs\<close>, \<^verbatim>\<open>block.rs\<close>), block type codes (\<^verbatim>\<open>block.rs\<close>) and CRC type codes
  (\<^verbatim>\<open>crc.rs\<close>). Each is a newtype over \<^verbatim>\<open>u64\<close> whose decoder keeps unknown codes, so
  that a bundle is forwarded unchanged.
\<close>

section \<open>Bits\<close>

definition test_flag :: "u64 \<Rightarrow> nat \<Rightarrow> bool" where
  "test_flag v k = (v AND push_bit k 1 \<noteq> 0)"

definition clear_if :: "bool \<Rightarrow> nat \<Rightarrow> u64 \<Rightarrow> u64" where
  "clear_if c k v = (if c then v AND NOT (push_bit k 1) else v)"

definition set_if :: "bool \<Rightarrow> nat \<Rightarrow> u64 \<Rightarrow> u64" where
  "set_if c k v = (if c then v OR push_bit k 1 else v)"

definition some_nonzero :: "u64 \<Rightarrow> u64 option" where
  "some_nonzero v = (if v \<noteq> 0 then Some v else None)"

definition or_zero :: "u64 option \<Rightarrow> u64" where
  "or_zero x = (case x of Some v \<Rightarrow> v | None \<Rightarrow> 0)"

section \<open>Bundle processing control flags\<close>

record bundle_flags =
  is_fragment :: bool
  is_admin_record :: bool
  do_not_fragment :: bool
  app_ack_requested :: bool
  report_status_time :: bool
  receipt_report_requested :: bool
  forward_report_requested :: bool
  delivery_report_requested :: bool
  delete_report_requested :: bool
  unrecognised :: "u64 option"

definition bundle_flags_from :: "u64 \<Rightarrow> bundle_flags" where
  "bundle_flags_from value =
    (let u = value;
         u = clear_if (test_flag value 0) 0 u;
         u = clear_if (test_flag value 1) 1 u;
         u = clear_if (test_flag value 2) 2 u;
         u = clear_if (test_flag value 5) 5 u;
         u = clear_if (test_flag value 6) 6 u;
         u = clear_if (test_flag value 14) 14 u;
         u = clear_if (test_flag value 16) 16 u;
         u = clear_if (test_flag value 17) 17 u;
         u = clear_if (test_flag value 18) 18 u
     in \<lparr>is_fragment = test_flag value 0, is_admin_record = test_flag value 1,
         do_not_fragment = test_flag value 2, app_ack_requested = test_flag value 5,
         report_status_time = test_flag value 6, receipt_report_requested = test_flag value 14,
         forward_report_requested = test_flag value 16,
         delivery_report_requested = test_flag value 17,
         delete_report_requested = test_flag value 18, unrecognised = some_nonzero u\<rparr>)"

definition bundle_flags_into :: "bundle_flags \<Rightarrow> u64" where
  "bundle_flags_into f =
    (let v = or_zero (unrecognised f);
         v = set_if (is_fragment f) 0 v;
         v = set_if (is_admin_record f) 1 v;
         v = set_if (do_not_fragment f) 2 v;
         v = set_if (app_ack_requested f) 5 v;
         v = set_if (report_status_time f) 6 v;
         v = set_if (receipt_report_requested f) 14 v;
         v = set_if (forward_report_requested f) 16 v;
         v = set_if (delivery_report_requested f) 17 v;
         v = set_if (delete_report_requested f) 18 v
     in v)"

definition bundle_flags_to_cbor :: "bundle_flags \<Rightarrow> emitter" where
  "bundle_flags_to_cbor f = uint_to_cbor (bundle_flags_into f)"

definition bundle_flags_from_cbor :: "float_ops \<Rightarrow> (bp_error, bundle_flags) from_cbor" where
  "bundle_flags_from_cbor F d =
    and_then (parse_canonical id bp_of_cbor (u64_from_cbor F) d NotCanonical) (\<lambda>(v, len).
      Inr (bundle_flags_from v, True, len))"

section \<open>Block processing control flags\<close>

record block_flags =
  must_replicate :: bool
  report_on_failure :: bool
  delete_bundle_on_failure :: bool
  delete_block_on_failure :: bool
  blk_unrecognised :: "u64 option"

definition block_flags_into :: "block_flags \<Rightarrow> u64" where
  "block_flags_into f =
    (let v = or_zero (blk_unrecognised f);
         v = set_if (must_replicate f) 0 v;
         v = set_if (report_on_failure f) 1 v;
         v = set_if (delete_bundle_on_failure f) 2 v;
         v = set_if (delete_block_on_failure f) 4 v
     in v)"

text \<open>The masks 1, 2, 4 and 16 of the source are the bits 0, 1, 2 and 4.\<close>

definition block_flags_from :: "u64 \<Rightarrow> block_flags" where
  "block_flags_from value =
    (let u = value;
         u = clear_if (test_flag value 0) 0 u;
         u = clear_if (test_flag value 1) 1 u;
         u = clear_if (test_flag value 2) 2 u;
         u = clear_if (test_flag value 4) 4 u
     in \<lparr>must_replicate = test_flag value 0, report_on_failure = test_flag value 1,
         delete_bundle_on_failure = test_flag value 2, delete_block_on_failure = test_flag value 4,
         blk_unrecognised = some_nonzero u\<rparr>)"

definition block_flags_default :: block_flags where
  "block_flags_default =
    \<lparr>must_replicate = False, report_on_failure = False, delete_bundle_on_failure = False,
     delete_block_on_failure = False, blk_unrecognised = None\<rparr>"

definition block_flags_primary :: block_flags where
  "block_flags_primary =
    \<lparr>must_replicate = True, report_on_failure = True, delete_bundle_on_failure = True,
     delete_block_on_failure = False, blk_unrecognised = None\<rparr>"

definition block_flags_to_cbor :: "block_flags \<Rightarrow> emitter" where
  "block_flags_to_cbor f = uint_to_cbor (block_flags_into f)"

definition block_flags_from_cbor :: "float_ops \<Rightarrow> (bp_error, block_flags) from_cbor" where
  "block_flags_from_cbor F d =
    and_then (parse_canonical id bp_of_cbor (u64_from_cbor F) d NotCanonical) (\<lambda>(v, len).
      Inr (block_flags_from v, True, len))"

section \<open>Block type codes\<close>

definition block_type_into :: "block_type \<Rightarrow> u64" where
  "block_type_into t =
    (case t of Primary \<Rightarrow> 0 | Payload \<Rightarrow> 1 | PreviousNode \<Rightarrow> 6 | BundleAge_block \<Rightarrow> 7 | HopCount \<Rightarrow> 10
     | BlockIntegrity \<Rightarrow> 11 | BlockSecurity \<Rightarrow> 12 | UnrecognisedBlock v \<Rightarrow> v)"

definition block_type_from :: "u64 \<Rightarrow> block_type" where
  "block_type_from v =
    (if v = 0 then Primary else if v = 1 then Payload else if v = 6 then PreviousNode
     else if v = 7 then BundleAge_block else if v = 10 then HopCount
     else if v = 11 then BlockIntegrity else if v = 12 then BlockSecurity
     else UnrecognisedBlock v)"

definition canonicalize :: "block_type \<Rightarrow> block_type" where
  "canonicalize t = block_type_from (block_type_into t)"

definition block_type_to_cbor :: "block_type \<Rightarrow> emitter" where
  "block_type_to_cbor t = uint_to_cbor (block_type_into t)"

definition block_type_from_cbor :: "float_ops \<Rightarrow> (bp_error, block_type) from_cbor" where
  "block_type_from_cbor F d =
    and_then (parse_canonical id bp_of_cbor (u64_from_cbor F) d NotCanonical) (\<lambda>(v, len).
      Inr (block_type_from v, True, len))"

section \<open>CRC type codes\<close>

datatype CrcType = NoCrc | CRC16_X25 | CRC32_CASTAGNOLI | UnrecognisedCrc u64

definition crc_type_from :: "u64 \<Rightarrow> CrcType" where
  "crc_type_from v =
    (if v = 0 then NoCrc else if v = 1 then CRC16_X25 else if v = 2 then CRC32_CASTAGNOLI
     else UnrecognisedCrc v)"

definition crc_type_into :: "CrcType \<Rightarrow> u64" where
  "crc_type_into t =
    (case t of NoCrc \<Rightarrow> 0 | CRC16_X25 \<Rightarrow> 1 | CRC32_CASTAGNOLI \<Rightarrow> 2 | UnrecognisedCrc v \<Rightarrow> v)"

definition crc_type_to_cbor :: "CrcType \<Rightarrow> emitter" where
  "crc_type_to_cbor t = uint_to_cbor (crc_type_into t)"

definition crc_type_from_cbor :: "float_ops \<Rightarrow> (bp_error, CrcType) from_cbor" where
  "crc_type_from_cbor F d =
    and_then (parse_canonical id bp_of_cbor (u64_from_cbor F) d NotCanonical) (\<lambda>(v, len).
      Inr (crc_type_from v, True, len))"

section \<open>Codes survive a round trip\<close>

lemma test_flag_bit [simp]: "test_flag v k = bit v k"
  by (simp add: test_flag_def bit_iff_and_push_bit_not_eq_0)

lemma bit_clear_if [simp]: "bit (clear_if c k v) n \<longleftrightarrow> bit v n \<and> \<not> (c \<and> n = k)"
  using bit_imp_le_length [of v n]
  by (auto simp: clear_if_def bit_simps possible_bit_def)

lemma bit_set_if [simp]: "k < 64 \<Longrightarrow> bit (set_if c k v) n \<longleftrightarrow> bit v n \<or> (c \<and> n = k)"
  by (auto simp: set_if_def bit_simps possible_bit_def)

lemma or_zero_some_nonzero [simp]: "or_zero (some_nonzero v) = v"
  by (simp add: or_zero_def some_nonzero_def)

lemma some_nonzero_or_zero: "u \<noteq> Some 0 \<Longrightarrow> some_nonzero (or_zero u) = u"
  by (cases u) (auto simp: or_zero_def some_nonzero_def)

lemma bundle_flags_into_from: "bundle_flags_into (bundle_flags_from v) = v"
proof (rule bit_word_eqI)
  fix n
  show "bit (bundle_flags_into (bundle_flags_from v)) n = bit v n"
    by (simp add: bundle_flags_into_def bundle_flags_from_def Let_def) (auto intro: gr0I)
qed

text \<open>The values that decoding produces: the unrecognised part is present only when it is not
  zero and never repeats a known bit.\<close>

definition bundle_flags_ok :: "bundle_flags \<Rightarrow> bool" where
  "bundle_flags_ok f \<longleftrightarrow> unrecognised f \<noteq> Some 0 \<and>
    list_all (\<lambda>k. \<not> bit (or_zero (unrecognised f)) k) [0, 1, 2, 5, 6, 14, 16, 17, 18]"

definition block_flags_ok :: "block_flags \<Rightarrow> bool" where
  "block_flags_ok f \<longleftrightarrow> blk_unrecognised f \<noteq> Some 0 \<and>
    list_all (\<lambda>k. \<not> bit (or_zero (blk_unrecognised f)) k) [0, 1, 2, 4]"

lemma bundle_flags_from_into: "bundle_flags_ok f \<Longrightarrow> bundle_flags_from (bundle_flags_into f) = f"
proof -
  assume ok: "bundle_flags_ok f"
  let ?v = "bundle_flags_into f"
  have b: "bit ?v 0 = is_fragment f" "bit ?v 1 = is_admin_record f" "bit ?v 2 = do_not_fragment f"
    "bit ?v 5 = app_ack_requested f" "bit ?v 6 = report_status_time f"
    "bit ?v 14 = receipt_report_requested f" "bit ?v 16 = forward_report_requested f"
    "bit ?v 17 = delivery_report_requested f" "bit ?v 18 = delete_report_requested f"
    using ok by (simp_all add: bundle_flags_into_def Let_def bundle_flags_ok_def)
  have u: "clear_if (delete_report_requested f) 18 (clear_if (delivery_report_requested f) 17
      (clear_if (forward_report_requested f) 16 (clear_if (receipt_report_requested f) 14
      (clear_if (report_status_time f) 6 (clear_if (app_ack_requested f) 5
      (clear_if (do_not_fragment f) 2 (clear_if (is_admin_record f) 1
      (clear_if (is_fragment f) 0 ?v)))))))) = or_zero (unrecognised f)"
  proof (rule bit_word_eqI)
    fix n
    show "bit (clear_if (delete_report_requested f) 18 (clear_if (delivery_report_requested f) 17
      (clear_if (forward_report_requested f) 16 (clear_if (receipt_report_requested f) 14
      (clear_if (report_status_time f) 6 (clear_if (app_ack_requested f) 5
      (clear_if (do_not_fragment f) 2 (clear_if (is_admin_record f) 1
      (clear_if (is_fragment f) 0 ?v))))))))) n = bit (or_zero (unrecognised f)) n"
      using ok by (simp add: bundle_flags_into_def Let_def bundle_flags_ok_def) (auto intro: gr0I)
  qed
  show ?thesis
    using ok u by (simp add: bundle_flags_from_def Let_def b some_nonzero_or_zero bundle_flags_ok_def
        del: One_nat_def)
qed

lemma bundle_flags_from_ok: "bundle_flags_ok (bundle_flags_from v)"
  by (simp add: bundle_flags_ok_def bundle_flags_from_def Let_def) (simp add: some_nonzero_def)

lemma block_flags_into_from: "block_flags_into (block_flags_from v) = v"
proof (rule bit_word_eqI)
  fix n
  show "bit (block_flags_into (block_flags_from v)) n = bit v n"
    by (simp add: block_flags_into_def block_flags_from_def Let_def) (auto intro: gr0I)
qed

lemma block_flags_from_into: "block_flags_ok f \<Longrightarrow> block_flags_from (block_flags_into f) = f"
proof -
  assume ok: "block_flags_ok f"
  let ?v = "block_flags_into f"
  have b: "bit ?v 0 = must_replicate f" "bit ?v 1 = report_on_failure f"
    "bit ?v 2 = delete_bundle_on_failure f" "bit ?v 4 = delete_block_on_failure f"
    using ok by (simp_all add: block_flags_into_def Let_def block_flags_ok_def)
  have u: "clear_if (delete_block_on_failure f) 4 (clear_if (delete_bundle_on_failure f) 2
      (clear_if (report_on_failure f) 1 (clear_if (must_replicate f) 0 ?v))) = or_zero (blk_unrecognised f)"
  proof (rule bit_word_eqI)
    fix n
    show "bit (clear_if (delete_block_on_failure f) 4 (clear_if (delete_bundle_on_failure f) 2
      (clear_if (report_on_failure f) 1 (clear_if (must_replicate f) 0 ?v)))) n =
      bit (or_zero (blk_unrecognised f)) n"
      using ok by (simp add: block_flags_into_def Let_def block_flags_ok_def) (auto intro: gr0I)
  qed
  show ?thesis
    using ok u by (simp add: block_flags_from_def Let_def b some_nonzero_or_zero block_flags_ok_def
        del: One_nat_def)
qed

lemma block_flags_from_ok: "block_flags_ok (block_flags_from v)"
  by (simp add: block_flags_ok_def block_flags_from_def Let_def) (simp add: some_nonzero_def)

text \<open>An unrecognised code must not alias a known one, or decoding names it.\<close>

definition block_type_ok :: "block_type \<Rightarrow> bool" where
  "block_type_ok t \<longleftrightarrow> canonicalize t = t"

definition crc_type_ok :: "CrcType \<Rightarrow> bool" where
  "crc_type_ok t \<longleftrightarrow> crc_type_from (crc_type_into t) = t"

lemma block_type_into_from [simp]: "block_type_into (block_type_from v) = v"
  by (simp add: block_type_into_def block_type_from_def)

lemma crc_type_into_from [simp]: "crc_type_into (crc_type_from v) = v"
  by (simp add: crc_type_into_def crc_type_from_def)

lemma canonicalize_idem: "canonicalize (canonicalize t) = canonicalize t"
  by (simp add: canonicalize_def)

interpretation bundle_flags_codec: u64_newtype bundle_flags_to_cbor "bundle_flags_from_cbor F" bp_of_cbor
  NotCanonical F bundle_flags_from bundle_flags_into bundle_flags_ok for F
  by unfold_locales (simp_all add: bundle_flags_to_cbor_def bundle_flags_from_cbor_def
      bundle_flags_from_into bundle_flags_into_from bundle_flags_from_ok)

interpretation block_flags_codec: u64_newtype block_flags_to_cbor "block_flags_from_cbor F" bp_of_cbor
  NotCanonical F block_flags_from block_flags_into block_flags_ok for F
  by unfold_locales (simp_all add: block_flags_to_cbor_def block_flags_from_cbor_def
      block_flags_from_into block_flags_into_from block_flags_from_ok)

interpretation block_type_codec: u64_newtype block_type_to_cbor "block_type_from_cbor F" bp_of_cbor
  NotCanonical F block_type_from block_type_into block_type_ok for F
  by unfold_locales (simp_all add: block_type_to_cbor_def block_type_from_cbor_def block_type_ok_def
      canonicalize_def)

interpretation crc_type_codec: u64_newtype crc_type_to_cbor "crc_type_from_cbor F" bp_of_cbor
  NotCanonical F crc_type_from crc_type_into crc_type_ok for F
  by unfold_locales (simp_all add: crc_type_to_cbor_def crc_type_from_cbor_def crc_type_ok_def)

end
