(* ===== verification/Bpv7_Block.thy ===== *)
theory Bpv7_Block
  imports Bpv7_Flags
begin

text \<open>
  Block-level integrity and framing: the digests of \<^verbatim>\<open>crc.rs\<close> and the extension block of
  \<^verbatim>\<open>block.rs\<close>. The checksum functions of the \<^verbatim>\<open>crc\<close> crate are arguments (\<open>crc_ops\<close>):
  a digest is the bytes pushed so far, since an incremental checksum is that of the
  concatenation of its updates.
\<close>

section \<open>CRC digests\<close>

record crc_ops =
  crc_x25 :: "bytes \<Rightarrow> u16"
  crc_castagnoli :: "bytes \<Rightarrow> u32"

datatype digest = Crc16 bytes | Crc32 bytes

definition digest_new :: "CrcType \<Rightarrow> crc_error + digest" where
  "digest_new t =
    (case t of
       CRC16_X25 \<Rightarrow> Inr (Crc16 [])
     | CRC32_CASTAGNOLI \<Rightarrow> Inr (Crc32 [])
     | NoCrc \<Rightarrow> Inl UnexpectedCrcValue
     | UnrecognisedCrc t \<Rightarrow> Inl (InvalidType t))"

fun digest_cbor_head :: "digest \<Rightarrow> u8" where
  "digest_cbor_head (Crc16 _) = 0x42"
| "digest_cbor_head (Crc32 _) = 0x44"

fun digest_push :: "bytes \<Rightarrow> digest \<Rightarrow> digest" where
  "digest_push bs (Crc16 d) = Crc16 (d @ bs)"
| "digest_push bs (Crc32 d) = Crc32 (d @ bs)"

fun digest_push_zeros :: "digest \<Rightarrow> nat \<times> digest" where
  "digest_push_zeros (Crc16 d) = (2, digest_push (replicate 2 0) (Crc16 d))"
| "digest_push_zeros (Crc32 d) = (4, digest_push (replicate 4 0) (Crc32 d))"

fun digest_finalize :: "crc_ops \<Rightarrow> digest \<Rightarrow> bytes" where
  "digest_finalize C (Crc16 d) = to_be_bytes (crc_x25 C d)"
| "digest_finalize C (Crc32 d) = to_be_bytes (crc_castagnoli C d)"

fun digest_verify :: "crc_ops \<Rightarrow> digest \<Rightarrow> bytes \<Rightarrow> bool" where
  "digest_verify C (Crc16 d) expected = (expected = to_be_bytes (crc_x25 C d))"
| "digest_verify C (Crc32 d) expected = (expected = to_be_bytes (crc_castagnoli C d))"

definition append_crc_value :: "crc_ops \<Rightarrow> CrcType \<Rightarrow> bytes \<Rightarrow> crc_error + bytes" where
  "append_crc_value C t d =
    (if t = NoCrc then Inr d
     else and_then (digest_new t) (\<lambda>digest.
       let d = d @ [digest_cbor_head digest];
           digest = digest_push d digest;
           digest = snd (digest_push_zeros digest)
       in Inr (d @ digest_finalize C digest)))"

section \<open>Blocks\<close>

datatype BibCoverage = BibNone | BibSome u64 | BibMaybe

record block =
  blk_type :: block_type
  blk_flags :: block_flags
  blk_crc_type :: CrcType
  blk_bib :: BibCoverage
  blk_bcb :: "u64 option"
  blk_extent :: "u64 \<times> u64"
  blk_data :: "u64 \<times> u64"

definition block_default :: block where
  "block_default =
    \<lparr>blk_type = Payload, blk_flags = block_flags_default, blk_crc_type = NoCrc, blk_bib = BibNone,
     blk_bcb = None, blk_extent = (0, 0), blk_data = (0, 0)\<rparr>"

definition payload_range :: "block \<Rightarrow> u64 \<times> u64" where
  "payload_range b = (fst (blk_extent b) + fst (blk_data b), fst (blk_extent b) + snd (blk_data b))"

definition block_payload :: "block \<Rightarrow> bytes \<Rightarrow> bytes option" where
  "block_payload b source =
    (case (usize_try_from (fst (payload_range b)), usize_try_from (snd (payload_range b))) of
       (Some start, Some e) \<Rightarrow>
         if start \<le> e \<and> e \<le> length source then Some (slice source (start, e)) else None
     | _ \<Rightarrow> None)"

text \<open>\<^verbatim>\<open>Block::extract\<close>: no plaintext in place when a BCB covers the block or its bytes are not
  resident; otherwise exactly one item.\<close>

definition block_extract ::
  "(cbor_error \<Rightarrow> 'e) \<Rightarrow> ('e \<Rightarrow> bp_error) \<Rightarrow> ('e, 'a) from_cbor \<Rightarrow> block \<Rightarrow> bytes \<Rightarrow> bp_error + 'a option" where
  "block_extract conv into fc b source =
    (if blk_bcb b \<noteq> None then Inr None
     else (case block_payload b source of
             None \<Rightarrow> Inr None
           | Some p \<Rightarrow> and_then (map_err into (parse_exact conv fc p)) (\<lambda>v. Inr (Some v))))"

text \<open>\<^verbatim>\<open>Sequence::emit\<close> of a value whose encoding returns its range.\<close>

definition sequence_emit_ranged ::
  "(encoder \<Rightarrow> (nat \<times> nat) \<times> encoder) \<Rightarrow> sequence \<Rightarrow> ((nat \<times> nat) \<times> sequence) option" where
  "sequence_emit_ranged em s =
    (case next_field s of
       None \<Rightarrow> None
     | Some s' \<Rightarrow> (case em (seq_encoder s') of (r, e') \<Rightarrow> Some (r, s'\<lparr>seq_encoder := e'\<rparr>)))"

definition range_u64 :: "nat \<times> nat \<Rightarrow> u64 \<times> u64" where
  "range_u64 r = (of_nat (fst r), of_nat (snd r))"

text \<open>The closure of \<^verbatim>\<open>Block::emit\<close>: it writes the fields and records where the data went.\<close>

definition block_fields ::
  "block \<Rightarrow> u64 \<Rightarrow> bytes \<Rightarrow> sequence \<Rightarrow> (block \<times> sequence) option" where
  "block_fields b block_number d a =
    Option.bind (emit_fields [block_type_to_cbor (blk_type b), uint_to_cbor block_number,
        block_flags_to_cbor (blk_flags b), crc_type_to_cbor (blk_crc_type b)] a) (\<lambda>a.
      Option.bind (sequence_emit_ranged (emit_bytes d) a) (\<lambda>(data_range, a).
        let b = b\<lparr>blk_data := range_u64 data_range\<rparr>
        in if blk_crc_type b \<noteq> NoCrc
           then map_option (\<lambda>a. (b, a)) (sequence_skip_value a)
           else Some (b, a)))"

text \<open>\<^verbatim>\<open>Block::emit\<close>; \<open>None\<close> is a panic of the encoder.\<close>

definition block_emit ::
  "crc_ops \<Rightarrow> block \<Rightarrow> u64 \<Rightarrow> bytes \<Rightarrow> sequence \<Rightarrow> (bp_error + (block \<times> sequence)) option" where
  "block_emit C b block_number d array =
    Option.bind (block_fields b block_number d
        (sequence_new 1 encoder_new (Some (if blk_crc_type b = NoCrc then 5 else 6)))) (\<lambda>(b', a).
      Option.bind (map_option encoder_build (sequence_end a)) (\<lambda>body.
        case append_crc_value C (blk_crc_type b) body of
          Inl e \<Rightarrow> Some (Inl (InvalidCrc e))
        | Inr bs \<Rightarrow>
            Option.bind (sequence_emit_ranged (emit_raw bs) array) (\<lambda>(ext, array).
              Some (Inr (b'\<lparr>blk_extent := range_u64 ext\<rparr>, array)))))"

section \<open>Digest laws\<close>

lemma crc_width:
  "digest_new t = Inr dg \<Longrightarrow> fst (digest_push_zeros dg) = length (digest_finalize C dg)"
  by (cases t) (auto simp: digest_new_def)

lemma digest_verify_iff: "digest_verify C dg expected \<longleftrightarrow> expected = digest_finalize C dg"
  by (cases dg) auto

lemma digest_push_push [simp]: "digest_push b (digest_push a dg) = digest_push (a @ b) dg"
  by (cases dg) auto

lemma digest_push_Nil [simp]: "digest_push [] dg = dg"
  by (cases dg) auto

text \<open>The bytes that \<open>append_crc_value\<close> adds: a byte string head and the checksum of
  everything before it with the value zeroed.\<close>

definition crc_value :: "crc_ops \<Rightarrow> CrcType \<Rightarrow> bytes \<Rightarrow> bytes" where
  "crc_value C t d =
    (case t of
       CRC16_X25 \<Rightarrow> to_be_bytes (crc_x25 C (d @ [0x42] @ replicate 2 0))
     | CRC32_CASTAGNOLI \<Rightarrow> to_be_bytes (crc_castagnoli C (d @ [0x44] @ replicate 4 0))
     | _ \<Rightarrow> [])"

definition crc_field :: "crc_ops \<Rightarrow> CrcType \<Rightarrow> bytes \<Rightarrow> bytes" where
  "crc_field C t d = head_bytes 2 (of_nat (length (crc_value C t d))) @ crc_value C t d"

lemma append_crc_value_eq:
  "append_crc_value C t d =
    (case t of NoCrc \<Rightarrow> Inr d | UnrecognisedCrc c \<Rightarrow> Inl (InvalidType c) | _ \<Rightarrow> Inr (d @ crc_field C t d))"
  by (cases t)
    (simp_all add: append_crc_value_def digest_new_def crc_field_def crc_value_def Let_def
      head_bytes_cases)

lemma length_crc_value: "length (crc_value C t d) = (case t of CRC16_X25 \<Rightarrow> 2 | CRC32_CASTAGNOLI \<Rightarrow> 4 | _ \<Rightarrow> 0)"
  by (simp add: crc_value_def split: CrcType.splits)

section \<open>Emitting a block\<close>

definition block_head_fields :: "block \<Rightarrow> u64 \<Rightarrow> bytes list" where
  "block_head_fields b block_number =
    [head_bytes 0 (block_type_into (blk_type b)), head_bytes 0 block_number,
     head_bytes 0 (block_flags_into (blk_flags b)), head_bytes 0 (crc_type_into (blk_crc_type b))]"

definition block_prefix :: "block \<Rightarrow> u64 \<Rightarrow> bytes \<Rightarrow> bytes" where
  "block_prefix b block_number d =
    head_bytes 4 (if blk_crc_type b = NoCrc then 5 else 6) @ concat (block_head_fields b block_number) @
    head_bytes 2 (of_nat (length d))"

definition block_bytes :: "crc_ops \<Rightarrow> block \<Rightarrow> u64 \<Rightarrow> bytes \<Rightarrow> bytes" where
  "block_bytes C b block_number d =
    (let body = block_prefix b block_number d @ d
     in if blk_crc_type b = NoCrc then body else body @ crc_field C (blk_crc_type b) body)"

lemma block_head_writes:
  "list_all2 writes [block_type_to_cbor (blk_type b), uint_to_cbor block_number,
      block_flags_to_cbor (blk_flags b), crc_type_to_cbor (blk_crc_type b)] (block_head_fields b block_number)"
  using writes_uint [of block_number] writes_uint [of "block_type_into (blk_type b)"]
    writes_uint [of "block_flags_into (blk_flags b)"] writes_uint [of "crc_type_into (blk_crc_type b)"]
  by (simp add: block_head_fields_def block_type_to_cbor_def block_flags_to_cbor_def crc_type_to_cbor_def)

lemma sequence_emit_bytes:
  "sequence_emit_ranged (emit_bytes d) s =
    (case next_field s of
       None \<Rightarrow> None
     | Some s' \<Rightarrow>
         let h = head_bytes 2 (of_nat (length d)); off = encoder_offset (seq_encoder s') + length h
         in Some ((off, off + length d), s'\<lparr>seq_encoder := push_all (h @ d) (seq_encoder s')\<rparr>))"
  by (simp add: sequence_emit_ranged_def emit_bytes_def emit_extend_eq emit_uint_minor_eq Let_def
      split: option.split)

lemma block_fields_eq:
  assumes "c = (if blk_crc_type b = NoCrc then 5 else 6)"
  shows "\<exists>a. block_fields b block_number d (sequence_new 1 encoder_new (Some c)) =
      Some (b\<lparr>blk_data := range_u64 (length (block_prefix b block_number d), length (block_prefix b block_number d @ d))\<rparr>, a) \<and>
    sequence_end a = Some (push_all (block_prefix b block_number d @ d) encoder_new)"
proof -
  let ?h = "concat (block_head_fields b block_number)" and ?hd = "head_bytes 4 (of_nat c)"
  let ?s = "sequence_new 1 encoder_new (Some c)"
  have s: "?s = \<lparr>seq_encoder = push_all ?hd encoder_new, seq_start = 0, seq_count = Some c, seq_idx = 0\<rparr>"
    using assms by (simp add: sequence_new_def Let_def emit_uint_minor_eq encoder_offset_def)
  have c: "4 \<le> c" using assms by simp
  have 1: "emit_fields [block_type_to_cbor (blk_type b), uint_to_cbor block_number,
      block_flags_to_cbor (blk_flags b), crc_type_to_cbor (blk_crc_type b)]
      \<lparr>seq_encoder = push_all ?hd encoder_new, seq_start = 0, seq_count = Some c, seq_idx = 0\<rparr> =
      Some \<lparr>seq_encoder = push_all (?hd @ ?h) encoder_new, seq_start = 0, seq_count = Some c, seq_idx = 4\<rparr>"
    unfolding emit_fields_writes [OF block_head_writes] using c by simp
  have p: "block_prefix b block_number d = ?hd @ ?h @ head_bytes 2 (of_nat (length d))"
    using assms by (simp add: block_prefix_def)
  show ?thesis
    unfolding block_fields_def s 1 p using assms
    by (simp add: sequence_emit_bytes next_field_def sequence_skip_value_def sequence_end_def Let_def
        encoder_offset_def add.assoc)
qed

lemma block_emit_eq:
  assumes "\<forall>c. blk_crc_type b \<noteq> UnrecognisedCrc c" and "next_field array = Some array'"
  shows "block_emit C b block_number d array =
    Some (Inr (b\<lparr>blk_data := range_u64 (length (block_prefix b block_number d), length (block_prefix b block_number d @ d)),
                 blk_extent := range_u64 (encoder_offset (seq_encoder array'),
                   encoder_offset (seq_encoder array') + length (block_bytes C b block_number d))\<rparr>,
               array'\<lparr>seq_encoder := push_all (block_bytes C b block_number d) (seq_encoder array')\<rparr>))"
proof -
  let ?body = "block_prefix b block_number d @ d"
  obtain a where a: "block_fields b block_number d
        (sequence_new 1 encoder_new (Some (if blk_crc_type b = NoCrc then 5 else 6))) =
      Some (b\<lparr>blk_data := range_u64 (length (block_prefix b block_number d), length ?body)\<rparr>, a)"
    "sequence_end a = Some (push_all ?body encoder_new)"
    using block_fields_eq [OF refl] by blast
  have "append_crc_value C (blk_crc_type b) ?body = Inr (block_bytes C b block_number d)"
    using assms(1) by (cases "blk_crc_type b") (auto simp: append_crc_value_eq block_bytes_def)
  with a assms(2) show ?thesis
    by (simp add: block_emit_def encoder_build_def sequence_emit_ranged_def emit_raw_eq)
qed

lemma block_bytes_split: "\<exists>r. block_bytes C b block_number d = block_prefix b block_number d @ d @ r"
  by (simp add: block_bytes_def Let_def)

lemma block_payload_at:
  assumes "fst (blk_extent b) = of_nat (length pre)" and "blk_data b = range_u64 (length h, length (h @ d))"
    and "length (pre @ h @ d) \<le> usize_max"
  shows "block_payload b (pre @ h @ d @ r) = Some d"
proof -
  have "unat (fst (payload_range b)) = length pre + length h"
    "unat (snd (payload_range b)) = length pre + (length h + length d)"
    using assms by (simp_all add: payload_range_def range_u64_def unat_of_nat_length flip: of_nat_add)
  then show ?thesis by (simp add: block_payload_def slice_def)
qed

lemma block_emit_payload:
  assumes "\<forall>c. blk_crc_type b \<noteq> UnrecognisedCrc c" and "next_field array = Some array1"
    and "length (enc_data (seq_encoder array1) @ block_bytes C b block_number d) \<le> usize_max"
  shows "\<exists>b' array'. block_emit C b block_number d array = Some (Inr (b', array')) \<and>
    enc_data (seq_encoder array') = enc_data (seq_encoder array1) @ block_bytes C b block_number d \<and>
    block_payload b' (enc_data (seq_encoder array') @ r) = Some d"
proof -
  obtain q where q: "block_bytes C b block_number d = block_prefix b block_number d @ d @ q"
    using block_bytes_split by blast
  have "block_payload (b\<lparr>blk_data := range_u64 (length (block_prefix b block_number d), length (block_prefix b block_number d @ d)),
      blk_extent := range_u64 (encoder_offset (seq_encoder array1),
        encoder_offset (seq_encoder array1) + length (block_bytes C b block_number d))\<rparr>)
      (enc_data (seq_encoder array1) @ block_prefix b block_number d @ d @ (q @ r)) = Some d"
    using assms(3) q by (intro block_payload_at) (simp_all add: range_u64_def encoder_offset_def)
  then show ?thesis
    unfolding block_emit_eq [OF assms(1,2)] by (simp add: q)
qed

end
