(* ===== verification/Bpv7_Eid.thy ===== *)
theory Bpv7_Eid
  imports Bpv7_Codec
begin

unbundle bit_operations_syntax

text \<open>
  Endpoint identifiers: \<^verbatim>\<open>eid/mod.rs\<close> and \<^verbatim>\<open>eid/parse.rs\<close>. A \<^verbatim>\<open>str\<close> is its
  UTF-8 bytes. The parser combinators of the \<^verbatim>\<open>winnow\<close> crate are written out as the
  alternatives and sequences they denote; its number parser and the functions of the
  \<^verbatim>\<open>percent-encoding\<close> crate are arguments (\<open>text_ops\<close>), with their documented behaviour
  in \<open>text_spec\<close>. The text of a parse error is not kept.
\<close>

section \<open>Identifiers\<close>

record IpnNodeId =
  allocator_id :: u32
  node_number :: u32

datatype NodeId = NodeLocal | NodeIpn IpnNodeId | NodeDtn bytes

datatype Service = ServiceIpn u32 | ServiceDtn bytes

datatype Eid = Null | LocalNode u32 | LegacyIpn IpnNodeId u32 | Ipn IpnNodeId u32
  | Dtn bytes bytes | Unknown u64 bytes

definition eid_of_ipn_node :: "IpnNodeId \<Rightarrow> Eid" where
  "eid_of_ipn_node n = Ipn n 0"

definition eid_of_dtn_node :: "bytes \<Rightarrow> Eid" where
  "eid_of_dtn_node n = Dtn n []"

definition node_id_try_from :: "Eid \<Rightarrow> eid_error + NodeId" where
  "node_id_try_from e =
    (case e of
       LocalNode s \<Rightarrow> if s = 0 then Inr NodeLocal else Inl InvalidNodeId
     | LegacyIpn n s \<Rightarrow> if s = 0 then Inr (NodeIpn n) else Inl InvalidNodeId
     | Ipn n s \<Rightarrow> if s = 0 then Inr (NodeIpn n) else Inl InvalidNodeId
     | Dtn n s \<Rightarrow> if s = [] then Inr (NodeDtn n) else Inl InvalidNodeId
     | _ \<Rightarrow> Inl InvalidNodeId)"

definition is_null :: "Eid \<Rightarrow> bool" where
  "is_null e = (e = Null)"

definition eid_service :: "Eid \<Rightarrow> Service option" where
  "eid_service e =
    (case e of
       LocalNode s \<Rightarrow> if s \<noteq> 0 then Some (ServiceIpn s) else None
     | LegacyIpn _ s \<Rightarrow> if s \<noteq> 0 then Some (ServiceIpn s) else None
     | Ipn _ s \<Rightarrow> if s \<noteq> 0 then Some (ServiceIpn s) else None
     | Dtn _ s \<Rightarrow> if s \<noteq> [] then Some (ServiceDtn s) else None
     | _ \<Rightarrow> None)"

definition is_admin_endpoint :: "Eid \<Rightarrow> bool" where
  "is_admin_endpoint e =
    (case e of
       LocalNode s \<Rightarrow> s = 0
     | LegacyIpn _ s \<Rightarrow> s = 0
     | Ipn _ s \<Rightarrow> s = 0
     | Dtn _ s \<Rightarrow> s = []
     | _ \<Rightarrow> False)"

text \<open>\<^verbatim>\<open>to_node_id\<close>, and \<^verbatim>\<open>try_to_node_id\<close> which only differs in taking ownership.\<close>

definition to_node_id :: "Eid \<Rightarrow> eid_error + NodeId" where
  "to_node_id e =
    (case e of
       LocalNode _ \<Rightarrow> Inr NodeLocal
     | LegacyIpn n _ \<Rightarrow> Inr (NodeIpn n)
     | Ipn n _ \<Rightarrow> Inr (NodeIpn n)
     | Dtn n _ \<Rightarrow> Inr (NodeDtn n)
     | _ \<Rightarrow> Inl InvalidNodeId)"

definition try_to_node_id :: "Eid \<Rightarrow> eid_error + NodeId" where
  "try_to_node_id e = to_node_id e"

definition eid_of_node :: "NodeId \<Rightarrow> Eid" where
  "eid_of_node n =
    (case n of NodeLocal \<Rightarrow> LocalNode 0 | NodeIpn i \<Rightarrow> eid_of_ipn_node i | NodeDtn d \<Rightarrow> eid_of_dtn_node d)"

definition eid_try_from :: "NodeId \<times> Service \<Rightarrow> eid_error + Eid" where
  "eid_try_from x =
    (case x of
       (NodeLocal, ServiceIpn s) \<Rightarrow> Inr (LocalNode s)
     | (NodeIpn n, ServiceIpn s) \<Rightarrow> Inr (Ipn n s)
     | (NodeDtn n, ServiceDtn s) \<Rightarrow> Inr (Dtn n s)
     | _ \<Rightarrow> Inl MismatchedService)"

definition unknown_ssp_new :: "float_ops \<Rightarrow> bytes \<Rightarrow> eid_error + bytes" where
  "unknown_ssp_new F d =
    and_then (map_err EidInvalidCBOR (skip_value F d 16)) (\<lambda>(_, len).
      if len \<noteq> length d then Inl InvalidSsp else Inr d)"

section \<open>Text\<close>

definition ascii :: "string \<Rightarrow> bytes" where
  "ascii s = map of_char s"

record text_ops =
  tx_dec_uint :: "bytes \<Rightarrow> (u32 \<times> bytes) option"
  tx_percent_encode :: "bytes \<Rightarrow> bytes"
  tx_percent_decode_utf8 :: "bytes \<Rightarrow> bytes option"

function dec_string :: "nat \<Rightarrow> bytes" where
  "dec_string n = (if n < 10 then [of_nat (48 + n)] else dec_string (n div 10) @ [of_nat (48 + n mod 10)])"
  by pat_completeness auto
termination by (relation "measure id") auto

declare dec_string.simps [simp del]

definition strip_prefix :: "bytes \<Rightarrow> bytes \<Rightarrow> bytes option" where
  "strip_prefix p s = (if take (length p) s = p then Some (drop (length p) s) else None)"

definition ipn_of_parts :: "u32 \<Rightarrow> u32 \<Rightarrow> u32 option \<Rightarrow> Eid option" where
  "ipn_of_parts a b c =
    (if a = 0 \<and> b = 0 \<and> (c = Some 0 \<or> c = None) then Some Null
     else if (a = 0 \<and> b = 0 \<and> c \<noteq> None) \<or> (a = 0 \<and> c = None) then None
     else (case c of
             Some s \<Rightarrow>
               if a = 0 \<and> b = 0xFFFFFFFF then Some (LocalNode s)
               else Some (Ipn \<lparr>allocator_id = a, node_number = b\<rparr> s)
           | None \<Rightarrow>
               if a = 0xFFFFFFFF then Some (LocalNode b)
               else Some (Ipn \<lparr>allocator_id = 0, node_number = a\<rparr> b)))"

definition parse_ipn_parts :: "text_ops \<Rightarrow> bytes \<Rightarrow> (Eid \<times> bytes) option" where
  "parse_ipn_parts X input =
    Option.bind (tx_dec_uint X input) (\<lambda>(a, r).
    Option.bind (strip_prefix (ascii ''.'') r) (\<lambda>r.
    Option.bind (tx_dec_uint X r) (\<lambda>(b, r).
      let (c, r) = (case Option.bind (strip_prefix (ascii ''.'') r) (tx_dec_uint X) of
                      Some (c, r') \<Rightarrow> (Some c, r')
                    | None \<Rightarrow> (None, r))
      in map_option (\<lambda>e. (e, r)) (ipn_of_parts a b c))))"

definition parse_local_node :: "text_ops \<Rightarrow> bytes \<Rightarrow> (Eid \<times> bytes) option" where
  "parse_local_node X input =
    Option.bind (strip_prefix (ascii ''!.'') input) (\<lambda>r.
      map_option (\<lambda>(s, r). (LocalNode s, r)) (tx_dec_uint X r))"

definition parse_ipn :: "text_ops \<Rightarrow> bytes \<Rightarrow> (Eid \<times> bytes) option" where
  "parse_ipn X input =
    (case parse_local_node X input of Some x \<Rightarrow> Some x | None \<Rightarrow> parse_ipn_parts X input)"

definition regname_char :: "byte \<Rightarrow> bool" where
  "regname_char c \<longleftrightarrow>
    (48 \<le> c \<and> c \<le> 57) \<or> (65 \<le> c \<and> c \<le> 90) \<or> (97 \<le> c \<and> c \<le> 122) \<or>
    c \<in> set (ascii ''-._~!$&'()*+,;=%'')"

definition parse_regname :: "text_ops \<Rightarrow> bytes \<Rightarrow> (bytes \<times> bytes) option" where
  "parse_regname X input =
    map_option (\<lambda>n. (n, dropWhile regname_char input))
      (tx_percent_decode_utf8 X (takeWhile regname_char input))"

definition service_char :: "byte \<Rightarrow> bool" where
  "service_char c \<longleftrightarrow> 0x21 \<le> c \<and> c \<le> 0x7e"

definition parse_dtn_service_name :: "bytes \<Rightarrow> (bytes \<times> bytes) option" where
  "parse_dtn_service_name input = Some (takeWhile service_char input, dropWhile service_char input)"

definition is_valid_service_name :: "bytes \<Rightarrow> bool" where
  "is_valid_service_name s = (parse_dtn_service_name s \<noteq> None)"

definition parse_dtn_parts :: "text_ops \<Rightarrow> bytes \<Rightarrow> (Eid \<times> bytes) option" where
  "parse_dtn_parts X input =
    Option.bind (parse_regname X input) (\<lambda>(node_name, r).
    Option.bind (strip_prefix (ascii ''/'') r) (\<lambda>r.
      map_option (\<lambda>(service_name, r). (Dtn node_name service_name, r)) (parse_dtn_service_name r)))"

definition parse_dtn :: "text_ops \<Rightarrow> bytes \<Rightarrow> (Eid \<times> bytes) option" where
  "parse_dtn X input =
    (case strip_prefix (ascii ''none'') input of
       Some r \<Rightarrow> Some (Null, r)
     | None \<Rightarrow> Option.bind (strip_prefix (ascii ''//'') input) (parse_dtn_parts X))"

definition parse_eid :: "text_ops \<Rightarrow> bytes \<Rightarrow> (Eid \<times> bytes) option" where
  "parse_eid X input =
    (case Option.bind (strip_prefix (ascii ''dtn:'') input) (parse_dtn X) of
       Some x \<Rightarrow> Some x
     | None \<Rightarrow> Option.bind (strip_prefix (ascii ''ipn:'') input) (parse_ipn X))"

text \<open>\<^verbatim>\<open>Parser::parse\<close>: the whole input has to be consumed.\<close>

definition parse_all :: "(bytes \<Rightarrow> (Eid \<times> bytes) option) \<Rightarrow> bytes \<Rightarrow> eid_error + Eid" where
  "parse_all p s = (case p s of Some (e, []) \<Rightarrow> Inr e | _ \<Rightarrow> Inl EidParseError)"

definition eid_from_str :: "text_ops \<Rightarrow> bytes \<Rightarrow> eid_error + Eid" where
  "eid_from_str X s = parse_all (parse_eid X) s"

definition node_id_from_str :: "text_ops \<Rightarrow> bytes \<Rightarrow> eid_error + NodeId" where
  "node_id_from_str X s = and_then (eid_from_str X s) node_id_try_from"

text \<open>\<^verbatim>\<open>Display\<close>; an unknown scheme prints its SSP in the decoder's debug form, which is an
  argument.\<close>

definition eid_display :: "text_ops \<Rightarrow> (u64 \<Rightarrow> bytes \<Rightarrow> bytes) \<Rightarrow> Eid \<Rightarrow> bytes" where
  "eid_display X debug e =
    (let ipn = (\<lambda>n s. if allocator_id n = 0
                     then ascii ''ipn:'' @ dec_string (unat (node_number n)) @ ascii ''.'' @ dec_string (unat s)
                     else ascii ''ipn:'' @ dec_string (unat (allocator_id n)) @ ascii ''.'' @
                          dec_string (unat (node_number n)) @ ascii ''.'' @ dec_string (unat (s :: u32)))
     in case e of
          Null \<Rightarrow> ascii ''dtn:none''
        | LocalNode s \<Rightarrow> ascii ''ipn:!.'' @ dec_string (unat s)
        | LegacyIpn n s \<Rightarrow> ipn n s
        | Ipn n s \<Rightarrow> ipn n s
        | Dtn n s \<Rightarrow> ascii ''dtn://'' @ tx_percent_encode X n @ ascii ''/'' @ s
        | Unknown scheme ssp \<Rightarrow> debug scheme ssp)"

definition node_id_display :: "NodeId \<Rightarrow> bytes" where
  "node_id_display n =
    (case n of
       NodeLocal \<Rightarrow> ascii ''ipn:!.0''
     | NodeIpn i \<Rightarrow>
         if allocator_id i = 0 then ascii ''ipn:'' @ dec_string (unat (node_number i)) @ ascii ''.0''
         else ascii ''ipn:'' @ dec_string (unat (allocator_id i)) @ ascii ''.'' @
              dec_string (unat (node_number i)) @ ascii ''.0''
     | NodeDtn d \<Rightarrow> ascii ''dtn://'' @ d @ ascii ''/'')"

section \<open>CBOR\<close>

definition dtn_text :: "text_ops \<Rightarrow> bytes \<Rightarrow> bytes \<Rightarrow> bytes" where
  "dtn_text X n s = ascii ''//'' @ tx_percent_encode X n @ ascii ''/'' @ s"

text \<open>Integer literals are \<^verbatim>\<open>i32\<close>s.\<close>

definition eid_to_cbor :: "text_ops \<Rightarrow> Eid \<Rightarrow> emitter" where
  "eid_to_cbor X e =
    (case e of
       LocalNode s \<Rightarrow>
         tuple_to_cbor [int_to_cbor (2 :: 32 word),
           tuple_to_cbor [uint_to_cbor (0xFFFFFFFF :: u32), uint_to_cbor s]]
     | Null \<Rightarrow> tuple_to_cbor [int_to_cbor (1 :: 32 word), int_to_cbor (0 :: 32 word)]
     | Dtn n s \<Rightarrow> tuple_to_cbor [int_to_cbor (1 :: 32 word), string_to_cbor (dtn_text X n s)]
     | LegacyIpn n s \<Rightarrow>
         tuple_to_cbor [int_to_cbor (2 :: 32 word),
           tuple_to_cbor [uint_to_cbor (push_bit 32 (ucast (allocator_id n) :: u64) OR ucast (node_number n)),
             uint_to_cbor s]]
     | Ipn n s \<Rightarrow>
         tuple_to_cbor [int_to_cbor (2 :: 32 word),
           slice_to_cbor uint_to_cbor
             (if allocator_id n = 0 then [node_number n, s] else [allocator_id n, node_number n, s])]
     | Unknown scheme ssp \<Rightarrow> tuple_to_cbor [uint_to_cbor scheme, raw_to_cbor ssp])"

definition U32_MAX :: u64 where
  "U32_MAX = 0xFFFFFFFF"

text \<open>The ten arms of the match in \<^verbatim>\<open>ipn_from_cbor\<close>, in order.\<close>

definition ipn_match :: "u64 \<Rightarrow> u64 \<Rightarrow> u64 option \<Rightarrow> bool \<Rightarrow> eid_error + (Eid \<times> bool)" where
  "ipn_match a b c canonical =
    (if a = 0 \<and> b = 0 \<and> (c = Some 0 \<or> c = None) then Inr (Null, canonical)
     else if (a = 0 \<and> b = 0 \<and> c \<noteq> None) \<or> (a = 0 \<and> c = None) then Inr (Null, False)
     else if c \<noteq> None \<and> a > U32_MAX then Inl (IpnInvalidAllocatorId a)
     else if c \<noteq> None \<and> b > U32_MAX then Inl (IpnInvalidNodeNumber b)
     else (case c of
        Some s \<Rightarrow>
          if s > U32_MAX then Inl (IpnInvalidServiceNumber s)
          else if a = 0 \<and> b = U32_MAX then Inr (LocalNode (ucast s), canonical)
          else if a = 0 then Inr (Ipn \<lparr>allocator_id = 0, node_number = ucast b\<rparr> (ucast s), False)
          else Inr (Ipn \<lparr>allocator_id = ucast a, node_number = ucast b\<rparr> (ucast s), canonical)
      | None \<Rightarrow>
          if b > U32_MAX then Inl (IpnInvalidServiceNumber b)
          else if a = U32_MAX then Inr (LocalNode (ucast b), canonical)
          else if a \<le> U32_MAX then Inr (Ipn \<lparr>allocator_id = 0, node_number = ucast a\<rparr> (ucast b), canonical)
          else Inr (LegacyIpn \<lparr>allocator_id = ucast (drop_bit 32 a), node_number = ucast (a AND U32_MAX)\<rparr>
                     (ucast b), canonical)))"

definition ipn_from_cbor :: "float_ops \<Rightarrow> series \<Rightarrow> bool \<Rightarrow> eid_error + ((Eid \<times> bool) \<times> series)" where
  "ipn_from_cbor F s canonical =
    and_then (map_err eid_of_cbor (series_parse id 1 (with_shortest (untagged id (u64_from_cbor F))) s)) (\<lambda>((a, s1), s).
    if \<not> s1 then Inl EidNotCanonical else
    and_then (map_err eid_of_cbor (series_parse id 1 (with_shortest (untagged id (u64_from_cbor F))) s)) (\<lambda>((b, s2), s).
    if \<not> s2 then Inl EidNotCanonical else
    and_then (map_err eid_of_cbor (series_try_parse id 1 (with_shortest_len (untagged id (u64_from_cbor F))) s)) (\<lambda>(x, s).
    and_then (case x of
                Some (c, s3, _) \<Rightarrow> if \<not> s3 then Inl EidNotCanonical else Inr (Some c)
              | None \<Rightarrow> Inr None) (\<lambda>c.
    and_then (ipn_match a b c canonical) (\<lambda>r. Inr (r, s))))))"

text \<open>The label of a field error, with the scheme in quotes.\<close>

definition ssp_field :: "string \<Rightarrow> string" where
  "ssp_field scheme = [CHR 0x27] @ scheme @ [CHR 0x27] @ '' scheme-specific part''"

text \<open>The closures that read the scheme-specific part.\<close>

definition dtn_ssp :: "text_ops \<Rightarrow> bool \<Rightarrow> (eid_error, Eid \<times> bool) closure" where
  "dtn_ssp X canonical v s tags =
    (if tags \<noteq> [] then Inl EidNotCanonical
     else (case v of
       VUnsignedInteger n \<Rightarrow>
         if n = 0 then (if \<not> s then Inl EidNotCanonical else Inr ((Null, canonical), v))
         else Inl (eid_of_cbor (IncorrectType ''Untagged Text String or Unsigned Integer 0'' (value_item_type v tags)))
     | VText t \<Rightarrow>
         if \<not> s then Inl EidNotCanonical
         else if t = ascii ''none'' then Inr ((Null, False), v)
         else and_then (parse_all (parse_dtn X) t) (\<lambda>e. Inr ((e, canonical), v))
     | VTextStream parts \<Rightarrow>
         and_then (parse_all (parse_dtn X) (concat parts)) (\<lambda>e. Inr ((e, False), v))
     | _ \<Rightarrow> Inl (eid_of_cbor (IncorrectType ''Untagged Text String or Unsigned Integer 0'' (value_item_type v tags)))))"

definition ipn_ssp :: "float_ops \<Rightarrow> bool \<Rightarrow> (eid_error, Eid \<times> bool) closure" where
  "ipn_ssp F canonical v s tags =
    (case v of
       VArray arr \<Rightarrow>
         if \<not> s \<or> tags \<noteq> [] then Inl EidNotCanonical
         else and_then (ipn_from_cbor F arr (canonical \<and> is_definite arr)) (\<lambda>(r, arr). Inr (r, VArray arr))
     | _ \<Rightarrow> Inl (eid_of_cbor (IncorrectType ''Untagged Array'' (value_item_type v tags))))"

definition relabel_ipn :: "eid_error + 'a \<Rightarrow> eid_error + 'a" where
  "relabel_ipn r =
    (case r of
       Inl (EidInvalidCBOR e) \<Rightarrow> Inl (EidInvalidField (ssp_field ''ipn'') (eid_of_cbor e))
     | _ \<Rightarrow> r)"

definition eid_body ::
  "text_ops \<Rightarrow> float_ops \<Rightarrow> bytes \<Rightarrow> series \<Rightarrow> bool \<Rightarrow> u64 list \<Rightarrow> eid_error + ((Eid \<times> bool) \<times> series)" where
  "eid_body X F d a s tags =
    (if \<not> s \<or> tags \<noteq> [] then Inl EidNotCanonical
     else
       let canonical = is_definite a in
       and_then (map_field_err EidInvalidField eid_of_cbor ''EID scheme''
                   (series_parse id 1 (with_shortest (untagged id (u64_from_cbor F))) a)) (\<lambda>((scheme, s), a).
       if \<not> s then Inl (EidInvalidField ''EID scheme'' EidNotCanonical)
       else if scheme = 0 then Inl (UnsupportedScheme 0)
       else if scheme = 1 then
         map_field_err EidInvalidField id (ssp_field ''dtn'')
           (series_parse_value eid_of_cbor F 1 (dtn_ssp X canonical) a)
       else if scheme = 2 then
         relabel_ipn (series_parse_value eid_of_cbor F 1 (ipn_ssp F canonical) a)
       else
         and_then (map_err eid_of_cbor (series_skip_value F 1 a 16)) (\<lambda>(_, a').
         and_then (unknown_ssp_new F (slice d (sr_offset a, sr_offset a'))) (\<lambda>ssp.
           Inr ((Unknown scheme ssp, canonical), a')))))"

definition eid_from_cbor :: "text_ops \<Rightarrow> float_ops \<Rightarrow> (eid_error, Eid) from_cbor" where
  "eid_from_cbor X F d =
    and_then (parse_array eid_of_cbor F (eid_body X F d) d) (\<lambda>((v, s), len). Inr (v, s, len))"

end
