(* ===== verification/Cbor_Local.thy ===== *)
theory Cbor_Local
  imports Cbor_Impls
begin

text \<open>
  Decoding is local: what follows an item never changes how the item is skipped. A value that
  was cut out of a buffer by \<open>skip_value\<close> can therefore be validated on its own and
  spliced into another buffer.
\<close>

lemma head_from_cbor_append:
  assumes "head_from_cbor F d = Inr (h, s, n)" and "length (d @ r) \<le> usize_max"
  shows "head_from_cbor F (d @ r) = Inr (h, s, n)"
proof -
  have "head_ref F d = Inr (h, s, n)" using assms by (simp add: head_from_cbor_ref)
  from head_ref_local [OF this, of "drop n d @ r"] have "head_ref F (d @ r) = Inr (h, s, n)"
    by (simp flip: append_assoc)
  then show ?thesis using assms(2) by (simp add: head_from_cbor_ref)
qed

lemma offset_extent_local:
  "offset_extent d off l = Inr x \<Longrightarrow> offset_extent (d @ r) off l = Inr x"
  by (auto simp: offset_extent_def split: option.splits if_splits)

lemma skip_chunks_local:
  assumes "skip_chunks F b d sh off = Inr x" and "length (d @ r) \<le> usize_max" and "off \<le> length d"
  shows "skip_chunks F b (d @ r) sh off = Inr x"
  using assms
proof (induction F b d sh off rule: skip_chunks.induct)
  case (1 F b d sh off)
  show ?case
  proof (cases "off < length d \<and> d ! off = 0xFF")
    case True
    with 1(2) show ?thesis by (simp add: skip_chunks.simps [of F b d] skip_chunks.simps [of F b "d @ r"] nth_append)
  next
    case False
    note k = 1(2) [unfolded skip_chunks.simps [of F b d sh off] if_not_P [OF False]]
    from k obtain h s len where h: "head_from_cbor F (drop off d) = Inr (h, s, len)"
      by (auto simp: and_then_Inr)
    with k obtain o1 where o1: "checked_add off len = Some o1" by (cases "checked_add off len") auto
    with k h obtain l where l: "chunk_len b h = Some l" by (cases "chunk_len b h") auto
    with k h o1 obtain a e where e: "offset_extent d o1 l = Inr (a, e)"
      and rec: "skip_chunks F b d (sh \<and> s) e = Inr x"
      by (auto simp: and_then_Inr)
    have h': "head_from_cbor F (drop off (d @ r)) = Inr (h, s, len)"
      using head_from_cbor_append [OF h, of r] 1(3,4) by simp
    have nz: "off < length d" using head_from_cbor_len [OF h] by (simp, linarith)
    have "e \<le> length d" using offset_extent_bounds [OF e] by simp
    then have "skip_chunks F b (d @ r) (sh \<and> s) e = Inr x"
      using 1(1) [OF False h refl refl o1 l e refl rec 1(3)] by simp
    then show ?thesis
      using False nz h' o1 l offset_extent_local [OF e, of r]
      by (simp add: skip_chunks.simps [of F b "d @ r" sh] nth_append)
  qed
qed

text \<open>The same cursor over a longer buffer.\<close>

definition extend :: "bytes \<Rightarrow> series \<Rightarrow> series" where
  "extend r s = s\<lparr>sr_data := sr_data s @ r\<rparr>"

lemma at_end_local:
  assumes "at_end D s = Inr (e, s1)" and "0 < D" and "sr_offset s \<le> length (sr_data s)"
  shows "at_end D (extend r s) = Inr (e, extend r s1)"
  using assms
  by (auto simp: at_end_def extend_def nth_append split: option.splits if_splits)

lemma series_try_new_local:
  "series_try_new D d c off = Inr s \<Longrightarrow> series_try_new D (d @ r) c off = Inr (extend r s)"
  by (auto simp: series_try_new_def series_new_def extend_def split: option.splits)

lemma series_advance_extend: "series_advance n (extend r s) = extend r (series_advance n s)"
  by (simp add: series_advance_def extend_def)

lemma extend_sel [simp]:
  "sr_data (extend r s) = sr_data s @ r" "sr_offset (extend r s) = sr_offset s"
  by (simp_all add: extend_def)

lemma skip_local_aux:
  fixes r :: bytes
  shows
  "\<forall>sh n. skip_value F d k = Inr (sh, n) \<longrightarrow> length (d @ r) \<le> usize_max \<longrightarrow>
     skip_value F (d @ r) k = Inr (sh, n)"
  "\<forall>sh s'. series_skip_value F D s k = Inr (sh, s') \<longrightarrow> length (sr_data s @ r) \<le> usize_max \<longrightarrow>
     sr_offset s \<le> length (sr_data s) \<longrightarrow> 0 < D \<longrightarrow>
     series_skip_value F D (extend r s) k = Inr (sh, extend r s')"
  "\<forall>sh s'. skip_to_end F D s k = Inr (sh, s') \<longrightarrow> length (sr_data s @ r) \<le> usize_max \<longrightarrow>
     sr_offset s \<le> length (sr_data s) \<longrightarrow> 0 < D \<longrightarrow>
     skip_to_end F D (extend r s) k = Inr (sh, extend r s')"
proof (induction F d k and F D s k and F D s k rule: skip_value_series_skip_value_skip_to_end.induct)
  case (1 F d k)
  show ?case
  proof (intro allI impI)
    fix sh n
    assume K: "skip_value F d k = Inr (sh, n)" and L: "length (d @ r) \<le> usize_max"
    then obtain h s off where h: "head_from_cbor F d = Inr (h, s, off)"
      by (auto simp: skip_value.simps [of F d k] and_then_Inr)
    note h' = head_from_cbor_append [OF h L]
    from head_from_cbor_len [OF h] have off: "off \<le> length d" by auto
    note unf = skip_value.simps [of F d k] skip_value.simps [of F "d @ r" k]
    show "skip_value F (d @ r) k = Inr (sh, n)"
    proof (cases "\<exists>c. head_marker h = Array c \<or> head_marker h = Map c")
      case False
      with off K h h' L show ?thesis
        by (cases "head_marker h")
          (auto simp: unf and_then_Inr split: option.splits
            dest: offset_extent_local [where r = r] skip_chunks_local [where r = r])
    next
      case True
      then obtain c D where c: "head_marker h = Array c \<and> D = (1::nat) \<or> head_marker h = Map c \<and> D = 2"
        by blast
      with K h obtain a sh' s' where a: "k \<noteq> 0" "series_try_new D d c off = Inr a"
        "skip_to_end F D a (k - 1) = Inr (sh', s')" "n = sr_offset s'" "sh = (s \<and> sh')"
        by (elim disjE; simp add: unf and_then_Inr split: if_splits; blast)
      note f = series_try_new_fields [OF a(2)]
      then have "sr_offset a \<le> length (sr_data a)" "length (sr_data a @ r) \<le> usize_max" "0 < D"
        using off L c by auto
      moreover have IH: "\<forall>sh s'. skip_to_end F D a (k - 1) = Inr (sh, s') \<longrightarrow>
          length (sr_data a @ r) \<le> usize_max \<longrightarrow> sr_offset a \<le> length (sr_data a) \<longrightarrow> 0 < D \<longrightarrow>
          skip_to_end F D (extend r a) (k - 1) = Inr (sh, extend r s')"
        using c
      proof
        assume "head_marker h = Array c \<and> D = 1"
        with 1(1) [OF h refl refl _ a(1), of c a] a(2) show ?thesis by simp
      next
        assume "head_marker h = Map c \<and> D = 2"
        with 1(2) [OF h refl refl _ a(1), of c a] a(2) show ?thesis by simp
      qed
      ultimately have "skip_to_end F D (extend r a) (k - 1) = Inr (sh', extend r s')"
        using a(3) by blast
      with c a h' series_try_new_local [OF a(2), of r] show ?thesis
        by (elim disjE) (simp_all add: unf)
    qed
  qed
next
  case (2 F D s k)
  show ?case
  proof (intro allI impI)
    fix sh s'
    assume K: "series_skip_value F D s k = Inr (sh, s')" and L: "length (sr_data s @ r) \<le> usize_max"
      and le: "sr_offset s \<le> length (sr_data s)" and D: "0 < D"
    then obtain s1 len where a: "at_end D s = Inr (False, s1)"
      and v: "skip_value F (drop (sr_offset s1) (sr_data s1)) k = Inr (sh, len)"
      and s': "s' = series_advance len s1"
      by (auto simp: series_skip_value.simps [of F D s k] and_then_Inr split: if_splits)
    have s1: "s1 = s" using at_end_mono [OF a] by simp
    have "length (drop (sr_offset s1) (sr_data s1) @ r) \<le> usize_max" using L s1 by simp
    then have "skip_value F (drop (sr_offset s) (sr_data s) @ r) k = Inr (sh, len)"
      using 2 [OF a refl] v s1 by blast
    then show "series_skip_value F D (extend r s) k = Inr (sh, extend r s')"
      using at_end_local [OF a D le, of r] le s1 s'
      by (simp add: series_skip_value.simps [of F D "extend r s" k] series_advance_extend)
  qed
next
  case (3 F D s k)
  show ?case
  proof (intro allI impI)
    fix sh s'
    assume K: "skip_to_end F D s k = Inr (sh, s')" and L: "length (sr_data s @ r) \<le> usize_max"
      and le: "sr_offset s \<le> length (sr_data s)" and D: "0 < D"
    then obtain e s1 where a: "at_end D s = Inr (e, s1)"
      by (auto simp: skip_to_end.simps [of F D s k] and_then_Inr)
    note a' = at_end_local [OF a D le, of r]
    show "skip_to_end F D (extend r s) k = Inr (sh, extend r s')"
    proof (cases e)
      case True
      with K a a' show ?thesis
        by (simp add: skip_to_end.simps [of F D s k] skip_to_end.simps [of F D "extend r s" k])
    next
      case False
      with K a obtain sh1 s2 sh2 where
        k1: "series_skip_value F D s1 k = Inr (sh1, s2)" and k2: "skip_to_end F D s2 k = Inr (sh2, s')"
        and sh: "sh = (sh1 \<and> sh2)"
        by (simp add: skip_to_end.simps [of F D s k] and_then_Inr) blast
      from False have s1: "s1 = s" using at_end_mono [OF a] by simp
      have b: "sr_data s2 = sr_data s" "sr_offset s2 \<le> length (sr_data s2)"
        using skip_bounds(2) [rule_format, OF k1 [unfolded s1] le] by auto
      have "series_skip_value F D (extend r s1) k = Inr (sh1, extend r s2)"
        using 3(1) [OF a refl False] k1 L le D s1 by blast
      moreover have "skip_to_end F D (extend r s2) k = Inr (sh2, extend r s')"
        using 3(2) [OF a refl False k1 refl] k2 L b D by auto
      ultimately show ?thesis
        using a' False sh s1 by (simp add: skip_to_end.simps [of F D "extend r s" k])
    qed
  qed
qed

lemma skip_value_local:
  "skip_value F d k = Inr (sh, n) \<Longrightarrow> length (d @ r) \<le> usize_max \<Longrightarrow> skip_value F (d @ r) k = Inr (sh, n)"
  using skip_local_aux(1) [where r = r] by blast

end
