(* ===== verification/Bpv7_Eid_Codec.thy ===== *)
theory Bpv7_Eid_Codec
  imports Bpv7_Eid Cbor_Local
begin

unbundle bit_operations_syntax

text \<open>
  Endpoint identifiers meet the codec contract: every identifier the decoder can produce is
  written and read back, and everything the decoder accepts is such an identifier.
\<close>

section \<open>What is assumed of the text libraries\<close>

definition digit :: "byte \<Rightarrow> bool" where
  "digit c \<longleftrightarrow> 48 \<le> c \<and> c \<le> 57"

definition text_spec :: "text_ops \<Rightarrow> bool" where
  "text_spec X \<longleftrightarrow>
    (\<forall>n r. (r = [] \<or> \<not> digit (hd r)) \<longrightarrow> tx_dec_uint X (dec_string (unat n) @ r) = Some (n, r)) \<and>
    (\<forall>x. utf8_valid x \<longrightarrow>
      list_all regname_char (tx_percent_encode X x) \<and> tx_percent_decode_utf8 X (tx_percent_encode X x) = Some x) \<and>
    (\<forall>v x. tx_percent_decode_utf8 X v = Some x \<longrightarrow> utf8_valid x)"

lemma text_specD:
  assumes "text_spec X"
  shows "r = [] \<or> \<not> digit (hd r) \<Longrightarrow> tx_dec_uint X (dec_string (unat n) @ r) = Some (n, r)"
    and "utf8_valid x \<Longrightarrow> list_all regname_char (tx_percent_encode X x)"
    and "utf8_valid x \<Longrightarrow> tx_percent_decode_utf8 X (tx_percent_encode X x) = Some x"
    and "tx_percent_decode_utf8 X v = Some x \<Longrightarrow> utf8_valid x"
  using assms unfolding text_spec_def by blast+

section \<open>Valid identifiers and their encoding\<close>

text \<open>The values that survive a round trip. The numbers 0 and \<^verbatim>\<open>u32::MAX\<close> of the default
  allocator are the null and the local node, and a legacy encoding is only used for another
  allocator.\<close>

definition eid_ok :: "float_ops \<Rightarrow> Eid \<Rightarrow> bool" where
  "eid_ok F e =
    (case e of
       Null \<Rightarrow> True
     | LocalNode _ \<Rightarrow> True
     | LegacyIpn n _ \<Rightarrow> allocator_id n \<noteq> 0
     | Ipn n _ \<Rightarrow> allocator_id n \<noteq> 0 \<or> (node_number n \<noteq> 0 \<and> node_number n \<noteq> 0xFFFFFFFF)
     | Dtn n s \<Rightarrow> utf8_valid n \<and> list_all service_char s
     | Unknown scheme ssp \<Rightarrow> scheme > 2 \<and> (case skip_value F ssp 16 of Inr (_, n) \<Rightarrow> n = length ssp | _ \<Rightarrow> False))"

definition ipn_legacy_fqnn :: "IpnNodeId \<Rightarrow> u64" where
  "ipn_legacy_fqnn n = push_bit 32 (ucast (allocator_id n)) OR ucast (node_number n)"

definition eid_ssp_enc :: "text_ops \<Rightarrow> Eid \<Rightarrow> bytes" where
  "eid_ssp_enc X e =
    (case e of
       Null \<Rightarrow> head_bytes 0 0
     | LocalNode s \<Rightarrow> array_enc [head_bytes 0 U32_MAX, head_bytes 0 (ucast s)]
     | LegacyIpn n s \<Rightarrow> array_enc [head_bytes 0 (ipn_legacy_fqnn n), head_bytes 0 (ucast s)]
     | Ipn n s \<Rightarrow>
         array_enc (map (\<lambda>v. head_bytes 0 (ucast v))
           (if allocator_id n = 0 then [node_number n, s] else [allocator_id n, node_number n, s]))
     | Dtn n s \<Rightarrow> head_bytes 3 (of_nat (length (dtn_text X n s))) @ dtn_text X n s
     | Unknown _ ssp \<Rightarrow> ssp)"

definition eid_scheme :: "Eid \<Rightarrow> u64" where
  "eid_scheme e =
    (case e of Null \<Rightarrow> 1 | Dtn _ _ \<Rightarrow> 1 | Unknown scheme _ \<Rightarrow> scheme | _ \<Rightarrow> 2)"

definition eid_enc :: "text_ops \<Rightarrow> Eid \<Rightarrow> bytes" where
  "eid_enc X e = array_enc [head_bytes 0 (eid_scheme e), eid_ssp_enc X e]"

lemma int_literal_writes:
  "writes (int_to_cbor (0 :: 32 word)) (head_bytes 0 0)"
  "writes (int_to_cbor (1 :: 32 word)) (head_bytes 0 1)"
  "writes (int_to_cbor (2 :: 32 word)) (head_bytes 0 2)"
  using int_to_cbor_writes [of "0 :: 32 word"] int_to_cbor_writes [of "1 :: 32 word"]
    int_to_cbor_writes [of "2 :: 32 word"]
  by (simp_all add: int_enc_def)

lemma eid_writes: "writes (eid_to_cbor X e) (eid_enc X e)"
proof -
  have pair: "writes a bs \<Longrightarrow> writes b cs \<Longrightarrow> writes (tuple_to_cbor [a, b]) (array_enc [bs, cs])" for a b bs cs
    by (intro writes_array) simp_all
  have sl: "writes (slice_to_cbor uint_to_cbor xs) (array_enc (map (\<lambda>v. head_bytes 0 (ucast v)) xs))"
    if "length xs < 2 ^ 64" for xs :: "u32 list"
    using writes_slice [of "uint_to_cbor :: u32 \<Rightarrow> _" xs "map (\<lambda>v. head_bytes 0 (ucast v)) xs"] that
    by (simp add: array_enc_def list_all2_map2 list_all2_same writes_uint)
  have m: "writes (uint_to_cbor (0xFFFFFFFF :: u32)) (head_bytes 0 U32_MAX)"
    using writes_uint [of "0xFFFFFFFF :: u32"] by (simp add: U32_MAX_def)
  have l: "writes (uint_to_cbor v) (head_bytes 0 v)" for v :: u64
    using writes_uint [of v] by simp
  show ?thesis
    unfolding eid_enc_def
    by (cases e)
      (auto simp: eid_to_cbor_def eid_scheme_def eid_ssp_enc_def ipn_legacy_fqnn_def
        intro!: pair int_literal_writes sl [where xs = "[a, b]" for a b, simplified]
          sl [where xs = "[a, b, c]" for a b c, simplified] m l writes_uint writes_string writes_raw)
qed

section \<open>Text\<close>

lemma ascii_utf8: "list_all (\<lambda>b. b < 0x80) bs \<Longrightarrow> utf8_valid bs"
  by (induction bs) simp_all

lemma regname_ascii: "regname_char c \<Longrightarrow> c < 0x80"
  by (auto simp: regname_char_def ascii_def word_le_nat_alt word_less_nat_alt)

lemma service_ascii: "service_char c \<Longrightarrow> c < 0x80"
  by (auto simp: service_char_def word_le_nat_alt word_less_nat_alt)

lemma dtn_text_utf8:
  "text_spec X \<Longrightarrow> utf8_valid n \<Longrightarrow> list_all service_char s \<Longrightarrow> utf8_valid (dtn_text X n s)"
  using text_specD(2) [of X n] unfolding dtn_text_def
  by (intro ascii_utf8) (auto simp: list_all_iff ascii_def dest: regname_ascii service_ascii)

lemma strip_prefix_append [simp]: "strip_prefix p (p @ r) = Some r"
  by (simp add: strip_prefix_def)

lemma slash_not_regname: "\<not> regname_char 47"
  by (simp add: regname_char_def ascii_def)

lemma parse_dtn_text:
  assumes "text_spec X" and "utf8_valid n" and "list_all service_char s"
  shows "parse_all (parse_dtn X) (dtn_text X n s) = Inr (Dtn n s)"
proof -
  let ?p = "tx_percent_encode X n"
  have p: "list_all regname_char ?p" "tx_percent_decode_utf8 X ?p = Some n"
    using text_specD(2,3) [OF assms(1,2)] by simp_all
  have sl: "ascii ''/'' = [47]" "ascii ''//'' = [47, 47]" "ascii ''none'' = [110, 111, 110, 101]"
    by (simp_all add: ascii_def)
  have "takeWhile regname_char (?p @ 47 # s) = ?p" "dropWhile regname_char (?p @ 47 # s) = 47 # s"
    using p(1) slash_not_regname
    by (simp_all add: takeWhile_append2 dropWhile_append2 list_all_iff)
  then have "parse_regname X (?p @ 47 # s) = Some (n, 47 # s)"
    using p(2) by (simp add: parse_regname_def)
  moreover have tw: "takeWhile service_char s = s" "dropWhile service_char s = []"
    using assms(3) by (simp_all add: list_all_iff)
  ultimately show ?thesis
    by (simp add: tw parse_all_def parse_dtn_def dtn_text_def sl strip_prefix_def parse_dtn_parts_def
        parse_dtn_service_name_def)
qed

section \<open>Reading the scheme-specific part\<close>

lemma parse_value_array_reads:
  assumes "length (array_enc fs @ r) \<le> usize_max" and "length fs < 2 ^ 64"
    and "\<And>s. reads s fs r \<Longrightarrow> \<exists>s'. f (VArray s) True [] = Inr (x, VArray s') \<and> reads s' [] r \<and> sr_data s' = sr_data s"
  shows "parse_value conv F f (array_enc fs @ r) = Inr (x, length (array_enc fs))"
proof -
  let ?c = "of_nat (length fs) :: u64"
  let ?s = "series_new (array_enc fs @ r) (Some (length fs)) (length (head_bytes 4 ?c))"
  have c: "unat ?c = length fs" using assms(2) by (simp add: unat_of_nat)
  have h: "head_from_cbor F (array_enc fs @ r) =
      Inr (\<lparr>head_tags = [], head_marker = Array (Some ?c)\<rparr>, True, length (head_bytes 4 ?c))"
    using head_from_cbor_head_bytes [of 4 ?c "concat fs @ r" F] assms(1)
    by (simp add: array_enc_def major_marker_def head_of_major_def)
  have "reads ?s fs r" using assms(1) by (simp add: reads_def array_enc_def)
  then obtain s' where s': "f (VArray ?s) True [] = Inr (x, VArray s')" "reads s' [] r"
      "sr_data s' = array_enc fs @ r"
    using assms(3) [of ?s] by auto
  show ?thesis
    using h s'(1,3) reads_end_offset [OF s'(2)]
    by (simp add: parse_value_def Let_def c series_of_def series_complete_def reads_done [OF s'(2)]
        del: One_nat_def)
qed

lemma series_parse_value_at:
  assumes "field_at D s bs q" and "\<And>r. length (bs @ r) \<le> usize_max \<Longrightarrow> parse_value conv F f (bs @ r) = Inr (x, length bs)"
  shows "series_parse_value conv F D f s = Inr (x, series_advance (length bs) s)"
  using assms field_at_len [OF assms(1)]
  by (simp add: series_parse_value_def field_at_def del: length_append)

lemma ipn_from_cbor_two:
  assumes "reads s [head_bytes 0 a, head_bytes 0 b] r"
  shows "\<exists>s'. ipn_from_cbor F s canonical = and_then (ipn_match a b None canonical) (\<lambda>x. Inr (x, s')) \<and>
    reads s' [] r \<and> sr_data s' = sr_data s"
proof -
  note r1 = reads_advance [OF assms]
  note r2 = reads_advance [OF r1]
  show ?thesis
    using r2
    by (simp add: ipn_from_cbor_def u64_strict.series_flagged_at [OF TrueI reads_field [OF assms]]
        u64_strict.series_flagged_at [OF TrueI reads_field [OF r1]] series_try_parse_def reads_done [OF r2]
        del: One_nat_def) (rule exI, rule conjI, rule refl, simp)
qed

lemma ipn_from_cbor_three:
  assumes "reads s [head_bytes 0 a, head_bytes 0 b, head_bytes 0 c] r"
  shows "\<exists>s'. ipn_from_cbor F s canonical = and_then (ipn_match a b (Some c) canonical) (\<lambda>x. Inr (x, s')) \<and>
    reads s' [] r \<and> sr_data s' = sr_data s"
proof -
  note r1 = reads_advance [OF assms]
  note r2 = reads_advance [OF r1]
  note r3 = reads_advance [OF r2]
  note f3 = reads_field [OF r2]
  have "series_try_parse id 1 (with_shortest_len (untagged id (u64_from_cbor F)))
      (series_advance (length (head_bytes 0 b)) (series_advance (length (head_bytes 0 a)) s)) =
    Inr (Some (c, True, length (head_bytes 0 c)), series_advance (length (head_bytes 0 c))
      (series_advance (length (head_bytes 0 b)) (series_advance (length (head_bytes 0 a)) s)))"
    using f3 field_at_len [OF f3]
    by (simp add: series_try_parse_def series_parse_def field_at_def with_shortest_len_def
        u64_strict.untagged_enc del: length_append One_nat_def)
  then show ?thesis
    using r3
    by (simp add: ipn_from_cbor_def u64_strict.series_flagged_at [OF TrueI reads_field [OF assms]]
        u64_strict.series_flagged_at [OF TrueI reads_field [OF r1]] del: One_nat_def)
      (rule exI, rule conjI, rule refl, simp)
qed

section \<open>Numbers\<close>

lemma u32_le_MAX: "(ucast (v :: u32) :: u64) \<le> U32_MAX" "\<not> U32_MAX < ucast (v :: u32)"
  using unat_lt2p [of v] by (simp_all add: word_le_nat_alt word_less_nat_alt U32_MAX_def unat_ucast_up)

lemma ucast_eq_MAX: "(ucast (v :: u32) :: u64) = U32_MAX \<longleftrightarrow> v = 0xFFFFFFFF"
proof
  assume "(ucast v :: u64) = U32_MAX"
  then have "ucast (ucast v :: u64) = (ucast U32_MAX :: u32)" by simp
  then show "v = 0xFFFFFFFF" by (simp add: U32_MAX_def)
qed (simp add: U32_MAX_def)

lemma ucast_eq_0: "(ucast (v :: u32) :: u64) = 0 \<longleftrightarrow> v = 0"
proof
  assume "(ucast v :: u64) = 0"
  then have "ucast (ucast v :: u64) = (0 :: u32)" by simp
  then show "v = 0" by simp
qed simp

lemma U32_MAX_mask: "U32_MAX = mask 32"
  by (simp add: U32_MAX_def mask_eq_exp_minus_1)

lemma legacy_parts:
  "ucast (drop_bit 32 (ipn_legacy_fqnn n)) = allocator_id n"
  "ucast (ipn_legacy_fqnn n AND U32_MAX) = node_number n"
  unfolding ipn_legacy_fqnn_def U32_MAX_mask
  by (rule bit_word_eqI; auto simp: bit_simps dest: bit_imp_le_length)+

lemma legacy_large: "allocator_id n \<noteq> 0 \<Longrightarrow> ipn_legacy_fqnn n > U32_MAX"
proof (rule ccontr)
  assume a: "allocator_id n \<noteq> 0" and "\<not> ipn_legacy_fqnn n > U32_MAX"
  then have "unat (ipn_legacy_fqnn n) < 2 ^ 32"
    by (simp add: word_less_nat_alt U32_MAX_def)
  then have "unat (drop_bit 32 (ipn_legacy_fqnn n)) = 0"
    by (simp add: drop_bit_eq_div unat_div)
  then have "drop_bit 32 (ipn_legacy_fqnn n) = 0" by (simp add: unat_eq_0)
  then show False using a legacy_parts(1) [of n] by simp
qed

lemmas ipn_number_simps = u32_le_MAX ucast_eq_MAX ucast_eq_0 legacy_parts

lemma ipn_match_written:
  "ipn_match U32_MAX (ucast s) None c = Inr (LocalNode s, c)"
  "allocator_id n \<noteq> 0 \<Longrightarrow> ipn_match (ipn_legacy_fqnn n) (ucast s) None c = Inr (LegacyIpn n s, c)"
  "allocator_id n = 0 \<Longrightarrow> node_number n \<noteq> 0 \<Longrightarrow> node_number n \<noteq> 0xFFFFFFFF \<Longrightarrow>
    ipn_match (ucast (node_number n)) (ucast s) None c = Inr (Ipn n s, c)"
  "allocator_id n \<noteq> 0 \<Longrightarrow>
    ipn_match (ucast (allocator_id n)) (ucast (node_number n)) (Some (ucast s)) c = Inr (Ipn n s, c)"
proof -
  have "U32_MAX \<noteq> 0" by (simp add: U32_MAX_def)
  then show "ipn_match U32_MAX (ucast s) None c = Inr (LocalNode s, c)"
    by (simp add: ipn_match_def ipn_number_simps)
next
  assume a: "allocator_id n \<noteq> 0"
  have "ipn_legacy_fqnn n \<noteq> 0" "ipn_legacy_fqnn n \<noteq> U32_MAX" "\<not> ipn_legacy_fqnn n \<le> U32_MAX"
    using legacy_large [OF a] by auto
  then show "ipn_match (ipn_legacy_fqnn n) (ucast s) None c = Inr (LegacyIpn n s, c)"
    by (simp add: ipn_match_def ipn_number_simps)
qed (simp_all add: ipn_match_def ipn_number_simps)

section \<open>Reading an identifier back\<close>

lemma dtn_ssp_null:
  "length (head_bytes 0 0 @ r) \<le> usize_max \<Longrightarrow>
    parse_value conv F (dtn_ssp X c) (head_bytes 0 0 @ r) = Inr ((Null, c), length (head_bytes 0 0))"
  by (simp add: parse_value_def head_from_cbor_head_bytes major_marker_def dtn_ssp_def Let_def
      del: length_append)

lemma dtn_ssp_text:
  assumes "text_spec X" "utf8_valid n" "list_all service_char s"
    and "length ((head_bytes 3 (of_nat (length (dtn_text X n s))) @ dtn_text X n s) @ r) \<le> usize_max"
  shows "parse_value conv F (dtn_ssp X c) ((head_bytes 3 (of_nat (length (dtn_text X n s))) @ dtn_text X n s) @ r) =
    Inr ((Dtn n s, c), length (head_bytes 3 (of_nat (length (dtn_text X n s))) @ dtn_text X n s))"
proof -
  let ?t = "dtn_text X n s"
  let ?h = "head_bytes 3 (of_nat (length ?t))"
  have l: "length (?h @ ?t @ r) \<le> usize_max" "unat (of_nat (length ?t) :: u64) = length ?t"
    using assms(4) by (simp_all add: unat_of_nat_length)
  have "?t \<noteq> ascii ''none''" by (simp add: dtn_text_def ascii_def)
  then show ?thesis
    using head_from_cbor_head_bytes [of 3 "of_nat (length ?t)" "?t @ r" F] l dtn_text_utf8 [OF assms(1-3)]
      offset_extent_append [OF l(1), of "of_nat (length ?t)"] parse_dtn_text [OF assms(1-3)]
    by (simp add: parse_value_def major_marker_def head_of_major_def Let_def dtn_ssp_def)
qed

lemma ipn_ssp_read:
  assumes "eid_ok F e" and "eid_scheme e = 2" and "length (eid_ssp_enc X e @ r) \<le> usize_max"
  shows "parse_value conv F (ipn_ssp F True) (eid_ssp_enc X e @ r) = Inr ((e, True), length (eid_ssp_enc X e))"
proof -
  have two: "parse_value conv F (ipn_ssp F True) (array_enc [head_bytes 0 a, head_bytes 0 b] @ r) =
      Inr ((e, True), length (array_enc [head_bytes 0 a, head_bytes 0 b]))"
    if "ipn_match a b None True = Inr (e, True)"
      "length (array_enc [head_bytes 0 a, head_bytes 0 b] @ r) \<le> usize_max" for a b
  proof (rule parse_value_array_reads [OF that(2)])
    fix s
    assume rd: "reads s [head_bytes 0 a, head_bytes 0 b] r"
    from ipn_from_cbor_two [OF rd, of F True] that(1)
    show "\<exists>s'. ipn_ssp F True (VArray s) True [] = Inr ((e, True), VArray s') \<and> reads s' [] r \<and> sr_data s' = sr_data s"
      using rd by (auto simp: ipn_ssp_def is_definite_def reads_def)
  qed simp
  have three: "parse_value conv F (ipn_ssp F True) (array_enc [head_bytes 0 a, head_bytes 0 b, head_bytes 0 c] @ r) =
      Inr ((e, True), length (array_enc [head_bytes 0 a, head_bytes 0 b, head_bytes 0 c]))"
    if "ipn_match a b (Some c) True = Inr (e, True)"
      "length (array_enc [head_bytes 0 a, head_bytes 0 b, head_bytes 0 c] @ r) \<le> usize_max" for a b c
  proof (rule parse_value_array_reads [OF that(2)])
    fix s
    assume rd: "reads s [head_bytes 0 a, head_bytes 0 b, head_bytes 0 c] r"
    from ipn_from_cbor_three [OF rd, of F True] that(1)
    show "\<exists>s'. ipn_ssp F True (VArray s) True [] = Inr ((e, True), VArray s') \<and> reads s' [] r \<and> sr_data s' = sr_data s"
      using rd by (auto simp: ipn_ssp_def is_definite_def reads_def)
  qed simp
  show ?thesis
  proof (cases e)
    case (LocalNode s)
    then show ?thesis using two [of U32_MAX "ucast s"] assms(3) by (simp add: eid_ssp_enc_def ipn_match_written)
  next
    case (LegacyIpn n s)
    then show ?thesis
      using two [of "ipn_legacy_fqnn n" "ucast s"] assms(1,3)
      by (simp add: eid_ssp_enc_def ipn_match_written eid_ok_def)
  next
    case (Ipn n s)
    then show ?thesis
      using two [of "ucast (node_number n)" "ucast s"]
        three [of "ucast (allocator_id n)" "ucast (node_number n)" "ucast s"] assms(1,3)
      by (auto simp: eid_ssp_enc_def ipn_match_written eid_ok_def)
  qed (use assms in \<open>auto simp: eid_scheme_def eid_ok_def\<close>)
qed

lemma unknown_read:
  assumes "eid_ok F (Unknown scheme ssp)" and "field_at 1 s ssp r" and "sr_data s = d"
  shows "\<exists>sh. series_skip_value F 1 s 16 = Inr (sh, series_advance (length ssp) s) \<and>
    unknown_ssp_new F (slice d (sr_offset s, sr_offset (series_advance (length ssp) s))) = Inr ssp"
proof -
  obtain sh where k: "skip_value F ssp 16 = Inr (sh, length ssp)"
    using assms(1) by (auto simp: eid_ok_def split: sum.splits)
  from skip_value_local [OF k field_at_len [OF assms(2)]]
  have "series_skip_value F 1 s 16 = Inr (sh, series_advance (length ssp) s)"
    using assms(2) by (simp add: series_skip_value.simps field_at_def del: One_nat_def)
  moreover have "slice d (sr_offset s, sr_offset s + length ssp) = ssp"
    using assms(2,3) by (simp add: slice_def field_at_def)
  ultimately show ?thesis using k by (simp add: unknown_ssp_new_def)
qed

lemma eid_body_reads:
  assumes "text_spec X" and "eid_ok F e" and "reads s [head_bytes 0 (eid_scheme e), eid_ssp_enc X e] r"
    and "sr_data s = d"
  shows "\<exists>s'. eid_body X F d s True [] = Inr ((e, True), s') \<and> reads s' [] r \<and> sr_data s' = sr_data s"
proof -
  let ?s1 = "series_advance (length (head_bytes 0 (eid_scheme e))) s"
  let ?s2 = "series_advance (length (eid_ssp_enc X e)) ?s1"
  note r1 = reads_advance [OF assms(3)]
  note r2 = reads_advance [OF r1]
  note f1 = reads_field [OF r1]
  have sch: "series_parse id 1 (with_shortest (untagged id (u64_from_cbor F))) s = Inr ((eid_scheme e, True), ?s1)"
    by (rule u64_strict.series_flagged_at [OF TrueI reads_field [OF assms(3)]])
  have def: "is_definite s" using assms(3) by (simp add: reads_def is_definite_def)
  have pv: "series_parse_value eid_of_cbor F 1 f ?s1 = Inr ((e, True), ?s2)"
    if "\<And>r. length (eid_ssp_enc X e @ r) \<le> usize_max \<Longrightarrow>
      parse_value eid_of_cbor F f (eid_ssp_enc X e @ r) = Inr ((e, True), length (eid_ssp_enc X e))" for f
    by (rule series_parse_value_at [OF f1 that])
  have ipn: ?thesis if "eid_scheme e = 2"
    using that sch def pv [OF ipn_ssp_read [OF assms(2) that]] r2
    by (simp add: eid_body_def map_field_err_def relabel_ipn_def del: One_nat_def length_append)
  have dtn: ?thesis if "eid_scheme e = 1" and "series_parse_value eid_of_cbor F 1 (dtn_ssp X True) ?s1 = Inr ((e, True), ?s2)"
    using that sch def r2 by (simp add: eid_body_def map_field_err_def del: One_nat_def length_append)
  show ?thesis
  proof (cases e)
    case Null
    show ?thesis
      by (rule dtn, use Null in \<open>simp add: eid_scheme_def\<close>, rule pv)
        (use Null dtn_ssp_null in \<open>simp add: eid_ssp_enc_def del: length_append\<close>)
  next
    case (Dtn n v)
    show ?thesis
      by (rule dtn, use Dtn in \<open>simp add: eid_scheme_def\<close>, rule pv)
        (use Dtn assms(2) dtn_ssp_text [OF assms(1)] in
          \<open>simp add: eid_ssp_enc_def eid_ok_def del: length_append append_assoc\<close>)
  next
    case (Unknown scheme ssp)
    then have "scheme > 2" using assms(2) by (simp add: eid_ok_def)
    then have "scheme \<noteq> 0" "scheme \<noteq> 1" "scheme \<noteq> 2" by (auto simp: word_less_nat_alt)
    moreover have "\<exists>sh. series_skip_value F 1 ?s1 16 = Inr (sh, ?s2) \<and>
        unknown_ssp_new F (slice d (sr_offset ?s1, sr_offset ?s2)) = Inr ssp"
      using unknown_read [OF assms(2) [unfolded Unknown], of ?s1] f1 assms(4) Unknown
      by (simp add: eid_ssp_enc_def del: One_nat_def)
    ultimately show ?thesis using Unknown sch def r2
      by (auto simp: eid_body_def eid_scheme_def map_field_err_def simp del: One_nat_def)
  qed (use ipn in \<open>simp_all add: eid_scheme_def\<close>)
qed

lemma eid_from_cbor_enc:
  assumes "text_spec X" and "eid_ok F e" and "length (eid_enc X e @ r) \<le> usize_max"
  shows "eid_from_cbor X F (eid_enc X e @ r) = Inr (e, True, length (eid_enc X e))"
proof -
  have "parse_array eid_of_cbor F (eid_body X F (eid_enc X e @ r)) (eid_enc X e @ r) =
      Inr ((e, True), length (eid_enc X e))"
    unfolding eid_enc_def
    by (rule parse_array_reads) (use assms eid_body_reads in \<open>simp_all add: eid_enc_def\<close>)
  then show ?thesis by (simp add: eid_from_cbor_def)
qed

lemma eid_plain: "plain_start (eid_enc X e)"
  by (simp add: eid_enc_def)

interpretation eid_codec: untagged_codec "eid_to_cbor X" "eid_from_cbor X F" eid_of_cbor "eid_enc X"
  "\<lambda>e. text_spec X \<and> eid_ok F e" for X F
  by unfold_locales (auto simp: eid_writes eid_from_cbor_enc eid_plain simp del: length_append)

section \<open>Everything decoded is valid\<close>

lemma parse_value_closure:
  assumes "parse_value conv F f d = Inr (x, n)"
  shows "\<exists>v sh tags v'. f v sh tags = Inr (x, v')"
proof -
  obtain h sh off where h: "head_from_cbor F d = Inr (h, sh, off)"
    using assms by (auto simp: parse_value_def and_then_Inr)
  show ?thesis
  proof (cases "head_marker h")
    case (Bytes l)
    then show ?thesis using assms h
      by (cases l) (auto simp: parse_value_def Let_def and_then_Inr)
  next
    case (Text l)
    then show ?thesis using assms h
      by (cases l) (auto simp: parse_value_def Let_def and_then_Inr split: if_splits)
  next
    case (Array c)
    then show ?thesis using assms h
      by (auto simp: parse_value_def Let_def and_then_Inr series_complete_def split: if_splits)
  next
    case (Map c)
    then show ?thesis using assms h
      by (auto simp: parse_value_def Let_def and_then_Inr series_complete_def split: if_splits)
  qed (use assms h in \<open>auto simp: parse_value_def Let_def and_then_Inr\<close>)
qed

lemma ucast_nonzero: "a \<noteq> 0 \<Longrightarrow> a \<le> U32_MAX \<Longrightarrow> (ucast a :: u32) \<noteq> 0"
proof
  assume "a \<noteq> 0" "a \<le> U32_MAX" "(ucast a :: u32) = 0"
  then have "unat a mod 4294967296 = 0" "unat a \<noteq> 0" "unat a \<le> 4294967295"
    by (simp_all add: word_unat_eq_iff [of "ucast a :: u32"] unat_ucast_mod unat_eq_0 word_le_nat_alt U32_MAX_def)
  then show False by simp
qed

lemma ucast_not_max: "a \<noteq> U32_MAX \<Longrightarrow> a \<le> U32_MAX \<Longrightarrow> (ucast a :: u32) \<noteq> 0xFFFFFFFF"
proof
  assume a: "a \<noteq> U32_MAX" "a \<le> U32_MAX" "(ucast a :: u32) = 0xFFFFFFFF"
  then have "unat a < 2 ^ 32" by (simp add: word_le_nat_alt U32_MAX_def)
  then have "ucast (ucast a :: u32) = a" by (intro ucast_ucast_up) simp
  with a show False by (simp add: U32_MAX_def)
qed

lemma drop_bit_nonzero: "a > U32_MAX \<Longrightarrow> (ucast (drop_bit 32 a) :: u32) \<noteq> 0"
proof
  assume a: "a > U32_MAX" "(ucast (drop_bit 32 a) :: u32) = 0"
  have u: "unat (drop_bit 32 a) = unat a div 4294967296" by (simp add: drop_bit_eq_div unat_div)
  have "unat a < 18446744073709551616" using unat_lt2p [of a] by simp
  then have "unat a div 4294967296 < 4294967296" by simp
  moreover have "unat a div 4294967296 mod 4294967296 = 0"
    using a(2) by (simp add: word_unat_eq_iff [of "ucast (drop_bit 32 a) :: u32"] unat_ucast_mod u)
  ultimately have "unat a div 4294967296 = 0" by simp
  moreover have "unat a > 4294967295" using a(1) by (simp add: word_less_nat_alt U32_MAX_def)
  ultimately show False by simp
qed

lemma ipn_match_ok: "ipn_match a b c k = Inr (e, s) \<Longrightarrow> eid_ok F e"
  by (auto simp: ipn_match_def eid_ok_def not_less not_le split: if_splits option.splits
      dest: ucast_nonzero ucast_not_max drop_bit_nonzero)

lemma ipn_ssp_ok: "ipn_ssp F k v sh tags = Inr ((e, s), v') \<Longrightarrow> eid_ok F e"
  by (auto simp: ipn_ssp_def ipn_from_cbor_def and_then_Inr split: cvalue.splits if_splits option.splits
      dest: ipn_match_ok)

lemma parse_dtn_ok:
  assumes "text_spec X" and "parse_all (parse_dtn X) t = Inr e"
  shows "eid_ok F e"
proof -
  obtain p where p: "parse_dtn X t = Some (e, p)"
    using assms(2) by (auto simp: parse_all_def split: option.splits list.splits)
  show ?thesis
  proof (cases "strip_prefix (ascii ''none'') t")
    case None
    with p obtain u where "parse_dtn_parts X u = Some (e, p)"
      by (auto simp: parse_dtn_def bind_eq_Some_conv)
    then obtain n s v where "e = Dtn n (takeWhile service_char s)" "tx_percent_decode_utf8 X v = Some n"
      by (auto simp: parse_dtn_parts_def bind_eq_Some_conv parse_regname_def parse_dtn_service_name_def)
    then show ?thesis
      using text_specD(4) [OF assms(1)] set_takeWhileD [of _ service_char s]
      by (auto simp: eid_ok_def list_all_iff)
  next
    case (Some r)
    with p show ?thesis by (simp add: parse_dtn_def eid_ok_def)
  qed
qed

lemma dtn_ssp_ok: "text_spec X \<Longrightarrow> dtn_ssp X k v sh tags = Inr ((e, s), v') \<Longrightarrow> eid_ok F e"
  by (auto simp: dtn_ssp_def and_then_Inr eid_ok_def [of F Null] split: cvalue.splits if_splits
      dest: parse_dtn_ok)

lemma eid_body_ok:
  assumes "text_spec X" and "eid_body X F d a sh tags = Inr ((e, c), a')"
  shows "eid_ok F e"
proof -
  from assms(2) obtain scheme a1 where
    sp: "series_parse id 1 (with_shortest (untagged id (u64_from_cbor F))) a = Inr ((scheme, True), a1)"
    and nz: "sh" "tags = []" "scheme \<noteq> 0"
    by (auto simp: eid_body_def Let_def and_then_Inr map_field_err_def split: if_splits)
  note body = assms(2) [unfolded eid_body_def Let_def sp map_field_err_def map_err_simps and_then_simps
      prod.case, simplified nz, simplified]
  consider "scheme = 1" | "scheme = 2" | "scheme \<noteq> 1" "scheme \<noteq> 2" by blast
  then show ?thesis
  proof cases
    case 1
    with body obtain d' n where "parse_value eid_of_cbor F (dtn_ssp X (is_definite a)) d' = Inr ((e, c), n)"
      by (auto simp: series_parse_value_def and_then_Inr split: if_splits)
    from parse_value_closure [OF this] show ?thesis using dtn_ssp_ok [OF assms(1)] by blast
  next
    case 2
    with body obtain d' n where "parse_value eid_of_cbor F (ipn_ssp F (is_definite a)) d' = Inr ((e, c), n)"
      by (auto simp: series_parse_value_def and_then_Inr relabel_ipn_def split: if_splits sum.splits eid_error.splits)
    from parse_value_closure [OF this] show ?thesis using ipn_ssp_ok by blast
  next
    case 3
    with body obtain bs where e: "e = Unknown scheme bs" and "\<exists>d'. unknown_ssp_new F d' = Inr bs"
      by (auto simp: and_then_Inr)
    then obtain k where "skip_value F bs 16 = Inr (k, length bs)"
      by (auto simp: unknown_ssp_new_def and_then_Inr split: if_splits)
    moreover have "scheme > 2"
    proof -
      have "unat scheme \<noteq> 0" "unat scheme \<noteq> 1" "unat scheme \<noteq> 2"
        using 3 nz by (auto simp: word_unat_eq_iff)
      then show ?thesis by (simp add: word_less_nat_alt)
    qed
    ultimately show ?thesis by (simp add: eid_ok_def e)
  qed
qed

lemma eid_from_cbor_ok: "text_spec X \<Longrightarrow> eid_from_cbor X F d = Inr (e, s, n) \<Longrightarrow> eid_ok F e"
  unfolding eid_from_cbor_def
  by (auto simp: and_then_Inr dest!: parse_array_Inr intro: eid_body_ok)

section \<open>Text form\<close>

lemma dec_string_digits: "dec_string n \<noteq> [] \<and> list_all digit (dec_string n)"
proof (induction n rule: dec_string.induct)
  case (1 n)
  have d: "digit (of_nat (48 + m))" if "m < 10" for m :: nat
  proof -
    have "unat (of_nat (48 + m) :: byte) = 48 + m" using that by (simp only: unat_of_nat) simp
    then show ?thesis using that by (simp only: digit_def word_le_nat_alt) simp
  qed
  show ?case
  proof (cases "n < 10")
    case True
    then show ?thesis using d [of n] by (simp add: dec_string.simps [of n])
  next
    case False
    then show ?thesis using 1 d [of "n mod 10"] by (simp add: dec_string.simps [of n])
  qed
qed

lemma hd_dec_string: "digit (hd (dec_string n))"
  using dec_string_digits [of n] by (cases "dec_string n") simp_all

lemma literal_bytes:
  "ascii ''.'' = [46]" "ascii ''!.'' = [33, 46]" "ascii ''ipn:'' = [105, 112, 110, 58]"
  "ascii ''dtn:'' = [100, 116, 110, 58]" "ascii ''ipn:!.'' = ascii ''ipn:'' @ ascii ''!.''"
  "ascii ''dtn://'' = ascii ''dtn:'' @ ascii ''//''" "ascii ''dtn:none'' = ascii ''dtn:'' @ ascii ''none''"
  by (simp_all add: ascii_def)

lemma parse_local_node_digits: "parse_local_node X (dec_string n @ r) = None"
proof -
  obtain c cs where c: "dec_string n = c # cs" "digit c"
    using dec_string_digits [of n] by (cases "dec_string n") auto
  then have "c \<noteq> 33" by (auto simp: digit_def word_le_nat_alt)
  with c show ?thesis by (simp add: parse_local_node_def strip_prefix_def literal_bytes)
qed

lemma strip_other_scheme: "strip_prefix (ascii ''dtn:'') (ascii ''ipn:'' @ r) = None"
  by (simp add: strip_prefix_def literal_bytes)

lemma dec_uint_dot: "text_spec X \<Longrightarrow> tx_dec_uint X (dec_string (unat n) @ 46 # r) = Some (n, 46 # r)"
  by (rule text_specD(1)) (simp_all add: digit_def)

lemma dec_uint_end: "text_spec X \<Longrightarrow> tx_dec_uint X (dec_string (unat n)) = Some (n, [])"
  using text_specD(1) [of X "[]" n] by simp

lemma parse_ipn_two:
  assumes "text_spec X"
  shows "parse_ipn X (dec_string (unat a) @ ascii ''.'' @ dec_string (unat b)) =
    map_option (\<lambda>e. (e, [])) (ipn_of_parts a b None)"
  using assms
  by (simp add: parse_ipn_def parse_local_node_digits parse_ipn_parts_def literal_bytes dec_uint_dot
      dec_uint_end strip_prefix_def)

lemma parse_ipn_three:
  assumes "text_spec X"
  shows "parse_ipn X (dec_string (unat a) @ ascii ''.'' @ dec_string (unat b) @ ascii ''.'' @ dec_string (unat c)) =
    map_option (\<lambda>e. (e, [])) (ipn_of_parts a b (Some c))"
  using assms
  by (simp add: parse_ipn_def parse_local_node_digits parse_ipn_parts_def literal_bytes dec_uint_dot
      dec_uint_end strip_prefix_def)

lemma eid_from_str_ipn:
  "eid_from_str X (ascii ''ipn:'' @ t) = parse_all (parse_ipn X) t"
  by (simp add: eid_from_str_def parse_all_def parse_eid_def strip_other_scheme)

lemma eid_from_str_dtn:
  "parse_dtn X t = Some x \<Longrightarrow> eid_from_str X (ascii ''dtn:'' @ t) = parse_all (parse_dtn X) t"
  by (simp add: eid_from_str_def parse_all_def parse_eid_def)

lemma eid_display_parse:
  assumes "text_spec X" and "eid_ok F e" and "\<forall>c b. e \<noteq> Unknown c b"
  shows "eid_from_str X (eid_display X dbg e) = Inr (case e of LegacyIpn n s \<Rightarrow> Ipn n s | _ \<Rightarrow> e)"
proof (cases e)
  case Null
  have "parse_dtn X (ascii ''none'') = Some (Null, [])"
    using strip_prefix_append [of "ascii ''none''" "[]"] by (simp add: parse_dtn_def del: strip_prefix_append)
  then show ?thesis
    using Null by (simp add: eid_display_def literal_bytes(7) eid_from_str_dtn parse_all_def)
next
  case (LocalNode s)
  have "parse_ipn X (ascii ''!.'' @ dec_string (unat s)) = Some (LocalNode s, [])"
    using dec_uint_end [OF assms(1), of s] by (simp add: parse_ipn_def parse_local_node_def)
  then show ?thesis
    using LocalNode by (simp add: eid_display_def literal_bytes(5) eid_from_str_ipn parse_all_def)
next
  case (Dtn n s)
  have p: "parse_all (parse_dtn X) (dtn_text X n s) = Inr (Dtn n s)"
    using assms Dtn by (intro parse_dtn_text) (simp_all add: eid_ok_def)
  then have "parse_dtn X (dtn_text X n s) \<noteq> None"
    by (cases "parse_dtn X (dtn_text X n s)") (auto simp: parse_all_def)
  then show ?thesis
    using Dtn p eid_from_str_dtn [of X "dtn_text X n s"]
    by (auto simp: eid_display_def literal_bytes(6) dtn_text_def)
next
  case (LegacyIpn n s)
  then show ?thesis
    using assms(2) parse_ipn_three [OF assms(1), of "allocator_id n" "node_number n" s]
    by (simp add: eid_display_def eid_from_str_ipn parse_all_def ipn_of_parts_def eid_ok_def)
next
  case (Ipn n s)
  then show ?thesis
    using assms(2) parse_ipn_three [OF assms(1), of "allocator_id n" "node_number n" s]
      parse_ipn_two [OF assms(1), of "node_number n" s]
    by (cases n) (auto simp: eid_display_def eid_from_str_ipn parse_all_def ipn_of_parts_def eid_ok_def)
next
  case (Unknown c b)
  with assms(3) show ?thesis by simp
qed

end
