(* ===== verification/Bpv7_Primary.thy ===== *)
theory Bpv7_Primary
  imports Bpv7_Timestamp Bpv7_Block Bpv7_Eid_Codec
begin

text \<open>
  The primary block (\<^verbatim>\<open>primary_block.rs\<close>) and the bundle identifier with its database key
  (\<^verbatim>\<open>bundle.rs\<close>). The base64 coder of the key is an argument.
\<close>

section \<open>Bundle identity\<close>

record FragmentInfo =
  fi_offset :: u64
  total_adu_length :: u64

record bundle_id =
  id_source :: Eid
  id_timestamp :: CreationTimestamp
  id_fragment_info :: "FragmentInfo option"

datatype id_error = BadKey | BadBase64 | IdInvalidField string id_error | IdInvalidEid eid_error
  | IdInvalidBundle bp_error | IdInvalidCBOR cbor_error

text \<open>\<^verbatim>\<open>Id::to_key\<close> and \<^verbatim>\<open>Id::from_key\<close>.\<close>

definition to_key :: "text_ops \<Rightarrow> (bytes \<Rightarrow> 'k) \<Rightarrow> bundle_id \<Rightarrow> 'k option" where
  "to_key X b64 i =
    map_option b64 (emit_value (tuple_to_cbor
      (case id_fragment_info i of
         Some f \<Rightarrow> [eid_to_cbor X (id_source i), timestamp_to_cbor (id_timestamp i),
                    uint_to_cbor (fi_offset f), uint_to_cbor (total_adu_length f)]
       | None \<Rightarrow> [eid_to_cbor X (id_source i), timestamp_to_cbor (id_timestamp i)])))"

definition map_field_id_err :: "('f \<Rightarrow> id_error) \<Rightarrow> string \<Rightarrow> 'f + 'a \<Rightarrow> id_error + 'a" where
  "map_field_id_err into field r = map_err (\<lambda>e. IdInvalidField field (into e)) r"

definition id_body :: "text_ops \<Rightarrow> float_ops \<Rightarrow> series \<Rightarrow> bool \<Rightarrow> u64 list \<Rightarrow> id_error + (bundle_id \<times> series)" where
  "id_body X F a _ _ =
    and_then (map_field_id_err IdInvalidEid ''source EID''
      (series_parse eid_of_cbor 1 (eid_from_cbor X F) a)) (\<lambda>(source, a).
    and_then (map_field_id_err IdInvalidBundle ''creation timestamp''
      (series_parse bp_of_cbor 1 (timestamp_from_cbor F) a)) (\<lambda>(timestamp, a).
    and_then
      (if series_count 1 a = Some 4 then
         and_then (map_field_id_err IdInvalidCBOR ''fragment offset''
           (series_parse id 1 (u64_from_cbor F) a)) (\<lambda>(off, a).
         and_then (map_field_id_err IdInvalidCBOR ''total application data unit Length''
           (series_parse id 1 (u64_from_cbor F) a)) (\<lambda>(len, a).
           Inr (Some \<lparr>fi_offset = off, total_adu_length = len\<rparr>, a)))
       else Inr (None, a)) (\<lambda>(fragment_info, a).
    and_then (map_err IdInvalidCBOR (at_end 1 a)) (\<lambda>(e, a).
      if \<not> e then Inl BadKey
      else Inr (\<lparr>id_source = source, id_timestamp = timestamp, id_fragment_info = fragment_info\<rparr>, a)))))"

definition from_key :: "text_ops \<Rightarrow> float_ops \<Rightarrow> ('k \<Rightarrow> bytes option) \<Rightarrow> 'k \<Rightarrow> id_error + bundle_id" where
  "from_key X F unb64 k =
    and_then (ok_or (unb64 k) BadBase64) (\<lambda>d.
    and_then (parse_array IdInvalidCBOR F (id_body X F) d) (\<lambda>(v, _). Inr v))"

section \<open>The primary block\<close>

record primary_block =
  pb_flags :: bundle_flags
  pb_id :: bundle_id
  pb_crc_type :: CrcType
  pb_destination :: Eid
  pb_report_to :: Eid
  pb_lifetime :: duration

definition primary_count :: "primary_block \<Rightarrow> nat" where
  "primary_count p =
    (if pb_crc_type p = NoCrc then 8 else 9) +
    (if id_fragment_info (pb_id p) \<noteq> None then 2 else 0)"

text \<open>The lifetime is cast to \<^verbatim>\<open>u64\<close>, which truncates.\<close>

definition primary_emitters :: "text_ops \<Rightarrow> primary_block \<Rightarrow> emitter list" where
  "primary_emitters X p =
    [int_to_cbor (7 :: 32 word), bundle_flags_to_cbor (pb_flags p), crc_type_to_cbor (pb_crc_type p),
     eid_to_cbor X (pb_destination p), eid_to_cbor X (id_source (pb_id p)), eid_to_cbor X (pb_report_to p),
     timestamp_to_cbor (id_timestamp (pb_id p)), uint_to_cbor (of_nat (as_millis (pb_lifetime p)) :: u64)] @
    (case id_fragment_info (pb_id p) of
       Some f \<Rightarrow> [uint_to_cbor (fi_offset f), uint_to_cbor (total_adu_length f)]
     | None \<Rightarrow> [])"

definition primary_emit :: "text_ops \<Rightarrow> crc_ops \<Rightarrow> primary_block \<Rightarrow> (bp_error + bytes) option" where
  "primary_emit X C p =
    map_option (\<lambda>body. map_err InvalidCrc (append_crc_value C (pb_crc_type p) body))
      (emit_value (emit_array (Some (primary_count p)) (\<lambda>a.
        Option.bind (emit_fields (primary_emitters X p) a) (\<lambda>a.
          if pb_crc_type p \<noteq> NoCrc then sequence_skip_value a else Some a))))"

text \<open>The closure that parses and verifies the CRC value at the end of the block array.\<close>

definition crc_range :: "nat \<Rightarrow> (bp_error, nat \<times> nat) closure" where
  "crc_range crc_start v s tags =
    (if \<not> s \<or> tags \<noteq> [] then Inl NotCanonical
     else (case v of
             VBytes r \<Rightarrow> Inr ((fst r + crc_start, snd r + crc_start), v)
           | _ \<Rightarrow> Inl (InvalidCBOR (IncorrectType ''Definite-length Byte String'' (value_item_type v tags)))))"

definition primary_crc :: "crc_ops \<Rightarrow> float_ops \<Rightarrow> bytes \<Rightarrow> CrcType \<Rightarrow> series \<Rightarrow> bp_error + series" where
  "primary_crc C F d crc_type block =
    and_then (series_try_parse_value bp_of_cbor F 1 (crc_range (sr_offset block)) block) (\<lambda>(crc_value, block).
    and_then (map_err bp_of_cbor (at_end 1 block)) (\<lambda>(_, block).
      case (crc_type, crc_value) of
        (NoCrc, None) \<Rightarrow> Inr block
      | (NoCrc, Some _) \<Rightarrow> Inl (InvalidCrc UnexpectedCrcValue)
      | (_, None) \<Rightarrow> Inl (InvalidCrc MissingCrc)
      | (crc_type, Some crc) \<Rightarrow>
          and_then (map_err InvalidCrc (digest_new crc_type)) (\<lambda>digest.
            let digest = digest_push (slice d (0, fst crc)) digest;
                digest = snd (digest_push_zeros digest);
                digest = digest_push (slice d (snd crc, sr_offset block)) digest
            in if \<not> digest_verify C digest (slice d crc) then Inl (InvalidCrc IncorrectCrc)
               else Inr block)))"

definition primary_fragment ::
  "float_ops \<Rightarrow> bundle_flags \<Rightarrow> series \<Rightarrow> bp_error + (FragmentInfo option \<times> series)" where
  "primary_fragment F flags block =
    (if \<not> is_fragment flags then Inr (None, block)
     else
       and_then (require_u64 F block ''fragment offset'') (\<lambda>(off, block).
       and_then (require_u64 F block ''total adu length'') (\<lambda>(total, block).
         if off > total then Inl (InvalidFragmentInfo off total)
         else Inr (Some \<lparr>fi_offset = off, total_adu_length = total\<rparr>, block))))"

definition primary_body ::
  "text_ops \<Rightarrow> crc_ops \<Rightarrow> float_ops \<Rightarrow> bytes \<Rightarrow> series \<Rightarrow> bool \<Rightarrow> u64 list \<Rightarrow>
   bp_error + ((primary_block \<times> bool) \<times> series)" where
  "primary_body X C F d block s tags =
    (if \<not> s \<or> tags \<noteq> [] then Inl NotCanonical
     else
       let definite = is_definite block in
       and_then (require_u64 F block ''version'') (\<lambda>(version, block).
       if version \<noteq> 7 then Inl (InvalidVersion version)
       else
       and_then (require_canonical bp_of_cbor id InvalidField 1 (bundle_flags_from_cbor F) block
                   ''bundle processing control flags'' NotCanonical) (\<lambda>(flags, block).
       and_then (require_canonical bp_of_cbor id InvalidField 1 (crc_type_from_cbor F) block
                   ''crc type'' NotCanonical) (\<lambda>(crc_type, block).
       and_then (parse_item eid_of_cbor InvalidEid (eid_from_cbor X F) block ''destination endpoint id'') (\<lambda>((destination, dest_s), block).
       and_then (parse_item eid_of_cbor InvalidEid (eid_from_cbor X F) block ''source endpoint id'') (\<lambda>((source, src_s), block).
       and_then (parse_item eid_of_cbor InvalidEid (eid_from_cbor X F) block ''report-to endpoint id'') (\<lambda>((report_to, rpt_s), block).
       and_then (parse_item bp_of_cbor id (timestamp_from_cbor F) block ''timestamp'') (\<lambda>((timestamp, ts_s), block).
       and_then (require_u64 F block ''lifetime'') (\<lambda>(lifetime, block).
       and_then (primary_fragment F flags block) (\<lambda>(fragment_info, block).
       and_then (map_field_err InvalidField id ''CRC value'' (primary_crc C F d crc_type block)) (\<lambda>block.
         Inr ((\<lparr>pb_flags = flags,
                pb_id = \<lparr>id_source = source, id_timestamp = timestamp, id_fragment_info = fragment_info\<rparr>,
                pb_crc_type = crc_type, pb_destination = destination, pb_report_to = report_to,
                pb_lifetime = from_millis lifetime\<rparr>,
               definite \<and> dest_s \<and> src_s \<and> rpt_s \<and> ts_s), block))))))))))))"

definition primary_from_cbor :: "text_ops \<Rightarrow> crc_ops \<Rightarrow> float_ops \<Rightarrow> (bp_error, primary_block) from_cbor" where
  "primary_from_cbor X C F d =
    and_then (parse_array bp_of_cbor F (primary_body X C F d) d) (\<lambda>((v, s), len). Inr (v, s, len))"

definition primary_as_block :: "CrcType \<Rightarrow> nat \<times> nat \<Rightarrow> block" where
  "primary_as_block t ext =
    block_default\<lparr>blk_type := Primary, blk_flags := block_flags_primary, blk_crc_type := t,
      blk_data := (0, of_nat (snd ext - fst ext)), blk_extent := range_u64 ext\<rparr>"

section \<open>Valid primary blocks and their encoding\<close>

definition primary_ok :: "float_ops \<Rightarrow> primary_block \<Rightarrow> bool" where
  "primary_ok F p \<longleftrightarrow> bundle_flags_ok (pb_flags p) \<and>
    (case pb_crc_type p of UnrecognisedCrc _ \<Rightarrow> False | _ \<Rightarrow> True) \<and>
    eid_ok F (pb_destination p) \<and> eid_ok F (id_source (pb_id p)) \<and> eid_ok F (pb_report_to p) \<and>
    timestamp_ok (id_timestamp (pb_id p)) \<and>
    pb_lifetime p mod 1000000 = 0 \<and> as_millis (pb_lifetime p) < 2 ^ 64 \<and>
    (case id_fragment_info (pb_id p) of
       None \<Rightarrow> \<not> is_fragment (pb_flags p)
     | Some f \<Rightarrow> is_fragment (pb_flags p) \<and> fi_offset f \<le> total_adu_length f)"

definition primary_fields :: "text_ops \<Rightarrow> primary_block \<Rightarrow> bytes list" where
  "primary_fields X p =
    [head_bytes 0 7, head_bytes 0 (bundle_flags_into (pb_flags p)), head_bytes 0 (crc_type_into (pb_crc_type p)),
     eid_enc X (pb_destination p), eid_enc X (id_source (pb_id p)), eid_enc X (pb_report_to p),
     timestamp_enc (id_timestamp (pb_id p)), head_bytes 0 (of_nat (as_millis (pb_lifetime p)))] @
    (case id_fragment_info (pb_id p) of
       Some f \<Rightarrow> [head_bytes 0 (fi_offset f), head_bytes 0 (total_adu_length f)]
     | None \<Rightarrow> [])"

definition primary_crc_fields :: "text_ops \<Rightarrow> crc_ops \<Rightarrow> primary_block \<Rightarrow> bytes list" where
  "primary_crc_fields X C p =
    (if pb_crc_type p = NoCrc then []
     else [crc_field C (pb_crc_type p)
             (head_bytes 4 (of_nat (primary_count p)) @ concat (primary_fields X p))])"

definition primary_enc :: "text_ops \<Rightarrow> crc_ops \<Rightarrow> primary_block \<Rightarrow> bytes" where
  "primary_enc X C p = array_enc (primary_fields X p @ primary_crc_fields X C p)"

lemma primary_count_fields: "length (primary_fields X p @ primary_crc_fields X C p) = primary_count p"
  by (simp add: primary_fields_def primary_crc_fields_def primary_count_def split: option.splits)

lemma primary_enc_split:
  "primary_enc X C p =
    head_bytes 4 (of_nat (primary_count p)) @ concat (primary_fields X p) @ concat (primary_crc_fields X C p)"
  unfolding primary_enc_def array_enc_def primary_count_fields by simp

lemma primary_emitters_write: "list_all2 writes (primary_emitters X p) (primary_fields X p)"
proof -
  have "writes (int_to_cbor (7 :: 32 word)) (head_bytes 0 7)"
    using int_to_cbor_writes [of "7 :: 32 word"] by (simp add: int_enc_def)
  moreover have "writes (uint_to_cbor v) (head_bytes 0 v)" for v :: u64
    using writes_uint [of v] by simp
  ultimately show ?thesis
    by (simp add: primary_emitters_def primary_fields_def bundle_flags_to_cbor_def crc_type_to_cbor_def
        eid_writes timestamp_writes split: option.split)
qed

lemma primary_emit_eq:
  assumes "case pb_crc_type p of UnrecognisedCrc _ \<Rightarrow> False | _ \<Rightarrow> True"
  shows "primary_emit X C p = Some (Inr (primary_enc X C p))"
proof -
  let ?c = "primary_count p" and ?fs = "primary_fields X p"
  let ?h = "head_bytes 4 (of_nat ?c)"
  have c: "?c < 2 ^ 64" by (simp add: primary_count_def)
  have len: "length (primary_emitters X p) = length ?fs"
    using primary_emitters_write by (rule list_all2_lengthD)
  have cnt: "length ?fs + (if pb_crc_type p = NoCrc then 0 else 1) = ?c"
    using primary_count_fields [of X p C] by (simp add: primary_crc_fields_def split: if_splits)
  have "emit_value (emit_array (Some ?c) (\<lambda>a. Option.bind (emit_fields (primary_emitters X p) a) (\<lambda>a.
      if pb_crc_type p \<noteq> NoCrc then sequence_skip_value a else Some a))) = Some (?h @ concat ?fs)"
    using c cnt len
    by (cases "pb_crc_type p = NoCrc") (auto simp: emit_value_def emit_array_def emit_seq_def emit_fields_writes [OF primary_emitters_write]
        sequence_new_def sequence_end_def sequence_skip_value_def next_field_def Let_def emit_uint_minor_eq
        encoder_build_def)
  moreover have "append_crc_value C (pb_crc_type p) (?h @ concat ?fs) = Inr (primary_enc X C p)"
    using assms primary_count_fields [of X p C]
    by (cases "pb_crc_type p") (auto simp: append_crc_value_eq primary_enc_def array_enc_def primary_crc_fields_def)
  ultimately show ?thesis by (simp add: primary_emit_def)
qed

section \<open>Reading a primary block back\<close>

lemma parse_value_bytes:
  assumes "length ((head_bytes 2 (of_nat (length b)) @ b) @ r) \<le> usize_max"
  shows "parse_value conv F f ((head_bytes 2 (of_nat (length b)) @ b) @ r) =
    (let h = length (head_bytes 2 (of_nat (length b)))
     in and_then (f (VBytes (h, h + length b)) True []) (\<lambda>(x, _). Inr (x, h + length b)))"
proof -
  let ?h = "head_bytes 2 (of_nat (length b))"
  have l: "length (?h @ b @ r) \<le> usize_max" "unat (of_nat (length b) :: u64) = length b"
    using assms by (simp_all add: unat_of_nat_length)
  show ?thesis
    using head_from_cbor_head_bytes [of 2 "of_nat (length b)" "b @ r" F] l
      offset_extent_append [OF l(1), of "of_nat (length b)"]
    by (simp add: parse_value_def major_marker_def head_of_major_def Let_def)
qed

lemma primary_crc_none: "reads s [] r \<Longrightarrow> primary_crc C F d NoCrc s = Inr s"
  by (simp add: primary_crc_def series_try_parse_value_def reads_done del: One_nat_def)

lemma crc_field_head: "crc_field C t pre = digest_cbor_head dg # crc_value C t pre" if "digest_new t = Inr dg"
  using that by (cases t) (auto simp: crc_field_def digest_new_def length_crc_value head_bytes_cases)

lemma digest_over_block:
  "digest_new t = Inr dg \<Longrightarrow>
    digest_verify C (snd (digest_push_zeros (digest_push (pre @ [digest_cbor_head dg]) dg))) (crc_value C t pre)"
  by (cases t) (auto simp: digest_new_def crc_value_def)

lemma primary_crc_written:
  assumes "digest_new t = Inr dg" and "reads s [crc_field C t pre] r"
    and "sr_data s = pre @ crc_field C t pre @ r" and "sr_offset s = length pre"
  shows "primary_crc C F (sr_data s) t s = Inr (series_advance (length (crc_field C t pre)) s)"
proof -
  let ?v = "crc_value C t pre" and ?f = "crc_field C t pre" and ?d = "sr_data s"
  let ?s = "series_advance (length ?f) s"
  note fh = crc_field_head [OF assms(1), of C pre]
  have hb: "head_bytes 2 (of_nat (length ?v)) = [digest_cbor_head dg]"
    using fh by (simp add: crc_field_def)
  note r1 = reads_advance [OF assms(2)]
  note f1 = reads_field [OF assms(2)]
  have "length (?f @ r) \<le> usize_max" using field_at_len [OF f1] by simp
  then have pv: "parse_value bp_of_cbor F (crc_range (length pre)) (?f @ r) =
      Inr ((1 + length pre, 1 + length ?v + length pre), length ?f)"
    using parse_value_bytes [of ?v r bp_of_cbor F "crc_range (length pre)"]
    by (simp add: crc_field_def hb crc_range_def Let_def)
  have d: "drop (length pre) ?d = ?f @ r" using assms(3) by simp
  have "series_try_parse_value bp_of_cbor F 1 (crc_range (sr_offset s)) s =
      Inr (Some (1 + length pre, 1 + length ?v + length pre), ?s)"
    using pv d assms(4)
    by (simp add: series_try_parse_value_def series_parse_value_def reads_more [OF assms(2)]
        del: One_nat_def)
  moreover have sl: "slice ?d (0, 1 + length pre) = pre @ [digest_cbor_head dg]"
    "slice ?d (1 + length ?v + length pre, sr_offset ?s) = []"
    "slice ?d (1 + length pre, 1 + length ?v + length pre) = ?v"
    using assms(3,4) by (simp_all add: slice_def fh)
  ultimately show ?thesis
    using assms(1) digest_over_block [OF assms(1), of C pre] reads_done(1) [OF r1, of 1]
    by (cases t) (simp_all add: primary_crc_def digest_new_def Let_def del: One_nat_def)
qed

text \<open>The fields up to the CRC, read one after the other.\<close>

lemma primary_fragment_reads:
  assumes "reads s ((case fi of Some f \<Rightarrow> [head_bytes 0 (fi_offset f), head_bytes 0 (total_adu_length f)] | None \<Rightarrow> []) @ fs) r"
    and "case fi of None \<Rightarrow> \<not> is_fragment flags | Some f \<Rightarrow> is_fragment flags \<and> fi_offset f \<le> total_adu_length f"
  shows "\<exists>s'. primary_fragment F flags s = Inr (fi, s') \<and> reads s' fs r \<and> sr_data s' = sr_data s"
proof (cases fi)
  case None
  with assms show ?thesis by (simp add: primary_fragment_def)
next
  case (Some f)
  then have r0: "reads s (head_bytes 0 (fi_offset f) # head_bytes 0 (total_adu_length f) # fs) r"
    using assms(1) by simp
  note r1 = reads_advance [OF r0]
  note r2 = reads_advance [OF r1]
  have "\<not> fi_offset f > total_adu_length f" using assms(2) Some by auto
  then show ?thesis
    using assms(2) Some r2
    by (simp add: primary_fragment_def u64_strict.require_canonical_at [OF TrueI reads_field [OF r0]]
        u64_strict.require_canonical_at [OF TrueI reads_field [OF r1]] del: One_nat_def)
qed

lemma primary_crc_reads:
  assumes "case pb_crc_type p of UnrecognisedCrc _ \<Rightarrow> False | _ \<Rightarrow> True"
    and "reads s (primary_crc_fields X C p) r" and "sr_data s = primary_enc X C p @ r"
  shows "\<exists>s'. primary_crc C F (sr_data s) (pb_crc_type p) s = Inr s' \<and> reads s' [] r \<and> sr_data s' = sr_data s"
proof (cases "pb_crc_type p = NoCrc")
  case True
  then have "reads s [] r" using assms(2) by (simp add: primary_crc_fields_def)
  then show ?thesis using primary_crc_none True by auto
next
  case False
  let ?pre = "head_bytes 4 (of_nat (primary_count p)) @ concat (primary_fields X p)"
  obtain dg where dg: "digest_new (pb_crc_type p) = Inr dg"
    using assms(1) False by (cases "pb_crc_type p") (auto simp: digest_new_def)
  have rd: "reads s [crc_field C (pb_crc_type p) ?pre] r"
    using assms(2) False by (simp add: primary_crc_fields_def)
  have d: "sr_data s = ?pre @ crc_field C (pb_crc_type p) ?pre @ r"
    using assms(3) False by (simp add: primary_enc_split primary_crc_fields_def)
  have "length (sr_data s) - sr_offset s = length (crc_field C (pb_crc_type p) ?pre @ r)"
    using rd by (simp add: reads_def flip: length_drop)
  moreover have "sr_offset s \<le> length (sr_data s)" using rd by (simp only: reads_def)
  ultimately have "sr_offset s = length ?pre" using d by simp
  from primary_crc_written [OF dg rd d this] show ?thesis
    using reads_advance [OF rd] by auto
qed

lemma primary_body_reads:
  assumes "text_spec X" and ok: "primary_ok F p"
    and rd: "reads s (primary_fields X p @ primary_crc_fields X C p) r" and d: "sr_data s = primary_enc X C p @ r"
  shows "\<exists>s'. primary_body X C F (sr_data s) s True [] = Inr ((p, True), s') \<and> reads s' [] r \<and> sr_data s' = sr_data s"
proof -
  let ?i = "pb_id p" and ?crc = "primary_crc_fields X C p"
  let ?fr = "(case id_fragment_info ?i of Some f \<Rightarrow> [head_bytes 0 (fi_offset f), head_bytes 0 (total_adu_length f)] | None \<Rightarrow> [])"
  note eid = eid_codec.parse_item_at [OF conjI [OF assms(1)]]
  have r0: "reads s (head_bytes 0 7 # head_bytes 0 (bundle_flags_into (pb_flags p)) #
      head_bytes 0 (crc_type_into (pb_crc_type p)) # eid_enc X (pb_destination p) # eid_enc X (id_source ?i) #
      eid_enc X (pb_report_to p) # timestamp_enc (id_timestamp ?i) #
      head_bytes 0 (of_nat (as_millis (pb_lifetime p))) # ?fr @ ?crc) r"
    using rd by (simp add: primary_fields_def)
  note r1 = reads_advance [OF r0] note r2 = reads_advance [OF r1] note r3 = reads_advance [OF r2]
  note r4 = reads_advance [OF r3] note r5 = reads_advance [OF r4] note r6 = reads_advance [OF r5]
  note r7 = reads_advance [OF r6] note r8 = reads_advance [OF r7]
  have "case id_fragment_info ?i of None \<Rightarrow> \<not> is_fragment (pb_flags p)
      | Some f \<Rightarrow> is_fragment (pb_flags p) \<and> fi_offset f \<le> total_adu_length f"
    using ok by (simp only: primary_ok_def)
  from primary_fragment_reads [OF r8 this] obtain s9 where
    s9: "primary_fragment F (pb_flags p) (series_advance (length (head_bytes 0 (of_nat (as_millis (pb_lifetime p)))))
      (series_advance (length (timestamp_enc (id_timestamp ?i))) (series_advance (length (eid_enc X (pb_report_to p)))
      (series_advance (length (eid_enc X (id_source ?i))) (series_advance (length (eid_enc X (pb_destination p)))
      (series_advance (length (head_bytes 0 (crc_type_into (pb_crc_type p))))
      (series_advance (length (head_bytes 0 (bundle_flags_into (pb_flags p))))
      (series_advance (length (head_bytes 0 7)) s)))))))) = Inr (id_fragment_info ?i, s9)"
    "reads s9 ?crc r" "sr_data s9 = sr_data s"
    by auto
  from primary_crc_reads [OF _ s9(2), of F] ok d s9(3) obtain s10 where
    s10: "primary_crc C F (sr_data s) (pb_crc_type p) s9 = Inr s10" "reads s10 [] r" "sr_data s10 = sr_data s"
    by (auto simp: primary_ok_def)
  have lt: "from_millis (of_nat (as_millis (pb_lifetime p))) = pb_lifetime p"
    using ok div_mult_mod_eq [of "pb_lifetime p" 1000000]
    by (simp add: primary_ok_def from_millis_def as_millis_def unat_of_nat)
  have ct: "crc_type_ok (pb_crc_type p)"
    using ok by (cases "pb_crc_type p") (simp_all add: primary_ok_def crc_type_ok_def crc_type_from_def crc_type_into_def)
  have df: "is_definite s" using rd by (simp add: reads_def is_definite_def)
  have "bundle_flags_ok (pb_flags p)" "eid_ok F (pb_destination p)" "eid_ok F (id_source ?i)"
    "eid_ok F (pb_report_to p)" "timestamp_ok (id_timestamp ?i)"
    using ok by (simp_all add: primary_ok_def)
  note steps = u64_strict.require_canonical_at [OF TrueI reads_field [OF r0]]
    bundle_flags_codec.require_canonical_at [OF this(1) reads_field [OF r1]]
    crc_type_codec.require_canonical_at [OF ct reads_field [OF r2]]
    eid [OF this(2) reads_field [OF r3]] eid [OF this(3) reads_field [OF r4]] eid [OF this(4) reads_field [OF r5]]
    timestamp_codec.parse_item_at [OF this(5) reads_field [OF r6]]
    u64_strict.require_canonical_at [OF TrueI reads_field [OF r7]]
  have "primary_body X C F (sr_data s) s True [] = Inr ((p, True), s10)"
    by (simp add: primary_body_def steps s9(1) s10(1) map_field_err_def lt df del: One_nat_def)
  then show ?thesis using s10 by auto
qed

lemma primary_from_cbor_enc:
  assumes "text_spec X" and "primary_ok F p" and "length (primary_enc X C p @ r) \<le> usize_max"
  shows "primary_from_cbor X C F (primary_enc X C p @ r) = Inr (p, True, length (primary_enc X C p))"
proof -
  have "length (primary_fields X p @ primary_crc_fields X C p) < 2 ^ 64"
    unfolding primary_count_fields by (simp add: primary_count_def)
  then have "parse_array bp_of_cbor F (primary_body X C F (primary_enc X C p @ r)) (primary_enc X C p @ r) =
      Inr ((p, True), length (primary_enc X C p))"
    using primary_body_reads [OF assms(1,2), of _ C r] assms(3)
    unfolding primary_enc_def by (intro parse_array_reads) (simp_all del: length_append)
  then show ?thesis by (simp add: primary_from_cbor_def)
qed

section \<open>Keys\<close>

definition id_fields :: "text_ops \<Rightarrow> bundle_id \<Rightarrow> bytes list" where
  "id_fields X i =
    [eid_enc X (id_source i), timestamp_enc (id_timestamp i)] @
    (case id_fragment_info i of
       Some f \<Rightarrow> [head_bytes 0 (fi_offset f), head_bytes 0 (total_adu_length f)]
     | None \<Rightarrow> [])"

lemma to_key_eq: "to_key X b64 i = Some (b64 (array_enc (id_fields X i)))"
proof -
  have l: "writes (uint_to_cbor v) (head_bytes 0 v)" for v :: u64
    using writes_uint [of v] by simp
  have "writes (tuple_to_cbor
      (case id_fragment_info i of
         Some f \<Rightarrow> [eid_to_cbor X (id_source i), timestamp_to_cbor (id_timestamp i),
                    uint_to_cbor (fi_offset f), uint_to_cbor (total_adu_length f)]
       | None \<Rightarrow> [eid_to_cbor X (id_source i), timestamp_to_cbor (id_timestamp i)])) (array_enc (id_fields X i))"
    by (rule writes_array) (auto simp: id_fields_def eid_writes timestamp_writes l split: option.splits)
  then show ?thesis by (simp add: to_key_def writes_emit_value)
qed

lemma id_body_reads:
  assumes "text_spec X" and "eid_ok F (id_source i)" and "timestamp_ok (id_timestamp i)"
    and rd: "reads s (id_fields X i) r" and "sr_parsed s = 0"
  shows "\<exists>s'. id_body X F s True [] = Inr (i, s') \<and> reads s' [] r \<and> sr_data s' = sr_data s"
proof -
  note e = eid_codec.series_parse_at [OF conjI [OF assms(1,2)]]
  have r0: "reads s (eid_enc X (id_source i) # timestamp_enc (id_timestamp i) #
      (case id_fragment_info i of Some f \<Rightarrow> [head_bytes 0 (fi_offset f), head_bytes 0 (total_adu_length f)] | None \<Rightarrow> [])) r"
    using rd by (simp add: id_fields_def)
  note r1 = reads_advance [OF r0] note r2 = reads_advance [OF r1]
  note st = e [OF reads_field [OF r0]] timestamp_codec.series_parse_at [OF assms(3) reads_field [OF r1]]
  have cnt: "series_count 1 (series_advance m (series_advance k s)) = Some (length (id_fields X i))" for m k
    using rd assms(5) by (simp add: series_count_def reads_def)
  show ?thesis
  proof (cases "id_fragment_info i")
    case None
    have q: "reads (series_advance (length (timestamp_enc (id_timestamp i)))
        (series_advance (length (eid_enc X (id_source i))) s)) [] r" using r2 None by simp
    have i: "\<lparr>id_source = id_source i, id_timestamp = id_timestamp i, id_fragment_info = None\<rparr> = i"
      using None by (cases i) simp
    show ?thesis
      using None q i by (simp add: id_body_def map_field_id_err_def st cnt id_fields_def reads_done [OF q] del: One_nat_def)
  next
    case (Some f)
    have q2: "reads (series_advance (length (timestamp_enc (id_timestamp i)))
        (series_advance (length (eid_enc X (id_source i))) s))
        [head_bytes 0 (fi_offset f), head_bytes 0 (total_adu_length f)] r" using r2 Some by simp
    note q3 = reads_advance [OF q2] note q4 = reads_advance [OF q3]
    have i: "\<lparr>id_source = id_source i, id_timestamp = id_timestamp i,
        id_fragment_info = Some \<lparr>fi_offset = fi_offset f, total_adu_length = total_adu_length f\<rparr>\<rparr> = i"
      using Some by (cases i) simp
    show ?thesis
      using Some q4 i
      by (simp add: id_body_def map_field_id_err_def st cnt id_fields_def reads_done [OF q4]
          u64_strict.series_parse_at [OF TrueI reads_field [OF q2]]
          u64_strict.series_parse_at [OF TrueI reads_field [OF q3]] del: One_nat_def)
  qed
qed

lemma from_key_to_key:
  assumes "text_spec X" and "eid_ok F (id_source i)" and "timestamp_ok (id_timestamp i)"
    and "\<forall>b. unb64 (b64 b) = Some b" and "length (array_enc (id_fields X i)) \<le> usize_max"
  shows "\<exists>k. to_key X b64 i = Some k \<and> from_key X F unb64 k = Inr i"
proof -
  have "length (id_fields X i) < 2 ^ 64" by (simp add: id_fields_def split: option.split)
  then have "parse_array IdInvalidCBOR F (id_body X F) (array_enc (id_fields X i) @ []) =
      Inr (i, length (array_enc (id_fields X i)))"
    using assms(5) by (intro parse_array_reads id_body_reads [OF assms(1-3)]) simp_all
  then show ?thesis using assms(4) by (simp add: to_key_eq from_key_def)
qed

end
