(* ===== verification/Bpv7_Status.thy ===== *)
theory Bpv7_Status
  imports Bpv7_Primary
begin

text \<open>
  \<^verbatim>\<open>status_report.rs\<close>: reason codes, bundle status reports and administrative records. The
  \<^verbatim>\<open>canonical\<close> flag that the closures update through a mutable reference is passed along
  and returned.
\<close>

section \<open>Reason codes\<close>

datatype ReasonCode = NoAdditionalInformation | LifetimeExpired | ForwardedOverUnidirectionalLink
  | TransmissionCanceled | DepletedStorage | DestinationEndpointIDUnavailable
  | NoKnownRouteToDestinationFromHere | NoTimelyContactWithNextNodeOnRoute | BlockUnintelligible
  | HopLimitExceeded | TrafficPared | BlockUnsupported | MissingSecurityOperation
  | UnknownSecurityOperation | UnexpectedSecurityOperation | FailedSecurityOperation
  | ConflictingSecurityOperation | Unassigned u64

fun reason_into :: "ReasonCode \<Rightarrow> u64" where
  "reason_into NoAdditionalInformation = 0"
| "reason_into LifetimeExpired = 1"
| "reason_into ForwardedOverUnidirectionalLink = 2"
| "reason_into TransmissionCanceled = 3"
| "reason_into DepletedStorage = 4"
| "reason_into DestinationEndpointIDUnavailable = 5"
| "reason_into NoKnownRouteToDestinationFromHere = 6"
| "reason_into NoTimelyContactWithNextNodeOnRoute = 7"
| "reason_into BlockUnintelligible = 8"
| "reason_into HopLimitExceeded = 9"
| "reason_into TrafficPared = 10"
| "reason_into BlockUnsupported = 11"
| "reason_into MissingSecurityOperation = 12"
| "reason_into UnknownSecurityOperation = 13"
| "reason_into UnexpectedSecurityOperation = 14"
| "reason_into FailedSecurityOperation = 15"
| "reason_into ConflictingSecurityOperation = 16"
| "reason_into (Unassigned v) = v"

definition reason_try_from :: "u64 \<Rightarrow> status_error + ReasonCode" where
  "reason_try_from v =
    (if v = 0 then Inr NoAdditionalInformation
     else if v = 1 then Inr LifetimeExpired
     else if v = 2 then Inr ForwardedOverUnidirectionalLink
     else if v = 3 then Inr TransmissionCanceled
     else if v = 4 then Inr DepletedStorage
     else if v = 5 then Inr DestinationEndpointIDUnavailable
     else if v = 6 then Inr NoKnownRouteToDestinationFromHere
     else if v = 7 then Inr NoTimelyContactWithNextNodeOnRoute
     else if v = 8 then Inr BlockUnintelligible
     else if v = 9 then Inr HopLimitExceeded
     else if v = 10 then Inr TrafficPared
     else if v = 11 then Inr BlockUnsupported
     else if v = 12 then Inr MissingSecurityOperation
     else if v = 13 then Inr UnknownSecurityOperation
     else if v = 14 then Inr UnexpectedSecurityOperation
     else if v = 15 then Inr FailedSecurityOperation
     else if v = 16 then Inr ConflictingSecurityOperation
     else if v = 255 then Inl ReservedStatusReportReason
     else Inr (Unassigned v))"

definition reason_to_cbor :: "ReasonCode \<Rightarrow> emitter" where
  "reason_to_cbor r = uint_to_cbor (reason_into r)"

definition reason_from_cbor :: "float_ops \<Rightarrow> (status_error, ReasonCode) from_cbor" where
  "reason_from_cbor F d =
    and_then (parse_canonical id status_of_cbor (u64_from_cbor F) d SrNotCanonical) (\<lambda>(v, len).
    and_then (reason_try_from v) (\<lambda>r. Inr (r, True, len)))"

section \<open>Status assertions\<close>

text \<open>An absent assertion, one without a time, or one with an instant.\<close>

type_synonym status_assertion = "int option option"

definition emit_status_assertion :: "time_ops \<Rightarrow> status_assertion \<Rightarrow> emitter" where
  "emit_status_assertion T sa =
    (case sa of
       None \<Rightarrow> slice_to_cbor bool_to_cbor [False]
     | Some None \<Rightarrow> slice_to_cbor bool_to_cbor [True]
     | Some (Some t) \<Rightarrow> tuple_to_cbor [bool_to_cbor True, dtn_time_to_cbor (saturating_from T t)])"

definition assertion_body ::
  "time_ops \<Rightarrow> float_ops \<Rightarrow> bool \<Rightarrow> series \<Rightarrow> bool \<Rightarrow> u64 list \<Rightarrow>
   status_error + ((status_assertion \<times> bool) \<times> series)" where
  "assertion_body T F canonical a s tags =
    (if \<not> s \<or> tags \<noteq> [] then Inl SrNotCanonical
     else
       let canonical = (canonical \<and> is_definite a) in
       and_then (require_canonical id status_of_cbor SrInvalidField 1 (bool_from_cbor F) a ''status'' SrNotCanonical) (\<lambda>(status, a).
       if status then
         and_then (map_field_err SrInvalidField SrInvalidBundle ''timestamp''
                     (series_try_parse bp_of_cbor 1 (dtn_time_from_cbor F) a)) (\<lambda>(t, a).
           case t of
             Some t \<Rightarrow> if millisecs t = 0 then Inr ((Some None, canonical), a)
                       else Inr ((Some (Some (dtn_time_into T t)), canonical), a)
           | None \<Rightarrow> Inr ((Some None, canonical), a))
       else Inr ((None, canonical), a)))"

definition parse_status_assertion ::
  "time_ops \<Rightarrow> float_ops \<Rightarrow> bool \<Rightarrow> series \<Rightarrow> status_error + ((status_assertion \<times> bool) \<times> series)" where
  "parse_status_assertion T F canonical a =
    series_parse_array status_of_cbor F 1 (assertion_body T F canonical) a"

section \<open>Reports and records\<close>

record status_report =
  sr_bundle_id :: bundle_id
  sr_received :: status_assertion
  sr_forwarded :: status_assertion
  sr_delivered :: status_assertion
  sr_deleted :: status_assertion
  sr_reason :: ReasonCode

definition report_to_cbor :: "time_ops \<Rightarrow> text_ops \<Rightarrow> status_report \<Rightarrow> emitter" where
  "report_to_cbor T X r =
    emit_array (Some (if id_fragment_info (sr_bundle_id r) = None then 4 else 6))
      (emit_fields
        ([emit_array (Some 4) (emit_fields
            [emit_status_assertion T (sr_received r), emit_status_assertion T (sr_forwarded r),
             emit_status_assertion T (sr_delivered r), emit_status_assertion T (sr_deleted r)]),
          reason_to_cbor (sr_reason r), eid_to_cbor X (id_source (sr_bundle_id r)),
          timestamp_to_cbor (id_timestamp (sr_bundle_id r))] @
         (case id_fragment_info (sr_bundle_id r) of
            Some f \<Rightarrow> [uint_to_cbor (fi_offset f), uint_to_cbor (total_adu_length f)]
          | None \<Rightarrow> [])))"

definition statuses_body ::
  "time_ops \<Rightarrow> float_ops \<Rightarrow> bool \<Rightarrow> series \<Rightarrow> bool \<Rightarrow> u64 list \<Rightarrow>
   status_error + ((status_assertion \<times> status_assertion \<times> status_assertion \<times> status_assertion \<times> bool) \<times> series)" where
  "statuses_body T F canonical a s tags =
    (if \<not> s \<or> tags \<noteq> [] then Inl SrNotCanonical
     else
       let canonical = (canonical \<and> is_definite a) in
       and_then (map_field_err SrInvalidField id ''received status'' (parse_status_assertion T F canonical a)) (\<lambda>((received, canonical), a).
       and_then (map_field_err SrInvalidField id ''forwarded status'' (parse_status_assertion T F canonical a)) (\<lambda>((forwarded, canonical), a).
       and_then (map_field_err SrInvalidField id ''delivered status'' (parse_status_assertion T F canonical a)) (\<lambda>((delivered, canonical), a).
       and_then (map_field_err SrInvalidField id ''deleted status'' (parse_status_assertion T F canonical a)) (\<lambda>((deleted, canonical), a).
         Inr ((received, forwarded, delivered, deleted, canonical), a))))))"

definition report_fragment :: "float_ops \<Rightarrow> series \<Rightarrow> status_error + (FragmentInfo option \<times> series)" where
  "report_fragment F a =
    and_then (map_field_err SrInvalidField status_of_cbor ''fragment offset''
      (series_try_parse id 1 (with_shortest_len (untagged id (u64_from_cbor F))) a)) (\<lambda>(x, a).
      case x of
        Some (off, s, _) \<Rightarrow>
          if \<not> s then Inl (SrInvalidField ''fragment offset'' SrNotCanonical)
          else and_then (require_canonical id status_of_cbor SrInvalidField 1 (u64_from_cbor F) a
                           ''fragment total ADU length'' SrNotCanonical) (\<lambda>(len, a).
                 Inr (Some \<lparr>fi_offset = off, total_adu_length = len\<rparr>, a))
      | None \<Rightarrow> Inr (None, a))"

definition report_body ::
  "time_ops \<Rightarrow> text_ops \<Rightarrow> float_ops \<Rightarrow> series \<Rightarrow> bool \<Rightarrow> u64 list \<Rightarrow>
   status_error + ((status_report \<times> bool) \<times> series)" where
  "report_body T X F a s tags =
    (if \<not> s \<or> tags \<noteq> [] then Inl SrNotCanonical
     else
       let canonical = is_definite a in
       and_then (map_field_err SrInvalidField id ''bundle status information''
         (series_parse_array status_of_cbor F 1 (statuses_body T F canonical) a))
         (\<lambda>((received, forwarded, delivered, deleted, canonical), a).
       and_then (require_canonical status_of_cbor id SrInvalidField 1 (reason_from_cbor F) a ''reason'' SrNotCanonical) (\<lambda>(reason, a).
       and_then (require_canonical eid_of_cbor SrInvalidEid SrInvalidField 1 (eid_from_cbor X F) a ''source'' SrNotCanonical) (\<lambda>(source, a).
       and_then (require_canonical bp_of_cbor SrInvalidBundle SrInvalidField 1 (timestamp_from_cbor F) a ''timestamp'' SrNotCanonical) (\<lambda>(timestamp, a).
       and_then (report_fragment F a) (\<lambda>(fragment_info, a).
         Inr ((\<lparr>sr_bundle_id = \<lparr>id_source = source, id_timestamp = timestamp, id_fragment_info = fragment_info\<rparr>,
                sr_received = received, sr_forwarded = forwarded, sr_delivered = delivered,
                sr_deleted = deleted, sr_reason = reason\<rparr>, canonical), a)))))))"

definition report_from_cbor :: "time_ops \<Rightarrow> text_ops \<Rightarrow> float_ops \<Rightarrow> (status_error, status_report) from_cbor" where
  "report_from_cbor T X F d =
    and_then (parse_array status_of_cbor F (report_body T X F) d) (\<lambda>((v, s), len). Inr (v, s, len))"

datatype AdministrativeRecord = BundleStatusReport status_report

definition record_to_cbor :: "time_ops \<Rightarrow> text_ops \<Rightarrow> AdministrativeRecord \<Rightarrow> emitter" where
  "record_to_cbor T X r =
    (case r of BundleStatusReport rep \<Rightarrow> tuple_to_cbor [int_to_cbor (1 :: 32 word), report_to_cbor T X rep])"

definition record_body ::
  "time_ops \<Rightarrow> text_ops \<Rightarrow> float_ops \<Rightarrow> series \<Rightarrow> bool \<Rightarrow> u64 list \<Rightarrow>
   status_error + ((AdministrativeRecord \<times> bool) \<times> series)" where
  "record_body T X F a s tags =
    (if \<not> s \<or> tags \<noteq> [] then Inl SrNotCanonical
     else
       let canonical = is_definite a in
       and_then (require_canonical id status_of_cbor SrInvalidField 1 (u64_from_cbor F) a
                   ''record type code'' SrNotCanonical) (\<lambda>(code, a).
       if code = 1 then
         and_then (map_field_err SrInvalidField id ''bundle status report''
           (series_parse status_of_cbor 1 (with_shortest (untagged status_of_cbor (report_from_cbor T X F))) a)) (\<lambda>((r, s), a).
           Inr ((BundleStatusReport r, canonical \<and> s), a))
       else Inl (UnknownAdminRecordType code)))"

definition record_from_cbor ::
  "time_ops \<Rightarrow> text_ops \<Rightarrow> float_ops \<Rightarrow> (status_error, AdministrativeRecord) from_cbor" where
  "record_from_cbor T X F d =
    and_then (parse_array status_of_cbor F (record_body T X F) d) (\<lambda>((v, s), len). Inr (v, s, len))"

section \<open>Reason codes round trip\<close>

text \<open>An unassigned code is neither one of the assigned ones nor the reserved one.\<close>

definition reason_ok :: "ReasonCode \<Rightarrow> bool" where
  "reason_ok r = (case r of Unassigned v \<Rightarrow> 16 < v \<and> v \<noteq> 255 | _ \<Rightarrow> True)"

lemma reason_round_trip: "reason_ok r \<Longrightarrow> reason_try_from (reason_into r) = Inr r"
proof (cases r)
  case (Unassigned v)
  assume "reason_ok r"
  then have "16 < unat v" "v \<noteq> 255" using Unassigned by (simp_all add: reason_ok_def word_less_nat_alt)
  then show ?thesis unfolding Unassigned by (auto simp: reason_try_from_def)
qed (simp_all add: reason_try_from_def)

lemma reason_into_from: "reason_try_from v = Inr r \<Longrightarrow> reason_into r = v"
  by (auto simp: reason_try_from_def split: if_splits)

interpretation bool_untagged: untagged_codec bool_to_cbor "bool_from_cbor F" id
  "\<lambda>b. [if b then 0xF5 else 0xF4]" "\<lambda>_. True" for F
  by unfold_locales (simp add: plain_start_def)

interpretation reason_codec: untagged_codec reason_to_cbor "reason_from_cbor F" status_of_cbor
  "\<lambda>r. head_bytes 0 (reason_into r)" reason_ok for F
proof (unfold_locales, goal_cases)
  case (1 x)
  then show ?case using writes_uint [of "reason_into x"] by (simp add: reason_to_cbor_def)
next
  case (2 x r)
  then show ?case
    by (simp add: reason_from_cbor_def reason_round_trip u64_strict.parse_canonical_enc del: length_append)
qed simp

section \<open>Assertions round trip\<close>

definition assertion_readable :: "time_ops \<Rightarrow> status_assertion \<Rightarrow> bool" where
  "assertion_readable T sa \<longleftrightarrow>
    (case sa of
       Some (Some t) \<Rightarrow> millisecs (saturating_from T t) \<noteq> 0 \<and> dtn_time_into T (saturating_from T t) = t
     | _ \<Rightarrow> True)"

definition assertion_fields :: "time_ops \<Rightarrow> status_assertion \<Rightarrow> bytes list" where
  "assertion_fields T sa =
    (case sa of
       None \<Rightarrow> [[0xF4]]
     | Some None \<Rightarrow> [[0xF5]]
     | Some (Some t) \<Rightarrow> [[0xF5], head_bytes 0 (millisecs (saturating_from T t))])"

lemma assertion_writes: "writes (emit_status_assertion T sa) (array_enc (assertion_fields T sa))"
proof -
  have b: "writes (slice_to_cbor bool_to_cbor [v]) (array_enc [[if v then 0xF5 else 0xF4]])" for v
    using writes_slice [of bool_to_cbor "[v]" "[[if v then 0xF5 else 0xF4]]"] writes_bool [of v]
    by (simp add: array_enc_def)
  have "writes (tuple_to_cbor [bool_to_cbor True, dtn_time_to_cbor t])
      (array_enc [[0xF5], head_bytes 0 (millisecs t)])" for t
    using writes_bool [of True] dtn_time_codec.to_cbor_writes [of t] by (intro writes_array) simp_all
  with b [of True] b [of False] show ?thesis
    by (simp add: emit_status_assertion_def assertion_fields_def split: option.split)
qed

lemma assertion_body_reads:
  assumes "assertion_readable T sa" and rd: "reads s (assertion_fields T sa) r"
  shows "\<exists>s'. assertion_body T F c s True [] = Inr ((sa, c), s') \<and> reads s' [] r \<and> sr_data s' = sr_data s"
proof -
  have df: "is_definite s" using rd by (simp add: reads_def is_definite_def)
  show ?thesis
  proof (cases sa)
    case None
    then have r0: "reads s [[if False then 0xF5 else 0xF4]] r" using rd by (simp add: assertion_fields_def)
    note r1 = reads_advance [OF r0]
    show ?thesis
      using r1 None df
      by (simp add: assertion_body_def bool_untagged.require_canonical_at [OF TrueI reads_field [OF r0]] del: One_nat_def)
  next
    case (Some ot)
    show ?thesis
    proof (cases ot)
      case None
      then have r0: "reads s [[if True then 0xF5 else 0xF4]] r" using rd Some by (simp add: assertion_fields_def)
      note r1 = reads_advance [OF r0]
      show ?thesis
        using r1 Some None df
        by (simp add: assertion_body_def bool_untagged.require_canonical_at [OF TrueI reads_field [OF r0]]
            series_try_parse_def reads_done [OF r1, simplified] map_field_err_def del: One_nat_def)
    next
      case (Some t)
      then have r0: "reads s [[if True then 0xF5 else 0xF4], head_bytes 0 (millisecs (saturating_from T t))] r"
        using rd \<open>sa = Some ot\<close> by (simp add: assertion_fields_def)
      note r1 = reads_advance [OF r0]
      note r2 = reads_advance [OF r1]
      have "series_parse bp_of_cbor 1 (dtn_time_from_cbor F) (series_advance (Suc 0) s) =
          Inr (saturating_from T t, series_advance (length (head_bytes 0 (millisecs (saturating_from T t)))) (series_advance (Suc 0) s))"
        using dtn_time_codec.series_parse_at [OF TrueI reads_field [OF r1], of F] by simp
      then show ?thesis
        using r2 \<open>sa = Some ot\<close> Some df assms(1)
        by (simp add: assertion_body_def bool_untagged.require_canonical_at [OF TrueI reads_field [OF r0]]
            series_try_parse_def reads_more [OF r1, simplified]
            map_field_err_def assertion_readable_def del: One_nat_def)
    qed
  qed
qed

section \<open>Reports round trip\<close>

lemma series_parse_array_at:
  assumes "field_at D s bs q"
    and "\<And>r. length (bs @ r) \<le> usize_max \<Longrightarrow> parse_array conv F f (bs @ r) = Inr (x, length bs)"
  shows "series_parse_array conv F D f s = Inr (x, series_advance (length bs) s)"
  using assms field_at_len [OF assms(1)]
  by (simp add: series_parse_array_def field_at_def del: length_append)

lemma assertion_at:
  assumes "assertion_readable T sa" and "field_at 1 s (array_enc (assertion_fields T sa)) q"
  shows "parse_status_assertion T F c s = Inr ((sa, c), series_advance (length (array_enc (assertion_fields T sa))) s)"
  unfolding parse_status_assertion_def
proof (rule series_parse_array_at [OF assms(2)])
  have "length (assertion_fields T sa) < 2 ^ 64" by (simp add: assertion_fields_def split: option.split)
  then show "parse_array status_of_cbor F (assertion_body T F c) (array_enc (assertion_fields T sa) @ r) =
      Inr ((sa, c), length (array_enc (assertion_fields T sa)))"
    if "length (array_enc (assertion_fields T sa) @ r) \<le> usize_max" for r
    using that by (intro parse_array_reads assertion_body_reads [OF assms(1)]) simp_all
qed

definition statuses_fields :: "time_ops \<Rightarrow> status_report \<Rightarrow> bytes list" where
  "statuses_fields T r =
    map (\<lambda>sa. array_enc (assertion_fields T sa)) [sr_received r, sr_forwarded r, sr_delivered r, sr_deleted r]"

definition report_fields :: "time_ops \<Rightarrow> text_ops \<Rightarrow> status_report \<Rightarrow> bytes list" where
  "report_fields T X r =
    [array_enc (statuses_fields T r), head_bytes 0 (reason_into (sr_reason r)),
     eid_enc X (id_source (sr_bundle_id r)), timestamp_enc (id_timestamp (sr_bundle_id r))] @
    (case id_fragment_info (sr_bundle_id r) of
       Some f \<Rightarrow> [head_bytes 0 (fi_offset f), head_bytes 0 (total_adu_length f)]
     | None \<Rightarrow> [])"

definition report_readable :: "time_ops \<Rightarrow> float_ops \<Rightarrow> status_report \<Rightarrow> bool" where
  "report_readable T F r \<longleftrightarrow> assertion_readable T (sr_received r) \<and> assertion_readable T (sr_forwarded r) \<and>
    assertion_readable T (sr_delivered r) \<and> assertion_readable T (sr_deleted r) \<and> reason_ok (sr_reason r) \<and>
    eid_ok F (id_source (sr_bundle_id r)) \<and> timestamp_ok (id_timestamp (sr_bundle_id r))"

lemma writes_emit_array:
  assumes "list_all2 writes ems fs" and "n = length ems" and "n < 2 ^ 64"
  shows "writes (emit_array (Some n) (emit_fields ems)) (array_enc fs)"
  using writes_array [OF assms(1)] assms(2,3) by (simp add: tuple_to_cbor_def [abs_def])

lemma report_writes: "writes (report_to_cbor T X r) (array_enc (report_fields T X r))"
proof -
  have st: "writes (emit_array (Some 4) (emit_fields
      [emit_status_assertion T (sr_received r), emit_status_assertion T (sr_forwarded r),
       emit_status_assertion T (sr_delivered r), emit_status_assertion T (sr_deleted r)])) (array_enc (statuses_fields T r))"
    by (rule writes_emit_array) (simp_all add: statuses_fields_def assertion_writes)
  have l: "writes (uint_to_cbor v) (head_bytes 0 v)" for v :: u64
    using writes_uint [of v] by simp
  show ?thesis
    unfolding report_to_cbor_def
    by (rule writes_emit_array)
      (simp_all add: report_fields_def st l reason_to_cbor_def eid_writes timestamp_writes split: option.split)
qed

lemma statuses_body_reads:
  assumes "report_readable T F r" and rd: "reads s (statuses_fields T r) q"
  shows "\<exists>s'. statuses_body T F c s True [] =
      Inr ((sr_received r, sr_forwarded r, sr_delivered r, sr_deleted r, c), s') \<and> reads s' [] q \<and> sr_data s' = sr_data s"
proof -
  have df: "is_definite s" using rd by (simp add: reads_def is_definite_def)
  have r0: "reads s [array_enc (assertion_fields T (sr_received r)), array_enc (assertion_fields T (sr_forwarded r)),
      array_enc (assertion_fields T (sr_delivered r)), array_enc (assertion_fields T (sr_deleted r))] q"
    using rd by (simp add: statuses_fields_def)
  note r1 = reads_advance [OF r0] note r2 = reads_advance [OF r1]
  note r3 = reads_advance [OF r2] note r4 = reads_advance [OF r3]
  have ok: "assertion_readable T (sr_received r)" "assertion_readable T (sr_forwarded r)"
    "assertion_readable T (sr_delivered r)" "assertion_readable T (sr_deleted r)"
    using assms(1) by (simp_all add: report_readable_def)
  show ?thesis
    using r4 df
    by (simp add: statuses_body_def map_field_err_def assertion_at [OF ok(1) reads_field [OF r0]]
        assertion_at [OF ok(2) reads_field [OF r1]] assertion_at [OF ok(3) reads_field [OF r2]]
        assertion_at [OF ok(4) reads_field [OF r3]] del: One_nat_def)
qed

lemma report_fragment_reads:
  assumes "reads s (case fi of Some f \<Rightarrow> [head_bytes 0 (fi_offset f), head_bytes 0 (total_adu_length f)] | None \<Rightarrow> []) r"
  shows "\<exists>s'. report_fragment F s = Inr (fi, s') \<and> reads s' [] r \<and> sr_data s' = sr_data s"
proof (cases fi)
  case None
  then have rd: "reads s [] r" using assms by simp
  then show ?thesis
    using None by (simp add: report_fragment_def series_try_parse_def map_field_err_def reads_done [OF rd] del: One_nat_def)
next
  case (Some f)
  then have r0: "reads s [head_bytes 0 (fi_offset f), head_bytes 0 (total_adu_length f)] r"
    using assms by simp
  note r1 = reads_advance [OF r0] note r2 = reads_advance [OF r1] note f0 = reads_field [OF r0]
  have "series_try_parse id 1 (with_shortest_len (untagged id (u64_from_cbor F))) s =
    Inr (Some (fi_offset f, True, length (head_bytes 0 (fi_offset f))), series_advance (length (head_bytes 0 (fi_offset f))) s)"
    using f0 field_at_len [OF f0]
    by (simp add: series_try_parse_def series_parse_def field_at_def with_shortest_len_def
        u64_strict.untagged_enc del: length_append One_nat_def)
  then show ?thesis
    using Some r2
    by (simp add: report_fragment_def map_field_err_def
        u64_strict.require_canonical_at [OF TrueI reads_field [OF r1]] del: One_nat_def)
qed

lemma report_body_reads:
  assumes "text_spec X" and ok: "report_readable T F r" and rd: "reads s (report_fields T X r) q"
  shows "\<exists>s'. report_body T X F s True [] = Inr ((r, True), s') \<and> reads s' [] q \<and> sr_data s' = sr_data s"
proof -
  have df: "is_definite s" using rd by (simp add: reads_def is_definite_def)
  have r0: "reads s (array_enc (statuses_fields T r) # head_bytes 0 (reason_into (sr_reason r)) #
      eid_enc X (id_source (sr_bundle_id r)) # timestamp_enc (id_timestamp (sr_bundle_id r)) #
      (case id_fragment_info (sr_bundle_id r) of
         Some f \<Rightarrow> [head_bytes 0 (fi_offset f), head_bytes 0 (total_adu_length f)] | None \<Rightarrow> [])) q"
    using rd by (simp add: report_fields_def)
  note r1 = reads_advance [OF r0] note r2 = reads_advance [OF r1]
  note r3 = reads_advance [OF r2] note r4 = reads_advance [OF r3]
  have st: "series_parse_array status_of_cbor F 1 (statuses_body T F True) s =
      Inr ((sr_received r, sr_forwarded r, sr_delivered r, sr_deleted r, True),
        series_advance (length (array_enc (statuses_fields T r))) s)"
    by (rule series_parse_array_at [OF reads_field [OF r0]])
      (intro parse_array_reads statuses_body_reads [OF ok], simp_all, simp add: statuses_fields_def)
  have o: "reason_ok (sr_reason r)" "text_spec X \<and> eid_ok F (id_source (sr_bundle_id r))"
    "timestamp_ok (id_timestamp (sr_bundle_id r))"
    using ok assms(1) by (simp_all add: report_readable_def)
  from report_fragment_reads [OF r4] obtain s' where
    s': "report_fragment F (series_advance (length (timestamp_enc (id_timestamp (sr_bundle_id r))))
      (series_advance (length (eid_enc X (id_source (sr_bundle_id r))))
      (series_advance (length (head_bytes 0 (reason_into (sr_reason r))))
      (series_advance (length (array_enc (statuses_fields T r))) s)))) = Inr (id_fragment_info (sr_bundle_id r), s')"
    "reads s' [] q" "sr_data s' = sr_data s"
    by auto
  have "report_body T X F s True [] = Inr ((r, True), s')"
    by (simp add: report_body_def map_field_err_def df st s'(1)
        reason_codec.require_canonical_at [OF o(1) reads_field [OF r1]]
        eid_codec.require_canonical_at [OF o(2) reads_field [OF r2]]
        timestamp_codec.require_canonical_at [OF o(3) reads_field [OF r3]] del: One_nat_def)
  with s' show ?thesis by auto
qed

lemma length_report_fields: "length (report_fields T X r) < 2 ^ 64"
  by (simp add: report_fields_def split: option.split)

interpretation report_codec: untagged_codec "report_to_cbor T X" "report_from_cbor T X F" status_of_cbor
  "\<lambda>r. array_enc (report_fields T X r)" "\<lambda>r. text_spec X \<and> report_readable T F r" for T X F
proof (unfold_locales, goal_cases)
  case (1 x)
  show ?case by (rule report_writes)
next
  case (2 x r)
  then have "parse_array status_of_cbor F (report_body T X F) (array_enc (report_fields T X x) @ r) =
      Inr ((x, True), length (array_enc (report_fields T X x)))"
    using length_report_fields [of T X x]
    by (intro parse_array_reads report_body_reads) simp_all
  then show ?case by (simp add: report_from_cbor_def)
qed simp

definition record_enc :: "time_ops \<Rightarrow> text_ops \<Rightarrow> AdministrativeRecord \<Rightarrow> bytes" where
  "record_enc T X r =
    (case r of BundleStatusReport rep \<Rightarrow> array_enc [head_bytes 0 1, array_enc (report_fields T X rep)])"

definition record_readable :: "time_ops \<Rightarrow> float_ops \<Rightarrow> AdministrativeRecord \<Rightarrow> bool" where
  "record_readable T F r = (case r of BundleStatusReport rep \<Rightarrow> report_readable T F rep)"

interpretation record_codec: untagged_codec "record_to_cbor T X" "record_from_cbor T X F" status_of_cbor
  "record_enc T X" "\<lambda>r. text_spec X \<and> record_readable T F r" for T X F
proof (unfold_locales, goal_cases)
  case (1 x)
  then show ?case
    using int_literal_writes(2) report_writes
    by (cases x) (auto simp: record_to_cbor_def record_enc_def intro!: writes_array)
next
  case (2 x r)
  obtain rep where x: "x = BundleStatusReport rep" by (cases x)
  have "parse_array status_of_cbor F (record_body T X F) (record_enc T X x @ r) =
      Inr ((x, True), length (record_enc T X x))"
    unfolding record_enc_def x AdministrativeRecord.case
  proof (rule parse_array_reads, goal_cases)
    case (3 s)
    note r1 = reads_advance [OF 3(1)]
    note r2 = reads_advance [OF r1]
    have ok: "text_spec X \<and> report_readable T F rep" using 2 x by (simp add: record_readable_def)
    have df: "is_definite s" using 3(1) by (simp add: reads_def is_definite_def)
    show ?case
      using r2 df
      by (simp add: record_body_def map_field_err_def u64_strict.require_canonical_at [OF TrueI reads_field [OF 3(1)]]
          report_codec.series_flagged_at [OF ok reads_field [OF r1]] del: One_nat_def)
  qed (use 2 x in \<open>simp_all add: record_enc_def\<close>)
  then show ?case by (simp add: record_from_cbor_def)
next
  case (3 x)
  then show ?case by (cases x) (simp add: record_enc_def)
qed

section \<open>Records that are read back\<close>

text \<open>A time of an assertion is a positive whole number of milliseconds since the epoch, representable
  by the time crate and by the wire format. (A time of zero milliseconds is read as no time, and a finer
  one is cut to milliseconds.)\<close>

definition assertion_ok :: "int \<Rightarrow> status_assertion \<Rightarrow> bool" where
  "assertion_ok hi sa =
    (case sa of
       Some (Some t) \<Rightarrow> 0 < t \<and> t \<le> hi \<and> t mod 1000000 = 0 \<and> t div 1000000 < 2 ^ 64
     | _ \<Rightarrow> True)"

definition record_ok :: "int \<Rightarrow> float_ops \<Rightarrow> AdministrativeRecord \<Rightarrow> bool" where
  "record_ok hi F r =
    (case r of BundleStatusReport rep \<Rightarrow>
       list_all (assertion_ok hi) [sr_received rep, sr_forwarded rep, sr_delivered rep, sr_deleted rep] \<and>
       reason_ok (sr_reason rep) \<and> eid_ok F (id_source (sr_bundle_id rep)) \<and> timestamp_ok (id_timestamp (sr_bundle_id rep)))"

lemma assertion_ok_readable:
  assumes "time_spec T lo hi" and "assertion_ok hi sa"
  shows "assertion_readable T sa"
proof (cases "\<exists>t. sa = Some (Some t)")
  case True
  then obtain t where sa: "sa = Some (Some t)" by blast
  define m :: u64 where "m = word_of_int (t div 1000000)"
  have t: "0 < t" "t \<le> hi" "t mod 1000000 = 0" "t div 1000000 < 2 ^ 64" using assms(2) sa by (simp_all add: assertion_ok_def)
  then have m: "uint m = t div 1000000"
    by (simp add: m_def uint_word_of_int pos_imp_zdiv_nonneg_iff)
  then have tm: "uint m * 1000000 = t" using t(3) div_mult_mod_eq [of t 1000000] by simp
  have into: "dtn_time_into T (DtnTime m) = t"
    using assms(1) t(1,2) tm by (simp add: dtn_time_into_nanos time_spec_def)
  have "saturating_from T t = DtnTime m"
    using dtn_time_round_trip(2) [OF assms(1), of "DtnTime m"] into tm t(2) by simp
  moreover have "m \<noteq> 0" using tm t(1) by auto
  ultimately show ?thesis using sa into by (simp add: assertion_readable_def)
qed (auto simp: assertion_readable_def split: option.splits)

lemma record_ok_readable: "time_spec T lo hi \<Longrightarrow> record_ok hi F r \<Longrightarrow> record_readable T F r"
  by (cases r) (simp add: record_ok_def record_readable_def report_readable_def assertion_ok_readable)

end
