(* ===== verification/Bpv7_Samples.thy ===== *)
theory Bpv7_Samples
  imports Bpv7_Status
begin

unbundle bit_operations_syntax

text \<open>
  Concrete stand-ins for the third-party crates the model takes as arguments: a decimal
  reader and a percent codec that meet \<open>text_spec\<close>, a clock that meets \<open>time_spec\<close>, a
  float table and a checksum. They show that the hypotheses about those crates can hold
  together, and the concrete instances of the properties are evaluated on them.
\<close>

section \<open>Decimal numbers\<close>

definition dec_value :: "bytes \<Rightarrow> nat" where
  "dec_value ds = foldl (\<lambda>v c. v * 10 + (unat c - 48)) 0 ds"

definition sample_dec_uint :: "bytes \<Rightarrow> (u32 \<times> bytes) option" where
  "sample_dec_uint bs =
    (let ds = takeWhile digit bs
     in if ds = [] \<or> dec_value ds \<ge> 2 ^ 32 then None else Some (of_nat (dec_value ds), dropWhile digit bs))"

lemma dec_value_dec_string: "dec_value (dec_string n) = n"
proof (induction n rule: dec_string.induct)
  case (1 n)
  have u: "unat (of_nat (48 + m) :: byte) = 48 + m" if "m < 10" for m :: nat
    using that by (simp only: unat_of_nat) simp
  show ?case
  proof (cases "n < 10")
    case True
    then show ?thesis using u [of n] by (simp add: dec_string.simps [of n] dec_value_def)
  next
    case False
    then show ?thesis
      using 1 u [of "n mod 10"] by (simp add: dec_string.simps [of n] dec_value_def)
  qed
qed

lemma sample_dec_uint_dec_string:
  assumes "r = [] \<or> \<not> digit (hd r)"
  shows "sample_dec_uint (dec_string (unat n) @ r) = Some (n, r)"
proof -
  have d: "\<forall>c \<in> set (dec_string (unat n)). digit c" and ne: "dec_string (unat n) \<noteq> []"
    using dec_string_digits [of "unat n"] by (simp_all add: list_all_iff)
  have "takeWhile digit r = []" "dropWhile digit r = r" using assms by (cases r; simp)+
  then have "takeWhile digit (dec_string (unat n) @ r) = dec_string (unat n)"
    "dropWhile digit (dec_string (unat n) @ r) = r"
    using d by simp_all
  then show ?thesis
    using ne unat_lt2p [of n] by (simp add: sample_dec_uint_def Let_def dec_value_dec_string)
qed

section \<open>Percent encoding\<close>

definition hex_char :: "nat \<Rightarrow> byte" where
  "hex_char n = (if n < 10 then of_nat (48 + n) else of_nat (55 + n))"

definition hex_value :: "byte \<Rightarrow> nat" where
  "hex_value c = (if c \<le> 57 then unat c - 48 else unat c - 55)"

definition sample_percent_encode :: "bytes \<Rightarrow> bytes" where
  "sample_percent_encode bs = concat (map (\<lambda>b. [37, hex_char (unat b div 16), hex_char (unat b mod 16)]) bs)"

fun percent_decode :: "bytes \<Rightarrow> bytes" where
  "percent_decode (c # h # l # r) =
    (if c = 37 then of_nat (hex_value h * 16 + hex_value l) # percent_decode r
     else c # percent_decode (h # l # r))"
| "percent_decode r = r"

definition sample_percent_decode :: "bytes \<Rightarrow> bytes option" where
  "sample_percent_decode bs =
    (let v = percent_decode bs in if utf8_valid v then Some v else None)"

lemma hex_value_char: "n < 16 \<Longrightarrow> hex_value (hex_char n) = n"
  by (simp add: hex_value_def hex_char_def word_le_nat_alt unat_of_nat del: of_nat_add)

lemma regname_hex_char: "n < 16 \<Longrightarrow> regname_char (hex_char n)"
  by (simp add: regname_char_def hex_char_def word_le_nat_alt unat_of_nat del: of_nat_add)

lemma percent_decode_encode: "percent_decode (sample_percent_encode bs) = bs"
proof (induction bs)
  case Nil
  then show ?case by (simp add: sample_percent_encode_def)
next
  case (Cons b bs)
  have "unat b < 256" using unat_lt2p [of b] by simp
  then have "hex_value (hex_char (unat b div 16)) = unat b div 16"
    "hex_value (hex_char (unat b mod 16)) = unat b mod 16"
    by (simp_all add: hex_value_char)
  then show ?case using Cons by (simp add: sample_percent_encode_def)
qed

lemma regname_percent_encode: "list_all regname_char (sample_percent_encode bs)"
proof -
  have "unat b div 16 < 16" for b :: byte using unat_lt2p [of b] by (simp add: less_mult_imp_div_less)
  then show ?thesis
    by (induction bs)
      (simp_all add: sample_percent_encode_def regname_hex_char regname_char_def [of 37] ascii_def)
qed

definition sample_text :: text_ops where
  "sample_text = \<lparr>tx_dec_uint = sample_dec_uint, tx_percent_encode = sample_percent_encode,
    tx_percent_decode_utf8 = sample_percent_decode\<rparr>"

lemma sample_text_spec: "text_spec sample_text"
  by (auto simp: text_spec_def sample_text_def sample_dec_uint_dec_string regname_percent_encode
      sample_percent_decode_def percent_decode_encode Let_def split: if_splits)

section \<open>Floats, clock and checksums\<close>

definition sample_float :: float_ops where
  "sample_float = \<lparr>f16_from_f64 = \<lambda>_. None, f16_to_f64 = \<lambda>_. 0, f16_from_f32 = \<lambda>_. None,
    f16_to_f32 = \<lambda>_. None, f32_from_f64 = \<lambda>_. None, f32_to_f64 = \<lambda>_. None, f16_NAN = 0x7E00\<rparr>"

definition sample_time_lo :: int where
  "sample_time_lo = - 377705116800000000000"

definition sample_time_hi :: int where
  "sample_time_hi = 252455615999999999999"

definition sample_time :: time_ops where
  "sample_time = \<lparr>tm_whole_milliseconds = \<lambda>d. sgn d * (\<bar>d\<bar> div 1000000),
    tm_saturating_add = \<lambda>t d. max sample_time_lo (min sample_time_hi (t + d)),
    tm_nanosecond = \<lambda>t. nat (t mod 1000000000)\<rparr>"

lemma sample_time_spec: "time_spec sample_time sample_time_lo sample_time_hi"
  by (simp add: time_spec_def sample_time_def sample_time_lo_def sample_time_hi_def)

definition sample_crc :: crc_ops where
  "sample_crc = \<lparr>crc_x25 = \<lambda>d. foldr (\<lambda>b c. ucast b + 31 * c) d 0xFFFF,
    crc_castagnoli = \<lambda>d. foldr (\<lambda>b c. ucast b + 31 * c) d 0xFFFFFFFF\<rparr>"

section \<open>Evaluating the decoder on concrete bytes\<close>

lemmas head_eval = head_from_cbor_ref usize_max_def head_ref.simps(2) major_of_def minor_of_def
  parse_uint_minor_def parse_marker_slow_def head_of_major_def to_array_def from_be_bytes_def be_val_def

lemmas series_eval = series_try_new_def series_new_def series_of_def series_advance_def
  series_complete_def series_parse_def series_try_parse_def series_parse_value_def parse_value_def
  parse_array_def at_end_def is_definite_def with_shortest_def with_shortest_len_def untagged_def
  u64_from_cbor_def map_field_err_def checked_mul_def word_le_nat_alt Let_def

lemmas ipn_eval = eid_from_cbor_def eid_body_def ipn_ssp_def ipn_from_cbor_def ipn_match_def
  relabel_ipn_def U32_MAX_def head_eval series_eval

lemma ipn_three_element_zero_allocator:
  "eid_from_cbor sample_text sample_float [0x82, 2, 0x83, 0, 5, 7] =
    Inr (Ipn \<lparr>allocator_id = 0, node_number = 5\<rparr> 7, False, 6)"
  by (simp add: ipn_eval)

section \<open>A sample primary block\<close>

definition sample_primary :: primary_block where
  "sample_primary = \<lparr>pb_flags = bundle_flags_from 1,
    pb_id = \<lparr>id_source = Ipn \<lparr>allocator_id = 0, node_number = 5\<rparr> 7,
      id_timestamp = \<lparr>creation_time = Some (DtnTime 800000000000), sequence_number = 3\<rparr>,
      id_fragment_info = Some \<lparr>fi_offset = 10, total_adu_length = 1000\<rparr>\<rparr>,
    pb_crc_type = CRC16_X25, pb_destination = Ipn \<lparr>allocator_id = 977, node_number = 1\<rparr> 0,
    pb_report_to = Null, pb_lifetime = 3600000000000\<rparr>"

lemma sample_primary_ok: "primary_ok sample_float sample_primary"
proof -
  have "bundle_flags_ok (bundle_flags_from 1)" "is_fragment (bundle_flags_from 1)"
    using bundle_flags_from_ok [of 1] by (simp_all add: bundle_flags_from_def Let_def)
  then show ?thesis
    by (simp add: primary_ok_def sample_primary_def eid_ok_def timestamp_ok_def as_millis_def)
qed

lemma head_bytes_bound: "length (head_bytes m v) \<le> 9"
  by (simp add: head_bytes_cases)

lemma eid_ipn_bound: "length (eid_enc X (Ipn n s)) \<le> 54"
  using head_bytes_bound [of 4 2] head_bytes_bound [of 0 2] head_bytes_bound [of 4 3]
    head_bytes_bound [of 0 "ucast (allocator_id n)"] head_bytes_bound [of 0 "ucast (node_number n)"]
    head_bytes_bound [of 0 "ucast s"]
  by (simp add: eid_enc_def eid_ssp_enc_def eid_scheme_def array_enc_def)

lemma eid_null_bound: "length (eid_enc X Null) \<le> 27"
  using head_bytes_bound [of 4 2] head_bytes_bound [of 0 1] head_bytes_bound [of 0 0]
  by (simp add: eid_enc_def eid_ssp_enc_def eid_scheme_def array_enc_def)

lemma timestamp_bound: "length (timestamp_enc c) \<le> 27"
  using head_bytes_bound [of 4 2] head_bytes_bound [of 0 "timestamp_ms c"] head_bytes_bound [of 0 "sequence_number c"]
  by (simp add: timestamp_enc_def array_enc_def)

lemma sample_primary_short: "length (primary_enc sample_text sample_crc sample_primary) \<le> usize_max"
proof -
  let ?p = sample_primary
  have crc: "length (concat (primary_crc_fields sample_text sample_crc ?p)) \<le> 11"
    using head_bytes_bound [of 2 2]
    by (simp add: primary_crc_fields_def sample_primary_def crc_field_def length_crc_value)
  have "length (concat (primary_fields sample_text ?p)) \<le> 300"
    using head_bytes_bound [of 0 7] head_bytes_bound [of 0 "bundle_flags_into (pb_flags ?p)"]
      head_bytes_bound [of 0 "crc_type_into CRC16_X25"]
      eid_ipn_bound [of sample_text "\<lparr>allocator_id = 977, node_number = 1\<rparr>" 0]
      eid_ipn_bound [of sample_text "\<lparr>allocator_id = 0, node_number = 5\<rparr>" 7]
      eid_null_bound [of sample_text] timestamp_bound [of "id_timestamp (pb_id ?p)"]
      head_bytes_bound [of 0 "of_nat (as_millis (pb_lifetime ?p))"]
      head_bytes_bound [of 0 10] head_bytes_bound [of 0 1000]
    by (simp add: primary_fields_def sample_primary_def)
  then show ?thesis
    using head_bytes_bound [of 4 "of_nat (primary_count ?p)"] crc
    by (simp add: primary_enc_split usize_max_def)
qed

lemma sample_primary_decoded:
  "primary_from_cbor sample_text sample_crc sample_float (primary_enc sample_text sample_crc sample_primary) =
    Inr (sample_primary, True, length (primary_enc sample_text sample_crc sample_primary))"
  using primary_from_cbor_enc [OF sample_text_spec sample_primary_ok, of sample_crc "[]"] sample_primary_short by simp

end
