(* ===== verification/Hash_Map.thy ===== *)
theory Hash_Map
  imports Prelude
begin

text \<open>
  The hash maps of the sources: a list of entries without repeated keys, in the order in which
  they are iterated. \<^verbatim>\<open>HashMap\<close> leaves that order open; the list fixes one, and a lookup does
  not depend on it.
\<close>

definition hm_put :: "'k \<Rightarrow> 'v \<Rightarrow> ('k \<times> 'v) list \<Rightarrow> ('k \<times> 'v) list" where
  "hm_put k v m = filter (\<lambda>e. fst e \<noteq> k) m @ [(k, v)]"

definition hm_remove :: "'k \<Rightarrow> ('k \<times> 'v) list \<Rightarrow> ('k \<times> 'v) list" where
  "hm_remove k m = filter (\<lambda>e. fst e \<noteq> k) m"

text \<open>\<^verbatim>\<open>get_mut\<close> followed by an assignment, and \<^verbatim>\<open>values_mut\<close>.\<close>

definition hm_modify :: "'k \<Rightarrow> ('v \<Rightarrow> 'v) \<Rightarrow> ('k \<times> 'v) list \<Rightarrow> ('k \<times> 'v) list" where
  "hm_modify k f m = map (\<lambda>(k', v). (k', if k' = k then f v else v)) m"

definition hm_ok :: "('k \<times> 'v) list \<Rightarrow> bool" where
  "hm_ok m = distinct (map fst m)"

lemma map_of_filter_key: "map_of (filter (\<lambda>e. fst e \<noteq> k) m) k' = (if k' = k then None else map_of m k')"
  by (induction m) auto

lemma hm_get_put [simp]: "map_of (hm_put k v m) k' = (if k' = k then Some v else map_of m k')"
  by (simp add: hm_put_def map_add_def map_of_filter_key split: option.split)

lemma hm_get_remove [simp]: "map_of (hm_remove k m) k' = (if k' = k then None else map_of m k')"
  by (simp add: hm_remove_def map_of_filter_key)

lemma hm_get_modify [simp]:
  "map_of (hm_modify k f m) k' = (if k' = k then map_option f (map_of m k') else map_of m k')"
  by (induction m) (auto simp: hm_modify_def)

lemma hm_put_fresh: "map_of m k = None \<Longrightarrow> hm_put k v m = m @ [(k, v)]"
  by (force simp: hm_put_def map_of_eq_None_iff intro: filter_True)

lemma hm_ok_simps [simp]:
  "hm_ok []" "hm_ok m \<Longrightarrow> hm_ok (hm_put k v m)" "hm_ok m \<Longrightarrow> hm_ok (hm_remove k m)"
  "hm_ok (hm_modify k f m) \<longleftrightarrow> hm_ok m"
  by (auto simp: hm_ok_def hm_put_def hm_remove_def hm_modify_def distinct_map_filter case_prod_unfold comp_def)

lemma hm_keys_put: "set (map fst (hm_put k v m)) = insert k (set (map fst m))"
  by (auto simp: hm_put_def)

end
