(* ===== verification/Bpv7_Bpsec.thy ===== *)
theory Bpv7_Bpsec
  imports Bpv7_Primary Hash_Map
begin

unbundle bit_operations_syntax

text \<open>
  The security blocks of \<^verbatim>\<open>bpsec/\<close> as the structural parser reads them: the abstract syntax
  block of \<^verbatim>\<open>bpsec/parse.rs\<close>, the parameters and results of the two security contexts of
  \<^verbatim>\<open>bpsec/rfc9173/\<close> (with the \<^verbatim>\<open>rfc9173\<close> feature, as the agent is built), the operation sets of
  \<^verbatim>\<open>bpsec/bib.rs\<close> and \<^verbatim>\<open>bpsec/bcb.rs\<close> and their structural checks. Verification and decryption,
  which need keys and the cipher crates, are not part of this theory. A loop over a definite
  array runs once per item of the array; the length of such an array is the fuel of the loop.
\<close>

section \<open>Contexts and scope\<close>

definition context_to_cbor :: "bpsec_context \<Rightarrow> emitter" where
  "context_to_cbor c =
    (case c of
       BIB_HMAC_SHA2 \<Rightarrow> int_to_cbor (1 :: 32 word)
     | BCB_AES_GCM \<Rightarrow> int_to_cbor (2 :: 32 word)
     | UnrecognisedCtx v \<Rightarrow> uint_to_cbor v)"

definition context_of :: "u64 \<Rightarrow> bpsec_context" where
  "context_of v = (if v = 1 then BIB_HMAC_SHA2 else if v = 2 then BCB_AES_GCM else UnrecognisedCtx v)"

definition context_from_cbor :: "float_ops \<Rightarrow> (bpsec_error, bpsec_context) from_cbor" where
  "context_from_cbor F d =
    and_then (parse_canonical id bpsec_of_cbor (u64_from_cbor F) d BpsecNotCanonical) (\<lambda>(v, len).
      Inr (context_of v, True, len))"

record ScopeFlags =
  include_primary_block :: bool
  include_target_header :: bool
  include_security_header :: bool
  scope_unrecognised :: "u64 option"

definition scope_default :: ScopeFlags where
  "scope_default = \<lparr>include_primary_block = True, include_target_header = True, include_security_header = True,
    scope_unrecognised = None\<rparr>"

definition scope_of :: "u64 \<Rightarrow> ScopeFlags" where
  "scope_of value =
    (let u = value;
         u = clear_if (test_flag value 0) 0 u;
         u = clear_if (test_flag value 1) 1 u;
         u = clear_if (test_flag value 2) 2 u
     in \<lparr>include_primary_block = test_flag value 0, include_target_header = test_flag value 1,
         include_security_header = test_flag value 2, scope_unrecognised = some_nonzero u\<rparr>)"

definition scope_into :: "ScopeFlags \<Rightarrow> u64" where
  "scope_into f =
    (let v = or_zero (scope_unrecognised f);
         v = set_if (include_primary_block f) 0 v;
         v = set_if (include_target_header f) 1 v
     in set_if (include_security_header f) 2 v)"

definition scope_from_cbor :: "float_ops \<Rightarrow> (bpsec_error, ScopeFlags) from_cbor" where
  "scope_from_cbor F d =
    and_then (parse_canonical id bpsec_of_cbor (u64_from_cbor F) d BpsecNotCanonical) (\<lambda>(v, len).
      Inr (scope_of v, True, len))"

definition scope_to_cbor :: "ScopeFlags \<Rightarrow> emitter" where
  "scope_to_cbor f = uint_to_cbor (scope_into f)"

section \<open>The abstract syntax block\<close>

type_synonym ranges = "(u64 \<times> nat \<times> nat) list"

record AbstractSyntaxBlock =
  asb_context :: bpsec_context
  asb_source :: Eid
  asb_parameters :: ranges
  asb_results :: "(u64 \<times> ranges) list"

definition strict_array :: "series \<Rightarrow> bool \<Rightarrow> u64 list \<Rightarrow> bool" where
  "strict_array a s tags \<longleftrightarrow> s \<and> tags = [] \<and> is_definite a"

definition items_left :: "series \<Rightarrow> nat" where
  "items_left a = (case sr_count a of Some c \<Rightarrow> c - sr_parsed a | None \<Rightarrow> 0)"

definition range_item :: "float_ops \<Rightarrow> nat \<Rightarrow> series \<Rightarrow> bool \<Rightarrow> u64 list \<Rightarrow>
    bpsec_error + ((u64 \<times> nat \<times> nat) \<times> series)" where
  "range_item F base a s tags =
    (if \<not> strict_array a s tags then Inl BpsecNotCanonical
     else
       and_then (require_canonical id bpsec_of_cbor BpsecInvalidField 1 (u64_from_cbor F) a ''id'' BpsecNotCanonical) (\<lambda>(i, a).
       let data_start = base + sr_offset a
       in and_then (map_field_err BpsecInvalidField bpsec_of_cbor ''value'' (series_skip_value F 1 a 16)) (\<lambda>(_, a).
            Inr ((i, data_start, base + sr_offset a), a))))"

fun ranges_loop :: "float_ops \<Rightarrow> nat \<Rightarrow> nat \<Rightarrow> series \<Rightarrow> ranges \<Rightarrow> bpsec_error + (ranges \<times> series)" where
  "ranges_loop F 0 offset a m = Inr (m, a)"
| "ranges_loop F (Suc n) offset a m =
    and_then (series_parse_array bpsec_of_cbor F 1 (range_item F (offset + sr_offset a)) a) (\<lambda>((i, r), a).
      ranges_loop F n offset a (hm_put i r m))"

definition parse_ranges :: "float_ops \<Rightarrow> nat \<Rightarrow> series \<Rightarrow> nat \<Rightarrow> bpsec_error + (ranges option \<times> series)" where
  "parse_ranges F D sq offset =
    and_then (map_err bpsec_of_cbor (at_end D sq)) (\<lambda>(e, sq).
      if e then Inr (None, sq)
      else
        let offset = offset + sr_offset sq
        in and_then (series_parse_array bpsec_of_cbor F D (\<lambda>a s tags.
             if \<not> strict_array a s tags then Inl BpsecNotCanonical
             else ranges_loop F (items_left a) offset a []) sq) (\<lambda>(m, sq). Inr (Some m, sq)))"

fun targets_loop :: "float_ops \<Rightarrow> nat \<Rightarrow> series \<Rightarrow> u64 list \<Rightarrow> bpsec_error + (u64 list \<times> series)" where
  "targets_loop F 0 a targets = Inr (targets, a)"
| "targets_loop F (Suc n) a targets =
    and_then (map_err bpsec_of_cbor (series_parse id 1 (with_shortest_len (untagged id (u64_from_cbor F))) a)) (\<lambda>((b, s, _), a).
      if \<not> s then Inl BpsecNotCanonical
      else if b \<in> set targets then Inl DuplicateOpTarget
      else targets_loop F n a (targets @ [b]))"

definition asb_targets :: "float_ops \<Rightarrow> series \<Rightarrow> bool \<Rightarrow> u64 list \<Rightarrow> bpsec_error + (u64 list \<times> series)" where
  "asb_targets F a s tags =
    (if \<not> strict_array a s tags then Inl BpsecNotCanonical else targets_loop F (items_left a) a [])"

fun results_loop :: "float_ops \<Rightarrow> nat \<Rightarrow> nat \<Rightarrow> u64 list \<Rightarrow> series \<Rightarrow> (u64 \<times> ranges) list \<Rightarrow>
    bpsec_error + ((u64 \<times> ranges) list \<times> series)" where
  "results_loop F 0 offset targets a m = Inr (m, a)"
| "results_loop F (Suc n) offset targets a m =
    and_then (map_field_err BpsecInvalidField id ''security results'' (parse_ranges F 1 a offset)) (\<lambda>(r, a).
      case r of
        None \<Rightarrow> Inr (m, a)
      | Some rs \<Rightarrow>
          (case targets of
             [] \<Rightarrow> Inl MismatchedTargetResult
           | t # targets \<Rightarrow> results_loop F n offset targets a (hm_put t rs m)))"

definition asb_results_array :: "float_ops \<Rightarrow> nat \<Rightarrow> u64 list \<Rightarrow> series \<Rightarrow> bool \<Rightarrow> u64 list \<Rightarrow>
    bpsec_error + ((u64 \<times> ranges) list \<times> series)" where
  "asb_results_array F offset targets a s tags =
    (if \<not> strict_array a s tags then Inl BpsecNotCanonical
     else results_loop F (items_left a) offset targets a [])"

definition asb_body :: "text_ops \<Rightarrow> float_ops \<Rightarrow> series \<Rightarrow> bpsec_error + (AbstractSyntaxBlock \<times> series)" where
  "asb_body X F sq =
    and_then (map_field_err BpsecInvalidField id ''security targets''
      (series_parse_array bpsec_of_cbor F 0 (asb_targets F) sq)) (\<lambda>(targets, sq).
    if targets = [] then Inl NoTargets else
    and_then (require_canonical bpsec_of_cbor id BpsecInvalidField 0 (context_from_cbor F) sq ''security context id''
      BpsecNotCanonical) (\<lambda>(context, sq).
    and_then (require_canonical id bpsec_of_cbor BpsecInvalidField 0 (u64_from_cbor F) sq ''security context flags''
      BpsecNotCanonical) (\<lambda>(flags, sq).
    and_then (require_canonical eid_of_cbor BpsecInvalidEid BpsecInvalidField 0 (eid_from_cbor X F) sq ''security source''
      BpsecNotCanonical) (\<lambda>(source, sq).
    if (case source of Null \<Rightarrow> True | LocalNode _ \<Rightarrow> True | _ \<Rightarrow> False) then Inl InvalidSecuritySource else
    and_then
      (if flags AND 1 = 0 then Inr ([], sq)
       else and_then (map_field_err BpsecInvalidField id ''security context parameters'' (parse_ranges F 0 sq 0))
              (\<lambda>(r, sq). Inr (case r of Some m \<Rightarrow> m | None \<Rightarrow> [], sq))) (\<lambda>(parameters, sq).
    and_then (series_parse_array bpsec_of_cbor F 0 (asb_results_array F (sr_offset sq) targets) sq) (\<lambda>(results, sq).
    if length targets \<noteq> length results then Inl MismatchedTargetResult
    else Inr (\<lparr>asb_context = context, asb_source = source, asb_parameters = parameters, asb_results = results\<rparr>, sq)))))))"

definition asb_from_cbor :: "text_ops \<Rightarrow> float_ops \<Rightarrow> (bpsec_error, AbstractSyntaxBlock) from_cbor" where
  "asb_from_cbor X F d =
    and_then (parse_sequence bpsec_of_cbor (asb_body X F) d) (\<lambda>(v, len). Inr (v, True, len))"

section \<open>Unpacking\<close>

definition bounded_slice :: "bytes \<Rightarrow> nat \<times> nat \<Rightarrow> bpsec_error + bytes" where
  "bounded_slice d r =
    (if fst r \<le> snd r \<and> snd r \<le> length d then Inr (slice d r) else Inl (SourceOutOfRange (fst r) (snd r) (length d)))"

fun slice_map :: "ranges \<Rightarrow> bytes \<Rightarrow> bpsec_error + (u64 \<times> bytes) list" where
  "slice_map [] d = Inr []"
| "slice_map ((i, r) # rs) d =
    and_then (bounded_slice d r) (\<lambda>b. and_then (slice_map rs d) (\<lambda>m. Inr ((i, b) # m)))"

definition decode_box :: "float_ops \<Rightarrow> nat \<times> nat \<Rightarrow> bytes \<Rightarrow> bpsec_error + bytes" where
  "decode_box F r d =
    and_then (bounded_slice d r) (\<lambda>d.
    and_then (parse_value bpsec_of_cbor F (\<lambda>v s tags.
      case v of
        VBytes r \<Rightarrow> if s \<and> tags = [] then Inr (slice d r, v) else Inl BpsecNotCanonical
      | VByteStream _ \<Rightarrow> Inl BpsecNotCanonical
      | _ \<Rightarrow> Inl (bpsec_of_cbor (IncorrectType ''Untagged definite-length byte string'' (value_item_type v tags)))) d)
      (\<lambda>(b, _). Inr b))"

fun operations_loop :: "(ranges \<Rightarrow> bpsec_error + 'r) \<Rightarrow> ('r \<Rightarrow> 'o) \<Rightarrow> (u64 \<times> ranges) list \<Rightarrow> bpsec_error + (u64 \<times> 'o) list" where
  "operations_loop parse_results mk [] = Inr []"
| "operations_loop parse_results mk ((target, rs) # rest) =
    and_then (parse_results rs) (\<lambda>r.
    and_then (operations_loop parse_results mk rest) (\<lambda>ops. Inr ((target, mk r) # ops)))"

definition into_operations :: "AbstractSyntaxBlock \<Rightarrow> bytes \<Rightarrow> string \<Rightarrow> string \<Rightarrow> (ranges \<Rightarrow> bytes \<Rightarrow> bpsec_error + 'p) \<Rightarrow>
    (ranges \<Rightarrow> bytes \<Rightarrow> bpsec_error + 'r) \<Rightarrow> ('p \<Rightarrow> 'r \<Rightarrow> 'o) \<Rightarrow> bpsec_error + (Eid \<times> (u64 \<times> 'o) list)" where
  "into_operations asb d params_field results_field parse_params parse_results mk =
    and_then (map_field_err BpsecInvalidField id params_field (parse_params (asb_parameters asb) d)) (\<lambda>p.
    and_then (operations_loop (\<lambda>rs. map_field_err BpsecInvalidField id results_field (parse_results rs d)) (mk p)
      (asb_results asb)) (\<lambda>ops. Inr (asb_source asb, ops)))"

record UnknownOp =
  uo_parameters :: "(u64 \<times> bytes) list"
  uo_results :: "(u64 \<times> bytes) list"

definition unknown_parse :: "AbstractSyntaxBlock \<Rightarrow> bytes \<Rightarrow> bpsec_error + (Eid \<times> (u64 \<times> UnknownOp) list)" where
  "unknown_parse asb d =
    into_operations asb d ''security context parameters'' ''security results'' slice_map slice_map
      (\<lambda>p r. \<lparr>uo_parameters = p, uo_results = r\<rparr>)"

section \<open>The HMAC-SHA2 context\<close>

datatype ShaVariant = HMAC_256_256 | HMAC_384_384 | HMAC_512_512 | UnrecognisedSha u64

definition sha_of :: "u64 \<Rightarrow> ShaVariant" where
  "sha_of v = (if v = 5 then HMAC_256_256 else if v = 6 then HMAC_384_384 else if v = 7 then HMAC_512_512
    else UnrecognisedSha v)"

definition sha_from_cbor :: "float_ops \<Rightarrow> (bpsec_error, ShaVariant) from_cbor" where
  "sha_from_cbor F d =
    and_then (parse_canonical id bpsec_of_cbor (u64_from_cbor F) d BpsecNotCanonical) (\<lambda>(v, len).
      Inr (sha_of v, True, len))"

record hmac_parameters =
  hp_variant :: ShaVariant
  hp_key :: "bytes option"
  hp_flags :: ScopeFlags

definition hmac_default :: hmac_parameters where
  "hmac_default = \<lparr>hp_variant = HMAC_384_384, hp_key = None, hp_flags = scope_default\<rparr>"

fun hmac_parameters_loop :: "float_ops \<Rightarrow> bytes \<Rightarrow> ranges \<Rightarrow> hmac_parameters \<Rightarrow> bpsec_error + hmac_parameters" where
  "hmac_parameters_loop F d [] p = Inr p"
| "hmac_parameters_loop F d ((i, r) # rs) p =
    and_then
      (if i = 1 then and_then (bounded_slice d r) (\<lambda>b. and_then (parse (sha_from_cbor F) b) (\<lambda>v. Inr (p\<lparr>hp_variant := v\<rparr>)))
       else if i = 2 then and_then (decode_box F r d) (\<lambda>k. Inr (p\<lparr>hp_key := Some k\<rparr>))
       else if i = 3 then and_then (bounded_slice d r) (\<lambda>b. and_then (parse (scope_from_cbor F) b) (\<lambda>f. Inr (p\<lparr>hp_flags := f\<rparr>)))
       else Inl (InvalidContextParameter i))
      (hmac_parameters_loop F d rs)"

definition hmac_parameters_from :: "float_ops \<Rightarrow> ranges \<Rightarrow> bytes \<Rightarrow> bpsec_error + hmac_parameters" where
  "hmac_parameters_from F rs d = hmac_parameters_loop F d rs hmac_default"

text \<open>The one result both contexts know, under number 1.\<close>

fun single_result :: "float_ops \<Rightarrow> bytes \<Rightarrow> ranges \<Rightarrow> bytes option \<Rightarrow> bpsec_error + bytes option" where
  "single_result F d [] r = Inr r"
| "single_result F d ((i, x) # rs) r =
    (if i = 1 then and_then (decode_box F x d) (\<lambda>b. single_result F d rs (Some b))
     else Inl (InvalidContextResult i))"

definition hmac_results_from :: "float_ops \<Rightarrow> ranges \<Rightarrow> bytes \<Rightarrow> bpsec_error + bytes" where
  "hmac_results_from F rs d = and_then (single_result F d rs None) (\<lambda>r. ok_or r (InvalidContextResult 1))"

record hmac_operation =
  ho_parameters :: hmac_parameters
  ho_results :: bytes

section \<open>The AES-GCM context\<close>

datatype AesVariant = VA128GCM | VA256GCM | UnrecognisedAes u64

definition aes_of :: "u64 \<Rightarrow> AesVariant" where
  "aes_of v = (if v = 1 then VA128GCM else if v = 3 then VA256GCM else UnrecognisedAes v)"

definition aes_from_cbor :: "float_ops \<Rightarrow> (bpsec_error, AesVariant) from_cbor" where
  "aes_from_cbor F d =
    and_then (parse_canonical id bpsec_of_cbor (u64_from_cbor F) d BpsecNotCanonical) (\<lambda>(v, len).
      Inr (aes_of v, True, len))"

definition iv_from_bytes :: "bytes \<Rightarrow> bpsec_error + bytes" where
  "iv_from_bytes b = (if 8 \<le> length b \<and> length b \<le> 16 then Inr b else Inl (InvalidIvLength (length b)))"

record aes_parameters =
  ap_iv :: bytes
  ap_variant :: AesVariant
  ap_key :: "bytes option"
  ap_flags :: ScopeFlags

record aes_partial =
  pp_iv :: "bytes option"
  pp_variant :: "AesVariant option"
  pp_key :: "bytes option"
  pp_flags :: "ScopeFlags option"

fun aes_parameters_loop :: "float_ops \<Rightarrow> bytes \<Rightarrow> ranges \<Rightarrow> aes_partial \<Rightarrow> bpsec_error + aes_partial" where
  "aes_parameters_loop F d [] p = Inr p"
| "aes_parameters_loop F d ((i, r) # rs) p =
    and_then
      (if i = 1 then and_then (decode_box F r d) (\<lambda>b. Inr (p\<lparr>pp_iv := Some b\<rparr>))
       else if i = 2 then and_then (bounded_slice d r) (\<lambda>b. and_then (parse (aes_from_cbor F) b) (\<lambda>v. Inr (p\<lparr>pp_variant := Some v\<rparr>)))
       else if i = 3 then and_then (decode_box F r d) (\<lambda>k. Inr (p\<lparr>pp_key := Some k\<rparr>))
       else if i = 4 then and_then (bounded_slice d r) (\<lambda>b. and_then (parse (scope_from_cbor F) b) (\<lambda>f. Inr (p\<lparr>pp_flags := Some f\<rparr>)))
       else Inl (InvalidContextParameter i))
      (aes_parameters_loop F d rs)"

definition aes_parameters_from :: "float_ops \<Rightarrow> ranges \<Rightarrow> bytes \<Rightarrow> bpsec_error + aes_parameters" where
  "aes_parameters_from F rs d =
    and_then (aes_parameters_loop F d rs \<lparr>pp_iv = None, pp_variant = None, pp_key = None, pp_flags = None\<rparr>) (\<lambda>p.
    and_then (ok_or (pp_iv p) (MissingContextParameter 1)) (\<lambda>iv.
    and_then (iv_from_bytes iv) (\<lambda>iv.
      Inr \<lparr>ap_iv = iv, ap_variant = (case pp_variant p of Some v \<Rightarrow> v | None \<Rightarrow> VA256GCM), ap_key = pp_key p,
           ap_flags = (case pp_flags p of Some f \<Rightarrow> f | None \<Rightarrow> scope_default)\<rparr>)))"

record aes_operation =
  ao_parameters :: aes_parameters
  ao_results :: "bytes option"

section \<open>Operation sets\<close>

datatype bib_operation = HMAC_SHA2 hmac_operation | BibUnrecognised u64 UnknownOp

datatype bcb_operation = AES_GCM aes_operation | BcbUnrecognised u64 UnknownOp

record 'o OperationSet =
  os_source :: Eid
  os_operations :: "(u64 \<times> 'o) list"

definition operation_set :: "Eid \<times> (u64 \<times> 'o) list \<Rightarrow> 'o OperationSet" where
  "operation_set r = \<lparr>os_source = fst r, os_operations = snd r\<rparr>"

definition unknown_set :: "(u64 \<Rightarrow> UnknownOp \<Rightarrow> 'o) \<Rightarrow> u64 \<Rightarrow> AbstractSyntaxBlock \<Rightarrow> bytes \<Rightarrow> bpsec_error + 'o OperationSet" where
  "unknown_set mk i asb d =
    and_then (unknown_parse asb d) (\<lambda>(source, ops). Inr \<lparr>os_source = source, os_operations = map (map_prod id (mk i)) ops\<rparr>)"

definition bib_set_from_cbor :: "text_ops \<Rightarrow> float_ops \<Rightarrow> (bpsec_error, bib_operation OperationSet) from_cbor" where
  "bib_set_from_cbor X F d =
    and_then (asb_from_cbor X F d) (\<lambda>(asb, _, len).
    and_then
      (case asb_context asb of
         BIB_HMAC_SHA2 \<Rightarrow>
           and_then (into_operations asb d ''RFC9173 HMAC-SHA2 parameters'' ''RFC9173 HMAC-SHA2 results''
             (hmac_parameters_from F) (hmac_results_from F)
             (\<lambda>p r. HMAC_SHA2 \<lparr>ho_parameters = p, ho_results = r\<rparr>)) (\<lambda>r. Inr (operation_set r))
       | UnrecognisedCtx i \<Rightarrow> unknown_set BibUnrecognised i asb d
       | c \<Rightarrow> Inl (InvalidContext c)) (\<lambda>ops. Inr (ops, True, len)))"

definition bcb_set_from_cbor :: "text_ops \<Rightarrow> float_ops \<Rightarrow> (bpsec_error, bcb_operation OperationSet) from_cbor" where
  "bcb_set_from_cbor X F d =
    and_then (asb_from_cbor X F d) (\<lambda>(asb, _, len).
    and_then
      (case asb_context asb of
         BCB_AES_GCM \<Rightarrow>
           and_then (into_operations asb d ''RFC9173 AES-GCM parameters'' ''RFC9173 AES-GCM results''
             (aes_parameters_from F) (\<lambda>rs d. single_result F d rs None)
             (\<lambda>p r. AES_GCM \<lparr>ao_parameters = p, ao_results = r\<rparr>)) (\<lambda>r. Inr (operation_set r))
       | UnrecognisedCtx i \<Rightarrow> unknown_set BcbUnrecognised i asb d
       | c \<Rightarrow> Inl (InvalidContext c)) (\<lambda>ops. Inr (ops, True, len)))"

definition bib_unsupported_error :: "bib_operation \<Rightarrow> bpsec_error option" where
  "bib_unsupported_error op =
    (case op of
       HMAC_SHA2 o' \<Rightarrow> (case hp_variant (ho_parameters o') of UnrecognisedSha _ \<Rightarrow> Some UnsupportedOperation | _ \<Rightarrow> None)
     | BibUnrecognised i _ \<Rightarrow> Some (UnrecognisedContext i))"

definition bcb_unsupported_error :: "bcb_operation \<Rightarrow> bpsec_error option" where
  "bcb_unsupported_error op =
    (case op of
       AES_GCM o' \<Rightarrow> (case ap_variant (ao_parameters o') of UnrecognisedAes _ \<Rightarrow> Some UnsupportedOperation | _ \<Rightarrow> None)
     | BcbUnrecognised i _ \<Rightarrow> Some (UnrecognisedContext i))"

definition set_unsupported_error :: "('o \<Rightarrow> bpsec_error option) \<Rightarrow> 'o OperationSet \<Rightarrow> bpsec_error option" where
  "set_unsupported_error f ops =
    (case List.map_filter (\<lambda>(_, o'). f o') (os_operations ops) of e # _ \<Rightarrow> Some e | [] \<Rightarrow> None)"

section \<open>Structural checks\<close>

type_synonym blocks = "(u64 \<times> block) list"

definition bib_target_error :: "u64 \<Rightarrow> u64 option \<Rightarrow> blocks \<Rightarrow> u64 \<Rightarrow> bpsec_error option" where
  "bib_target_error bib_number bib_bcb blocks target =
    (case map_of blocks target of
       None \<Rightarrow> Some MissingSecurityTarget
     | Some b \<Rightarrow>
         if blk_type b = BlockSecurity \<or> blk_type b = BlockIntegrity then Some InvalidBIBTarget
         else if (case blk_bib b of BibSome n \<Rightarrow> n \<noteq> bib_number | _ \<Rightarrow> False) then Some DuplicateOpTarget
         else if blk_bcb b \<noteq> None \<and> bib_bcb = None then Some BIBMustBeEncrypted
         else None)"

fun first_error :: "('a \<Rightarrow> 'e option) \<Rightarrow> 'a list \<Rightarrow> 'e + unit" where
  "first_error f [] = Inr ()"
| "first_error f (x # xs) = (case f x of Some e \<Rightarrow> Inl e | None \<Rightarrow> first_error f xs)"

text \<open>The checks panic on a block number that is not in the map: \<open>None\<close>.\<close>

definition bib_check :: "bib_operation OperationSet \<Rightarrow> u64 \<Rightarrow> blocks \<Rightarrow> (bpsec_error + unit) option" where
  "bib_check ops bib_number blocks =
    map_option (\<lambda>b. first_error (bib_target_error bib_number (blk_bcb b) blocks) (map fst (os_operations ops)))
      (map_of blocks bib_number)"

definition bcb_target_error :: "u64 \<Rightarrow> bool \<Rightarrow> blocks \<Rightarrow> u64 \<Rightarrow> bpsec_error option" where
  "bcb_target_error bcb_number replicated blocks target =
    (case map_of blocks target of
       None \<Rightarrow> Some MissingSecurityTarget
     | Some b \<Rightarrow>
         if blk_type b = Primary \<or> blk_type b = BlockSecurity then Some InvalidBCBTarget
         else if blk_type b = Payload \<and> \<not> replicated then Some BCBMustReplicate
         else if (case blk_bcb b of Some n \<Rightarrow> n \<noteq> bcb_number | None \<Rightarrow> False) then Some DuplicateOpTarget
         else None)"

definition bcb_check :: "bcb_operation OperationSet \<Rightarrow> u64 \<Rightarrow> blocks \<Rightarrow> (bpsec_error + unit) option" where
  "bcb_check ops bcb_number blocks =
    map_option (\<lambda>b.
        if delete_block_on_failure (blk_flags b) then Inl BCBDeleteFlag
        else first_error (bcb_target_error bcb_number (must_replicate (blk_flags b)) blocks) (map fst (os_operations ops)))
      (map_of blocks bcb_number)"

lemma first_error_Inr: "first_error f xs = Inr u \<longleftrightarrow> (\<forall>x \<in> set xs. f x = None)"
  by (induction xs) (auto split: option.split)

end
