(* ===== verification/Bpv7_Tail.thy ===== *)
theory Bpv7_Tail
  imports Bpv7_Bpsec
begin

text \<open>
  The synchronous continuation of \<^verbatim>\<open>parse.rs\<close> for a payload that does not fit the buffer:
  \<^verbatim>\<open>PayloadTail\<close> takes the rest of the bundle in runs of any length, feeds the running CRC, checks
  the trailer byte by byte and says when the bundle is complete. After an error the continuation
  is dropped, so that its state is not part of an error.
\<close>

section \<open>The continuation\<close>

datatype TailPhase = TailBody | TailCrcHead | TailCrcValue | TailBlockBreak | TailOuterBreak | TailDone

record PayloadTail =
  pt_digest :: "digest option"
  pt_crc_type :: CrcType
  pt_indefinite :: bool
  pt_phase :: TailPhase
  pt_body_remaining :: u64
  pt_remaining :: u64
  pt_crc_value :: bytes
  pt_crc_filled :: nat

definition crc_value_len :: "CrcType \<Rightarrow> nat" where
  "crc_value_len t = (case t of CRC16_X25 \<Rightarrow> 2 | CRC32_CASTAGNOLI \<Rightarrow> 4 | _ \<Rightarrow> 0)"

definition crc_head_byte :: "CrcType \<Rightarrow> u8" where
  "crc_head_byte t = (case t of CRC16_X25 \<Rightarrow> 0x42 | CRC32_CASTAGNOLI \<Rightarrow> 0x44 | _ \<Rightarrow> 0)"

definition after_body :: "CrcType \<Rightarrow> bool \<Rightarrow> TailPhase" where
  "after_body t is_indefinite =
    (if t \<noteq> NoCrc then TailCrcHead else if is_indefinite then TailBlockBreak else TailOuterBreak)"

definition tail_new :: "digest option \<Rightarrow> CrcType \<Rightarrow> bool \<Rightarrow> u64 \<Rightarrow> u64 \<Rightarrow> PayloadTail" where
  "tail_new dg t is_indefinite body_remaining remaining =
    \<lparr>pt_digest = dg, pt_crc_type = t, pt_indefinite = is_indefinite,
     pt_phase = (if body_remaining > 0 then TailBody else after_body t is_indefinite),
     pt_body_remaining = body_remaining, pt_remaining = remaining, pt_crc_value = [0, 0, 0, 0], pt_crc_filled = 0\<rparr>"

definition verify_crc :: "crc_ops \<Rightarrow> PayloadTail \<Rightarrow> bp_error + PayloadTail" where
  "verify_crc C T =
    (case pt_digest T of
       None \<Rightarrow> Inr T
     | Some dg \<Rightarrow>
         if digest_verify C dg (take (crc_value_len (pt_crc_type T)) (pt_crc_value T)) then Inr (T\<lparr>pt_digest := None\<rparr>)
         else Inl (InvalidCrc IncorrectCrc))"

definition enter_after_body :: "crc_ops \<Rightarrow> PayloadTail \<Rightarrow> bp_error + PayloadTail" where
  "enter_after_body C T =
    (let T = T\<lparr>pt_phase := after_body (pt_crc_type T) (pt_indefinite T)\<rparr>
     in if pt_phase T = TailOuterBreak then verify_crc C T else Inr T)"

definition tail_feed :: "bytes \<Rightarrow> PayloadTail \<Rightarrow> PayloadTail" where
  "tail_feed bs T = T\<lparr>pt_digest := map_option (digest_push bs) (pt_digest T)\<rparr>"

text \<open>One turn of the loop of \<^verbatim>\<open>push\<close> on a run that is not empty: what is left of it and the
  continuation. \<open>None\<close> is the panic of copying past the end of the CRC value.\<close>

definition tail_step ::
  "crc_ops \<Rightarrow> PayloadTail \<Rightarrow> byte \<Rightarrow> bytes \<Rightarrow> (bp_error + (bytes \<times> PayloadTail)) option" where
  "tail_step C T b bs =
    (let run = b # bs
     in case pt_phase T of
          TailBody \<Rightarrow>
            let n = min (unat (pt_body_remaining T)) (length run);
                T = (tail_feed (take n run) T)\<lparr>pt_body_remaining := pt_body_remaining T - of_nat n\<rparr>
            in Some (if pt_body_remaining T = 0 then and_then (enter_after_body C T) (\<lambda>T. Inr (drop n run, T))
                     else Inr (drop n run, T))
        | TailCrcHead \<Rightarrow>
            Some (if b \<noteq> crc_head_byte (pt_crc_type T) then Inl NotCanonical
                  else Inr (bs, T\<lparr>pt_digest := map_option (\<lambda>dg. snd (digest_push_zeros (digest_push [b] dg))) (pt_digest T),
                                  pt_phase := TailCrcValue\<rparr>))
        | TailCrcValue \<Rightarrow>
            if pt_crc_filled T > crc_value_len (pt_crc_type T) then None
            else
              let want = crc_value_len (pt_crc_type T) - pt_crc_filled T;
                  n = min want (length run);
                  T = T\<lparr>pt_crc_value := take (pt_crc_filled T) (pt_crc_value T) @ take n run @
                          drop (pt_crc_filled T + n) (pt_crc_value T),
                        pt_crc_filled := pt_crc_filled T + n\<rparr>
              in Some (if pt_crc_filled T = crc_value_len (pt_crc_type T) then
                         if pt_indefinite T then Inr (drop n run, T\<lparr>pt_phase := TailBlockBreak\<rparr>)
                         else and_then (verify_crc C T) (\<lambda>T. Inr (drop n run, T\<lparr>pt_phase := TailOuterBreak\<rparr>))
                       else Inr (drop n run, T))
        | TailBlockBreak \<Rightarrow>
            Some (if b \<noteq> 0xFF then Inl NotCanonical
                  else and_then (verify_crc C (tail_feed [0xFF] T)) (\<lambda>T. Inr (bs, T\<lparr>pt_phase := TailOuterBreak\<rparr>)))
        | TailOuterBreak \<Rightarrow>
            Some (if b \<noteq> 0xFF then Inl NotCanonical else Inr (bs, T\<lparr>pt_phase := TailDone\<rparr>))
        | TailDone \<Rightarrow> Some (Inl AdditionalData))"

fun phase_rank :: "TailPhase \<Rightarrow> nat" where
  "phase_rank TailBody = 5"
| "phase_rank TailCrcHead = 4"
| "phase_rank TailCrcValue = 3"
| "phase_rank TailBlockBreak = 2"
| "phase_rank TailOuterBreak = 1"
| "phase_rank TailDone = 0"

lemma verify_crc_fields: "verify_crc C T = Inr T' \<Longrightarrow> T' = T\<lparr>pt_digest := None\<rparr>"
  by (cases T) (auto simp: verify_crc_def split: option.splits if_splits)

lemma after_body_rank: "phase_rank (after_body t i) < 5"
  by (simp add: after_body_def)

lemma enter_after_body_phase:
  "enter_after_body C T = Inr T' \<Longrightarrow> pt_phase T' = after_body (pt_crc_type T) (pt_indefinite T)"
  by (auto simp: enter_after_body_def Let_def split: if_splits dest!: verify_crc_fields)

text \<open>Every turn takes a byte or leaves a phase behind.\<close>

lemma tail_step_shrinks:
  assumes "tail_step C T b bs = Some (Inr (rest, T'))"
  shows "length rest < length (b # bs) \<or>
    length rest = length (b # bs) \<and> phase_rank (pt_phase T') < phase_rank (pt_phase T)"
proof (cases "pt_phase T")
  case TailBody
  have z: "pt_body_remaining T = 0 \<Longrightarrow> pt_phase T' = after_body (pt_crc_type T) (pt_indefinite T)"
    using assms TailBody
    by (auto simp: tail_step_def Let_def and_then_Inr tail_feed_def dest!: enter_after_body_phase)
  have n: "length rest = length (b # bs) - min (unat (pt_body_remaining T)) (length (b # bs))"
    using assms TailBody by (auto simp: tail_step_def Let_def and_then_Inr split: if_splits)
  show ?thesis
  proof (cases "pt_body_remaining T = 0")
    case True
    then show ?thesis using z n TailBody after_body_rank by simp
  next
    case False
    then have "0 < unat (pt_body_remaining T)" by (simp add: word_neq_0_conv unat_gt_0)
    then show ?thesis using n by auto
  qed
next
  case TailCrcValue
  then show ?thesis
    using assms
    by (auto simp: tail_step_def Let_def and_then_Inr min_def split: if_splits dest!: verify_crc_fields)
qed (use assms in \<open>auto simp: tail_step_def Let_def and_then_Inr split: if_splits\<close>)

function tail_loop :: "crc_ops \<Rightarrow> PayloadTail \<Rightarrow> bytes \<Rightarrow> (bp_error + PayloadTail) option" where
  "tail_loop C T [] = Some (Inr T)"
| "tail_loop C T (b # bs) =
    (case tail_step C T b bs of
       None \<Rightarrow> None
     | Some (Inl e) \<Rightarrow> Some (Inl e)
     | Some (Inr (rest, T')) \<Rightarrow> tail_loop C T' rest)"
  by pat_completeness auto
termination
  by (relation "inv_image (less_than <*lex*> less_than) (\<lambda>(C, T, bs). (length bs, phase_rank (pt_phase T)))")
    (auto dest!: tail_step_shrinks)

definition saturating_sub :: "u64 \<Rightarrow> u64 \<Rightarrow> u64" where
  "saturating_sub a b = (if a < b then 0 else a - b)"

definition tail_push :: "crc_ops \<Rightarrow> PayloadTail \<Rightarrow> bytes \<Rightarrow> (bp_error + (bool \<times> PayloadTail)) option" where
  "tail_push C T bs =
    map_option (\<lambda>r. and_then r (\<lambda>T'.
        Inr (pt_phase T' = TailDone, T'\<lparr>pt_remaining := saturating_sub (pt_remaining T') (of_nat (length bs))\<rparr>)))
      (tail_loop C T bs)"

definition tail_finish :: "PayloadTail \<Rightarrow> bp_error + unit" where
  "tail_finish T =
    (if pt_phase T = TailDone then Inr ()
     else Inl (InvalidCBOR (NeedMoreData
       (case usize_try_from (pt_remaining T) of Some n \<Rightarrow> n | None \<Rightarrow> usize_max))))"

section \<open>Runs of any length\<close>

definition tail_ok :: "PayloadTail \<Rightarrow> bool" where
  "tail_ok T \<longleftrightarrow> length (pt_crc_value T) = 4 \<and> (\<forall>c. pt_crc_type T \<noteq> UnrecognisedCrc c) \<and>
    (case pt_phase T of
       TailBody \<Rightarrow> pt_body_remaining T \<noteq> 0 \<and> pt_crc_filled T = 0
     | TailCrcHead \<Rightarrow> pt_crc_type T \<noteq> NoCrc \<and> pt_crc_filled T = 0
     | TailCrcValue \<Rightarrow> pt_crc_filled T < crc_value_len (pt_crc_type T)
     | _ \<Rightarrow> True)"

lemma crc_value_len_le: "crc_value_len t \<le> 4"
  by (simp add: crc_value_len_def split: CrcType.split)

lemma crc_value_len_pos: "t \<noteq> NoCrc \<Longrightarrow> \<forall>c. t \<noteq> UnrecognisedCrc c \<Longrightarrow> 0 < crc_value_len t"
  by (cases t) (simp_all add: crc_value_len_def)

lemma tail_new_ok: "\<forall>c. t \<noteq> UnrecognisedCrc c \<Longrightarrow> tail_ok (tail_new dg t i n r)"
  by (auto simp: tail_ok_def tail_new_def after_body_def word_gt_0 split: TailPhase.split)

lemma enter_after_body_ok:
  assumes "enter_after_body C T = Inr T'" and "length (pt_crc_value T) = 4" and "\<forall>c. pt_crc_type T \<noteq> UnrecognisedCrc c"
    and "pt_crc_filled T = 0"
  shows "tail_ok T'"
  using assms
  by (auto simp: enter_after_body_def Let_def tail_ok_def after_body_def split: if_splits TailPhase.splits
      dest!: verify_crc_fields)

lemma tail_step_ok:
  assumes "tail_ok T" and "tail_step C T b bs = Some (Inr (rest, T'))"
  shows "tail_ok T'"
proof (cases "pt_phase T")
  case TailBody
  let ?n = "min (unat (pt_body_remaining T)) (length (b # bs))"
  let ?T = "(tail_feed (take ?n (b # bs)) T)\<lparr>pt_body_remaining := pt_body_remaining T - of_nat ?n\<rparr>"
  have s: "if pt_body_remaining ?T = 0 then enter_after_body C ?T = Inr T' else T' = ?T"
    using assms(2) TailBody by (auto simp: tail_step_def Let_def and_then_Inr split: if_splits)
  have k: "length (pt_crc_value ?T) = 4" "\<forall>c. pt_crc_type ?T \<noteq> UnrecognisedCrc c" "pt_crc_filled ?T = 0"
    "pt_phase ?T = TailBody"
    using assms(1) TailBody by (simp_all add: tail_ok_def tail_feed_def)
  show ?thesis
  proof (cases "pt_body_remaining ?T = 0")
    case True
    then have "enter_after_body C ?T = Inr T'" using s by simp
    then show ?thesis using k(1,2,3) by (rule enter_after_body_ok)
  next
    case False
    then have "T' = ?T" using s by simp
    then show ?thesis using k False by (simp add: tail_ok_def)
  qed
next
  case TailCrcHead
  then show ?thesis
    using assms crc_value_len_pos by (auto simp: tail_step_def Let_def tail_ok_def split: if_splits)
next
  case TailCrcValue
  have "crc_value_len (pt_crc_type T) \<le> 4" by (rule crc_value_len_le)
  then show ?thesis
    using TailCrcValue assms
    by (auto simp: tail_step_def Let_def and_then_Inr tail_ok_def split: if_splits dest!: verify_crc_fields)
qed (use assms in \<open>auto simp: tail_step_def Let_def and_then_Inr tail_ok_def tail_feed_def
    split: if_splits TailPhase.splits dest!: verify_crc_fields\<close>)

lemma tail_step_total: "tail_ok T \<Longrightarrow> tail_step C T b bs \<noteq> None"
  by (cases "pt_phase T") (auto simp: tail_step_def Let_def tail_ok_def)

lemma tail_loop_total: "tail_ok T \<Longrightarrow> tail_loop C T bs \<noteq> None"
proof (induction C T bs rule: tail_loop.induct)
  case (2 C T b bs)
  then show ?case
    using tail_step_total [OF 2(2), of C b bs] tail_step_ok [OF 2(2)]
    by (auto split: option.split sum.split)
qed simp

lemma tail_loop_ok: "tail_ok T \<Longrightarrow> tail_loop C T bs = Some (Inr T') \<Longrightarrow> tail_ok T'"
proof (induction C T bs rule: tail_loop.induct)
  case (2 C T b bs)
  then show ?case
    using tail_step_ok [OF 2(2)] by (auto split: option.splits sum.splits)
qed simp

text \<open>Taking one byte of the body, or of the CRC value, and then the rest is taking them
  together.\<close>

definition body_result :: "crc_ops \<Rightarrow> PayloadTail \<Rightarrow> bytes \<Rightarrow> bytes \<Rightarrow> bp_error + (bytes \<times> PayloadTail)" where
  "body_result C T x rest =
    (let T = (tail_feed x T)\<lparr>pt_body_remaining := pt_body_remaining T - of_nat (length x)\<rparr>
     in if pt_body_remaining T = 0 then and_then (enter_after_body C T) (\<lambda>T. Inr (rest, T)) else Inr (rest, T))"

definition crc_result :: "crc_ops \<Rightarrow> PayloadTail \<Rightarrow> bytes \<Rightarrow> bytes \<Rightarrow> bp_error + (bytes \<times> PayloadTail)" where
  "crc_result C T x rest =
    (let T = T\<lparr>pt_crc_value := take (pt_crc_filled T) (pt_crc_value T) @ x @ drop (pt_crc_filled T + length x) (pt_crc_value T),
               pt_crc_filled := pt_crc_filled T + length x\<rparr>
     in if pt_crc_filled T = crc_value_len (pt_crc_type T) then
          if pt_indefinite T then Inr (rest, T\<lparr>pt_phase := TailBlockBreak\<rparr>)
          else and_then (verify_crc C T) (\<lambda>T. Inr (rest, T\<lparr>pt_phase := TailOuterBreak\<rparr>))
        else Inr (rest, T))"

lemma tail_step_body:
  "pt_phase T = TailBody \<Longrightarrow> n = min (unat (pt_body_remaining T)) (Suc (length bs)) \<Longrightarrow>
    tail_step C T b bs = Some (body_result C T (take n (b # bs)) (drop n (b # bs)))"
  by (simp add: tail_step_def body_result_def Let_def min_def)

lemma tail_step_crc:
  "pt_phase T = TailCrcValue \<Longrightarrow> pt_crc_filled T \<le> crc_value_len (pt_crc_type T) \<Longrightarrow>
    n = min (crc_value_len (pt_crc_type T) - pt_crc_filled T) (Suc (length bs)) \<Longrightarrow>
    tail_step C T b bs = Some (crc_result C T (take n (b # bs)) (drop n (b # bs)))"
proof -
  assume p: "pt_phase T = TailCrcValue" "pt_crc_filled T \<le> crc_value_len (pt_crc_type T)"
    and n: "n = min (crc_value_len (pt_crc_type T) - pt_crc_filled T) (Suc (length bs))"
  have l: "length (take n (b # bs)) = n" using n by simp
  show ?thesis using p unfolding tail_step_def crc_result_def Let_def l by (simp add: n)
qed

lemma feed_feed: "tail_feed y (tail_feed x T) = tail_feed (x @ y) T"
  by (cases "pt_digest T") (simp_all add: tail_feed_def)

lemma feed_remaining: "tail_feed x (T\<lparr>pt_body_remaining := r\<rparr>) = (tail_feed x T)\<lparr>pt_body_remaining := r\<rparr>"
  by (simp add: tail_feed_def)

lemma body_result_Cons:
  "body_result C T (b # ys) rest =
    body_result C ((tail_feed [b] T)\<lparr>pt_body_remaining := pt_body_remaining T - 1\<rparr>) ys rest"
proof -
  have m: "pt_body_remaining T - of_nat (length (b # ys)) = pt_body_remaining T - 1 - of_nat (length ys)" by simp
  show ?thesis unfolding body_result_def Let_def feed_remaining feed_feed m by simp
qed

lemma crc_result_Cons:
  assumes "pt_crc_filled T < length (pt_crc_value T)"
  shows "crc_result C T (b # ys) rest =
    crc_result C (T\<lparr>pt_crc_value := take (pt_crc_filled T) (pt_crc_value T) @ [b] @ drop (Suc (pt_crc_filled T)) (pt_crc_value T),
                    pt_crc_filled := Suc (pt_crc_filled T)\<rparr>) ys rest"
proof -
  let ?f = "pt_crc_filled T" and ?v = "pt_crc_value T"
  have "take (Suc ?f) (take ?f ?v @ [b] @ drop (Suc ?f) ?v) = take ?f ?v @ [b]"
    "drop (Suc ?f + k) (take ?f ?v @ [b] @ drop (Suc ?f) ?v) = drop (?f + Suc k) ?v" for k
    using assms by (simp_all add: add.commute)
  then show ?thesis by (simp add: crc_result_def Let_def)
qed

lemma body_byte:
  assumes "pt_phase T = TailBody" and "1 < unat (pt_body_remaining T)"
  shows "tail_step C T b (x # xs) =
    tail_step C ((tail_feed [b] T)\<lparr>pt_body_remaining := pt_body_remaining T - 1\<rparr>) x xs"
proof -
  let ?r = "pt_body_remaining T"
  have r: "unat (?r - 1) = unat ?r - 1" using assms(2) by (metis unat_minus_one unat_0 not_less_zero)
  then have n: "Suc (min (unat (?r - 1)) (Suc (length xs))) = min (unat ?r) (Suc (length (x # xs)))"
    using assms(2) by simp
  show ?thesis
    unfolding tail_step_body [OF assms(1) n]
    by (subst tail_step_body [OF _ refl])
      (simp_all add: assms(1) tail_feed_def body_result_Cons [unfolded tail_feed_def])
qed

lemma crc_byte:
  assumes "pt_phase T = TailCrcValue" and "Suc (pt_crc_filled T) < crc_value_len (pt_crc_type T)"
    and "length (pt_crc_value T) = 4"
  shows "tail_step C T b (x # xs) =
    tail_step C (T\<lparr>pt_crc_value := take (pt_crc_filled T) (pt_crc_value T) @ [b] @ drop (Suc (pt_crc_filled T)) (pt_crc_value T),
                   pt_crc_filled := Suc (pt_crc_filled T)\<rparr>) x xs"
proof -
  let ?f = "pt_crc_filled T" and ?l = "crc_value_len (pt_crc_type T)"
  have f: "?f \<le> ?l" "?f < length (pt_crc_value T)"
    using assms(2,3) crc_value_len_le [of "pt_crc_type T"] by simp_all
  have n: "Suc (min (?l - Suc ?f) (Suc (length xs))) = min (?l - ?f) (Suc (length (x # xs)))"
    using assms(2) by simp
  show ?thesis
    unfolding tail_step_crc [OF assms(1) f(1) n]
    by (subst tail_step_crc [OF _ _ refl]) (use assms(1,2) f(2) in \<open>simp_all add: crc_result_Cons\<close>)
qed

text \<open>A run, and its first byte alone.\<close>

lemma tail_loop_first:
  assumes "tail_ok T"
  shows "tail_loop C T (b # bs) =
    (case tail_loop C T [b] of Some (Inr T') \<Rightarrow> tail_loop C T' bs | r \<Rightarrow> r)"
proof (cases bs)
  case Nil
  then show ?thesis by (auto split: option.split sum.split)
next
  case (Cons x xs)
  show ?thesis
  proof (cases "pt_phase T")
    case TailBody
    then have r: "0 < unat (pt_body_remaining T)" using assms by (simp add: tail_ok_def unat_gt_0)
    show ?thesis
    proof (cases "unat (pt_body_remaining T) = 1")
      case True
      then have "pt_body_remaining T = 1" by (metis unat_1 word_unat_eq_iff)
      then show ?thesis
        using TailBody by (auto simp: tail_step_def Let_def and_then_def split: sum.split)
    next
      case False
      let ?T1 = "(tail_feed [b] T)\<lparr>pt_body_remaining := pt_body_remaining T - 1\<rparr>"
      have r1: "1 < unat (pt_body_remaining T)" using False r by simp
      then have nz: "pt_body_remaining T - 1 \<noteq> 0" by auto
      have "tail_loop C T [b] = Some (Inr ?T1)" using TailBody r1 nz by (simp add: tail_step_def Let_def)
      moreover have "tail_loop C T (b # x # xs) = tail_loop C ?T1 (x # xs)"
        unfolding tail_loop.simps body_byte [OF TailBody r1] ..
      ultimately show ?thesis using Cons by simp
    qed
  next
    case TailCrcValue
    let ?f = "pt_crc_filled T" and ?v = "pt_crc_value T" and ?l = "crc_value_len (pt_crc_type T)"
    have f: "?f < ?l" "length ?v = 4" using assms TailCrcValue by (simp_all add: tail_ok_def)
    show ?thesis
    proof (cases "Suc ?f = ?l")
      case True
      then have "?l - ?f = 1" by simp
      then show ?thesis
        using TailCrcValue f True by (auto simp: tail_step_def Let_def and_then_def split: sum.split)
    next
      case False
      let ?T1 = "T\<lparr>pt_crc_value := take ?f ?v @ [b] @ drop (Suc ?f) ?v, pt_crc_filled := Suc ?f\<rparr>"
      have f1: "Suc ?f < ?l" using False f by simp
      then have "min (?l - ?f) 1 = 1" by simp
      then have "tail_loop C T [b] = Some (Inr ?T1)"
        using TailCrcValue f1 f by (simp add: tail_step_def Let_def)
      moreover have "tail_loop C T (b # x # xs) = tail_loop C ?T1 (x # xs)"
        unfolding tail_loop.simps crc_byte [OF TailCrcValue f1 f(2)] ..
      ultimately show ?thesis using Cons by simp
    qed
  qed (auto simp: tail_step_def Let_def and_then_def split: sum.split)
qed

lemma tail_loop_append:
  assumes "tail_ok T"
  shows "tail_loop C T (a @ bs) = (case tail_loop C T a of Some (Inr T') \<Rightarrow> tail_loop C T' bs | r \<Rightarrow> r)"
  using assms
proof (induction a arbitrary: T)
  case (Cons x a)
  show ?case
  proof (cases "\<exists>T1. tail_loop C T [x] = Some (Inr T1)")
    case True
    then obtain T1 where t: "tail_loop C T [x] = Some (Inr T1)" by blast
    then have "tail_ok T1" using tail_loop_ok [OF Cons.prems] by blast
    then have "tail_loop C T1 (a @ bs) = (case tail_loop C T1 a of Some (Inr T') \<Rightarrow> tail_loop C T' bs | r \<Rightarrow> r)"
      by (rule Cons.IH)
    moreover have "tail_loop C T (x # y) = tail_loop C T1 y" for y
      using tail_loop_first [OF Cons.prems, of C x y] t by (simp del: tail_loop.simps)
    ultimately show ?thesis by (simp del: tail_loop.simps)
  next
    case False
    then have "(\<exists>e. tail_loop C T [x] = Some (Inl e)) \<or> tail_loop C T [x] = None"
      by (metis not_None_eq sum.exhaust)
    then show ?thesis
      using tail_loop_first [OF Cons.prems, of C x a] tail_loop_first [OF Cons.prems, of C x "a @ bs"]
      by (elim disjE exE) (simp_all del: tail_loop.simps)
  qed
qed simp

section \<open>What is accepted\<close>

definition tail_accepts :: "crc_ops \<Rightarrow> PayloadTail \<Rightarrow> bytes \<Rightarrow> bool" where
  "tail_accepts C T bs \<longleftrightarrow> (\<exists>T'. tail_push C T bs = Some (Inr (True, T')))"

lemma tail_accepts_loop: "tail_accepts C T bs \<longleftrightarrow> (\<exists>T'. tail_loop C T bs = Some (Inr T') \<and> pt_phase T' = TailDone)"
proof (cases "tail_loop C T bs")
  case (Some r)
  then show ?thesis by (cases r) (auto simp: tail_accepts_def tail_push_def and_then_def)
qed (simp add: tail_accepts_def tail_push_def)

lemma accepts_done: "pt_phase T = TailDone \<Longrightarrow> tail_accepts C T bs \<longleftrightarrow> bs = []"
  by (cases bs) (auto simp: tail_accepts_loop tail_step_def)

lemma accepts_outer: "pt_phase T = TailOuterBreak \<Longrightarrow> tail_accepts C T bs \<longleftrightarrow> bs = [0xFF]"
proof (cases bs)
  case (Cons b r)
  assume p: "pt_phase T = TailOuterBreak"
  have "tail_accepts C T (b # r) \<longleftrightarrow> b = 0xFF \<and> tail_accepts C (T\<lparr>pt_phase := TailDone\<rparr>) r"
    using p by (auto simp: tail_accepts_loop tail_step_def)
  then show ?thesis using Cons by (auto simp: accepts_done)
qed (auto simp: tail_accepts_loop)

text \<open>Whether the digest, if there is one, agrees with the value that was captured.\<close>

definition crc_agrees :: "crc_ops \<Rightarrow> PayloadTail \<Rightarrow> bool" where
  "crc_agrees C T = (case pt_digest T of
     None \<Rightarrow> True | Some dg \<Rightarrow> take (crc_value_len (pt_crc_type T)) (pt_crc_value T) = digest_finalize C dg)"

lemma verify_crc_iff: "verify_crc C T = (if crc_agrees C T then Inr (T\<lparr>pt_digest := None\<rparr>) else Inl (InvalidCrc IncorrectCrc))"
  by (cases T) (auto simp: verify_crc_def crc_agrees_def digest_verify_iff split: option.split)

lemma accepts_block_break:
  assumes "pt_phase T = TailBlockBreak"
  shows "tail_accepts C T bs \<longleftrightarrow> bs = [0xFF, 0xFF] \<and> crc_agrees C (tail_feed [0xFF] T)"
proof (cases bs)
  case (Cons b r)
  have "tail_accepts C T (b # r) \<longleftrightarrow> b = 0xFF \<and> crc_agrees C (tail_feed [0xFF] T) \<and>
      tail_accepts C ((tail_feed [0xFF] T)\<lparr>pt_digest := None, pt_phase := TailOuterBreak\<rparr>) r"
    using assms by (auto simp: tail_accepts_loop tail_step_def verify_crc_iff)
  then show ?thesis using Cons by (auto simp: accepts_outer)
qed (use assms in \<open>auto simp: tail_accepts_loop\<close>)

definition trailer_end :: "bool \<Rightarrow> bytes" where
  "trailer_end i = (if i then [0xFF, 0xFF] else [0xFF])"

definition crc_over :: "crc_ops \<Rightarrow> bool \<Rightarrow> digest \<Rightarrow> bytes" where
  "crc_over C i dg = digest_finalize C (digest_push (if i then [0xFF] else []) dg)"

definition digest_zeroed :: "CrcType \<Rightarrow> digest \<Rightarrow> digest" where
  "digest_zeroed t dg = snd (digest_push_zeros (digest_push [crc_head_byte t] dg))"

lemma accepts_crc_value:
  assumes "pt_phase T = TailCrcValue" and "tail_ok T" and "pt_crc_filled T = 0" and "pt_digest T = Some dg"
    and "length (crc_over C (pt_indefinite T) dg) = crc_value_len (pt_crc_type T)"
  shows "tail_accepts C T bs \<longleftrightarrow> bs = crc_over C (pt_indefinite T) dg @ trailer_end (pt_indefinite T)"
proof -
  let ?l = "crc_value_len (pt_crc_type T)"
  have l: "0 < ?l" "?l \<le> 4" "length (pt_crc_value T) = 4"
    using assms(1,2,3) crc_value_len_le by (simp_all add: tail_ok_def)
  show ?thesis
  proof (cases "length bs < ?l")
    case True
    have "\<not> tail_accepts C T bs"
    proof (cases bs)
      case (Cons b r)
      then have "tail_step C T b r = Some (crc_result C T bs [])"
        using tail_step_crc [OF assms(1) _ refl, where bs = r and C = C and b = b] assms(3) True by (simp add: min_def)
      then show ?thesis using Cons True assms(1,3) by (simp add: tail_accepts_loop crc_result_def Let_def)
    qed (use assms(1) in \<open>simp add: tail_accepts_loop\<close>)
    then show ?thesis using assms(5) True by auto
  next
    case False
    then obtain b r where b: "bs = b # r" using l(1) by (cases bs) auto
    let ?v = "take ?l bs" and ?rest = "drop ?l bs"
    have v: "length ?v = ?l" using False by simp
    let ?T1 = "T\<lparr>pt_crc_value := ?v @ drop ?l (pt_crc_value T), pt_crc_filled := ?l\<rparr>"
    have s: "tail_step C T b r = Some (crc_result C T ?v ?rest)"
      using tail_step_crc [OF assms(1) _ refl, where bs = r and C = C and b = b] assms(3) False b by (simp add: min_def)
    have agree: "crc_agrees C (?T1\<lparr>pt_digest := Some dg'\<rparr>) \<longleftrightarrow> ?v = digest_finalize C dg'" for dg'
      using v by (simp add: crc_agrees_def)
    have iff: "tail_accepts C T bs \<longleftrightarrow> ?v = crc_over C (pt_indefinite T) dg \<and> ?rest = trailer_end (pt_indefinite T)"
    proof (cases "pt_indefinite T")
      case True
      have "tail_accepts C T bs \<longleftrightarrow> tail_accepts C (?T1\<lparr>pt_phase := TailBlockBreak\<rparr>) ?rest"
        using s b True assms(3) v by (simp add: tail_accepts_loop crc_result_def Let_def)
      also have "\<dots> \<longleftrightarrow> ?rest = [0xFF, 0xFF] \<and> ?v = digest_finalize C (digest_push [0xFF] dg)"
        using accepts_block_break [of "?T1\<lparr>pt_phase := TailBlockBreak\<rparr>"] v assms(4)
        by (simp add: tail_feed_def crc_agrees_def)
      finally show ?thesis using True by (auto simp: crc_over_def trailer_end_def)
    next
      case False
      have "tail_accepts C T bs \<longleftrightarrow> ?v = digest_finalize C dg \<and>
          tail_accepts C (?T1\<lparr>pt_digest := None, pt_phase := TailOuterBreak\<rparr>) ?rest"
        using s b False assms(3,4) v
        by (auto simp: tail_accepts_loop crc_result_def Let_def verify_crc_iff crc_agrees_def)
      then show ?thesis using False by (auto simp: crc_over_def trailer_end_def accepts_outer)
    qed
    show ?thesis
      unfolding iff using v assms(5)
      by (metis append_eq_conv_conj append_take_drop_id)
  qed
qed


lemma accepts_crc_head:
  assumes "pt_phase T = TailCrcHead" and "tail_ok T" and "pt_digest T = Some dg"
    and "length (crc_over C (pt_indefinite T) (digest_zeroed (pt_crc_type T) dg)) = crc_value_len (pt_crc_type T)"
  shows "tail_accepts C T bs \<longleftrightarrow>
    bs = crc_head_byte (pt_crc_type T) # crc_over C (pt_indefinite T) (digest_zeroed (pt_crc_type T) dg) @
      trailer_end (pt_indefinite T)"
proof (cases bs)
  case (Cons b r)
  let ?h = "crc_head_byte (pt_crc_type T)"
  let ?T1 = "T\<lparr>pt_digest := Some (digest_zeroed (pt_crc_type T) dg), pt_phase := TailCrcValue\<rparr>"
  have s: "tail_step C T b r = Some (if b \<noteq> ?h then Inl NotCanonical else Inr (r, ?T1))"
    using assms(1,3) by (simp add: tail_step_def digest_zeroed_def)
  have "tail_ok ?T1" and f: "pt_crc_filled ?T1 = 0"
    using assms(1,2) crc_value_len_pos by (auto simp: tail_ok_def)
  then have "tail_accepts C ?T1 r \<longleftrightarrow>
      r = crc_over C (pt_indefinite T) (digest_zeroed (pt_crc_type T) dg) @ trailer_end (pt_indefinite T)"
    using accepts_crc_value [of ?T1 "digest_zeroed (pt_crc_type T) dg" C r] assms(4) by simp
  moreover have "tail_accepts C T (b # r) \<longleftrightarrow> b = ?h \<and> tail_accepts C ?T1 r"
    using s by (simp add: tail_accepts_loop)
  ultimately show ?thesis using Cons by auto
qed (use assms(1) in \<open>auto simp: tail_accepts_loop\<close>)

text \<open>What a continuation takes after the payload octets: with no CRC the breaks alone, with one
  its head, its value and the breaks, the value being the digest of what was fed before, the
  payload, the head, zeroes in place of the value and the break of an indefinite block.\<close>

definition tail_trailer :: "crc_ops \<Rightarrow> CrcType \<Rightarrow> bool \<Rightarrow> digest option \<Rightarrow> bytes" where
  "tail_trailer C t is_indefinite dg =
    (case dg of
       None \<Rightarrow> []
     | Some dg \<Rightarrow> crc_head_byte t # crc_over C is_indefinite (digest_zeroed t dg)) @ trailer_end is_indefinite"

text \<open>The digest a continuation is made with is that of its block's CRC type.\<close>

definition digest_for :: "CrcType \<Rightarrow> digest option \<Rightarrow> bool" where
  "digest_for t dg = (case (t, dg) of
     (NoCrc, None) \<Rightarrow> True | (CRC16_X25, Some (Crc16 _)) \<Rightarrow> True | (CRC32_CASTAGNOLI, Some (Crc32 _)) \<Rightarrow> True | _ \<Rightarrow> False)"

lemma digest_for_cases:
  assumes "digest_for t dg"
  obtains "t = NoCrc" "dg = None" | d where "t = CRC16_X25" "dg = Some (Crc16 d)"
    | d where "t = CRC32_CASTAGNOLI" "dg = Some (Crc32 d)"
  using assms by (auto simp: digest_for_def split: CrcType.splits option.splits digest.splits)

lemma digest_for_push: "digest_for t dg \<Longrightarrow> digest_for t (map_option (digest_push x) dg)"
  by (erule digest_for_cases) (simp_all add: digest_for_def)

lemma digest_for_length:
  "digest_for t (Some dg) \<Longrightarrow> length (crc_over C i (digest_zeroed t dg)) = crc_value_len t"
  by (erule digest_for_cases) (auto simp: crc_over_def digest_zeroed_def crc_value_len_def)

lemma accepts_after_body:
  assumes "tail_ok T" and "pt_phase T = after_body (pt_crc_type T) (pt_indefinite T)"
    and "digest_for (pt_crc_type T) (pt_digest T)"
  shows "tail_accepts C T bs \<longleftrightarrow> bs = tail_trailer C (pt_crc_type T) (pt_indefinite T) (pt_digest T)"
proof (cases "pt_digest T")
  case None
  then have t: "pt_crc_type T = NoCrc" using assms(3) by (auto elim: digest_for_cases)
  then show ?thesis
    using assms(2) None
    by (cases "pt_indefinite T")
      (auto simp: after_body_def accepts_block_break accepts_outer tail_trailer_def trailer_end_def
        crc_agrees_def tail_feed_def)
next
  case (Some dg)
  then have "pt_phase T = TailCrcHead" using assms(2,3) by (auto simp: after_body_def elim: digest_for_cases)
  then show ?thesis
    using accepts_crc_head [OF _ assms(1) Some] digest_for_length [OF assms(3) [unfolded Some]] Some
    by (simp add: tail_trailer_def)
qed

lemma enter_accepts:
  assumes "tail_ok T" and "digest_for (pt_crc_type T) (pt_digest T)" and "pt_crc_filled T = 0"
  shows "(\<exists>T'. enter_after_body C T = Inr T' \<and> tail_accepts C T' bs) \<longleftrightarrow>
    bs = tail_trailer C (pt_crc_type T) (pt_indefinite T) (pt_digest T)"
proof -
  let ?T = "T\<lparr>pt_phase := after_body (pt_crc_type T) (pt_indefinite T)\<rparr>"
  have "enter_after_body C T = Inr ?T"
    using assms(2) by (auto simp: enter_after_body_def Let_def after_body_def verify_crc_def elim!: digest_for_cases)
  moreover have "tail_ok ?T"
    using assms(1,3) by (auto simp: tail_ok_def after_body_def split: TailPhase.split)
  ultimately show ?thesis using accepts_after_body [of ?T C bs] assms(2) by simp
qed

lemma split_at_length:
  assumes "n \<le> length bs"
  shows "drop n bs = f (take n bs) \<longleftrightarrow> (\<exists>body. length body = n \<and> bs = body @ f body)"
proof
  assume "drop n bs = f (take n bs)"
  then have "bs = take n bs @ f (take n bs)" by (metis append_take_drop_id)
  then show "\<exists>body. length body = n \<and> bs = body @ f body" using assms by (intro exI [of _ "take n bs"]) simp
qed auto

lemma accepts_body:
  assumes "pt_phase T = TailBody" and "tail_ok T" and "digest_for (pt_crc_type T) (pt_digest T)"
  shows "tail_accepts C T bs \<longleftrightarrow>
    (\<exists>body. length body = unat (pt_body_remaining T) \<and>
      bs = body @ tail_trailer C (pt_crc_type T) (pt_indefinite T) (map_option (digest_push body) (pt_digest T)))"
proof -
  let ?n = "unat (pt_body_remaining T)"
  have n: "0 < ?n" and f: "pt_crc_filled T = 0"
    using assms(1,2) by (simp_all add: tail_ok_def unat_gt_0)
  show ?thesis
  proof (cases "length bs < ?n")
    case True
    have "\<not> tail_accepts C T bs"
    proof (cases bs)
      case (Cons b r)
      have k: "length bs = min ?n (Suc (length r))" using Cons True by simp
      have "pt_body_remaining T \<noteq> of_nat (length bs)"
        using True by (metis le_unat_uoi less_imp_le_nat nat_neq_iff)
      then show ?thesis
        using tail_step_body [OF assms(1) k, of C b] Cons assms(1)
        by (simp add: tail_accepts_loop body_result_def Let_def tail_feed_def)
    qed (use assms(1) in \<open>simp add: tail_accepts_loop\<close>)
    then show ?thesis using True by auto
  next
    case False
    then obtain b r where b: "bs = b # r" using n by (cases bs) auto
    have k: "?n = min ?n (Suc (length r))" using b False by simp
    let ?T1 = "(tail_feed (take ?n bs) T)\<lparr>pt_body_remaining := 0\<rparr>"
    have "length (take ?n bs) = ?n" using False by simp
    then have "tail_step C T b r = Some (and_then (enter_after_body C ?T1) (\<lambda>T. Inr (drop ?n bs, T)))"
      using tail_step_body [OF assms(1) k, of C b] b by (simp add: body_result_def Let_def)
    then have "tail_accepts C T bs \<longleftrightarrow> (\<exists>T'. enter_after_body C ?T1 = Inr T' \<and> tail_accepts C T' (drop ?n bs))"
      using b by (cases "enter_after_body C ?T1") (auto simp: tail_accepts_loop)
    also have "enter_after_body C ?T1 = enter_after_body C (?T1\<lparr>pt_phase := TailDone\<rparr>)"
      by (simp add: enter_after_body_def)
    also have "(\<exists>T'. enter_after_body C (?T1\<lparr>pt_phase := TailDone\<rparr>) = Inr T' \<and> tail_accepts C T' (drop ?n bs)) \<longleftrightarrow>
        drop ?n bs = tail_trailer C (pt_crc_type T) (pt_indefinite T)
          (map_option (digest_push (take ?n bs)) (pt_digest T))"
      by (subst enter_accepts)
        (use assms(2) f digest_for_push [OF assms(3)] in \<open>simp_all add: tail_ok_def tail_feed_def\<close>)
    also have "\<dots> \<longleftrightarrow> (\<exists>body. length body = ?n \<and>
      bs = body @ tail_trailer C (pt_crc_type T) (pt_indefinite T) (map_option (digest_push body) (pt_digest T)))"
      by (rule split_at_length) (use False in simp)
    finally show ?thesis .
  qed
qed

lemma tail_new_accepts:
  assumes "digest_for t dg"
  shows "tail_accepts C (tail_new dg t i n r) bs \<longleftrightarrow>
    (\<exists>body. length body = unat n \<and> bs = body @ tail_trailer C t i (map_option (digest_push body) dg))"
proof -
  have ok: "tail_ok (tail_new dg t i n r)"
    by (rule tail_new_ok) (use assms in \<open>auto elim: digest_for_cases\<close>)
  show ?thesis
  proof (cases "n = 0")
    case True
    have "map_option (digest_push []) dg = dg" by (cases dg) simp_all
    then show ?thesis using accepts_after_body [OF ok, of C bs] assms True by (simp add: tail_new_def)
  next
    case False
    then have "0 < n" by (simp add: word_neq_0_conv)
    then show ?thesis using accepts_body [OF _ ok, of C bs] assms by (simp add: tail_new_def)
  qed
qed

section \<open>Runs\<close>

text \<open>What is still expected is counted but never looked at.\<close>

abbreviation set_remaining :: "u64 \<Rightarrow> PayloadTail \<Rightarrow> PayloadTail" where
  "set_remaining x T \<equiv> T\<lparr>pt_remaining := x\<rparr>"

lemma remaining_phase: "T\<lparr>pt_remaining := x, pt_phase := y\<rparr> = T\<lparr>pt_phase := y, pt_remaining := x\<rparr>"
  by simp

lemma verify_crc_remaining: "verify_crc C (set_remaining x T) = map_sum id (set_remaining x) (verify_crc C T)"
  by (auto simp: verify_crc_def split: option.split)

lemma enter_after_body_remaining:
  "enter_after_body C (set_remaining x T) = map_sum id (set_remaining x) (enter_after_body C T)"
  using verify_crc_remaining [of C x "T\<lparr>pt_phase := TailOuterBreak\<rparr>"] by (simp add: enter_after_body_def Let_def remaining_phase)

lemma and_then_map_sum: "and_then (map_sum id f r) g = and_then r (\<lambda>a. g (f a))"
  by (cases r) simp_all

lemma map_sum_and_then: "map_sum id f (and_then r g) = and_then r (\<lambda>a. map_sum id f (g a))"
  by (cases r) simp_all

lemma tail_step_remaining:
  "tail_step C (set_remaining x T) b bs =
    map_option (map_sum id (map_prod id (set_remaining x))) (tail_step C T b bs)"
proof -
  have v: "verify_crc C (T'\<lparr>pt_remaining := x\<rparr>) = map_sum id (set_remaining x) (verify_crc C T')" for T'
    by (rule verify_crc_remaining)
  have e: "enter_after_body C (T'\<lparr>pt_remaining := x\<rparr>) = map_sum id (set_remaining x) (enter_after_body C T')" for T'
    by (rule enter_after_body_remaining)
  have c1: "tail_feed y (T'\<lparr>pt_remaining := x\<rparr>) = (tail_feed y T')\<lparr>pt_remaining := x\<rparr>" for y T' by (simp add: tail_feed_def)
  have c2: "T'\<lparr>pt_remaining := x, pt_body_remaining := y\<rparr> = (T'\<lparr>pt_body_remaining := y\<rparr>)\<lparr>pt_remaining := x\<rparr>" for T' y by simp
  show ?thesis
  proof (cases "pt_phase T")
    case TailBody
    then show ?thesis
      by (simp add: tail_step_def Let_def c1) (simp add: c2 e and_then_map_sum map_sum_and_then remaining_phase)
  next
    case TailCrcValue
    have c3: "T\<lparr>pt_remaining := x, pt_crc_value := y, pt_crc_filled := z\<rparr> =
      (T\<lparr>pt_crc_value := y, pt_crc_filled := z\<rparr>)\<lparr>pt_remaining := x\<rparr>" for y z by simp
    show ?thesis
      using TailCrcValue by (simp add: tail_step_def Let_def) (simp add: c3 v and_then_map_sum map_sum_and_then remaining_phase)
  next
    case TailBlockBreak
    then show ?thesis
      by (simp add: tail_step_def Let_def c1 v and_then_map_sum map_sum_and_then remaining_phase)
  qed (simp_all add: tail_step_def Let_def)
qed

lemma tail_loop_remaining:
  "tail_loop C (set_remaining x T) bs = map_option (map_sum id (set_remaining x)) (tail_loop C T bs)"
proof (induction C T bs rule: tail_loop.induct)
  case (2 C T b bs)
  then show ?case
    by (cases "tail_step C T b bs") (auto simp: tail_step_remaining split: sum.split)
qed simp

text \<open>A stream that comes in runs, as a caller pushes them one after the other.\<close>

fun tail_pushes :: "crc_ops \<Rightarrow> PayloadTail \<Rightarrow> bytes list \<Rightarrow> (bp_error + PayloadTail) option" where
  "tail_pushes C T [] = Some (Inr T)"
| "tail_pushes C T (r # rs) =
    (case tail_push C T r of
       None \<Rightarrow> None
     | Some (Inl e) \<Rightarrow> Some (Inl e)
     | Some (Inr (_, T')) \<Rightarrow> tail_pushes C T' rs)"

lemma tail_ok_remaining [simp]: "tail_ok (set_remaining x T) = tail_ok T"
  by (cases "pt_phase T") (simp_all add: tail_ok_def)

lemma tail_pushes_loop:
  assumes "tail_ok T"
  shows "\<exists>f. tail_pushes C T rs = map_option (map_sum id (\<lambda>T'. set_remaining (f T') T')) (tail_loop C T (concat rs))"
  using assms
proof (induction rs arbitrary: T)
  case Nil
  have "T\<lparr>pt_remaining := pt_remaining T\<rparr> = T" by (cases T) simp
  then show ?case by (intro exI [of _ "\<lambda>_. pt_remaining T"]) simp
next
  case (Cons r rs)
  note a = tail_loop_append [OF Cons.prems, of C r "concat rs"]
  obtain q where q: "tail_loop C T r = Some q" using tail_loop_total [OF Cons.prems, of C r] by blast
  show ?case
  proof (cases q)
    case (Inl e)
    then show ?thesis using a q by (simp add: tail_push_def)
  next
    case (Inr T1)
    let ?x = "saturating_sub (pt_remaining T1) (word_of_nat (length r))"
    have "tail_ok (set_remaining ?x T1)" using tail_loop_ok [OF Cons.prems] q Inr by simp
    from Cons.IH [OF this] obtain f where
      f: "tail_pushes C (set_remaining ?x T1) rs =
        map_option (map_sum id (\<lambda>T'. set_remaining (f T') T')) (tail_loop C (set_remaining ?x T1) (concat rs))" by blast
    show ?thesis
      using a q Inr f
      by (intro exI [of _ "\<lambda>T'. f (set_remaining ?x T')"])
        (simp add: tail_push_def tail_loop_remaining option.map_comp comp_def sum.map_comp)
  qed
qed

lemma tail_runs_accepted:
  assumes "digest_for t dg"
  shows "(\<exists>T'. tail_pushes C (tail_new dg t i n r) rs = Some (Inr T') \<and> tail_finish T' = Inr ()) \<longleftrightarrow>
    (\<exists>body. length body = unat n \<and> concat rs = body @ tail_trailer C t i (map_option (digest_push body) dg))"
proof -
  let ?T = "tail_new dg t i n r"
  have ok: "tail_ok ?T" by (rule tail_new_ok) (use assms in \<open>auto elim: digest_for_cases\<close>)
  obtain f where f: "tail_pushes C ?T rs = map_option (map_sum id (\<lambda>T'. set_remaining (f T') T')) (tail_loop C ?T (concat rs))"
    using tail_pushes_loop [OF ok] by blast
  have fin: "tail_finish T' = Inr () \<longleftrightarrow> pt_phase T' = TailDone" for T' by (simp add: tail_finish_def)
  have "(\<exists>T'. tail_pushes C ?T rs = Some (Inr T') \<and> tail_finish T' = Inr ()) \<longleftrightarrow> tail_accepts C ?T (concat rs)"
    unfolding f tail_accepts_loop fin
  proof (cases "tail_loop C ?T (concat rs)")
    case (Some q)
    then show "(\<exists>T'. map_option (map_sum id (\<lambda>T'. set_remaining (f T') T')) (tail_loop C ?T (concat rs)) = Some (Inr T') \<and>
        pt_phase T' = TailDone) = (\<exists>T'. tail_loop C ?T (concat rs) = Some (Inr T') \<and> pt_phase T' = TailDone)"
      by (cases q) auto
  qed simp
  then show ?thesis using tail_new_accepts [OF assms] by simp
qed

end
