(* ===== verification/Bpv7_Parse.thy ===== *)
theory Bpv7_Parse
  imports Bpv7_Tail Hash_Map
begin

text \<open>
  The streaming parser of \<^verbatim>\<open>bpv7/src/parse.rs\<close>: \<open>BundleParser\<close> with \<open>push\<close> and
  \<open>finish\<close>, the block header, the block loop, the structural BPSec checks and the one-shot
  \<open>parse_bundle\<close>. A \<^verbatim>\<open>panic!\<close>, a failed \<^verbatim>\<open>expect\<close> or \<^verbatim>\<open>assert!\<close>, and an index or a slice that
  is out of range, is \<open>None\<close>; an error that is returned is \<open>Some (Inl e)\<close>.
  \<^verbatim>\<open>usize\<close> and \<^verbatim>\<open>u64\<close> have the same range on the targets modelled: where the parser mixes the
  two, both are \<open>nat\<close> with the overflow checks written out.
\<close>

section \<open>Panics\<close>

text \<open>The early return of \<^verbatim>\<open>?\<close> in code that may panic.\<close>

definition try_then :: "('e + 'a) option \<Rightarrow> ('a \<Rightarrow> ('e + 'b) option) \<Rightarrow> ('e + 'b) option" where
  "try_then r f = (case r of None \<Rightarrow> None | Some (Inl e) \<Rightarrow> Some (Inl e) | Some (Inr a) \<Rightarrow> f a)"

lemma try_then_simps [simp]:
  "try_then None f = None" "try_then (Some (Inl e)) f = Some (Inl e)" "try_then (Some (Inr a)) f = f a"
  by (simp_all add: try_then_def)

lemma try_then_Inr: "try_then r f = Some (Inr b) \<longleftrightarrow> (\<exists>a. r = Some (Inr a) \<and> f a = Some (Inr b))"
  by (auto simp: try_then_def split: option.splits sum.splits)

lemma try_then_None: "try_then r f = None \<longleftrightarrow> r = None \<or> (\<exists>a. r = Some (Inr a) \<and> f a = None)"
  by (auto simp: try_then_def split: option.splits sum.splits)

lemma try_then_total: "r \<noteq> None \<Longrightarrow> (\<And>a. r = Some (Inr a) \<Longrightarrow> f a \<noteq> None) \<Longrightarrow> try_then r f \<noteq> None"
  by (auto simp: try_then_def split: option.splits sum.splits)

lemma try_then_total_pair:
  "r \<noteq> None \<Longrightarrow> (\<And>a b. r = Some (Inr (a, b)) \<Longrightarrow> f a b \<noteq> None) \<Longrightarrow> try_then r (\<lambda>(a, b). f a b) \<noteq> None"
  by (auto simp: try_then_def split: option.splits sum.splits)

lemma bind_total: "m \<noteq> None \<Longrightarrow> (\<And>a. m = Some a \<Longrightarrow> f a \<noteq> None) \<Longrightarrow> Option.bind m f \<noteq> None"
  by auto

lemmas total_rules = try_then_total_pair try_then_total bind_total

text \<open>\<^verbatim>\<open>&data[a..]\<close>, \<^verbatim>\<open>&data[a..b]\<close> and \<^verbatim>\<open>data[i]\<close>, which is \<^verbatim>\<open>data.get(i)\<close> too: there is
  nothing outside of the bytes.\<close>

definition slice_from :: "bytes \<Rightarrow> nat \<Rightarrow> bytes option" where
  "slice_from d a = (if a \<le> length d then Some (drop a d) else None)"

definition slice_to :: "bytes \<Rightarrow> nat \<Rightarrow> bytes option" where
  "slice_to d b = (if b \<le> length d then Some (take b d) else None)"

definition slice_range :: "bytes \<Rightarrow> nat \<times> nat \<Rightarrow> bytes option" where
  "slice_range d r = (if fst r \<le> snd r \<and> snd r \<le> length d then Some (slice d r) else None)"

definition byte_at :: "bytes \<Rightarrow> nat \<Rightarrow> byte option" where
  "byte_at d i = (if i < length d then Some (d ! i) else None)"

section \<open>Asking for more\<close>

fun cbor_need_more :: "cbor_error \<Rightarrow> nat option" where
  "cbor_need_more (NeedMoreData n) = Some n"
| "cbor_need_more _ = None"

fun eid_need_more :: "eid_error \<Rightarrow> nat option" where
  "eid_need_more (EidInvalidCBOR e) = cbor_need_more e"
| "eid_need_more (EidInvalidField _ source) = eid_need_more source"
| "eid_need_more _ = None"

fun bpsec_need_more :: "bpsec_error \<Rightarrow> nat option" where
  "bpsec_need_more (BpsecInvalidCBOR e) = cbor_need_more e"
| "bpsec_need_more (BpsecInvalidEid e) = eid_need_more e"
| "bpsec_need_more (BpsecInvalidField _ source) = bpsec_need_more source"
| "bpsec_need_more _ = None"

fun need_more :: "bp_error \<Rightarrow> nat option" where
  "need_more (InvalidCBOR e) = cbor_need_more e"
| "need_more (InvalidEid e) = eid_need_more e"
| "need_more (InvalidBPSec e) = bpsec_need_more e"
| "need_more (InvalidField _ source) = need_more source"
| "need_more _ = None"

section \<open>The block header\<close>

text \<open>\<^verbatim>\<open>parse_canonical\<close> of \<^verbatim>\<open>parse.rs\<close>: the item at an offset and the offset after it, for a decoder
  that may itself panic (the block header's) and for one that does not.\<close>

definition untagged_with ::
  "(cbor_error \<Rightarrow> 'e) \<Rightarrow> (bytes \<Rightarrow> ('e + ('a \<times> bool \<times> nat)) option) \<Rightarrow> bytes \<Rightarrow> ('e + ('a \<times> bool \<times> nat)) option" where
  "untagged_with conv fc d =
    (case d of
       b # _ \<Rightarrow> if 0xC0 \<le> b \<and> b \<le> 0xDB then Some (Inl (conv UnexpectedTag)) else fc d
     | [] \<Rightarrow> fc d)"

definition parse_canonical_with ::
  "(cbor_error \<Rightarrow> 'f) \<Rightarrow> ('f \<Rightarrow> bp_error) \<Rightarrow> (bytes \<Rightarrow> ('f + ('a \<times> bool \<times> nat)) option) \<Rightarrow> bytes \<Rightarrow> nat \<Rightarrow> string \<Rightarrow>
   (bp_error + ('a \<times> nat)) option" where
  "parse_canonical_with conv into fc d offset field =
    (case slice_from d offset of
       None \<Rightarrow> None
     | Some bs \<Rightarrow>
         map_option (\<lambda>r.
           and_then (map_field_err InvalidField into field r) (\<lambda>(v, s, l).
             if \<not> s then Inl (InvalidField field NotCanonical)
             else and_then (ok_or (checked_add offset l) (InvalidCBOR TooBig)) (\<lambda>offset. Inr (v, offset))))
         (untagged_with conv fc bs))"

definition parse_canonical_at ::
  "(cbor_error \<Rightarrow> 'f) \<Rightarrow> ('f \<Rightarrow> bp_error) \<Rightarrow> ('f, 'a) from_cbor \<Rightarrow> bytes \<Rightarrow> nat \<Rightarrow> string \<Rightarrow>
   (bp_error + ('a \<times> nat)) option" where
  "parse_canonical_at conv into fc = parse_canonical_with conv into (\<lambda>d. Some (fc d))"

record BlockHeader =
  bh_indefinite :: bool
  bh_number :: u64
  bh_type :: block_type
  bh_flags :: block_flags
  bh_crc_type :: CrcType
  bh_data_start :: nat
  bh_data_end :: nat

definition slow_block_array_error :: "float_ops \<Rightarrow> bytes \<Rightarrow> bp_error" where
  "slow_block_array_error F d =
    (case head_from_cbor F d of
       Inl e \<Rightarrow> InvalidCBOR e
     | Inr (h, _, _) \<Rightarrow>
         (case head_marker h of
            Array (Some n) \<Rightarrow> InvalidCBOR (if 7 \<le> n then AdditionalItems else NoMoreItems)
          | _ \<Rightarrow> InvalidCBOR (IncorrectType ''Definite length array'' (head_item_type h))))"

definition tag_head :: "byte \<Rightarrow> bool" where
  "tag_head b \<longleftrightarrow> 0xC0 \<le> b \<and> b \<le> 0xDB"

text \<open>The guard on the tags of the block data: anything but one tag 24 is refused from at most
  three bytes.\<close>

definition data_tag_refused :: "bytes \<Rightarrow> nat \<Rightarrow> bool" where
  "data_tag_refused d offset =
    (case byte_at d offset of
       None \<Rightarrow> False
     | Some b \<Rightarrow>
         tag_head b \<and>
         (b \<noteq> 0xD8 \<or> (case byte_at d (offset + 1) of Some b \<Rightarrow> b \<noteq> 0x18 | None \<Rightarrow> False) \<or>
          (case byte_at d (offset + 2) of Some b \<Rightarrow> tag_head b | None \<Rightarrow> False)))"

definition block_data_range :: "float_ops \<Rightarrow> bytes \<Rightarrow> nat \<Rightarrow> (bp_error + (nat \<times> nat)) option" where
  "block_data_range F d offset =
    (if data_tag_refused d offset then Some (Inl NotCanonical)
     else
       map_option (\<lambda>bs.
         and_then (map_field_err InvalidField bp_of_cbor ''block data'' (head_from_cbor F bs)) (\<lambda>(h, s, l).
         if \<not> s then Inl (InvalidField ''block data'' NotCanonical)
         else
           and_then (ok_or (checked_add offset l) (InvalidCBOR TooBig)) (\<lambda>offset.
           if head_tags h \<noteq> [] \<and> head_tags h \<noteq> [24] then Inl NotCanonical
           else
             (case head_marker h of
                Bytes (Some len) \<Rightarrow>
                  and_then (ok_or (checked_add (unat len) offset) (InvalidCBOR TooBig)) (\<lambda>data_end. Inr (offset, data_end))
              | Bytes None \<Rightarrow> Inl NotCanonical
              | _ \<Rightarrow> Inl (InvalidField ''block data''
                  (InvalidCBOR (IncorrectType ''Definite-length Byte String'' (head_item_type h)))))))) (slice_from d offset))"

definition block_number_ok :: "u64 \<Rightarrow> block_type \<Rightarrow> bool" where
  "block_number_ok n t = (if n = 1 then t = Payload else n \<noteq> 0 \<and> t \<noteq> Primary \<and> t \<noteq> Payload)"

definition item_count_ok :: "byte \<Rightarrow> CrcType \<Rightarrow> bool" where
  "item_count_ok b t \<longleftrightarrow> (b = 0x85 \<and> t = NoCrc) \<or> (b = 0x86 \<and> t \<noteq> NoCrc) \<or> b = 0x9F"

definition block_header_fields :: "float_ops \<Rightarrow> byte \<Rightarrow> bytes \<Rightarrow> (bp_error + (BlockHeader \<times> bool \<times> nat)) option" where
  "block_header_fields F expected_count d =
    try_then (parse_canonical_at bp_of_cbor id (block_type_from_cbor F) d 1 ''block type'') (\<lambda>(t, offset).
    try_then (parse_canonical_at id bp_of_cbor (u64_from_cbor F) d offset ''block number'') (\<lambda>(number, offset).
    if \<not> block_number_ok number t then Some (Inl (InvalidBlockNumber number t))
    else
      try_then (parse_canonical_at bp_of_cbor id (block_flags_from_cbor F) d offset ''block flags'') (\<lambda>(flags, offset).
      try_then (parse_canonical_at bp_of_cbor id (crc_type_from_cbor F) d offset ''block crc type'') (\<lambda>(crc_type, offset).
      if \<not> item_count_ok expected_count crc_type then Some (Inl (InvalidCBOR AdditionalItems))
      else
        try_then (block_data_range F d offset) (\<lambda>(data_start, data_end).
          Some (Inr (\<lparr>bh_indefinite = (expected_count = 0x9F), bh_number = number, bh_type = t, bh_flags = flags,
                bh_crc_type = crc_type, bh_data_start = data_start, bh_data_end = data_end\<rparr>, True, data_start)))))))"

definition block_header_from_cbor :: "float_ops \<Rightarrow> bytes \<Rightarrow> (bp_error + (BlockHeader \<times> bool \<times> nat)) option" where
  "block_header_from_cbor F d =
    (case d of
       [] \<Rightarrow> Some (Inl (InvalidCBOR (NeedMoreData 1)))
     | b # _ \<Rightarrow>
         if b = 0x85 \<or> b = 0x86 \<or> b = 0x9F then block_header_fields F b d else Some (Inl (slow_block_array_error F d)))"

section \<open>The trailer of a block\<close>

definition trailer_byte_len :: "CrcType \<Rightarrow> bool \<Rightarrow> nat" where
  "trailer_byte_len t is_indefinite_array =
    (case t of NoCrc \<Rightarrow> 0 | CRC16_X25 \<Rightarrow> 3 | CRC32_CASTAGNOLI \<Rightarrow> 5 | UnrecognisedCrc _ \<Rightarrow> 0) +
    (if is_indefinite_array then 1 else 0)"

text \<open>The offset of the first CRC value byte and the offset after the CRC.\<close>

definition consume_crc :: "bytes \<Rightarrow> nat \<Rightarrow> byte \<Rightarrow> nat \<Rightarrow> (bp_error + (nat \<times> nat)) option" where
  "consume_crc d offset crc_head value_len =
    (let needed = 1 + value_len
     in if length d < offset + needed then Some (Inl (InvalidCBOR (NeedMoreData (offset + needed - length d))))
        else
          map_option (\<lambda>b. if b \<noteq> crc_head then Inl NotCanonical else Inr (offset + 1, offset + needed)) (byte_at d offset))"

definition consume_break :: "bytes \<Rightarrow> nat \<Rightarrow> bp_error + nat" where
  "consume_break d offset =
    (case byte_at d offset of
       Some b \<Rightarrow> if b = 0xFF then Inr (offset + 1) else Inl NotCanonical
     | None \<Rightarrow> Inl (InvalidCBOR (NeedMoreData 1)))"

definition try_consume_block_after_body ::
  "bytes \<Rightarrow> nat \<Rightarrow> CrcType \<Rightarrow> bool \<Rightarrow> (bp_error + (nat \<times> nat option)) option" where
  "try_consume_block_after_body d offset t is_indefinite_array =
    try_then
      (case t of
         NoCrc \<Rightarrow> Some (Inr (None, offset))
       | CRC16_X25 \<Rightarrow> try_then (consume_crc d offset 0x42 2) (\<lambda>(s, offset). Some (Inr (Some s, offset)))
       | CRC32_CASTAGNOLI \<Rightarrow> try_then (consume_crc d offset 0x44 4) (\<lambda>(s, offset). Some (Inr (Some s, offset)))
       | UnrecognisedCrc c \<Rightarrow> Some (Inl (InvalidCrc (InvalidType c)))) (\<lambda>(crc_value_start, offset).
      Some
        (if is_indefinite_array then and_then (consume_break d offset) (\<lambda>offset. Inr (offset, crc_value_start))
         else Inr (offset, crc_value_start)))"

text \<open>The CRC check of a block whose bytes are all there.\<close>

definition block_crc_check :: "crc_ops \<Rightarrow> CrcType \<Rightarrow> bytes \<Rightarrow> nat \<Rightarrow> nat \<Rightarrow> nat \<Rightarrow> (bp_error + unit) option" where
  "block_crc_check C t d block_start crc_value_start offset =
    try_then (Some (map_err InvalidCrc (digest_new t))) (\<lambda>dg.
      Option.bind (slice_range d (block_start, crc_value_start)) (\<lambda>before.
      let (n, dg) = digest_push_zeros (digest_push before dg);
          crc_value_end = n + crc_value_start
      in Option.bind (slice_range d (crc_value_end, offset)) (\<lambda>after.
         Option.bind (slice_range d (crc_value_start, crc_value_end)) (\<lambda>stored.
           Some (if digest_finalize C (digest_push after dg) \<noteq> stored then Inl (InvalidCrc IncorrectCrc) else Inr ())))))"

section \<open>The parser\<close>

record Bundle =
  bn_primary :: primary_block
  bn_blocks :: blocks

datatype parser_state = PStart | PPrimaryBlock nat | PBlocks nat | PDone | PPartial

record BundleParser =
  bp_chunk_size :: nat
  bp_data :: "bytes option"
  bp_state :: parser_state
  bp_bundle :: "Bundle option"
  bp_unique_blocks :: "block_type list"
  bp_pending_bibs :: "u64 list"
  bp_bcbs :: "(u64 \<times> bcb_operation OperationSet) list"
  bp_deferred :: "PayloadTail option"

record Parsed =
  pr_data :: bytes
  pr_bundle :: Bundle
  pr_bcbs :: "(u64 \<times> bcb_operation OperationSet) list"
  pr_bibs :: "(u64 \<times> bib_operation OperationSet) list"

datatype ParserProgress = NeedMore nat | Ready bytes | Partial bytes PayloadTail

definition parser_new :: "nat \<Rightarrow> BundleParser" where
  "parser_new chunk_size =
    \<lparr>bp_chunk_size = chunk_size, bp_data = None, bp_state = PStart, bp_bundle = None, bp_unique_blocks = [],
     bp_pending_bibs = [], bp_bcbs = [], bp_deferred = None\<rparr>"

definition parser_default :: BundleParser where
  "parser_default = parser_new 4096"

section \<open>One block\<close>

definition at_most_once :: "block_type \<Rightarrow> bool" where
  "at_most_once t \<longleftrightarrow> t = PreviousNode \<or> t = BundleAge_block \<or> t = HopCount"

text \<open>What refuses a block from its header alone.\<close>

definition block_refused :: "BundleParser \<Rightarrow> Bundle \<Rightarrow> BlockHeader \<Rightarrow> bp_error option" where
  "block_refused P B h =
    (if at_most_once (bh_type h) \<and> bh_type h \<in> set (bp_unique_blocks P) then Some (DuplicateBlocks (bh_type h))
     else if map_of (bn_blocks B) (bh_number h) \<noteq> None then Some (DuplicateBlockNumber (bh_number h))
     else if (is_admin_record (pb_flags (bn_primary B)) \<or> is_null (id_source (pb_id (bn_primary B)))) \<and>
         report_on_failure (bh_flags h) then Some InvalidFlags
     else None)"

text \<open>The body and the trailer: the offset after the block when it is all there, the offset after
  the header when the payload has to be streamed.\<close>

definition block_body ::
  "crc_ops \<Rightarrow> nat \<Rightarrow> bytes \<Rightarrow> nat \<Rightarrow> nat \<Rightarrow> BlockHeader \<Rightarrow> nat \<Rightarrow> nat \<Rightarrow> (bp_error + nat) option" where
  "block_body C chunk_size d block_start offset h body_end trailer_len =
    (if length d < body_end then
       let shortfall = body_end - length d
       in Some
         (if bh_type h = Payload then
            if shortfall + trailer_len \<le> chunk_size - offset then Inl (InvalidCBOR (NeedMoreData shortfall))
            else Inr offset
          else Inl (InvalidCBOR (NeedMoreData shortfall)))
     else
       try_then (try_consume_block_after_body d body_end (bh_crc_type h) (bh_indefinite h)) (\<lambda>(offset, crc_value_start).
       try_then
         (case crc_value_start of
            None \<Rightarrow> Some (Inr ())
          | Some s \<Rightarrow> block_crc_check C (bh_crc_type h) d block_start s offset) (\<lambda>_.
         Some (Inr offset))))"

text \<open>The payload closes the bundle, or leaves a continuation.\<close>

definition payload_close ::
  "bytes \<Rightarrow> nat \<Rightarrow> nat \<Rightarrow> BlockHeader \<Rightarrow> nat \<Rightarrow> nat \<Rightarrow> (bp_error + (nat \<times> PayloadTail option)) option" where
  "payload_close d block_start offset h body_end extent_end =
    (if bh_type h \<noteq> Payload then Some (Inr (offset, None))
     else if offset = extent_end then
       Some (and_then (consume_break d offset) (\<lambda>offset.
         if offset \<noteq> length d then Inl AdditionalData else Inr (offset, None)))
     else
       try_then
         (if bh_crc_type h = NoCrc then Some (Inr None)
          else try_then (Some (map_err InvalidCrc (digest_new (bh_crc_type h)))) (\<lambda>dg.
            map_option (\<lambda>bs. Inr (Some (digest_push bs dg))) (slice_range d (block_start, length d)))) (\<lambda>dg.
         let body_remaining = body_end - length d;
             remaining = min (extent_end + 1) usize_max - length d
         in Some (Inr (offset,
              Some (tail_new dg (bh_crc_type h) (bh_indefinite h) (of_nat body_remaining) (of_nat remaining))))))"

text \<open>The operation set of a BCB, decoded from exactly its body.\<close>

definition block_bcb_ops ::
  "text_ops \<Rightarrow> float_ops \<Rightarrow> bytes \<Rightarrow> nat \<Rightarrow> BlockHeader \<Rightarrow> (bp_error + bcb_operation OperationSet option) option" where
  "block_bcb_ops X F d block_start h =
    (if bh_type h = BlockSecurity then
       Option.bind (slice_to d (block_start + bh_data_end h)) (\<lambda>bs.
       try_then (parse_canonical_at bpsec_of_cbor InvalidBPSec (bcb_set_from_cbor X F)
           bs (block_start + bh_data_start h) ''BCB operation set'') (\<lambda>(ops, _).
         Some (Inr (Some ops))))
     else Some (Inr None))"

text \<open>The bookkeeping, after the last step that can fail: a BCB without its operation set is the
  failed \<^verbatim>\<open>expect\<close>.\<close>

definition block_record ::
  "BlockHeader \<Rightarrow> nat \<Rightarrow> nat \<Rightarrow> bcb_operation OperationSet option \<Rightarrow> Bundle \<Rightarrow> BundleParser \<Rightarrow> BundleParser option" where
  "block_record h block_start extent_end ops B P =
    Option.bind
      (if at_most_once (bh_type h) then Some (P\<lparr>bp_unique_blocks := List.insert (bh_type h) (bp_unique_blocks P)\<rparr>)
       else if bh_type h = BlockIntegrity then Some (P\<lparr>bp_pending_bibs := bp_pending_bibs P @ [bh_number h]\<rparr>)
       else if bh_type h = BlockSecurity then
         map_option (\<lambda>ops. P\<lparr>bp_bcbs := hm_put (bh_number h) ops (bp_bcbs P)\<rparr>) ops
       else Some P) (\<lambda>P.
      let b = \<lparr>blk_type = bh_type h, blk_flags = bh_flags h, blk_crc_type = bh_crc_type h, blk_bib = BibNone,
               blk_bcb = None, blk_extent = (of_nat block_start, of_nat extent_end),
               blk_data = (of_nat (bh_data_start h), of_nat (bh_data_end h))\<rparr>
      in Some (P\<lparr>bp_bundle := Some (B\<lparr>bn_blocks := hm_put (bh_number h) b (bn_blocks B)\<rparr>)\<rparr>))"

text \<open>One turn of the loop of \<^verbatim>\<open>parse_blocks\<close>: an error, or whether this was the payload, the offset
  and the parser.\<close>

definition parse_block ::
  "text_ops \<Rightarrow> crc_ops \<Rightarrow> float_ops \<Rightarrow> bytes \<Rightarrow> nat \<Rightarrow> Bundle \<Rightarrow> BundleParser \<Rightarrow>
   (bp_error + (bool \<times> nat \<times> BundleParser)) option" where
  "parse_block X C F d block_start B P =
    (case byte_at d block_start of
       None \<Rightarrow> Some (Inl (InvalidCBOR (NeedMoreData 1)))
     | Some b \<Rightarrow>
         if b = 0xFF then Some (Inl MissingPayload)
         else
           try_then (parse_canonical_with bp_of_cbor id (block_header_from_cbor F) d block_start ''block'') (\<lambda>(h, offset).
           try_then (Some (case block_refused P B h of Some e \<Rightarrow> Inl e | None \<Rightarrow> Inr ())) (\<lambda>_.
           try_then (Some (ok_or (checked_add block_start (bh_data_end h)) (InvalidCBOR TooBig))) (\<lambda>body_end.
           let trailer_len = trailer_byte_len (bh_crc_type h) (bh_indefinite h)
           in try_then (Some (ok_or (checked_add body_end trailer_len) (InvalidCBOR TooBig))) (\<lambda>extent_end.
           try_then (block_body C (bp_chunk_size P) d block_start offset h body_end trailer_len) (\<lambda>offset.
           try_then (payload_close d block_start offset h body_end extent_end) (\<lambda>(offset, payload_tail).
           try_then (block_bcb_ops X F d block_start h) (\<lambda>ops.
           Option.bind (block_record h block_start extent_end ops B P) (\<lambda>P.
             Some (Inr
               (if bh_type h = Payload then
                  (True, offset,
                    case payload_tail of
                      None \<Rightarrow> P\<lparr>bp_state := PDone\<rparr>
                    | Some tail \<Rightarrow> P\<lparr>bp_deferred := Some tail, bp_state := PPartial\<rparr>)
                else (False, offset, P\<lparr>bp_state := PBlocks offset\<rparr>))))))))))))"

section \<open>Offsets\<close>

text \<open>A decoder reports how much it took: at least one byte and no more than there are.\<close>

definition takes :: "('e, 'a) from_cbor \<Rightarrow> bool" where
  "takes fc \<longleftrightarrow> (\<forall>d x s n. fc d = Inr (x, s, n) \<longrightarrow> 1 \<le> n \<and> n \<le> length d)"

definition takes_with :: "(bytes \<Rightarrow> ('e + ('a \<times> bool \<times> nat)) option) \<Rightarrow> bool" where
  "takes_with fc \<longleftrightarrow> (\<forall>d x s n. fc d = Some (Inr (x, s, n)) \<longrightarrow> 1 \<le> n \<and> n \<le> length d)"

lemma untagged_with_total [simp]: "untagged_with conv (\<lambda>d. Some (fc d)) d = Some (untagged conv fc d)"
  by (simp add: untagged_with_def untagged_def split: list.split)

lemma untagged_with_Inr: "untagged_with conv fc d = Some (Inr x) \<Longrightarrow> fc d = Some (Inr x)"
  by (auto simp: untagged_with_def split: list.splits if_splits)

lemma parse_canonical_with_Inr:
  "parse_canonical_with conv into fc d offset field = Some (Inr (v, offset')) \<longleftrightarrow>
    offset \<le> length d \<and>
    (\<exists>l. untagged_with conv fc (drop offset d) = Some (Inr (v, True, l)) \<and> offset' = offset + l \<and> offset + l \<le> usize_max)"
  by (auto simp: parse_canonical_with_def slice_from_def map_field_err_def map_err_Inr and_then_Inr
      ok_or_Inr checked_add_def split: if_splits)

lemma parse_canonical_at_Inr:
  "parse_canonical_at conv into fc d offset field = Some (Inr (v, offset')) \<longleftrightarrow>
    offset \<le> length d \<and>
    (\<exists>l. untagged conv fc (drop offset d) = Inr (v, True, l) \<and> offset' = offset + l \<and> offset + l \<le> usize_max)"
  by (simp add: parse_canonical_at_def parse_canonical_with_Inr)

text \<open>Nothing but an offset behind the end makes it panic, if the decoder does not.\<close>

lemma parse_canonical_with_None:
  "parse_canonical_with conv into fc d offset field = None \<longleftrightarrow>
    length d < offset \<or> untagged_with conv fc (drop offset d) = None"
  by (auto simp: parse_canonical_with_def slice_from_def)

lemma parse_canonical_at_None [simp]: "parse_canonical_at conv into fc d offset field = None \<longleftrightarrow> length d < offset"
  by (simp add: parse_canonical_at_def parse_canonical_with_None)

lemma parse_canonical_with_moves:
  assumes "parse_canonical_with conv into fc d offset field = Some (Inr (v, offset'))" and "takes_with fc"
  shows "offset < offset' \<and> offset' \<le> length d"
proof -
  obtain l where u: "untagged_with conv fc (drop offset d) = Some (Inr (v, True, l))" and o: "offset' = offset + l"
    using assms(1) unfolding parse_canonical_with_Inr by blast
  have "1 \<le> l \<and> l \<le> length (drop offset d)" using assms(2) untagged_with_Inr [OF u] unfolding takes_with_def by blast
  then show ?thesis using o by auto
qed

lemma takes_lift: "takes fc \<Longrightarrow> takes_with (\<lambda>d. Some (fc d))"
  by (simp add: takes_def takes_with_def)

lemma parse_canonical_at_moves:
  assumes "parse_canonical_at conv into fc d offset field = Some (Inr (v, offset'))" and "takes fc"
  shows "offset < offset' \<and> offset' \<le> length d"
  using parse_canonical_with_moves [OF assms(1) [unfolded parse_canonical_at_def] takes_lift [OF assms(2)]] .

lemma block_data_range_moves:
  assumes "block_data_range F d offset = Some (Inr (s, e))"
  shows "offset < s \<and> s \<le> length d \<and> s \<le> e"
proof -
  obtain h l where "head_from_cbor F (drop offset d) = Inr (h, True, l)" "s = offset + l" "s \<le> e"
    using assms
    by (auto simp: block_data_range_def slice_from_def map_field_err_def map_err_Inr and_then_Inr ok_or_Inr checked_add_def
        split: if_splits marker.splits option.splits)
  then show ?thesis using head_from_cbor_len [of F "drop offset d" h True l] by auto
qed

lemma block_header_Inr:
  assumes "block_header_from_cbor F d = Some (Inr (h, s, n))"
  shows "s \<and> n = bh_data_start h \<and> bh_data_start h \<le> bh_data_end h \<and> 1 \<le> n \<and> n \<le> length d"
proof -
  obtain offset where "block_data_range F d offset = Some (Inr (bh_data_start h, bh_data_end h))"
    "s" "n = bh_data_start h"
    using assms
    by (auto simp: block_header_from_cbor_def block_header_fields_def try_then_Inr split: list.splits if_splits)
  then show ?thesis using block_data_range_moves by fastforce
qed

lemma takes_block_header: "takes_with (block_header_from_cbor F)"
  using block_header_Inr by (fastforce simp: takes_with_def)

lemma consume_break_Inr: "consume_break d offset = Inr n \<longleftrightarrow> offset < length d \<and> d ! offset = 0xFF \<and> n = offset + 1"
  by (auto simp: consume_break_def byte_at_def split: if_splits)

lemma consume_crc_Inr:
  "consume_crc d offset b k = Some (Inr (s, n)) \<longleftrightarrow>
    offset + 1 + k \<le> length d \<and> d ! offset = b \<and> s = offset + 1 \<and> n = offset + 1 + k"
  by (auto simp: consume_crc_def byte_at_def Let_def split: if_splits)

lemma try_consume_Inr:
  assumes "try_consume_block_after_body d offset t i = Some (Inr (n, v))"
  shows "n = offset + trailer_byte_len t i \<and> (offset \<le> length d \<longrightarrow> n \<le> length d)"
  using assms
  by (auto simp: try_consume_block_after_body_def try_then_Inr and_then_Inr consume_crc_Inr consume_break_Inr trailer_byte_len_def
      split: CrcType.splits if_splits)

lemma block_body_Inr:
  assumes "block_body C k d block_start offset h body_end trailer_len = Some (Inr n)"
    and "trailer_len = trailer_byte_len (bh_crc_type h) (bh_indefinite h)"
  shows "if length d < body_end then bh_type h = Payload \<and> n = offset
    else n = body_end + trailer_len \<and> n \<le> length d"
  using assms
  by (auto simp: block_body_def Let_def try_then_Inr split: if_splits dest!: try_consume_Inr)

lemma parse_block_Inr:
  assumes "parse_block X C F d s B P = Some (Inr (fin, offset', P'))"
  obtains h o1 o2 tail ops R where "s < length d"
    "parse_canonical_with bp_of_cbor id (block_header_from_cbor F) d s ''block'' = Some (Inr (h, o1))"
    "block_refused P B h = None"
    "s + bh_data_end h + trailer_byte_len (bh_crc_type h) (bh_indefinite h) \<le> usize_max"
    "block_body C (bp_chunk_size P) d s o1 h (s + bh_data_end h) (trailer_byte_len (bh_crc_type h) (bh_indefinite h)) = Some (Inr o2)"
    "payload_close d s o2 h (s + bh_data_end h) (s + bh_data_end h + trailer_byte_len (bh_crc_type h) (bh_indefinite h)) =
      Some (Inr (offset', tail))"
    "block_bcb_ops X F d s h = Some (Inr ops)"
    "block_record h s (s + bh_data_end h + trailer_byte_len (bh_crc_type h) (bh_indefinite h)) ops B P = Some R"
    "fin = (bh_type h = Payload)"
    "P' = (if bh_type h = Payload then
             (case tail of None \<Rightarrow> R\<lparr>bp_state := PDone\<rparr> | Some t \<Rightarrow> R\<lparr>bp_deferred := Some t, bp_state := PPartial\<rparr>)
           else R\<lparr>bp_state := PBlocks offset'\<rparr>)"
proof -
  show ?thesis
    using assms unfolding parse_block_def
    by (auto simp: try_then_Inr ok_or_Inr checked_add_def Let_def byte_at_def bind_eq_Some_conv split: option.splits if_splits
        intro!: that)
qed

lemma parse_block_moves:
  assumes "parse_block X C F d offset B P = Some (Inr (fin, offset', P'))"
  shows "offset < offset' \<and> offset' \<le> length d"
  using assms
proof (rule parse_block_Inr)
  fix h o1 o2 tail ops R
  assume h: "parse_canonical_with bp_of_cbor id (block_header_from_cbor F) d offset ''block'' = Some (Inr (h, o1))"
    and b: "block_body C (bp_chunk_size P) d offset o1 h (offset + bh_data_end h)
      (trailer_byte_len (bh_crc_type h) (bh_indefinite h)) = Some (Inr o2)"
    and c: "payload_close d offset o2 h (offset + bh_data_end h)
      (offset + bh_data_end h + trailer_byte_len (bh_crc_type h) (bh_indefinite h)) = Some (Inr (offset', tail))"
  have m: "offset < o1" "o1 \<le> length d" using parse_canonical_with_moves [OF h takes_block_header] by auto
  obtain l where l: "block_header_from_cbor F (drop offset d) = Some (Inr (h, True, l))" "o1 = offset + l"
    using h unfolding parse_canonical_with_Inr by (blast dest: untagged_with_Inr)
  have "o1 \<le> offset + bh_data_end h" using block_header_Inr [OF l(1)] l(2) by simp
  then have "offset < o2 \<and> o2 \<le> length d"
    using block_body_Inr [OF b refl] m by (auto split: if_splits)
  then show ?thesis
    using c by (auto simp: payload_close_def try_then_Inr and_then_Inr consume_break_Inr Let_def split: if_splits)
qed

section \<open>The block loop\<close>

function parse_blocks ::
  "text_ops \<Rightarrow> crc_ops \<Rightarrow> float_ops \<Rightarrow> bytes \<Rightarrow> nat \<Rightarrow> BundleParser \<Rightarrow> ((bp_error + nat) \<times> BundleParser) option" where
  "parse_blocks X C F d offset P =
    (case bp_bundle P of
       None \<Rightarrow> None
     | Some B \<Rightarrow>
         (case parse_block X C F d offset B P of
            None \<Rightarrow> None
          | Some (Inl e) \<Rightarrow> Some (Inl e, P)
          | Some (Inr (fin, offset', P')) \<Rightarrow>
              if fin then Some (Inr offset', P') else parse_blocks X C F d offset' P'))"
  by pat_completeness auto
termination
  by (relation "measure (\<lambda>(X, C, F, d, offset, P). length d - offset)") (auto dest!: parse_block_moves)

declare parse_blocks.simps [simp del]

section \<open>The start of a bundle\<close>

definition any_report :: "bundle_flags \<Rightarrow> bool" where
  "any_report f \<longleftrightarrow> receipt_report_requested f \<or> forward_report_requested f \<or> delivery_report_requested f \<or>
    delete_report_requested f"

definition primary_flags_bad :: "primary_block \<Rightarrow> bool" where
  "primary_flags_bad p =
    (let f = pb_flags p
     in is_null (id_source (pb_id p)) \<and> (is_fragment f \<or> \<not> do_not_fragment f \<or> any_report f) \<or>
        is_admin_record f \<and> any_report f)"

definition bundle_of_primary :: "primary_block \<Rightarrow> nat \<Rightarrow> nat \<Rightarrow> Bundle" where
  "bundle_of_primary primary block_start offset =
    \<lparr>bn_primary = primary,
     bn_blocks =
       [(0, \<lparr>blk_type = Primary, blk_flags = block_flags_primary, blk_crc_type = pb_crc_type primary, blk_bib = BibNone,
             blk_bcb = None, blk_extent = (of_nat block_start, of_nat offset),
             blk_data = (0, of_nat (offset - block_start))\<rparr>)]\<rparr>"

definition parse_primary ::
  "text_ops \<Rightarrow> crc_ops \<Rightarrow> float_ops \<Rightarrow> bytes \<Rightarrow> nat \<Rightarrow> BundleParser \<Rightarrow> ((bp_error + nat) \<times> BundleParser) option" where
  "parse_primary X C F d block_start P =
    (case parse_canonical_at bp_of_cbor id (primary_from_cbor X C F) d block_start ''primary block'' of
       None \<Rightarrow> None
     | Some (Inl e) \<Rightarrow> Some (Inl e, P)
     | Some (Inr (primary, offset)) \<Rightarrow>
         if primary_flags_bad primary then Some (Inl InvalidFlags, P)
         else parse_blocks X C F d offset
           (P\<lparr>bp_bundle := Some (bundle_of_primary primary block_start offset), bp_state := PBlocks offset\<rparr>))"

definition parse_start ::
  "text_ops \<Rightarrow> crc_ops \<Rightarrow> float_ops \<Rightarrow> bytes \<Rightarrow> BundleParser \<Rightarrow> ((bp_error + nat) \<times> BundleParser) option" where
  "parse_start X C F d P =
    (case d of
       [] \<Rightarrow> Some (Inl (InvalidCBOR (NeedMoreData 1)), P)
     | b # _ \<Rightarrow>
         if b = 0x9F then parse_primary X C F d 1 (P\<lparr>bp_state := PPrimaryBlock 1\<rparr>)
         else if 0x80 \<le> b \<and> b \<le> 0x9B then Some (Inl NotCanonical, P)
         else if b = 0x06 then Some (Inl PossibleBpv6, P)
         else Some (Inl (NotABundle b), P))"

section \<open>Push\<close>

definition push_run ::
  "text_ops \<Rightarrow> crc_ops \<Rightarrow> float_ops \<Rightarrow> bytes \<Rightarrow> BundleParser \<Rightarrow> ((bp_error + nat) \<times> BundleParser) option" where
  "push_run X C F d P =
    (case bp_state P of
       PStart \<Rightarrow> parse_start X C F d P
     | PPrimaryBlock offset \<Rightarrow> parse_primary X C F d offset P
     | PBlocks offset \<Rightarrow> parse_blocks X C F d offset P
     | _ \<Rightarrow> None)"

definition push ::
  "text_ops \<Rightarrow> crc_ops \<Rightarrow> float_ops \<Rightarrow> bytes \<Rightarrow> BundleParser \<Rightarrow> ((bp_error + ParserProgress) \<times> BundleParser) option" where
  "push X C F data_in P =
    (let d = (case bp_data P of Some buf \<Rightarrow> buf @ data_in | None \<Rightarrow> data_in)
     in case push_run X C F d (P\<lparr>bp_data := None\<rparr>) of
          None \<Rightarrow> None
        | Some (Inr _, P) \<Rightarrow>
            (case bp_state P of
               PPartial \<Rightarrow>
                 (case bp_deferred P of
                    None \<Rightarrow> None
                  | Some tail \<Rightarrow> Some (Inr (Partial d tail), P\<lparr>bp_deferred := None\<rparr>))
             | _ \<Rightarrow> Some (Inr (Ready d), P))
        | Some (Inl e, P) \<Rightarrow>
            (case need_more e of
               Some n \<Rightarrow> Some (Inr (NeedMore n), P\<lparr>bp_data := Some d\<rparr>)
             | None \<Rightarrow> Some (Inl e, P)))"

section \<open>Structural BPSec validation\<close>

text \<open>Marking the targets of an operation set, each of which has to be there.\<close>

fun stamp :: "(block \<Rightarrow> block) \<Rightarrow> u64 list \<Rightarrow> blocks \<Rightarrow> blocks option" where
  "stamp f [] bl = Some bl"
| "stamp f (t # ts) bl = (if map_of bl t = None then None else stamp f ts (hm_modify t f bl))"

fun bcb_pass :: "(u64 \<times> bcb_operation OperationSet) list \<Rightarrow> blocks \<Rightarrow> (bp_error + blocks) option" where
  "bcb_pass [] bl = Some (Inr bl)"
| "bcb_pass ((n, ops) # rest) bl =
    (case bcb_check ops n bl of
       None \<Rightarrow> None
     | Some (Inl e) \<Rightarrow> Some (Inl (InvalidBPSec e))
     | Some (Inr _) \<Rightarrow>
         Option.bind (stamp (\<lambda>b. b\<lparr>blk_bcb := Some n\<rparr>) (map fst (os_operations ops)) bl) (bcb_pass rest))"

text \<open>The operation set of a BIB in the clear, decoded from exactly its body.\<close>

definition bib_ops :: "text_ops \<Rightarrow> float_ops \<Rightarrow> bytes \<Rightarrow> block \<Rightarrow> (bp_error + bib_operation OperationSet) option" where
  "bib_ops X F d b =
    (let s = unat (fst (payload_range b)); e = unat (snd (payload_range b))
     in Option.bind (slice_to d e) (\<lambda>bs.
        try_then (parse_canonical_at bpsec_of_cbor InvalidBPSec (bib_set_from_cbor X F) bs s ''BIB operation set'')
          (\<lambda>(ops, _). Some (Inr ops))))"

fun bib_pass ::
  "text_ops \<Rightarrow> float_ops \<Rightarrow> bytes \<Rightarrow> u64 list \<Rightarrow> (u64 \<times> bib_operation OperationSet) list \<Rightarrow> bool \<Rightarrow> blocks \<Rightarrow>
   (bp_error + ((u64 \<times> bib_operation OperationSet) list \<times> bool \<times> blocks)) option" where
  "bib_pass X F d [] bibs und bl = Some (Inr (bibs, und, bl))"
| "bib_pass X F d (n # rest) bibs und bl =
    (case map_of bl n of
       None \<Rightarrow> None
     | Some b \<Rightarrow>
         if blk_bcb b \<noteq> None then bib_pass X F d rest bibs True bl
         else
           (case bib_ops X F d b of
              None \<Rightarrow> None
            | Some (Inl e) \<Rightarrow> Some (Inl e)
            | Some (Inr ops) \<Rightarrow>
                (case bib_check ops n bl of
                   None \<Rightarrow> None
                 | Some (Inl e) \<Rightarrow> Some (Inl (InvalidBPSec e))
                 | Some (Inr _) \<Rightarrow>
                     Option.bind (stamp (\<lambda>b. b\<lparr>blk_bib := BibSome n\<rparr>) (map fst (os_operations ops)) bl)
                       (bib_pass X F d rest (hm_put n ops bibs) und))))"

definition maybe_sweep :: "blocks \<Rightarrow> blocks" where
  "maybe_sweep bl =
    map (\<lambda>(n, b).
      (n, if blk_bcb b \<noteq> None \<and> blk_type b \<noteq> BlockIntegrity \<and> blk_type b \<noteq> BlockSecurity \<and> blk_bib b = BibNone
          then b\<lparr>blk_bib := BibMaybe\<rparr> else b)) bl"

definition validate_bpsec_structure ::
  "text_ops \<Rightarrow> float_ops \<Rightarrow> bytes \<Rightarrow> BundleParser \<Rightarrow>
   (bp_error + ((u64 \<times> bib_operation OperationSet) list \<times> BundleParser)) option" where
  "validate_bpsec_structure X F d P =
    (case bp_bundle P of
       None \<Rightarrow> None
     | Some B \<Rightarrow>
         (case bcb_pass (bp_bcbs P) (bn_blocks B) of
            None \<Rightarrow> None
          | Some (Inl e) \<Rightarrow> Some (Inl e)
          | Some (Inr bl) \<Rightarrow>
              (case bib_pass X F d (bp_pending_bibs P) [] False bl of
                 None \<Rightarrow> None
               | Some (Inl e) \<Rightarrow> Some (Inl e)
               | Some (Inr (bibs, und, bl)) \<Rightarrow>
                   Some (Inr (bibs, P\<lparr>bp_pending_bibs := [],
                     bp_bundle := Some (B\<lparr>bn_blocks := (if und then maybe_sweep bl else bl)\<rparr>)\<rparr>)))))"

definition finish :: "text_ops \<Rightarrow> float_ops \<Rightarrow> bytes \<Rightarrow> BundleParser \<Rightarrow> (bp_error + Parsed) option" where
  "finish X F d P =
    (if bp_state P \<noteq> PDone \<and> bp_state P \<noteq> PPartial then None
     else
       (case (if bp_bcbs P \<noteq> [] \<or> bp_pending_bibs P \<noteq> [] then validate_bpsec_structure X F d P else Some (Inr ([], P))) of
          None \<Rightarrow> None
        | Some (Inl e) \<Rightarrow> Some (Inl e)
        | Some (Inr (bibs, P)) \<Rightarrow>
            map_option (\<lambda>B. Inr \<lparr>pr_data = d, pr_bundle = B, pr_bcbs = bp_bcbs P, pr_bibs = bibs\<rparr>) (bp_bundle P)))"

section \<open>The one-shot parse\<close>

definition complete_check :: "Parsed \<Rightarrow> (bp_error + Parsed) option" where
  "complete_check p =
    (case map_of (bn_blocks (pr_bundle p)) 1 of
       None \<Rightarrow> Some (Inl MissingPayload)
     | Some b \<Rightarrow>
         let payload_end = unat (snd (blk_extent b)); data_len = length (pr_data p)
         in if data_len \<le> payload_end then Some (Inl (InvalidCBOR (NeedMoreData (min (payload_end + 1) usize_max - data_len))))
            else
              map_option (\<lambda>b. if b \<noteq> 0xFF \<or> payload_end + 1 \<noteq> data_len then Inl AdditionalData else Inr p)
                (byte_at (pr_data p) payload_end))"

definition parse_bundle :: "text_ops \<Rightarrow> crc_ops \<Rightarrow> float_ops \<Rightarrow> bytes \<Rightarrow> (bp_error + Parsed) option" where
  "parse_bundle X C F d =
    (case push X C F d parser_default of
       None \<Rightarrow> None
     | Some (Inl e, _) \<Rightarrow> Some (Inl e)
     | Some (Inr (NeedMore n), _) \<Rightarrow> Some (Inl (InvalidCBOR (NeedMoreData n)))
     | Some (Inr (Partial _ tail), _) \<Rightarrow> Some (Inl (InvalidCBOR (NeedMoreData (unat (pt_remaining tail)))))
     | Some (Inr (Ready d), P) \<Rightarrow> try_then (finish X F d P) complete_check)"

end
