(* ===== verification/Bpv7_Parse_Laws.thy ===== *)
theory Bpv7_Parse_Laws
  imports Bpv7_Parse
begin

text \<open>
  Laws of the bundle parser: what a block that the loop takes looks like, the invariant of the
  parser between two pushes, that it never panics, and that the block index of an accepted
  bundle tiles its bytes.
\<close>

section \<open>Slices\<close>

lemma slice_slice: "a \<le> b \<Longrightarrow> b \<le> c \<Longrightarrow> slice d (a, c) = slice d (a, b) @ slice d (b, c)"
proof -
  assume a: "a \<le> b" "b \<le> c"
  then have "c - a = (b - a) + (c - b)" by simp
  then have "take (c - a) (drop a d) = take (b - a) (drop a d) @ take (c - b) (drop (b - a) (drop a d))"
    by (simp only: take_add)
  then show ?thesis using a by (simp add: slice_def)
qed

lemma slice_byte: "i < length d \<Longrightarrow> slice d (i, Suc i) = [d ! i]"
  by (simp add: slice_def take_Suc_conv_app_nth)

lemma slice_empty [simp]: "slice d (a, a) = []"
  by (simp add: slice_def)

lemma length_slice: "b \<le> length d \<Longrightarrow> length (slice d (a, b)) = b - a"
  by (simp add: slice_def)

lemma slice_prefix [simp]: "b \<le> length d \<Longrightarrow> slice (d @ r) (a, b) = slice d (a, b)"
  by (simp add: slice_def)

section \<open>The bytes of a block\<close>

text \<open>What follows the data of a block whose bytes so far are given: its CRC, over those bytes,
  the head of the CRC, zeroes in its place and the break, and the break of an indefinite array.\<close>

definition block_trailer :: "crc_ops \<Rightarrow> CrcType \<Rightarrow> bool \<Rightarrow> bytes \<Rightarrow> bytes" where
  "block_trailer C t is_indefinite body =
    (case digest_new t of
       Inl _ \<Rightarrow> []
     | Inr dg \<Rightarrow> crc_head_byte t # crc_over C is_indefinite (digest_zeroed t (digest_push body dg))) @
    (if is_indefinite then [0xFF] else [])"

lemma crc_check_bytes:
  assumes "block_crc_check C t d s v n = Some (Inr u)" and "digest_new t = Inr dg" and "slice d (v, n) = slice d (v, v + k) @ brk"
    and "k = crc_value_len t" and "slice d (v + k, n) = brk" and "brk = (if i then [0xFF] else [])"
    and "slice d (s, v) = body @ [crc_head_byte t]"
  shows "slice d (v, n) = crc_over C i (digest_zeroed t (digest_push body dg)) @ brk"
  using assms
  by (cases t)
    (auto simp: block_crc_check_def digest_new_def Let_def crc_value_len_def crc_over_def digest_zeroed_def add.commute
      slice_range_def bind_eq_Some_conv split: if_splits)

lemma try_consume_crc:
  assumes "try_consume_block_after_body d offset t i = Some (Inr (n, v))" and "digest_new t = Inr dg"
  shows "v = Some (Suc offset) \<and> d ! offset = crc_head_byte t \<and> Suc offset + crc_value_len t \<le> length d \<and>
    n = Suc offset + crc_value_len t + (if i then 1 else 0)"
proof (cases t)
  case CRC16_X25
  then show ?thesis
    using assms(1)
    by (auto simp: try_consume_block_after_body_def try_then_Inr and_then_Inr consume_crc_Inr consume_break_Inr
        crc_head_byte_def crc_value_len_def split: if_splits)
next
  case CRC32_CASTAGNOLI
  then show ?thesis
    using assms(1)
    by (auto simp: try_consume_block_after_body_def try_then_Inr and_then_Inr consume_crc_Inr consume_break_Inr
        crc_head_byte_def crc_value_len_def split: if_splits)
qed (use assms(2) in \<open>simp_all add: digest_new_def\<close>)

lemma block_body_bytes:
  assumes b: "block_body C k d s offset h body_end (trailer_byte_len (bh_crc_type h) (bh_indefinite h)) = Some (Inr n)"
    and r: "body_end \<le> length d" and s: "s \<le> body_end"
  shows "slice d (s, n) = slice d (s, body_end) @ block_trailer C (bh_crc_type h) (bh_indefinite h) (slice d (s, body_end))"
proof -
  let ?t = "bh_crc_type h" and ?i = "bh_indefinite h" and ?body = "slice d (s, body_end)"
  let ?brk = "if ?i then [0xFF] else [] :: bytes"
  obtain v where c: "try_consume_block_after_body d body_end ?t ?i = Some (Inr (n, v))"
    and ck: "case v of None \<Rightarrow> True | Some v \<Rightarrow> block_crc_check C ?t d s v n = Some (Inr ())"
    using b r by (auto simp: block_body_def try_then_Inr split: option.splits)
  have n: "n = body_end + trailer_byte_len ?t ?i" "n \<le> length d"
    using try_consume_Inr [OF c] r by auto
  have sl: "slice d (s, n) = ?body @ slice d (body_end, n)" using s n(1) by (intro slice_slice) auto
  have brk: "slice d (n - (if ?i then 1 else 0), n) = ?brk"
    using c by (auto simp: try_consume_block_after_body_def try_then_Inr and_then_Inr consume_break_Inr slice_byte)
  have "slice d (body_end, n) = block_trailer C ?t ?i ?body"
  proof (cases "\<exists>dg. digest_new ?t = Inr dg")
    case False
    then have "?t = NoCrc" using c
      by (cases ?t) (auto simp: digest_new_def try_consume_block_after_body_def try_then_Inr and_then_Inr)
    then show ?thesis
      using brk n by (simp add: block_trailer_def digest_new_def trailer_byte_len_def split: if_splits)
  next
    case True
    then obtain dg where dg: "digest_new ?t = Inr dg" by blast
    let ?l = "crc_value_len ?t"
    have v: "v = Some (Suc body_end)" "d ! body_end = crc_head_byte ?t" "body_end < length d"
      and l: "n = Suc body_end + ?l + length ?brk"
      using try_consume_crc [OF c dg] by auto
    have e: "Suc body_end + ?l = n - (if ?i then 1 else 0)" using l by simp
    have v2: "slice d (Suc body_end + ?l, n) = ?brk" unfolding e by (rule brk)
    have v1: "slice d (Suc body_end, n) = slice d (Suc body_end, Suc body_end + ?l) @ ?brk"
      unfolding v2 [symmetric] by (rule slice_slice) (simp_all add: l)
    have v3: "slice d (s, Suc body_end) = ?body @ [crc_head_byte ?t]"
      using slice_slice [of s body_end "Suc body_end" d] s v slice_byte by simp
    have "block_crc_check C ?t d s (Suc body_end) n = Some (Inr ())" using ck v by simp
    from crc_check_bytes [OF this dg v1 refl v2 refl v3]
    have "slice d (Suc body_end, n) = crc_over C ?i (digest_zeroed ?t (digest_push ?body dg)) @ ?brk" .
    moreover have "slice d (body_end, n) = crc_head_byte ?t # slice d (Suc body_end, n)"
      using slice_slice [of body_end "Suc body_end" n d] l v slice_byte by simp
    ultimately show ?thesis using dg by (simp add: block_trailer_def)
  qed
  then show ?thesis using sl by simp
qed

section \<open>Reading at an offset\<close>

context untagged_codec
begin

lemma parse_at_enc:
  assumes "valid x" and "length (pre @ enc x @ r) \<le> usize_max" and "offset = length pre"
  shows "parse_canonical_at conv into from_cbor (pre @ enc x @ r) offset field = Some (Inr (x, offset + length (enc x)))"
  using assms untagged_enc [of x r] by (simp add: parse_canonical_at_Inr)

end

context strict_codec
begin

lemma parse_at_inv:
  assumes "parse_canonical_at conv into from_cbor d offset field = Some (Inr (x, offset'))" and "length d \<le> usize_max"
  shows "\<exists>r. drop offset d = enc x @ r \<and> offset' = offset + length (enc x)"
proof -
  obtain l where u: "untagged conv from_cbor (drop offset d) = Inr (x, True, l)" and o: "offset' = offset + l"
    using assms(1) unfolding parse_canonical_at_Inr by blast
  have "\<exists>r. drop offset d = enc x @ r \<and> l = length (enc x)"
    using untagged_Inr [OF u] assms(2) by (intro canonical_prefix) simp_all
  then show ?thesis using o by auto
qed

end

context u64_newtype
begin

lemma parse_at_valid:
  assumes "parse_canonical_at conv into from_cbor d offset field = Some (Inr (x, offset'))"
  shows "valid x"
proof -
  obtain l where "from_cbor (drop offset d) = Inr (x, True, l)"
    using assms unfolding parse_canonical_at_Inr by (blast dest: untagged_Inr)
  then show ?thesis using decoded_flag by blast
qed

end

section \<open>The bytes of a header\<close>

definition data_head :: "bool \<Rightarrow> nat \<Rightarrow> bytes" where
  "data_head tagged len = (if tagged then head_bytes 6 24 else []) @ head_bytes 2 (of_nat len)"

lemma head_bytes_24: "head_bytes 6 24 = [0xD8, 0x18]"
  by (simp add: head_bytes_cases)

lemma data_tag_plain: "\<not> data_tag_refused (pre @ data_head tagged len @ r) (length pre)"
proof -
  obtain b bs where "head_bytes 2 (of_nat len) = b # bs" "\<not> (0xC0 \<le> b \<and> b \<le> 0xDB)"
    using plain_startD [OF plain_start_head [of 2 "of_nat len"]] by auto
  then show ?thesis
    by (auto simp: data_tag_refused_def byte_at_def tag_head_def data_head_def head_bytes_24 nth_append nth_Cons'
        split: if_splits)
qed

lemma block_data_range_enc:
  assumes "length (pre @ data_head tagged len @ r) \<le> usize_max" and "length (pre @ data_head tagged len) + len \<le> usize_max"
    and "offset = length pre"
  shows "block_data_range F (pre @ data_head tagged len @ r) offset =
    Some (Inr (length (pre @ data_head tagged len), length (pre @ data_head tagged len) + len))"
proof -
  have len: "unat (of_nat len :: u64) = len" using assms(2) by (intro unat_of_nat_length) simp
  have "head_ref F (data_head tagged len @ r) =
      Inr (\<lparr>head_tags = (if tagged then [24] else []), head_marker = Bytes (Some (of_nat len))\<rparr>, True, length (data_head tagged len))"
    by (simp add: data_head_def head_ref_tag head_ref_head_bytes major_marker_def head_of_major_def)
  then have "head_from_cbor F (data_head tagged len @ r) =
      Inr (\<lparr>head_tags = (if tagged then [24] else []), head_marker = Bytes (Some (of_nat len))\<rparr>, True, length (data_head tagged len))"
    using assms(1) by (simp add: head_from_cbor_ref)
  then show ?thesis
    using data_tag_plain [of pre tagged len r] assms len
    by (simp add: block_data_range_def slice_from_def map_field_err_def checked_add_def add.commute)
qed

lemma block_data_range_inv:
  assumes "block_data_range F d offset = Some (Inr (s, e))" and "length d \<le> usize_max"
  shows "\<exists>tagged r. drop offset d = data_head tagged (e - s) @ r \<and> s = offset + length (data_head tagged (e - s)) \<and>
    s \<le> e \<and> e \<le> usize_max"
proof -
  obtain h l len where h: "head_from_cbor F (drop offset d) = Inr (h, True, l)" "head_tags h = [] \<or> head_tags h = [24]"
    "head_marker h = Bytes (Some len)" and s: "s = offset + l" "e = unat len + s" "e \<le> usize_max"
    using assms(1)
    by (auto simp: block_data_range_def slice_from_def map_field_err_def and_then_Inr checked_add_def
        split: if_splits marker.splits option.splits)
  have r: "head_ref F (drop offset d) = Inr (h, True, l)" using h(1) assms(2) by (simp add: head_from_cbor_ref)
  have t: "take l (drop offset d) = data_head (head_tags h \<noteq> []) (e - s)"
    using head_ref_canonical [OF r, of "head_bytes 2 len"] h(2,3) s(2) by (auto simp: data_head_def)
  have "l \<le> length (drop offset d)" using head_ref_len [OF r] by simp
  then have "length (data_head (head_tags h \<noteq> []) (e - s)) = l" unfolding t [symmetric] by simp
  then show ?thesis
    using s append_take_drop_id [of l "drop offset d", unfolded t]
    by (intro exI [of _ "head_tags h \<noteq> []"] exI [of _ "drop l (drop offset d)"]) simp
qed

definition header_fields :: "BlockHeader \<Rightarrow> bytes list" where
  "header_fields h =
    [head_bytes 0 (block_type_into (bh_type h)), head_bytes 0 (bh_number h),
     head_bytes 0 (block_flags_into (bh_flags h)), head_bytes 0 (crc_type_into (bh_crc_type h))]"

definition array_head :: "BlockHeader \<Rightarrow> byte" where
  "array_head h = (if bh_indefinite h then 0x9F else if bh_crc_type h = NoCrc then 0x85 else 0x86)"

definition header_bytes :: "BlockHeader \<Rightarrow> bool \<Rightarrow> bytes" where
  "header_bytes h tagged = [array_head h] @ concat (header_fields h) @ data_head tagged (bh_data_end h - bh_data_start h)"

definition header_ok :: "BlockHeader \<Rightarrow> bool" where
  "header_ok h \<longleftrightarrow> block_number_ok (bh_number h) (bh_type h) \<and> block_type_ok (bh_type h) \<and> block_flags_ok (bh_flags h) \<and>
    crc_type_ok (bh_crc_type h) \<and> bh_data_start h \<le> bh_data_end h \<and> bh_data_end h \<le> usize_max"

end
