(* ===== verification/Bpv7_Frame.thy ===== *)
theory Bpv7_Frame
  imports Bpv7_Parse_Laws
begin

text \<open>
  The framing of blocks: the header decoder reads back exactly the canonical headers, and the
  blocks the parser takes tile the bytes of the bundle.
\<close>

section \<open>Headers\<close>

lemma block_header_enc:
  assumes "header_ok h" and "bh_data_start h = length (header_bytes h tagged)"
    and "length (header_bytes h tagged @ r) \<le> usize_max"
  shows "block_header_from_cbor F (header_bytes h tagged @ r) = Some (Inr (h, True, bh_data_start h))"
proof -
  let ?t = "head_bytes 0 (block_type_into (bh_type h))" and ?n = "head_bytes 0 (bh_number h)"
    and ?f = "head_bytes 0 (block_flags_into (bh_flags h))" and ?c = "head_bytes 0 (crc_type_into (bh_crc_type h))"
  let ?a = "array_head h" and ?l = "bh_data_end h - bh_data_start h"
  let ?dh = "data_head tagged ?l" and ?d = "header_bytes h tagged @ r"
  have d: "?d = [?a] @ ?t @ ?n @ ?f @ ?c @ ?dh @ r" by (simp add: header_bytes_def header_fields_def)
  have b: "length ([?a] @ ?t @ ?n @ ?f @ ?c @ ?dh @ r) \<le> usize_max" using assms(3) d by simp
  have 1: "parse_canonical_at bp_of_cbor id (block_type_from_cbor F) ?d 1 ''block type'' = Some (Inr (bh_type h, 1 + length ?t))"
    unfolding d using assms(1) b
    by (intro block_type_codec.parse_at_enc) (simp_all add: header_ok_def)
  have 2: "parse_canonical_at id bp_of_cbor (u64_from_cbor F) ?d (1 + length ?t) ''block number'' =
      Some (Inr (bh_number h, 1 + length ?t + length ?n))"
    using b u64_strict.parse_at_enc [where x = "bh_number h" and pre = "[?a] @ ?t" and r = "?f @ ?c @ ?dh @ r"] unfolding d by simp
  have 3: "parse_canonical_at bp_of_cbor id (block_flags_from_cbor F) ?d (1 + length ?t + length ?n) ''block flags'' =
      Some (Inr (bh_flags h, 1 + length ?t + length ?n + length ?f))"
    using b assms(1)
      block_flags_codec.parse_at_enc [where x = "bh_flags h" and pre = "[?a] @ ?t @ ?n" and r = "?c @ ?dh @ r"]
    unfolding d by (simp add: header_ok_def add.assoc)
  have 4: "parse_canonical_at bp_of_cbor id (crc_type_from_cbor F) ?d (1 + length ?t + length ?n + length ?f) ''block crc type'' =
      Some (Inr (bh_crc_type h, 1 + length ?t + length ?n + length ?f + length ?c))"
    using b assms(1)
      crc_type_codec.parse_at_enc [where x = "bh_crc_type h" and pre = "[?a] @ ?t @ ?n @ ?f" and r = "?dh @ r"]
    unfolding d by (simp add: header_ok_def add.assoc)
  let ?pre = "[?a] @ ?t @ ?n @ ?f @ ?c"
  have l: "bh_data_start h + ?l = bh_data_end h" "bh_data_end h \<le> usize_max"
    using assms(1) by (simp_all add: header_ok_def)
  have "?pre @ ?dh = header_bytes h tagged" by (simp add: header_bytes_def header_fields_def)
  then have s: "length (?pre @ ?dh) = bh_data_start h" using assms(2) by (simp only:)
  have m: "length (?pre @ ?dh) + ?l \<le> usize_max" unfolding s l(1) by (rule l(2))
  have "length (?pre @ ?dh @ r) \<le> usize_max" using b by simp
  from block_data_range_enc [OF this m refl]
  have "block_data_range F (?pre @ ?dh @ r) (length ?pre) = Some (Inr (length (?pre @ ?dh), length (?pre @ ?dh) + ?l))" .
  then have "block_data_range F (?pre @ ?dh @ r) (length ?pre) = Some (Inr (bh_data_start h, bh_data_end h))"
    by (simp only: s l)
  then have 5: "block_data_range F ?d (1 + length ?t + length ?n + length ?f + length ?c) = Some (Inr (bh_data_start h, bh_data_end h))"
    unfolding d by (simp only: append_assoc length_append list.size add_0_right add_0 One_nat_def plus_1_eq_Suc add_Suc add.assoc)
  have ok: "block_number_ok (bh_number h) (bh_type h) = True" "item_count_ok ?a (bh_crc_type h) = True"
    "(?a = 0x9F) = bh_indefinite h"
    using assms(1) by (auto simp: header_ok_def item_count_ok_def array_head_def)
  have "block_header_fields F ?a ?d = Some (Inr (h, True, bh_data_start h))"
    by (simp only: block_header_fields_def 1 2 3 4 5 ok try_then_simps prod.case not_True_eq_False if_False) simp
  moreover obtain ds where "?d = ?a # ds" using d by simp
  ultimately show ?thesis by (simp add: block_header_from_cbor_def array_head_def)
qed

lemma block_header_inv:
  assumes "block_header_from_cbor F d = Some (Inr (h, s, n))" and "length d \<le> usize_max"
  shows "header_ok h \<and> (\<exists>tagged r. d = header_bytes h tagged @ r \<and> bh_data_start h = length (header_bytes h tagged))"
proof -
  let ?t = "head_bytes 0 (block_type_into (bh_type h))" and ?n = "head_bytes 0 (bh_number h)"
    and ?f = "head_bytes 0 (block_flags_into (bh_flags h))" and ?c = "head_bytes 0 (crc_type_into (bh_crc_type h))"
  obtain b ds o1 o2 o3 o4 where d: "d = b # ds" and b: "b = 0x85 \<or> b = 0x86 \<or> b = 0x9F" "bh_indefinite h = (b = 0x9F)"
    and 1: "parse_canonical_at bp_of_cbor id (block_type_from_cbor F) d 1 ''block type'' = Some (Inr (bh_type h, o1))"
    and 2: "parse_canonical_at id bp_of_cbor (u64_from_cbor F) d o1 ''block number'' = Some (Inr (bh_number h, o2))"
    and 3: "parse_canonical_at bp_of_cbor id (block_flags_from_cbor F) d o2 ''block flags'' = Some (Inr (bh_flags h, o3))"
    and 4: "parse_canonical_at bp_of_cbor id (crc_type_from_cbor F) d o3 ''block crc type'' = Some (Inr (bh_crc_type h, o4))"
    and 5: "block_data_range F d o4 = Some (Inr (bh_data_start h, bh_data_end h))"
    and ok: "block_number_ok (bh_number h) (bh_type h)" "item_count_ok b (bh_crc_type h)"
    using assms(1)
    by (auto simp: block_header_from_cbor_def block_header_fields_def try_then_Inr split: list.splits if_splits)
  note l = assms(2)
  obtain r1 where r1: "drop 1 d = ?t @ r1" "o1 = 1 + length ?t" using block_type_codec.parse_at_inv [OF 1 l] by auto
  obtain r2 where r2: "drop o1 d = ?n @ r2" "o2 = o1 + length ?n" using u64_strict.parse_at_inv [OF 2 l] by auto
  obtain r3 where r3: "drop o2 d = ?f @ r3" "o3 = o2 + length ?f" using block_flags_codec.parse_at_inv [OF 3 l] by auto
  obtain r4 where r4: "drop o3 d = ?c @ r4" "o4 = o3 + length ?c" using crc_type_codec.parse_at_inv [OF 4 l] by auto
  obtain tg r where r: "drop o4 d = data_head tg (bh_data_end h - bh_data_start h) @ r"
    "bh_data_start h = o4 + length (data_head tg (bh_data_end h - bh_data_start h))"
    "bh_data_start h \<le> bh_data_end h" "bh_data_end h \<le> usize_max"
    using block_data_range_inv [OF 5 l] by blast
  have chain: "drop (k + length x) d = y \<Longrightarrow> drop k d = x @ z \<Longrightarrow> drop k d = x @ y" for k :: nat and x y z :: bytes
    by (metis append_eq_conv_conj drop_drop add.commute)
  have "drop o3 d = ?c @ data_head tg (bh_data_end h - bh_data_start h) @ r"
    using chain [OF r(1) [unfolded r4(2)] r4(1)] .
  from chain [OF this [unfolded r3(2)] r3(1)] have "drop o2 d = ?f @ ?c @ data_head tg (bh_data_end h - bh_data_start h) @ r" .
  from chain [OF this [unfolded r2(2)] r2(1)] have "drop o1 d = ?n @ ?f @ ?c @ data_head tg (bh_data_end h - bh_data_start h) @ r" .
  from chain [OF this [unfolded r1(2)] r1(1)]
  have "drop 1 d = ?t @ ?n @ ?f @ ?c @ data_head tg (bh_data_end h - bh_data_start h) @ r" .
  moreover have "b = array_head h" using b ok(2) by (auto simp: array_head_def item_count_ok_def)
  ultimately have "d = header_bytes h tg @ r" using d by (simp add: header_bytes_def header_fields_def)
  moreover have "bh_data_start h = length (header_bytes h tg)"
    using r(2) r1(2) r2(2) r3(2) r4(2) unfolding header_bytes_def header_fields_def length_append by simp
  moreover have "header_ok h"
    using ok(1) r(3,4) block_type_codec.parse_at_valid [OF 1] block_flags_codec.parse_at_valid [OF 3]
      crc_type_codec.parse_at_valid [OF 4] by (simp add: header_ok_def)
  ultimately show ?thesis by blast
qed

lemma block_header_append:
  assumes "block_header_from_cbor F d = Some (Inr (h, s, n))" and "length (d @ r) \<le> usize_max"
  shows "block_header_from_cbor F (d @ r) = Some (Inr (h, s, n))"
proof -
  have "length d \<le> usize_max" using assms(2) by simp
  then obtain tg r' where ok: "header_ok h" and d: "d = header_bytes h tg @ r'" "bh_data_start h = length (header_bytes h tg)"
    using block_header_inv [OF assms(1)] by blast
  have "block_header_from_cbor F (header_bytes h tg @ (r' @ r)) = Some (Inr (h, True, bh_data_start h))"
    by (rule block_header_enc [OF ok d(2)]) (use assms(2) d(1) in simp)
  then show ?thesis using block_header_Inr [OF assms(1)] d(1) by simp
qed

section \<open>The block index\<close>

definition blk_start :: "block \<Rightarrow> nat" where
  "blk_start b = unat (fst (blk_extent b))"

definition blk_end :: "block \<Rightarrow> nat" where
  "blk_end b = unat (snd (blk_extent b))"

text \<open>A block as it stands on the wire: a canonical header, as many data octets as it announces
  and the trailer; the index entry says so, and its payload range is the data.\<close>

definition wire_block :: "crc_ops \<Rightarrow> bytes \<Rightarrow> u64 \<Rightarrow> block \<Rightarrow> bool" where
  "wire_block C d n b \<longleftrightarrow>
    (\<exists>h tagged body. header_ok h \<and> bh_number h = n \<and> bh_type h = blk_type b \<and> bh_flags h = blk_flags b \<and>
      bh_crc_type h = blk_crc_type b \<and> (\<forall>c. blk_crc_type b \<noteq> UnrecognisedCrc c) \<and>
      bh_data_start h = length (header_bytes h tagged) \<and> length body = bh_data_end h - bh_data_start h \<and>
      slice d (blk_start b, blk_end b) =
        header_bytes h tagged @ body @
        block_trailer C (blk_crc_type b) (bh_indefinite h) (header_bytes h tagged @ body) \<and>
      block_payload b d = Some body)"

text \<open>Entries follow one another without a gap.\<close>

fun chained :: "nat \<Rightarrow> blocks \<Rightarrow> nat \<Rightarrow> bool" where
  "chained a [] e \<longleftrightarrow> a = e"
| "chained a (x # r) e \<longleftrightarrow> blk_start (snd x) = a \<and> a < blk_end (snd x) \<and> chained (blk_end (snd x)) r e"

lemma chained_append: "chained a (xs @ ys) e \<longleftrightarrow> (\<exists>m. chained a xs m \<and> chained m ys e)"
  by (induction xs arbitrary: a) auto

lemma chained_le: "chained a xs e \<Longrightarrow> a \<le> e"
  by (induction xs arbitrary: a) fastforce+

lemma chained_bounds: "chained a xs e \<Longrightarrow> (n, b) \<in> set xs \<Longrightarrow> a \<le> blk_start b \<and> blk_start b < blk_end b \<and> blk_end b \<le> e"
proof (induction xs arbitrary: a)
  case (Cons x xs)
  have "blk_end (snd x) \<le> e" using Cons.prems(1) by (auto dest: chained_le)
  then show ?case using Cons by fastforce
qed simp

text \<open>The bytes between two ends are those of the entries.\<close>

lemma chained_slices:
  "chained a xs e \<Longrightarrow> slice d (a, e) = concat (map (\<lambda>x. slice d (blk_start (snd x), blk_end (snd x))) xs)"
proof (induction xs arbitrary: a)
  case (Cons x xs)
  then have "slice d (a, e) = slice d (a, blk_end (snd x)) @ slice d (blk_end (snd x), e)"
    using chained_le by (intro slice_slice) (auto intro: less_imp_le)
  then show ?case using Cons by simp
qed simp

definition new_block :: "BlockHeader \<Rightarrow> nat \<Rightarrow> nat \<Rightarrow> block" where
  "new_block h s e =
    \<lparr>blk_type = bh_type h, blk_flags = bh_flags h, blk_crc_type = bh_crc_type h, blk_bib = BibNone, blk_bcb = None,
     blk_extent = (of_nat s, of_nat e), blk_data = (of_nat (bh_data_start h), of_nat (bh_data_end h))\<rparr>"

lemma block_record_fields:
  assumes "block_record h s e ops B P = Some R"
  shows "bp_bundle R = Some (B\<lparr>bn_blocks := hm_put (bh_number h) (new_block h s e) (bn_blocks B)\<rparr>)"
    and "set (bp_pending_bibs R) =
      (if bh_type h = BlockIntegrity then insert (bh_number h) (set (bp_pending_bibs P)) else set (bp_pending_bibs P))"
    and "fst ` set (bp_bcbs R) \<subseteq> insert (bh_number h) (fst ` set (bp_bcbs P))"
proof -
  show "bp_bundle R = Some (B\<lparr>bn_blocks := hm_put (bh_number h) (new_block h s e) (bn_blocks B)\<rparr>)"
    and "set (bp_pending_bibs R) =
      (if bh_type h = BlockIntegrity then insert (bh_number h) (set (bp_pending_bibs P)) else set (bp_pending_bibs P))"
    using assms
    by (auto simp: block_record_def Let_def new_block_def at_most_once_def bind_eq_Some_conv split: if_splits)
  have "bp_bcbs R = bp_bcbs P \<or> (\<exists>x. bp_bcbs R = hm_put (bh_number h) x (bp_bcbs P))"
    using assms by (auto simp: block_record_def Let_def bind_eq_Some_conv split: if_splits)
  then show "fst ` set (bp_bcbs R) \<subseteq> insert (bh_number h) (fst ` set (bp_bcbs P))"
  proof (elim disjE exE)
    fix x assume "bp_bcbs R = hm_put (bh_number h) x (bp_bcbs P)"
    then show ?thesis using hm_keys_put [of "bh_number h" x "bp_bcbs P"] by (simp only: set_map subset_refl)
  qed auto
qed

text \<open>What one turn of the loop does when it succeeds.\<close>

lemma parse_block_cases:
  assumes "parse_block X C F d s B P = Some (Inr (fin, offset, P'))"
  obtains h ops e n R where "block_header_from_cbor F (drop s d) = Some (Inr (h, True, n))" "s < length d"
    "e = s + bh_data_end h + trailer_byte_len (bh_crc_type h) (bh_indefinite h)" "e \<le> usize_max"
    "block_body C (bp_chunk_size P) d s (s + n) h (s + bh_data_end h) (trailer_byte_len (bh_crc_type h) (bh_indefinite h)) =
      Some (Inr (if length d < s + bh_data_end h then s + n else e))"
    "map_of (bn_blocks B) (bh_number h) = None" "fin = (bh_type h = Payload)"
    "if length d < s + bh_data_end h then fin \<and>
       (\<exists>tail. P' = R\<lparr>bp_deferred := Some tail, bp_state := PPartial\<rparr>)
     else e \<le> length d \<and>
       (if fin then length d = Suc e \<and> d ! e = 0xFF \<and> P' = R\<lparr>bp_state := PDone\<rparr>
        else offset = e \<and> P' = R\<lparr>bp_state := PBlocks e\<rparr>)"
    "block_record h s e ops B P = Some R"
  using assms
proof (rule parse_block_Inr)
  fix h :: BlockHeader and o1 o2 :: nat and tail ops R
  let ?e = "s + bh_data_end h + trailer_byte_len (bh_crc_type h) (bh_indefinite h)"
  assume s: "s < length d"
    and h: "parse_canonical_with bp_of_cbor id (block_header_from_cbor F) d s ''block'' = Some (Inr (h, o1))"
    and rf: "block_refused P B h = None" and mx: "?e \<le> usize_max"
    and b: "block_body C (bp_chunk_size P) d s o1 h (s + bh_data_end h)
      (trailer_byte_len (bh_crc_type h) (bh_indefinite h)) = Some (Inr o2)"
    and c: "payload_close d s o2 h (s + bh_data_end h) ?e = Some (Inr (offset, tail))"
    and R: "block_record h s ?e ops B P = Some R" and f: "fin = (bh_type h = Payload)"
    and P': "P' = (if bh_type h = Payload then
        (case tail of None \<Rightarrow> R\<lparr>bp_state := PDone\<rparr> | Some t \<Rightarrow> R\<lparr>bp_deferred := Some t, bp_state := PPartial\<rparr>)
      else R\<lparr>bp_state := PBlocks offset\<rparr>)"
  obtain n where n: "block_header_from_cbor F (drop s d) = Some (Inr (h, True, n))" "o1 = s + n"
    using h unfolding parse_canonical_with_Inr by (blast dest: untagged_with_Inr)
  have le: "n \<le> bh_data_end h" "s + n \<le> length d"
    using block_header_Inr [OF n(1)] s by auto
  have o2: "if length d < s + bh_data_end h then fin \<and> o2 = s + n else o2 = ?e \<and> ?e \<le> length d"
    using block_body_Inr [OF b refl] n(2) f by (auto split: if_splits)
  have t: "if length d < s + bh_data_end h then \<exists>t. tail = Some t
      else if fin then tail = None \<and> length d = Suc ?e \<and> d ! ?e = 0xFF else tail = None \<and> offset = ?e"
    using c o2 f le
    by (auto simp: payload_close_def try_then_Inr and_then_Inr consume_break_Inr Let_def split: if_splits)
  show ?thesis
  proof (rule that [OF n(1) s refl mx _ _ f _ R])
    show "block_body C (bp_chunk_size P) d s (s + n) h (s + bh_data_end h) (trailer_byte_len (bh_crc_type h) (bh_indefinite h)) =
        Some (Inr (if length d < s + bh_data_end h then s + n else ?e))"
      using b o2 n(2) by (auto split: if_splits)
    show "map_of (bn_blocks B) (bh_number h) = None" using rf by (auto simp: block_refused_def split: if_splits)
  qed (use f P' t o2 in \<open>auto split: if_splits\<close>)
qed

section \<open>One turn of the loop does not panic\<close>

lemma takes_header_fields:
  "takes (block_type_from_cbor F)" "takes (u64_from_cbor F)" "takes (block_flags_from_cbor F)" "takes (crc_type_from_cbor F)"
  by (auto simp: takes_def dest: block_type_codec.decoded_flag block_flags_codec.decoded_flag crc_type_codec.decoded_flag
      u64_from_cbor_len)

lemma block_data_range_total: "offset \<le> length d \<Longrightarrow> block_data_range F d offset \<noteq> None"
  by (simp add: block_data_range_def slice_from_def)

lemma block_header_total: "block_header_from_cbor F d \<noteq> None"
proof (cases d)
  case (Cons b ds)
  have "block_header_fields F b d \<noteq> None"
  proof
    assume "block_header_fields F b d = None"
    moreover have "1 \<le> length d" using Cons by simp
    ultimately show False
      unfolding block_header_fields_def
      by (auto simp: try_then_None block_data_range_total not_less simp del: One_nat_def split: if_splits
          dest: parse_canonical_at_moves [OF _ takes_header_fields(1)] parse_canonical_at_moves [OF _ takes_header_fields(2)]
            parse_canonical_at_moves [OF _ takes_header_fields(3)] parse_canonical_at_moves [OF _ takes_header_fields(4)])
  qed
  then show ?thesis using Cons by (simp add: block_header_from_cbor_def)
qed (simp add: block_header_from_cbor_def)

lemma consume_crc_total: "consume_crc d offset b k \<noteq> None"
  by (simp add: consume_crc_def byte_at_def Let_def)

lemma try_consume_total: "try_consume_block_after_body d offset t i \<noteq> None"
  using consume_crc_total unfolding try_consume_block_after_body_def
  by (intro total_rules) (auto simp: try_then_None simp del: not_None_eq split: CrcType.splits)

lemma block_crc_check_total:
  assumes "try_consume_block_after_body d e t i = Some (Inr (n, Some v))" and "s \<le> e"
  shows "block_crc_check C t d s v n \<noteq> None"
proof (cases "digest_new t")
  case (Inl e)
  then show ?thesis by (simp add: block_crc_check_def)
next
  case (Inr dg)
  have "n \<le> length d" using try_consume_crc [OF assms(1) Inr] try_consume_Inr [OF assms(1)] by simp
  with try_consume_crc [OF assms(1) Inr] Inr show ?thesis
    using assms(2)
    by (cases t) (auto simp: block_crc_check_def slice_range_def crc_value_len_def digest_new_def Let_def split: if_splits)
qed

lemma block_body_total:
  assumes "s \<le> e"
  shows "block_body C k d s offset h e l \<noteq> None"
proof (cases "length d < e")
  case False
  have "(case v of None \<Rightarrow> Some (Inr ()) | Some v \<Rightarrow> block_crc_check C (bh_crc_type h) d s v n) \<noteq> None"
    if "try_consume_block_after_body d e (bh_crc_type h) (bh_indefinite h) = Some (Inr (n, v))" for n v
    using block_crc_check_total [OF _ assms] that by (cases v) simp_all
  with False show ?thesis
    unfolding block_body_def if_not_P [OF False] by (intro total_rules try_consume_total) simp_all
qed (simp add: block_body_def Let_def)

lemma payload_close_total: "s \<le> length d \<Longrightarrow> payload_close d s offset h e x \<noteq> None"
  by (intro notI) (auto simp: payload_close_def try_then_None slice_range_def split: if_splits)

lemma block_bcb_ops_total:
  assumes "s + bh_data_end h \<le> length d" and "bh_data_start h \<le> bh_data_end h"
  shows "block_bcb_ops X F d s h \<noteq> None"
  using assms by (intro notI) (auto simp: block_bcb_ops_def slice_to_def try_then_None split: if_splits)

lemma block_record_total: "block_bcb_ops X F d s h = Some (Inr ops) \<Longrightarrow> block_record h s e ops B P \<noteq> None"
  by (intro notI) (auto simp: block_record_def block_bcb_ops_def Let_def try_then_Inr bind_eq_Some_conv split: if_splits)

lemma header_at_total:
  "s \<le> length d \<Longrightarrow> parse_canonical_with bp_of_cbor id (block_header_from_cbor F) d s field \<noteq> None"
  using block_header_total [of F "drop s d"]
  by (auto simp: parse_canonical_with_None untagged_with_def simp del: not_None_eq split: list.splits)

lemma header_at_range:
  "parse_canonical_with bp_of_cbor id (block_header_from_cbor F) d s field = Some (Inr (h, o1)) \<Longrightarrow>
    bh_data_start h \<le> bh_data_end h"
  unfolding parse_canonical_with_Inr by (blast dest: untagged_with_Inr block_header_Inr)

lemma bcb_ops_at_total:
  assumes "parse_canonical_with bp_of_cbor id (block_header_from_cbor F) d s field = Some (Inr (h, o1))"
    and "block_body C k d s o1 h (s + bh_data_end h) (trailer_byte_len (bh_crc_type h) (bh_indefinite h)) = Some (Inr o2)"
  shows "block_bcb_ops X F d s h \<noteq> None"
proof (cases "bh_type h = Payload")
  case False
  then have "s + bh_data_end h \<le> length d" using block_body_Inr [OF assms(2) refl] by (auto split: if_splits)
  then show ?thesis using header_at_range [OF assms(1)] by (rule block_bcb_ops_total)
qed (simp add: block_bcb_ops_def)

lemma parse_block_total: "parse_block X C F d s B P \<noteq> None"
proof (cases "s < length d \<and> d ! s \<noteq> 0xFF")
  case True
  then have p: "s \<le> length d" and b: "byte_at d s = Some (d ! s)" and f: "d ! s \<noteq> 0xFF" by (simp_all add: byte_at_def)
  have bo: "block_bcb_ops X F d s h \<noteq> None"
    if "parse_canonical_with bp_of_cbor id (block_header_from_cbor F) d s ''block'' = Some (Inr (h, o1))"
      "Some (ok_or (checked_add s (bh_data_end h)) (InvalidCBOR TooBig)) = Some (Inr e)"
      "block_body C k d s o1 h e (trailer_byte_len (bh_crc_type h) (bh_indefinite h)) = Some (Inr o2)" for h o1 e k o2
    using bcb_ops_at_total [OF that(1)] that(2,3) by (simp add: ok_or_Inr checked_add_def split: if_splits)
  have bb: "block_body C k d s o1 h e l \<noteq> None"
    if "Some (ok_or (checked_add s (bh_data_end h)) (InvalidCBOR TooBig)) = Some (Inr e)" for k o1 h e l
    using that by (intro block_body_total) (simp add: ok_or_Inr checked_add_def split: if_splits)
  show ?thesis
    unfolding parse_block_def b Let_def option.case if_not_P [OF f]
    by (intro total_rules header_at_total [OF p] payload_close_total [OF p]) (use bo bb block_record_total in blast)+
qed (auto simp: parse_block_def byte_at_def)

text \<open>The entry the parser records for a block that is all there describes it.\<close>

lemma new_block_range:
  assumes "s \<le> e" and "e \<le> usize_max"
  shows "blk_start (new_block h s e) = s" "blk_end (new_block h s e) = e"
  using assms by (simp_all add: blk_start_def blk_end_def new_block_def unat_of_nat_length)

lemma new_block_fields [simp]:
  "blk_type (new_block h s e) = bh_type h" "blk_flags (new_block h s e) = bh_flags h"
  "blk_crc_type (new_block h s e) = bh_crc_type h"
  by (simp_all add: new_block_def)

lemma new_block_payload:
  assumes "d = pre @ x @ body @ r" and "bh_data_start h = length x" and "bh_data_end h = length (x @ body)"
    and "length d \<le> usize_max"
  shows "block_payload (new_block h (length pre) e) d = Some body"
  unfolding assms(1) by (rule block_payload_at) (use assms in \<open>simp_all add: new_block_def range_u64_def\<close>)

lemma wire_block_new:
  assumes h: "block_header_from_cbor F (drop s d) = Some (Inr (h, True, n))" and s: "s < length d" and l: "length d \<le> usize_max"
    and e: "e = s + bh_data_end h + trailer_byte_len (bh_crc_type h) (bh_indefinite h)" "e \<le> length d"
    and b: "block_body C k d s (s + n) h (s + bh_data_end h) (trailer_byte_len (bh_crc_type h) (bh_indefinite h)) = Some (Inr e)"
    and r: "\<not> length d < s + bh_data_end h"
  shows "wire_block C d (bh_number h) (new_block h s e)"
proof -
  have "length (drop s d) \<le> usize_max" using l by simp
  then obtain tg q where ok: "header_ok h" and q: "drop s d = header_bytes h tg @ q"
    and ds: "bh_data_start h = length (header_bytes h tg)"
    using block_header_inv [OF h] by blast
  let ?x = "header_bytes h tg" and ?m = "bh_data_end h - bh_data_start h"
  let ?body = "take ?m q"
  have de: "bh_data_start h \<le> bh_data_end h" using ok by (simp add: header_ok_def)
  have "length d - s = length ?x + length q" using q by (metis length_append length_drop)
  then have lq: "?m \<le> length q" using r ds de by linarith
  have d: "d = take s d @ ?x @ ?body @ drop ?m q" using q by (metis append_take_drop_id)
  have sl: "slice d (s, s + bh_data_end h) = ?x @ ?body"
    using q ds de lq by (simp add: slice_def)
  have pl: "block_payload (new_block h s e) d = Some ?body"
    using new_block_payload [OF d ds, of e] lq ds de l s by simp
  have cr: "\<forall>c. bh_crc_type h \<noteq> UnrecognisedCrc c"
    using b r by (auto simp: block_body_def try_consume_block_after_body_def try_then_Inr)
  have "slice d (s, e) = ?x @ ?body @ block_trailer C (bh_crc_type h) (bh_indefinite h) (?x @ ?body)"
    using block_body_bytes [OF b] r sl by simp
  moreover have "s \<le> e" "e \<le> usize_max" using e l by simp_all
  then have rg: "blk_start (new_block h s e) = s" "blk_end (new_block h s e) = e" by (rule new_block_range)+
  ultimately show ?thesis
    unfolding wire_block_def rg using ok ds pl cr lq
    by (intro exI [of _ h] exI [of _ tg] exI [of _ ?body]) simp
qed

section \<open>The invariant of the block loop\<close>

definition bpsec_known :: "Bundle \<Rightarrow> BundleParser \<Rightarrow> bool" where
  "bpsec_known B P \<longleftrightarrow>
    (\<forall>n \<in> set (bp_pending_bibs P). \<exists>b. map_of (bn_blocks B) n = Some b \<and> blk_type b = BlockIntegrity) \<and>
    (\<forall>n \<in> fst ` set (bp_bcbs P). map_of (bn_blocks B) n \<noteq> None)"

definition index_ok :: "crc_ops \<Rightarrow> bytes \<Rightarrow> primary_block \<Rightarrow> block \<Rightarrow> blocks \<Rightarrow> Bundle \<Rightarrow> bool" where
  "index_ok C d p b0 bl B \<longleftrightarrow> bn_primary B = p \<and> bn_blocks B = (0, b0) # bl \<and> blk_type b0 = Primary \<and> hm_ok (bn_blocks B) \<and>
    (\<forall>x \<in> set bl. fst x \<noteq> 1 \<longrightarrow> wire_block C d (fst x) (snd x))"

definition blocks_inv :: "crc_ops \<Rightarrow> bytes \<Rightarrow> primary_block \<Rightarrow> block \<Rightarrow> nat \<Rightarrow> BundleParser \<Rightarrow> bool" where
  "blocks_inv C d p b0 offset P \<longleftrightarrow>
    (\<exists>B bl. bp_bundle P = Some B \<and> bp_state P = PBlocks offset \<and> offset \<le> length d \<and> bpsec_known B P \<and>
      index_ok C d p b0 bl B \<and> chained 1 (bn_blocks B) offset \<and> (\<forall>x \<in> set bl. fst x \<noteq> 1))"

text \<open>Where the loop ends: with the whole bundle, the payload last and the outer break behind it,
  or with the header of a payload that has to be streamed.\<close>

definition blocks_done :: "crc_ops \<Rightarrow> bytes \<Rightarrow> primary_block \<Rightarrow> block \<Rightarrow> BundleParser \<Rightarrow> bool" where
  "blocks_done C d p b0 P \<longleftrightarrow>
    (\<exists>B bl b. bp_bundle P = Some B \<and> bpsec_known B P \<and> index_ok C d p b0 (bl @ [(1, b)]) B \<and> blk_type b = Payload \<and>
      (if bp_state P = PDone
       then \<exists>e. length d = Suc e \<and> d ! e = 0xFF \<and> chained 1 (bn_blocks B) e \<and> wire_block C d 1 b
       else bp_state P = PPartial \<and> bp_deferred P \<noteq> None))"

lemma bpsec_known_state [simp]:
  "bpsec_known B (P\<lparr>bp_state := s\<rparr>) = bpsec_known B P" "bpsec_known B (P\<lparr>bp_deferred := t\<rparr>) = bpsec_known B P"
  by (simp_all add: bpsec_known_def)

lemma bpsec_known_record:
  assumes "bpsec_known B P" and "map_of (bn_blocks B) (bh_number h) = None" and "block_record h s e ops B P = Some R"
  shows "bpsec_known (B\<lparr>bn_blocks := hm_put (bh_number h) (new_block h s e) (bn_blocks B)\<rparr>) R"
    (is "bpsec_known ?B _")
proof -
  have m: "map_of (bn_blocks ?B) n = (if n = bh_number h then Some (new_block h s e) else map_of (bn_blocks B) n)" for n
    by simp
  show ?thesis
    unfolding bpsec_known_def
  proof (intro conjI ballI)
    fix n assume n: "n \<in> set (bp_pending_bibs R)"
    show "\<exists>b. map_of (bn_blocks ?B) n = Some b \<and> blk_type b = BlockIntegrity"
    proof (cases "n \<in> set (bp_pending_bibs P)")
      case True
      then show ?thesis using assms unfolding bpsec_known_def m by auto
    next
      case False
      then have "n = bh_number h" "bh_type h = BlockIntegrity"
        using n unfolding block_record_fields(2) [OF assms(3)] by (auto split: if_splits)
      then show ?thesis unfolding m by simp
    qed
  next
    fix n assume "n \<in> fst ` set (bp_bcbs R)"
    then have "n = bh_number h \<or> n \<in> fst ` set (bp_bcbs P)"
      using block_record_fields(3) [OF assms(3)] by blast
    then show "map_of (bn_blocks ?B) n \<noteq> None" using assms(1) unfolding bpsec_known_def m by auto
  qed
qed

lemma header_number: "header_ok h \<Longrightarrow> (bh_type h = Payload) = (bh_number h = 1) \<and> bh_number h \<noteq> 0"
  by (auto simp: header_ok_def block_number_ok_def split: if_splits)

lemma parse_block_inv:
  assumes "parse_block X C F d offset B P = Some (Inr (fin, offset', P'))" and "blocks_inv C d p b0 offset P"
    and "bp_bundle P = Some B" and l: "length d \<le> usize_max"
  shows "if fin then blocks_done C d p b0 P' else blocks_inv C d p b0 offset' P'"
proof -
  obtain bl where B: "index_ok C d p b0 bl B" "chained 1 (bn_blocks B) offset" "\<forall>x \<in> set bl. fst x \<noteq> 1"
    and k: "bpsec_known B P" and o: "offset \<le> length d"
    using assms(2,3) by (auto simp: blocks_inv_def)
  from assms(1) show ?thesis
  proof (cases rule: parse_block_cases)
    case (1 h ops e n R)
    let ?b = "new_block h offset e"
    let ?B = "B\<lparr>bn_blocks := bn_blocks B @ [(bh_number h, new_block h offset e)]\<rparr>"
    have ok: "header_ok h" using block_header_inv [OF 1(1)] l by simp
    have R: "bp_bundle R = Some ?B" using block_record_fields(1) [OF 1(9)] hm_put_fresh [OF 1(6)] by simp
    have kn: "bpsec_known ?B R"
      using bpsec_known_record [OF k 1(6,9)] by (simp add: hm_put_fresh [OF 1(6)])
    have hk: "hm_ok (bn_blocks ?B)"
    proof -
      have "hm_ok (bn_blocks B)" using B(1) unfolding index_ok_def by blast
      from hm_ok_simps(2) [OF this, of "bh_number h" ?b] show ?thesis unfolding hm_put_fresh [OF 1(6)] by simp
    qed
    have lt: "offset < e" "offset \<le> e" "e \<le> usize_max"
      using 1(3,4) block_header_Inr [OF 1(1)] by auto
    show ?thesis
    proof (cases "length d < offset + bh_data_end h")
      case True
      then have fin: "fin" "bh_number h = 1" and P': "\<exists>t. P' = R\<lparr>bp_deferred := Some t, bp_state := PPartial\<rparr>"
        using 1(7,8) header_number [OF ok] by auto
      have "index_ok C d p b0 (bl @ [(1, ?b)]) ?B" using B(1) hk fin(2) by (auto simp: index_ok_def)
      then show ?thesis
        using P' fin R kn 1(7) unfolding blocks_done_def
        by (clarsimp simp del: not_None_eq) (intro exI [of _ bl] exI [of _ ?b], simp)
    next
      case False
      then have e: "e \<le> length d" using 1(8) by simp
      have w: "wire_block C d (bh_number h) ?b"
        using wire_block_new [OF 1(1,2) l 1(3) e _ False] 1(5) False by simp
      have ix: "index_ok C d p b0 (bl @ [(bh_number h, ?b)]) ?B" using B(1) hk w by (auto simp: index_ok_def)
      have ch: "chained 1 (bn_blocks ?B) e"
        using B(2) lt new_block_range [OF lt(2,3), of h] by (auto simp: chained_append)
      show ?thesis
      proof (cases fin)
        case True
        then have n: "bh_number h = 1" "blk_type ?b = Payload"
          using 1(7) header_number [OF ok] by (auto simp: new_block_def)
        have "P' = R\<lparr>bp_state := PDone\<rparr>" "length d = Suc e" "d ! e = 0xFF" using 1(8) False True by auto
        then show ?thesis
          using R kn ix ch w n True unfolding blocks_done_def
          by (clarsimp simp del: not_None_eq) (intro exI [of _ bl] exI [of _ ?b], simp)
      next
        case False
        then have n: "bh_number h \<noteq> 1" using 1(7) header_number [OF ok] by auto
        have "P' = R\<lparr>bp_state := PBlocks e\<rparr>" "offset' = e" using 1(8) \<open>\<not> length d < _\<close> False by auto
        then show ?thesis
          using R kn ix ch e B(3) n False unfolding blocks_inv_def by (auto intro!: exI [of _ "bl @ [(bh_number h, ?b)]"])
      qed
    qed
  qed
qed

text \<open>The loop stops, without a panic, in a state of the invariant.\<close>

lemma parse_blocks_inv:
  assumes "blocks_inv C d p b0 offset P" and "length d \<le> usize_max"
  shows "\<exists>r P'. parse_blocks X C F d offset P = Some (r, P') \<and>
    (case r of Inl e \<Rightarrow> \<exists>k. blocks_inv C d p b0 k P' | Inr _ \<Rightarrow> blocks_done C d p b0 P')"
  using assms
proof (induction X C F d offset P rule: parse_blocks.induct)
  case (1 X C F d offset P)
  obtain B where B: "bp_bundle P = Some B" using 1(2) by (auto simp: blocks_inv_def)
  obtain r where r: "parse_block X C F d offset B P = Some r" using parse_block_total by blast
  show ?case
  proof (cases r)
    case (Inl e)
    then have "parse_blocks X C F d offset P = Some (Inl e, P)" using B r by (simp add: parse_blocks.simps)
    then show ?thesis using 1(2) by auto
  next
    case (Inr q)
    obtain fin o' P' where q: "parse_block X C F d offset B P = Some (Inr (fin, o', P'))" using r Inr by (cases q) auto
    have i: "if fin then blocks_done C d p b0 P' else blocks_inv C d p b0 o' P'"
      by (rule parse_block_inv [OF q 1(2) B 1(3)])
    have u: "parse_blocks X C F d offset P = (if fin then Some (Inr o', P') else parse_blocks X C F d o' P')"
      by (subst parse_blocks.simps) (simp add: B q)
    show ?thesis
    proof (cases fin)
      case True
      then show ?thesis using u i by simp
    next
      case False
      then show ?thesis using 1(1) [OF B q refl refl refl False _ 1(3)] u i by simp
    qed
  qed
qed

text \<open>The primary block of a bundle, at the front of it.\<close>

definition primary_at :: "text_ops \<Rightarrow> crc_ops \<Rightarrow> float_ops \<Rightarrow> bytes \<Rightarrow> primary_block \<Rightarrow> block \<Rightarrow> bool" where
  "primary_at X C F d p b0 \<longleftrightarrow> blk_start b0 = 1 \<and> 1 < blk_end b0 \<and> blk_type b0 = Primary \<and> \<not> primary_flags_bad p \<and>
    primary_from_cbor X C F (drop 1 d) = Inr (p, True, blk_end b0 - 1)"

lemma parse_primary_inv:
  assumes "parse_primary X C F d 1 P = r" and "length d \<le> usize_max" and "takes (primary_from_cbor X C F)"
    and "bp_pending_bibs P = []" and "bp_bcbs P = []" and "d \<noteq> []"
  shows "(\<exists>e. r = Some (Inl e, P)) \<or>
    (\<exists>p b0 q P'. primary_at X C F d p b0 \<and> r = Some (q, P') \<and>
      (case q of Inl e \<Rightarrow> \<exists>k. blocks_inv C d p b0 k P' | Inr _ \<Rightarrow> blocks_done C d p b0 P'))"
proof -
  have "1 \<le> length d" using assms(6) by (cases d) auto
  then obtain x where x: "parse_canonical_at bp_of_cbor id (primary_from_cbor X C F) d 1 ''primary block'' = Some x"
    by (cases "parse_canonical_at bp_of_cbor id (primary_from_cbor X C F) d 1 ''primary block''") simp_all
  show ?thesis
  proof (cases x)
    case (Inl e)
    then show ?thesis using assms(1) x by (auto simp: parse_primary_def)
  next
    case (Inr q)
    obtain p offset where q: "parse_canonical_at bp_of_cbor id (primary_from_cbor X C F) d 1 ''primary block'' = Some (Inr (p, offset))"
      using x Inr by (cases q) auto
    have m: "1 < offset" "offset \<le> length d" using parse_canonical_at_moves [OF q assms(3)] by auto
    have pd: "primary_from_cbor X C F (drop 1 d) = Inr (p, True, offset - 1)"
      using q unfolding parse_canonical_at_Inr by (auto dest: untagged_Inr)
    show ?thesis
    proof (cases "primary_flags_bad p")
      case True
      then show ?thesis using assms(1) q by (auto simp: parse_primary_def)
    next
      case False
      let ?B = "bundle_of_primary p 1 offset"
      let ?P = "P\<lparr>bp_bundle := Some ?B, bp_state := PBlocks offset\<rparr>" and ?b = "snd (hd (bn_blocks ?B))"
      have e: "blk_start ?b = 1" "blk_end ?b = offset" "blk_type ?b = Primary"
        using m assms(2) by (simp_all add: bundle_of_primary_def blk_start_def blk_end_def unat_of_nat_length)
      have "primary_at X C F d p ?b" using e m pd False by (simp add: primary_at_def)
      moreover have "blocks_inv C d p ?b offset ?P"
        using e m assms(4,5) by (simp add: blocks_inv_def bpsec_known_def index_ok_def bundle_of_primary_def hm_ok_def)
      then have "\<exists>q P'. parse_blocks X C F d offset ?P = Some (q, P') \<and>
          (case q of Inl e \<Rightarrow> \<exists>k. blocks_inv C d p ?b k P' | Inr _ \<Rightarrow> blocks_done C d p ?b P')"
        using assms(2) by (rule parse_blocks_inv)
      moreover have "r = parse_blocks X C F d offset ?P"
        using assms(1) q False by (simp add: parse_primary_def)
      ultimately show ?thesis by auto
    qed
  qed
qed

end
