(* ===== verification/Bpv7_Bounds.thy ===== *)
theory Bpv7_Bounds
  imports Bpv7_Frame
begin

text \<open>
  The decoders below the parser stay inside their slice: each takes at least one byte and never
  more than there are.
\<close>

section \<open>Cursors that move forward inside their slice\<close>

definition walks :: "series \<Rightarrow> series \<Rightarrow> bool" where
  "walks s s' \<longleftrightarrow> sr_data s' = sr_data s \<and> sr_offset s \<le> sr_offset s' \<and>
    (sr_offset s \<le> length (sr_data s) \<longrightarrow> sr_offset s' \<le> length (sr_data s))"

lemma walks_refl [simp]: "walks s s"
  by (simp add: walks_def)

lemma walks_trans: "walks s s' \<Longrightarrow> walks s' s'' \<Longrightarrow> walks s s''"
  by (auto simp: walks_def)

lemma at_end_walks: "at_end D s = Inr (e, s') \<Longrightarrow> walks s s'"
  using at_end_mono [of D s e s'] at_end_bounds [of D s e s'] by (auto simp: walks_def)

lemma advance_walks: "n \<le> length (drop (sr_offset s) (sr_data s)) \<Longrightarrow> walks s (series_advance n s)"
  by (auto simp: walks_def)

lemma takes_untagged: "takes fc \<Longrightarrow> takes (untagged conv fc)"
  unfolding takes_def by (blast dest: untagged_Inr)

lemma takes_flagged: "takes fc \<Longrightarrow> takes (with_shortest fc)" "takes fc \<Longrightarrow> takes (with_shortest_len fc)"
  by (fastforce simp: takes_def with_shortest_def with_shortest_len_def and_then_Inr)+

lemma takes_u64: "takes (u64_from_cbor F)"
  by (auto simp: takes_def dest: u64_from_cbor_len)

lemma series_parse_walks:
  assumes "series_parse conv D fc s = Inr (x, s')" and "takes fc"
  shows "walks s s'"
proof -
  obtain e s1 where a: "at_end D s = Inr (e, s1)" using assms(1) by (auto simp: series_parse_def and_then_Inr)
  then obtain sh n where "fc (drop (sr_offset s1) (sr_data s1)) = Inr (x, sh, n)" and s': "s' = series_advance n s1"
    using assms(1) by (auto simp: series_parse_def and_then_Inr split: if_splits)
  then have "n \<le> length (drop (sr_offset s1) (sr_data s1))" using assms(2) unfolding takes_def by blast
  then show ?thesis using walks_trans [OF at_end_walks [OF a] advance_walks] s' by blast
qed

lemma series_try_parse_walks:
  assumes "series_try_parse conv D fc s = Inr (x, s')" and "takes fc"
  shows "walks s s'"
proof -
  obtain e s1 where a: "at_end D s = Inr (e, s1)" using assms(1) by (auto simp: series_try_parse_def and_then_Inr)
  have "walks s1 s'"
    using assms a by (auto simp: series_try_parse_def and_then_Inr split: if_splits dest: series_parse_walks)
  then show ?thesis using at_end_walks [OF a] walks_trans by blast
qed

section \<open>Values\<close>

lemma gather_chunks_bounds:
  "gather_chunks F b d sh off cs = Inr (cs', sh', n) \<Longrightarrow> off < n \<and> n \<le> length d"
proof (induction F b d sh off cs rule: gather_chunks.induct)
  case (1 F b d sh off cs)
  show ?case
  proof (cases "off < length d \<and> d ! off = 0xFF")
    case True
    with "1.prems" show ?thesis by (subst (asm) gather_chunks.simps) auto
  next
    case False
    with "1.prems" obtain h s len l a e where
      h: "head_from_cbor F (drop off d) = Inr (h, s, len)"
      and ov: "checked_add off len = Some (off + len)" and c: "chunk_len b h = Some l"
      and x: "offset_extent d (off + len) l = Inr (a, e)" and u: "b \<or> utf8_valid (slice d (a, e))"
      and k: "gather_chunks F b d (sh \<and> s) e (cs @ [(a, e)]) = Inr (cs', sh', n)"
      by (subst (asm) gather_chunks.simps)
        (auto simp: and_then_Inr checked_add_Some split: option.splits if_splits)
    have "e < n \<and> n \<le> length d" using "1.IH" [OF False h refl refl ov c x refl u k] .
    with offset_extent_bounds [OF x] head_from_cbor_len [OF h] show ?thesis by simp
  qed
qed

text \<open>A closure that leaves a nested cursor inside its slice.\<close>

definition keeps_cursor :: "('e, 'a) closure \<Rightarrow> bool" where
  "keeps_cursor f \<longleftrightarrow> (\<forall>a sh tags r v. f (VArray a) sh tags = Inr (r, v) \<longrightarrow> walks a (series_of v a)) \<and>
    (\<forall>a sh tags r v. f (VMap a) sh tags = Inr (r, v) \<longrightarrow> walks a (series_of v a))"

lemma nested_bounds:
  assumes "series_try_new D d count off = Inr s" and "walks s s1" and "series_complete D s1 r = Inr (r', s2)"
    and "1 \<le> off" and "off \<le> length d"
  shows "1 \<le> sr_offset s2 \<and> sr_offset s2 \<le> length d"
proof -
  obtain e where "at_end D s1 = Inr (e, s2)"
    using assms(3) by (auto simp: series_complete_def and_then_Inr split: if_splits)
  then have "walks s s2" using walks_trans [OF assms(2) at_end_walks] by blast
  then show ?thesis using series_try_new_fields [OF assms(1)] assms(4,5) by (auto simp: walks_def)
qed

lemma parse_value_takes:
  assumes "parse_value conv F f d = Inr (x, n)" and "keeps_cursor f"
  shows "1 \<le> n \<and> n \<le> length d"
proof -
  obtain h sh off where h: "head_from_cbor F d = Inr (h, sh, off)"
    using assms(1) by (auto simp: parse_value_def and_then_Inr)
  note b = head_from_cbor_len [OF h]
  note k = assms(1) [unfolded parse_value_def h map_err_simps and_then_simps prod.case Let_def]
  have ka: "f (VArray a) sh (head_tags h) = Inr (r, v) \<Longrightarrow> walks a (series_of v a)"
    "f (VMap a) sh (head_tags h) = Inr (r, v) \<Longrightarrow> walks a (series_of v a)" for a r v
    using assms(2) unfolding keeps_cursor_def by blast+
  show ?thesis
  proof (cases "head_marker h")
    case (Bytes l)
    then show ?thesis
      using k b by (cases l) (auto simp: and_then_Inr dest!: offset_extent_bounds gather_chunks_bounds)
  next
    case (Text l)
    then show ?thesis
      using k b by (cases l) (auto simp: and_then_Inr split: if_splits dest!: offset_extent_bounds gather_chunks_bounds)
  next
    case (Array count)
    then obtain s r v q s2 where a: "series_try_new 1 d count off = Inr s" "f (VArray s) sh (head_tags h) = Inr (r, v)"
      "series_complete 1 (series_of v s) r = Inr (q, s2)" "n = sr_offset s2"
      using k by (auto simp: and_then_Inr simp del: One_nat_def series_try_new_array)
    show ?thesis using nested_bounds [OF a(1) ka(1) [OF a(2)] a(3)] b a(4) by simp
  next
    case (Map count)
    then obtain s r v q s2 where a: "series_try_new 2 d count off = Inr s" "f (VMap s) sh (head_tags h) = Inr (r, v)"
      "series_complete 2 (series_of v s) r = Inr (q, s2)" "n = sr_offset s2"
      using k by (auto simp: and_then_Inr)
    show ?thesis using nested_bounds [OF a(1) ka(2) [OF a(2)] a(3)] b a(4) by simp
  qed (use k b in \<open>auto simp: and_then_Inr\<close>)
qed

lemma series_parse_value_walks:
  assumes "series_parse_value conv F D f s = Inr (x, s')" and "keeps_cursor f"
  shows "walks s s'"
proof -
  obtain e s1 where a: "at_end D s = Inr (e, s1)" using assms(1) by (auto simp: series_parse_value_def and_then_Inr)
  then obtain n where p: "parse_value conv F f (drop (sr_offset s1) (sr_data s1)) = Inr (x, n)" and s': "s' = series_advance n s1"
    using assms(1) by (auto simp: series_parse_value_def and_then_Inr split: if_splits)
  show ?thesis
    using walks_trans [OF at_end_walks [OF a] advance_walks] parse_value_takes [OF p assms(2)] s' by blast
qed

lemma series_try_parse_value_walks:
  assumes "series_try_parse_value conv F D f s = Inr (x, s')" and "keeps_cursor f"
  shows "walks s s'"
proof -
  obtain e s1 where a: "at_end D s = Inr (e, s1)" using assms(1) by (auto simp: series_try_parse_value_def and_then_Inr)
  have "walks s1 s'"
    using assms a by (auto simp: series_try_parse_value_def and_then_Inr split: if_splits dest: series_parse_value_walks)
  then show ?thesis using at_end_walks [OF a] walks_trans by blast
qed

lemma parse_array_takes:
  assumes "parse_array conv F f d = Inr (x, n)" and "\<And>s sh tags r s'. f s sh tags = Inr (r, s') \<Longrightarrow> walks s s'"
  shows "1 \<le> n \<and> n \<le> length d"
proof -
  obtain count sh tags off a' s where
    h: "head_from_cbor F d = Inr (\<lparr>head_tags = tags, head_marker = Array count\<rparr>, sh, off)"
    and f: "f (series_new d (map_option unat count) off) sh tags = Inr (x, a')"
    and e: "at_end 1 a' = Inr (True, s)" "n = sr_offset s"
    using parse_array_Inr [OF assms(1)] by blast
  have "walks (series_new d (map_option unat count) off) s"
    using walks_trans [OF assms(2) [OF f] at_end_walks [OF e(1)]] .
  then show ?thesis using head_from_cbor_len [OF h] e(2) by (auto simp: walks_def)
qed

section \<open>Endpoints, timestamps and the primary block\<close>

lemmas walk_rules = series_parse_walks [OF _ takes_flagged(1) [OF takes_untagged]]
  series_try_parse_walks [OF _ takes_flagged(2) [OF takes_untagged]]

lemma require_canonical_walks:
  assumes "require_canonical conv into fld D fc s field nc = Inr (x, s')" and "takes fc"
  shows "walks s s'"
  using assms walk_rules(1) [of conv D conv fc s _ s']
  by (auto simp: require_canonical_def split: sum.splits if_splits)

lemma parse_item_walks:
  assumes "parse_item conv into fc s field = Inr (x, s')" and "takes fc"
  shows "walks s s'"
  using assms walk_rules(1) [of conv 1 conv fc s x s']
  by (simp add: parse_item_def map_field_err_def del: One_nat_def)

lemma takes_newtype: "takes (bundle_flags_from_cbor F)" "takes (crc_type_from_cbor F)" "takes (dtn_time_from_cbor F)"
  by (auto simp: takes_def dest: bundle_flags_codec.decoded_flag crc_type_codec.decoded_flag dtn_time_codec.decoded_flag)

lemma ipn_from_cbor_walks:
  assumes "ipn_from_cbor F s c = Inr (x, s')"
  shows "walks s s'"
proof -
  obtain a s1 b s2 y where 1: "series_parse id 1 (with_shortest (untagged id (u64_from_cbor F))) s = Inr (a, s1)"
    and 2: "series_parse id 1 (with_shortest (untagged id (u64_from_cbor F))) s1 = Inr (b, s2)"
    and 3: "series_try_parse id 1 (with_shortest_len (untagged id (u64_from_cbor F))) s2 = Inr (y, s')"
    using assms by (fastforce simp: ipn_from_cbor_def and_then_Inr split_beta simp del: One_nat_def split: if_splits)
  show ?thesis
    using walks_trans [OF walk_rules(1) [OF 1 takes_u64] walks_trans [OF walk_rules(1) [OF 2 takes_u64]
        walk_rules(2) [OF 3 takes_u64]]] .
qed

lemma ssp_keeps: "keeps_cursor (dtn_ssp X c)" "keeps_cursor (ipn_ssp F c)"
  by (auto simp: keeps_cursor_def dtn_ssp_def ipn_ssp_def series_of_def and_then_Inr split: if_splits
      dest: ipn_from_cbor_walks)

lemma relabel_Inr: "relabel_ipn r = Inr x \<longleftrightarrow> r = Inr x"
  by (auto simp: relabel_ipn_def split: sum.splits eid_error.splits)

lemma skip_walks: "series_skip_value F D s r = Inr (sh, s') \<Longrightarrow> walks s s'"
proof -
  assume a: "series_skip_value F D s r = Inr (sh, s')"
  obtain e s1 where e: "at_end D s = Inr (e, s1)" using a by (auto simp: series_skip_value.simps and_then_Inr)
  then obtain sh n where k: "skip_value F (drop (sr_offset s1) (sr_data s1)) r = Inr (sh, n)" "s' = series_advance n s1"
    using a by (auto simp: series_skip_value.simps and_then_Inr split: if_splits)
  have "n \<le> length (drop (sr_offset s1) (sr_data s1))" using skip_bounds(1) k(1) by blast
  then show ?thesis using walks_trans [OF at_end_walks [OF e] advance_walks] k(2) by blast
qed

lemma eid_body_walks:
  assumes "eid_body X F d a sh tags = Inr (x, a')"
  shows "walks a a'"
proof -
  obtain y a1 where 1: "series_parse id 1 (with_shortest (untagged id (u64_from_cbor F))) a = Inr (y, a1)"
    using assms by (auto simp: eid_body_def Let_def map_field_err_def and_then_Inr simp del: One_nat_def split: if_splits)
  have "(\<exists>c z. series_parse_value eid_of_cbor F 1 (dtn_ssp X c) a1 = Inr (z, a')) \<or>
      (\<exists>c z. series_parse_value eid_of_cbor F 1 (ipn_ssp F c) a1 = Inr (z, a')) \<or>
      (\<exists>z. series_skip_value F 1 a1 16 = Inr (z, a'))"
    using assms 1
    by (cases x) (auto simp: eid_body_def Let_def map_field_err_def and_then_Inr relabel_Inr split_beta
        simp del: One_nat_def split: if_splits)
  then have "walks a1 a'"
  proof (elim disjE exE)
    fix z assume "series_skip_value F 1 a1 16 = Inr (z, a')"
    then show "walks a1 a'" using skip_walks by blast
  qed (blast intro: series_parse_value_walks [OF _ ssp_keeps(1)] series_parse_value_walks [OF _ ssp_keeps(2)])+
  then show ?thesis using walk_rules(1) [OF 1 takes_u64] walks_trans by blast
qed

lemma takes_eid: "takes (eid_from_cbor X F)"
  unfolding takes_def eid_from_cbor_def
  by (auto simp: and_then_Inr dest: parse_array_takes [OF _ eid_body_walks])

lemma require_u64_walks: "require_u64 F s field = Inr (x, s') \<Longrightarrow> walks s s'"
  by (rule require_canonical_walks [OF _ takes_u64])

lemma timestamp_step_walks:
  "series_parse bp_of_cbor 1 (dtn_time_from_cbor F) s = Inr (t, s1) \<Longrightarrow> require_u64 F s1 field = Inr (n, s') \<Longrightarrow> walks s s'"
  by (rule walks_trans [OF series_parse_walks [OF _ takes_newtype(3)] require_u64_walks])

lemma takes_timestamp: "takes (timestamp_from_cbor F)"
  unfolding takes_def timestamp_from_cbor_def
  by (auto simp: and_then_Inr map_field_err_def simp del: One_nat_def split: if_splits dest!: parse_array_takes
      dest: timestamp_step_walks)

lemma primary_crc_walks:
  assumes "primary_crc C F d t s = Inr s'"
  shows "walks s s'"
proof -
  obtain v s1 e s2 where 1: "series_try_parse_value bp_of_cbor F 1 (crc_range (sr_offset s)) s = Inr (v, s1)"
    and 2: "at_end 1 s1 = Inr (e, s2)"
    using assms by (auto simp: primary_crc_def and_then_Inr)
  have "s' = s2"
    using assms 1 2
    by (cases t; cases v) (auto simp: primary_crc_def and_then_Inr Let_def simp del: One_nat_def split: if_splits)
  moreover have "keeps_cursor (crc_range (sr_offset s))" by (auto simp: keeps_cursor_def crc_range_def split: if_splits)
  ultimately show ?thesis
    using walks_trans [OF series_try_parse_value_walks [OF 1] at_end_walks [OF 2]] by simp
qed

lemma primary_fragment_walks:
  assumes "primary_fragment F fl s = Inr (x, s')"
  shows "walks s s'"
proof (cases "is_fragment fl")
  case True
  then obtain a s1 b where "require_u64 F s ''fragment offset'' = Inr (a, s1)" "require_u64 F s1 ''total adu length'' = Inr (b, s')"
    using assms by (auto simp: primary_fragment_def and_then_Inr split: if_splits)
  then show ?thesis by (blast intro: walks_trans dest: require_u64_walks)
qed (use assms in \<open>simp add: primary_fragment_def\<close>)

lemma primary_body_walks:
  assumes "primary_body X C F d s sh tags = Inr (x, s')"
  shows "walks s s'"
proof -
  note assms [unfolded primary_body_def Let_def]
  then obtain v0 v1 v2 v3 v4 v5 v6 v7 v8 s0 s1 s2 s3 s4 s5 s6 s7 s8 where
    "require_u64 F s ''version'' = Inr (v0, s0)"
    "require_canonical bp_of_cbor id InvalidField 1 (bundle_flags_from_cbor F) s0 ''bundle processing control flags'' NotCanonical = Inr (v1, s1)"
    "require_canonical bp_of_cbor id InvalidField 1 (crc_type_from_cbor F) s1 ''crc type'' NotCanonical = Inr (v2, s2)"
    "parse_item eid_of_cbor InvalidEid (eid_from_cbor X F) s2 ''destination endpoint id'' = Inr (v3, s3)"
    "parse_item eid_of_cbor InvalidEid (eid_from_cbor X F) s3 ''source endpoint id'' = Inr (v4, s4)"
    "parse_item eid_of_cbor InvalidEid (eid_from_cbor X F) s4 ''report-to endpoint id'' = Inr (v5, s5)"
    "parse_item bp_of_cbor id (timestamp_from_cbor F) s5 ''timestamp'' = Inr (v6, s6)"
    "require_u64 F s6 ''lifetime'' = Inr (v7, s7)"
    "primary_fragment F v1 s7 = Inr (v8, s8)"
    "primary_crc C F d v2 s8 = Inr s'"
    by (simp add: and_then_Inr map_field_err_def split_beta split: if_splits) (elim exE conjE, simp)
  note w = this
  have "walks s s2"
    using require_u64_walks [OF w(1)] require_canonical_walks [OF w(2) takes_newtype(1)]
      require_canonical_walks [OF w(3) takes_newtype(2)] walks_trans by blast
  moreover have "walks s2 s6"
    using parse_item_walks [OF w(4) takes_eid] parse_item_walks [OF w(5) takes_eid] parse_item_walks [OF w(6) takes_eid]
      parse_item_walks [OF w(7) takes_timestamp] walks_trans by blast
  moreover have "walks s6 s'"
    using require_u64_walks [OF w(8)] primary_fragment_walks [OF w(9)] primary_crc_walks [OF w(10)] walks_trans by blast
  ultimately show ?thesis using walks_trans by blast
qed

lemma takes_primary: "takes (primary_from_cbor X C F)"
  unfolding takes_def primary_from_cbor_def
  by (auto simp: and_then_Inr dest: parse_array_takes [OF _ primary_body_walks])

end
