(* ===== verification/Bpv7_Primary_Crc.thy ===== *)
theory Bpv7_Primary_Crc
  imports Bpv7_Bounds
begin

unbundle bit_operations_syntax

text \<open>
  What the checksum of an accepted primary block covers: exactly the bytes that were consumed, with
  the checksum value, which is the last field, read as zeros. Every slice the check takes lies inside
  the bytes of the block.
\<close>

section \<open>The end of the array\<close>

text \<open>A step that reads a field leaves the count of its array alone.\<close>

definition same_count :: "series \<Rightarrow> series \<Rightarrow> bool" where
  "same_count s s' \<longleftrightarrow> sr_count s' = sr_count s"

lemma same_count_trans: "same_count s s' \<Longrightarrow> same_count s' s'' \<Longrightarrow> same_count s s''"
  by (simp add: same_count_def)

lemma at_end_not: "at_end D s = Inr (False, s') \<Longrightarrow> s' = s"
  by (auto simp: at_end_def split: option.splits if_splits)

lemma series_parse_count: "series_parse conv D fc s = Inr (x, s') \<Longrightarrow> same_count s s'"
  by (auto simp: series_parse_def and_then_Inr same_count_def series_advance_def split: if_splits dest!: at_end_not)

lemma require_canonical_count: "require_canonical conv into fld D fc s field nc = Inr (x, s') \<Longrightarrow> same_count s s'"
  by (auto simp: require_canonical_def split: sum.splits if_splits dest!: series_parse_count)

lemma parse_item_count: "parse_item conv into fc s field = Inr (x, s') \<Longrightarrow> same_count s s'"
  by (auto simp: parse_item_def map_field_err_def dest!: series_parse_count)

lemma primary_fragment_count: "primary_fragment F fl s = Inr (x, s') \<Longrightarrow> same_count s s'"
  by (auto simp: primary_fragment_def and_then_Inr same_count_def split: if_splits
      dest!: require_canonical_count [unfolded same_count_def])

text \<open>An array of known length ends with its last item, an indefinite one with the break byte.\<close>

lemma array_end:
  assumes "at_end 1 s = Inr (e, s1)" and "at_end 1 s1 = Inr (True, s2)"
  shows "s2 = s1 \<and> sr_data s1 = sr_data s \<and>
    (if sr_count s = None
     then sr_offset s < length (sr_data s) \<and> sr_data s ! sr_offset s = 0xFF \<and> sr_offset s1 = sr_offset s + 1
     else s1 = s)"
  using assms by (auto simp: at_end_def split: option.splits if_splits)

lemma array_head_byte:
  assumes "head_from_cbor F d = Inr (\<lparr>head_tags = [], head_marker = Array count\<rparr>, True, n)" and "length d \<le> usize_max"
  shows "hd d = 0x9F \<longleftrightarrow> count = None"
proof -
  have r: "head_ref F d = Inr (\<lparr>head_tags = [], head_marker = Array count\<rparr>, True, n)"
    using assms by (simp add: head_from_cbor_ref)
  then obtain m ds where d: "d = m # ds" by (cases d) auto
  show ?thesis
  proof (cases count)
    case None
    have "major_of m \<noteq> 6"
      using r unfolding d
      by (auto simp: head_ref.simps(2) and_then_Inr dest!: arg_cong [where f = head_tags] split: if_splits)
    then have "major_of m = 4 \<and> minor_of m = 31"
      using r unfolding d None
      by (auto simp: head_ref.simps(2) parse_marker_slow_def Let_def and_then_Inr parse_simple_def head_of_major_def
          split: if_splits list.splits)
    then have "m = push_bit 5 4 OR 31" using initial_byte_split [of m] by simp
    then show ?thesis using d None by simp
  next
    case (Some c)
    have "take n d = head_bytes 4 c" using head_ref_canonical [OF r] Some by simp
    then have "hd d = hd (head_bytes 4 c)" using head_bytes_nonempty(1) [of 4 c] by (cases n) (auto simp: d dest: arg_cong [where f = hd])
    moreover have "hd (head_bytes 4 c) \<noteq> 0x9F"
    proof -
      have "major_of 0x9F = 4 \<and> minor_of 0x9F = 31" by (simp add: major_of_def minor_of_def)
      moreover have "minor_of (hd (head_bytes 4 c)) \<noteq> 31"
      proof (cases "c < 24")
        case True
        then have "unat (ucast c :: byte) < 24"
          by (simp add: unsigned_ucast_eq take_bit_eq_mod word_less_nat_alt)
        then have "(ucast c :: byte) < 24" by (simp add: word_less_nat_alt)
        then show ?thesis
          using True major_of_head(2) [of 4 "ucast c"] by (auto simp: head_bytes_cases word_less_nat_alt)
      next
        case False
        then show ?thesis
          using major_of_head(2) [of 4 24] major_of_head(2) [of 4 25] major_of_head(2) [of 4 26] major_of_head(2) [of 4 27]
          by (simp add: head_bytes_cases)
      qed
      ultimately show ?thesis by metis
    qed
    ultimately show ?thesis using Some by simp
  qed
qed

section \<open>The checked bytes\<close>

text \<open>The checksum of a byte string under a CRC type, as the bytes that are stored; none for a type that
  has no checksum.\<close>

definition checksum :: "crc_ops \<Rightarrow> CrcType \<Rightarrow> bytes \<Rightarrow> bytes option" where
  "checksum C t bs =
    (case t of
       CRC16_X25 \<Rightarrow> Some (to_be_bytes (crc_x25 C bs))
     | CRC32_CASTAGNOLI \<Rightarrow> Some (to_be_bytes (crc_castagnoli C bs))
     | _ \<Rightarrow> None)"

lemma checksum_cases:
  "checksum C t bs = Some v \<Longrightarrow>
    case t of CRC16_X25 \<Rightarrow> v = to_be_bytes (crc_x25 C bs)
    | CRC32_CASTAGNOLI \<Rightarrow> v = to_be_bytes (crc_castagnoli C bs) | _ \<Rightarrow> False"
  by (cases t) (auto simp: checksum_def)

text \<open>The first \<open>n\<close> bytes are the other fields, the head of a byte string of the length of the checksum,
  the stored value, and the break when the array is an indefinite one. The stored value is the checksum
  of all of them with zeros in its place.\<close>

definition crc_checked :: "crc_ops \<Rightarrow> CrcType \<Rightarrow> bytes \<Rightarrow> nat \<Rightarrow> bool" where
  "crc_checked C t d n \<longleftrightarrow> n \<le> length d \<and> (\<exists>pre value.
    take n d = pre @ [0x40 OR of_nat (length value)] @ value @ (if hd d = 0x9F then [0xFF] else []) \<and>
    checksum C t (pre @ [0x40 OR of_nat (length value)] @ replicate (length value) 0 @
      (if hd d = 0x9F then [0xFF] else [])) = Some value)"

lemma parse_crc_range:
  assumes "parse_value bp_of_cbor F (crc_range k) d = Inr (c, n)" and "length d \<le> usize_max"
  obtains len where "n = length (head_bytes 2 len) + unat len" "n \<le> length d"
    "take (length (head_bytes 2 len)) d = head_bytes 2 len" "c = (k + length (head_bytes 2 len), k + n)"
proof -
  obtain h sh off where h: "head_from_cbor F d = Inr (h, sh, off)"
    using assms(1) by (auto simp: parse_value_def and_then_Inr)
  note p = assms(1) [unfolded parse_value_def h map_err_simps and_then_simps prod.case Let_def]
  obtain len a e where m: "head_marker h = Bytes (Some len)" "offset_extent d off len = Inr (a, e)"
      "sh" "head_tags h = []" "c = (a + k, e + k)" "n = e"
    using p by (auto simp: crc_range_def and_then_Inr split: marker.splits option.splits if_splits prod.splits)
  have "take off d = head_bytes 2 len"
    using head_ref_canonical [of F d h off] h m assms(2) by (simp add: head_from_cbor_ref)
  moreover have "off \<le> length d" using head_from_cbor_len [OF h] by simp
  ultimately have off: "off = length (head_bytes 2 len)" by (metis length_take min.absorb2)
  moreover have "a = off" "e = off + unat len" "e \<le> length d"
    using m(2) by (auto simp: offset_extent_def usize_try_from_def checked_add_def split: option.splits if_splits)
  ultimately show thesis using that [of len] m(5,6) \<open>take off d = _\<close> by (simp add: add.commute)
qed

text \<open>What the check has read and compared.\<close>

lemma primary_crc_compares:
  assumes "primary_crc C F d t s = Inr s'" and "t \<noteq> NoCrc"
  obtains c m e where
    "parse_value bp_of_cbor F (crc_range (sr_offset s)) (drop (sr_offset s) (sr_data s)) = Inr (c, m)"
    "at_end 1 (series_advance m s) = Inr (e, s')"
    "checksum C t (slice d (0, fst c) @ replicate (length (slice d c)) 0 @ slice d (snd c, sr_offset s')) = Some (slice d c)"
    "length (slice d c) \<in> {2, 4}"
proof -
  obtain v s1 e s2 where 1: "series_try_parse_value bp_of_cbor F 1 (crc_range (sr_offset s)) s = Inr (v, s1)"
    and e: "at_end 1 s1 = Inr (e, s2)"
    using assms(1) by (auto simp: primary_crc_def and_then_Inr)
  note k = assms(1) [unfolded primary_crc_def 1 e and_then_simps prod.case map_err_simps]
  obtain c where v: "v = Some c" using k assms(2) by (cases t; cases v) auto
  have s': "s' = s2" using k assms(2) v by (cases t) (auto simp: digest_new_def Let_def split: if_splits)
  obtain m where p: "parse_value bp_of_cbor F (crc_range (sr_offset s)) (drop (sr_offset s) (sr_data s)) = Inr (c, m)"
      "s1 = series_advance m s"
    using 1 v by (auto simp: series_try_parse_value_def series_parse_value_def and_then_Inr split: if_splits dest!: at_end_not)
  consider "t = CRC16_X25" "slice d c = to_be_bytes (crc_x25 C (slice d (0, fst c) @ replicate 2 0 @ slice d (snd c, sr_offset s2)))"
    | "t = CRC32_CASTAGNOLI" "slice d c = to_be_bytes (crc_castagnoli C (slice d (0, fst c) @ replicate 4 0 @ slice d (snd c, sr_offset s2)))"
    using k assms(2) v by (cases t) (auto simp: digest_new_def Let_def digest_verify_iff split: if_splits)
  then have l: "length (slice d c) \<in> {2, 4}"
      "checksum C t (slice d (0, fst c) @ replicate (length (slice d c)) 0 @ slice d (snd c, sr_offset s')) = Some (slice d c)"
    by (cases; simp add: checksum_def s')+
  show thesis by (rule that [OF p(1) _ l(2,1), of e]) (use e p(2) s' in simp)
qed

lemma short_head: "len = 2 \<or> len = 4 \<Longrightarrow> head_bytes 2 len = [0x40 OR ucast len]"
  by (auto simp: head_bytes_cases)

lemma primary_crc_sound:
  assumes "primary_crc C F d t s = Inr s'" and "t \<noteq> NoCrc" and fin: "at_end 1 s' = Inr (True, s'')"
    and d: "sr_data s = d" "length d \<le> usize_max" "sr_offset s \<le> length d" and indef: "hd d = 0x9F \<longleftrightarrow> sr_count s = None"
  shows "crc_checked C t d (sr_offset s'')"
proof -
  obtain c m e where p: "parse_value bp_of_cbor F (crc_range (sr_offset s)) (drop (sr_offset s) d) = Inr (c, m)"
    and e: "at_end 1 (series_advance m s) = Inr (e, s')"
    and crc: "checksum C t (slice d (0, fst c) @ replicate (length (slice d c)) 0 @ slice d (snd c, sr_offset s')) = Some (slice d c)"
    and two: "length (slice d c) \<in> {2, 4}"
    using primary_crc_compares [OF assms(1,2)] d(1) by metis
  define v where "v = slice d c"
  note crc = crc [folded v_def] and two = two [folded v_def]
  let ?o = "sr_offset s" and ?pre = "take (sr_offset s) d"
  let ?post = "if hd d = 0x9F then [0xFF] else []"
  obtain len where len: "m = length (head_bytes 2 len) + unat len" "m \<le> length (drop ?o d)"
      "take (length (head_bytes 2 len)) (drop ?o d) = head_bytes 2 len" "c = (?o + length (head_bytes 2 len), ?o + m)"
    by (rule parse_crc_range [OF p]) (use d(2) in simp)
  have vl: "length v = unat len" using len d(3) by (simp add: v_def slice_def)
  then have "len = 2 \<or> len = 4" using two by (auto simp: word_unat_eq_iff)
  then have hb: "head_bytes 2 len = [0x40 OR of_nat (length v)]"
    unfolding vl using short_head by auto
  have c: "c = (?o + 1, ?o + m)" "m = 1 + length v" using len(1,4) vl hb by simp_all
  have mid: "take m (drop ?o d) = [0x40 OR of_nat (length v)] @ v"
  proof -
    have "take m (drop ?o d) = take 1 (drop ?o d) @ take (length v) (drop 1 (drop ?o d))"
      unfolding c(2) by (rule take_add)
    moreover have "take 1 (drop ?o d) = [0x40 OR of_nat (length v)]" using len(3) hb by simp
    moreover have "take (length v) (drop 1 (drop ?o d)) = v"
    proof -
      have "v = take (m - 1) (drop (?o + 1) d)" unfolding v_def slice_def c(1) by simp
      moreover have "length v = m - 1" using c(2) by simp
      ultimately show ?thesis by (simp add: add.commute)
    qed
    ultimately show ?thesis by simp
  qed
  note a = array_end [OF e fin]
  have post: "take (sr_offset s' - (?o + m)) (drop (?o + m) d) = ?post \<and> ?o + m \<le> sr_offset s' \<and> sr_offset s' \<le> length d"
    using a d len(2) indef
    by (auto simp: series_advance_def take_Suc_conv_app_nth hd_drop_conv_nth take_Suc split: if_splits)
  have all: "take (sr_offset s') d = ?pre @ [0x40 OR of_nat (length v)] @ v @ ?post"
  proof -
    have "take (sr_offset s') d = take (?o + m) d @ take (sr_offset s' - (?o + m)) (drop (?o + m) d)"
      using post take_add [of "?o + m" "sr_offset s' - (?o + m)" d] by simp
    also have "take (?o + m) d = ?pre @ take m (drop ?o d)" by (rule take_add)
    finally show ?thesis using mid post by simp
  qed
  have s0: "slice d (0, fst c) = ?pre @ [0x40 OR of_nat (length v)]"
    using len(3) hb take_add [of ?o 1 d] by (simp add: slice_def c(1))
  have s1: "slice d (snd c, sr_offset s') = ?post" using post by (simp add: slice_def c(1))
  show ?thesis
    unfolding crc_checked_def
    using all crc [unfolded s0 s1] post a
    by (intro conjI exI [of _ ?pre] exI [of _ v]) simp_all
qed

section \<open>The whole block\<close>

lemma primary_body_crc:
  assumes "primary_body X C F d s sh tags = Inr ((p, c), s')"
  obtains s1 where "primary_crc C F d (pb_crc_type p) s1 = Inr s'" "walks s s1" "same_count s s1" "sh" "tags = []"
proof -
  note assms [unfolded primary_body_def Let_def]
  then obtain v0 v1 v2 v3 v4 v5 v6 v7 v8 s0 s1 s2 s3 s4 s5 s6 s7 s8 where
    "require_u64 F s ''version'' = Inr (v0, s0)"
    "require_canonical bp_of_cbor id InvalidField 1 (bundle_flags_from_cbor F) s0 ''bundle processing control flags'' NotCanonical = Inr (v1, s1)"
    "require_canonical bp_of_cbor id InvalidField 1 (crc_type_from_cbor F) s1 ''crc type'' NotCanonical = Inr (v2, s2)"
    "parse_item eid_of_cbor InvalidEid (eid_from_cbor X F) s2 ''destination endpoint id'' = Inr (v3, s3)"
    "parse_item eid_of_cbor InvalidEid (eid_from_cbor X F) s3 ''source endpoint id'' = Inr (v4, s4)"
    "parse_item eid_of_cbor InvalidEid (eid_from_cbor X F) s4 ''report-to endpoint id'' = Inr (v5, s5)"
    "parse_item bp_of_cbor id (timestamp_from_cbor F) s5 ''timestamp'' = Inr (v6, s6)"
    "require_u64 F s6 ''lifetime'' = Inr (v7, s7)"
    "primary_fragment F v1 s7 = Inr (v8, s8)"
    "primary_crc C F d v2 s8 = Inr s'" "pb_crc_type p = v2"
    by (simp add: and_then_Inr map_field_err_def split_beta split: if_splits) (elim exE conjE, simp, hypsubst, simp)
  note w = this
  have c: "same_count s s8"
    using require_canonical_count [OF w(1)] require_canonical_count [OF w(2)] require_canonical_count [OF w(3)]
      parse_item_count [OF w(4)] parse_item_count [OF w(5)] parse_item_count [OF w(6)] parse_item_count [OF w(7)]
      require_canonical_count [OF w(8)] primary_fragment_count [OF w(9)]
    by (simp add: same_count_def)
  have "walks s s2"
    using require_u64_walks [OF w(1)] require_canonical_walks [OF w(2) takes_newtype(1)]
      require_canonical_walks [OF w(3) takes_newtype(2)] walks_trans by blast
  moreover have "walks s2 s6"
    using parse_item_walks [OF w(4) takes_eid] parse_item_walks [OF w(5) takes_eid] parse_item_walks [OF w(6) takes_eid]
      parse_item_walks [OF w(7) takes_timestamp] walks_trans by blast
  moreover have "walks s6 s8" using require_u64_walks [OF w(8)] primary_fragment_walks [OF w(9)] walks_trans by blast
  ultimately have "walks s s8" using walks_trans by blast
  moreover have "sh" "tags = []" using assms by (simp_all add: primary_body_def split: if_splits)
  ultimately show thesis using that w(10,11) c by blast
qed

lemma primary_from_cbor_crc:
  assumes "primary_from_cbor X C F d = Inr (p, c, n)" and "pb_crc_type p \<noteq> NoCrc" and "length d \<le> usize_max"
  shows "crc_checked C (pb_crc_type p) d n"
proof -
  obtain h sh off where h: "head_from_cbor F d = Inr (h, sh, off)"
    using assms(1) by (auto simp: primary_from_cbor_def parse_array_def and_then_Inr)
  note k = assms(1) [unfolded primary_from_cbor_def parse_array_def h map_err_simps and_then_simps prod.case]
  obtain count where m: "head_marker h = Array count" using k by (cases "head_marker h") simp_all
  obtain s0 a' s where s0: "series_try_new 1 d count off = Inr s0"
    and b: "primary_body X C F d s0 sh (head_tags h) = Inr ((p, c), a')" and e: "at_end 1 a' = Inr (True, s)" "n = sr_offset s"
    using k [unfolded m marker.case]
    by (auto simp: and_then_Inr series_complete_def simp del: One_nat_def series_try_new_array split: if_splits)
  obtain s1 where c: "primary_crc C F d (pb_crc_type p) s1 = Inr a'" "walks s0 s1" "same_count s0 s1" "sh" "head_tags h = []"
    by (rule primary_body_crc [OF b])
  have f: "sr_data s0 = d" "sr_offset s0 = off" "sr_count s0 = None \<longleftrightarrow> count = None" "off \<le> length d"
    using s0 head_from_cbor_len [OF h]
    by (auto simp: series_try_new_def series_new_def split: option.splits)
  have "head_from_cbor F d = Inr (\<lparr>head_tags = [], head_marker = Array count\<rparr>, True, off)"
    using h m c(4,5) by (cases h) simp
  from array_head_byte [OF this assms(3)] have "hd d = 0x9F \<longleftrightarrow> sr_count s1 = None"
    using f(3) c(3) by (simp add: same_count_def)
  then show ?thesis
    unfolding e(2) using c(2) f assms(3) by (intro primary_crc_sound [OF c(1) assms(2) e(1)]) (simp_all add: walks_def)
qed

end
