(* ===== verification/Bpv7_Props.thy ===== *)
theory Bpv7_Props
  imports Bpv7_Samples Bpv7_Primary_Crc Cbor_Items
begin

unbundle bit_operations_syntax

text \<open>
  What the bundle data model guarantees, over the definitions of the \<^verbatim>\<open>Bpv7_*\<close> theories. The
  crates for decimal and percent-encoded text, floats, time and checksums are the arguments
  \<open>X\<close>, \<open>F\<close>, \<open>T\<close> and \<open>C\<close>; what is relied on of them is \<open>text_spec\<close> and \<open>time_spec\<close>.
\<close>

section \<open>Endpoint identifiers\<close>

text \<open>C13. An endpoint identifier in normal form is always written, and what is written is read
  back as the same identifier, flagged canonical, consuming exactly those bytes whatever
  follows them.\<close>

theorem eid_cbor_round_trip:
  assumes "text_spec X" and "eid_ok F e"
  shows "\<exists>bs. emit_value (eid_to_cbor X e) = Some bs \<and>
    (\<forall>r. length (bs @ r) \<le> usize_max \<longrightarrow> eid_from_cbor X F (bs @ r) = Inr (e, True, length bs))"
  using assms by (intro eid_codec.emit_then_parse) simp

lemma emit_value_eid: "emit_value (eid_to_cbor X e) = Some (eid_enc X e)"
  by (rule writes_emit_value) (rule eid_writes)

lemma sample_ipn_bytes:
  "eid_enc X (Ipn \<lparr>allocator_id = 0, node_number = 1000\<rparr> 7) = [0x82, 2, 0x82, 0x19, 0x03, 0xE8, 7]"
  by (simp add: eid_enc_def eid_ssp_enc_def eid_scheme_def array_enc_def head_bytes_cases to_be_bytes_def)

theorem eid_cbor_round_trip_witness:
  "eid_from_cbor sample_text sample_float [0x82, 2, 0x82, 0x19, 0x03, 0xE8, 7, 0xFF] =
    Inr (Ipn \<lparr>allocator_id = 0, node_number = 1000\<rparr> 7, True, 7)"
proof -
  let ?e = "Ipn \<lparr>allocator_id = 0, node_number = 1000\<rparr> 7"
  have ok: "eid_ok sample_float ?e" by (simp add: eid_ok_def)
  show ?thesis
    using eid_cbor_round_trip [OF sample_text_spec ok]
    by (auto simp: emit_value_eid sample_ipn_bytes usize_max_def dest: spec [of _ "[0xFF]"])
qed

text \<open>C28. Whatever bytes the decoder accepts as an endpoint identifier, canonical or not, the
  result is in normal form: a gateway that re-emits it writes bytes that decode to the same
  identifier, now flagged canonical.\<close>

theorem eid_reemit_canonical:
  assumes "text_spec X" and "eid_from_cbor X F d = Inr (e, s, n)"
  shows "\<exists>bs. emit_value (eid_to_cbor X e) = Some bs \<and>
    (\<forall>r. length (bs @ r) \<le> usize_max \<longrightarrow> eid_from_cbor X F (bs @ r) = Inr (e, True, length bs))"
  using assms eid_from_cbor_ok by (intro eid_codec.emit_then_parse) blast

theorem eid_reemit_canonical_witness:
  "eid_from_cbor sample_text sample_float [0x82, 2, 0x83, 0, 5, 7] =
     Inr (Ipn \<lparr>allocator_id = 0, node_number = 5\<rparr> 7, False, 6) \<and>
   (\<exists>bs. emit_value (eid_to_cbor sample_text (Ipn \<lparr>allocator_id = 0, node_number = 5\<rparr> 7)) = Some bs \<and>
     (\<forall>r. length (bs @ r) \<le> usize_max \<longrightarrow> eid_from_cbor sample_text sample_float (bs @ r) =
       Inr (Ipn \<lparr>allocator_id = 0, node_number = 5\<rparr> 7, True, length bs)))"
  using eid_reemit_canonical [OF sample_text_spec ipn_three_element_zero_allocator]
    ipn_three_element_zero_allocator by blast

text \<open>C32. The text form of every identifier in normal form of a known scheme parses back to it;
  only the legacy two-element \<^verbatim>\<open>ipn\<close> form, which has no text of its own, comes back in the
  three-element form.\<close>

theorem eid_text_round_trip:
  assumes "text_spec X" and "eid_ok F e" and "\<forall>c b. e \<noteq> Unknown c b"
  shows "eid_from_str X (eid_display X dbg e) = Inr (case e of LegacyIpn n s \<Rightarrow> Ipn n s | _ \<Rightarrow> e)"
  using assms by (rule eid_display_parse)

theorem eid_text_round_trip_witness:
  "eid_from_str sample_text (eid_display sample_text (\<lambda>_ b. b) (Ipn \<lparr>allocator_id = 5, node_number = 9\<rparr> 0)) =
    Inr (Ipn \<lparr>allocator_id = 5, node_number = 9\<rparr> 0)"
proof -
  have ok: "eid_ok sample_float (Ipn \<lparr>allocator_id = 5, node_number = 9\<rparr> 0)" by (simp add: eid_ok_def)
  show ?thesis using eid_text_round_trip [OF sample_text_spec ok, of "\<lambda>_ b. b"] by simp
qed

text \<open>The canonical flag of the decoder is not exact: the all-zero \<^verbatim>\<open>ipn\<close> identifiers and the
  three-element local-node form are flagged canonical although the encoder writes other bytes.\<close>

lemma ipn_null_flagged_canonical:
  "eid_from_cbor sample_text sample_float [0x82, 2, 0x83, 0, 0, 0] = Inr (Null, True, 6)"
  "emit_value (eid_to_cbor X Null) = Some [0x82, 1, 0]"
  by (simp add: ipn_eval)
    (simp add: emit_value_eid eid_enc_def eid_ssp_enc_def eid_scheme_def array_enc_def head_bytes_cases)

lemma ipn_local_flagged_canonical:
  "eid_from_cbor sample_text sample_float [0x82, 2, 0x83, 0, 0x1A, 0xFF, 0xFF, 0xFF, 0xFF, 3] =
    Inr (LocalNode 3, True, 10)"
  "emit_value (eid_to_cbor X (LocalNode 3)) = Some [0x82, 2, 0x82, 0x1A, 0xFF, 0xFF, 0xFF, 0xFF, 3]"
  by (simp add: ipn_eval)
    (simp add: emit_value_eid eid_enc_def eid_ssp_enc_def eid_scheme_def array_enc_def head_bytes_cases
      U32_MAX_def to_be_bytes_def)

lemma is_valid_service_name_always: "is_valid_service_name s"
  by (simp add: is_valid_service_name_def parse_dtn_service_name_def)

section \<open>Bundle identifiers and the primary block\<close>

text \<open>C2. A primary block in normal form, fragment or not, with or without a CRC, is always
  emitted, and decoding what was emitted verifies the CRC and gives back the same block,
  flagged canonical, whatever follows.\<close>

theorem primary_round_trip:
  assumes "text_spec X" and "primary_ok F p"
  shows "\<exists>bs. primary_emit X C p = Some (Inr bs) \<and>
    (\<forall>r. length (bs @ r) \<le> usize_max \<longrightarrow> primary_from_cbor X C F (bs @ r) = Inr (p, True, length bs))"
proof -
  have "case pb_crc_type p of UnrecognisedCrc _ \<Rightarrow> False | _ \<Rightarrow> True" using assms(2) by (simp add: primary_ok_def)
  then show ?thesis using primary_emit_eq primary_from_cbor_enc [OF assms] by blast
qed

theorem primary_round_trip_witness:
  "\<exists>bs. primary_emit sample_text sample_crc sample_primary = Some (Inr bs) \<and>
    (\<forall>r. length (bs @ r) \<le> usize_max \<longrightarrow>
      primary_from_cbor sample_text sample_crc sample_float (bs @ r) = Inr (sample_primary, True, length bs))"
  using primary_round_trip [OF sample_text_spec sample_primary_ok] .

text \<open>C6. An accepted primary block with a CRC carries the checksum of its own bytes. What was consumed is
  the other fields, then a byte string head, the stored value, and a break if the array is an
  indefinite one; and the stored value is the CRC-16 or CRC-32, as the CRC type says, of all of these
  bytes with zeros in place of the value.\<close>

theorem primary_crc_verified:
  assumes "primary_from_cbor X C F d = Inr (p, c, n)" and "pb_crc_type p \<noteq> NoCrc" and "length d \<le> usize_max"
  shows "n \<le> length d \<and> (\<exists>pre value.
    take n d = pre @ [0x40 OR of_nat (length value)] @ value @ (if hd d = 0x9F then [0xFF] else []) \<and>
    (case pb_crc_type p of
       CRC16_X25 \<Rightarrow> value = to_be_bytes (crc_x25 C
         (pre @ [0x40 OR of_nat (length value)] @ replicate (length value) 0 @ (if hd d = 0x9F then [0xFF] else [])))
     | CRC32_CASTAGNOLI \<Rightarrow> value = to_be_bytes (crc_castagnoli C
         (pre @ [0x40 OR of_nat (length value)] @ replicate (length value) 0 @ (if hd d = 0x9F then [0xFF] else [])))
     | _ \<Rightarrow> False))"
proof -
  let ?z = "\<lambda>pre v. pre @ [0x40 OR of_nat (length v)] @ replicate (length v) 0 @ (if hd d = 0x9F then [0xFF] else [])"
  obtain pre v where n: "n \<le> length d"
    and t: "take n d = pre @ [0x40 OR of_nat (length v)] @ v @ (if hd d = 0x9F then [0xFF] else [])"
    and k: "checksum C (pb_crc_type p) (?z pre v) = Some v"
    using primary_from_cbor_crc [OF assms] unfolding crc_checked_def by (elim conjE exE)
  from k have "case pb_crc_type p of CRC16_X25 \<Rightarrow> v = to_be_bytes (crc_x25 C (?z pre v))
    | CRC32_CASTAGNOLI \<Rightarrow> v = to_be_bytes (crc_castagnoli C (?z pre v)) | _ \<Rightarrow> False"
    by (rule checksum_cases)
  with n t show ?thesis by (intro conjI exI [of _ pre] exI [of _ v])
qed

theorem primary_crc_verified_witness:
  "\<exists>pre value. primary_enc sample_text sample_crc sample_primary = pre @ [0x40 OR of_nat (length value)] @ value \<and>
    value = to_be_bytes (crc_x25 sample_crc (pre @ [0x40 OR of_nat (length value)] @ replicate (length value) 0))"
proof -
  let ?d = "primary_enc sample_text sample_crc sample_primary"
  have t: "pb_crc_type sample_primary = CRC16_X25" by (simp add: sample_primary_def)
  have h: "hd ?d \<noteq> 0x9F" by (simp add: primary_enc_split primary_count_def t sample_primary_def head_bytes_cases)
  have l: "length ?d \<le> usize_max" by (rule sample_primary_short)
  show ?thesis using primary_crc_verified [OF sample_primary_decoded _ l] t h by simp
qed



section \<open>Canonical blocks\<close>

text \<open>C30. Emitting an extension block into the bundle array always succeeds for a known CRC type,
  appends exactly the block's bytes, and records ranges through which the block data can be
  read back out of the finished bundle, whatever is appended later.\<close>

theorem block_emit_then_payload:
  assumes "\<forall>c. blk_crc_type b \<noteq> UnrecognisedCrc c" and "next_field array = Some array1"
    and "length (enc_data (seq_encoder array1) @ block_bytes C b block_number d) \<le> usize_max"
  shows "\<exists>b' array'. block_emit C b block_number d array = Some (Inr (b', array')) \<and>
    enc_data (seq_encoder array') = enc_data (seq_encoder array1) @ block_bytes C b block_number d \<and>
    block_payload b' (enc_data (seq_encoder array') @ r) = Some d"
  using assms by (rule block_emit_payload)

theorem block_emit_then_payload_witness:
  "\<exists>b' array'. block_emit sample_crc block_default 1 [1, 2, 3] (sequence_new 1 encoder_new None) =
      Some (Inr (b', array')) \<and> block_payload b' (enc_data (seq_encoder array') @ [0xFF]) = Some [1, 2, 3]"
proof -
  let ?b = block_default and ?a = "sequence_new 1 encoder_new None"
  have c: "\<forall>c. blk_crc_type ?b \<noteq> UnrecognisedCrc c" by (simp add: block_default_def)
  obtain a1 where a1: "next_field ?a = Some a1" "enc_data (seq_encoder a1) = [0x9F]"
    by (simp add: next_field_def sequence_new_def encoder_new_def)
  have "length (block_bytes sample_crc ?b 1 [1, 2, 3]) \<le> 100"
    by (simp add: block_bytes_def block_prefix_def block_head_fields_def block_default_def head_bytes_cases)
  then have "length (enc_data (seq_encoder a1) @ block_bytes sample_crc ?b 1 [1, 2, 3]) \<le> usize_max"
    by (simp add: a1 usize_max_def)
  from block_emit_then_payload [OF c a1(1) this, of "[0xFF]"] show ?thesis by blast
qed

text \<open>A hop-count block that decodes always has a limit of at least one, and it is flagged
  canonical exactly when its bytes are the ones the encoder writes.\<close>

lemma hop_info_canonical_iff:
  assumes "hop_info_from_cbor F d = Inr (h, s, n)" and "length d \<le> usize_max"
  shows "hop_limit h \<noteq> 0 \<and> (s \<longleftrightarrow> emit_value (hop_info_to_cbor h) = Some (take n d))"
proof
  show l: "hop_limit h \<noteq> 0" using hop_info_from_cbor_inv [OF assms] by (simp add: hop_info_ok_def)
  have "emit_value (hop_info_to_cbor h) = Some (hop_info_enc h)"
    by (rule writes_emit_value) (rule hop_info_codec.to_cbor_writes, simp add: hop_info_ok_def l)
  then show "s \<longleftrightarrow> emit_value (hop_info_to_cbor h) = Some (take n d)"
    using hop_info_codec.shortest_iff [OF assms(1) _ assms(2)] l by (auto simp: hop_info_ok_def)
qed

lemma hop_info_canonical_iff_instance:
  "hop_info_from_cbor sample_float [0x9F, 5, 2, 0xFF] = Inr (\<lparr>hop_limit = 5, hop_count = 2\<rparr>, False, 4) \<and>
    emit_value (hop_info_to_cbor \<lparr>hop_limit = 5, hop_count = 2\<rparr>) \<noteq> Some [0x9F, 5, 2, 0xFF]"
proof -
  have d: "hop_info_from_cbor sample_float [0x9F, 5, 2, 0xFF] = Inr (\<lparr>hop_limit = 5, hop_count = 2\<rparr>, False, 4)"
    by (simp add: hop_info_from_cbor_def require_canonical_def nonzero_u8_def head_eval series_eval)
  show ?thesis using d hop_info_canonical_iff [OF d] by (simp add: usize_max_def)
qed

section \<open>Times and sequence numbers\<close>

text \<open>C14. However the calls of any number of threads interleave, and whatever the clock does,
  the pairs of time and sequence number that \<^verbatim>\<open>CreationTimestamp::now\<close> hands out are strictly
  increasing in the order in which they are issued, as long as the 64-bit counter has not
  saturated; so no two bundles of a node share a creation timestamp.\<close>

theorem creation_timestamps_increase:
  assumes "now_reachable T s" and "last_issued s \<noteq> u64_MAX"
  shows "sorted_wrt timestamp_lt (map unpack_issued (issued_log s))"
  using assms by (rule issued_pairs_increase)

text \<open>The compare-and-exchange loop of \<^verbatim>\<open>CreationTimestamp::now\<close> cannot get stuck: from any
  reachable state a thread that runs without interference leaves the loop within two steps,
  and the value it issues is beyond every value issued before.\<close>

lemma creation_timestamp_issued:
  assumes "now_reachable T s" and "threads s i = Trying c l"
  shows "\<exists>s' s''. now_step T s s' \<and> now_step T s' s'' \<and> threads s'' i = Idle \<and>
    issued_log s'' = issued_log s @ [next_issue (last_issued s) c]"
  using assms by (rule now_progress)

lemma sample_now_reached:
  obtains s where "now_reachable sample_time s" "threads s 1 = Trying (now_candidate sample_time 5) 0"
    "last_issued s \<noteq> u64_MAX" "length (issued_log s) = 1"
proof -
  let ?c = "now_candidate sample_time 5"
  define s1 where "s1 = now_init\<lparr>threads := (threads now_init)(0 := Trying ?c 0)\<rparr>"
  define s2 where "s2 = s1\<lparr>threads := (threads s1)(1 := Trying ?c 0)\<rparr>"
  define s3 where "s3 = s2\<lparr>last_issued := next_issue 0 ?c, history := history s2 @ [next_issue 0 ?c],
      threads := (threads s2)(0 := Idle), issued_log := issued_log s2 @ [next_issue 0 ?c]\<rparr>"
  have "now_step sample_time now_init s1" unfolding s1_def by (rule now_step.load) (simp_all add: now_init_def)
  moreover have "now_step sample_time s1 s2"
    unfolding s2_def by (rule now_step.load) (simp_all add: now_init_def s1_def)
  moreover have "now_step sample_time s2 s3"
    unfolding s3_def by (rule now_step.exchange_ok) (simp_all add: now_init_def s1_def s2_def)
  ultimately have "now_reachable sample_time s3"
    by (intro now_reachable.step [OF now_reachable.step [OF now_reachable.step [OF now_reachable.init]]])
  moreover have "next_issue 0 ?c \<noteq> u64_MAX"
    by (simp add: next_issue_def now_candidate_def saturating_add_def sample_time_def u64_MAX_def saturating_from_def)
  ultimately show thesis
    by (intro that [of s3]) (simp_all add: s3_def s2_def s1_def now_init_def)
qed

theorem creation_timestamps_increase_witness:
  "\<exists>s. now_reachable sample_time s \<and> length (issued_log s) = 1 \<and>
    sorted_wrt timestamp_lt (map unpack_issued (issued_log s))"
  using sample_now_reached creation_timestamps_increase by metis

lemma creation_timestamp_issued_instance:
  "\<exists>s s' s''. now_reachable sample_time s \<and> now_step sample_time s s' \<and> now_step sample_time s' s'' \<and>
    threads s'' 1 = Idle \<and> length (issued_log s'') = 2"
proof -
  obtain s where s: "now_reachable sample_time s" "threads s 1 = Trying (now_candidate sample_time 5) 0"
    "length (issued_log s) = 1"
    using sample_now_reached by metis
  show ?thesis using creation_timestamp_issued [OF s(1,2)] s by (metis One_nat_def add_Suc_right length_append
    list.size(3,4) numeral_2_eq_2 plus_nat.add_0 Suc_1 one_add_one)
qed

text \<open>Converting a DTN time to a calendar instant and back is the identity inside the
  range of the time crate, in the checked and in the saturating direction; the saturating
  conversion never wraps: it clamps to zero before the epoch and agrees with the checked
  conversion wherever that succeeds.\<close>

lemma dtn_time_conversions:
  assumes "time_spec T lo hi"
  shows "(uint (millisecs t) * 1000000 \<le> hi \<longrightarrow>
      dtn_time_try_from T (dtn_time_into T t) = Some t \<and> saturating_from T (dtn_time_into T t) = t) \<and>
    (i < 0 \<longrightarrow> saturating_from T i = DtnTime 0) \<and>
    (dtn_time_try_from T i = Some t' \<longrightarrow> saturating_from T i = t')"
  using dtn_time_round_trip [OF assms] saturating_from_before_epoch [OF assms] saturating_from_checked by blast

lemma dtn_time_conversions_instance:
  "dtn_time_try_from sample_time (dtn_time_into sample_time (DtnTime 800000000000)) = Some (DtnTime 800000000000)"
  using dtn_time_conversions [OF sample_time_spec, of "DtnTime 800000000000"]
  by (simp add: sample_time_hi_def)

section \<open>Flags\<close>

text \<open>The flag words lose nothing: every 64-bit value read as bundle flags or block flags,
  unknown bits included, is written back as the same value, and what is read is in the form
  that reads back to itself.\<close>

lemma flags_preserve_all_bits:
  "bundle_flags_into (bundle_flags_from v) = v \<and> block_flags_into (block_flags_from v) = v \<and>
   bundle_flags_ok (bundle_flags_from v) \<and> block_flags_ok (block_flags_from v)"
  by (simp add: bundle_flags_into_from block_flags_into_from bundle_flags_from_ok block_flags_from_ok)

section \<open>Administrative records\<close>

text \<open>C29. A bundle status report in an administrative record is always written, and what is
  written decodes to the same record, flagged canonical: status assertions with and without a
  time, the reason code, the identifier of the subject bundle and its fragment fields. The records are
  those of \<open>record_ok\<close>: a time is a positive whole number of milliseconds that fits the wire format and
  the time crate, an unassigned reason code is none of the assigned ones (0 to 16) and not the reserved
  255, and the source and the timestamp of the subject are in normal form.\<close>

theorem admin_record_round_trip:
  assumes "text_spec X" and "time_spec T lo hi" and "record_ok hi F r"
  shows "\<exists>bs. emit_value (record_to_cbor T X r) = Some bs \<and>
    (\<forall>q. length (bs @ q) \<le> usize_max \<longrightarrow> record_from_cbor T X F (bs @ q) = Inr (r, True, length bs))"
  using assms(1) record_ok_readable [OF assms(2,3)] by (intro record_codec.emit_then_parse) simp

definition sample_record :: AdministrativeRecord where
  "sample_record = BundleStatusReport \<lparr>sr_bundle_id = pb_id sample_primary, sr_received = Some None,
    sr_forwarded = Some (Some 1000000), sr_delivered = None, sr_deleted = None, sr_reason = LifetimeExpired\<rparr>"

lemma sample_record_ok: "record_ok sample_time_hi sample_float sample_record"
  using sample_primary_ok
  by (simp add: record_ok_def sample_record_def assertion_ok_def reason_ok_def primary_ok_def sample_time_hi_def)

theorem admin_record_round_trip_witness:
  "\<exists>bs. emit_value (record_to_cbor sample_time sample_text sample_record) = Some bs \<and>
    (\<forall>q. length (bs @ q) \<le> usize_max \<longrightarrow>
      record_from_cbor sample_time sample_text sample_float (bs @ q) = Inr (sample_record, True, length bs))"
  using admin_record_round_trip [OF sample_text_spec sample_time_spec sample_record_ok] .

section \<open>Tags\<close>

text \<open>A CBOR tag in front of a field of a bundle-level array is refused from its first
  byte, under the field's name, as a non-canonical encoding: no later byte is looked at,
  whatever the field's type.\<close>

lemma tagged_field_refused:
  assumes "at_end D s = Inr (False, s)" and "drop (sr_offset s) (sr_data s) = b # r"
    and "0xC0 \<le> b" "b \<le> 0xDB"
  shows "require_canonical id bp_of_cbor InvalidField D fc s field NotCanonical =
    Inl (InvalidField field NotCanonical)"
  using assms by (rule bp_domain.tagged_field_rejected)

lemma tagged_field_refused_instance:
  "require_canonical id bp_of_cbor InvalidField 1 (u64_from_cbor sample_float)
      \<lparr>sr_data = [0x81, 0xC1, 0xFF], sr_count = Some 1, sr_offset = 1, sr_parsed = 0\<rparr> ''version'' NotCanonical =
    Inl (InvalidField ''version'' NotCanonical)"
  by (rule tagged_field_refused [where b = "0xC1" and r = "[0xFF]"]) (simp_all add: at_end_def word_le_nat_alt)

text \<open>Skipping an item depends on the item's own bytes only: appending bytes to the slice
  changes neither the length nor the canonical flag of a skip that succeeded.\<close>

lemma skip_value_ignores_rest:
  assumes "skip_value F d k = Inr (sh, n)" and "length (d @ r) \<le> usize_max"
  shows "skip_value F (d @ r) k = Inr (sh, n)"
  using assms by (rule skip_value_local)

lemma skip_value_ignores_rest_instance:
  "\<forall>F. skip_value F ([0x82, 0x01, 0x02] @ [0xFF]) 1 = Inr (True, 3)"
proof
  fix F
  have "skips F (IArray True [IUint 1, IUint 2])" by (rule skips_item) simp_all
  from skipsD [OF this, of "[]" 1] have "skip_value F [0x82, 0x01, 0x02] 1 = Inr (True, 3)"
    by (simp add: head_bytes_cases usize_max_def)
  then show "skip_value F ([0x82, 0x01, 0x02] @ [0xFF]) 1 = Inr (True, 3)"
    by (rule skip_value_ignores_rest) (simp add: usize_max_def)
qed

end
