(* ===== verification/Btree.thy ===== *)
theory Btree
  imports Prelude "HOL-Library.Product_Lexorder" "HOL-Library.List_Lexorder"
begin

text \<open>
  The ordered containers of the Rust standard library as the routing code sees them: a
  \<^verbatim>\<open>BTreeMap\<close> is the list of its entries in iteration order, a \<^verbatim>\<open>BTreeSet\<close> the list of its
  elements, both kept strictly ascending for an \<^verbatim>\<open>Ord::cmp\<close>. Two keys that compare
  \<^verbatim>\<open>Equal\<close> share a slot, whether or not they are the same value. The locale \<open>cmp_order\<close> holds
  the laws of \<^verbatim>\<open>Ord\<close> and what the containers promise under them.
\<close>

section \<open>Orderings\<close>

datatype ordering = Less | Equal | Greater

definition compare :: "'a::linorder \<Rightarrow> 'a \<Rightarrow> ordering" where
  "compare a b = (if a < b then Less else if a = b then Equal else Greater)"

fun then_with :: "ordering \<Rightarrow> ordering \<Rightarrow> ordering" where
  "then_with Equal o2 = o2"
| "then_with o1 _ = o1"

fun reverse_ordering :: "ordering \<Rightarrow> ordering" where
  "reverse_ordering Less = Greater"
| "reverse_ordering Equal = Equal"
| "reverse_ordering Greater = Less"

lemma then_with_Equal [simp]: "then_with a Equal = a"
  by (cases a) simp_all

lemma compare_simps [simp]:
  "compare a a = Equal" "compare a b = Less \<longleftrightarrow> a < b" "compare a b = Equal \<longleftrightarrow> a = b"
  "compare a b = Greater \<longleftrightarrow> b < a"
  by (auto simp: compare_def)

lemma compare_pair: "compare (a, b) (c, d) = then_with (compare a c) (compare b d)"
  by (auto simp: compare_def)

lemma compare_list:
  "compare [] [] = Equal" "compare [] (y # ys) = Less" "compare (x # xs) [] = Greater"
  "compare (x # xs) (y # ys) = then_with (compare x y) (compare xs ys)"
  by (auto simp: compare_def)

section \<open>Maps\<close>

fun bt_get :: "('k \<Rightarrow> 'k \<Rightarrow> ordering) \<Rightarrow> ('k \<times> 'v) list \<Rightarrow> 'k \<Rightarrow> 'v option" where
  "bt_get cmp [] k = None"
| "bt_get cmp ((a, v) # m) k =
    (case cmp k a of Less \<Rightarrow> None | Equal \<Rightarrow> Some v | Greater \<Rightarrow> bt_get cmp m k)"

text \<open>The key that is already there is kept, as \<^verbatim>\<open>BTreeMap::insert\<close> does.\<close>

fun bt_put :: "('k \<Rightarrow> 'k \<Rightarrow> ordering) \<Rightarrow> 'k \<Rightarrow> 'v \<Rightarrow> ('k \<times> 'v) list \<Rightarrow> ('k \<times> 'v) list" where
  "bt_put cmp k v [] = [(k, v)]"
| "bt_put cmp k v ((a, w) # m) =
    (case cmp k a of
       Less \<Rightarrow> (k, v) # (a, w) # m
     | Equal \<Rightarrow> (a, v) # m
     | Greater \<Rightarrow> (a, w) # bt_put cmp k v m)"

fun bt_del :: "('k \<Rightarrow> 'k \<Rightarrow> ordering) \<Rightarrow> 'k \<Rightarrow> ('k \<times> 'v) list \<Rightarrow> ('k \<times> 'v) list" where
  "bt_del cmp k [] = []"
| "bt_del cmp k ((a, w) # m) =
    (case cmp k a of Less \<Rightarrow> (a, w) # m | Equal \<Rightarrow> m | Greater \<Rightarrow> (a, w) # bt_del cmp k m)"

section \<open>Sets\<close>

fun bs_insert :: "('k \<Rightarrow> 'k \<Rightarrow> ordering) \<Rightarrow> 'k \<Rightarrow> 'k list \<Rightarrow> bool \<times> 'k list" where
  "bs_insert cmp x [] = (True, [x])"
| "bs_insert cmp x (a # s) =
    (case cmp x a of
       Less \<Rightarrow> (True, x # a # s)
     | Equal \<Rightarrow> (False, a # s)
     | Greater \<Rightarrow> (let (b, s') = bs_insert cmp x s in (b, a # s')))"

fun bs_remove :: "('k \<Rightarrow> 'k \<Rightarrow> ordering) \<Rightarrow> 'k \<Rightarrow> 'k list \<Rightarrow> bool \<times> 'k list" where
  "bs_remove cmp x [] = (False, [])"
| "bs_remove cmp x (a # s) =
    (case cmp x a of
       Less \<Rightarrow> (False, a # s)
     | Equal \<Rightarrow> (True, s)
     | Greater \<Rightarrow> (let (b, s') = bs_remove cmp x s in (b, a # s')))"

definition ascending :: "('k \<Rightarrow> 'k \<Rightarrow> ordering) \<Rightarrow> 'k list \<Rightarrow> bool" where
  "ascending cmp ks = sorted_wrt (\<lambda>a b. cmp a b = Less) ks"

lemma ascending_simps [simp]:
  "ascending cmp []" "ascending cmp (a # ks) \<longleftrightarrow> (\<forall>b \<in> set ks. cmp a b = Less) \<and> ascending cmp ks"
  by (simp_all add: ascending_def)

lemma ascending_filter: "ascending cmp ks \<Longrightarrow> ascending cmp (filter P ks)"
  unfolding ascending_def by (rule sorted_wrt_filter)

section \<open>The laws\<close>

locale cmp_order =
  fixes cmp :: "'k \<Rightarrow> 'k \<Rightarrow> ordering"
  assumes cmp_refl: "cmp a a = Equal"
    and cmp_flip: "cmp b a = reverse_ordering (cmp a b)"
    and cmp_trans: "cmp a b = Less \<Longrightarrow> cmp b c = Less \<Longrightarrow> cmp a c = Less"
    and cmp_eq: "cmp a b = Equal \<Longrightarrow> cmp a c = cmp b c"
begin

lemma cmp_less_flip: "cmp a b = Less \<longleftrightarrow> cmp b a = Greater"
  by (cases "cmp b a") (simp_all add: cmp_flip [of a b])

lemma cmp_equal_flip: "cmp a b = Equal \<longleftrightarrow> cmp b a = Equal"
  by (cases "cmp b a") (simp_all add: cmp_flip [of a b])

lemma cmp_eq_right: "cmp a b = Equal \<Longrightarrow> cmp c a = cmp c b"
  using cmp_eq [of a b c] by (simp add: cmp_flip [of c])

lemma cmp_less_all: "cmp k a = Less \<Longrightarrow> \<forall>b \<in> S. cmp a b = Less \<Longrightarrow> b \<in> S \<Longrightarrow> cmp k b = Less"
  using cmp_trans by blast

lemma get_below: "\<forall>b \<in> set (map fst m). cmp k b = Less \<Longrightarrow> bt_get cmp m k = None"
  by (cases m) auto

lemma get_put:
  assumes "ascending cmp (map fst m)"
  shows "bt_get cmp (bt_put cmp k v m) k' = (if cmp k' k = Equal then Some v else bt_get cmp m k')"
  using assms
proof (induction m)
  case Nil
  show ?case by (simp split: ordering.split)
next
  case (Cons p m)
  obtain a w where p: "p = (a, w)" by (cases p)
  have below: "bt_get cmp m x = None" if "cmp x a = Less" for x
    using that Cons.prems p by (intro get_below) (auto intro: cmp_trans)
  show ?case
  proof (cases "cmp k a")
    case Less
    have "cmp k' a = Less" if "cmp k' k = Less" using that Less by (rule cmp_trans)
    moreover have "cmp k' a = Less" if "cmp k' k = Equal" using cmp_eq [OF that, of a] Less by simp
    ultimately show ?thesis using Less p by (auto split: ordering.splits)
  next
    case Equal
    then have "cmp k' k = cmp k' a" by (rule cmp_eq_right)
    then show ?thesis using Equal p by (simp split: ordering.split)
  next
    case Greater
    have "cmp k' a = Greater" if "cmp k' k = Equal" using cmp_eq [OF that, of a] Greater by simp
    then show ?thesis using Greater Cons p by (auto split: ordering.splits)
  qed
qed

lemma get_del:
  assumes "ascending cmp (map fst m)"
  shows "bt_get cmp (bt_del cmp k m) k' = (if cmp k' k = Equal then None else bt_get cmp m k')"
  using assms
proof (induction m)
  case Nil
  show ?case by simp
next
  case (Cons p m)
  obtain a w where p: "p = (a, w)" by (cases p)
  have below: "bt_get cmp m x = None" if "cmp x a = Less \<or> cmp x a = Equal" for x
    using that Cons.prems p cmp_eq [of x a] by (intro get_below) (auto intro: cmp_trans)
  show ?case
  proof (cases "cmp k a")
    case Less
    have "cmp k' a = Less" if "cmp k' k = Equal" using cmp_eq [OF that, of a] Less by simp
    then show ?thesis using Less p by simp
  next
    case Equal
    then have "cmp k' k = cmp k' a" by (rule cmp_eq_right)
    then show ?thesis using Equal p below [of k'] by (auto split: ordering.split)
  next
    case Greater
    have "cmp k' a = Greater" if "cmp k' k = Equal" using cmp_eq [OF that, of a] Greater by simp
    then show ?thesis using Greater Cons p by (auto split: ordering.splits)
  qed
qed

lemma put_mem:
  "(a, w) \<in> set (bt_put cmp k v m) \<Longrightarrow>
    (a, w) \<in> set m \<or> (w = v \<and> (a = k \<or> (\<exists>w'. (a, w') \<in> set m \<and> cmp k a = Equal)))"
  by (induction m) (auto split: ordering.splits if_splits)

lemma del_mem: "x \<in> set (bt_del cmp k m) \<Longrightarrow> x \<in> set m"
  by (induction m) (auto split: ordering.splits)

lemma ascending_put: "ascending cmp (map fst m) \<Longrightarrow> ascending cmp (map fst (bt_put cmp k v m))"
proof (induction m)
  case Nil
  then show ?case by simp
next
  case (Cons p m)
  obtain a w where p: "p = (a, w)" by (cases p)
  show ?case
    using Cons p
    by (auto split: ordering.splits intro: cmp_trans simp: cmp_less_flip [of a k] dest!: put_mem)
qed

lemma ascending_del: "ascending cmp (map fst m) \<Longrightarrow> ascending cmp (map fst (bt_del cmp k m))"
proof (induction m)
  case Nil
  then show ?case by simp
next
  case (Cons p m)
  obtain a w where p: "p = (a, w)" by (cases p)
  show ?case using Cons p by (auto split: ordering.splits dest!: del_mem)
qed

lemma get_mem: "bt_get cmp m k = Some v \<Longrightarrow> \<exists>a. (a, v) \<in> set m \<and> cmp k a = Equal"
  by (induction m) (auto split: ordering.splits)

lemma ascending_distinct: "ascending cmp ks \<Longrightarrow> distinct ks"
  by (induction ks) (auto simp: cmp_refl)

lemma mem_get: "ascending cmp (map fst m) \<Longrightarrow> (a, v) \<in> set m \<Longrightarrow> bt_get cmp m a = Some v"
  by (induction m) (auto simp: cmp_refl cmp_less_flip split: ordering.splits)

lemma get_congr: "cmp k k' = Equal \<Longrightarrow> bt_get cmp m k = bt_get cmp m k'"
  by (induction m) (auto simp: cmp_eq split: ordering.splits)

text \<open>\<^verbatim>\<open>BTreeMap::retain\<close> with a closure that rewrites the value it keeps.\<close>

lemma ascending_retain:
  "ascending cmp (map fst m) \<Longrightarrow> ascending cmp (map fst (filter (\<lambda>(_, v). P v) (map (\<lambda>(k, v). (k, f v)) m)))"
  by (induction m) auto

lemma get_retain:
  assumes "ascending cmp (map fst m)"
  shows "bt_get cmp (filter (\<lambda>(_, v). P v) (map (\<lambda>(k, v). (k, f v)) m)) k =
    Option.bind (bt_get cmp m k) (\<lambda>v. if P (f v) then Some (f v) else None)"
  using assms
proof (induction m)
  case (Cons p m)
  obtain a w where p: "p = (a, w)" by (cases p)
  have "bt_get cmp (filter (\<lambda>(_, v). P v) (map (\<lambda>(k, v). (k, f v)) m)) k = None"
    if "cmp k a = Less \<or> cmp k a = Equal"
  proof -
    have "cmp k x = Less" if "x \<in> fst ` set m" for x
      using \<open>cmp k a = Less \<or> cmp k a = Equal\<close> Cons.prems p that cmp_eq [of k a x] cmp_trans [of k a x] by auto
    then show ?thesis by (intro get_below) force
  qed
  then show ?case using Cons p by (auto split: ordering.splits)
qed simp

lemma insert_mem: "set (snd (bs_insert cmp x s)) = (if fst (bs_insert cmp x s) then insert x (set s) else set s)"
proof (induction s)
  case Nil
  then show ?case by simp
next
  case (Cons a s)
  then show ?case by (cases "cmp x a") (auto simp: case_prod_unfold Let_def)
qed

lemma insert_new:
  "ascending cmp s \<Longrightarrow> fst (bs_insert cmp x s) \<longleftrightarrow> (\<forall>y \<in> set s. cmp x y \<noteq> Equal)"
proof (induction s)
  case Nil
  then show ?case by simp
next
  case (Cons a s)
  have "cmp x y \<noteq> Equal" if "cmp x a = Less" "y \<in> set s" for y
    using cmp_trans [OF that(1)] Cons.prems that(2) by auto
  then show ?case using Cons by (auto split: ordering.splits prod.splits simp: case_prod_unfold Let_def)
qed

lemma ascending_insert: "ascending cmp s \<Longrightarrow> ascending cmp (snd (bs_insert cmp x s))"
proof (induction s)
  case Nil
  then show ?case by simp
next
  case (Cons a s)
  show ?case
  proof (cases "cmp x a")
    case Less
    then show ?thesis using Cons.prems cmp_trans [OF Less] by auto
  next
    case Equal
    then show ?thesis using Cons.prems by simp
  next
    case Greater
    then have "cmp a x = Less" using cmp_less_flip [of a x] by blast
    then have "\<forall>y \<in> set (snd (bs_insert cmp x s)). cmp a y = Less"
      using Cons.prems insert_mem [of x s] by (auto split: if_splits)
    then show ?thesis using Greater Cons by (simp add: case_prod_unfold Let_def)
  qed
qed

lemma remove_mem:
  "ascending cmp s \<Longrightarrow> set (snd (bs_remove cmp x s)) = {y \<in> set s. cmp x y \<noteq> Equal}"
proof (induction s)
  case Nil
  then show ?case by simp
next
  case (Cons a s)
  have 1: "cmp x y \<noteq> Equal" if "cmp x a = Less" "y \<in> set s" for y
    using cmp_trans [OF that(1)] Cons.prems that(2) by auto
  have 2: "cmp x y \<noteq> Equal" if "cmp x a = Equal" "y \<in> set s" for y
    using cmp_eq [OF that(1)] Cons.prems that(2) by auto
  show ?case
  proof (cases "cmp x a")
    case Less
    then show ?thesis using 1 by auto
  next
    case Equal
    then show ?thesis using 2 by auto
  next
    case Greater
    then show ?thesis using Cons by (auto simp: case_prod_unfold Let_def)
  qed
qed

lemma remove_found: "ascending cmp s \<Longrightarrow> fst (bs_remove cmp x s) \<longleftrightarrow> (\<exists>y \<in> set s. cmp x y = Equal)"
proof (induction s)
  case Nil
  then show ?case by simp
next
  case (Cons a s)
  have "cmp x y = Less" if "cmp x a = Less" "y \<in> set s" for y
    using cmp_trans [OF that(1)] Cons.prems that(2) by auto
  then show ?case using Cons by (auto split: ordering.splits simp: case_prod_unfold Let_def)
qed

lemma ascending_remove: "ascending cmp s \<Longrightarrow> ascending cmp (snd (bs_remove cmp x s))"
proof (induction s)
  case Nil
  then show ?case by simp
next
  case (Cons a s)
  have "set (snd (bs_remove cmp x s)) \<subseteq> set s" using Cons.prems by (simp add: remove_mem)
  then show ?case using Cons by (cases "cmp x a") (auto simp: case_prod_unfold Let_def)
qed

lemma remove_insert: "fst (bs_insert cmp x s) \<Longrightarrow> bs_remove cmp x (snd (bs_insert cmp x s)) = (True, s)"
proof (induction s)
  case Nil
  then show ?case by (simp add: cmp_refl)
next
  case (Cons a s)
  then show ?case by (cases "cmp x a") (simp_all add: cmp_refl case_prod_unfold Let_def)
qed

end

text \<open>Comparing by a key with a linear order is lawful.\<close>

lemma cmp_order_by_key:
  fixes key :: "'a \<Rightarrow> 'b::linorder"
  assumes "\<And>a b. cmp a b = compare (key a) (key b)"
  shows "cmp_order cmp"
proof
  fix a b c
  show "cmp a a = Equal" by (simp add: assms)
  show "cmp b a = reverse_ordering (cmp a b)" by (auto simp: assms compare_def)
  show "cmp a b = Less \<Longrightarrow> cmp b c = Less \<Longrightarrow> cmp a c = Less" by (auto simp: assms)
  show "cmp a b = Equal \<Longrightarrow> cmp a c = cmp b c" by (simp add: assms)
qed

interpretation u32_order: cmp_order "compare :: u32 \<Rightarrow> u32 \<Rightarrow> ordering"
  by (rule cmp_order_by_key [of _ "\<lambda>x. x"]) simp

end
