(* ===== verification/Eid_Pattern.thy ===== *)
theory Eid_Pattern
  imports Bpv7_Eid_Codec Btree
begin

unbundle bit_operations_syntax

text \<open>
  The crate \<^verbatim>\<open>eid-patterns\<close> (with the \<^verbatim>\<open>dtn-pat-item\<close> feature, as the bundle protocol agent builds
  it): patterns over endpoint identifiers, what they match, when one is a subset of another,
  their specificity and the order by which the route table keeps them. The \<^verbatim>\<open>glob\<close> crate is the
  argument \<open>G\<close>; a compiled glob is represented by its source text, which determines it. Strings
  are the bytes of their UTF-8 form, ordered bytewise as in Rust.
\<close>

section \<open>Patterns\<close>

datatype IpnInterval = Number u32 | IpnRange u32 u32

datatype IpnPattern = Wildcard | Single u32 | Range "IpnInterval list"

record IpnPatternItem =
  ip_allocator_id :: IpnPattern
  ip_node_number :: IpnPattern
  ip_service_number :: IpnPattern

datatype DtnPatternItem = DtnNone | DtnAny | DtnExact bytes bytes | DtnGlob bytes

datatype EidPatternItem =
    AnyNumericScheme u64
  | AnyTextScheme bytes
  | IpnItem IpnPatternItem
  | DtnItem DtnPatternItem

datatype EidPattern = AnyPattern | PatternSet "EidPatternItem list"

datatype pattern_error = PatternParseError | NotExact

record glob_ops =
  gl_valid :: "bytes \<Rightarrow> bool"
  gl_matches :: "bytes \<Rightarrow> bytes \<Rightarrow> bool"

definition u32_MAX :: u32 where
  "u32_MAX = 0xFFFFFFFF"

definition ANY_IPN :: IpnPatternItem where
  "ANY_IPN = \<lparr>ip_allocator_id = Wildcard, ip_node_number = Wildcard, ip_service_number = Wildcard\<rparr>"

definition ipn_item_new :: "u32 \<Rightarrow> u32 \<Rightarrow> u32 option \<Rightarrow> IpnPatternItem" where
  "ipn_item_new allocator node service =
    \<lparr>ip_allocator_id = Single allocator, ip_node_number = Single node,
     ip_service_number = (case service of Some s \<Rightarrow> Single s | None \<Rightarrow> Wildcard)\<rparr>"

section \<open>Matching\<close>

fun interval_matches :: "IpnInterval \<Rightarrow> u32 \<Rightarrow> bool" where
  "interval_matches (Number n) v = (n = v)"
| "interval_matches (IpnRange a b) v = (a \<le> v \<and> v \<le> b)"

fun ipn_pattern_matches :: "IpnPattern \<Rightarrow> u32 \<Rightarrow> bool" where
  "ipn_pattern_matches Wildcard v = True"
| "ipn_pattern_matches (Single n) v = (n = v)"
| "ipn_pattern_matches (Range r) v = list_ex (\<lambda>i. interval_matches i v) r"

definition ipn_item_matches_parts :: "IpnPatternItem \<Rightarrow> u32 \<Rightarrow> u32 \<Rightarrow> u32 \<Rightarrow> bool" where
  "ipn_item_matches_parts i a n s \<longleftrightarrow>
    ipn_pattern_matches (ip_allocator_id i) a \<and> ipn_pattern_matches (ip_node_number i) n \<and>
    ipn_pattern_matches (ip_service_number i) s"

definition ipn_item_matches :: "IpnPatternItem \<Rightarrow> Eid \<Rightarrow> bool" where
  "ipn_item_matches i e =
    (case e of
       Null \<Rightarrow> ipn_item_matches_parts i 0 0 0
     | LocalNode s \<Rightarrow> ipn_item_matches_parts i 0 u32_MAX s
     | LegacyIpn f s \<Rightarrow> ipn_item_matches_parts i (allocator_id f) (node_number f) s
     | Ipn f s \<Rightarrow> ipn_item_matches_parts i (allocator_id f) (node_number f) s
     | _ \<Rightarrow> False)"

definition do_glob :: "glob_ops \<Rightarrow> bytes \<Rightarrow> bytes \<Rightarrow> bytes \<Rightarrow> bool" where
  "do_glob G node_name demux pattern = gl_matches G pattern (node_name @ ascii ''/'' @ demux)"

definition dtn_item_matches :: "glob_ops \<Rightarrow> DtnPatternItem \<Rightarrow> Eid \<Rightarrow> bool" where
  "dtn_item_matches G i e =
    (case i of
       DtnNone \<Rightarrow> is_null e
     | DtnAny \<Rightarrow> (case e of Dtn _ _ \<Rightarrow> True | Unknown scheme _ \<Rightarrow> scheme = 1 | _ \<Rightarrow> False)
     | DtnExact n1 d1 \<Rightarrow> e = Dtn n1 d1
     | DtnGlob pattern \<Rightarrow> (case e of Dtn node service \<Rightarrow> do_glob G node service pattern | _ \<Rightarrow> False))"

definition eid_numeric_scheme :: "Eid \<Rightarrow> u64 option" where
  "eid_numeric_scheme e =
    (case e of
       Null \<Rightarrow> None
     | LocalNode _ \<Rightarrow> Some 2
     | LegacyIpn _ _ \<Rightarrow> Some 2
     | Ipn _ _ \<Rightarrow> Some 2
     | Dtn _ _ \<Rightarrow> Some 1
     | Unknown scheme _ \<Rightarrow> Some scheme)"

definition numeric_scheme_of_text :: "bytes \<Rightarrow> u64 option" where
  "numeric_scheme_of_text scheme =
    (if scheme = ascii ''dtn'' then Some 1 else if scheme = ascii ''ipn'' then Some 2 else None)"

definition item_matches :: "glob_ops \<Rightarrow> EidPatternItem \<Rightarrow> Eid \<Rightarrow> bool" where
  "item_matches G i e =
    (case i of
       IpnItem p \<Rightarrow> ipn_item_matches p e
     | DtnItem p \<Rightarrow> dtn_item_matches G p e
     | AnyNumericScheme n \<Rightarrow> eid_numeric_scheme e = Some n
     | AnyTextScheme s \<Rightarrow>
         (case numeric_scheme_of_text s of Some n \<Rightarrow> eid_numeric_scheme e = Some n | None \<Rightarrow> False))"

definition pattern_matches :: "glob_ops \<Rightarrow> EidPattern \<Rightarrow> Eid \<Rightarrow> bool" where
  "pattern_matches G p e =
    (case p of AnyPattern \<Rightarrow> True | PatternSet items \<Rightarrow> list_ex (\<lambda>i. item_matches G i e) items)"

definition into_atoms :: "EidPattern \<Rightarrow> EidPattern list" where
  "into_atoms p =
    (case p of
       PatternSet items \<Rightarrow> if length items > 1 then map (\<lambda>i. PatternSet [i]) items else [PatternSet items]
     | AnyPattern \<Rightarrow> [AnyPattern])"

section \<open>Subsets\<close>

fun interval_is_subset :: "IpnInterval \<Rightarrow> IpnInterval \<Rightarrow> bool" where
  "interval_is_subset (Number l) (Number r) = (l = r)"
| "interval_is_subset (Number l) (IpnRange a b) = (a \<le> l \<and> l \<le> b)"
| "interval_is_subset (IpnRange _ _) (Number _) = False"
| "interval_is_subset (IpnRange a b) (IpnRange c d) = (c \<le> a \<and> d \<ge> b)"

fun ipn_pattern_is_subset :: "IpnPattern \<Rightarrow> IpnPattern \<Rightarrow> bool" where
  "ipn_pattern_is_subset _ Wildcard = True"
| "ipn_pattern_is_subset Wildcard _ = False"
| "ipn_pattern_is_subset (Single l) (Single r) = (l = r)"
| "ipn_pattern_is_subset (Single l) (Range r) = list_ex (\<lambda>i. interval_matches i l) r"
| "ipn_pattern_is_subset (Range _) (Single _) = False"
| "ipn_pattern_is_subset (Range l) (Range r) = list_all (\<lambda>i. list_ex (interval_is_subset i) r) l"

definition ipn_item_is_subset :: "IpnPatternItem \<Rightarrow> IpnPatternItem \<Rightarrow> bool" where
  "ipn_item_is_subset i j \<longleftrightarrow>
    ipn_pattern_is_subset (ip_allocator_id i) (ip_allocator_id j) \<and>
    ipn_pattern_is_subset (ip_node_number i) (ip_node_number j) \<and>
    ipn_pattern_is_subset (ip_service_number i) (ip_service_number j)"

definition dtn_item_is_subset :: "glob_ops \<Rightarrow> DtnPatternItem \<Rightarrow> DtnPatternItem \<Rightarrow> bool" where
  "dtn_item_is_subset G i j =
    (case (i, j) of
       (DtnNone, DtnNone) \<Rightarrow> True
     | (DtnNone, DtnAny) \<Rightarrow> False
     | (_, DtnAny) \<Rightarrow> True
     | (DtnAny, DtnGlob pattern) \<Rightarrow> pattern = ascii ''**''
     | (DtnExact n1 d1, DtnExact n2 d2) \<Rightarrow> n1 = n2 \<and> d1 = d2
     | (DtnExact n d, DtnGlob pattern) \<Rightarrow> do_glob G n d pattern
     | (DtnGlob _, DtnGlob _) \<Rightarrow> True
     | _ \<Rightarrow> False)"

section \<open>Exact patterns\<close>

fun ipn_pattern_try_to_eid :: "IpnPattern \<Rightarrow> u32 option" where
  "ipn_pattern_try_to_eid (Single n) = Some n"
| "ipn_pattern_try_to_eid (Range [Number n]) = Some n"
| "ipn_pattern_try_to_eid _ = None"

definition ipn_item_try_to_eid :: "IpnPatternItem \<Rightarrow> Eid option" where
  "ipn_item_try_to_eid i =
    Option.bind (ipn_pattern_try_to_eid (ip_allocator_id i)) (\<lambda>a.
    Option.bind (ipn_pattern_try_to_eid (ip_node_number i)) (\<lambda>n.
    Option.bind (ipn_pattern_try_to_eid (ip_service_number i)) (\<lambda>s.
      if a = 0 \<and> n = 0 then (if s = 0 then Some Null else None)
      else if a = 0 \<and> n = u32_MAX then Some (LocalNode s)
      else Some (Ipn \<lparr>allocator_id = a, node_number = n\<rparr> s))))"

definition dtn_item_try_to_eid :: "DtnPatternItem \<Rightarrow> Eid option" where
  "dtn_item_try_to_eid i =
    (case i of DtnNone \<Rightarrow> Some Null | DtnExact n s \<Rightarrow> Some (Dtn n s) | _ \<Rightarrow> None)"

definition item_try_to_eid :: "EidPatternItem \<Rightarrow> Eid option" where
  "item_try_to_eid i =
    (case i of IpnItem p \<Rightarrow> ipn_item_try_to_eid p | DtnItem p \<Rightarrow> dtn_item_try_to_eid p | _ \<Rightarrow> None)"

definition item_is_subset :: "glob_ops \<Rightarrow> EidPatternItem \<Rightarrow> EidPatternItem \<Rightarrow> bool" where
  "item_is_subset G i j =
    (case (i, j) of
       (AnyNumericScheme l, AnyNumericScheme r) \<Rightarrow> l = r
     | (AnyNumericScheme n, AnyTextScheme s) \<Rightarrow> (n = 1 \<and> s = ascii ''dtn'') \<or> (n = 2 \<and> s = ascii ''ipn'')
     | (AnyTextScheme s, AnyNumericScheme n) \<Rightarrow> (n = 1 \<and> s = ascii ''dtn'') \<or> (n = 2 \<and> s = ascii ''ipn'')
     | (AnyTextScheme l, AnyTextScheme r) \<Rightarrow> l = r
     | (IpnItem _, AnyNumericScheme n) \<Rightarrow> n = 2
     | (IpnItem _, AnyTextScheme s) \<Rightarrow> s = ascii ''ipn''
     | (IpnItem l, IpnItem r) \<Rightarrow> ipn_item_is_subset l r
     | (IpnItem l, DtnItem r) \<Rightarrow> ipn_item_try_to_eid l = Some Null \<and> dtn_item_try_to_eid r = Some Null
     | (DtnItem _, AnyNumericScheme n) \<Rightarrow> n = 1
     | (DtnItem _, AnyTextScheme s) \<Rightarrow> s = ascii ''dtn''
     | (DtnItem l, IpnItem r) \<Rightarrow> dtn_item_try_to_eid l = Some Null \<and> ipn_item_try_to_eid r = Some Null
     | (DtnItem l, DtnItem r) \<Rightarrow> dtn_item_is_subset G l r
     | _ \<Rightarrow> False)"

definition pattern_is_subset :: "glob_ops \<Rightarrow> EidPattern \<Rightarrow> EidPattern \<Rightarrow> bool" where
  "pattern_is_subset G p q =
    (case (p, q) of
       (_, AnyPattern) \<Rightarrow> True
     | (AnyPattern, _) \<Rightarrow> False
     | (PatternSet lhs, PatternSet rhs) \<Rightarrow> list_all (\<lambda>l. list_ex (\<lambda>r. item_is_subset G l r) rhs) lhs)"

fun try_from_items :: "EidPatternItem list \<Rightarrow> pattern_error + Eid" where
  "try_from_items [] = Inl NotExact"
| "try_from_items (i # is) =
    (case item_try_to_eid i of
       None \<Rightarrow> Inl NotExact
     | Some first \<Rightarrow> if list_all (\<lambda>j. item_try_to_eid j = Some first) is then Inr first else Inl NotExact)"

definition eid_of_pattern :: "EidPattern \<Rightarrow> pattern_error + Eid" where
  "eid_of_pattern p = (case p of PatternSet items \<Rightarrow> try_from_items items | AnyPattern \<Rightarrow> Inl NotExact)"

section \<open>Conversions into patterns\<close>

definition pattern_of_ipn_node :: "IpnNodeId \<Rightarrow> EidPattern" where
  "pattern_of_ipn_node n = PatternSet [IpnItem (ipn_item_new (allocator_id n) (node_number n) None)]"

definition new_glob :: "text_ops \<Rightarrow> glob_ops \<Rightarrow> bytes \<Rightarrow> pattern_error + DtnPatternItem" where
  "new_glob X G pattern =
    (case tx_percent_decode_utf8 X pattern of
       None \<Rightarrow> Inl PatternParseError
     | Some p \<Rightarrow> if gl_valid G p then Inr (DtnGlob p) else Inl PatternParseError)"

text \<open>The conversion of a \<^verbatim>\<open>dtn\<close> node panics when the glob does not compile.\<close>

definition pattern_of_dtn_node :: "text_ops \<Rightarrow> glob_ops \<Rightarrow> bytes \<Rightarrow> EidPattern option" where
  "pattern_of_dtn_node X G node_name =
    (case new_glob X G (node_name @ ascii ''/**'') of
       Inr g \<Rightarrow> Some (PatternSet [DtnItem g])
     | Inl _ \<Rightarrow> None)"

definition pattern_of_node :: "text_ops \<Rightarrow> glob_ops \<Rightarrow> NodeId \<Rightarrow> EidPattern option" where
  "pattern_of_node X G n =
    (case n of
       NodeLocal \<Rightarrow> Some (PatternSet [IpnItem (ipn_item_new 0 u32_MAX None)])
     | NodeIpn i \<Rightarrow> Some (pattern_of_ipn_node i)
     | NodeDtn d \<Rightarrow> pattern_of_dtn_node X G d)"

definition pattern_of_eid :: "Eid \<Rightarrow> EidPattern" where
  "pattern_of_eid e =
    (case e of
       Null \<Rightarrow> PatternSet [IpnItem (ipn_item_new 0 0 (Some 0)), DtnItem DtnNone]
     | LocalNode s \<Rightarrow> PatternSet [IpnItem (ipn_item_new 0 u32_MAX (Some s))]
     | LegacyIpn f s \<Rightarrow> PatternSet [IpnItem (ipn_item_new (allocator_id f) (node_number f) (Some s))]
     | Ipn f s \<Rightarrow> PatternSet [IpnItem (ipn_item_new (allocator_id f) (node_number f) (Some s))]
     | Dtn n s \<Rightarrow> PatternSet [DtnItem (DtnExact n s)]
     | Unknown scheme _ \<Rightarrow> PatternSet [AnyNumericScheme scheme])"

definition ipn_item_expand_local_node :: "IpnPatternItem \<Rightarrow> IpnNodeId \<Rightarrow> IpnPatternItem option" where
  "ipn_item_expand_local_node i n =
    (if ip_allocator_id i = Single 0 \<and> ip_node_number i = Single u32_MAX
     then Some (i\<lparr>ip_allocator_id := Single (allocator_id n), ip_node_number := Single (node_number n)\<rparr>)
     else None)"

definition item_expand_local_node :: "EidPatternItem \<Rightarrow> IpnNodeId \<Rightarrow> EidPatternItem option" where
  "item_expand_local_node i n =
    (case i of IpnItem p \<Rightarrow> map_option IpnItem (ipn_item_expand_local_node p n) | _ \<Rightarrow> None)"

definition expand_local_node :: "EidPattern \<Rightarrow> IpnNodeId \<Rightarrow> EidPattern option" where
  "expand_local_node p n =
    (case p of
       AnyPattern \<Rightarrow> None
     | PatternSet items \<Rightarrow>
         if list_ex (\<lambda>i. item_expand_local_node i n \<noteq> None) items
         then Some (PatternSet (map (\<lambda>i. case item_expand_local_node i n of Some j \<Rightarrow> j | None \<Rightarrow> i) items))
         else None)"

section \<open>Ranges\<close>

text \<open>\<^verbatim>\<open>parse_ipn_range\<close> on the intervals that were read: sort by the start, merge what overlaps or
  touches, and turn a single value into \<open>Single\<close>.\<close>

definition close_interval :: "u32 \<times> u32 \<Rightarrow> IpnInterval" where
  "close_interval r = (if snd r = fst r then Number (fst r) else IpnRange (fst r) (snd r))"

fun merge_loop :: "u32 \<times> u32 \<Rightarrow> (u32 \<times> u32) list \<Rightarrow> IpnInterval list" where
  "merge_loop current [] = [close_interval current]"
| "merge_loop current (next # rest) =
    (if fst next \<le> saturating_add (snd current) 1
     then merge_loop (fst current, max (snd current) (snd next)) rest
     else close_interval current # merge_loop next rest)"

definition range_of_intervals :: "(u32 \<times> u32) list \<Rightarrow> IpnPattern" where
  "range_of_intervals intervals =
    (case sort_key fst intervals of
       [] \<Rightarrow> Range []
     | current # rest \<Rightarrow>
         (case merge_loop current rest of [Number n] \<Rightarrow> Single n | merged \<Rightarrow> Range merged))"

definition interval_of_bounds :: "u32 \<Rightarrow> u32 option \<Rightarrow> u32 \<times> u32" where
  "interval_of_bounds start e = (let e = (case e of Some e \<Rightarrow> e | None \<Rightarrow> start) in (min start e, max start e))"

section \<open>Specificity\<close>

fun ipn_pattern_is_exact :: "IpnPattern \<Rightarrow> bool" where
  "ipn_pattern_is_exact (Single _) = True"
| "ipn_pattern_is_exact (Range [Number _]) = True"
| "ipn_pattern_is_exact _ = False"

fun interval_count :: "IpnInterval \<Rightarrow> nat" where
  "interval_count (Number _) = 1"
| "interval_count (IpnRange a b) = unat b - unat a + 1"

text \<open>\<^verbatim>\<open>u64::BITS - x.leading_zeros()\<close>.\<close>

fun bit_len :: "nat \<Rightarrow> nat" where
  "bit_len n = (if n = 0 then 0 else Suc (bit_len (n div 2)))"

declare bit_len.simps [simp del]

fun literal_bits :: "IpnPattern \<Rightarrow> nat" where
  "literal_bits Wildcard = 0"
| "literal_bits (Single _) = 32"
| "literal_bits (Range r) =
    (let total = sum_list (map interval_count r) in if total \<le> 1 then 32 else 32 - bit_len (total - 1))"

definition ipn_item_score :: "IpnPatternItem \<Rightarrow> u32 option" where
  "ipn_item_score i =
    (if \<not> ipn_pattern_is_exact (ip_allocator_id i) \<and> ip_node_number i \<noteq> Wildcard then None
     else if \<not> ipn_pattern_is_exact (ip_node_number i) \<and> ip_service_number i \<noteq> Wildcard then None
     else
       let is_exact = ipn_pattern_is_exact (ip_allocator_id i) \<and> ipn_pattern_is_exact (ip_node_number i) \<and>
                      ipn_pattern_is_exact (ip_service_number i);
           bits = literal_bits (ip_allocator_id i) + literal_bits (ip_node_number i) + literal_bits (ip_service_number i)
       in Some ((if is_exact then 256 else 0) + of_nat bits))"

text \<open>Characters of a glob are counted, not bytes: the continuation bytes of UTF-8 do not count.\<close>

definition dtn_item_score :: "DtnPatternItem \<Rightarrow> u32 option" where
  "dtn_item_score i =
    (case i of
       DtnNone \<Rightarrow> Some 256
     | DtnAny \<Rightarrow> Some 0
     | DtnExact n s \<Rightarrow> Some (256 + of_nat (length n) + of_nat (length s))
     | DtnGlob s \<Rightarrow>
         let authority = takeWhile (\<lambda>c. c \<noteq> of_char CHR ''/'') s;
             star = of_char CHR ''*''
         in if length (filter (\<lambda>c. c = star) authority) > 1 then None
            else if star \<in> set authority \<and> star \<notin> set (takeWhile (\<lambda>c. c \<noteq> of_char CHR ''.'') authority) then None
            else Some (of_nat (length (filter (\<lambda>c. \<not> utf8_cont c \<and> c \<notin> set (ascii ''*?[]'')) s))))"

definition item_score :: "EidPatternItem \<Rightarrow> u32 option" where
  "item_score i =
    (case i of
       IpnItem p \<Rightarrow> ipn_item_score p
     | DtnItem p \<Rightarrow> dtn_item_score p
     | AnyNumericScheme _ \<Rightarrow> Some 0
     | AnyTextScheme _ \<Rightarrow> Some 0)"

text \<open>\<^verbatim>\<open>min().flatten()\<close> over options, where \<^verbatim>\<open>None\<close> is below every \<^verbatim>\<open>Some\<close>.\<close>

fun option_min :: "u32 option \<Rightarrow> u32 option \<Rightarrow> u32 option" where
  "option_min (Some a) (Some b) = Some (min a b)"
| "option_min _ _ = None"

fun min_score :: "EidPatternItem list \<Rightarrow> u32 option" where
  "min_score [] = None"
| "min_score [i] = item_score i"
| "min_score (i # is) = option_min (item_score i) (min_score is)"

definition specificity_score :: "EidPattern \<Rightarrow> u32 option" where
  "specificity_score p = (case p of AnyPattern \<Rightarrow> Some 0 | PatternSet items \<Rightarrow> min_score items)"

section \<open>The order of patterns\<close>

fun interval_cmp :: "IpnInterval \<Rightarrow> IpnInterval \<Rightarrow> ordering" where
  "interval_cmp (Number l) (Number r) = compare l r"
| "interval_cmp (Number l) (IpnRange c d) = then_with (compare l c) (compare 0 (d - c))"
| "interval_cmp (IpnRange a b) (Number r) = then_with (compare a r) (compare (b - a) 0)"
| "interval_cmp (IpnRange a b) (IpnRange c d) = then_with (compare a c) (compare (b - a) (d - c))"

text \<open>A derived \<^verbatim>\<open>Ord\<close> compares the position of the variant, then the fields in order; slices are
  compared lexicographically.\<close>

fun interval_key :: "IpnInterval \<Rightarrow> u32 \<times> u32" where
  "interval_key (Number n) = (n, 0)"
| "interval_key (IpnRange a b) = (a, b - a)"

fun ipn_pattern_key :: "IpnPattern \<Rightarrow> nat \<times> u32 \<times> (u32 \<times> u32) list" where
  "ipn_pattern_key Wildcard = (0, 0, [])"
| "ipn_pattern_key (Single n) = (1, n, [])"
| "ipn_pattern_key (Range r) = (2, 0, map interval_key r)"

definition ipn_item_key :: "IpnPatternItem \<Rightarrow>
    (nat \<times> u32 \<times> (u32 \<times> u32) list) \<times> (nat \<times> u32 \<times> (u32 \<times> u32) list) \<times> (nat \<times> u32 \<times> (u32 \<times> u32) list)" where
  "ipn_item_key i =
    (ipn_pattern_key (ip_allocator_id i), ipn_pattern_key (ip_node_number i), ipn_pattern_key (ip_service_number i))"

fun dtn_item_key :: "DtnPatternItem \<Rightarrow> nat \<times> bytes \<times> bytes" where
  "dtn_item_key DtnNone = (0, [], [])"
| "dtn_item_key DtnAny = (1, [], [])"
| "dtn_item_key (DtnExact n s) = (2, n, s)"
| "dtn_item_key (DtnGlob s) = (3, s, [])"

type_synonym item_key = "nat \<times> u64 \<times> bytes \<times>
  ((nat \<times> u32 \<times> (u32 \<times> u32) list) \<times> (nat \<times> u32 \<times> (u32 \<times> u32) list) \<times> (nat \<times> u32 \<times> (u32 \<times> u32) list)) \<times>
  (nat \<times> bytes \<times> bytes)"

fun item_key :: "EidPatternItem \<Rightarrow> item_key" where
  "item_key (AnyNumericScheme n) = (0, n, [], ipn_item_key ANY_IPN, dtn_item_key DtnNone)"
| "item_key (AnyTextScheme s) = (1, 0, s, ipn_item_key ANY_IPN, dtn_item_key DtnNone)"
| "item_key (IpnItem i) = (2, 0, [], ipn_item_key i, dtn_item_key DtnNone)"
| "item_key (DtnItem i) = (3, 0, [], ipn_item_key ANY_IPN, dtn_item_key i)"

definition pattern_cmp :: "EidPattern \<Rightarrow> EidPattern \<Rightarrow> ordering" where
  "pattern_cmp p q =
    (let score = (\<lambda>p. case specificity_score p of Some s \<Rightarrow> s | None \<Rightarrow> 0)
     in then_with (compare (score q) (score p))
          (case (p, q) of
             (AnyPattern, AnyPattern) \<Rightarrow> Equal
           | (AnyPattern, PatternSet _) \<Rightarrow> Less
           | (PatternSet _, AnyPattern) \<Rightarrow> Greater
           | (PatternSet a, PatternSet b) \<Rightarrow> compare (map item_key a) (map item_key b)))"

definition pattern_score :: "EidPattern \<Rightarrow> u32" where
  "pattern_score p = (case specificity_score p of Some s \<Rightarrow> s | None \<Rightarrow> 0)"

definition pattern_key :: "EidPattern \<Rightarrow> int \<times> nat \<times> item_key list" where
  "pattern_key p =
    (- uint (pattern_score p), (case p of AnyPattern \<Rightarrow> (0, []) | PatternSet a \<Rightarrow> (1, map item_key a)))"

lemma interval_cmp_key: "interval_cmp i j = compare (interval_key i) (interval_key j)"
  by (cases i; cases j) (simp_all add: compare_pair)

lemma compare_minus_uint: "compare (- uint a) (- uint b) = compare b (a :: 'a::len word)"
  by (auto simp: compare_def word_less_def word_uint_eq_iff)

lemma pattern_cmp_key: "pattern_cmp p q = compare (pattern_key p) (pattern_key q)"
  by (cases p; cases q)
    (simp_all add: pattern_cmp_def pattern_key_def pattern_score_def compare_pair compare_minus_uint,
      simp_all add: compare_def)

interpretation pattern_order: cmp_order pattern_cmp
  by (rule cmp_order_by_key) (rule pattern_cmp_key)

end
