(* ===== verification/Eid_Pattern_Laws.thy ===== *)
theory Eid_Pattern_Laws
  imports Eid_Pattern
begin

text \<open>
  What the patterns mean: a parsed range denotes the union of the intervals that were written,
  in a normal form; subset tests are sound, and complete on ranges in normal form; a narrower
  pattern never has a lower specificity.
\<close>

section \<open>Normal form of ranges\<close>

fun interval_lo :: "IpnInterval \<Rightarrow> u32" where
  "interval_lo (Number n) = n"
| "interval_lo (IpnRange a _) = a"

fun interval_hi :: "IpnInterval \<Rightarrow> u32" where
  "interval_hi (Number n) = n"
| "interval_hi (IpnRange _ b) = b"

fun interval_ok :: "IpnInterval \<Rightarrow> bool" where
  "interval_ok (Number _) = True"
| "interval_ok (IpnRange a b) = (a < b)"

definition gap :: "IpnInterval \<Rightarrow> IpnInterval \<Rightarrow> bool" where
  "gap i j \<longleftrightarrow> unat (interval_hi i) + 1 < unat (interval_lo j)"

fun ipn_canonical :: "IpnPattern \<Rightarrow> bool" where
  "ipn_canonical (Range r) \<longleftrightarrow> r \<noteq> [] \<and> list_all interval_ok r \<and> sorted_wrt gap r \<and> (\<forall>n. r \<noteq> [Number n])"
| "ipn_canonical _ = True"

lemma interval_matches_iff:
  "interval_ok i \<Longrightarrow> interval_matches i v \<longleftrightarrow> interval_lo i \<le> v \<and> v \<le> interval_hi i"
  by (cases i) auto

lemma interval_lo_hi: "interval_ok i \<Longrightarrow> interval_lo i \<le> interval_hi i"
  by (cases i) auto

lemma close_interval_simps:
  "fst c \<le> snd c \<Longrightarrow> interval_ok (close_interval c)"
  "fst c \<le> snd c \<Longrightarrow> interval_lo (close_interval c) = fst c \<and> interval_hi (close_interval c) = snd c"
  by (auto simp: close_interval_def)

lemma saturating_succ: "(a :: u32) \<le> saturating_add b 1 \<longleftrightarrow> unat a \<le> unat b + 1"
proof -
  have "unat a < 2 ^ 32" using unat_lt2p [of a] by simp
  moreover have "unat (saturating_add b 1) = min (unat b + 1) (2 ^ 32 - 1)"
    by (auto simp: saturating_add_def unat_word_ariths unsigned_minus_1_eq_mask mask_eq_exp_minus_1)
  ultimately show ?thesis by (auto simp: word_le_nat_alt)
qed

lemma merge_loop_matches:
  assumes "sorted (map fst (c # rest))" and "\<forall>(a, b) \<in> set (c # rest). a \<le> b"
  shows "list_ex (\<lambda>i. interval_matches i v) (merge_loop c rest) \<longleftrightarrow>
    (\<exists>(a, b) \<in> set (c # rest). a \<le> v \<and> v \<le> b)"
  using assms
proof (induction c rest rule: merge_loop.induct)
  case (1 c)
  then show ?case by (cases c) (auto simp: close_interval_def)
next
  case (2 c n rest)
  obtain a b where c: "c = (a, b)" by (cases c)
  obtain a' b' where n: "n = (a', b')" by (cases n)
  show ?case
  proof (cases "fst n \<le> saturating_add (snd c) 1")
    case True
    have "sorted (map fst ((fst c, max (snd c) (snd n)) # rest))" using 2(3) by simp
    moreover have "\<forall>(x, y) \<in> set ((fst c, max (snd c) (snd n)) # rest). x \<le> y"
      using 2(4) c n by (auto simp: le_max_iff_disj)
    ultimately have "list_ex (\<lambda>i. interval_matches i v) (merge_loop c (n # rest)) \<longleftrightarrow>
      (a \<le> v \<and> v \<le> max b b') \<or> (\<exists>(x, y) \<in> set rest. x \<le> v \<and> v \<le> y)"
      using 2(1) [OF True] True c n by simp
    moreover have "a \<le> v \<and> v \<le> max b b' \<longleftrightarrow> (a \<le> v \<and> v \<le> b) \<or> (a' \<le> v \<and> v \<le> b')"
    proof -
      have "a \<le> a'" using 2(3) c n by simp
      moreover have "unat a' \<le> unat b + 1" using True c n by (simp add: saturating_succ)
      moreover have "a \<le> b" using 2(4) c by simp
      ultimately show ?thesis by (auto simp: word_le_nat_alt max_def)
    qed
    ultimately show ?thesis using c n by auto
  next
    case False
    have "list_ex (\<lambda>i. interval_matches i v) (merge_loop n rest) \<longleftrightarrow> (\<exists>(x, y) \<in> set (n # rest). x \<le> v \<and> v \<le> y)"
      using 2(3,4) by (intro 2(2) [OF False]) auto
    then show ?thesis using False c 2(4) by (auto simp: close_interval_def)
  qed
qed

lemma merge_loop_head: "interval_lo (hd (merge_loop c rest)) = fst c \<and> merge_loop c rest \<noteq> []"
  by (induction c rest rule: merge_loop.induct) (auto simp: close_interval_def)

lemma merge_loop_lower:
  assumes "sorted (map fst (c # rest))" and "\<forall>(a, b) \<in> set (c # rest). a \<le> b"
    and "i \<in> set (merge_loop c rest)"
  shows "fst c \<le> interval_lo i \<and> interval_ok i"
  using assms
proof (induction c rest rule: merge_loop.induct)
  case (1 c)
  then show ?case by (auto simp: close_interval_simps split_beta)
next
  case (2 c n rest)
  show ?case
  proof (cases "fst n \<le> saturating_add (snd c) 1")
    case True
    then show ?thesis using 2(1) [OF True] 2(3-5) by (auto simp: le_max_iff_disj split_beta)
  next
    case False
    then show ?thesis
      using 2(2) [OF False] 2(3-5) by (force simp: close_interval_simps split_beta)
  qed
qed

lemma merge_loop_gaps:
  assumes "sorted (map fst (c # rest))" and "\<forall>(a, b) \<in> set (c # rest). a \<le> b"
  shows "sorted_wrt gap (merge_loop c rest)"
  using assms
proof (induction c rest rule: merge_loop.induct)
  case (1 c)
  then show ?case by simp
next
  case (2 c n rest)
  show ?case
  proof (cases "fst n \<le> saturating_add (snd c) 1")
    case True
    then show ?thesis using 2(1) [OF True] 2(3,4) by (auto simp: le_max_iff_disj split_beta)
  next
    case False
    have s: "sorted (map fst (n # rest))" "\<forall>(a, b) \<in> set (n # rest). a \<le> b" using 2(3,4) by auto
    have "unat (snd c) + 1 < unat (fst n)" using False by (simp add: saturating_succ)
    then have "gap (close_interval c) i" if "i \<in> set (merge_loop n rest)" for i
      using merge_loop_lower [OF s that] 2(4)
      by (auto simp: gap_def close_interval_simps word_le_nat_alt split_beta)
    then show ?thesis using 2(2) [OF False s] False by simp
  qed
qed

lemma range_of_intervals_canonical:
  assumes "is \<noteq> []" and "\<forall>(a, b) \<in> set is. a \<le> b"
  shows "ipn_canonical (range_of_intervals is) \<and>
    (\<forall>v. ipn_pattern_matches (range_of_intervals is) v \<longleftrightarrow> (\<exists>(a, b) \<in> set is. a \<le> v \<and> v \<le> b))"
proof -
  obtain c rest where s: "sort_key fst is = c # rest"
    using assms(1) by (cases "sort_key fst is") (auto dest: arg_cong [where f = length])
  have st: "set (c # rest) = set is" using s by (metis set_sort)
  have so: "sorted (map fst (c # rest))" using s by (metis sorted_sort_key)
  have ab: "\<forall>(a, b) \<in> set (c # rest). a \<le> b" using assms(2) st by simp
  let ?m = "merge_loop c rest"
  have m: "\<And>v. list_ex (\<lambda>i. interval_matches i v) ?m \<longleftrightarrow> (\<exists>(a, b) \<in> set is. a \<le> v \<and> v \<le> b)"
    unfolding merge_loop_matches [OF so ab] st ..
  have k: "list_all interval_ok ?m" "sorted_wrt gap ?m" "?m \<noteq> []"
    using merge_loop_lower [OF so ab] merge_loop_gaps [OF so ab] merge_loop_head [of c rest]
    by (auto simp: list_all_iff)
  show ?thesis
  proof (cases "\<exists>n. ?m = [Number n]")
    case True
    then obtain n where n: "?m = [Number n]" by blast
    then show ?thesis using m by (auto simp: range_of_intervals_def s)
  next
    case False
    then have "range_of_intervals is = Range ?m"
      by (auto simp: range_of_intervals_def s split: list.splits IpnInterval.splits)
    then show ?thesis using False k m by simp
  qed
qed

section \<open>Subsets of ranges\<close>

lemma ipn_subset_sound: "ipn_pattern_is_subset p q \<Longrightarrow> ipn_pattern_matches p v \<Longrightarrow> ipn_pattern_matches q v"
proof (cases "(p, q)" rule: ipn_pattern_is_subset.cases)
  case (6 l r)
  have i: "interval_is_subset a b \<Longrightarrow> interval_matches a v \<Longrightarrow> interval_matches b v" for a b
    by (cases a; cases b) auto
  assume "ipn_pattern_is_subset p q" "ipn_pattern_matches p v"
  then show ?thesis using 6 i by (auto simp: list_all_iff list_ex_iff) blast
qed auto

text \<open>A run of consecutive values covered by a range in normal form lies in one of its
  intervals.\<close>

lemma run_in_one_interval:
  assumes "list_all interval_ok r" and "sorted_wrt gap r" and "a \<le> b"
    and "\<forall>v. a \<le> v \<and> v \<le> b \<longrightarrow> list_ex (\<lambda>i. interval_matches i v) r"
  shows "\<exists>i \<in> set r. interval_lo i \<le> a \<and> b \<le> interval_hi i"
proof -
  obtain i where i: "i \<in> set r" "interval_matches i a"
    using assms(3,4) by (auto simp: list_ex_iff)
  have ok: "interval_ok i" using assms(1) i(1) by (simp add: list_all_iff)
  have "b \<le> interval_hi i"
  proof (rule ccontr)
    assume "\<not> b \<le> interval_hi i"
    then have hb: "unat (interval_hi i) + 1 \<le> unat b" by (simp add: word_le_nat_alt)
    let ?v = "interval_hi i + 1"
    have v: "unat ?v = unat (interval_hi i) + 1"
      using hb unat_lt2p [of b] by (simp add: unat_word_ariths)
    moreover have "unat a \<le> unat (interval_hi i)"
      using i(2) ok by (simp add: interval_matches_iff word_le_nat_alt)
    ultimately have "a \<le> ?v \<and> ?v \<le> b" using hb by (simp add: word_le_nat_alt)
    then obtain j where j: "j \<in> set r" "interval_matches j ?v" using assms(4) by (auto simp: list_ex_iff)
    have okj: "interval_ok j" using assms(1) j(1) by (simp add: list_all_iff)
    have jb: "unat (interval_lo j) \<le> unat ?v" "unat ?v \<le> unat (interval_hi j)"
      using j(2) okj by (simp_all add: interval_matches_iff word_le_nat_alt)
    have "i = j \<or> gap i j \<or> gap j i"
      using assms(2) i(1) j(1) unfolding sorted_wrt_iff_nth_less in_set_conv_nth
      by (metis linorder_neqE_nat)
    then show False
      using jb v interval_lo_hi [OF ok] interval_lo_hi [OF okj]
      by (auto simp: gap_def word_le_nat_alt)
  qed
  then show ?thesis using i ok by (auto simp: interval_matches_iff)
qed

lemma interval_is_subsetI:
  "interval_ok i \<Longrightarrow> interval_ok j \<Longrightarrow> interval_lo j \<le> interval_lo i \<Longrightarrow> interval_hi i \<le> interval_hi j \<Longrightarrow>
    interval_is_subset i j"
  by (cases i; cases j) auto

lemma ipn_subset_complete:
  assumes "ipn_canonical p" and "ipn_canonical q" and "p \<noteq> Wildcard"
    and "\<forall>v. ipn_pattern_matches p v \<longrightarrow> ipn_pattern_matches q v"
  shows "ipn_pattern_is_subset p q"
proof (cases "(p, q)" rule: ipn_pattern_is_subset.cases)
  case (5 l r)
  obtain i where "i \<in> set l" "interval_ok i" using 5 assms(1) by (cases l) auto
  moreover have "interval_matches j v \<Longrightarrow> v = r" if "j \<in> set l" for j v
    using assms(4) 5 that by (auto simp: list_ex_iff)
  moreover have "\<exists>v \<noteq> r. \<exists>j \<in> set l. interval_matches j v"
  proof (cases i)
    case (Number n)
    then have "length l > 1" using 5 assms(1) \<open>i \<in> set l\<close> by (cases l) auto
    then obtain j k l' where l: "l = j # k # l'" by (cases l; cases "tl l") auto
    have "gap j k" "interval_ok j" "interval_ok k" using assms(1) 5 l by simp_all
    then have "interval_matches j (interval_lo j)" "interval_matches k (interval_lo k)" "interval_lo j \<noteq> interval_lo k"
      using interval_lo_hi [of j] interval_lo_hi [of k]
      by (auto simp: interval_matches_iff gap_def word_le_nat_alt)
    then show ?thesis using l by (metis list.set_intros)
  next
    case (IpnRange a b)
    then have "interval_matches i a" "interval_matches i b" "a \<noteq> b" using \<open>interval_ok i\<close> by auto
    then show ?thesis using \<open>i \<in> set l\<close> by metis
  qed
  ultimately show ?thesis by blast
next
  case (6 l r)
  have "\<exists>j \<in> set r. interval_is_subset i j" if i: "i \<in> set l" for i
  proof -
    have ok: "interval_ok i" using assms(1) 6 i by (simp add: list_all_iff)
    have "\<forall>v. interval_lo i \<le> v \<and> v \<le> interval_hi i \<longrightarrow> list_ex (\<lambda>j. interval_matches j v) r"
      using assms(4) 6 i interval_matches_iff [OF ok] by (auto simp: list_ex_iff)
    then obtain j where j: "j \<in> set r" "interval_lo j \<le> interval_lo i" "interval_hi i \<le> interval_hi j"
      using run_in_one_interval [of r "interval_lo i" "interval_hi i"] assms(2) 6 interval_lo_hi [OF ok] by auto
    moreover have "interval_ok j" using assms(2) 6 j(1) by (simp add: list_all_iff)
    ultimately have "interval_is_subset i j" using ok by (intro interval_is_subsetI)
    then show ?thesis using j(1) by blast
  qed
  then show ?thesis using 6 by (simp add: list_all_iff list_ex_iff)
qed (use assms in auto)

section \<open>Specificity follows inclusion\<close>

lemma bit_len_0 [simp]: "bit_len 0 = 0"
  by (simp add: bit_len.simps)

lemma bit_len_mono: "m \<le> n \<Longrightarrow> bit_len m \<le> bit_len n"
proof (induction n arbitrary: m rule: bit_len.induct)
  case (1 n)
  then show ?case by (cases "m = 0"; cases "n = 0") (auto simp: bit_len.simps [of m] bit_len.simps [of n])
qed

lemma bit_len_pos: "0 < n \<Longrightarrow> 0 < bit_len n"
  by (simp add: bit_len.simps [of n])

lemma bit_len_bound: "n < 2 ^ k \<Longrightarrow> bit_len n \<le> k"
proof (induction k arbitrary: n)
  case 0
  then show ?case by (simp add: bit_len.simps)
next
  case (Suc k)
  then have "n div 2 < 2 ^ k" by auto
  then show ?case using Suc.IH by (simp add: bit_len.simps [of n])
qed

lemma card_word_run: "a \<le> b \<Longrightarrow> card {v :: u32. a \<le> v \<and> v \<le> b} = unat b - unat a + 1"
proof -
  assume "a \<le> b"
  have "inj_on unat {v :: u32. a \<le> v \<and> v \<le> b}" by (rule inj_onI) (simp add: word_unat_eq_iff)
  moreover have "unat ` {v :: u32. a \<le> v \<and> v \<le> b} = {unat a..unat b}"
  proof
    show "unat ` {v :: u32. a \<le> v \<and> v \<le> b} \<subseteq> {unat a..unat b}" by (auto simp: word_le_nat_alt)
    show "{unat a..unat b} \<subseteq> unat ` {v :: u32. a \<le> v \<and> v \<le> b}"
    proof
      fix n assume n: "n \<in> {unat a..unat b}"
      then have "unat (of_nat n :: u32) = n" using unat_lt2p [of b] by (auto simp: unat_of_nat)
      then show "n \<in> unat ` {v :: u32. a \<le> v \<and> v \<le> b}"
        using n by (intro image_eqI [where x = "of_nat n"]) (auto simp: word_le_nat_alt)
    qed
  qed
  ultimately have "card {v :: u32. a \<le> v \<and> v \<le> b} = card {unat a..unat b}"
    using card_image [of unat "{v :: u32. a \<le> v \<and> v \<le> b}"] by simp
  then show ?thesis using \<open>a \<le> b\<close> by (simp add: word_le_nat_alt)
qed

lemma interval_count_card: "interval_ok i \<Longrightarrow> interval_count i = card {v. interval_matches i v}"
  by (cases i) (simp_all add: card_word_run)

lemma ranges_count_card:
  assumes "list_all interval_ok r" and "sorted_wrt gap r"
  shows "sum_list (map interval_count r) = card {v. list_ex (\<lambda>i. interval_matches i v) r}"
  using assms
proof (induction r)
  case Nil
  then show ?case by simp
next
  case (Cons i r)
  have "\<not> interval_matches j v" if "j \<in> set r" "interval_matches i v" for j v
  proof -
    have "gap i j" "interval_ok i" "interval_ok j" using Cons.prems that(1) by (auto simp: list_all_iff)
    then show ?thesis using that(2) by (auto simp: gap_def interval_matches_iff word_le_nat_alt)
  qed
  then have "{v. interval_matches i v} \<inter> {v. list_ex (\<lambda>i. interval_matches i v) r} = {}"
    by (auto simp: list_ex_iff)
  moreover have "{v. list_ex (\<lambda>i. interval_matches i v) (i # r)} =
      {v. interval_matches i v} \<union> {v. list_ex (\<lambda>i. interval_matches i v) r}" by auto
  ultimately show ?case using Cons by (simp add: card_Un_disjoint interval_count_card)
qed

lemma literal_bits_le: "literal_bits p \<le> 32"
  by (cases p) (simp_all add: Let_def)

lemma literal_bits_mono:
  assumes "ipn_canonical p" and "ipn_canonical q" and "ipn_pattern_is_subset p q"
  shows "literal_bits q \<le> literal_bits p"
proof (cases "(p, q)" rule: ipn_pattern_is_subset.cases)
  case (6 l r)
  let ?L = "{v. ipn_pattern_matches (Range l) v}" and ?R = "{v. ipn_pattern_matches (Range r) v}"
  have "card ?L \<le> card ?R"
    using ipn_subset_sound [of "Range l" "Range r"] assms(3) 6
    by (intro card_mono) (auto simp del: ipn_pattern_matches.simps ipn_pattern_is_subset.simps)
  then have "sum_list (map interval_count l) \<le> sum_list (map interval_count r)"
    using assms(1,2) 6 by (simp add: ranges_count_card)
  then have "bit_len (sum_list (map interval_count l) - 1) \<le> bit_len (sum_list (map interval_count r) - 1)"
    by (intro bit_len_mono diff_le_mono)
  then show ?thesis using 6 \<open>sum_list (map interval_count l) \<le> _\<close> by (auto simp: Let_def)
qed (use assms literal_bits_le [of q] in auto)

lemma exact_iff: "ipn_canonical p \<Longrightarrow> ipn_pattern_is_exact p \<longleftrightarrow> (\<exists>n. p = Single n)"
  by (cases p rule: ipn_pattern_is_exact.cases) auto

definition ipn_item_canonical :: "IpnPatternItem \<Rightarrow> bool" where
  "ipn_item_canonical i \<longleftrightarrow> ipn_canonical (ip_allocator_id i) \<and> ipn_canonical (ip_node_number i) \<and>
    ipn_canonical (ip_service_number i)"

lemma ipn_item_score_nat:
  assumes "ipn_item_score i = Some s"
  shows "unat s = (if ipn_pattern_is_exact (ip_allocator_id i) \<and> ipn_pattern_is_exact (ip_node_number i) \<and>
      ipn_pattern_is_exact (ip_service_number i) then 256 else 0) +
    (literal_bits (ip_allocator_id i) + literal_bits (ip_node_number i) + literal_bits (ip_service_number i))"
proof -
  let ?b = "literal_bits (ip_allocator_id i) + literal_bits (ip_node_number i) + literal_bits (ip_service_number i)"
  have b: "?b \<le> 96"
    using literal_bits_le [of "ip_allocator_id i"] literal_bits_le [of "ip_node_number i"]
      literal_bits_le [of "ip_service_number i"] by simp
  then have u: "unat (of_nat ?b :: u32) = ?b" by (simp only: unat_of_nat) simp
  have "unat (256 + of_nat ?b :: u32) = 256 + ?b" using u b by (simp only: unat_word_ariths) simp
  then show ?thesis
    using assms u by (auto simp: ipn_item_score_def Let_def split: if_splits)
qed

lemma exact_mono:
  assumes "ipn_canonical p" "ipn_canonical q" "ipn_pattern_is_subset p q" "ipn_pattern_is_exact q"
  shows "ipn_pattern_is_exact p"
  using assms by (cases p) (auto simp: exact_iff)

lemma ipn_item_score_mono:
  assumes "ipn_item_canonical i" and "ipn_item_canonical j" and "ipn_item_is_subset i j"
    and "ipn_item_score i = Some s" and "ipn_item_score j = Some t"
  shows "t \<le> s"
proof -
  have c: "ipn_canonical (ip_allocator_id i)" "ipn_canonical (ip_allocator_id j)"
    "ipn_canonical (ip_node_number i)" "ipn_canonical (ip_node_number j)"
    "ipn_canonical (ip_service_number i)" "ipn_canonical (ip_service_number j)"
    using assms(1,2) by (simp_all add: ipn_item_canonical_def)
  have k: "ipn_pattern_is_subset (ip_allocator_id i) (ip_allocator_id j)"
    "ipn_pattern_is_subset (ip_node_number i) (ip_node_number j)"
    "ipn_pattern_is_subset (ip_service_number i) (ip_service_number j)"
    using assms(3) by (simp_all add: ipn_item_is_subset_def)
  note bits = literal_bits_mono [OF c(1,2) k(1)] literal_bits_mono [OF c(3,4) k(2)] literal_bits_mono [OF c(5,6) k(3)]
  note exact = exact_mono [OF c(1,2) k(1)] exact_mono [OF c(3,4) k(2)] exact_mono [OF c(5,6) k(3)]
  show ?thesis
    unfolding word_le_nat_alt ipn_item_score_nat [OF assms(4)] ipn_item_score_nat [OF assms(5)]
    using bits exact by auto
qed

section \<open>Whole patterns\<close>

text \<open>What the parser and the conversions produce: the scheme wildcards of \<^verbatim>\<open>dtn\<close> and \<^verbatim>\<open>ipn\<close> are
  written as items of their own.\<close>

fun item_canonical :: "EidPatternItem \<Rightarrow> bool" where
  "item_canonical (AnyNumericScheme n) = (n \<noteq> 1 \<and> n \<noteq> 2)"
| "item_canonical (AnyTextScheme s) = (numeric_scheme_of_text s = None)"
| "item_canonical (IpnItem i) = ipn_item_canonical i"
| "item_canonical (DtnItem _) = True"

fun pattern_canonical :: "EidPattern \<Rightarrow> bool" where
  "pattern_canonical AnyPattern = True"
| "pattern_canonical (PatternSet items) = list_all item_canonical items"

fun glob_free :: "EidPattern \<Rightarrow> bool" where
  "glob_free AnyPattern = True"
| "glob_free (PatternSet items) = list_all (\<lambda>i. \<forall>g. i \<noteq> DtnItem (DtnGlob g)) items"

lemma ipn_item_subset_sound: "ipn_item_is_subset i j \<Longrightarrow> ipn_item_matches i e \<Longrightarrow> ipn_item_matches j e"
  by (cases e) (auto simp: ipn_item_matches_def ipn_item_matches_parts_def ipn_item_is_subset_def intro: ipn_subset_sound)

lemma try_to_eid_matches:
  "ipn_canonical p \<Longrightarrow> ipn_pattern_try_to_eid p = Some n \<Longrightarrow> ipn_pattern_matches p v \<longleftrightarrow> v = n"
  by (cases p rule: ipn_pattern_try_to_eid.cases) auto

lemma ipn_item_null:
  assumes "ipn_item_canonical i" and "ipn_item_try_to_eid i = Some Null"
  shows "ipn_item_matches_parts i a n s \<longleftrightarrow> a = 0 \<and> n = 0 \<and> s = 0"
proof -
  have "ipn_pattern_try_to_eid (ip_allocator_id i) = Some 0" "ipn_pattern_try_to_eid (ip_node_number i) = Some 0"
    "ipn_pattern_try_to_eid (ip_service_number i) = Some 0"
    using assms(2) by (auto simp: ipn_item_try_to_eid_def split: bind_splits if_splits)
  then show ?thesis
    using assms(1) by (simp add: ipn_item_matches_parts_def ipn_item_canonical_def try_to_eid_matches)
qed

lemma item_subset_sound:
  assumes "item_canonical i" and "item_canonical j" and "\<forall>g. i \<noteq> DtnItem (DtnGlob g)"
    and "\<forall>t. gl_matches G (ascii ''**'') t" and "eid_ok F e"
    and "item_is_subset G i j" and "item_matches G i e"
  shows "item_matches G j e"
proof (cases i)
  case (IpnItem p)
  then show ?thesis
  proof (cases j)
    case (DtnItem q)
    then have "dtn_item_try_to_eid q = Some Null" "ipn_item_try_to_eid p = Some Null"
      using assms(6) IpnItem by (simp_all add: item_is_subset_def)
    then have "q = DtnNone" "e = Null"
      using assms(1,5,7) IpnItem ipn_item_null [of p]
      by (auto simp: dtn_item_try_to_eid_def item_matches_def ipn_item_matches_def eid_ok_def u32_MAX_def
          split: DtnPatternItem.splits Eid.splits)
    then show ?thesis using DtnItem by (simp add: item_matches_def dtn_item_matches_def is_null_def)
  qed (use assms IpnItem ipn_item_subset_sound in
      \<open>auto simp: item_is_subset_def item_matches_def numeric_scheme_of_text_def split: if_splits\<close>)
next
  case (DtnItem p)
  then show ?thesis
  proof (cases j)
    case (IpnItem q)
    then have "p = DtnNone" "ipn_item_try_to_eid q = Some Null"
      using assms(6) DtnItem
      by (auto simp: item_is_subset_def dtn_item_try_to_eid_def split: DtnPatternItem.splits)
    then show ?thesis
      using IpnItem DtnItem assms(2,7) ipn_item_null [of q]
      by (auto simp: item_matches_def dtn_item_matches_def is_null_def ipn_item_matches_def split: Eid.splits)
  next
    case q: (DtnItem q)
    then show ?thesis
      using DtnItem assms(3-7)
      by (auto simp: item_is_subset_def item_matches_def dtn_item_is_subset_def dtn_item_matches_def do_glob_def
          eid_ok_def split: DtnPatternItem.splits Eid.splits)
  qed (use assms DtnItem in
      \<open>auto simp: item_is_subset_def item_matches_def numeric_scheme_of_text_def split: if_splits\<close>)
qed (use assms in \<open>auto simp: item_is_subset_def item_matches_def numeric_scheme_of_text_def
      split: EidPatternItem.splits if_splits option.splits\<close>)

lemma pattern_subset_sound:
  assumes "pattern_canonical p" and "pattern_canonical q" and "glob_free p"
    and "\<forall>t. gl_matches G (ascii ''**'') t" and "eid_ok F e"
    and "pattern_is_subset G p q" and "pattern_matches G p e"
  shows "pattern_matches G q e"
proof (cases p)
  case AnyPattern
  then show ?thesis using assms(6) by (simp add: pattern_is_subset_def pattern_matches_def split: EidPattern.splits)
next
  case (PatternSet ps)
  show ?thesis
  proof (cases q)
    case AnyPattern
    then show ?thesis by (simp add: pattern_matches_def)
  next
    case qs: (PatternSet qs)
    obtain i where i: "i \<in> set ps" "item_matches G i e"
      using assms(7) PatternSet by (auto simp: pattern_matches_def list_ex_iff)
    obtain j where j: "j \<in> set qs" "item_is_subset G i j"
      using assms(6) PatternSet qs i(1) by (auto simp: pattern_is_subset_def list_all_iff list_ex_iff)
    have "item_matches G j e"
      using assms(1-3) PatternSet qs i j
      by (intro item_subset_sound [OF _ _ _ assms(4,5) j(2) i(2)]) (auto simp: list_all_iff)
    then show ?thesis using qs j(1) by (auto simp: pattern_matches_def list_ex_iff)
  qed
qed

lemma atoms_match: "pattern_matches G p e \<longleftrightarrow> (\<exists>a \<in> set (into_atoms p). pattern_matches G a e)"
  by (cases p) (auto simp: into_atoms_def pattern_matches_def list_ex_iff)

lemma atoms_canonical: "pattern_canonical p \<Longrightarrow> a \<in> set (into_atoms p) \<Longrightarrow> pattern_canonical a"
  by (cases p) (auto simp: into_atoms_def list_all_iff split: if_splits)

lemma pattern_of_eid_exact:
  assumes "eid_ok F e" and "\<forall>c b. e \<noteq> Unknown c b"
  shows "eid_of_pattern (pattern_of_eid e) = Inr (case e of LegacyIpn n s \<Rightarrow> Ipn n s | _ \<Rightarrow> e)"
  using assms
  by (cases e) (auto simp: pattern_of_eid_def eid_of_pattern_def item_try_to_eid_def ipn_item_new_def
      ipn_item_try_to_eid_def dtn_item_try_to_eid_def eid_ok_def u32_MAX_def)

text \<open>The order separates patterns in normal form, so that each has a slot of its own.\<close>

lemma interval_key_inj: "interval_ok i \<Longrightarrow> interval_ok j \<Longrightarrow> interval_key i = interval_key j \<Longrightarrow> i = j"
  by (cases i; cases j) auto

lemma ipn_pattern_key_inj:
  assumes "ipn_canonical p" "ipn_canonical q" "ipn_pattern_key p = ipn_pattern_key q"
  shows "p = q"
proof (cases p)
  case (Range r)
  with assms(3) obtain r' where r': "q = Range r'" by (cases q) auto
  have "inj_on interval_key (set r \<union> set r')"
    using assms(1,2) Range r' by (auto intro!: inj_onI interval_key_inj simp: list_all_iff)
  then show ?thesis using assms(3) Range r' by (simp add: inj_on_map_eq_map)
qed (use assms in \<open>cases q; simp\<close>)+

lemma item_key_inj:
  assumes "item_canonical i" "item_canonical j" "item_key i = item_key j"
  shows "i = j"
proof (cases i)
  case (IpnItem p)
  with assms(3) obtain q where q: "j = IpnItem q" by (cases j) auto
  show ?thesis
    using assms IpnItem q by (auto simp: ipn_item_key_def ipn_item_canonical_def intro!: ipn_pattern_key_inj
        IpnPatternItem.equality)
next
  case (DtnItem p)
  with assms(3) obtain q where q: "j = DtnItem q" by (cases j) auto
  then show ?thesis using assms(3) DtnItem by (cases p; cases q) auto
qed (use assms in \<open>cases j; simp\<close>)+

lemma pattern_cmp_equal:
  assumes "pattern_canonical p" "pattern_canonical q"
  shows "pattern_cmp p q = Equal \<longleftrightarrow> p = q"
proof
  assume "pattern_cmp p q = Equal"
  then have k: "pattern_key p = pattern_key q" by (simp add: pattern_cmp_key)
  show "p = q"
  proof (cases p)
    case (PatternSet ps)
    with k obtain qs where q: "q = PatternSet qs" by (cases q) (auto simp: pattern_key_def)
    have "inj_on item_key (set ps \<union> set qs)"
      using assms PatternSet q by (auto intro!: inj_onI item_key_inj simp: list_all_iff)
    then show ?thesis using k PatternSet q by (simp add: pattern_key_def inj_on_map_eq_map)
  qed (use k in \<open>cases q; simp add: pattern_key_def\<close>)
qed (simp add: pattern_cmp_key)

end
