(* ===== verification/Bpa_Routing.thy ===== *)
theory Bpa_Routing
  imports Eid_Pattern_Laws Bpv7_Status
begin

unbundle bit_operations_syntax

text \<open>
  The routing state of the bundle protocol agent: \<^verbatim>\<open>node_ids.rs\<close>, the actions of
  \<^verbatim>\<open>routing/action.rs\<close> and the route table of \<^verbatim>\<open>routing/table.rs\<close>. A table maps priorities to
  patterns to entries; the three levels are ordered containers, iterated in ascending order. A
  registered service is known by its service identifier, by which the source compares and
  hashes it, and its registration identifier.
\<close>

section \<open>Node identifiers\<close>

record NodeIds =
  ni_ipn :: "IpnNodeId option"
  ni_dtn :: "bytes option"

datatype node_ids_error = LocalNodeId | MultipleIpnNodeIds | MultipleDtnNodeIds | NoIpnNodeId | NoDtnNodeId

definition service_is_admin_endpoint :: "Service \<Rightarrow> bool" where
  "service_is_admin_endpoint s \<longleftrightarrow> s = ServiceIpn 0 \<or> s = ServiceDtn []"

text \<open>\<open>None\<close> is the \<^verbatim>\<open>unreachable!\<close> of a value with no scheme at all.\<close>

definition get_admin_endpoint :: "NodeIds \<Rightarrow> Eid \<Rightarrow> Eid option" where
  "get_admin_endpoint ids destination =
    (case (destination, ni_ipn ids, ni_dtn ids) of
       (LegacyIpn _ _, Some n, _) \<Rightarrow> Some (LegacyIpn n 0)
     | (Dtn _ _, _, Some d) \<Rightarrow> Some (eid_of_dtn_node d)
     | (_, None, Some d) \<Rightarrow> Some (eid_of_dtn_node d)
     | (_, Some n, _) \<Rightarrow> Some (eid_of_ipn_node n)
     | (_, None, None) \<Rightarrow> None)"

definition ids_expand_local_node :: "NodeIds \<Rightarrow> Eid \<Rightarrow> Eid option" where
  "ids_expand_local_node ids e =
    (case e of LocalNode s \<Rightarrow> map_option (\<lambda>n. Ipn n s) (ni_ipn ids) | _ \<Rightarrow> None)"

definition local_service_eid :: "NodeIds \<Rightarrow> Eid \<Rightarrow> Eid option" where
  "local_service_eid ids e =
    (case e of
       LocalNode _ \<Rightarrow> ids_expand_local_node ids e
     | Ipn n s \<Rightarrow> if ni_ipn ids = Some n then Some (Ipn n s) else None
     | LegacyIpn n s \<Rightarrow> if ni_ipn ids = Some n then Some (Ipn n s) else None
     | Dtn n s \<Rightarrow> if ni_dtn ids = Some n then Some (Dtn n s) else None
     | _ \<Rightarrow> None)"

definition is_local :: "NodeIds \<Rightarrow> Eid \<Rightarrow> bool" where
  "is_local ids e \<longleftrightarrow> (case e of LocalNode _ \<Rightarrow> True | _ \<Rightarrow> local_service_eid ids e \<noteq> None)"

definition resolve_eid :: "NodeIds \<Rightarrow> Service \<Rightarrow> node_ids_error + Eid" where
  "resolve_eid ids s =
    (case s of
       ServiceIpn n \<Rightarrow> and_then (ok_or (ni_ipn ids) NoIpnNodeId) (\<lambda>f. Inr (Ipn f n))
     | ServiceDtn name \<Rightarrow> and_then (ok_or (ni_dtn ids) NoDtnNodeId) (\<lambda>d. Inr (Dtn d name)))"

definition node_ids_list :: "NodeIds \<Rightarrow> NodeId list" where
  "node_ids_list ids =
    (case ni_ipn ids of Some n \<Rightarrow> [NodeIpn n] | None \<Rightarrow> []) @
    (case ni_dtn ids of Some d \<Rightarrow> [NodeDtn d] | None \<Rightarrow> [])"

fun node_ids_loop :: "NodeId list \<Rightarrow> NodeIds \<Rightarrow> node_ids_error + NodeIds" where
  "node_ids_loop [] ids = Inr ids"
| "node_ids_loop (NodeIpn n # r) ids =
    (if \<exists>m. ni_ipn ids = Some m \<and> n \<noteq> m then Inl MultipleIpnNodeIds
     else node_ids_loop r (ids\<lparr>ni_ipn := Some n\<rparr>))"
| "node_ids_loop (NodeDtn d # r) ids =
    (if \<exists>m. ni_dtn ids = Some m \<and> m \<noteq> d then Inl MultipleDtnNodeIds
     else node_ids_loop r (ids\<lparr>ni_dtn := Some d\<rparr>))"
| "node_ids_loop (NodeLocal # r) ids = Inl LocalNodeId"

definition node_ids_try_from :: "NodeId list \<Rightarrow> node_ids_error + NodeIds" where
  "node_ids_try_from ns = node_ids_loop ns \<lparr>ni_ipn = None, ni_dtn = None\<rparr>"

section \<open>Actions\<close>

record service =
  svc_id :: Service
  svc_eid :: Eid

datatype RouteAction = Via Eid | Reflect | DropBundle "ReasonCode option"

datatype InternalAction = ForwardTo u32 | Local service | AdminEndpoint

datatype Action = Route RouteAction | Internal InternalAction

text \<open>The derived order of identifiers: variants in the order of the declaration, then fields.\<close>

fun eid_key :: "Eid \<Rightarrow> nat \<times> u64 \<times> u64 \<times> u64 \<times> bytes \<times> bytes" where
  "eid_key Null = (0, 0, 0, 0, [], [])"
| "eid_key (LocalNode s) = (1, ucast s, 0, 0, [], [])"
| "eid_key (LegacyIpn n s) = (2, ucast (allocator_id n), ucast (node_number n), ucast s, [], [])"
| "eid_key (Ipn n s) = (3, ucast (allocator_id n), ucast (node_number n), ucast s, [], [])"
| "eid_key (Dtn n s) = (4, 0, 0, 0, n, s)"
| "eid_key (Unknown scheme ssp) = (5, scheme, 0, 0, ssp, [])"

fun service_key :: "Service \<Rightarrow> nat \<times> u32 \<times> bytes" where
  "service_key (ServiceIpn n) = (0, n, [])"
| "service_key (ServiceDtn s) = (1, 0, s)"

definition reason_key :: "ReasonCode \<Rightarrow> nat \<times> u64" where
  "reason_key r = (case r of Unassigned v \<Rightarrow> (17, v) | _ \<Rightarrow> (unat (reason_into r), 0))"

fun option_reason_key :: "ReasonCode option \<Rightarrow> nat \<times> nat \<times> u64" where
  "option_reason_key None = (0, 0, 0)"
| "option_reason_key (Some r) = (1, reason_key r)"

fun route_action_rank :: "RouteAction \<Rightarrow> nat" where
  "route_action_rank (DropBundle _) = 0"
| "route_action_rank Reflect = 1"
| "route_action_rank (Via _) = 2"

definition route_action_cmp :: "RouteAction \<Rightarrow> RouteAction \<Rightarrow> ordering" where
  "route_action_cmp a b =
    then_with (compare (route_action_rank a) (route_action_rank b))
      (case (a, b) of
         (DropBundle x, DropBundle y) \<Rightarrow> compare (option_reason_key x) (option_reason_key y)
       | (Via x, Via y) \<Rightarrow> compare (eid_key x) (eid_key y)
       | _ \<Rightarrow> Equal)"

fun internal_action_rank :: "InternalAction \<Rightarrow> nat" where
  "internal_action_rank AdminEndpoint = 0"
| "internal_action_rank (Local _) = 1"
| "internal_action_rank (ForwardTo _) = 2"

definition internal_action_cmp :: "InternalAction \<Rightarrow> InternalAction \<Rightarrow> ordering" where
  "internal_action_cmp a b =
    then_with (compare (internal_action_rank a) (internal_action_rank b))
      (case (a, b) of
         (Local x, Local y) \<Rightarrow> compare (service_key (svc_id x)) (service_key (svc_id y))
       | (ForwardTo x, ForwardTo y) \<Rightarrow> compare x y
       | _ \<Rightarrow> Equal)"

fun action_rank :: "Action \<Rightarrow> nat" where
  "action_rank (Route (DropBundle _)) = 0"
| "action_rank (Internal AdminEndpoint) = 1"
| "action_rank (Internal (Local _)) = 2"
| "action_rank (Internal (ForwardTo _)) = 3"
| "action_rank (Route Reflect) = 4"
| "action_rank (Route (Via _)) = 5"

definition action_cmp :: "Action \<Rightarrow> Action \<Rightarrow> ordering" where
  "action_cmp a b =
    then_with (compare (action_rank a) (action_rank b))
      (case (a, b) of
         (Route x, Route y) \<Rightarrow> route_action_cmp x y
       | (Internal x, Internal y) \<Rightarrow> internal_action_cmp x y
       | _ \<Rightarrow> Equal)"

record Entry =
  en_action :: Action
  en_source :: bytes

definition entry_cmp :: "Entry \<Rightarrow> Entry \<Rightarrow> ordering" where
  "entry_cmp a b = then_with (action_cmp (en_action a) (en_action b)) (compare (en_source a) (en_source b))"

type_synonym action_key = "nat \<times> (nat \<times> nat \<times> u64) \<times> (nat \<times> u64 \<times> u64 \<times> u64 \<times> bytes \<times> bytes) \<times>
  (nat \<times> u32 \<times> bytes) \<times> u32"

fun action_key :: "Action \<Rightarrow> action_key" where
  "action_key (Route (DropBundle r)) = (0, option_reason_key r, eid_key Null, (0, 0, []), 0)"
| "action_key (Internal AdminEndpoint) = (1, (0, 0, 0), eid_key Null, (0, 0, []), 0)"
| "action_key (Internal (Local s)) = (2, (0, 0, 0), eid_key Null, service_key (svc_id s), 0)"
| "action_key (Internal (ForwardTo p)) = (3, (0, 0, 0), eid_key Null, (0, 0, []), p)"
| "action_key (Route Reflect) = (4, (0, 0, 0), eid_key Null, (0, 0, []), 0)"
| "action_key (Route (Via e)) = (5, (0, 0, 0), eid_key e, (0, 0, []), 0)"

lemma action_cmp_key: "action_cmp a b = compare (action_key a) (action_key b)"
  by (cases a rule: action_rank.cases; cases b rule: action_rank.cases)
    (simp_all add: action_cmp_def route_action_cmp_def internal_action_cmp_def compare_pair,
      simp_all add: compare_def)

interpretation entry_order: cmp_order entry_cmp
  by (rule cmp_order_by_key [of _ "\<lambda>e. (action_key (en_action e), en_source e)"])
    (simp add: entry_cmp_def action_cmp_key compare_pair)

section \<open>The route table\<close>

type_synonym routes = "(u32 \<times> (EidPattern \<times> Entry list) list) list"

record RouteTable =
  rt_routes :: routes
  rt_node_ids :: NodeIds

datatype routing_error = NullNextHop | ViaOwnNode Eid | AgentAlreadyExists bytes

definition admin_entry :: Entry where
  "admin_entry = \<lparr>en_action = Internal AdminEndpoint, en_source = ascii ''administrative endpoint''\<rparr>"

definition table_new :: "NodeIds \<Rightarrow> RouteTable" where
  "table_new ids =
    (let m0 = [];
         m1 = (case ni_dtn ids of
                 Some d \<Rightarrow> bt_put pattern_cmp (pattern_of_eid (eid_of_dtn_node d)) [admin_entry] m0
               | None \<Rightarrow> m0);
         m2 = (case ni_ipn ids of
                 Some n \<Rightarrow> bt_put pattern_cmp (pattern_of_eid (eid_of_ipn_node n)) [admin_entry] m1
               | None \<Rightarrow> m1)
     in \<lparr>rt_routes = bt_put compare 0 m2 [], rt_node_ids = ids\<rparr>)"

definition insert_atom :: "Entry \<Rightarrow> u32 \<Rightarrow> EidPattern \<Rightarrow> bool \<times> routes \<Rightarrow> bool \<times> routes" where
  "insert_atom entry priority pattern st =
    (let (inserted, routes) = st
     in case bt_get compare routes priority of
          None \<Rightarrow> (True, bt_put compare priority [(pattern, [entry])] routes)
        | Some patterns \<Rightarrow>
            (case bt_get pattern_cmp patterns pattern of
               None \<Rightarrow> (True, bt_put compare priority (bt_put pattern_cmp pattern [entry] patterns) routes)
             | Some actions \<Rightarrow>
                 let (new, actions') = bs_insert entry_cmp entry actions
                 in (inserted \<or> new, bt_put compare priority (bt_put pattern_cmp pattern actions' patterns) routes)))"

definition next_hop_error :: "NodeIds \<Rightarrow> Action \<Rightarrow> routing_error option" where
  "next_hop_error ids a =
    (case a of
       Route (Via next_hop) \<Rightarrow>
         if is_null next_hop then Some NullNextHop
         else if is_local ids next_hop then Some (ViaOwnNode next_hop)
         else None
     | _ \<Rightarrow> None)"

definition table_insert :: "RouteTable \<Rightarrow> EidPattern \<Rightarrow> Entry \<Rightarrow> u32 \<Rightarrow> routing_error + (bool \<times> RouteTable)" where
  "table_insert T pattern entry priority =
    (case next_hop_error (rt_node_ids T) (en_action entry) of
       Some e \<Rightarrow> Inl e
     | None \<Rightarrow>
         let (inserted, routes) = fold (insert_atom entry priority) (into_atoms pattern) (False, rt_routes T)
         in Inr (inserted, T\<lparr>rt_routes := routes\<rparr>))"

definition remove_atom :: "Entry \<Rightarrow> u32 \<Rightarrow> EidPattern \<Rightarrow> bool \<times> routes \<Rightarrow> bool \<times> routes" where
  "remove_atom entry priority pattern st =
    (let (removed, routes) = st
     in case bt_get compare routes priority of
          None \<Rightarrow> st
        | Some patterns \<Rightarrow>
            (case bt_get pattern_cmp patterns pattern of
               None \<Rightarrow> st
             | Some actions \<Rightarrow>
                 let (found, actions') = bs_remove entry_cmp entry actions
                 in if \<not> found then st
                    else if actions' \<noteq> [] then
                      (True, bt_put compare priority (bt_put pattern_cmp pattern actions' patterns) routes)
                    else
                      let patterns' = bt_del pattern_cmp pattern patterns
                      in (True, if patterns' = [] then bt_del compare priority routes
                                else bt_put compare priority patterns' routes)))"

definition table_remove :: "RouteTable \<Rightarrow> EidPattern \<Rightarrow> Entry \<Rightarrow> u32 \<Rightarrow> bool \<times> RouteTable" where
  "table_remove T pattern entry priority =
    (let (removed, routes) = fold (remove_atom entry priority) (into_atoms pattern) (False, rt_routes T)
     in (removed, T\<lparr>rt_routes := routes\<rparr>))"

definition table_entries :: "routes \<Rightarrow> Entry list" where
  "table_entries routes = concat (map (\<lambda>(_, patterns). concat (map snd patterns)) routes)"

fun via_of :: "Action \<Rightarrow> Eid list" where
  "via_of (Route (Via to)) = [to]"
| "via_of _ = []"

fun forward_of :: "Action \<Rightarrow> u32 list" where
  "forward_of (Internal (ForwardTo p)) = [p]"
| "forward_of _ = []"

fun is_local_action :: "Action \<Rightarrow> bool" where
  "is_local_action (Internal (Local _)) = True"
| "is_local_action _ = False"

definition retain_routes :: "bytes \<Rightarrow> routes \<Rightarrow> routes" where
  "retain_routes source routes =
    filter (\<lambda>(_, patterns). patterns \<noteq> [])
      (map (\<lambda>(priority, patterns).
        (priority, filter (\<lambda>(_, actions). actions \<noteq> [])
          (map (\<lambda>(pattern, actions). (pattern, filter (\<lambda>e. en_source e \<noteq> source) actions)) patterns))) routes)"

definition table_remove_by_source ::
  "RouteTable \<Rightarrow> bytes \<Rightarrow> (Eid set \<times> u32 set \<times> bool \<times> nat) \<times> RouteTable" where
  "table_remove_by_source T source =
    (let gone = map en_action (filter (\<lambda>e. en_source e = source) (table_entries (rt_routes T)))
     in ((set (concat (map via_of gone)), set (concat (map forward_of gone)), list_ex is_local_action gone, length gone),
         T\<lparr>rt_routes := retain_routes source (rt_routes T)\<rparr>))"

definition impacted_vias :: "glob_ops \<Rightarrow> RouteTable \<Rightarrow> EidPattern \<Rightarrow> u32 \<Rightarrow> Eid set" where
  "impacted_vias G T pattern priority =
    set (concat (map (\<lambda>(_, patterns).
      concat (map (\<lambda>(p, actions).
        if pattern_is_subset G p pattern then concat (map (\<lambda>e. via_of (en_action e)) actions) else []) patterns))
      (filter (\<lambda>(pr, _). priority \<le> pr) (rt_routes T))))"

section \<open>Lookup\<close>

datatype LookupResult =
    FoundAdminEndpoint
  | FoundDeliver service
  | FoundForward u32 Eid
  | FoundForwardEcmp "(u32 \<times> Eid) list"
  | FoundDrop "ReasonCode option"
  | FoundReflect

text \<open>\<^verbatim>\<open>binary_search_by_key\<close> reports the position of the key or the place to insert it; the list is
  sorted by peer.\<close>

definition sorted_insert :: "u32 \<Rightarrow> Eid \<Rightarrow> (u32 \<times> Eid) list \<Rightarrow> (u32 \<times> Eid) list" where
  "sorted_insert peer next_hop peers =
    (if peer \<in> set (map fst peers) then peers
     else takeWhile (\<lambda>x. fst x < peer) peers @ (peer, next_hop) # dropWhile (\<lambda>x. fst x < peer) peers)"

definition insert_all :: "(u32 \<times> Eid) list \<Rightarrow> (u32 \<times> Eid) list \<Rightarrow> (u32 \<times> Eid) list" where
  "insert_all sub peers = fold (\<lambda>(p, n). sorted_insert p n) sub peers"

text \<open>The action sets whose pattern matches, in the order of the two outer loops.\<close>

definition matching_groups :: "glob_ops \<Rightarrow> RouteTable \<Rightarrow> Eid \<Rightarrow> Entry list list" where
  "matching_groups G T to =
    concat (map (\<lambda>(_, patterns). map snd (filter (\<lambda>(p, _). pattern_matches G p to) patterns)) (rt_routes T))"

definition entries_vias :: "Entry list \<Rightarrow> Eid set" where
  "entries_vias es = set (concat (map (\<lambda>e. via_of (en_action e)) es))"

definition groups_vias :: "Entry list list \<Rightarrow> Eid set" where
  "groups_vias gs = entries_vias (concat gs)"

definition table_vias :: "RouteTable \<Rightarrow> Eid set" where
  "table_vias T = groups_vias (concat (map (\<lambda>(_, patterns). map snd patterns) (rt_routes T)))"

definition groups_size :: "Entry list list \<Rightarrow> nat" where
  "groups_size gs = sum_list (map (\<lambda>g. Suc (length g)) gs)"

lemma vias_simps [simp]:
  "groups_vias [] = {}" "groups_vias (g # gs) = entries_vias g \<union> groups_vias gs" "finite (groups_vias gs)"
  "entries_vias [] = {}" "entries_vias (e # es) = set (via_of (en_action e)) \<union> entries_vias es"
  "finite (entries_vias es)"
  by (auto simp: groups_vias_def entries_vias_def)

lemma matching_groups_vias: "groups_vias (matching_groups G T to) \<subseteq> table_vias T"
  unfolding groups_vias_def entries_vias_def table_vias_def matching_groups_def
  by (fastforce split: if_splits)

lemma finite_table_vias [simp]: "finite (table_vias T)"
  by (simp add: table_vias_def)

definition find_measure where
  "find_measure = case_sum
    (\<lambda>(G, T, r :: bool, to, trail). (card (insert to (table_vias T) - trail), Suc (groups_size (matching_groups G T to))))
    (case_sum
      (\<lambda>(G :: glob_ops, T, r :: bool, to, trail, gs).
        (card (insert to (table_vias T \<union> groups_vias gs) - trail), groups_size gs))
      (\<lambda>(G :: glob_ops, T, r :: bool, to, trail, es, peers :: (u32 \<times> Eid) list).
        (card (insert to (table_vias T \<union> entries_vias es) - trail), length es)))"

lemma find_measure_shrinks:
  assumes "finite A" "finite B" "B \<subseteq> A" "s < t"
  shows "((card (B - trail), s), (card (A - trail), t)) \<in> less_than <*lex*> less_than"
proof -
  have "card (B - trail) \<le> card (A - trail)" using assms by (intro card_mono) auto
  then show ?thesis using assms(4) by auto
qed

lemma find_measure_deeper:
  assumes "finite A" "to \<in> A" "to \<notin> trail" "B \<subseteq> A"
  shows "((card (B - insert to trail), s), (card (A - trail), t)) \<in> less_than <*lex*> less_than"
proof -
  have "card (B - insert to trail) < card (A - trail)" using assms by (intro psubset_card_mono) auto
  then show ?thesis by simp
qed

text \<open>
  \<^verbatim>\<open>find_recurse\<close>: the loop over the entries of one action set returns either a result
  (\<open>Inl\<close>, the early returns) or the peers collected so far. The set \<open>trail\<close> holds the
  identifiers being resolved; the recursion ends because it grows and only identifiers that
  occur in the table are ever resolved.
\<close>

function (sequential)
  find_recurse :: "glob_ops \<Rightarrow> RouteTable \<Rightarrow> bool \<Rightarrow> Eid \<Rightarrow> Eid set \<Rightarrow> LookupResult option" and
  find_groups :: "glob_ops \<Rightarrow> RouteTable \<Rightarrow> bool \<Rightarrow> Eid \<Rightarrow> Eid set \<Rightarrow> Entry list list \<Rightarrow> LookupResult option" and
  find_entries :: "glob_ops \<Rightarrow> RouteTable \<Rightarrow> bool \<Rightarrow> Eid \<Rightarrow> Eid set \<Rightarrow> Entry list \<Rightarrow> (u32 \<times> Eid) list \<Rightarrow>
    LookupResult + (u32 \<times> Eid) list" where
  "find_recurse G T reflect to trail = find_groups G T reflect to trail (matching_groups G T to)"
| "find_groups G T reflect to trail [] = None"
| "find_groups G T reflect to trail (actions # gs) =
    (case find_entries G T reflect to trail actions [] of
       Inl r \<Rightarrow> Some r
     | Inr [] \<Rightarrow> find_groups G T reflect to trail gs
     | Inr [(peer, next_hop)] \<Rightarrow> Some (FoundForward peer next_hop)
     | Inr peers \<Rightarrow> Some (FoundForwardEcmp peers))"
| "find_entries G T reflect to trail [] peers = Inr peers"
| "find_entries G T reflect to trail (e # es) peers =
    (case en_action e of
       Route (DropBundle reason) \<Rightarrow> Inl (FoundDrop reason)
     | Route Reflect \<Rightarrow>
         if reflect then Inl FoundReflect else find_entries G T reflect to trail es peers
     | Route (Via via) \<Rightarrow>
         if to \<in> trail then find_entries G T reflect to trail es peers
         else (case find_recurse G T reflect via (insert to trail) of
                 Some (FoundForward p n) \<Rightarrow> find_entries G T reflect to trail es (sorted_insert p n peers)
               | Some (FoundForwardEcmp sub) \<Rightarrow> find_entries G T reflect to trail es (insert_all sub peers)
               | Some other \<Rightarrow> Inl other
               | None \<Rightarrow> find_entries G T reflect to trail es peers)
     | Internal AdminEndpoint \<Rightarrow> Inl FoundAdminEndpoint
     | Internal (Local s) \<Rightarrow> Inl (FoundDeliver s)
     | Internal (ForwardTo peer) \<Rightarrow> find_entries G T reflect to trail es (sorted_insert peer to peers))"
  by pat_completeness auto

termination
proof (relation "inv_image (less_than <*lex*> less_than) find_measure", goal_cases)
  case 1
  then show ?case by auto
next
  case (2 G T reflect to trail)
  then show ?case
    using matching_groups_vias [of G T to]
    unfolding in_inv_image find_measure_def sum.case prod.case by (intro find_measure_shrinks) auto
qed (unfold in_inv_image find_measure_def sum.case prod.case,
    ((rule find_measure_deeper; force) | (rule find_measure_shrinks; force simp: groups_size_def))+)

declare find_recurse.simps [simp del]

definition find_peers :: "glob_ops \<Rightarrow> RouteTable \<Rightarrow> Eid \<Rightarrow> u32 set option" where
  "find_peers G T to =
    (case find_recurse G T False to {} of
       Some (FoundForward peer _) \<Rightarrow> Some {peer}
     | Some (FoundForwardEcmp peers) \<Rightarrow> Some (set (map fst peers))
     | _ \<Rightarrow> None)"

fun service_of :: "Action \<Rightarrow> service option" where
  "service_of (Internal (Local s)) = Some s"
| "service_of _ = None"

definition find_service :: "glob_ops \<Rightarrow> RouteTable \<Rightarrow> Eid \<Rightarrow> service option" where
  "find_service G T to =
    (case List.map_filter (\<lambda>e. service_of (en_action e)) (concat (matching_groups G T to)) of
       s # _ \<Rightarrow> Some s
     | [] \<Rightarrow> None)"

end
