(* ===== verification/Bpa_Lookup.thy ===== *)
theory Bpa_Lookup
  imports Bpa_Routing
begin

text \<open>
  What a route lookup returns: every answer is backed by entries of the table along a chain of
  \<^verbatim>\<open>Via\<close> routes, and an answer is found whenever such a chain exists, loops in the table
  notwithstanding.
\<close>

section \<open>Chains of routes\<close>

definition matches_entry :: "glob_ops \<Rightarrow> RouteTable \<Rightarrow> Eid \<Rightarrow> Entry \<Rightarrow> bool" where
  "matches_entry G T to e \<longleftrightarrow> e \<in> set (concat (matching_groups G T to))"

inductive via_chain :: "glob_ops \<Rightarrow> RouteTable \<Rightarrow> Eid \<Rightarrow> Eid \<Rightarrow> bool" for G T where
  here: "via_chain G T to to"
| via: "matches_entry G T to e \<Longrightarrow> en_action e = Route (Via v) \<Longrightarrow> via_chain G T v x \<Longrightarrow> via_chain G T to x"

definition leads :: "glob_ops \<Rightarrow> RouteTable \<Rightarrow> Eid \<Rightarrow> Eid \<Rightarrow> Action \<Rightarrow> bool" where
  "leads G T to x a \<longleftrightarrow> via_chain G T to x \<and> (\<exists>e. matches_entry G T x e \<and> en_action e = a)"

lemma leads_here: "matches_entry G T to e \<Longrightarrow> leads G T to to (en_action e)"
  unfolding leads_def using via_chain.here by blast

lemma leads_via:
  "matches_entry G T to e \<Longrightarrow> en_action e = Route (Via v) \<Longrightarrow> leads G T v x a \<Longrightarrow> leads G T to x a"
  unfolding leads_def using via_chain.via by blast

section \<open>Answers are backed by routes\<close>

definition peers_backed :: "glob_ops \<Rightarrow> RouteTable \<Rightarrow> Eid \<Rightarrow> (u32 \<times> Eid) list \<Rightarrow> bool" where
  "peers_backed G T to peers \<longleftrightarrow>
    sorted_wrt (<) (map fst peers) \<and> (\<forall>(p, n) \<in> set peers. leads G T to n (Internal (ForwardTo p)))"

fun answer_backed :: "glob_ops \<Rightarrow> RouteTable \<Rightarrow> bool \<Rightarrow> Eid \<Rightarrow> LookupResult \<Rightarrow> bool" where
  "answer_backed G T r to FoundAdminEndpoint = (\<exists>x. leads G T to x (Internal AdminEndpoint))"
| "answer_backed G T r to (FoundDeliver s) = (\<exists>x. leads G T to x (Internal (Local s)))"
| "answer_backed G T r to (FoundForward p n) = leads G T to n (Internal (ForwardTo p))"
| "answer_backed G T r to (FoundForwardEcmp peers) = (length peers \<ge> 2 \<and> peers_backed G T to peers)"
| "answer_backed G T r to (FoundDrop reason) = (\<exists>x. leads G T to x (Route (DropBundle reason)))"
| "answer_backed G T r to FoundReflect = (r \<and> (\<exists>x. leads G T to x (Route Reflect)))"

lemma answer_backed_via:
  assumes "matches_entry G T to e" "en_action e = Route (Via v)" "answer_backed G T r v a"
  shows "answer_backed G T r to a"
proof -
  note lv = leads_via [OF assms(1,2)]
  show ?thesis using assms(3) lv by (cases a) (auto simp: peers_backed_def)
qed

lemma set_sorted_insert: "set (sorted_insert p n peers) \<subseteq> insert (p, n) (set peers)"
  by (auto simp: sorted_insert_def dest: set_takeWhileD set_dropWhileD)

lemma sorted_insert_sorted: "sorted_wrt (<) (map fst peers) \<Longrightarrow> sorted_wrt (<) (map fst (sorted_insert p n peers))"
proof (induction peers)
  case Nil
  then show ?case by (simp add: sorted_insert_def)
next
  case (Cons q peers)
  show ?case
  proof (cases "p \<in> set (map fst (q # peers))")
    case True
    then show ?thesis using Cons.prems by (simp add: sorted_insert_def)
  next
    case False
    then have eq: "sorted_insert p n (q # peers) = (if fst q < p then q # sorted_insert p n peers else (p, n) # q # peers)"
      by (simp add: sorted_insert_def)
    show ?thesis
    proof (cases "fst q < p")
      case True
      then show ?thesis using Cons set_sorted_insert [of p n peers] unfolding eq by fastforce
    next
      case f: False
      then have "p < fst q" using False by auto
      then show ?thesis using Cons.prems f unfolding eq by auto
    qed
  qed
qed

lemma peers_backed_simps [simp]:
  "peers_backed G T to []" "peers_backed G T to [(p, n)] \<longleftrightarrow> leads G T to n (Internal (ForwardTo p))"
  by (simp_all add: peers_backed_def)

lemma peers_backed_insert:
  "peers_backed G T to peers \<Longrightarrow> leads G T to n (Internal (ForwardTo p)) \<Longrightarrow>
    peers_backed G T to (sorted_insert p n peers)"
  using set_sorted_insert [of p n peers] by (auto simp: peers_backed_def sorted_insert_sorted)

lemma peers_backed_insert_all:
  "peers_backed G T to peers \<Longrightarrow> \<forall>(p, n) \<in> set sub. leads G T to n (Internal (ForwardTo p)) \<Longrightarrow>
    peers_backed G T to (insert_all sub peers)"
  by (induction sub arbitrary: peers) (auto simp: insert_all_def peers_backed_insert)

lemma find_backed:
  "\<forall>a. find_recurse G T r to trail = Some a \<longrightarrow> answer_backed G T r to a"
  "(\<forall>e \<in> set (concat gs). matches_entry G T to e) \<longrightarrow>
    (\<forall>a. find_groups G T r to trail gs = Some a \<longrightarrow> answer_backed G T r to a)"
  "(\<forall>e \<in> set es. matches_entry G T to e) \<longrightarrow> peers_backed G T to peers \<longrightarrow>
    (case find_entries G T r to trail es peers of
       Inl a \<Rightarrow> answer_backed G T r to a
     | Inr peers' \<Rightarrow> peers_backed G T to peers')"
proof (induction G T r to trail and G T r to trail gs and G T r to trail es peers
    rule: find_recurse_find_groups_find_entries.induct)
  case (1 G T r to trail)
  then show ?case by (simp add: find_recurse.simps [of G T r to trail] matches_entry_def)
next
  case (3 G T r to trail es gs)
  then show ?case by (auto split: sum.splits list.splits)
next
  case (5 G T r to trail e es peers)
  show ?case
  proof (intro impI)
    assume m: "\<forall>e \<in> set (e # es). matches_entry G T to e" and p: "peers_backed G T to peers"
    have lead: "leads G T to to (en_action e)" using m by (simp add: leads_here)
    have me: "matches_entry G T to e" and ms: "\<forall>e \<in> set es. matches_entry G T to e" using m by simp_all
    show "case find_entries G T r to trail (e # es) peers of Inl a \<Rightarrow> answer_backed G T r to a
      | Inr peers' \<Rightarrow> peers_backed G T to peers'"
    proof (cases "en_action e" rule: action_rank.cases)
      case (6 v)
      show ?thesis
      proof (cases "to \<in> trail \<or> find_recurse G T r v (insert to trail) = None")
        case True
        then show ?thesis using 5 6 ms p by (auto split: option.splits)
      next
        case False
        then obtain a where a: "to \<notin> trail" "find_recurse G T r v (insert to trail) = Some a" by auto
        have b: "answer_backed G T r to a"
          using 5 6 a by (intro answer_backed_via [OF me 6]) blast
        show ?thesis
        proof (cases a)
          case (FoundForward q n)
          then show ?thesis using 5 6 a b ms p by (simp add: peers_backed_insert)
        next
          case (FoundForwardEcmp sub)
          then have "peers_backed G T to (insert_all sub peers)"
            using b p by (intro peers_backed_insert_all) (simp_all add: peers_backed_def)
          then show ?thesis using FoundForwardEcmp 5 6 a ms by simp
        qed (use 6 a b in auto)
      qed
    qed (use 5 m ms p lead in \<open>auto simp: peers_backed_insert intro: peers_backed_insert\<close>)
  qed
qed simp_all

lemmas find_recurse_backed = find_backed(1) [rule_format]

section \<open>An answer is found when there is one\<close>

fun terminal :: "bool \<Rightarrow> Action \<Rightarrow> bool" where
  "terminal r (Route (Via _)) = False"
| "terminal r (Route Reflect) = r"
| "terminal r _ = True"

definition route_exists :: "glob_ops \<Rightarrow> RouteTable \<Rightarrow> bool \<Rightarrow> Eid \<Rightarrow> bool" where
  "route_exists G T r to \<longleftrightarrow> (\<exists>x a. leads G T to x a \<and> terminal r a)"

text \<open>The least number of \<^verbatim>\<open>Via\<close> steps to an entry that answers.\<close>

fun reach :: "glob_ops \<Rightarrow> RouteTable \<Rightarrow> bool \<Rightarrow> nat \<Rightarrow> Eid \<Rightarrow> bool" where
  "reach G T r 0 to \<longleftrightarrow> (\<exists>e. matches_entry G T to e \<and> terminal r (en_action e))"
| "reach G T r (Suc n) to \<longleftrightarrow>
    (\<exists>e v. matches_entry G T to e \<and> en_action e = Route (Via v) \<and> reach G T r n v)"

lemma via_chain_reach: "via_chain G T to x \<Longrightarrow> reach G T r n x \<Longrightarrow> \<exists>m. reach G T r m to"
proof (induction arbitrary: n rule: via_chain.induct)
  case (via to e v x)
  then obtain m where "reach G T r m v" by blast
  then have "reach G T r (Suc m) to" using via.hyps by auto
  then show ?case by blast
qed blast

lemma reach_leads: "reach G T r n to \<Longrightarrow> \<exists>x a. leads G T to x a \<and> terminal r a"
proof (induction n arbitrary: to)
  case 0
  then show ?case using leads_here by fastforce
next
  case (Suc n)
  then show ?case using leads_via by fastforce
qed

lemma route_exists_reach: "route_exists G T r to \<longleftrightarrow> (\<exists>n. reach G T r n to)"
proof
  assume "route_exists G T r to"
  then obtain x e where "via_chain G T to x" "matches_entry G T x e" "terminal r (en_action e)"
    unfolding route_exists_def leads_def by blast
  then show "\<exists>n. reach G T r n to" by (intro via_chain_reach [where n = 0]) auto
qed (use reach_leads in \<open>auto simp: route_exists_def\<close>)

definition productive :: "glob_ops \<Rightarrow> RouteTable \<Rightarrow> bool \<Rightarrow> Eid \<Rightarrow> Eid set \<Rightarrow> Entry \<Rightarrow> bool" where
  "productive G T r to trail e \<longleftrightarrow> terminal r (en_action e) \<or>
    (\<exists>v. en_action e = Route (Via v) \<and> to \<notin> trail \<and> find_recurse G T r v (insert to trail) \<noteq> None)"

lemma sorted_insert_nonempty: "sorted_insert p n peers \<noteq> []"
  by (auto simp: sorted_insert_def)

lemma insert_all_nonempty: "peers \<noteq> [] \<or> sub \<noteq> [] \<Longrightarrow> insert_all sub peers \<noteq> []"
proof (induction sub arbitrary: peers)
  case (Cons x sub)
  then show ?case using sorted_insert_nonempty by (cases x) (simp add: insert_all_def)
qed (simp add: insert_all_def)

lemma find_entries_keeps:
  "peers \<noteq> [] \<Longrightarrow> find_entries G T r to trail es peers \<noteq> Inr []"
proof (induction es arbitrary: peers)
  case (Cons e es)
  then show ?case
    using sorted_insert_nonempty insert_all_nonempty
    by (cases "en_action e" rule: action_rank.cases) (auto split: option.splits LookupResult.splits)
qed simp

lemma find_entries_hit:
  assumes "e \<in> set es" and "productive G T r to trail e"
  shows "find_entries G T r to trail es peers \<noteq> Inr []"
  using assms(1)
proof (induction es arbitrary: peers)
  case (Cons x es)
  show ?case
  proof (cases "x = e")
    case True
    have ecmp: "find_entries G T r to trail es (insert_all sub peers) \<noteq> Inr []"
      if "find_recurse G T r v t = Some (FoundForwardEcmp sub)" for v t sub
      using find_recurse_backed [OF that] by (intro find_entries_keeps insert_all_nonempty) auto
    show ?thesis
      using assms(2) True find_entries_keeps [OF sorted_insert_nonempty]
      by (cases "en_action e" rule: action_rank.cases)
        (auto simp: productive_def dest: ecmp split: LookupResult.splits)
  next
    case False
    then show ?thesis
      using Cons by (cases "en_action x" rule: action_rank.cases) (auto split: option.splits LookupResult.splits)
  qed
qed simp

lemma find_groups_hit:
  "e \<in> set (concat gs) \<Longrightarrow> productive G T r to trail e \<Longrightarrow> find_groups G T r to trail gs \<noteq> None"
proof (induction gs)
  case (Cons g gs)
  then show ?case
    using find_entries_hit [of e g G T r to trail "[]"] by (auto split: sum.splits list.splits)
qed simp

lemma find_recurse_hit:
  "matches_entry G T to e \<Longrightarrow> productive G T r to trail e \<Longrightarrow> find_recurse G T r to trail \<noteq> None"
  unfolding find_recurse.simps matches_entry_def by (rule find_groups_hit)

lemma find_recurse_reaches:
  assumes "reach G T r n to" and "\<forall>y \<in> trail. \<forall>m \<le> n. \<not> reach G T r m y"
  shows "find_recurse G T r to trail \<noteq> None"
  using assms
proof (induction n arbitrary: to trail rule: less_induct)
  case (less n)
  show ?case
  proof (cases "\<exists>m < n. reach G T r m to")
    case True
    then show ?thesis using less by (meson less_imp_le_nat order.trans)
  next
    case False
    show ?thesis
    proof (cases n)
      case 0
      then show ?thesis using less.prems find_recurse_hit by (auto simp: productive_def)
    next
      case (Suc k)
      then obtain e v where e: "matches_entry G T to e" "en_action e = Route (Via v)" "reach G T r k v"
        using less.prems(1) by auto
      have "to \<notin> trail" using less.prems by blast
      moreover have "\<forall>y \<in> insert to trail. \<forall>m \<le> k. \<not> reach G T r m y"
        using less.prems(2) False Suc by auto
      then have "find_recurse G T r v (insert to trail) \<noteq> None" using less.IH [OF _ e(3)] Suc by simp
      ultimately show ?thesis using find_recurse_hit [OF e(1)] e(2) by (simp add: productive_def)
    qed
  qed
qed

lemma find_recurse_iff: "find_recurse G T r to {} \<noteq> None \<longleftrightarrow> route_exists G T r to"
proof
  assume "find_recurse G T r to {} \<noteq> None"
  then obtain a where a: "answer_backed G T r to a" using find_recurse_backed by blast
  show "route_exists G T r to"
  proof (cases a)
    case (FoundForwardEcmp peers)
    then obtain p n where "(p, n) \<in> set peers" using a by (cases peers) auto
    then have "leads G T to n (Internal (ForwardTo p))" using a FoundForwardEcmp by (auto simp: peers_backed_def)
    then show ?thesis unfolding route_exists_def by (meson terminal.simps)
  qed (use a in \<open>force simp: route_exists_def\<close>)+
next
  assume "route_exists G T r to"
  then show "find_recurse G T r to {} \<noteq> None"
    unfolding route_exists_reach using find_recurse_reaches [where trail = "{}"] by blast
qed

end
