(* ===== verification/Bpa_Table.thy ===== *)
theory Bpa_Table
  imports Bpa_Lookup
begin

text \<open>
  The invariant of the route table and the abstract view of it: a set of routes, each a
  priority, a pattern and an entry, up to the orders of patterns and entries. Insertion, removal
  and removal by source act on that set, report whether they changed it, and keep the
  invariant: ordered at every level, nothing empty, no next hop that is null or local.
\<close>

section \<open>Invariant\<close>

definition acts_ok :: "NodeIds \<Rightarrow> Entry list \<Rightarrow> bool" where
  "acts_ok ids acts \<longleftrightarrow> acts \<noteq> [] \<and> ascending entry_cmp acts \<and>
    (\<forall>e \<in> set acts. next_hop_error ids (en_action e) = None)"

definition pats_ok :: "NodeIds \<Rightarrow> (EidPattern \<times> Entry list) list \<Rightarrow> bool" where
  "pats_ok ids pats \<longleftrightarrow> pats \<noteq> [] \<and> ascending pattern_cmp (map fst pats) \<and> (\<forall>(p, acts) \<in> set pats. acts_ok ids acts)"

definition routes_ok :: "NodeIds \<Rightarrow> routes \<Rightarrow> bool" where
  "routes_ok ids routes \<longleftrightarrow> ascending compare (map fst routes) \<and> (\<forall>(pr, pats) \<in> set routes. pats_ok ids pats)"

definition table_ok :: "RouteTable \<Rightarrow> bool" where
  "table_ok T = routes_ok (rt_node_ids T) (rt_routes T)"

definition get_actions :: "routes \<Rightarrow> u32 \<Rightarrow> EidPattern \<Rightarrow> Entry list option" where
  "get_actions routes pr p = Option.bind (bt_get compare routes pr) (\<lambda>pats. bt_get pattern_cmp pats p)"

definition has_route :: "routes \<Rightarrow> u32 \<Rightarrow> EidPattern \<Rightarrow> Entry \<Rightarrow> bool" where
  "has_route routes pr p e \<longleftrightarrow>
    (\<exists>acts. get_actions routes pr p = Some acts \<and> (\<exists>e' \<in> set acts. entry_cmp e e' = Equal))"

text \<open>Two routes that share a slot.\<close>

definition same_route :: "u32 \<Rightarrow> EidPattern \<Rightarrow> Entry \<Rightarrow> u32 \<Rightarrow> EidPattern \<Rightarrow> Entry \<Rightarrow> bool" where
  "same_route pr p e pr' p' e' \<longleftrightarrow> pr = pr' \<and> pattern_cmp p p' = Equal \<and> entry_cmp e e' = Equal"

lemma routes_ok_put: "routes_ok ids routes \<Longrightarrow> pats_ok ids pats \<Longrightarrow> routes_ok ids (bt_put compare pr pats routes)"
  unfolding routes_ok_def by (auto simp: u32_order.ascending_put dest!: u32_order.put_mem)

lemma routes_ok_del: "routes_ok ids routes \<Longrightarrow> routes_ok ids (bt_del compare pr routes)"
  unfolding routes_ok_def by (auto simp: u32_order.ascending_del dest!: u32_order.del_mem)

lemma bt_put_nonempty [simp]: "bt_put cmp k v m \<noteq> []"
  by (cases m) (auto split: ordering.splits)

lemma pats_ok_put:
  "pats = [] \<or> pats_ok ids pats \<Longrightarrow> acts_ok ids acts \<Longrightarrow> pats_ok ids (bt_put pattern_cmp p acts pats)"
  unfolding pats_ok_def by (auto simp: pattern_order.ascending_put dest!: pattern_order.put_mem)

lemma pats_ok_del: "pats_ok ids pats \<Longrightarrow> bt_del pattern_cmp p pats \<noteq> [] \<Longrightarrow> pats_ok ids (bt_del pattern_cmp p pats)"
  unfolding pats_ok_def by (auto simp: pattern_order.ascending_del dest!: pattern_order.del_mem)

lemma routes_ok_get: "routes_ok ids routes \<Longrightarrow> bt_get compare routes pr = Some pats \<Longrightarrow> pats_ok ids pats"
  unfolding routes_ok_def by (auto dest!: u32_order.get_mem)

lemma pats_ok_get: "pats_ok ids pats \<Longrightarrow> bt_get pattern_cmp pats p = Some acts \<Longrightarrow> acts_ok ids acts"
  unfolding pats_ok_def by (auto dest!: pattern_order.get_mem)

lemma pats_ok_ascending: "pats_ok ids pats \<Longrightarrow> ascending pattern_cmp (map fst pats)"
  by (simp add: pats_ok_def)

lemma routes_ok_ascending: "routes_ok ids routes \<Longrightarrow> ascending compare (map fst routes)"
  by (simp add: routes_ok_def)

lemma get_actions_put:
  assumes "routes_ok ids routes" and "bt_get compare routes pr = None \<and> pats = [] \<or> bt_get compare routes pr = Some pats"
  shows "get_actions (bt_put compare pr (bt_put pattern_cmp p acts pats) routes) pr' p' =
    (if pr' = pr \<and> pattern_cmp p' p = Equal then Some acts else get_actions routes pr' p')"
proof -
  have "ascending pattern_cmp (map fst pats)" using assms by (auto dest: routes_ok_get pats_ok_ascending)
  then show ?thesis
    using assms
    by (auto simp: get_actions_def u32_order.get_put routes_ok_ascending pattern_order.get_put)
qed

lemma get_actions_congr: "pattern_cmp p p' = Equal \<Longrightarrow> get_actions routes pr p = get_actions routes pr p'"
  by (cases "bt_get compare routes pr") (simp_all add: get_actions_def pattern_order.get_congr [of p p'])

section \<open>Insertion\<close>

lemma insert_atom_ok:
  assumes "routes_ok ids routes" and "next_hop_error ids (en_action e) = None"
  shows "routes_ok ids (snd (insert_atom e pr p (b, routes)))"
proof -
  have single: "acts_ok ids [e]" using assms(2) by (simp add: acts_ok_def)
  show ?thesis
  proof (cases "bt_get compare routes pr")
    case None
    have "pats_ok ids [(p, [e])]" using single by (simp add: pats_ok_def)
    then show ?thesis using assms(1) None by (simp add: insert_atom_def routes_ok_put)
  next
    case (Some pats)
    note pok = routes_ok_get [OF assms(1) Some]
    show ?thesis
    proof (cases "bt_get pattern_cmp pats p")
      case None
      then show ?thesis
        using Some single pok assms(1) by (simp add: insert_atom_def routes_ok_put pats_ok_put)
    next
      case (Some acts)
      note aok = pats_ok_get [OF pok Some]
      have "acts_ok ids (snd (bs_insert entry_cmp e acts))"
        using aok assms(2) entry_order.insert_mem [of e acts]
        by (auto simp: acts_ok_def entry_order.ascending_insert split: if_splits)
      then show ?thesis
        using \<open>bt_get compare routes pr = Some pats\<close> Some pok assms(1)
        by (simp add: insert_atom_def routes_ok_put pats_ok_put case_prod_unfold Let_def)
    qed
  qed
qed

lemma insert_atom_effect:
  assumes "routes_ok ids routes"
  shows "has_route (snd (insert_atom e pr p (b, routes))) pr' p' e' \<longleftrightarrow>
      has_route routes pr' p' e' \<or> same_route pr' p' e' pr p e"
    and "fst (insert_atom e pr p (b, routes)) \<longleftrightarrow> b \<or> \<not> has_route routes pr p e"
proof -
  consider (none) "bt_get compare routes pr = None"
    | (fresh) pats where "bt_get compare routes pr = Some pats" "bt_get pattern_cmp pats p = None"
    | (there) pats acts where "bt_get compare routes pr = Some pats" "bt_get pattern_cmp pats p = Some acts"
    by (cases "bt_get compare routes pr"; force)
  then show "has_route (snd (insert_atom e pr p (b, routes))) pr' p' e' \<longleftrightarrow>
      has_route routes pr' p' e' \<or> same_route pr' p' e' pr p e"
  proof cases
    case none
    then show ?thesis
      using get_actions_put [OF assms, of pr "[]" p "[e]"]
      by (auto simp: insert_atom_def has_route_def same_route_def get_actions_def)
  next
    case fresh
    have "bt_get pattern_cmp pats p' = None" if "pattern_cmp p' p = Equal"
      using fresh(2) pattern_order.get_congr that by metis
    then show ?thesis
      using get_actions_put [OF assms, of pr pats p "[e]"] fresh
      by (auto simp: insert_atom_def has_route_def same_route_def) (auto simp: get_actions_def)
  next
    case there
    have "get_actions routes pr p' = Some acts" if "pattern_cmp p' p = Equal"
      using there pattern_order.get_congr that by (metis get_actions_def bind.bind_lunit)
    moreover have "(\<exists>x \<in> set (snd (bs_insert entry_cmp e acts)). entry_cmp e' x = Equal) \<longleftrightarrow>
        (\<exists>x \<in> set acts. entry_cmp e' x = Equal) \<or> entry_cmp e' e = Equal"
    proof -
      have "ascending entry_cmp acts"
        using assms there by (meson routes_ok_get pats_ok_get acts_ok_def)
      then show ?thesis
        using entry_order.insert_mem [of e acts] entry_order.insert_new [of acts e] entry_order.cmp_eq
        by (auto split: if_splits) metis
    qed
    ultimately show ?thesis
      using get_actions_put [OF assms, of pr pats p "snd (bs_insert entry_cmp e acts)"] there
      by (auto simp: insert_atom_def has_route_def same_route_def case_prod_unfold Let_def)
  qed
  show "fst (insert_atom e pr p (b, routes)) \<longleftrightarrow> b \<or> \<not> has_route routes pr p e"
  proof (cases "get_actions routes pr p")
    case None
    then show ?thesis by (auto simp: insert_atom_def has_route_def get_actions_def split: option.splits)
  next
    case (Some acts)
    then obtain pats where g: "bt_get compare routes pr = Some pats" "bt_get pattern_cmp pats p = Some acts"
      by (auto simp: get_actions_def split: bind_splits)
    have "ascending entry_cmp acts" using assms g by (meson routes_ok_get pats_ok_get acts_ok_def)
    then show ?thesis
      using Some g by (auto simp: insert_atom_def has_route_def case_prod_unfold Let_def entry_order.insert_new)
  qed
qed

lemma insert_atoms:
  assumes "routes_ok ids routes" and "next_hop_error ids (en_action e) = None"
  shows "routes_ok ids (snd (fold (insert_atom e pr) atoms (b, routes))) \<and>
    (has_route (snd (fold (insert_atom e pr) atoms (b, routes))) pr' p' e' \<longleftrightarrow>
      has_route routes pr' p' e' \<or> (\<exists>a \<in> set atoms. same_route pr' p' e' pr a e)) \<and>
    (fst (fold (insert_atom e pr) atoms (b, routes)) \<longleftrightarrow> b \<or> (\<exists>a \<in> set atoms. \<not> has_route routes pr a e))"
  using assms(1)
proof (induction atoms arbitrary: b routes)
  case (Cons a atoms)
  obtain b1 r1 where 1: "insert_atom e pr a (b, routes) = (b1, r1)" by fastforce
  have ok: "routes_ok ids r1" using insert_atom_ok [OF Cons.prems assms(2), of pr a b] 1 by simp
  have h: "has_route r1 x y z \<longleftrightarrow> has_route routes x y z \<or> same_route x y z pr a e" for x y z
    using insert_atom_effect(1) [OF Cons.prems, of e pr a b] 1 by simp
  have f: "b1 \<longleftrightarrow> b \<or> \<not> has_route routes pr a e"
    using insert_atom_effect(2) [OF Cons.prems, of e pr a b] 1 by simp
  have c: "has_route routes pr a e \<longleftrightarrow> has_route routes pr x e" if "same_route pr x e pr a e" for x
    using that get_actions_congr [of x a] by (simp add: same_route_def has_route_def)
  show ?case using Cons.IH [OF ok, of b1] h f c by (auto simp: 1)
qed simp

lemma table_insert_spec:
  assumes "table_ok T" and "table_insert T p e pr = Inr (b, T')"
  shows "table_ok T' \<and> rt_node_ids T' = rt_node_ids T"
    and "has_route (rt_routes T') pr' p' e' \<longleftrightarrow>
      has_route (rt_routes T) pr' p' e' \<or> (\<exists>a \<in> set (into_atoms p). same_route pr' p' e' pr a e)"
    and "b \<longleftrightarrow> (\<exists>a \<in> set (into_atoms p). \<not> has_route (rt_routes T) pr a e)"
proof -
  have n: "next_hop_error (rt_node_ids T) (en_action e) = None"
    using assms(2) by (auto simp: table_insert_def split: option.splits)
  have T': "fold (insert_atom e pr) (into_atoms p) (False, rt_routes T) = (b, rt_routes T')"
    "rt_node_ids T' = rt_node_ids T"
    using assms(2) n by (auto simp: table_insert_def split: prod.splits)
  note k = insert_atoms [OF assms(1) [unfolded table_ok_def] n, of pr "into_atoms p" False, unfolded T' fst_conv snd_conv]
  show "table_ok T' \<and> rt_node_ids T' = rt_node_ids T" using k T'(2) by (simp add: table_ok_def)
  show "has_route (rt_routes T') pr' p' e' \<longleftrightarrow>
      has_route (rt_routes T) pr' p' e' \<or> (\<exists>a \<in> set (into_atoms p). same_route pr' p' e' pr a e)"
    using k by blast
  show "b \<longleftrightarrow> (\<exists>a \<in> set (into_atoms p). \<not> has_route (rt_routes T) pr a e)" using k by blast
qed

section \<open>Removal\<close>

lemma get_actions_del:
  assumes "routes_ok ids routes" and "bt_get compare routes pr = Some pats"
  shows "get_actions (if bt_del pattern_cmp p pats = [] then bt_del compare pr routes
      else bt_put compare pr (bt_del pattern_cmp p pats) routes) pr' p' =
    (if pr' = pr \<and> pattern_cmp p' p = Equal then None else get_actions routes pr' p')"
proof -
  have a: "ascending pattern_cmp (map fst pats)" using assms by (auto dest: routes_ok_get pats_ok_ascending)
  have "bt_get pattern_cmp pats p' = None" if "bt_del pattern_cmp p pats = []" "pattern_cmp p' p \<noteq> Equal"
    using pattern_order.get_del [OF a, of p p'] that by simp
  then show ?thesis
    using assms a
    by (auto simp: get_actions_def u32_order.get_put u32_order.get_del routes_ok_ascending pattern_order.get_del)
qed

lemma remove_atom_cases:
  assumes "routes_ok ids routes"
  obtains (absent) "remove_atom e pr p (b, routes) = (b, routes)" "\<not> has_route routes pr p e"
  | (some) pats acts where "bt_get compare routes pr = Some pats" "bt_get pattern_cmp pats p = Some acts"
      "ascending entry_cmp acts" "pats_ok ids pats" "acts_ok ids acts" "has_route routes pr p e"
      "snd (bs_remove entry_cmp e acts) \<noteq> []"
      "remove_atom e pr p (b, routes) =
        (True, bt_put compare pr (bt_put pattern_cmp p (snd (bs_remove entry_cmp e acts)) pats) routes)"
  | (none) pats acts where "bt_get compare routes pr = Some pats" "bt_get pattern_cmp pats p = Some acts"
      "ascending entry_cmp acts" "pats_ok ids pats" "has_route routes pr p e" "snd (bs_remove entry_cmp e acts) = []"
      "remove_atom e pr p (b, routes) = (True, if bt_del pattern_cmp p pats = [] then bt_del compare pr routes
        else bt_put compare pr (bt_del pattern_cmp p pats) routes)"
proof (cases "get_actions routes pr p")
  case None
  then have "remove_atom e pr p (b, routes) = (b, routes)" "\<not> has_route routes pr p e"
    by (auto simp: get_actions_def remove_atom_def has_route_def split: option.splits bind_splits)
  then show thesis by (rule absent)
next
  case (Some acts)
  then obtain pats where g: "bt_get compare routes pr = Some pats" "bt_get pattern_cmp pats p = Some acts"
    by (auto simp: get_actions_def split: bind_splits)
  have ok: "pats_ok ids pats" "acts_ok ids acts" using assms g by (auto dest: routes_ok_get pats_ok_get)
  then have a: "ascending entry_cmp acts" by (simp add: acts_ok_def)
  have h: "has_route routes pr p e \<longleftrightarrow> fst (bs_remove entry_cmp e acts)"
    using Some by (simp add: has_route_def entry_order.remove_found [OF a])
  show thesis
  proof (cases "fst (bs_remove entry_cmp e acts)")
    case False
    then show thesis
      using absent g h by (simp add: remove_atom_def case_prod_unfold Let_def)
  next
    case True
    then show thesis
      using some [OF g a ok] none [OF g a ok(1)] g h
      by (cases "snd (bs_remove entry_cmp e acts) = []") (simp_all add: remove_atom_def case_prod_unfold Let_def)
  qed
qed

lemma remove_atom_ok:
  assumes "routes_ok ids routes"
  shows "routes_ok ids (snd (remove_atom e pr p (b, routes)))"
  using assms
proof (cases rule: remove_atom_cases [of ids routes e pr p b])
  case (some pats acts)
  have "acts_ok ids (snd (bs_remove entry_cmp e acts))"
    using some(3,5,7) by (auto simp: acts_ok_def entry_order.ascending_remove entry_order.remove_mem)
  then show ?thesis using some(4,8) assms by (simp add: routes_ok_put pats_ok_put)
next
  case (none pats acts)
  then show ?thesis using assms by (auto simp: routes_ok_put routes_ok_del pats_ok_del)
qed (use assms in simp)

lemma remove_atom_effect:
  assumes "routes_ok ids routes"
  shows "has_route (snd (remove_atom e pr p (b, routes))) pr' p' e' \<longleftrightarrow>
      has_route routes pr' p' e' \<and> \<not> same_route pr' p' e' pr p e"
    and "fst (remove_atom e pr p (b, routes)) \<longleftrightarrow> b \<or> has_route routes pr p e"
proof -
  have get: "get_actions routes pr p' = get_actions routes pr p" if "pattern_cmp p' p = Equal"
    using that by (rule get_actions_congr)
  have same: "entry_cmp e' x = Equal \<Longrightarrow> entry_cmp e' e = Equal \<longleftrightarrow> entry_cmp e x = Equal" for x
    using entry_order.cmp_eq [of e' x e] entry_order.cmp_equal_flip by metis
  show "has_route (snd (remove_atom e pr p (b, routes))) pr' p' e' \<longleftrightarrow>
      has_route routes pr' p' e' \<and> \<not> same_route pr' p' e' pr p e"
    using assms
  proof (cases rule: remove_atom_cases [of ids routes e pr p b])
    case absent
    have "\<not> has_route routes pr' p' e'" if "same_route pr' p' e' pr p e"
      using absent(2) that get same by (auto simp: has_route_def same_route_def)
    then show ?thesis using absent(1) by auto
  next
    case (some pats acts)
    then show ?thesis
      using get_actions_put [OF assms, of pr pats p "snd (bs_remove entry_cmp e acts)"] get same
      by (auto simp: has_route_def same_route_def entry_order.remove_mem get_actions_def)
  next
    case (none pats acts)
    have "entry_cmp e x = Equal" if "x \<in> set acts" for x
      using none(3,6) that entry_order.remove_mem [of acts e] by auto
    then show ?thesis
      using get_actions_del [OF assms none(1), of p] none get same
      by (auto simp: has_route_def same_route_def get_actions_def)
  qed
  show "fst (remove_atom e pr p (b, routes)) \<longleftrightarrow> b \<or> has_route routes pr p e"
    using assms by (cases rule: remove_atom_cases [of ids routes e pr p b]) simp_all
qed

lemma remove_atoms:
  assumes "routes_ok ids routes"
  shows "routes_ok ids (snd (fold (remove_atom e pr) atoms (b, routes))) \<and>
    (has_route (snd (fold (remove_atom e pr) atoms (b, routes))) pr' p' e' \<longleftrightarrow>
      has_route routes pr' p' e' \<and> \<not> (\<exists>a \<in> set atoms. same_route pr' p' e' pr a e)) \<and>
    (fst (fold (remove_atom e pr) atoms (b, routes)) \<longleftrightarrow> b \<or> (\<exists>a \<in> set atoms. has_route routes pr a e))"
  using assms
proof (induction atoms arbitrary: b routes)
  case (Cons a atoms)
  obtain b1 r1 where 1: "remove_atom e pr a (b, routes) = (b1, r1)" by fastforce
  have ok: "routes_ok ids r1" using remove_atom_ok [OF Cons.prems, of e pr a b] 1 by simp
  have h: "has_route r1 x y z \<longleftrightarrow> has_route routes x y z \<and> \<not> same_route x y z pr a e" for x y z
    using remove_atom_effect(1) [OF Cons.prems, of e pr a b] 1 by simp
  have f: "b1 \<longleftrightarrow> b \<or> has_route routes pr a e"
    using remove_atom_effect(2) [OF Cons.prems, of e pr a b] 1 by simp
  have c: "has_route routes pr a e \<longleftrightarrow> has_route routes pr x e" if "same_route pr x e pr a e" for x
    using that get_actions_congr [of x a] by (simp add: same_route_def has_route_def)
  have "(b1 \<or> (\<exists>x \<in> set atoms. has_route r1 pr x e)) \<longleftrightarrow> b \<or> (\<exists>x \<in> set (a # atoms). has_route routes pr x e)"
    unfolding h f using c by auto
  moreover have "has_route r1 pr' p' e' \<and> \<not> (\<exists>x \<in> set atoms. same_route pr' p' e' pr x e) \<longleftrightarrow>
      has_route routes pr' p' e' \<and> \<not> (\<exists>x \<in> set (a # atoms). same_route pr' p' e' pr x e)"
    unfolding h by auto
  ultimately show ?case using Cons.IH [OF ok, of b1] unfolding fold_Cons comp_apply 1 by blast
qed simp

lemma table_remove_spec:
  assumes "table_ok T" and "table_remove T p e pr = (b, T')"
  shows "table_ok T' \<and> rt_node_ids T' = rt_node_ids T"
    and "has_route (rt_routes T') pr' p' e' \<longleftrightarrow>
      has_route (rt_routes T) pr' p' e' \<and> \<not> (\<exists>a \<in> set (into_atoms p). same_route pr' p' e' pr a e)"
    and "b \<longleftrightarrow> (\<exists>a \<in> set (into_atoms p). has_route (rt_routes T) pr a e)"
proof -
  have T': "fold (remove_atom e pr) (into_atoms p) (False, rt_routes T) = (b, rt_routes T')"
    "rt_node_ids T' = rt_node_ids T"
    using assms(2) by (auto simp: table_remove_def split: prod.splits)
  note k = remove_atoms [OF assms(1) [unfolded table_ok_def], of e pr "into_atoms p" False, unfolded T' fst_conv snd_conv]
  show "table_ok T' \<and> rt_node_ids T' = rt_node_ids T" using k T'(2) by (simp add: table_ok_def)
  show "has_route (rt_routes T') pr' p' e' \<longleftrightarrow>
      has_route (rt_routes T) pr' p' e' \<and> \<not> (\<exists>a \<in> set (into_atoms p). same_route pr' p' e' pr a e)"
    using k by blast
  show "b \<longleftrightarrow> (\<exists>a \<in> set (into_atoms p). has_route (rt_routes T) pr a e)" using k by blast
qed

section \<open>Removal by source\<close>

lemma entry_cmp_source: "entry_cmp e e' = Equal \<Longrightarrow> en_source e = en_source e'"
proof -
  have "then_with a b = Equal \<Longrightarrow> b = Equal" for a b by (cases a) simp_all
  then show "entry_cmp e e' = Equal \<Longrightarrow> en_source e = en_source e'" by (force simp: entry_cmp_def)
qed

lemma retain_get_actions:
  assumes "routes_ok ids routes"
  shows "get_actions (retain_routes source routes) pr p =
    Option.bind (get_actions routes pr p) (\<lambda>acts.
      let acts' = filter (\<lambda>e. en_source e \<noteq> source) acts in if acts' \<noteq> [] then Some acts' else None)"
proof (cases "bt_get compare routes pr")
  case None
  then show ?thesis
    unfolding get_actions_def retain_routes_def u32_order.get_retain [OF routes_ok_ascending [OF assms]] by simp
next
  case (Some pats)
  let ?f = "\<lambda>patterns. filter (\<lambda>(_, actions). actions \<noteq> [])
          (map (\<lambda>(pattern, actions). (pattern, filter (\<lambda>e. en_source e \<noteq> source) actions)) patterns)"
  have a: "ascending pattern_cmp (map fst pats)" using assms Some by (auto dest: routes_ok_get pats_ok_ascending)
  have g: "bt_get compare (retain_routes source routes) pr = (if ?f pats \<noteq> [] then Some (?f pats) else None)"
    using u32_order.get_retain [OF routes_ok_ascending [OF assms], of "\<lambda>p. p \<noteq> []" ?f pr] Some
    by (simp add: retain_routes_def)
  have "get_actions (retain_routes source routes) pr p = bt_get pattern_cmp (?f pats) p"
    unfolding get_actions_def g by auto
  also have "\<dots> = Option.bind (bt_get pattern_cmp pats p) (\<lambda>acts.
      let acts' = filter (\<lambda>e. en_source e \<noteq> source) acts in if acts' \<noteq> [] then Some acts' else None)"
    using pattern_order.get_retain [OF a, of "\<lambda>p. p \<noteq> []" "filter (\<lambda>e. en_source e \<noteq> source)" p]
    by (simp add: Let_def)
  finally show ?thesis using Some by (simp add: get_actions_def)
qed

lemma retain_routes_ok:
  assumes "routes_ok ids routes"
  shows "routes_ok ids (retain_routes source routes)"
proof -
  have "acts_ok ids (filter (\<lambda>e. en_source e \<noteq> source) acts)"
    if "acts_ok ids acts" "filter (\<lambda>e. en_source e \<noteq> source) acts \<noteq> []" for acts
    using that by (auto simp: acts_ok_def ascending_filter)
  then have "pats_ok ids (filter (\<lambda>(_, actions). actions \<noteq> [])
          (map (\<lambda>(pattern, actions). (pattern, filter (\<lambda>e. en_source e \<noteq> source) actions)) pats))"
    if "pats_ok ids pats" "filter (\<lambda>(_, actions). actions \<noteq> [])
          (map (\<lambda>(pattern, actions). (pattern, filter (\<lambda>e. en_source e \<noteq> source) actions)) pats) \<noteq> []" for pats
    using that pattern_order.ascending_retain unfolding pats_ok_def by fastforce
  then show ?thesis
    using assms u32_order.ascending_retain unfolding routes_ok_def retain_routes_def by fastforce
qed

lemma table_remove_by_source_spec:
  assumes "table_ok T" and "table_remove_by_source T source = (r, T')"
  shows "table_ok T' \<and> rt_node_ids T' = rt_node_ids T"
    and "has_route (rt_routes T') pr p e \<longleftrightarrow> has_route (rt_routes T) pr p e \<and> en_source e \<noteq> source"
proof -
  have T': "T' = T\<lparr>rt_routes := retain_routes source (rt_routes T)\<rparr>"
    using assms(2) by (simp add: table_remove_by_source_def Let_def)
  show "table_ok T' \<and> rt_node_ids T' = rt_node_ids T"
    using assms(1) by (simp add: T' table_ok_def retain_routes_ok)
  note g = retain_get_actions [OF assms(1) [unfolded table_ok_def], of source pr p]
  show "has_route (rt_routes T') pr p e \<longleftrightarrow> has_route (rt_routes T) pr p e \<and> en_source e \<noteq> source"
  proof (cases "get_actions (rt_routes T) pr p")
    case None
    then show ?thesis using g by (simp add: T' has_route_def)
  next
    case (Some acts)
    let ?kept = "filter (\<lambda>e. en_source e \<noteq> source) acts"
    have "(\<exists>x \<in> set ?kept. entry_cmp e x = Equal) \<longleftrightarrow>
        (\<exists>x \<in> set acts. entry_cmp e x = Equal) \<and> en_source e \<noteq> source"
      using entry_cmp_source [of e] by auto
    then show ?thesis
      using g Some by (cases "?kept = []") (simp_all add: T' has_route_def Let_def)
  qed
qed

lemma table_new_ok:
  assumes "ni_ipn ids \<noteq> None \<or> ni_dtn ids \<noteq> None"
  shows "table_ok (table_new ids)"
proof -
  have a: "acts_ok ids [admin_entry]" by (simp add: acts_ok_def admin_entry_def next_hop_error_def)
  let ?m1 = "case ni_dtn ids of
                 Some d \<Rightarrow> bt_put pattern_cmp (pattern_of_eid (eid_of_dtn_node d)) [admin_entry] []
               | None \<Rightarrow> []"
  have m1: "?m1 = [] \<or> pats_ok ids ?m1" using pats_ok_put [OF _ a, of "[]"] by (simp split: option.split)
  then have "pats_ok ids (case ni_ipn ids of
                 Some n \<Rightarrow> bt_put pattern_cmp (pattern_of_eid (eid_of_ipn_node n)) [admin_entry] ?m1
               | None \<Rightarrow> ?m1)"
    using assms pats_ok_put [OF m1 a] by (cases "ni_ipn ids"; cases "ni_dtn ids") auto
  then show ?thesis by (simp add: table_ok_def table_new_def Let_def routes_ok_def)
qed

section \<open>What removal by source reports\<close>

text \<open>The stored entries, one by one, each with its priority and its pattern.\<close>

definition table_rows :: "RouteTable \<Rightarrow> (u32 \<times> EidPattern \<times> Entry) set" where
  "table_rows T = {(pr, p, e). \<exists>pats acts. (pr, pats) \<in> set (rt_routes T) \<and> (p, acts) \<in> set pats \<and> e \<in> set acts}"

definition source_rows :: "RouteTable \<Rightarrow> bytes \<Rightarrow> (u32 \<times> EidPattern \<times> Entry) set" where
  "source_rows T source = {(pr, p, e) \<in> table_rows T. en_source e = source}"

text \<open>The four results of a removal by source: the next hops of the removed Via routes, the peers of the
  removed forwards, whether a local service was removed, and how many entries went.\<close>

definition removal_report :: "RouteTable \<Rightarrow> bytes \<Rightarrow> Eid set \<times> u32 set \<times> bool \<times> nat \<Rightarrow> bool" where
  "removal_report T source r \<longleftrightarrow>
    (let (vias, forward_peers, has_local, removed_count) = r; actions = (en_action \<circ> snd \<circ> snd) ` source_rows T source
     in vias = {to. Route (Via to) \<in> actions} \<and> forward_peers = {peer. Internal (ForwardTo peer) \<in> actions} \<and>
        (has_local \<longleftrightarrow> (\<exists>s. Internal (Local s) \<in> actions)) \<and> removed_count = card (source_rows T source))"

definition row_list :: "routes \<Rightarrow> (u32 \<times> EidPattern \<times> Entry) list" where
  "row_list routes = concat (map (\<lambda>(pr, pats). concat (map (\<lambda>(p, acts). map (\<lambda>e. (pr, p, e)) acts) pats)) routes)"

lemma pattern_rows_mem:
  "(pr', p, e) \<in> set (concat (map (\<lambda>(p, acts). map (\<lambda>e. (pr, p, e)) acts) pats)) \<longleftrightarrow>
    pr' = pr \<and> (\<exists>acts. (p, acts) \<in> set pats \<and> e \<in> set acts)"
  by (induction pats) auto

lemma row_list_mem:
  "(pr, p, e) \<in> set (row_list routes) \<longleftrightarrow> (\<exists>pats acts. (pr, pats) \<in> set routes \<and> (p, acts) \<in> set pats \<and> e \<in> set acts)"
proof (induction routes)
  case (Cons x routes)
  obtain pr' pats where x: "x = (pr', pats)" by (cases x)
  have "set (row_list (x # routes)) =
      set (concat (map (\<lambda>(p, acts). map (\<lambda>e. (pr', p, e)) acts) pats)) \<union> set (row_list routes)"
    by (simp add: row_list_def x)
  then show ?case using Cons pattern_rows_mem [of pr p e pr' pats] unfolding x by (simp del: set_concat) blast
qed (simp add: row_list_def)

lemma set_row_list: "set (row_list (rt_routes T)) = table_rows T"
  by (simp add: table_rows_def set_eq_iff split_paired_all row_list_mem)

lemma table_entries_rows: "table_entries routes = map (snd \<circ> snd) (row_list routes)"
  by (simp add: table_entries_def row_list_def map_concat comp_def case_prod_unfold)

lemma distinct_pattern_rows:
  assumes "pats_ok ids pats \<or> pats = []"
  shows "distinct (concat (map (\<lambda>(p, acts). map (\<lambda>e. (pr :: u32, p, e)) acts) pats))"
proof -
  have a: "ascending pattern_cmp (map fst pats)" "\<forall>(p, acts) \<in> set pats. ascending entry_cmp acts"
    using assms by (auto simp: pats_ok_def acts_ok_def)
  then show ?thesis
  proof (induction pats)
    case (Cons x pats)
    obtain p acts where x: "x = (p, acts)" by (cases x)
    have "distinct acts" using Cons.prems(2) by (simp add: x entry_order.ascending_distinct)
    then have "distinct (map (\<lambda>e. (pr, p, e)) acts)" by (simp add: distinct_map inj_on_def)
    moreover have "p \<notin> fst ` set pats" using Cons.prems(1) pattern_order.ascending_distinct [OF Cons.prems(1)] by (simp add: x)
    ultimately show ?case using Cons by (force simp: x)
  qed simp
qed

lemma distinct_row_list:
  assumes "routes_ok ids routes"
  shows "distinct (row_list routes)"
proof -
  have a: "ascending compare (map fst routes)" "\<forall>(pr, pats) \<in> set routes. pats_ok ids pats"
    using assms by (auto simp: routes_ok_def)
  then show ?thesis
  proof (induction routes)
    case (Cons x routes)
    obtain pr pats where x: "x = (pr, pats)" by (cases x)
    have "pr \<notin> fst ` set routes" using u32_order.ascending_distinct [OF Cons.prems(1)] by (simp add: x)
    then show ?case using Cons distinct_pattern_rows [of ids pats pr] by (force simp: x row_list_def)
  qed (simp add: row_list_def)
qed

lemma via_of_mem: "to \<in> set (via_of a) \<longleftrightarrow> a = Route (Via to)"
  by (cases a rule: via_of.cases) auto

lemma forward_of_mem: "peer \<in> set (forward_of a) \<longleftrightarrow> a = Internal (ForwardTo peer)"
  by (cases a rule: forward_of.cases) auto

lemma is_local_action_iff: "is_local_action a \<longleftrightarrow> (\<exists>s. a = Internal (Local s))"
  by (cases a rule: is_local_action.cases) auto

lemma table_remove_by_source_reports:
  assumes "table_ok T" and "table_remove_by_source T source = (r, T')"
  shows "removal_report T source r"
proof -
  let ?rows = "filter (\<lambda>(pr, p, e). en_source e = source) (row_list (rt_routes T))"
  let ?gone = "map en_action (filter (\<lambda>e. en_source e = source) (table_entries (rt_routes T)))"
  have rows: "set ?rows = source_rows T source" by (auto simp: source_rows_def set_row_list)
  have gone: "?gone = map (en_action \<circ> snd \<circ> snd) ?rows"
    by (simp add: table_entries_rows filter_map comp_def case_prod_unfold)
  have "card (source_rows T source) = length ?rows"
    unfolding rows [symmetric] using assms(1)
    by (intro distinct_card distinct_filter distinct_row_list [where ids = "rt_node_ids T"]) (simp add: table_ok_def)
  then have n: "length ?gone = card (source_rows T source)" by (simp only: gone length_map)
  have acts: "set ?gone = (en_action \<circ> snd \<circ> snd) ` source_rows T source" unfolding gone set_map rows ..
  have "r = (set (concat (map via_of ?gone)), set (concat (map forward_of ?gone)), list_ex is_local_action ?gone, length ?gone)"
    using assms(2) by (simp add: table_remove_by_source_def Let_def)
  moreover have "set (concat (map via_of ?gone)) = {to. Route (Via to) \<in> set ?gone}"
      "set (concat (map forward_of ?gone)) = {peer. Internal (ForwardTo peer) \<in> set ?gone}"
    unfolding set_concat set_map [of via_of] set_map [of forward_of] by (simp_all only: set_eq_iff UN_iff mem_Collect_eq via_of_mem forward_of_mem bex_simps) blast+
  moreover have "list_ex is_local_action ?gone \<longleftrightarrow> (\<exists>s. Internal (Local s) \<in> set ?gone)"
    unfolding list_ex_iff is_local_action_iff by blast
  ultimately show ?thesis unfolding removal_report_def Let_def acts [symmetric] n by simp
qed

lemma table_remove_by_source_rows:
  assumes "table_remove_by_source T source = (r, T')"
  shows "table_rows T' = table_rows T - source_rows T source"
proof -
  have T': "T' = T\<lparr>rt_routes := retain_routes source (rt_routes T)\<rparr>"
    using assms by (simp add: table_remove_by_source_def Let_def)
  show ?thesis by (fastforce simp: T' table_rows_def source_rows_def retain_routes_def filter_empty_conv)
qed

end
