(* ===== verification/Bpa_Rib.thy ===== *)
theory Bpa_Rib
  imports Bpa_Table
begin

unbundle bit_operations_syntax

text \<open>
  The routing information base of \<^verbatim>\<open>routing/rib.rs\<close>: the authoritative table behind a mutex, the
  snapshot that lookups read, and the registered agents. An operation that changes the table
  publishes a copy of it before it returns. The calls into the store and the wake-up of the
  waiting poller are recorded as effects; the store's answers are the argument \<open>reply\<close>. The
  effects of one operation form a set because the source iterates over hash sets.
\<close>

section \<open>State\<close>

record Rib =
  rib_table :: RouteTable
  rib_snapshot :: RouteTable
  rib_agents :: "bytes list"
  rib_service_priority :: u32

datatype rib_effect =
    ResetPeerQueue u32
  | ResetPeerAckPending u32
  | ResetServiceQueue Eid
  | NotifyWaiting

datatype DispatchAction =
    DispatchAdminEndpoint
  | DispatchDeliver service
  | DispatchForward u32 Eid
  | DispatchDrop "ReasonCode option"

definition rib_new :: "NodeIds \<Rightarrow> u32 \<Rightarrow> Rib" where
  "rib_new ids service_priority =
    \<lparr>rib_table = table_new ids, rib_snapshot = table_new ids, rib_agents = [],
     rib_service_priority = service_priority\<rparr>"

definition FORWARDS_NAME :: bytes where
  "FORWARDS_NAME = ascii ''neighbours''"

definition SERVICES_NAME :: bytes where
  "SERVICES_NAME = ascii ''services''"

section \<open>Lookup\<close>

text \<open>\<^verbatim>\<open>select_peer\<close>, given the hash of source, destination and flow label; \<^verbatim>\<open>swap_remove\<close> returns
  the element at the index.\<close>

definition select_peer :: "u64 \<Rightarrow> (u32 \<times> Eid) list \<Rightarrow> DispatchAction option" where
  "select_peer hash peers =
    (if peers = [] then None
     else let idx = (if length peers > 1 then unat hash mod length peers else 0);
              (peer, next_hop) = peers ! idx
          in Some (DispatchForward peer next_hop))"

record bundle_view =
  bv_destination :: Eid
  bv_source :: Eid
  bv_previous_node :: "Eid option"
  bv_flow_label :: "u32 option"

definition dispatch_of :: "(Eid \<times> Eid \<times> u32 option \<Rightarrow> u64) \<Rightarrow> bundle_view \<Rightarrow> LookupResult \<Rightarrow> DispatchAction option" where
  "dispatch_of hash_one b r =
    (case r of
       FoundAdminEndpoint \<Rightarrow> Some DispatchAdminEndpoint
     | FoundDeliver s \<Rightarrow> Some (DispatchDeliver s)
     | FoundDrop reason \<Rightarrow> Some (DispatchDrop reason)
     | FoundForward peer next_hop \<Rightarrow> Some (DispatchForward peer next_hop)
     | FoundForwardEcmp peers \<Rightarrow> select_peer (hash_one (bv_source b, bv_destination b, bv_flow_label b)) peers
     | FoundReflect \<Rightarrow> None)"

definition rib_find :: "glob_ops \<Rightarrow> (Eid \<times> Eid \<times> u32 option \<Rightarrow> u64) \<Rightarrow> Rib \<Rightarrow> bundle_view \<Rightarrow> DispatchAction option" where
  "rib_find G hash_one R b =
    (case find_recurse G (rib_snapshot R) True (bv_destination b) {} of
       None \<Rightarrow> None
     | Some FoundReflect \<Rightarrow>
         let previous = (case bv_previous_node b of Some p \<Rightarrow> p | None \<Rightarrow> bv_source b)
         in Option.bind (find_recurse G (rib_snapshot R) False previous {}) (dispatch_of hash_one b)
     | Some r \<Rightarrow> dispatch_of hash_one b r)"

section \<open>Updates\<close>

definition expand_pattern :: "Rib \<Rightarrow> EidPattern \<Rightarrow> EidPattern" where
  "expand_pattern R p =
    (case ni_ipn (rt_node_ids (rib_table R)) of
       Some ipn \<Rightarrow> (case expand_local_node p ipn of Some q \<Rightarrow> q | None \<Rightarrow> p)
     | None \<Rightarrow> p)"

definition expand_action :: "Rib \<Rightarrow> Action \<Rightarrow> Action" where
  "expand_action R a =
    (case a of
       Route (Via e) \<Rightarrow>
         Route (Via (case ids_expand_local_node (rt_node_ids (rib_table R)) e of Some x \<Rightarrow> x | None \<Rightarrow> e))
     | other \<Rightarrow> other)"

definition publish :: "RouteTable \<Rightarrow> Rib \<Rightarrow> Rib" where
  "publish T R = R\<lparr>rib_table := T, rib_snapshot := T\<rparr>"

definition reset_peer_queues :: "u32 set \<Rightarrow> rib_effect set" where
  "reset_peer_queues peers = ResetPeerQueue ` peers"

definition via_peers :: "glob_ops \<Rightarrow> Rib \<Rightarrow> Eid \<Rightarrow> u32 set" where
  "via_peers G R v = (case find_peers G (rib_snapshot R) v of Some peers \<Rightarrow> peers | None \<Rightarrow> {})"

definition rib_add :: "glob_ops \<Rightarrow> Rib \<Rightarrow> EidPattern \<Rightarrow> bytes \<Rightarrow> Action \<Rightarrow> u32 \<Rightarrow>
    routing_error + (bool \<times> rib_effect set \<times> Rib)" where
  "rib_add G R pattern source action priority =
    (let pattern = expand_pattern R pattern; action = expand_action R action
     in and_then (table_insert (rib_table R) pattern \<lparr>en_action = action, en_source = source\<rparr> priority) (\<lambda>(inserted, T).
          if \<not> inserted then Inr (False, {}, R\<lparr>rib_table := T\<rparr>)
          else
            let vias = impacted_vias G T pattern priority;
                R' = publish T R;
                resets = (case action of Route _ \<Rightarrow> \<Union> (reset_peer_queues ` via_peers G R' ` vias) | _ \<Rightarrow> {});
                notify = (if action = Internal AdminEndpoint then {} else {NotifyWaiting})
            in Inr (True, resets \<union> notify, R')))"

definition removal_effects :: "glob_ops \<Rightarrow> (rib_effect \<Rightarrow> bool) \<Rightarrow> Rib \<Rightarrow> Action \<Rightarrow> rib_effect set" where
  "removal_effects G reply R a =
    (case a of
       Route (Via to) \<Rightarrow>
         let rs = reset_peer_queues (via_peers G R to)
         in rs \<union> (if \<exists>r \<in> rs. reply r then {NotifyWaiting} else {})
     | Internal (ForwardTo peer) \<Rightarrow>
         let rs = {ResetPeerQueue peer, ResetPeerAckPending peer}
         in rs \<union> (if \<exists>r \<in> rs. reply r then {NotifyWaiting} else {})
     | Internal (Local s) \<Rightarrow> {ResetServiceQueue (svc_eid s), NotifyWaiting}
     | _ \<Rightarrow> {})"

definition rib_remove :: "glob_ops \<Rightarrow> (rib_effect \<Rightarrow> bool) \<Rightarrow> Rib \<Rightarrow> EidPattern \<Rightarrow> bytes \<Rightarrow> Action \<Rightarrow> u32 \<Rightarrow>
    bool \<times> rib_effect set \<times> Rib" where
  "rib_remove G reply R pattern source action priority =
    (let pattern = expand_pattern R pattern; action = expand_action R action;
         (removed, T) = table_remove (rib_table R) pattern \<lparr>en_action = action, en_source = source\<rparr> priority
     in if \<not> removed then (False, {}, R\<lparr>rib_table := T\<rparr>)
        else let R' = publish T R in (True, removal_effects G reply R' action, R'))"

definition rib_remove_by_source ::
  "glob_ops \<Rightarrow> (rib_effect \<Rightarrow> bool) \<Rightarrow> Rib \<Rightarrow> bytes \<Rightarrow> rib_effect set \<times> Rib" where
  "rib_remove_by_source G reply R source =
    (let ((vias, forward_peers, has_local, removed_count), T) = table_remove_by_source (rib_table R) source;
         R' = publish T R
     in if removed_count = 0 then ({}, R')
        else
          let rs = \<Union> (reset_peer_queues ` via_peers G R' ` vias) \<union>
                   ResetPeerQueue ` forward_peers \<union> ResetPeerAckPending ` forward_peers;
              changed = (has_local \<or> (\<exists>r \<in> rs. reply r))
          in (rs \<union> (if changed then {NotifyWaiting} else {}), R'))"

definition rib_add_forward :: "text_ops \<Rightarrow> glob_ops \<Rightarrow> Rib \<Rightarrow> NodeId \<Rightarrow> u32 \<Rightarrow>
    (routing_error + (bool \<times> rib_effect set \<times> Rib)) option" where
  "rib_add_forward X G R node peer =
    map_option (\<lambda>pattern. rib_add G R pattern FORWARDS_NAME (Internal (ForwardTo peer)) 0) (pattern_of_node X G node)"

definition rib_remove_forward :: "text_ops \<Rightarrow> glob_ops \<Rightarrow> (rib_effect \<Rightarrow> bool) \<Rightarrow> Rib \<Rightarrow> NodeId \<Rightarrow> u32 \<Rightarrow>
    (bool \<times> rib_effect set \<times> Rib) option" where
  "rib_remove_forward X G reply R node peer =
    map_option (\<lambda>pattern. rib_remove G reply R pattern FORWARDS_NAME (Internal (ForwardTo peer)) 0)
      (pattern_of_node X G node)"

definition rib_add_service :: "glob_ops \<Rightarrow> Rib \<Rightarrow> Eid \<Rightarrow> service \<Rightarrow> routing_error + (bool \<times> rib_effect set \<times> Rib)" where
  "rib_add_service G R e s =
    rib_add G R (pattern_of_eid e) SERVICES_NAME (Internal (Local s)) (rib_service_priority R)"

definition rib_remove_service :: "glob_ops \<Rightarrow> (rib_effect \<Rightarrow> bool) \<Rightarrow> Rib \<Rightarrow> Eid \<Rightarrow> service \<Rightarrow>
    bool \<times> rib_effect set \<times> Rib" where
  "rib_remove_service G reply R e s =
    rib_remove G reply R (pattern_of_eid e) SERVICES_NAME (Internal (Local s)) (rib_service_priority R)"

definition register_agent :: "Rib \<Rightarrow> bytes \<Rightarrow> routing_error + (NodeId list \<times> Rib)" where
  "register_agent R name =
    (if name \<in> set (rib_agents R) then Inl (AgentAlreadyExists name)
     else Inr (node_ids_list (rt_node_ids (rib_table R)), R\<lparr>rib_agents := name # rib_agents R\<rparr>))"

definition unregister_agent :: "glob_ops \<Rightarrow> (rib_effect \<Rightarrow> bool) \<Rightarrow> Rib \<Rightarrow> bytes \<Rightarrow> rib_effect set \<times> Rib" where
  "unregister_agent G reply R name =
    (if name \<in> set (rib_agents R)
     then rib_remove_by_source G reply (R\<lparr>rib_agents := removeAll name (rib_agents R)\<rparr>) name
     else ({}, R))"

text \<open>The agents are taken out first, then their routes, one agent at a time.\<close>

definition shutdown_agents :: "glob_ops \<Rightarrow> (rib_effect \<Rightarrow> bool) \<Rightarrow> Rib \<Rightarrow> rib_effect set \<times> Rib" where
  "shutdown_agents G reply R =
    fold (\<lambda>name (fx, R). let (fx', R') = rib_remove_by_source G reply R name in (fx \<union> fx', R'))
      (rib_agents R) ({}, R\<lparr>rib_agents := []\<rparr>)"

fun rib_register_all :: "bytes list \<Rightarrow> Rib \<Rightarrow> routing_error + Rib" where
  "rib_register_all [] R = Inr R"
| "rib_register_all (name # names) R = and_then (register_agent R name) (\<lambda>(_, R'). rib_register_all names R')"

definition rib_build :: "bytes list \<Rightarrow> u32 \<Rightarrow> NodeIds \<Rightarrow> routing_error + Rib" where
  "rib_build agents service_priority ids = rib_register_all agents (rib_new ids service_priority)"

section \<open>Invariant\<close>

definition rib_ok :: "Rib \<Rightarrow> bool" where
  "rib_ok R \<longleftrightarrow> table_ok (rib_table R) \<and> rib_snapshot R = rib_table R"

definition published :: "Rib \<Rightarrow> u32 \<Rightarrow> EidPattern \<Rightarrow> Entry \<Rightarrow> bool" where
  "published R pr p e = has_route (rt_routes (rib_snapshot R)) pr p e"

text \<open>An update that reports no change leaves the table as it is, so the snapshot need not be
  published again.\<close>

lemma put_same: "bt_get cmp m k = Some v \<Longrightarrow> bt_put cmp k v m = m"
  by (induction cmp m k rule: bt_get.induct) (auto split: ordering.splits)

lemma insert_same: "\<not> fst (bs_insert cmp x s) \<Longrightarrow> snd (bs_insert cmp x s) = s"
  by (induction cmp x s rule: bs_insert.induct) (auto split: ordering.splits prod.splits)

lemma insert_atom_same:
  "\<not> fst (insert_atom e pr p (b, routes)) \<Longrightarrow> insert_atom e pr p (b, routes) = (b, routes)"
  by (auto simp: insert_atom_def case_prod_unfold Let_def insert_same put_same split: option.splits)

lemma insert_atoms_same:
  "\<not> fst (fold (insert_atom e pr) atoms (b, routes)) \<Longrightarrow>
    fold (insert_atom e pr) atoms (b, routes) = (b, routes)"
proof (induction atoms rule: rev_induct)
  case (snoc a atoms)
  obtain b1 r1 where 1: "fold (insert_atom e pr) atoms (b, routes) = (b1, r1)" by fastforce
  then have 2: "insert_atom e pr a (b1, r1) = (b1, r1)" using snoc.prems insert_atom_same [of e pr a b1 r1] by simp
  then show ?case using snoc 1 by simp
qed simp

lemma remove_atom_same:
  "\<not> fst (remove_atom e pr p (b, routes)) \<Longrightarrow> remove_atom e pr p (b, routes) = (b, routes)"
  by (auto simp: remove_atom_def case_prod_unfold Let_def split: option.splits if_splits)

lemma remove_atoms_same:
  "\<not> fst (fold (remove_atom e pr) atoms (b, routes)) \<Longrightarrow>
    fold (remove_atom e pr) atoms (b, routes) = (b, routes)"
proof (induction atoms rule: rev_induct)
  case (snoc a atoms)
  obtain b1 r1 where 1: "fold (remove_atom e pr) atoms (b, routes) = (b1, r1)" by fastforce
  then have 2: "remove_atom e pr a (b1, r1) = (b1, r1)" using snoc.prems remove_atom_same [of e pr a b1 r1] by simp
  then show ?case using snoc 1 by simp
qed simp

lemma table_insert_same: "table_insert T p e pr = Inr (False, T') \<Longrightarrow> T' = T"
  using insert_atoms_same [of e pr "into_atoms p" False "rt_routes T"]
  by (auto simp: table_insert_def case_prod_unfold Let_def split: option.splits)

lemma table_remove_same: "table_remove T p e pr = (False, T') \<Longrightarrow> T' = T"
  using remove_atoms_same [of e pr "into_atoms p" False "rt_routes T"]
  by (auto simp: table_remove_def case_prod_unfold Let_def)

section \<open>Updates keep the invariant and publish their effect\<close>

lemma rib_new_ok: "ni_ipn ids \<noteq> None \<or> ni_dtn ids \<noteq> None \<Longrightarrow> rib_ok (rib_new ids sp)"
  by (simp add: rib_ok_def rib_new_def table_new_ok)

lemma publish_same: "rib_ok R \<Longrightarrow> T = rib_table R \<Longrightarrow> R\<lparr>rib_table := T\<rparr> = publish T R"
  by (cases R) (simp add: rib_ok_def publish_def)

lemma rib_add_table:
  assumes "rib_ok R" and "rib_add G R p src a pr = Inr (b, fx, R')"
  shows "\<exists>T'. table_insert (rib_table R) (expand_pattern R p) \<lparr>en_action = expand_action R a, en_source = src\<rparr> pr =
      Inr (b, T') \<and> R' = publish T' R"
  using assms(2)
  by (cases "table_insert (rib_table R) (expand_pattern R p) \<lparr>en_action = expand_action R a, en_source = src\<rparr> pr")
    (auto simp: rib_add_def Let_def intro!: publish_same [OF assms(1)] intro: table_insert_same split: if_splits)

lemma rib_add_ok:
  assumes "rib_ok R" and "rib_add G R p src a pr = Inr (b, fx, R')"
  shows "rib_ok R'"
    and "published R' pr' p' e' \<longleftrightarrow> published R pr' p' e' \<or>
      (\<exists>at \<in> set (into_atoms (expand_pattern R p)).
        same_route pr' p' e' pr at \<lparr>en_action = expand_action R a, en_source = src\<rparr>)"
    and "b \<longleftrightarrow> R' \<noteq> R"
proof -
  obtain T' where T': "table_insert (rib_table R) (expand_pattern R p)
      \<lparr>en_action = expand_action R a, en_source = src\<rparr> pr = Inr (b, T')" "R' = publish T' R"
    using rib_add_table [OF assms] by blast
  have ok: "table_ok (rib_table R)" "rib_snapshot R = rib_table R" using assms(1) by (simp_all add: rib_ok_def)
  note spec = table_insert_spec [OF ok(1) T'(1)]
  show "rib_ok R'" using spec(1) T'(2) by (simp add: rib_ok_def publish_def)
  show "published R' pr' p' e' \<longleftrightarrow> published R pr' p' e' \<or>
      (\<exists>at \<in> set (into_atoms (expand_pattern R p)).
        same_route pr' p' e' pr at \<lparr>en_action = expand_action R a, en_source = src\<rparr>)"
    using spec(2) T'(2) ok(2) by (simp add: published_def publish_def)
  show "b \<longleftrightarrow> R' \<noteq> R"
  proof
    assume b
    then obtain at where "at \<in> set (into_atoms (expand_pattern R p))"
      "\<not> has_route (rt_routes (rib_table R)) pr at \<lparr>en_action = expand_action R a, en_source = src\<rparr>"
      using spec(3) by blast
    then have "rt_routes T' \<noteq> rt_routes (rib_table R)"
      using spec(2) [of pr at "\<lparr>en_action = expand_action R a, en_source = src\<rparr>"]
      by (auto simp: same_route_def entry_order.cmp_refl intro: pattern_order.cmp_refl)
    moreover have "rib_table R' = T'" using T'(2) by (simp add: publish_def)
    ultimately show "R' \<noteq> R" by auto
  next
    assume "R' \<noteq> R"
    then show b using T' ok(2) table_insert_same by (cases b) (auto simp: publish_def)
  qed
qed

lemma rib_remove_ok:
  assumes "rib_ok R" and "rib_remove G reply R p src a pr = (b, fx, R')"
  shows "rib_ok R'"
    and "published R' pr' p' e' \<longleftrightarrow> published R pr' p' e' \<and>
      \<not> (\<exists>at \<in> set (into_atoms (expand_pattern R p)).
        same_route pr' p' e' pr at \<lparr>en_action = expand_action R a, en_source = src\<rparr>)"
proof -
  obtain T' where T': "table_remove (rib_table R) (expand_pattern R p)
      \<lparr>en_action = expand_action R a, en_source = src\<rparr> pr = (b, T')" "R' = publish T' R"
    using assms(2) publish_same [OF assms(1) table_remove_same]
    by (auto simp: rib_remove_def Let_def split: if_splits prod.splits)
  have ok: "table_ok (rib_table R)" "rib_snapshot R = rib_table R" using assms(1) by (simp_all add: rib_ok_def)
  note spec = table_remove_spec [OF ok(1) T'(1)]
  show "rib_ok R'" using spec(1) T'(2) by (simp add: rib_ok_def publish_def)
  show "published R' pr' p' e' \<longleftrightarrow> published R pr' p' e' \<and>
      \<not> (\<exists>at \<in> set (into_atoms (expand_pattern R p)).
        same_route pr' p' e' pr at \<lparr>en_action = expand_action R a, en_source = src\<rparr>)"
    using spec(2) T'(2) ok(2) by (simp add: published_def publish_def)
qed

lemma rib_remove_by_source_ok:
  assumes "rib_ok R" and "rib_remove_by_source G reply R src = (fx, R')"
  shows "rib_ok R'" and "rib_agents R' = rib_agents R"
    and "published R' pr p e \<longleftrightarrow> published R pr p e \<and> en_source e \<noteq> src"
proof -
  obtain r T' where T': "table_remove_by_source (rib_table R) src = (r, T')" "R' = publish T' R"
    using assms(2) by (auto simp: rib_remove_by_source_def Let_def split: prod.splits if_splits)
  have ok: "table_ok (rib_table R)" "rib_snapshot R = rib_table R" using assms(1) by (simp_all add: rib_ok_def)
  note spec = table_remove_by_source_spec [OF ok(1) T'(1)]
  show "rib_ok R'" using spec(1) T'(2) by (simp add: rib_ok_def publish_def)
  show "rib_agents R' = rib_agents R" using T'(2) by (simp add: publish_def)
  show "published R' pr p e \<longleftrightarrow> published R pr p e \<and> en_source e \<noteq> src"
    using spec(2) T'(2) ok(2) by (simp add: published_def publish_def)
qed

lemma unregister_agent_ok:
  assumes "rib_ok R" and "name \<in> set (rib_agents R)" and "unregister_agent G reply R name = (fx, R')"
  shows "rib_ok R'" and "set (rib_agents R') = set (rib_agents R) - {name}"
    and "published R' pr p e \<longleftrightarrow> published R pr p e \<and> en_source e \<noteq> name"
proof -
  let ?R = "R\<lparr>rib_agents := removeAll name (rib_agents R)\<rparr>"
  have u: "rib_remove_by_source G reply ?R name = (fx, R')" using assms(2,3) by (simp add: unregister_agent_def)
  have ok: "rib_ok ?R" using assms(1) by (simp add: rib_ok_def)
  note spec = rib_remove_by_source_ok [OF ok u]
  show "rib_ok R'" by (rule spec(1))
  show "set (rib_agents R') = set (rib_agents R) - {name}" using spec(2) by simp
  show "published R' pr p e \<longleftrightarrow> published R pr p e \<and> en_source e \<noteq> name"
    using spec(3) by (simp add: published_def)
qed

section \<open>Dispatch decisions\<close>

lemma select_peer_member:
  "select_peer h peers = Some a \<Longrightarrow> \<exists>(p, n) \<in> set peers. a = DispatchForward p n"
proof -
  assume "select_peer h peers = Some a"
  moreover have "unat h mod length peers < length peers" if "peers \<noteq> []" using that by simp
  ultimately show ?thesis
    by (auto simp: select_peer_def Let_def case_prod_unfold intro!: bexI [OF _ nth_mem] split: if_splits)
qed

lemma select_peer_some: "peers \<noteq> [] \<Longrightarrow> select_peer h peers \<noteq> None"
  by (simp add: select_peer_def Let_def case_prod_unfold)

text \<open>What a decision rests on: entries reached from the identifier that was resolved.\<close>

fun decision_backed :: "glob_ops \<Rightarrow> RouteTable \<Rightarrow> Eid \<Rightarrow> DispatchAction \<Rightarrow> bool" where
  "decision_backed G T to DispatchAdminEndpoint = (\<exists>x. leads G T to x (Internal AdminEndpoint))"
| "decision_backed G T to (DispatchDeliver s) = (\<exists>x. leads G T to x (Internal (Local s)))"
| "decision_backed G T to (DispatchForward p n) = leads G T to n (Internal (ForwardTo p))"
| "decision_backed G T to (DispatchDrop reason) = (\<exists>x. leads G T to x (Route (DropBundle reason)))"

definition reflect_target :: "bundle_view \<Rightarrow> Eid" where
  "reflect_target b = (case bv_previous_node b of Some p \<Rightarrow> p | None \<Rightarrow> bv_source b)"

lemma dispatch_backed:
  assumes "answer_backed G T r to a" and "dispatch_of h b a = Some d"
  shows "decision_backed G T to d"
proof (cases a)
  case (FoundForwardEcmp peers)
  then show ?thesis using assms by (auto simp: dispatch_of_def peers_backed_def dest!: select_peer_member)
qed (use assms in \<open>auto simp: dispatch_of_def\<close>)

lemma dispatch_total:
  assumes "answer_backed G T False to a"
  shows "dispatch_of h b a \<noteq> None"
proof (cases a)
  case (FoundForwardEcmp peers)
  then have "peers \<noteq> []" using assms by auto
  then show ?thesis using FoundForwardEcmp by (simp add: dispatch_of_def select_peer_some del: not_None_eq)
qed (use assms in \<open>simp_all add: dispatch_of_def\<close>)

lemma rib_find_cases:
  "rib_find G h R b =
    (case find_recurse G (rib_snapshot R) True (bv_destination b) {} of
       None \<Rightarrow> None
     | Some r \<Rightarrow>
         if r = FoundReflect
         then Option.bind (find_recurse G (rib_snapshot R) False (reflect_target b) {}) (dispatch_of h b)
         else dispatch_of h b r)"
  by (simp add: rib_find_def reflect_target_def Let_def split: option.split LookupResult.split)

lemma rib_find_backed:
  assumes "rib_find G h R b = Some d"
  shows "decision_backed G (rib_snapshot R) (bv_destination b) d \<or>
    (\<exists>x. leads G (rib_snapshot R) (bv_destination b) x (Route Reflect)) \<and>
      decision_backed G (rib_snapshot R) (reflect_target b) d"
proof -
  obtain r where r: "find_recurse G (rib_snapshot R) True (bv_destination b) {} = Some r"
    using assms by (auto simp: rib_find_cases split: option.splits)
  note rb = find_recurse_backed [OF r]
  show ?thesis
  proof (cases "r = FoundReflect")
    case True
    then obtain a where a: "find_recurse G (rib_snapshot R) False (reflect_target b) {} = Some a"
      "dispatch_of h b a = Some d"
      using assms r by (auto simp: rib_find_cases split: bind_splits)
    then show ?thesis using rb True dispatch_backed [OF find_recurse_backed [OF a(1)] a(2)] by auto
  next
    case False
    then show ?thesis using assms r rb dispatch_backed [OF rb] by (simp add: rib_find_cases)
  qed
qed

end
