(* ===== verification/Bpa_Props.thy ===== *)
theory Bpa_Props
  imports Bpa_Rib Bpv7_Samples
begin

unbundle bit_operations_syntax

text \<open>
  The properties of endpoint patterns, the route table and the routing information base, with
  their witnesses on small concrete tables.
\<close>

section \<open>Sample data\<close>

definition sample_globs :: glob_ops where
  "sample_globs = \<lparr>gl_valid = \<lambda>_. True, gl_matches = \<lambda>p t. p = ascii ''**'' \<or> p = t\<rparr>"

definition sample_node :: "nat \<Rightarrow> IpnNodeId" where
  "sample_node n = \<lparr>allocator_id = 0, node_number = of_nat n\<rparr>"

definition sample_ids :: NodeIds where
  "sample_ids = \<lparr>ni_ipn = Some (sample_node 1), ni_dtn = None\<rparr>"

definition sample_rib :: Rib where
  "sample_rib = rib_new sample_ids 1"

definition sample_bundle :: bundle_view where
  "sample_bundle = \<lparr>bv_destination = Ipn (sample_node 1) 0, bv_source = Ipn (sample_node 2) 5,
    bv_previous_node = None, bv_flow_label = None\<rparr>"

lemmas sample_eval = sample_globs_def sample_node_def sample_ids_def sample_rib_def sample_bundle_def
  rib_new_def table_new_def pattern_of_eid_def eid_of_ipn_node_def ipn_item_new_def admin_entry_def

lemma sample_rib_ok: "rib_ok sample_rib"
  unfolding sample_rib_def by (rule rib_new_ok) (simp add: sample_ids_def)

section \<open>Lookup\<close>

text \<open>C3. A route lookup answers exactly when the table holds an answer: a chain of Via routes from the
  destination to an identifier matched by an entry that is not itself a Via route (and not a
  Reflect route when reflecting is off). Loops among the Via routes neither hang the lookup nor
  hide an answer.\<close>

theorem route_lookup_complete:
  "find_recurse G T reflect to {} \<noteq> None \<longleftrightarrow> route_exists G T reflect to"
  by (rule find_recurse_iff)

text \<open>C12. A dispatch decision rests on entries of the published table: the administrative endpoint, the
  service, the peer with its next hop or the drop reason stands in an entry reached by Via
  routes from the bundle's destination, or from the previous node (the source if there is none)
  when a Reflect route is reached from the destination.\<close>

theorem dispatch_decision_backed:
  assumes "rib_find G h R b = Some d"
  shows "decision_backed G (rib_snapshot R) (bv_destination b) d \<or>
    (\<exists>x. leads G (rib_snapshot R) (bv_destination b) x (Route Reflect)) \<and>
      decision_backed G (rib_snapshot R) (reflect_target b) d"
  using assms by (rule rib_find_backed)

theorem dispatch_decision_backed_witness:
  "decision_backed sample_globs (rib_snapshot sample_rib) (bv_destination sample_bundle) DispatchAdminEndpoint \<or>
    (\<exists>x. leads sample_globs (rib_snapshot sample_rib) (bv_destination sample_bundle) x (Route Reflect)) \<and>
      decision_backed sample_globs (rib_snapshot sample_rib) (reflect_target sample_bundle) DispatchAdminEndpoint"
  by (rule dispatch_decision_backed [where h = "\<lambda>_. 0"])
    (simp add: sample_eval rib_find_def find_recurse.simps matching_groups_def pattern_matches_def item_matches_def
      ipn_item_matches_def ipn_item_matches_parts_def dispatch_of_def)

lemma rib_find_decides:
  assumes "find_recurse G (rib_snapshot R) True (bv_destination b) {} = Some r" and "r \<noteq> FoundReflect"
  shows "rib_find G h R b \<noteq> None"
proof -
  have "answer_backed G (rib_snapshot R) False (bv_destination b) r"
    using find_recurse_backed [OF assms(1)] assms(2) by (cases r) auto
  then show ?thesis using assms dispatch_total by (simp add: rib_find_cases)
qed

lemma rib_find_reflects:
  assumes "find_recurse G (rib_snapshot R) True (bv_destination b) {} = Some FoundReflect"
  shows "rib_find G h R b \<noteq> None \<longleftrightarrow> find_recurse G (rib_snapshot R) False (reflect_target b) {} \<noteq> None"
proof (cases "find_recurse G (rib_snapshot R) False (reflect_target b) {}")
  case (Some a)
  then show ?thesis
    using assms dispatch_total [OF find_recurse_backed [OF Some]] by (simp add: rib_find_cases)
qed (use assms in \<open>simp add: rib_find_cases\<close>)

text \<open>C35. A bundle is dispatched exactly when a route answers for its destination, or, when that answer
  is to reflect it, when a route other than a Reflect route answers for the node it came from;
  otherwise it is left waiting. A reflected bundle is never reflected again.\<close>

theorem dispatch_decides_iff:
  "rib_find G h R b \<noteq> None \<longleftrightarrow>
    (if find_recurse G (rib_snapshot R) True (bv_destination b) {} = Some FoundReflect
     then route_exists G (rib_snapshot R) False (reflect_target b)
     else route_exists G (rib_snapshot R) True (bv_destination b))"
proof (cases "find_recurse G (rib_snapshot R) True (bv_destination b) {}")
  case None
  then have "\<not> route_exists G (rib_snapshot R) True (bv_destination b)"
    using find_recurse_iff [of G "rib_snapshot R" True] by blast
  then show ?thesis using None by (simp add: rib_find_cases)
next
  case (Some r)
  then have "route_exists G (rib_snapshot R) True (bv_destination b)"
    using find_recurse_iff [of G "rib_snapshot R" True] by blast
  then show ?thesis
    using Some rib_find_decides [OF Some] rib_find_reflects [of G R b h]
      find_recurse_iff [of G "rib_snapshot R" False "reflect_target b"]
    by (cases "r = FoundReflect") auto
qed

section \<open>The table as a set of routes\<close>

definition route_set :: "RouteTable \<Rightarrow> (u32 \<times> EidPattern \<times> Entry) set" where
  "route_set T = {(pr, p, e). has_route (rt_routes T) pr p e}"

definition slots :: "u32 \<Rightarrow> EidPattern \<Rightarrow> Entry \<Rightarrow> (u32 \<times> EidPattern \<times> Entry) set" where
  "slots pr p e = {(pr', p', e'). \<exists>a \<in> set (into_atoms p). same_route pr' p' e' pr a e}"

lemma route_set_iff: "(pr, p, e) \<in> route_set T \<longleftrightarrow> has_route (rt_routes T) pr p e"
  by (simp add: route_set_def)

lemma slots_atom: "a \<in> set (into_atoms p) \<Longrightarrow> (pr, a, e) \<in> slots pr p e"
  by (auto simp: slots_def same_route_def entry_order.cmp_refl intro!: bexI [of _ a] pattern_order.cmp_refl)

lemma insert_route_set:
  assumes "table_ok T" and i: "table_insert T p e pr = Inr (b, T')"
  shows "table_ok T' \<and> route_set T' = route_set T \<union> slots pr p e \<and> (b \<longleftrightarrow> route_set T' \<noteq> route_set T)"
proof -
  note spec = table_insert_spec [OF assms]
  have s: "route_set T' = route_set T \<union> slots pr p e" using spec(2) by (auto simp: route_set_def slots_def)
  have "route_set T' \<noteq> route_set T" if b: b
  proof -
    obtain a where "a \<in> set (into_atoms p)" "(pr, a, e) \<notin> route_set T"
      using spec(3) b unfolding route_set_iff by blast
    then show ?thesis using s slots_atom by blast
  qed
  moreover have "T' = T" if "\<not> b" using i that by (simp add: table_insert_same)
  ultimately show ?thesis using spec(1) s by blast
qed

lemma remove_route_set:
  assumes "table_ok T" and i: "table_remove T p e pr = (b, T')"
  shows "table_ok T' \<and> route_set T' = route_set T - slots pr p e \<and> (b \<longleftrightarrow> route_set T' \<noteq> route_set T)"
proof -
  note spec = table_remove_spec [OF assms]
  have s: "route_set T' = route_set T - slots pr p e" using spec(2) by (auto simp: route_set_def slots_def)
  have "route_set T' \<noteq> route_set T" if b: b
  proof -
    obtain a where "a \<in> set (into_atoms p)" "(pr, a, e) \<in> route_set T"
      using spec(3) b unfolding route_set_iff by blast
    then show ?thesis using s slots_atom by blast
  qed
  moreover have "T' = T" if "\<not> b" using i that by (simp add: table_remove_same)
  ultimately show ?thesis using spec(1) s by blast
qed

lemma rows_have_routes:
  assumes "table_ok T"
  shows "source_rows T source = {} \<longleftrightarrow> (\<forall>(pr, p, e) \<in> route_set T. en_source e \<noteq> source)"
proof -
  have "(pr, p, e) \<in> route_set T" if row: "(pr, p, e) \<in> table_rows T" for pr p e
  proof -
    obtain pats acts where m: "(pr, pats) \<in> set (rt_routes T)" "(p, acts) \<in> set pats" "e \<in> set acts"
      using row unfolding table_rows_def by blast
    have "ascending compare (map fst (rt_routes T))" "ascending pattern_cmp (map fst pats)"
      using assms m(1) by (auto simp: table_ok_def routes_ok_def pats_ok_def)
    then have "get_actions (rt_routes T) pr p = Some acts"
      using m by (simp add: get_actions_def u32_order.mem_get pattern_order.mem_get)
    then show ?thesis using m(3) entry_order.cmp_refl by (auto simp: route_set_iff has_route_def)
  qed
  moreover have "\<exists>p' e'. (pr, p', e') \<in> table_rows T \<and> en_source e' = en_source e" if "(pr, p, e) \<in> route_set T" for pr p e
    using that entry_cmp_source
    by (fastforce simp: route_set_iff has_route_def get_actions_def table_rows_def bind_eq_Some_conv
        dest!: u32_order.get_mem pattern_order.get_mem)
  ultimately show ?thesis by (fastforce simp: source_rows_def)
qed

lemma finite_source_rows: "finite (source_rows T source)"
  by (rule finite_subset [OF _ finite_set [of "row_list (rt_routes T)", unfolded set_row_list]]) (auto simp: source_rows_def)

lemma remove_source_route_set:
  assumes "table_ok T" and "table_remove_by_source T source = (r, T')"
  shows "table_ok T' \<and> route_set T' = {(pr, p, e) \<in> route_set T. en_source e \<noteq> source} \<and> removal_report T source r \<and>
    table_rows T' = table_rows T - source_rows T source \<and> (snd (snd (snd r)) \<noteq> 0 \<longleftrightarrow> route_set T' \<noteq> route_set T)"
proof -
  note spec = table_remove_by_source_spec [OF assms]
  have s: "route_set T' = {(pr, p, e) \<in> route_set T. en_source e \<noteq> source}" using spec(2) by (auto simp: route_set_def)
  have r: "removal_report T source r" using assms by (rule table_remove_by_source_reports)
  then have "snd (snd (snd r)) = card (source_rows T source)" by (auto simp: removal_report_def Let_def case_prod_unfold)
  then have "snd (snd (snd r)) \<noteq> 0 \<longleftrightarrow> source_rows T source \<noteq> {}" by (simp add: finite_source_rows)
  also have "\<dots> \<longleftrightarrow> route_set T' \<noteq> route_set T" unfolding rows_have_routes [OF assms(1)] s by blast
  finally show ?thesis using spec(1) s r table_remove_by_source_rows [OF assms(2)] by blast
qed

text \<open>C7. The nested ordered maps implement a set of routes, each a priority, an atomic pattern and an
  entry: insertion adds the atoms of the pattern and removal takes them out, and the flag they return
  says whether the set has changed. Removal by source takes out exactly the entries of the source and
  reports the next hops of the Via routes among them, the peers of the forwards, whether a local
  service was one of them, and how many entries went; that count is not zero exactly when the set has
  changed. Each keeps the table well formed.\<close>

theorem route_table_refines_set:
  assumes "table_ok T"
  shows "(\<forall>b T'. table_insert T p e pr = Inr (b, T') \<longrightarrow>
      table_ok T' \<and> route_set T' = route_set T \<union> slots pr p e \<and> (b \<longleftrightarrow> route_set T' \<noteq> route_set T)) \<and>
    (\<forall>b T'. table_remove T p e pr = (b, T') \<longrightarrow>
      table_ok T' \<and> route_set T' = route_set T - slots pr p e \<and> (b \<longleftrightarrow> route_set T' \<noteq> route_set T)) \<and>
    (\<forall>r T'. table_remove_by_source T source = (r, T') \<longrightarrow>
      table_ok T' \<and> route_set T' = {(pr, p, e) \<in> route_set T. en_source e \<noteq> source} \<and> removal_report T source r \<and>
      table_rows T' = table_rows T - source_rows T source \<and> (snd (snd (snd r)) \<noteq> 0 \<longleftrightarrow> route_set T' \<noteq> route_set T))"
  using insert_route_set [OF assms] remove_route_set [OF assms] remove_source_route_set [OF assms] by blast

definition sample_drop :: Entry where
  "sample_drop = \<lparr>en_action = Route (DropBundle None), en_source = ascii ''static''\<rparr>"

lemma sample_insert:
  "\<exists>T'. table_insert (table_new sample_ids) AnyPattern sample_drop 5 = Inr (True, T')"
proof -
  have "bt_get compare (rt_routes (table_new sample_ids)) 5 = None"
    by (simp add: table_new_def Let_def compare_def)
  then show ?thesis
    by (simp add: table_insert_def sample_drop_def next_hop_error_def into_atoms_def insert_atom_def)
qed

theorem route_table_refines_set_witness:
  "\<exists>T'. table_insert (table_new sample_ids) AnyPattern sample_drop 5 = Inr (True, T') \<and> table_ok T' \<and>
    route_set T' = route_set (table_new sample_ids) \<union> slots 5 AnyPattern sample_drop \<and>
    route_set T' \<noteq> route_set (table_new sample_ids)"
proof -
  have "table_ok (table_new sample_ids)" by (rule table_new_ok) (simp add: sample_ids_def)
  note r = route_table_refines_set [OF this, of AnyPattern sample_drop 5]
  obtain T' where i: "table_insert (table_new sample_ids) AnyPattern sample_drop 5 = Inr (True, T')"
    using sample_insert by blast
  from conjunct1 [OF r, rule_format, OF i] have
    "table_ok T'" "route_set T' = route_set (table_new sample_ids) \<union> slots 5 AnyPattern sample_drop"
    "route_set T' \<noteq> route_set (table_new sample_ids)" by blast+
  then show ?thesis using i by metis
qed

section \<open>The routing information base\<close>

inductive rib_step :: "glob_ops \<Rightarrow> (rib_effect \<Rightarrow> bool) \<Rightarrow> Rib \<Rightarrow> Rib \<Rightarrow> bool" for G reply where
  add: "rib_add G R p src a pr = Inr (b, fx, R') \<Longrightarrow> rib_step G reply R R'"
| remove: "rib_remove G reply R p src a pr = (b, fx, R') \<Longrightarrow> rib_step G reply R R'"
| remove_by_source: "rib_remove_by_source G reply R src = (fx, R') \<Longrightarrow> rib_step G reply R R'"
| register: "register_agent R name = Inr (ids, R') \<Longrightarrow> rib_step G reply R R'"
| unregister: "unregister_agent G reply R name = (fx, R') \<Longrightarrow> rib_step G reply R R'"

inductive_cases rib_stepE: "rib_step G reply R R'"

lemma rib_add_ids:
  "rib_add G R p src a pr = Inr (b, fx, R') \<Longrightarrow> rt_node_ids (rib_table R') = rt_node_ids (rib_table R)"
  by (auto simp: rib_add_def table_insert_def publish_def Let_def case_prod_unfold split: option.splits if_splits)

lemma rib_remove_ids:
  "rib_remove G reply R p src a pr = (b, fx, R') \<Longrightarrow> rt_node_ids (rib_table R') = rt_node_ids (rib_table R)"
  by (auto simp: rib_remove_def table_remove_def publish_def Let_def case_prod_unfold split: if_splits)

lemma rib_remove_by_source_ids:
  "rib_remove_by_source G reply R src = (fx, R') \<Longrightarrow> rt_node_ids (rib_table R') = rt_node_ids (rib_table R)"
  by (auto simp: rib_remove_by_source_def table_remove_by_source_def publish_def Let_def split: if_splits)

lemma rib_step_ids:
  assumes "rib_step G reply R R'"
  shows "rt_node_ids (rib_table R') = rt_node_ids (rib_table R)"
  using assms
proof cases
  case (unregister name fx)
  then show ?thesis
    by (auto simp: unregister_agent_def dest!: rib_remove_by_source_ids split: if_splits)
qed (auto simp: register_agent_def dest: rib_add_ids rib_remove_ids rib_remove_by_source_ids split: if_splits)

lemma rib_step_ok:
  assumes "rib_ok R" and "rib_step G reply R R'"
  shows "rib_ok R'"
  using assms(2)
proof cases
  case (register name ids)
  then show ?thesis using assms(1) by (auto simp: register_agent_def rib_ok_def split: if_splits)
next
  case (unregister name fx)
  then show ?thesis
    using assms(1) unregister_agent_ok(1) [OF assms(1), of name]
    by (cases "name \<in> set (rib_agents R)") (auto simp: unregister_agent_def)
next
  case (add p src a pr b fx)
  then show ?thesis using rib_add_ok(1) [OF assms(1)] by blast
next
  case (remove p src a pr b fx)
  then show ?thesis using rib_remove_ok(1) [OF assms(1)] by blast
next
  case (remove_by_source src fx)
  then show ?thesis using rib_remove_by_source_ok(1) [OF assms(1)] by blast
qed

lemma ucast_inj: "(ucast (a :: u32) :: u64) = ucast b \<longleftrightarrow> a = b"
  by (metis ucast_ucast_down(3))

lemma via_slot: "entry_cmp e e' = Equal \<Longrightarrow> en_action e = Route (Via v) \<Longrightarrow> en_action e' = Route (Via v)"
proof -
  assume a: "entry_cmp e e' = Equal" "en_action e = Route (Via v)"
  have inj: "eid_key x = eid_key y \<Longrightarrow> x = y" for x y
    by (cases x; cases y) (auto simp: ucast_inj)
  have "action_cmp (en_action e) (en_action e') = Equal"
    using a(1) by (cases "action_cmp (en_action e) (en_action e')") (simp_all add: entry_cmp_def)
  then show ?thesis
    using a(2) inj by (cases "en_action e'" rule: action_rank.cases) (auto simp: action_cmp_key)
qed

lemma published_via_ok:
  assumes "rib_ok R" and "published R pr p e" and "en_action e = Route (Via v)"
  shows "\<not> is_null v \<and> \<not> is_local (rt_node_ids (rib_table R)) v"
proof -
  obtain acts e' where a: "get_actions (rt_routes (rib_table R)) pr p = Some acts" "e' \<in> set acts"
    "entry_cmp e e' = Equal"
    using assms(1,2) by (auto simp: published_def has_route_def rib_ok_def)
  have "acts_ok (rt_node_ids (rib_table R)) acts"
    using a(1) assms(1) by (auto simp: get_actions_def rib_ok_def table_ok_def dest: routes_ok_get pats_ok_get split: bind_splits)
  then have "next_hop_error (rt_node_ids (rib_table R)) (Route (Via v)) = None"
    using a(2) via_slot [OF a(3) assms(3)] by (auto simp: acts_ok_def)
  then show ?thesis by (simp add: next_hop_error_def split: if_splits)
qed

text \<open>C10. After any sequence of updates by routing agents, peers and services, the published snapshot is
  the authoritative table, the table is well formed, and no published route goes via the null
  endpoint or an endpoint of the node itself.\<close>

theorem rib_reachable_ok:
  assumes "ni_ipn ids \<noteq> None \<or> ni_dtn ids \<noteq> None" and "(rib_step G reply)\<^sup>*\<^sup>* (rib_new ids sp) R"
  shows "table_ok (rib_table R) \<and> rib_snapshot R = rib_table R \<and> rt_node_ids (rib_table R) = ids \<and>
    (\<forall>pr p e v. published R pr p e \<and> en_action e = Route (Via v) \<longrightarrow> \<not> is_null v \<and> \<not> is_local ids v)"
proof -
  have "rib_ok R \<and> rt_node_ids (rib_table R) = ids"
    using assms(2)
  proof (induction rule: rtranclp_induct)
    case base
    then show ?case using rib_new_ok [OF assms(1)] by (simp add: rib_new_def table_new_def Let_def)
  next
    case (step R R')
    then show ?case using rib_step_ok rib_step_ids by blast
  qed
  then show ?thesis using published_via_ok by (auto simp: rib_ok_def)
qed

lemma sample_add:
  "\<exists>fx R'. rib_add sample_globs sample_rib AnyPattern (ascii ''static'') (Route (DropBundle None)) 5 = Inr (True, fx, R')"
proof -
  have "expand_pattern sample_rib AnyPattern = AnyPattern"
    by (simp add: expand_pattern_def expand_local_node_def split: option.split)
  moreover have "expand_action sample_rib (Route (DropBundle None)) = Route (DropBundle None)"
    by (simp add: expand_action_def)
  moreover have "rib_table sample_rib = table_new sample_ids" by (simp add: sample_rib_def rib_new_def)
  ultimately show ?thesis using sample_insert by (auto simp: rib_add_def sample_drop_def Let_def)
qed

theorem rib_reachable_ok_witness:
  "\<exists>fx R. rib_add sample_globs (rib_new sample_ids 1) AnyPattern (ascii ''static'') (Route (DropBundle None)) 5 =
      Inr (True, fx, R) \<and> table_ok (rib_table R) \<and> rib_snapshot R = rib_table R"
proof -
  obtain fx R where a: "rib_add sample_globs (rib_new sample_ids 1) AnyPattern (ascii ''static'')
      (Route (DropBundle None)) 5 = Inr (True, fx, R)"
    using sample_add unfolding sample_rib_def by blast
  have "ni_ipn sample_ids \<noteq> None \<or> ni_dtn sample_ids \<noteq> None" by (simp add: sample_ids_def)
  moreover have "(rib_step sample_globs (\<lambda>_. True))\<^sup>*\<^sup>* (rib_new sample_ids 1) R"
    using rib_step.add [OF a] by blast
  ultimately have "table_ok (rib_table R)" "rib_snapshot R = rib_table R" using rib_reachable_ok by blast+
  then show ?thesis using a by blast
qed

text \<open>C36. Unregistering a routing agent takes it out of the set of agents and withdraws exactly the
  routes it installed: every route of another source stays published.\<close>

theorem unregister_withdraws_routes:
  assumes "rib_ok R" and "name \<in> set (rib_agents R)" and "unregister_agent G reply R name = (fx, R')"
  shows "rib_ok R' \<and> set (rib_agents R') = set (rib_agents R) - {name} \<and>
    (\<forall>pr p e. published R' pr p e \<longleftrightarrow> published R pr p e \<and> en_source e \<noteq> name)"
  using unregister_agent_ok [OF assms] by blast

theorem unregister_withdraws_routes_witness:
  "\<exists>fx R'. unregister_agent sample_globs (\<lambda>_. True) (sample_rib\<lparr>rib_agents := [ascii ''static'']\<rparr>) (ascii ''static'') =
      (fx, R') \<and> rib_ok R' \<and> set (rib_agents R') = {}"
proof -
  let ?R = "sample_rib\<lparr>rib_agents := [ascii ''static'']\<rparr>"
  obtain fx R' where u: "unregister_agent sample_globs (\<lambda>_. True) ?R (ascii ''static'') = (fx, R')"
    by (rule prod.exhaust)
  have "rib_ok ?R" using sample_rib_ok by (simp add: rib_ok_def)
  from unregister_withdraws_routes [OF this _ u] have "rib_ok R' \<and> set (rib_agents R') = {}" by simp
  then show ?thesis using u by blast
qed

text \<open>A route is refused exactly when it goes via the null endpoint, or via an endpoint of the node
  itself, after the local-node form of the next hop has been replaced by the node's number; the
  error names that endpoint. No other route is refused.\<close>

lemma next_hop_refused:
  "rib_add G R p src a pr = Inl err \<longleftrightarrow>
    (\<exists>v. expand_action R a = Route (Via v) \<and>
      (is_null v \<and> err = NullNextHop \<or>
       \<not> is_null v \<and> is_local (rt_node_ids (rib_table R)) v \<and> err = ViaOwnNode v))"
proof -
  let ?n = "next_hop_error (rt_node_ids (rib_table R)) (expand_action R a)"
  have "rib_add G R p src a pr = Inl err \<longleftrightarrow> ?n = Some err"
  proof (cases ?n)
    case None
    then show ?thesis by (simp add: rib_add_def table_insert_def Let_def case_prod_unfold)
  qed (simp add: rib_add_def table_insert_def Let_def)
  then show ?thesis by (auto simp: next_hop_error_def split: Action.splits RouteAction.splits if_splits)
qed

section \<open>Patterns\<close>

text \<open>C37. The range that the pattern parser builds from a list of intervals, by sorting them and
  merging what overlaps or touches, matches exactly the union of the intervals, up to the largest
  number, and is in the normal form that makes equal ranges equal values.\<close>

theorem parsed_range_is_union:
  assumes "is \<noteq> []" and "\<forall>(a, b) \<in> set is. a \<le> b"
  shows "ipn_canonical (range_of_intervals is) \<and>
    (\<forall>v. ipn_pattern_matches (range_of_intervals is) v \<longleftrightarrow> (\<exists>(a, b) \<in> set is. a \<le> v \<and> v \<le> b))"
  using assms by (rule range_of_intervals_canonical)

theorem parsed_range_is_union_witness:
  "ipn_canonical (range_of_intervals [(7, 9), (0xFFFFFFFF, 0xFFFFFFFF), (3, 6)]) \<and>
    (\<forall>v. ipn_pattern_matches (range_of_intervals [(7, 9), (0xFFFFFFFF, 0xFFFFFFFF), (3, 6)]) v \<longleftrightarrow>
      (\<exists>(a, b) \<in> set [(7, 9), (0xFFFFFFFF, 0xFFFFFFFF), (3, 6)]. a \<le> v \<and> v \<le> b))"
  by (rule parsed_range_is_union) simp_all

text \<open>On component patterns in normal form the subset test is exact: it holds precisely when every
  number the first matches is matched by the second, as long as the first is not the wildcard.\<close>

lemma component_subset_exact:
  assumes "ipn_canonical p" and "ipn_canonical q" and "p \<noteq> Wildcard"
  shows "ipn_pattern_is_subset p q \<longleftrightarrow> (\<forall>v. ipn_pattern_matches p v \<longrightarrow> ipn_pattern_matches q v)"
  using ipn_subset_sound ipn_subset_complete [OF assms] by blast

lemma component_subset_exact_instance:
  "ipn_pattern_is_subset (Single 8) (Range [IpnRange 3 9]) \<longleftrightarrow>
    (\<forall>v. ipn_pattern_matches (Single 8) v \<longrightarrow> ipn_pattern_matches (Range [IpnRange 3 9]) v)"
  by (rule component_subset_exact) simp_all

text \<open>C38. When a pattern without globs is reported as a subset of another, both in normal form, every
  endpoint it matches is matched by the other, across schemes and the forms of the null
  endpoint. The glob crate is assumed to match every text with two asterisks.\<close>

theorem subset_patterns_match:
  assumes "pattern_canonical p" and "pattern_canonical q" and "glob_free p"
    and "\<forall>t. gl_matches G (ascii ''**'') t" and "eid_ok F e"
    and "pattern_is_subset G p q" and "pattern_matches G p e"
  shows "pattern_matches G q e"
  using assms by (rule pattern_subset_sound)

theorem subset_patterns_match_witness:
  "pattern_matches sample_globs (PatternSet [AnyNumericScheme 7, DtnItem (DtnGlob (ascii ''**''))])
    (Dtn (ascii ''a'') (ascii ''b''))"
proof (rule subset_patterns_match [where p = "PatternSet [DtnItem DtnAny]" and F = sample_float])
  show "pattern_is_subset sample_globs (PatternSet [DtnItem DtnAny])
      (PatternSet [AnyNumericScheme 7, DtnItem (DtnGlob (ascii ''**''))])"
    by (simp add: pattern_is_subset_def item_is_subset_def dtn_item_is_subset_def)
  show "pattern_matches sample_globs (PatternSet [DtnItem DtnAny]) (Dtn (ascii ''a'') (ascii ''b''))"
    by (simp add: pattern_matches_def item_matches_def dtn_item_matches_def)
  have "utf8_valid (ascii ''a'')" "list_all service_char (ascii ''b'')"
    by (simp_all add: ascii_def service_char_def word_le_nat_alt word_less_nat_alt)
  then show "eid_ok sample_float (Dtn (ascii ''a'') (ascii ''b''))" by (simp add: eid_ok_def)
qed (simp_all add: sample_globs_def)

text \<open>Specificity respects containment: when one ipn pattern in normal form is a subset of another
  and both have a score, the narrower one scores at least as high, so that it never sorts after
  the wider one by score.\<close>

lemma narrower_pattern_scores_higher:
  assumes "ipn_item_canonical i" and "ipn_item_canonical j" and "ipn_item_is_subset i j"
    and "specificity_score (PatternSet [IpnItem i]) = Some s" and "specificity_score (PatternSet [IpnItem j]) = Some t"
  shows "t \<le> s"
  using assms ipn_item_score_mono [OF assms(1,2,3)] by (simp add: specificity_score_def item_score_def)

lemma narrower_pattern_scores_higher_instance:
  "specificity_score (PatternSet [IpnItem (ipn_item_new 1 2 (Some 3))]) = Some 352 \<and>
    specificity_score (PatternSet [IpnItem (ipn_item_new 1 2 None)]) = Some 64 \<and> (64 :: u32) \<le> 352"
proof -
  have c: "ipn_item_canonical (ipn_item_new 1 2 (Some 3))" "ipn_item_canonical (ipn_item_new 1 2 None)"
    "ipn_item_is_subset (ipn_item_new 1 2 (Some 3)) (ipn_item_new 1 2 None)"
    by (simp_all add: ipn_item_canonical_def ipn_item_new_def ipn_item_is_subset_def)
  have s: "specificity_score (PatternSet [IpnItem (ipn_item_new 1 2 (Some 3))]) = Some 352"
    "specificity_score (PatternSet [IpnItem (ipn_item_new 1 2 None)]) = Some 64"
    by (simp_all add: specificity_score_def item_score_def ipn_item_score_def ipn_item_new_def)
  show ?thesis by (intro conjI s narrower_pattern_scores_higher [OF c s])
qed

end
