(* ===== verification/Bpv7_Total.thy ===== *)
theory Bpv7_Total
  imports Bpv7_Bounds
begin

text \<open>
  The parser as a whole: fed in runs of any length it never panics before it is done, finishing
  it never panics, and the index of what it accepts describes the bytes it was given.
\<close>

section \<open>The index under the BPSec marks\<close>

text \<open>An index without the coverage marks, which is all that the structural checks write.\<close>

definition unmark :: "block \<Rightarrow> block" where
  "unmark b = b\<lparr>blk_bib := BibNone, blk_bcb := None\<rparr>"

definition unmarked :: "blocks \<Rightarrow> blocks" where
  "unmarked bl = map (map_prod id unmark) bl"

lemma unmark_simps [simp]:
  "unmark (b\<lparr>blk_bib := v\<rparr>) = unmark b" "unmark (b\<lparr>blk_bcb := w\<rparr>) = unmark b"
  "blk_start (unmark b) = blk_start b" "blk_end (unmark b) = blk_end b" "blk_type (unmark b) = blk_type b"
  "block_payload (unmark b) d = block_payload b d" "wire_block C d n (unmark b) = wire_block C d n b"
  by (simp_all add: unmark_def blk_start_def blk_end_def block_payload_def payload_range_def wire_block_def)

lemma map_of_unmarked: "map_of (unmarked bl) n = map_option unmark (map_of bl n)"
  unfolding unmarked_def by (induction bl) auto

lemma unmarked_lookup:
  "unmarked bl = unmarked bl' \<Longrightarrow> map_option unmark (map_of bl n) = map_option unmark (map_of bl' n)"
  by (metis map_of_unmarked)

lemma unmarked_fst: "map fst (unmarked bl) = map fst bl"
  by (simp add: unmarked_def comp_def case_prod_beta)

lemma unmarked_modify: "(\<And>b. unmark (f b) = unmark b) \<Longrightarrow> unmarked (hm_modify k f bl) = unmarked bl"
  by (auto simp: unmarked_def hm_modify_def)

lemma unmarked_sweep: "unmarked (maybe_sweep bl) = unmarked bl"
  by (auto simp: unmarked_def maybe_sweep_def)

lemma stamp_ok:
  assumes "\<forall>t \<in> set ts. map_of bl t \<noteq> None" and "\<And>b. unmark (f b) = unmark b"
  shows "\<exists>bl'. stamp f ts bl = Some bl' \<and> unmarked bl' = unmarked bl"
  using assms(1)
proof (induction ts arbitrary: bl)
  case (Cons t ts)
  have "\<forall>x \<in> set ts. map_of (hm_modify t f bl) x \<noteq> None" using Cons.prems by auto
  from Cons.IH [OF this] Cons.prems show ?case by (auto simp: unmarked_modify [OF assms(2)])
qed simp

section \<open>The structural checks do not panic\<close>

lemma bcb_check_targets:
  "bcb_check ops n bl = Some (Inr u) \<Longrightarrow> t \<in> fst ` set (os_operations ops) \<Longrightarrow> map_of bl t \<noteq> None"
  by (force simp: bcb_check_def first_error_Inr bcb_target_error_def split: if_splits option.splits)

lemma bib_check_targets:
  "bib_check ops n bl = Some (Inr u) \<Longrightarrow> t \<in> fst ` set (os_operations ops) \<Longrightarrow> map_of bl t \<noteq> None"
  by (force simp: bib_check_def first_error_Inr bib_target_error_def split: if_splits option.splits)

lemma bcb_pass_ok:
  assumes "\<forall>n \<in> fst ` set bcbs. map_of bl n \<noteq> None"
  shows "\<exists>r. bcb_pass bcbs bl = Some r \<and> (case r of Inl _ \<Rightarrow> True | Inr bl' \<Rightarrow> unmarked bl' = unmarked bl)"
  using assms
proof (induction bcbs arbitrary: bl)
  case (Cons x bcbs)
  obtain n ops where x: "x = (n, ops)" by (cases x)
  obtain r where r: "bcb_check ops n bl = Some r" using Cons.prems x by (auto simp: bcb_check_def)
  show ?case
  proof (cases r)
    case (Inl e)
    then show ?thesis using r x by simp
  next
    case (Inr u)
    let ?f = "\<lambda>b. b\<lparr>blk_bcb := Some n\<rparr>" and ?ts = "map fst (os_operations ops)"
    have "\<forall>t \<in> set ?ts. map_of bl t \<noteq> None" using bcb_check_targets r Inr by fastforce
    then obtain bl' where s: "stamp ?f ?ts bl = Some bl'" and u: "unmarked bl' = unmarked bl"
      using stamp_ok [of ?ts bl ?f] by auto
    have "map_of bl' m \<noteq> None" if k: "map_of bl m \<noteq> None" for m using unmarked_lookup [OF u, of m] k by auto
    then have "\<forall>m \<in> fst ` set bcbs. map_of bl' m \<noteq> None" using Cons.prems by simp
    from Cons.IH [OF this, unfolded u] show ?thesis using r Inr x s by simp
  qed
qed simp

lemma bib_ops_total: "block_payload b d = Some body \<Longrightarrow> bib_ops X F d b \<noteq> None"
  using usize_max_def
  by (intro notI)
    (auto simp: block_payload_def bib_ops_def slice_to_def try_then_None usize_try_from_def Let_def split: if_splits)

lemma bib_pass_ok:
  assumes "\<forall>n \<in> set ns. \<exists>b body. map_of bl n = Some b \<and> block_payload b d = Some body"
  shows "\<exists>r. bib_pass X F d ns bibs und bl = Some r \<and>
    (case r of Inl _ \<Rightarrow> True | Inr (_, _, bl') \<Rightarrow> unmarked bl' = unmarked bl)"
  using assms
proof (induction ns arbitrary: bl bibs und)
  case (Cons n ns)
  obtain b body where b: "map_of bl n = Some b" "block_payload b d = Some body" using Cons.prems by auto
  show ?case
  proof (cases "blk_bcb b = None")
    case False
    then show ?thesis using Cons b by simp
  next
    case True
    obtain q where q: "bib_ops X F d b = Some q" using bib_ops_total [OF b(2)] by blast
    show ?thesis
    proof (cases q)
      case (Inl e)
      then show ?thesis using b True q by simp
    next
      case (Inr ops)
      obtain r where r: "bib_check ops n bl = Some r" using b by (auto simp: bib_check_def)
      show ?thesis
      proof (cases r)
        case (Inl e)
        then show ?thesis using b True q Inr r by simp
      next
        fix u assume u: "r = Inr u"
        let ?f = "\<lambda>b. b\<lparr>blk_bib := BibSome n\<rparr>" and ?ts = "map fst (os_operations ops)"
        have "\<forall>t \<in> set ?ts. map_of bl t \<noteq> None" using bib_check_targets r u by fastforce
        then obtain bl' where s: "stamp ?f ?ts bl = Some bl'" and m: "unmarked bl' = unmarked bl"
          using stamp_ok [of ?ts bl ?f] by auto
        have "\<forall>n \<in> set ns. \<exists>b body. map_of bl' n = Some b \<and> block_payload b d = Some body"
        proof
          fix k assume "k \<in> set ns"
          then obtain c cb where c: "map_of bl k = Some c" "block_payload c d = Some cb" using Cons.prems by auto
          then obtain c' where "map_of bl' k = Some c'" "unmark c' = unmark c" using unmarked_lookup [OF m, of k] by auto
          then show "\<exists>b body. map_of bl' k = Some b \<and> block_payload b d = Some body"
            using c(2) by (metis unmark_simps(6))
        qed
        from Cons.IH [OF this, of "hm_put n ops bibs" und, unfolded m] show ?thesis using b True q Inr r u s by simp
      qed
    qed
  qed
qed simp

section \<open>Finishing\<close>

text \<open>What the index of a bundle that was taken in whole says.\<close>

definition framed :: "crc_ops \<Rightarrow> bytes \<Rightarrow> blocks \<Rightarrow> bool" where
  "framed C d bl \<longleftrightarrow> hm_ok bl \<and> 2 \<le> length bl \<and> fst (hd bl) = 0 \<and> fst (last bl) = 1 \<and> blk_type (snd (last bl)) = Payload \<and>
    chained 1 bl (length d - 1) \<and> d \<noteq> [] \<and> last d = 0xFF \<and> (\<forall>x \<in> set (tl bl). wire_block C d (fst x) (snd x))"

lemma chained_unmarked: "chained a (unmarked bl) e = chained a bl e"
  unfolding unmarked_def by (induction bl arbitrary: a) auto

lemma framed_unmarked: "framed C d (unmarked bl) = framed C d bl"
proof (cases "bl = []")
  case False
  then show ?thesis
    unfolding framed_def chained_unmarked
    by (simp add: unmarked_def hm_ok_def hd_map last_map comp_def case_prod_beta flip: map_tl)
qed (simp add: framed_def unmarked_def)

lemma blocks_done_framed:
  assumes "blocks_done C d p b0 P" and "bp_state P = PDone"
  shows "\<exists>B. bp_bundle P = Some B \<and> bn_primary B = p \<and> framed C d (bn_blocks B) \<and> hd (bn_blocks B) = (0, b0)"
proof -
  obtain B bl b e where B: "bp_bundle P = Some B" "index_ok C d p b0 (bl @ [(1, b)]) B" "blk_type b = Payload"
    "length d = Suc e" "d ! e = 0xFF" "chained 1 (bn_blocks B) e" "wire_block C d 1 b"
    using assms by (auto simp: blocks_done_def)
  have ne: "d \<noteq> []" using B(4) by auto
  then have "last d = 0xFF" using B(4,5) by (simp add: last_conv_nth)
  moreover note ne
  moreover have bk: "bn_blocks B = (0, b0) # bl @ [(1, b)]" "hm_ok (bn_blocks B)" "bn_primary B = p"
    and "\<forall>x \<in> set (bl @ [(1, b)]). fst x \<noteq> 1 \<longrightarrow> wire_block C d (fst x) (snd x)"
    using B(2) unfolding index_ok_def by auto
  moreover have "fst x \<noteq> 1" if "x \<in> set bl" for x
    using bk(1,2) that by (auto simp: hm_ok_def)
  ultimately have "framed C d (bn_blocks B)"
    using B(3-7) unfolding framed_def bk(1) by auto
  then show ?thesis using B(1) bk by simp
qed

lemma wire_block_payload: "wire_block C d n b \<Longrightarrow> \<exists>body. block_payload b d = Some body"
  by (auto simp: wire_block_def)

lemma finish_ok:
  assumes "blocks_done C d p b0 P"
  shows "\<exists>r. finish X F d P = Some r \<and>
    (case r of Inl _ \<Rightarrow> True
     | Inr q \<Rightarrow> pr_data q = d \<and> pr_bcbs q = bp_bcbs P \<and>
         (\<exists>B. bp_bundle P = Some B \<and> bn_primary (pr_bundle q) = bn_primary B \<and>
           unmarked (bn_blocks (pr_bundle q)) = unmarked (bn_blocks B)))"
proof -
  obtain B bl b where B: "bp_bundle P = Some B" "bpsec_known B P" "index_ok C d p b0 (bl @ [(1, b)]) B" "blk_type b = Payload"
    and st: "bp_state P = PDone \<or> bp_state P = PPartial"
    using assms by (auto simp: blocks_done_def split: if_splits)
  show ?thesis
  proof (cases "bp_bcbs P \<noteq> [] \<or> bp_pending_bibs P \<noteq> []")
    case False
    then show ?thesis using B(1) st by (auto simp: finish_def)
  next
    case True
    obtain r where r: "bcb_pass (bp_bcbs P) (bn_blocks B) = Some r"
      "case r of Inl _ \<Rightarrow> True | Inr bl' \<Rightarrow> unmarked bl' = unmarked (bn_blocks B)"
      using bcb_pass_ok [of "bp_bcbs P" "bn_blocks B"] B(2) by (auto simp: bpsec_known_def)
    show ?thesis
    proof (cases r)
      case (Inl e)
      then show ?thesis using r(1) B(1) True st by (auto simp: finish_def validate_bpsec_structure_def)
    next
      case (Inr bl1)
      then have u: "unmarked bl1 = unmarked (bn_blocks B)" using r(2) by simp
      have "\<forall>n \<in> set (bp_pending_bibs P). \<exists>b body. map_of bl1 n = Some b \<and> block_payload b d = Some body"
      proof
        fix n assume "n \<in> set (bp_pending_bibs P)"
        then obtain c where c: "map_of (bn_blocks B) n = Some c" "blk_type c = BlockIntegrity"
          using B(2) by (auto simp: bpsec_known_def)
        have bk: "bn_blocks B = (0, b0) # bl @ [(1, b)]" "blk_type b0 = Primary"
          "\<forall>x \<in> set (bl @ [(1, b)]). fst x \<noteq> 1 \<longrightarrow> wire_block C d (fst x) (snd x)"
          using B(3) unfolding index_ok_def by blast+
        have "(n, c) \<in> set (bl @ [(1, b)])" "c \<noteq> b"
          using map_of_SomeD [OF c(1)] c(2) bk(1,2) B(4) by auto
        moreover have "n \<noteq> 1"
        proof
          assume "n = 1"
          moreover have "hm_ok (bn_blocks B)" using B(3) unfolding index_ok_def by blast
          then have "map_of (bn_blocks B) 1 = Some b" unfolding bk(1) by (intro map_of_is_SomeI) (simp_all add: hm_ok_def)
          ultimately show False using c(1) \<open>c \<noteq> b\<close> by simp
        qed
        ultimately have "wire_block C d n c" using bk(3) by fastforce
        then obtain body where "block_payload c d = Some body" using wire_block_payload by blast
        moreover obtain c' where "map_of bl1 n = Some c'" "unmark c' = unmark c"
          using unmarked_lookup [OF u, of n] c(1) by auto
        ultimately show "\<exists>b body. map_of bl1 n = Some b \<and> block_payload b d = Some body"
          by (metis unmark_simps(6))
      qed
      from bib_pass_ok [OF this, of X F "[]" False] obtain q where
        q: "bib_pass X F d (bp_pending_bibs P) [] False bl1 = Some q"
        "case q of Inl _ \<Rightarrow> True | Inr (_, _, bl') \<Rightarrow> unmarked bl' = unmarked bl1" by blast
      show ?thesis
      proof (cases q)
        case (Inl e)
        then show ?thesis using r(1) Inr q(1) B(1) True st by (auto simp: finish_def validate_bpsec_structure_def)
      next
        fix z assume z: "q = Inr z"
        obtain bibs und bl2 where z2: "z = (bibs, und, bl2)" by (cases z)
        have "unmarked bl2 = unmarked (bn_blocks B)" using q(2) z z2 u by simp
        then show ?thesis
          using r(1) Inr q(1) z z2 B(1) True st
          by (auto simp: finish_def validate_bpsec_structure_def unmarked_sweep)
      qed
    qed
  qed
qed

section \<open>Runs of a stream\<close>

text \<open>A parser between two pushes: nothing received yet, or asking for more with everything it
  received in its buffer.\<close>

definition waiting :: "crc_ops \<Rightarrow> bytes \<Rightarrow> BundleParser \<Rightarrow> bool" where
  "waiting C d P \<longleftrightarrow> (bp_data P = Some d \<or> bp_data P = None \<and> d = []) \<and>
    (case bp_state P of
       PStart \<Rightarrow> bp_pending_bibs P = [] \<and> bp_bcbs P = []
     | PPrimaryBlock k \<Rightarrow> k = 1 \<and> d \<noteq> [] \<and> bp_pending_bibs P = [] \<and> bp_bcbs P = []
     | PBlocks k \<Rightarrow> \<exists>p b0. blocks_inv C d p b0 k P
     | _ \<Rightarrow> False)"

lemma block_payload_append: "block_payload b d = Some body \<Longrightarrow> block_payload b (d @ r) = Some body"
  by (auto simp: block_payload_def split: option.splits if_splits)

lemma wire_block_append: "wire_block C d n b \<Longrightarrow> blk_end b \<le> length d \<Longrightarrow> wire_block C (d @ r) n b"
  unfolding wire_block_def using block_payload_append slice_prefix by metis

lemma blocks_inv_append:
  assumes "blocks_inv C d p b0 k P"
  shows "blocks_inv C (d @ r) p b0 k P"
proof -
  obtain B bl where B: "bp_bundle P = Some B" "bp_state P = PBlocks k" "k \<le> length d" "bpsec_known B P"
    "index_ok C d p b0 bl B" "chained 1 (bn_blocks B) k" "\<forall>x \<in> set bl. fst x \<noteq> 1"
    using assms unfolding blocks_inv_def by blast
  have "wire_block C (d @ r) (fst x) (snd x)" if x: "x \<in> set bl" "wire_block C d (fst x) (snd x)" for x
  proof (rule wire_block_append [OF x(2)])
    have "(fst x, snd x) \<in> set (bn_blocks B)" using B(5) x(1) by (auto simp: index_ok_def)
    from chained_bounds [OF B(6) this] show "blk_end (snd x) \<le> length d" using B(3) by simp
  qed
  then have "index_ok C (d @ r) p b0 bl B" using B(5) unfolding index_ok_def by blast
  then show ?thesis using B unfolding blocks_inv_def by (intro exI [of _ B] exI [of _ bl]) simp
qed

lemma blocks_inv_data [simp]: "blocks_inv C d p b0 k (P\<lparr>bp_data := x\<rparr>) = blocks_inv C d p b0 k P"
  by (simp add: blocks_inv_def bpsec_known_def)

definition run_result :: "text_ops \<Rightarrow> crc_ops \<Rightarrow> float_ops \<Rightarrow> bytes \<Rightarrow> (bp_error + nat) \<times> BundleParser \<Rightarrow> bool" where
  "run_result X C F d q =
    (case fst q of
       Inl _ \<Rightarrow> waiting C d (snd q\<lparr>bp_data := Some d\<rparr>)
     | Inr _ \<Rightarrow> \<exists>p b0. blocks_done C d p b0 (snd q))"

lemma run_result_primary:
  assumes "length d \<le> usize_max" and "bp_pending_bibs P = []" and "bp_bcbs P = []" and "bp_state P = PPrimaryBlock 1"
    and "d \<noteq> []"
  shows "\<exists>q. parse_primary X C F d 1 P = Some q \<and> run_result X C F d q"
  using parse_primary_inv [OF refl assms(1) takes_primary assms(2,3,5), of X C F]
proof (elim disjE exE conjE)
  fix e assume "parse_primary X C F d 1 P = Some (Inl e, P)"
  then show ?thesis using assms by (simp add: run_result_def waiting_def)
next
  fix p b0 q P' assume q: "parse_primary X C F d 1 P = Some (q, P')"
    "case q of Inl e \<Rightarrow> \<exists>k. blocks_inv C d p b0 k P' | Inr _ \<Rightarrow> blocks_done C d p b0 P'"
  have "run_result X C F d (q, P')"
  proof (cases q)
    case (Inl e)
    then obtain k where k: "blocks_inv C d p b0 k P'" using q(2) by auto
    then have "bp_state P' = PBlocks k" by (auto simp: blocks_inv_def)
    then show ?thesis using k Inl by (auto simp: run_result_def waiting_def)
  qed (use q(2) in \<open>auto simp: run_result_def\<close>)
  then show ?thesis using q(1) by blast
qed

lemma push_run_ok:
  assumes "waiting C d0 P" and "d = d0 @ r" and "length d \<le> usize_max"
  shows "\<exists>q. push_run X C F d (P\<lparr>bp_data := None\<rparr>) = Some q \<and> run_result X C F d q"
proof (cases "bp_state P")
  case PStart
  then have e: "bp_pending_bibs P = []" "bp_bcbs P = []" using assms(1) by (simp_all add: waiting_def)
  show ?thesis
  proof (cases d)
    case Nil
    then show ?thesis using PStart e by (simp add: push_run_def parse_start_def run_result_def waiting_def)
  next
    case (Cons b bs)
    show ?thesis
    proof (cases "b = 0x9F")
      case True
      then show ?thesis
        using PStart Cons run_result_primary [OF assms(3), of "P\<lparr>bp_data := None, bp_state := PPrimaryBlock 1\<rparr>" X C F] e
        by (simp add: push_run_def parse_start_def)
    next
      case False
      then show ?thesis
        using PStart Cons e by (simp add: push_run_def parse_start_def run_result_def waiting_def)
    qed
  qed
next
  case (PPrimaryBlock k)
  then show ?thesis
    using assms(1,2) run_result_primary [OF assms(3), of "P\<lparr>bp_data := None\<rparr>" X C F]
    by (simp add: push_run_def waiting_def)
next
  case (PBlocks k)
  then obtain p b0 where "blocks_inv C d0 p b0 k P" using assms(1) by (auto simp: waiting_def)
  then have "blocks_inv C d p b0 k (P\<lparr>bp_data := None\<rparr>)" using blocks_inv_append assms(2) by simp
  from parse_blocks_inv [OF this assms(3), of X F] obtain q P' where
    q: "parse_blocks X C F d k (P\<lparr>bp_data := None\<rparr>) = Some (q, P')"
    "case q of Inl e \<Rightarrow> \<exists>k. blocks_inv C d p b0 k P' | Inr _ \<Rightarrow> blocks_done C d p b0 P'" by blast
  have "run_result X C F d (q, P')"
  proof (cases q)
    case (Inl e)
    then obtain k where k: "blocks_inv C d p b0 k P'" using q(2) by auto
    then have "bp_state P' = PBlocks k" by (auto simp: blocks_inv_def)
    then show ?thesis using k Inl by (auto simp: run_result_def waiting_def)
  qed (use q(2) in \<open>auto simp: run_result_def\<close>)
  then show ?thesis using q(1) PBlocks by (simp add: push_run_def)
qed (use assms(1) in \<open>simp_all add: waiting_def\<close>)

lemma push_ok:
  assumes "waiting C d0 P" and "length (d0 @ r) \<le> usize_max"
  obtains e P' where "push X C F r P = Some (Inl e, P')"
    | n P' where "push X C F r P = Some (Inr (NeedMore n), P')" "waiting C (d0 @ r) P'"
    | P' p b0 where "push X C F r P = Some (Inr (Ready (d0 @ r)), P')" "blocks_done C (d0 @ r) p b0 P'" "bp_state P' = PDone"
    | t P' p b0 where "push X C F r P = Some (Inr (Partial (d0 @ r) t), P')"
        "blocks_done C (d0 @ r) p b0 (P'\<lparr>bp_deferred := Some t\<rparr>)" "bp_state P' = PPartial"
proof -
  let ?d = "d0 @ r"
  have d: "(case bp_data P of Some buf \<Rightarrow> buf @ r | None \<Rightarrow> r) = ?d" using assms(1) by (auto simp: waiting_def)
  obtain q P1 where q: "push_run X C F ?d (P\<lparr>bp_data := None\<rparr>) = Some (q, P1)" "run_result X C F ?d (q, P1)"
    using push_run_ok [OF assms(1) refl assms(2), of X F] by (metis surj_pair)
  show ?thesis
  proof (cases q)
    case (Inl e)
    then show ?thesis using q d that(1,2) by (cases "need_more e") (auto simp: push_def run_result_def)
  next
    case (Inr k)
    then obtain p b0 where b: "blocks_done C ?d p b0 P1" using q(2) by (auto simp: run_result_def)
    show ?thesis
    proof (cases "bp_state P1 = PDone")
      case True
      then show ?thesis using q(1) Inr d b that(3) by (simp add: push_def)
    next
      case False
      then obtain t where t: "bp_state P1 = PPartial" "bp_deferred P1 = Some t" using b by (auto simp: blocks_done_def)
      then have "P1\<lparr>bp_deferred := Some t\<rparr> = P1" by (cases P1) simp
      then have "blocks_done C ?d p b0 (P1\<lparr>bp_deferred := Some t\<rparr>)" using b by simp
      then show ?thesis using q(1) Inr d t that(4) [of t "P1\<lparr>bp_deferred := None\<rparr>" p b0] by (simp add: push_def)
    qed
  qed
qed

text \<open>The parsers a caller holds between two pushes, with what they were fed so far.\<close>

inductive fed :: "text_ops \<Rightarrow> crc_ops \<Rightarrow> float_ops \<Rightarrow> bytes \<Rightarrow> BundleParser \<Rightarrow> bool" for X C F where
  fed_new: "fed X C F [] (parser_new chunk_size)"
| fed_push: "fed X C F d P \<Longrightarrow> push X C F r P = Some (Inr (NeedMore n), P') \<Longrightarrow> length (d @ r) \<le> usize_max \<Longrightarrow>
    fed X C F (d @ r) P'"

lemma fed_waiting: "fed X C F d P \<Longrightarrow> waiting C d P"
proof (induction rule: fed.induct)
  case (fed_new k)
  show ?case by (simp add: waiting_def parser_new_def)
next
  case (fed_push d P r n P')
  from fed_push.IH fed_push.hyps(3) show ?case
    by (rule push_ok [where X = X and F = F]) (use fed_push.hyps(2) in auto)
qed

lemma finish_deferred: "finish X F d (P\<lparr>bp_deferred := t\<rparr>) = finish X F d P"
  by (cases "bp_bundle P") (auto simp: finish_def validate_bpsec_structure_def split: option.splits sum.splits)

text \<open>A stream never makes the parser panic: every push returns, and so does finishing when
  the parser says it is done.\<close>

lemma fed_never_panics:
  assumes "fed X C F d P" and "length (d @ r) \<le> usize_max"
  shows "\<exists>q P'. push X C F r P = Some (q, P') \<and>
    (case q of Inr (Ready b) \<Rightarrow> b = d @ r \<and> finish X F b P' \<noteq> None
     | Inr (Partial b t) \<Rightarrow> b = d @ r \<and> finish X F b P' \<noteq> None
     | _ \<Rightarrow> True)"
  using fed_waiting [OF assms(1)] assms(2)
proof (rule push_ok [where X = X and F = F])
  fix P' p b0 assume "push X C F r P = Some (Inr (Ready (d @ r)), P')" "blocks_done C (d @ r) p b0 P'"
  then show ?thesis using finish_ok [of C "d @ r" p b0 P' X F] by auto
next
  fix t P' p b0 assume "push X C F r P = Some (Inr (Partial (d @ r) t), P')"
    "blocks_done C (d @ r) p b0 (P'\<lparr>bp_deferred := Some t\<rparr>)"
  then show ?thesis using finish_ok [of C "d @ r" p b0 "P'\<lparr>bp_deferred := Some t\<rparr>" X F] finish_deferred by auto
qed auto

text \<open>What a stream that is taken in whole was.\<close>

lemma fed_ready_framed:
  assumes "fed X C F d P" and "length (d @ r) \<le> usize_max"
    and "push X C F r P = Some (Inr (Ready b), P')" and "finish X F b P' = Some (Inr q)"
  shows "pr_data q = d @ r \<and> framed C (d @ r) (bn_blocks (pr_bundle q))"
  using fed_waiting [OF assms(1)] assms(2)
proof (rule push_ok [where X = X and F = F])
  fix Q p b0 assume Q: "push X C F r P = Some (Inr (Ready (d @ r)), Q)" "blocks_done C (d @ r) p b0 Q" "bp_state Q = PDone"
  then have e: "b = d @ r" "P' = Q" using assms(3) by auto
  obtain B where B: "bp_bundle Q = Some B" "framed C (d @ r) (bn_blocks B)" using blocks_done_framed [OF Q(2,3)] by blast
  have "pr_data q = d @ r" "unmarked (bn_blocks (pr_bundle q)) = unmarked (bn_blocks B)"
    using finish_ok [OF Q(2), of X F] assms(4) e B(1) by auto
  then show ?thesis using B(2) framed_unmarked by metis
qed (use assms(3) in auto)

section \<open>The one-shot parse\<close>

lemma complete_check_total: "complete_check q \<noteq> None"
  by (simp add: complete_check_def byte_at_def Let_def split: option.split)

lemma complete_check_Inr: "complete_check q = Some (Inr p) \<Longrightarrow> p = q"
  by (auto simp: complete_check_def byte_at_def Let_def split: option.splits if_splits)

lemma parse_bundle_total:
  assumes "length d \<le> usize_max"
  shows "parse_bundle X C F d \<noteq> None"
proof -
  have w: "waiting C [] parser_default" by (simp add: waiting_def parser_default_def parser_new_def)
  show ?thesis
  proof (rule push_ok [OF w, where X = X and F = F and r = d])
    show "length ([] @ d) \<le> usize_max" using assms by simp
  next
    fix P p b0 assume "push X C F d parser_default = Some (Inr (Ready ([] @ d)), P)" "blocks_done C ([] @ d) p b0 P"
    then show ?thesis
      using finish_ok [of C d p b0 P X F] complete_check_total
      by (auto simp: parse_bundle_def try_then_None simp del: not_None_eq)
  qed (auto simp: parse_bundle_def)
qed

lemma framed_bytes:
  assumes "framed C (b # d) bl"
  shows "b # d = b # concat (map (\<lambda>x. slice (b # d) (blk_start (snd x), blk_end (snd x))) bl) @ [0xFF]"
proof -
  have c: "chained 1 bl (length d)" and l: "last (b # d) = 0xFF" using assms by (auto simp: framed_def)
  have "d \<noteq> []"
  proof
    assume "d = []"
    then have "chained 1 bl 0" using c by simp
    then show False using chained_le by fastforce
  qed
  then have "d = take (length d - 1) d @ [0xFF]" using l by (metis append_butlast_last_id butlast_conv_take last.simps)
  moreover have "slice (b # d) (1, length d) = take (length d - 1) d" by (simp add: slice_def)
  ultimately show ?thesis using chained_slices [OF c, of "b # d"] by simp
qed

lemma parse_bundle_framed:
  assumes "parse_bundle X C F d = Some (Inr q)" and "length d \<le> usize_max"
  shows "pr_data q = d \<and> framed C d (bn_blocks (pr_bundle q)) \<and>
    primary_at X C F d (bn_primary (pr_bundle q)) (snd (hd (bn_blocks (pr_bundle q)))) \<and>
    d = 0x9F # concat (map (\<lambda>x. slice d (blk_start (snd x), blk_end (snd x))) (bn_blocks (pr_bundle q))) @ [0xFF]"
proof -
  obtain P where P: "push X C F d parser_default = Some (Inr (Ready d), P)" and f: "finish X F d P = Some (Inr q)"
    using assms(1)
    by (auto simp: parse_bundle_def push_def parser_default_def parser_new_def try_then_Inr Let_def dest!: complete_check_Inr
        split: option.splits sum.splits ParserProgress.splits parser_state.splits if_splits)
  obtain k where r: "push_run X C F d parser_default = Some (Inr k, P)" "bp_state P \<noteq> PPartial"
    using P by (auto simp: push_def parser_default_def parser_new_def split: option.splits sum.splits parser_state.splits)
  obtain bs where d: "d = 0x9F # bs"
    and pp: "parse_primary X C F d 1 (parser_default\<lparr>bp_state := PPrimaryBlock 1\<rparr>) = Some (Inr k, P)"
    using r(1) by (auto simp: push_run_def parse_start_def parser_default_def parser_new_def split: list.splits if_splits)
  obtain p b0 where p: "primary_at X C F d p b0" "blocks_done C d p b0 P"
    using parse_primary_inv [OF pp assms(2) takes_primary] d by (auto simp: parser_default_def parser_new_def)
  have "bp_state P = PDone" using p(2) r(2) by (auto simp: blocks_done_def split: if_splits)
  then obtain B where B: "bp_bundle P = Some B" "bn_primary B = p" "framed C d (bn_blocks B)" "hd (bn_blocks B) = (0, b0)"
    using blocks_done_framed [OF p(2)] by blast
  have q: "pr_data q = d" "bn_primary (pr_bundle q) = p" "unmarked (bn_blocks (pr_bundle q)) = unmarked (bn_blocks B)"
    using finish_ok [OF p(2), of X F] f B(1,2) by auto
  have fr: "framed C d (bn_blocks (pr_bundle q))" using B(3) q(3) framed_unmarked by metis
  have ne: "bn_blocks (pr_bundle q) \<noteq> []" "bn_blocks B \<noteq> []" using fr B(3) by (auto simp: framed_def)
  have "hd (unmarked (bn_blocks (pr_bundle q))) = hd (unmarked (bn_blocks B))" using q(3) by simp
  then have "unmark (snd (hd (bn_blocks (pr_bundle q)))) = unmark b0"
    using ne B(4) by (simp add: unmarked_def hd_map prod_eq_iff)
  then have "primary_at X C F d p (snd (hd (bn_blocks (pr_bundle q))))"
    using p(1) unfolding primary_at_def by (metis unmark_simps(3,4,5))
  moreover have "d = 0x9F # concat (map (\<lambda>x. slice d (blk_start (snd x), blk_end (snd x))) (bn_blocks (pr_bundle q))) @ [0xFF]"
    using framed_bytes [of C "0x9F" bs "bn_blocks (pr_bundle q)"] fr unfolding d by simp
  ultimately show ?thesis using q(1,2) fr by simp
qed

end
