(* ===== verification/Bpv7_Builder.thy ===== *)
theory Bpv7_Builder
  imports Bpv7_Total
begin

text \<open>
  The bundle builder of \<^verbatim>\<open>bpv7/src/builder.rs\<close>, and what the parser makes of its output:
  parsing a built bundle gives back the very index and primary block that \<open>builder_build\<close>
  returned beside the bytes. A panic of the encoder or of an \<^verbatim>\<open>expect\<close> is \<open>None\<close>.
\<close>

section \<open>Templates\<close>

datatype builder_error = PrimaryBlockError | NoBlockData | InternalError bp_error

record BlockTemplate =
  bt_block :: block
  bt_data :: "bytes option"

definition template_new :: "block_type \<Rightarrow> block_flags \<Rightarrow> CrcType \<Rightarrow> bytes option \<Rightarrow> BlockTemplate" where
  "template_new t flags crc_type d =
    \<lparr>bt_block = block_default\<lparr>blk_type := canonicalize t, blk_flags := flags, blk_crc_type := crc_type\<rparr>, bt_data = d\<rparr>"

definition template_build_to_vec :: "crc_ops \<Rightarrow> BlockTemplate \<Rightarrow> u64 \<Rightarrow> (builder_error + (block \<times> bytes)) option" where
  "template_build_to_vec C t block_number =
    (case bt_data t of
       None \<Rightarrow> Some (Inl NoBlockData)
     | Some d \<Rightarrow>
         let b = bt_block t
         in Option.bind (block_fields b block_number d
              (sequence_new 1 encoder_new (Some (if blk_crc_type b = NoCrc then 5 else 6)))) (\<lambda>(b', a).
            map_option (\<lambda>e. and_then (map_err (\<lambda>e. InternalError (InvalidCrc e))
                (append_crc_value C (blk_crc_type b) (encoder_build e))) (\<lambda>bs. Inr (b', bs)))
              (sequence_end a)))"

definition template_build ::
  "crc_ops \<Rightarrow> BlockTemplate \<Rightarrow> u64 \<Rightarrow> sequence \<Rightarrow> (builder_error + (block \<times> sequence)) option" where
  "template_build C t block_number array =
    (case bt_data t of
       None \<Rightarrow> Some (Inl NoBlockData)
     | Some d \<Rightarrow> map_option (map_err InternalError) (block_emit C (bt_block t) block_number d array))"

section \<open>The builder\<close>

record Builder =
  bd_flags :: bundle_flags
  bd_crc_type :: CrcType
  bd_source :: Eid
  bd_destination :: Eid
  bd_report_to :: "Eid option"
  bd_lifetime :: duration
  bd_payload :: BlockTemplate
  bd_extensions :: "BlockTemplate list"

definition bundle_flags_default :: bundle_flags where
  "bundle_flags_default =
    \<lparr>is_fragment = False, is_admin_record = False, do_not_fragment = False, app_ack_requested = False,
     report_status_time = False, receipt_report_requested = False, forward_report_requested = False,
     delivery_report_requested = False, delete_report_requested = False, unrecognised = None\<rparr>"

definition builder_new :: "Eid \<Rightarrow> Eid \<Rightarrow> Builder" where
  "builder_new source destination =
    \<lparr>bd_flags = bundle_flags_default, bd_crc_type = CRC32_CASTAGNOLI, bd_source = source, bd_destination = destination,
     bd_report_to = None, bd_lifetime = 24 * 60 * 60 * 1000000000,
     bd_payload = template_new Payload block_flags_default CRC32_CASTAGNOLI None, bd_extensions = []\<rparr>"

definition builder_with_flags :: "bundle_flags \<Rightarrow> Builder \<Rightarrow> Builder" where
  "builder_with_flags flags B = B\<lparr>bd_flags := flags\<lparr>is_fragment := False\<rparr>\<rparr>"

definition builder_with_crc_type :: "CrcType \<Rightarrow> Builder \<Rightarrow> Builder" where
  "builder_with_crc_type t B = B\<lparr>bd_crc_type := t\<rparr>"

definition builder_with_report_to :: "Eid \<Rightarrow> Builder \<Rightarrow> Builder" where
  "builder_with_report_to e B = B\<lparr>bd_report_to := Some e\<rparr>"

definition builder_with_lifetime :: "duration \<Rightarrow> Builder \<Rightarrow> Builder" where
  "builder_with_lifetime l B = B\<lparr>bd_lifetime := min l (from_millis (- 1))\<rparr>"

record BlockBuilder =
  bb_builder :: Builder
  bb_template :: BlockTemplate

definition block_builder_new :: "Builder \<Rightarrow> block_type \<Rightarrow> BlockBuilder" where
  "block_builder_new B t =
    \<lparr>bb_builder = B, bb_template = template_new t block_flags_default (bd_crc_type B) None\<rparr>"

definition block_builder_with_flags :: "block_flags \<Rightarrow> BlockBuilder \<Rightarrow> BlockBuilder" where
  "block_builder_with_flags f bb =
    bb\<lparr>bb_template := (bb_template bb)\<lparr>bt_block := (bt_block (bb_template bb))\<lparr>blk_flags := f\<rparr>\<rparr>\<rparr>"

definition block_builder_with_crc_type :: "CrcType \<Rightarrow> BlockBuilder \<Rightarrow> BlockBuilder" where
  "block_builder_with_crc_type t bb =
    bb\<lparr>bb_template := (bb_template bb)\<lparr>bt_block := (bt_block (bb_template bb))\<lparr>blk_crc_type := t\<rparr>\<rparr>\<rparr>"

definition block_builder_build :: "bytes \<Rightarrow> BlockBuilder \<Rightarrow> Builder" where
  "block_builder_build d bb =
    (let t = (bb_template bb)\<lparr>bt_data := Some d\<rparr>; B = bb_builder bb
     in if blk_type (bt_block t) = Payload then B\<lparr>bd_payload := t\<rparr>
        else B\<lparr>bd_extensions := bd_extensions B @ [t]\<rparr>)"

definition add_extension_block :: "block_type \<Rightarrow> Builder \<Rightarrow> builder_error + BlockBuilder" where
  "add_extension_block t B =
    (let t = canonicalize t in if t = Primary then Inl PrimaryBlockError else Inr (block_builder_new B t))"

definition expect_ok :: "'e + 'a \<Rightarrow> 'a option" where
  "expect_ok r = (case r of Inl _ \<Rightarrow> None | Inr a \<Rightarrow> Some a)"

definition builder_with_payload :: "bytes \<Rightarrow> Builder \<Rightarrow> Builder option" where
  "builder_with_payload d B =
    map_option (\<lambda>bb. block_builder_build d
        (block_builder_with_flags (block_flags_default\<lparr>delete_bundle_on_failure := True\<rparr>) bb))
      (expect_ok (add_extension_block Payload B))"

definition builder_with_hop_count :: "HopInfo \<Rightarrow> Builder \<Rightarrow> Builder option" where
  "builder_with_hop_count hop_info B =
    Option.bind (expect_ok (add_extension_block HopCount B)) (\<lambda>bb.
      map_option (\<lambda>d. block_builder_build d
          (block_builder_with_flags (block_flags_default\<lparr>report_on_failure := True, must_replicate := True\<rparr>) bb))
        (emit_value (hop_info_to_cbor hop_info)))"

section \<open>Building\<close>

definition builder_primary :: "Builder \<Rightarrow> CreationTimestamp \<Rightarrow> primary_block" where
  "builder_primary B timestamp =
    \<lparr>pb_flags = bd_flags B,
     pb_id = \<lparr>id_source = bd_source B, id_timestamp = timestamp, id_fragment_info = None\<rparr>,
     pb_crc_type = bd_crc_type B, pb_destination = bd_destination B,
     pb_report_to = (case bd_report_to B of Some e \<Rightarrow> e | None \<Rightarrow> bd_source B), pb_lifetime = bd_lifetime B\<rparr>"

text \<open>The loop over the extension blocks, numbered on from \<open>n\<close>.\<close>

fun build_extensions ::
  "crc_ops \<Rightarrow> u64 \<Rightarrow> BlockTemplate list \<Rightarrow> blocks \<times> sequence \<Rightarrow> (builder_error + (blocks \<times> sequence)) option" where
  "build_extensions C n [] (bl, a) = Some (Inr (bl, a))"
| "build_extensions C n (t # ts) (bl, a) =
    (case template_build C t n a of
       None \<Rightarrow> None
     | Some (Inl e) \<Rightarrow> Some (Inl e)
     | Some (Inr (b, a)) \<Rightarrow> build_extensions C (n + 1) ts (hm_put n b bl, a))"

definition build_array ::
  "text_ops \<Rightarrow> crc_ops \<Rightarrow> primary_block \<Rightarrow> Builder \<Rightarrow> sequence \<Rightarrow> (builder_error + (blocks \<times> sequence)) option" where
  "build_array X C primary B a =
    (case primary_emit X C primary of
       None \<Rightarrow> None
     | Some (Inl e) \<Rightarrow> Some (Inl (InternalError e))
     | Some (Inr primary_bytes) \<Rightarrow>
         Option.bind (sequence_emit_ranged (emit_raw primary_bytes) a) (\<lambda>(ext, a).
         case build_extensions C 2 (bd_extensions B) ([(0, primary_as_block (pb_crc_type primary) ext)], a) of
           None \<Rightarrow> None
         | Some (Inl e) \<Rightarrow> Some (Inl e)
         | Some (Inr (bl, a)) \<Rightarrow>
             map_option (\<lambda>r. and_then r (\<lambda>(b, a). Inr (hm_put 1 b bl, a))) (template_build C (bd_payload B) 1 a)))"

definition builder_build ::
  "text_ops \<Rightarrow> crc_ops \<Rightarrow> Builder \<Rightarrow> CreationTimestamp \<Rightarrow> (builder_error + (Bundle \<times> bytes)) option" where
  "builder_build X C B timestamp =
    (let primary = builder_primary B timestamp
     in case build_array X C primary B (sequence_new 1 encoder_new None) of
          None \<Rightarrow> None
        | Some (Inl e) \<Rightarrow> Some (Inl e)
        | Some (Inr (bl, a)) \<Rightarrow>
            map_option (\<lambda>e. Inr (\<lparr>bn_primary = primary, bn_blocks = bl\<rparr>, encoder_build e)) (sequence_end a))"

section \<open>Bundle templates\<close>

record BundleTemplate =
  tp_source :: Eid
  tp_destination :: Eid
  tp_report_to :: "Eid option"
  tp_flags :: "bundle_flags option"
  tp_crc_type :: "CrcType option"
  tp_lifetime :: "duration option"
  tp_hop_limit :: "u8 option"

definition opt_apply :: "('a \<Rightarrow> 'b \<Rightarrow> 'b) \<Rightarrow> 'a option \<Rightarrow> 'b \<Rightarrow> 'b" where
  "opt_apply f x b = (case x of None \<Rightarrow> b | Some a \<Rightarrow> f a b)"

definition builder_from :: "BundleTemplate \<Rightarrow> Builder option" where
  "builder_from v =
    (let B = builder_new (tp_source v) (tp_destination v);
         B = opt_apply builder_with_report_to (tp_report_to v) B;
         B = opt_apply builder_with_flags (tp_flags v) B;
         B = opt_apply builder_with_crc_type (tp_crc_type v) B;
         B = opt_apply builder_with_lifetime (tp_lifetime v) B
     in case tp_hop_limit v of
          None \<Rightarrow> Some B
        | Some l \<Rightarrow> builder_with_hop_count \<lparr>hop_limit = l, hop_count = 0\<rparr> B)"

end
