(* ===== verification/Bpv7_Build_Laws.thy ===== *)
theory Bpv7_Build_Laws
  imports Bpv7_Builder
begin

text \<open>
  Reading back what was built: a block on the wire is taken by one turn of the block loop, the
  blocks of a builder one after the other, and the whole bundle by the one-shot parse.
\<close>

section \<open>A block that is on the wire is read\<close>

lemma known_crc_cases:
  assumes "\<forall>c. t \<noteq> UnrecognisedCrc c"
  obtains "t = NoCrc" "digest_new t = Inl MissingCrc \<or> (\<exists>e. digest_new t = Inl e)"
    | "t = CRC16_X25" "digest_new t = Inr (Crc16 [])" | "t = CRC32_CASTAGNOLI" "digest_new t = Inr (Crc32 [])"
  using assms by (cases t) (auto simp: digest_new_def)

lemma length_block_trailer:
  "\<forall>c. t \<noteq> UnrecognisedCrc c \<Longrightarrow> length (block_trailer C t i body) = trailer_byte_len t i"
  by (erule known_crc_cases)
    (auto simp: block_trailer_def trailer_byte_len_def crc_over_def digest_zeroed_def digest_new_def)

lemma try_consume_fits:
  assumes "\<forall>c. t \<noteq> UnrecognisedCrc c" and "d = pre @ block_trailer C t i body @ rest" and "offset = length pre"
  shows "try_consume_block_after_body d offset t i =
    Some (Inr (offset + trailer_byte_len t i, if t = NoCrc then None else Some (Suc offset)))"
  using assms(1)
proof (cases rule: known_crc_cases)
  case 1
  then show ?thesis
    using assms(2,3)
    by (auto simp: try_consume_block_after_body_def block_trailer_def trailer_byte_len_def consume_break_def byte_at_def nth_append
        digest_new_def)
next
  case 2
  then show ?thesis
    using assms(2,3)
    by (auto simp: try_consume_block_after_body_def block_trailer_def trailer_byte_len_def consume_break_def byte_at_def nth_append
        consume_crc_def crc_over_def digest_zeroed_def crc_head_byte_def nth_Cons')
next
  case 3
  then show ?thesis
    using assms(2,3)
    by (auto simp: try_consume_block_after_body_def block_trailer_def trailer_byte_len_def consume_break_def byte_at_def nth_append
        consume_crc_def crc_over_def digest_zeroed_def crc_head_byte_def nth_Cons')
qed

lemma crc_check_fits:
  assumes "digest_new t = Inr dg" and "d = pre @ body @ block_trailer C t i body @ rest"
    and "s = length pre" and "e = length (pre @ body)"
  shows "block_crc_check C t d s (Suc e) (e + trailer_byte_len t i) = Some (Inr ())"
proof -
  let ?v = "crc_over C i (digest_zeroed t (digest_push body dg))" and ?brk = "if i then [0xFF] else [] :: bytes"
  have d: "d = pre @ (body @ [crc_head_byte t]) @ ?v @ ?brk @ rest"
    using assms(1,2) by (simp add: block_trailer_def)
  have k: "t = CRC16_X25 \<and> dg = Crc16 [] \<or> t = CRC32_CASTAGNOLI \<and> dg = Crc32 []"
    using assms(1) by (cases t) (auto simp: digest_new_def)
  then have lv: "length ?v = crc_value_len t" "trailer_byte_len t i = Suc (crc_value_len t) + length ?brk"
    by (auto simp: crc_over_def digest_zeroed_def crc_value_len_def trailer_byte_len_def)
  have s1: "slice d (s, Suc e) = body @ [crc_head_byte t]"
    unfolding d using assms(3,4) by (simp add: slice_def)
  have s2: "slice d (Suc e, Suc e + crc_value_len t) = ?v"
    unfolding d using assms(4) lv(1) by (simp add: slice_def)
  have s3: "slice d (Suc e + crc_value_len t, e + trailer_byte_len t i) = ?brk"
    unfolding d using assms(4) lv by (simp add: slice_def)
  have le: "s \<le> Suc e" "e + trailer_byte_len t i \<le> length d" "Suc e + crc_value_len t \<le> e + trailer_byte_len t i"
    using assms(3,4) lv unfolding d by simp_all
  show ?thesis
    using k s1 s2 s3 le
    by (elim disjE conjE)
      (simp_all add: block_crc_check_def slice_range_def digest_new_def Let_def crc_value_len_def crc_over_def digest_zeroed_def add.commute)
qed

lemma block_body_fits:
  assumes "\<forall>c. bh_crc_type h \<noteq> UnrecognisedCrc c"
    and "d = pre @ body @ block_trailer C (bh_crc_type h) (bh_indefinite h) body @ rest"
    and "s = length pre" and "body_end = length (pre @ body)"
  shows "block_body C k d s offset h body_end (trailer_byte_len (bh_crc_type h) (bh_indefinite h)) =
    Some (Inr (body_end + trailer_byte_len (bh_crc_type h) (bh_indefinite h)))"
proof -
  let ?t = "bh_crc_type h" and ?i = "bh_indefinite h"
  have d2: "d = (pre @ body) @ block_trailer C ?t ?i body @ rest" using assms(2) by simp
  note c = try_consume_fits [OF assms(1) d2 assms(4)]
  have le: "\<not> length d < body_end" using assms(2,4) by simp
  show ?thesis
  proof (cases "?t = NoCrc")
    case True
    then show ?thesis using c le by (simp add: block_body_def)
  next
    case False
    then obtain dg where "digest_new ?t = Inr dg" using assms(1) by (cases ?t) (auto simp: digest_new_def)
    from crc_check_fits [OF this assms(2,3,4)] show ?thesis using c le False by (simp add: block_body_def)
  qed
qed

text \<open>One turn of the loop on a block that is not a security block.\<close>

lemma parse_block_wire:
  assumes ok: "header_ok h" "bh_data_start h = length (header_bytes h tg)" "bh_data_end h = length (header_bytes h tg @ body)"
    and crc: "\<forall>c. bh_crc_type h \<noteq> UnrecognisedCrc c" and ns: "bh_type h \<noteq> BlockSecurity"
    and d: "d = pre @ header_bytes h tg @ body @
      block_trailer C (bh_crc_type h) (bh_indefinite h) (header_bytes h tg @ body) @ rest"
    and l: "length d \<le> usize_max" and rf: "block_refused P B h = None"
    and pl: "bh_type h = Payload \<Longrightarrow> rest = [0xFF]"
    and s: "s = length pre" and e: "e = s + bh_data_end h + trailer_byte_len (bh_crc_type h) (bh_indefinite h)"
    and R: "block_record h s e None B P = Some R"
  shows "parse_block X C F d s B P =
    Some (Inr (if bh_type h = Payload then (True, length d, R\<lparr>bp_state := PDone\<rparr>)
      else (False, e, R\<lparr>bp_state := PBlocks e\<rparr>)))"
proof -
  let ?x = "header_bytes h tg" and ?t = "bh_crc_type h" and ?i = "bh_indefinite h"
  let ?tr = "block_trailer C ?t ?i (?x @ body)"
  have x: "?x = array_head h # tl ?x" by (simp add: header_bytes_def)
  have ah: "array_head h \<noteq> 0xFF" "\<not> (0xC0 \<le> array_head h \<and> array_head h \<le> 0xDB)" by (auto simp: array_head_def)
  have "drop s d = ?x @ (body @ ?tr @ rest)" using d s by simp
  moreover have "length (?x @ (body @ ?tr @ rest)) \<le> usize_max" using d l by simp
  ultimately have h: "block_header_from_cbor F (drop s d) = Some (Inr (h, True, bh_data_start h))"
    using block_header_enc [OF ok(1,2)] by simp
  obtain ds where ds: "drop s d = array_head h # ds" using d s x by (metis append_Cons append_eq_conv_conj)
  then have "untagged_with bp_of_cbor (block_header_from_cbor F) (drop s d) = Some (Inr (h, True, bh_data_start h))"
    using h ah(2) by (simp add: untagged_with_def)
  moreover have le: "s + bh_data_start h \<le> length d" "s + bh_data_end h \<le> length d" "e \<le> length d"
    using d s ok(2,3) e length_block_trailer [OF crc, of C ?i "?x @ body"] by simp_all
  ultimately have p: "parse_canonical_with bp_of_cbor id (block_header_from_cbor F) d s ''block'' = Some (Inr (h, s + bh_data_start h))"
    using l by (simp add: parse_canonical_with_Inr)
  have sl: "s < length d" "d ! s = array_head h"
  proof -
    show "s < length d" using ds by (metis drop_all leI list.distinct(1))
    then show "d ! s = array_head h" using ds by (metis Cons_nth_drop_Suc list.inject)
  qed
  have b: "block_body C (bp_chunk_size P) d s (s + bh_data_start h) h (s + bh_data_end h) (trailer_byte_len ?t ?i) = Some (Inr e)"
    unfolding e by (rule block_body_fits [OF crc, of d pre "?x @ body" C rest]) (use d s ok(3) in simp_all)
  have tl: "d = (pre @ (?x @ body) @ ?tr) @ rest" "e = length (pre @ (?x @ body) @ ?tr)"
    using d s e ok(3) length_block_trailer [OF crc, of C ?i "?x @ body"] by simp_all
  have c: "payload_close d s e h (s + bh_data_end h) e =
      Some (Inr (if bh_type h = Payload then length d else e, None))"
    using pl by (auto simp: payload_close_def consume_break_def byte_at_def tl)
  show ?thesis
    unfolding parse_block_def
    using sl ah(1) p rf l le b c ns R
    by (simp add: byte_at_def checked_add_def e [symmetric] block_bcb_ops_def Let_def)
qed

section \<open>The bytes of an emitted block\<close>

definition block_header :: "block \<Rightarrow> u64 \<Rightarrow> bytes \<Rightarrow> BlockHeader" where
  "block_header b n d =
    \<lparr>bh_indefinite = False, bh_number = n, bh_type = blk_type b, bh_flags = blk_flags b, bh_crc_type = blk_crc_type b,
     bh_data_start = length (block_prefix b n d), bh_data_end = length (block_prefix b n d @ d)\<rparr>"

lemma header_of_prefix: "header_bytes (block_header b n d) False = block_prefix b n d"
  by (simp add: header_bytes_def block_header_def block_prefix_def array_head_def header_fields_def block_head_fields_def
      data_head_def head_bytes_cases)

lemma block_bytes_wire:
  assumes "\<forall>c. blk_crc_type b \<noteq> UnrecognisedCrc c"
  shows "block_bytes C b n d = block_prefix b n d @ d @ block_trailer C (blk_crc_type b) False (block_prefix b n d @ d)"
  using assms
  by (cases "blk_crc_type b")
    (auto simp: block_bytes_def Let_def block_trailer_def digest_new_def crc_field_def crc_value_def crc_head_byte_def
      crc_over_def digest_zeroed_def head_bytes_cases)

text \<open>An emitted block: its number, what was emitted and its data.\<close>

type_synonym item = "u64 \<times> block \<times> bytes"

definition item_bytes_of :: "crc_ops \<Rightarrow> item \<Rightarrow> bytes" where
  "item_bytes_of C x = block_bytes C (fst (snd x)) (fst x) (snd (snd x))"

definition placed :: "crc_ops \<Rightarrow> nat \<Rightarrow> item \<Rightarrow> block" where
  "placed C s x =
    (case x of (n, b, d) \<Rightarrow>
       b\<lparr>blk_data := range_u64 (length (block_prefix b n d), length (block_prefix b n d @ d)),
         blk_extent := range_u64 (s, s + length (block_bytes C b n d))\<rparr>)"

fun index_from :: "crc_ops \<Rightarrow> nat \<Rightarrow> item list \<Rightarrow> blocks" where
  "index_from C s [] = []"
| "index_from C s (x # xs) = (fst x, placed C s x) # index_from C (s + length (item_bytes_of C x)) xs"

lemma index_keys [simp]: "map fst (index_from C s xs) = map fst xs"
  by (induction xs arbitrary: s) auto

text \<open>The blocks the parser takes as they are: no security blocks, numbers that fit the type, no
  request to report in a bundle that must not.\<close>

definition item_ok :: "primary_block \<Rightarrow> item \<Rightarrow> bool" where
  "item_ok p x \<longleftrightarrow>
    (case x of (n, b, d) \<Rightarrow>
       block_number_ok n (blk_type b) \<and> block_type_ok (blk_type b) \<and> block_flags_ok (blk_flags b) \<and>
       (\<forall>c. blk_crc_type b \<noteq> UnrecognisedCrc c) \<and> blk_type b \<noteq> BlockIntegrity \<and> blk_type b \<noteq> BlockSecurity \<and>
       blk_bib b = BibNone \<and> blk_bcb b = None \<and>
       (is_admin_record (pb_flags p) \<or> is_null (id_source (pb_id p)) \<longrightarrow> \<not> report_on_failure (blk_flags b)))"

lemma known_crc_ok: "\<forall>c. t \<noteq> UnrecognisedCrc c \<Longrightarrow> crc_type_ok t"
  by (cases t) (simp_all add: crc_type_ok_def crc_type_from_def crc_type_into_def)

lemma new_block_placed:
  assumes "item_ok p (n, b, d)" and "e = s + length (block_bytes C b n d)"
  shows "new_block (block_header b n d) s e = placed C s (n, b, d)"
  using assms by (cases b) (simp add: new_block_def block_header_def placed_def item_ok_def range_u64_def)

lemma parse_item_block:
  assumes ok: "item_ok p (n, b, body)" and p: "bn_primary B = p"
    and d: "d = pre @ block_bytes C b n body @ rest" and l: "length d \<le> usize_max"
    and fresh: "map_of (bn_blocks B) n = None" and once: "at_most_once (blk_type b) \<longrightarrow> blk_type b \<notin> set (bp_unique_blocks P)"
    and pl: "blk_type b = Payload \<longrightarrow> rest = [0xFF]" and s: "s = length pre" and e: "e = s + length (block_bytes C b n body)"
  shows "parse_block X C F d s B P =
    (let R = P\<lparr>bp_unique_blocks := (if at_most_once (blk_type b) then List.insert (blk_type b) (bp_unique_blocks P) else bp_unique_blocks P),
               bp_bundle := Some (B\<lparr>bn_blocks := bn_blocks B @ [(n, placed C s (n, b, body))]\<rparr>)\<rparr>
     in Some (Inr (if blk_type b = Payload then (True, length d, R\<lparr>bp_state := PDone\<rparr>)
        else (False, e, R\<lparr>bp_state := PBlocks e\<rparr>))))"
proof -
  let ?h = "block_header b n body"
  have crc: "\<forall>c. blk_crc_type b \<noteq> UnrecognisedCrc c" and ns: "blk_type b \<noteq> BlockSecurity" "blk_type b \<noteq> BlockIntegrity"
    using ok by (auto simp: item_ok_def)
  note w = block_bytes_wire [OF crc, of C n body]
  have le: "length (block_prefix b n body @ body) \<le> usize_max" using l d w by simp
  have hok: "header_ok ?h"
    using ok le known_crc_ok [OF crc] by (simp add: header_ok_def block_header_def item_ok_def)
  have rf: "block_refused P B ?h = None"
    using ok p fresh once by (auto simp: block_refused_def block_header_def item_ok_def)
  have e': "e = s + bh_data_end ?h + trailer_byte_len (bh_crc_type ?h) (bh_indefinite ?h)"
    using e w length_block_trailer [OF crc, of C False "block_prefix b n body @ body"] by (simp add: block_header_def)
  let ?R = "P\<lparr>bp_unique_blocks := (if at_most_once (blk_type b) then List.insert (blk_type b) (bp_unique_blocks P) else bp_unique_blocks P),
        bp_bundle := Some (B\<lparr>bn_blocks := bn_blocks B @ [(n, placed C s (n, b, body))]\<rparr>)\<rparr>"
  have R: "block_record ?h s e None B P = Some ?R"
    using ns fresh new_block_placed [OF ok e] unfolding new_block_def
    by (simp add: block_record_def block_header_def Let_def hm_put_fresh)
  have "parse_block X C F d s B P =
    Some (Inr (if bh_type ?h = Payload then (True, length d, ?R\<lparr>bp_state := PDone\<rparr>)
      else (False, e, ?R\<lparr>bp_state := PBlocks e\<rparr>)))"
    by (rule parse_block_wire [OF hok, where tg = False and body = body and pre = pre and rest = rest])
      (use crc ns d w l rf pl s e' R in \<open>simp_all add: header_of_prefix, simp_all add: block_header_def\<close>)
  then show ?thesis by (simp add: block_header_def Let_def)
qed

section \<open>The blocks of a bundle are read in turn\<close>

definition once_ok :: "block_type list \<Rightarrow> item list \<Rightarrow> bool" where
  "once_ok seen xs \<longleftrightarrow> distinct (filter at_most_once (map (\<lambda>x. blk_type (fst (snd x))) xs)) \<and>
    (\<forall>x \<in> set xs. at_most_once (blk_type (fst (snd x))) \<longrightarrow> blk_type (fst (snd x)) \<notin> set seen)"

definition wire_items :: "crc_ops \<Rightarrow> item list \<Rightarrow> bytes" where
  "wire_items C xs = concat (map (item_bytes_of C) xs)"

lemma wire_items_simps [simp]:
  "wire_items C [] = []" "wire_items C (x # xs) = item_bytes_of C x @ wire_items C xs"
  "wire_items C (xs @ ys) = wire_items C xs @ wire_items C ys"
  by (simp_all add: wire_items_def)

lemma once_ok_Cons:
  assumes "once_ok seen ((n, b, body) # xs)"
  shows "at_most_once (blk_type b) \<longrightarrow> blk_type b \<notin> set seen"
    and "once_ok (if at_most_once (blk_type b) then List.insert (blk_type b) seen else seen) xs"
  using assms by (force simp: once_ok_def split: if_splits)+

lemma parse_items:
  assumes "\<forall>x \<in> set (xs @ [pl]). item_ok p x" and "\<forall>x \<in> set xs. blk_type (fst (snd x)) \<noteq> Payload"
    and "blk_type (fst (snd pl)) = Payload" and "bp_bundle P = Some B" and "bn_primary B = p"
    and "distinct (map fst (bn_blocks B) @ map fst (xs @ [pl]))" and "once_ok (bp_unique_blocks P) (xs @ [pl])"
    and "d = pre @ wire_items C (xs @ [pl]) @ [0xFF]" and "length d \<le> usize_max"
    and "bp_pending_bibs P = []" and "bp_bcbs P = []"
  shows "\<exists>P'. parse_blocks X C F d (length pre) P = Some (Inr (length d), P') \<and> bp_state P' = PDone \<and>
    bp_pending_bibs P' = [] \<and> bp_bcbs P' = [] \<and>
    bp_bundle P' = Some (B\<lparr>bn_blocks := bn_blocks B @ index_from C (length pre) (xs @ [pl])\<rparr>)"
  using assms
proof (induction xs arbitrary: pre P B)
  case Nil
  obtain n b body where x: "pl = (n, b, body)" by (cases pl)
  have fresh: "map_of (bn_blocks B) n = None" using Nil.prems(6) x by (auto simp: map_of_eq_None_iff)
  have "parse_block X C F d (length pre) B P =
    (let R = P\<lparr>bp_unique_blocks := (if at_most_once (blk_type b) then List.insert (blk_type b) (bp_unique_blocks P) else bp_unique_blocks P),
               bp_bundle := Some (B\<lparr>bn_blocks := bn_blocks B @ [(n, placed C (length pre) (n, b, body))]\<rparr>)\<rparr>
     in Some (Inr (if blk_type b = Payload then (True, length d, R\<lparr>bp_state := PDone\<rparr>)
        else (False, length pre + length (block_bytes C b n body), R\<lparr>bp_state := PBlocks (length pre + length (block_bytes C b n body))\<rparr>))))"
    by (rule parse_item_block [where p = p and rest = "[0xFF]"])
      (use Nil.prems x fresh in \<open>simp_all add: item_bytes_of_def once_ok_def\<close>)
  then show ?case using Nil.prems(3,4,10,11) x by (simp add: parse_blocks.simps Let_def)
next
  case (Cons y xs)
  obtain n b body where x: "y = (n, b, body)" by (cases y)
  let ?bs = "block_bytes C b n body" and ?t = "blk_type b"
  let ?u = "if at_most_once ?t then List.insert ?t (bp_unique_blocks P) else bp_unique_blocks P"
  let ?B = "B\<lparr>bn_blocks := bn_blocks B @ [(n, placed C (length pre) (n, b, body))]\<rparr>"
  let ?P = "P\<lparr>bp_unique_blocks := ?u, bp_bundle := Some ?B\<rparr>" and ?e = "length pre + length ?bs"
  have fresh: "map_of (bn_blocks B) n = None" using Cons.prems(6) x by (auto simp: map_of_eq_None_iff)
  have oc: "at_most_once ?t \<longrightarrow> ?t \<notin> set (bp_unique_blocks P)" "once_ok ?u (xs @ [pl])"
  proof -
    have oo: "once_ok (bp_unique_blocks P) ((n, b, body) # xs @ [pl])" using Cons.prems(7) x by simp
    show "at_most_once ?t \<longrightarrow> ?t \<notin> set (bp_unique_blocks P)" by (rule once_ok_Cons(1) [OF oo])
    show "once_ok ?u (xs @ [pl])" by (rule once_ok_Cons(2) [OF oo])
  qed
  have "parse_block X C F d (length pre) B P =
      (let R = ?P in Some (Inr (if ?t = Payload then (True, length d, R\<lparr>bp_state := PDone\<rparr>) else (False, ?e, R\<lparr>bp_state := PBlocks ?e\<rparr>))))"
    by (rule parse_item_block [where p = p and rest = "wire_items C (xs @ [pl]) @ [0xFF]"])
      (use Cons.prems x fresh oc in \<open>simp_all add: item_bytes_of_def\<close>)
  then have step: "parse_blocks X C F d (length pre) P = parse_blocks X C F d ?e (?P\<lparr>bp_state := PBlocks ?e\<rparr>)"
    using Cons.prems(2,4) x by (subst parse_blocks.simps) (simp add: Let_def)
  have "\<exists>P'. parse_blocks X C F d (length (pre @ ?bs)) (?P\<lparr>bp_state := PBlocks ?e\<rparr>) = Some (Inr (length d), P') \<and>
      bp_state P' = PDone \<and> bp_pending_bibs P' = [] \<and> bp_bcbs P' = [] \<and>
      bp_bundle P' = Some (?B\<lparr>bn_blocks := bn_blocks ?B @ index_from C (length (pre @ ?bs)) (xs @ [pl])\<rparr>)"
    by (rule Cons.IH) (use Cons.prems x oc in \<open>simp_all add: item_bytes_of_def\<close>)
  then show ?case using step x by (simp add: item_bytes_of_def)
qed

section \<open>What a builder emits\<close>

definition template_data :: "BlockTemplate \<Rightarrow> bytes" where
  "template_data t = (case bt_data t of Some d \<Rightarrow> d | None \<Rightarrow> [])"

fun items_from :: "u64 \<Rightarrow> BlockTemplate list \<Rightarrow> item list" where
  "items_from n [] = []"
| "items_from n (t # ts) = (n, bt_block t, template_data t) # items_from (n + 1) ts"

lemma items_keys: "map fst (items_from n ts) = map (\<lambda>i. n + of_nat i) [0..<length ts]"
proof (induction ts arbitrary: n)
  case (Cons t ts)
  have "map (\<lambda>i. n + 1 + of_nat i) [0..<length ts] = map (\<lambda>i. n + of_nat (Suc i)) [0..<length ts]" by simp
  then show ?case using Cons [of "n + 1"] by (simp add: upt_conv_Cons map_Suc_upt [symmetric] comp_def del: upt_Suc)
qed simp

lemma items_block: "x \<in> set (items_from n ts) \<Longrightarrow> fst (snd x) \<in> bt_block ` set ts"
  by (induction ts arbitrary: n) auto

definition open_array :: "sequence \<Rightarrow> bool" where
  "open_array a \<longleftrightarrow> seq_count a = None"

lemma open_next: "open_array a \<Longrightarrow> \<exists>a'. next_field a = Some a' \<and> open_array a' \<and> seq_encoder a' = seq_encoder a"
  by (simp add: open_array_def next_field_def Let_def)

definition template_ready :: "BlockTemplate \<Rightarrow> bool" where
  "template_ready t \<longleftrightarrow> bt_data t \<noteq> None \<and> (\<forall>c. blk_crc_type (bt_block t) \<noteq> UnrecognisedCrc c)"

lemma template_build_eq:
  assumes "open_array a" and "template_ready t"
  shows "\<exists>a'. template_build C t n a =
      Some (Inr (placed C (length (enc_data (seq_encoder a))) (n, bt_block t, template_data t), a')) \<and> open_array a' \<and>
    enc_data (seq_encoder a') = enc_data (seq_encoder a) @ block_bytes C (bt_block t) n (template_data t)"
proof -
  obtain a1 where a1: "next_field a = Some a1" "open_array a1" "seq_encoder a1 = seq_encoder a"
    using open_next [OF assms(1)] by blast
  obtain d where d: "bt_data t = Some d" using assms(2) by (auto simp: template_ready_def)
  have "\<forall>c. blk_crc_type (bt_block t) \<noteq> UnrecognisedCrc c" using assms(2) by (simp add: template_ready_def)
  from block_emit_eq [OF this a1(1), of C n d] show ?thesis
    using a1(2,3) d
    by (simp add: template_build_def template_data_def placed_def encoder_offset_def push_all_def open_array_def)
qed

lemma build_extensions_eq:
  assumes "open_array a" and "\<forall>t \<in> set ts. template_ready t" and "distinct (map fst bl @ map fst (items_from n ts))"
  shows "\<exists>a'. build_extensions C n ts (bl, a) =
      Some (Inr (bl @ index_from C (length (enc_data (seq_encoder a))) (items_from n ts), a')) \<and> open_array a' \<and>
    enc_data (seq_encoder a') = enc_data (seq_encoder a) @ wire_items C (items_from n ts)"
  using assms
proof (induction ts arbitrary: n bl a)
  case (Cons t ts)
  let ?x = "(n, bt_block t, template_data t)" and ?o = "length (enc_data (seq_encoder a))"
  obtain a1 where a1: "template_build C t n a = Some (Inr (placed C ?o ?x, a1))" "open_array a1"
    "enc_data (seq_encoder a1) = enc_data (seq_encoder a) @ item_bytes_of C ?x"
    using template_build_eq [OF Cons.prems(1), of t C n] Cons.prems(2) by (auto simp: item_bytes_of_def)
  have fresh: "map_of bl n = None" using Cons.prems(3) by (auto simp: map_of_eq_None_iff)
  have "distinct (map fst (bl @ [(n, placed C ?o ?x)]) @ map fst (items_from (n + 1) ts))" using Cons.prems(3) by auto
  from Cons.IH [OF a1(2) _ this] obtain a2 where a2:
    "build_extensions C (n + 1) ts (bl @ [(n, placed C ?o ?x)], a1) =
      Some (Inr ((bl @ [(n, placed C ?o ?x)]) @ index_from C (length (enc_data (seq_encoder a1))) (items_from (n + 1) ts), a2))"
    "open_array a2" "enc_data (seq_encoder a2) = enc_data (seq_encoder a1) @ wire_items C (items_from (n + 1) ts)"
    using Cons.prems(2) by auto
  show ?case
    using a1 a2 by (intro exI [of _ a2]) (simp add: hm_put_fresh [OF fresh])
qed simp

section \<open>Parsing what was built\<close>

definition builder_items :: "Builder \<Rightarrow> item list" where
  "builder_items B = items_from 2 (bd_extensions B) @ [(1, bt_block (bd_payload B), template_data (bd_payload B))]"

text \<open>A builder whose bundle a receiver accepts: the primary block is well-formed and its flags
  agree, every block has its data and is one the parser takes as it is, and no block that may be
  there once is there twice.\<close>

definition builder_ok :: "float_ops \<Rightarrow> Builder \<Rightarrow> CreationTimestamp \<Rightarrow> bool" where
  "builder_ok F B ts \<longleftrightarrow>
    (let p = builder_primary B ts
     in primary_ok F p \<and> \<not> primary_flags_bad p \<and>
        list_all template_ready (bd_payload B # bd_extensions B) \<and> list_all (item_ok p) (builder_items B) \<and>
        list_all (\<lambda>t. blk_type (bt_block t) \<noteq> Payload) (bd_extensions B) \<and>
        once_ok [] (builder_items B) \<and> length (bd_extensions B) < 2 ^ 63)"

lemma builder_keys:
  assumes "length (bd_extensions B) < 2 ^ 63"
  shows "distinct ((0 :: u64) # map fst (builder_items B))"
proof -
  let ?n = "length (bd_extensions B)"
  have u: "unat (2 + of_nat i :: u64) = 2 + i" if i: "i < ?n" for i
    using i assms by (simp add: unat_word_ariths unat_of_nat)
  have inj: "inj_on (\<lambda>i. 2 + of_nat i :: u64) {0..<?n}" using u by (intro inj_onI) (metis add_left_cancel atLeastLessThan_iff)
  have "2 + of_nat i \<noteq> (0 :: u64)" "2 + of_nat i \<noteq> (1 :: u64)" if i: "i < ?n" for i
    using u [OF i] by (metis One_nat_def Suc_eq_plus1 add_2_eq_Suc nat.distinct(1) unat_0, metis One_nat_def add_2_eq_Suc nat.inject nat.distinct(1) unat_1)
  then show ?thesis
    using inj by (auto simp: builder_items_def items_keys distinct_map)
qed

lemma builder_build_eq:
  assumes "builder_ok F B ts"
  shows "builder_build X C B ts =
    Some (Inr
      (\<lparr>bn_primary = builder_primary B ts,
        bn_blocks = (0, primary_as_block (bd_crc_type B) (1, 1 + length (primary_enc X C (builder_primary B ts)))) #
          index_from C (1 + length (primary_enc X C (builder_primary B ts))) (builder_items B)\<rparr>,
       0x9F # primary_enc X C (builder_primary B ts) @ wire_items C (builder_items B) @ [0xFF]))"
proof -
  let ?p = "builder_primary B ts" and ?a0 = "sequence_new 1 encoder_new None"
  let ?pb = "primary_enc X C ?p"
  let ?b0 = "primary_as_block (bd_crc_type B) (1, 1 + length ?pb)"
  have pe: "primary_emit X C ?p = Some (Inr ?pb)"
    using assms by (intro primary_emit_eq) (simp add: builder_ok_def Let_def primary_ok_def)
  have a0: "open_array ?a0" "enc_data (seq_encoder ?a0) = [0x9F]"
    by (simp_all add: open_array_def sequence_new_def Let_def encoder_new_def push_all_def)
  obtain a1 where a1: "next_field ?a0 = Some a1" "open_array a1" "seq_encoder a1 = seq_encoder ?a0"
    using open_next [OF a0(1)] by blast
  let ?a2 = "a1\<lparr>seq_encoder := push_all ?pb (seq_encoder a1)\<rparr>"
  have r: "sequence_emit_ranged (emit_raw ?pb) ?a0 = Some ((1, 1 + length ?pb), ?a2)"
    using a1 a0(2) by (simp add: sequence_emit_ranged_def emit_raw_def Let_def encoder_offset_def push_all_def)
  have a2: "open_array ?a2" "enc_data (seq_encoder ?a2) = 0x9F # ?pb"
    using a1(2,3) a0(2) by (simp_all add: open_array_def push_all_def)
  have keys: "distinct ((0 :: u64) # map fst (items_from 2 (bd_extensions B)) @ [1])"
    using builder_keys [of B] assms by (simp add: builder_ok_def Let_def builder_items_def)
  obtain a3 where a3: "build_extensions C 2 (bd_extensions B) ([(0, ?b0)], ?a2) =
      Some (Inr ([(0, ?b0)] @ index_from C (Suc (length ?pb)) (items_from 2 (bd_extensions B)), a3))" "open_array a3"
    "enc_data (seq_encoder a3) = (0x9F # ?pb) @ wire_items C (items_from 2 (bd_extensions B))"
    using build_extensions_eq [OF a2(1), of "bd_extensions B" "[(0, ?b0)]" 2 C] assms keys a2(2)
    by (auto simp: builder_ok_def Let_def list_all_iff)
  let ?pl = "(1 :: u64, bt_block (bd_payload B), template_data (bd_payload B))"
  obtain a4 where a4: "template_build C (bd_payload B) 1 a3 =
      Some (Inr (placed C (length (enc_data (seq_encoder a3))) ?pl, a4))" "open_array a4"
    "enc_data (seq_encoder a4) = enc_data (seq_encoder a3) @ item_bytes_of C ?pl"
    using template_build_eq [OF a3(2), of "bd_payload B" C 1] assms
    by (auto simp: builder_ok_def Let_def list_all_iff item_bytes_of_def)
  have fresh: "map_of ([(0, ?b0)] @ index_from C (Suc (length ?pb)) (items_from 2 (bd_extensions B))) 1 = None"
  proof -
    have "1 \<notin> set (map fst ([(0, ?b0)] @ index_from C (Suc (length ?pb)) (items_from 2 (bd_extensions B))))"
      using keys by (simp only: map_append index_keys) auto
    then show ?thesis by (simp only: map_of_eq_None_iff list.set_map) simp
  qed
  have idx: "index_from C s (xs @ [y]) = index_from C s xs @ [(fst y, placed C (s + length (wire_items C xs)) y)]" for s xs y
    by (induction xs arbitrary: s) (simp_all add: add.assoc)
  have "build_array X C ?p B ?a0 =
      Some (Inr ((0, ?b0) # index_from C (1 + length ?pb) (builder_items B), a4))"
    using pe r a3 a4 hm_put_fresh [OF fresh]
    by (simp add: build_array_def builder_primary_def builder_items_def idx)
  moreover have "sequence_end a4 = Some (push_all [0xFF] (seq_encoder a4))"
    using a4(2) by (simp add: sequence_end_def open_array_def)
  ultimately show ?thesis
    using a3(3) a4(3)
    by (simp add: builder_build_def Let_def encoder_build_def push_all_def builder_items_def)
qed

lemma primary_at_start:
  assumes "text_spec X" and "primary_ok F p" and "length (0x9F # primary_enc X C p @ r) \<le> usize_max"
  shows "parse_canonical_at bp_of_cbor id (primary_from_cbor X C F) (0x9F # primary_enc X C p @ r) 1 ''primary block'' =
    Some (Inr (p, 1 + length (primary_enc X C p)))"
proof -
  have "plain_start (primary_enc X C p @ r)" unfolding primary_enc_split by simp
  then have "untagged bp_of_cbor (primary_from_cbor X C F) (primary_enc X C p @ r) =
      primary_from_cbor X C F (primary_enc X C p @ r)" by (rule untagged_plain)
  then show ?thesis
    using primary_from_cbor_enc [OF assms(1,2), of C r] assms(3) by (simp add: parse_canonical_at_Inr)
qed

lemma bundle_of_primary_block:
  "bundle_of_primary p 1 (1 + n) = \<lparr>bn_primary = p, bn_blocks = [(0, primary_as_block (pb_crc_type p) (1, 1 + n))]\<rparr>"
  by (simp add: bundle_of_primary_def primary_as_block_def block_default_def range_u64_def)

lemma payload_entry:
  assumes "distinct ((0 :: u64) # map fst (builder_items B))" and "length d \<le> usize_max"
    and "d = pre @ wire_items C (builder_items B) @ [0xFF]" and "length pre = s"
  shows "\<exists>b. map_of ((0, b0) # index_from C s (builder_items B)) 1 = Some b \<and> blk_end b = length d - 1"
proof -
  let ?xs = "items_from 2 (bd_extensions B)" and ?y = "(1 :: u64, bt_block (bd_payload B), template_data (bd_payload B))"
  let ?b = "placed C (s + length (wire_items C ?xs)) ?y"
  have idx: "index_from C s (xs @ [y]) = index_from C s xs @ [(fst y, placed C (s + length (wire_items C xs)) y)]" for s xs y
    by (induction xs arbitrary: s) (simp_all add: add.assoc)
  have "distinct (map fst ((0, b0) # index_from C s (builder_items B)))" using assms(1) by simp
  then have "map_of ((0, b0) # index_from C s (builder_items B)) 1 = Some ?b"
    by (intro map_of_is_SomeI) (simp_all add: builder_items_def idx)
  moreover have "blk_end ?b = length d - 1"
    using assms(2,3,4)
    by (simp add: blk_end_def placed_def range_u64_def builder_items_def item_bytes_of_def unat_of_nat_length flip: of_nat_add)
  ultimately show ?thesis by blast
qed

lemma parse_built:
  assumes X: "text_spec X" and ok: "builder_ok F B ts" and b: "builder_build X C B ts = Some (Inr (bundle, d))"
    and l: "length d \<le> usize_max"
  shows "parse_bundle X C F d = Some (Inr \<lparr>pr_data = d, pr_bundle = bundle, pr_bcbs = [], pr_bibs = []\<rparr>)"
proof -
  let ?p = "builder_primary B ts" and ?pb = "primary_enc X C (builder_primary B ts)"
  let ?n = "length ?pb" and ?it = "builder_items B"
  let ?b0 = "primary_as_block (bd_crc_type B) (1, 1 + ?n)"
  have bd: "bundle = \<lparr>bn_primary = ?p, bn_blocks = (0, ?b0) # index_from C (1 + ?n) ?it\<rparr>"
    and d: "d = 0x9F # ?pb @ wire_items C ?it @ [0xFF]"
    using b unfolding builder_build_eq [OF ok] by simp_all
  have c: "primary_ok F ?p" "\<not> primary_flags_bad ?p" "pb_crc_type ?p = bd_crc_type B"
    using ok by (simp_all add: builder_ok_def Let_def builder_primary_def)
  have keys: "distinct ((0 :: u64) # map fst ?it)" using builder_keys ok by (simp add: builder_ok_def Let_def)
  let ?B0 = "\<lparr>bn_primary = ?p, bn_blocks = [(0, ?b0)]\<rparr>"
  let ?P0 = "parser_default\<lparr>bp_bundle := Some ?B0, bp_state := PBlocks (1 + ?n)\<rparr>"
  have "\<exists>P'. parse_blocks X C F d (length (0x9F # ?pb)) ?P0 = Some (Inr (length d), P') \<and> bp_state P' = PDone \<and>
      bp_pending_bibs P' = [] \<and> bp_bcbs P' = [] \<and>
      bp_bundle P' = Some (?B0\<lparr>bn_blocks := bn_blocks ?B0 @ index_from C (length (0x9F # ?pb)) ?it\<rparr>)"
    unfolding builder_items_def
    by (rule parse_items [where p = ?p])
      (use ok keys d l in \<open>auto simp: builder_ok_def Let_def builder_items_def list_all_iff parser_default_def parser_new_def
        template_ready_def item_ok_def block_number_ok_def split: if_splits dest!: items_block\<close>)
  then obtain P' where P': "parse_blocks X C F d (1 + ?n) ?P0 = Some (Inr (length d), P')" "bp_state P' = PDone"
    "bp_pending_bibs P' = []" "bp_bcbs P' = []" "bp_bundle P' = Some bundle"
    unfolding bd by auto
  have pr: "parse_primary X C F d 1 (parser_default\<lparr>bp_state := PPrimaryBlock 1\<rparr>) = Some (Inr (length d), P')"
    using primary_at_start [OF X c(1), of C "wire_items C ?it @ [0xFF]"] l c(2,3) P'(1) bundle_of_primary_block [of ?p ?n]
    unfolding d by (simp add: parse_primary_def)
  have "push X C F d parser_default = Some (Inr (Ready d), P')"
    using pr P'(2) d by (simp add: push_def push_run_def parse_start_def parser_default_def parser_new_def)
  moreover have "finish X F d P' = Some (Inr \<lparr>pr_data = d, pr_bundle = bundle, pr_bcbs = [], pr_bibs = []\<rparr>)"
    using P' by (simp add: finish_def)
  moreover obtain pb where "map_of (bn_blocks bundle) 1 = Some pb" "blk_end pb = length d - 1"
    using payload_entry [OF keys l, of "0x9F # ?pb" C "1 + ?n" ?b0] d bd by auto
  moreover have "d ! (length d - 1) = 0xFF" "\<not> length d \<le> length d - 1" unfolding d by (simp_all add: nth_append)
  ultimately show ?thesis by (simp add: parse_bundle_def complete_check_def byte_at_def blk_end_def Let_def)
qed

end
