(* ===== verification/Bpv7_Parse_Props.thy ===== *)
theory Bpv7_Parse_Props
  imports Bpv7_Build_Laws Bpv7_Samples
begin

text \<open>
  The properties of the bundle parser, of its streaming continuation and of the builder, with
  concrete instances on the sample crates of \<open>Bpv7_Samples\<close>.
\<close>

section \<open>A sample bundle\<close>

definition sample_base :: Builder where
  "sample_base = builder_with_crc_type CRC16_X25
    (builder_new (Ipn \<lparr>allocator_id = 0, node_number = 5\<rparr> 7) (Ipn \<lparr>allocator_id = 977, node_number = 1\<rparr> 0))"

definition sample_builder :: Builder where
  "sample_builder =
    block_builder_build [1, 2, 3] (block_builder_new
      (block_builder_build [0x82, 5, 0] (block_builder_new sample_base HopCount)) Payload)"

definition sample_stamp :: CreationTimestamp where
  "sample_stamp = \<lparr>creation_time = Some (DtnTime 800000000000), sequence_number = 3\<rparr>"

lemmas sample_builder_defs = sample_builder_def sample_base_def builder_with_crc_type_def builder_new_def
  block_builder_build_def block_builder_new_def template_new_def block_default_def canonicalize_def
  block_type_from_def block_type_into_def Let_def

lemma flags_default_ok: "bundle_flags_ok bundle_flags_default" "block_flags_ok block_flags_default"
  by (simp_all add: bundle_flags_ok_def block_flags_ok_def bundle_flags_default_def block_flags_default_def or_zero_def)

lemma sample_builder_ok: "builder_ok sample_float sample_builder sample_stamp"
proof -
  have "primary_ok sample_float (builder_primary sample_builder sample_stamp)"
    using flags_default_ok(1)
    by (simp add: primary_ok_def builder_primary_def sample_builder_defs sample_stamp_def eid_ok_def timestamp_ok_def
        as_millis_def bundle_flags_default_def)
  moreover have "\<not> primary_flags_bad (builder_primary sample_builder sample_stamp)"
    by (simp add: primary_flags_bad_def builder_primary_def sample_builder_defs bundle_flags_default_def is_null_def any_report_def)
  moreover have "list_all (item_ok (builder_primary sample_builder sample_stamp)) (builder_items sample_builder)"
    using flags_default_ok(2)
    by (simp add: item_ok_def builder_items_def builder_primary_def sample_builder_defs bundle_flags_default_def is_null_def
        block_number_ok_def block_type_ok_def block_flags_default_def)
  ultimately show ?thesis
    by (simp add: builder_ok_def Let_def)
      (simp add: builder_items_def template_ready_def once_ok_def at_most_once_def sample_builder_defs)
qed

definition sample_bytes :: bytes where
  "sample_bytes = 0x9F # primary_enc sample_text sample_crc (builder_primary sample_builder sample_stamp) @
    wire_items sample_crc (builder_items sample_builder) @ [0xFF]"

lemma block_bytes_bound: "length d \<le> 100 \<Longrightarrow> length (block_bytes C b n d) \<le> 200"
  using head_bytes_bound [of 4 5] head_bytes_bound [of 4 6] head_bytes_bound [of 0 "block_type_into (blk_type b)"] head_bytes_bound [of 0 n]
    head_bytes_bound [of 0 "block_flags_into (blk_flags b)"] head_bytes_bound [of 0 "crc_type_into (blk_crc_type b)"]
    head_bytes_bound [of 2 "of_nat (length d)"]
    head_bytes_bound [of 2 "of_nat (length (crc_value C (blk_crc_type b) (block_prefix b n d @ d)))"]
    length_crc_value [of C "blk_crc_type b" "block_prefix b n d @ d"]
  by (cases "blk_crc_type b") (auto simp: block_bytes_def Let_def block_prefix_def block_head_fields_def crc_field_def)

lemma sample_bytes_short: "length sample_bytes \<le> usize_max"
proof -
  let ?p = "builder_primary sample_builder sample_stamp"
  have t: "pb_crc_type ?p = CRC16_X25" by (simp add: builder_primary_def sample_builder_defs)
  have crc: "length (concat (primary_crc_fields sample_text sample_crc ?p)) \<le> 11"
    using head_bytes_bound [of 2 2] by (simp add: primary_crc_fields_def t crc_field_def length_crc_value)
  have "length (concat (primary_fields sample_text ?p)) \<le> 300"
    using head_bytes_bound [of 0 7] head_bytes_bound [of 0 "bundle_flags_into (pb_flags ?p)"]
      head_bytes_bound [of 0 "crc_type_into CRC16_X25"]
      eid_ipn_bound [of sample_text "\<lparr>allocator_id = 977, node_number = 1\<rparr>" 0]
      eid_ipn_bound [of sample_text "\<lparr>allocator_id = 0, node_number = 5\<rparr>" 7]
      timestamp_bound [of "id_timestamp (pb_id ?p)"] head_bytes_bound [of 0 "of_nat (as_millis (pb_lifetime ?p))"]
    by (simp add: primary_fields_def builder_primary_def sample_builder_defs)
  then have "length (primary_enc sample_text sample_crc ?p) \<le> 400"
    using head_bytes_bound [of 4 "of_nat (primary_count ?p)"] crc by (simp add: primary_enc_split)
  moreover have "length (wire_items sample_crc (builder_items sample_builder)) \<le> 400"
    using block_bytes_bound [of "[0x82, 5, 0]" sample_crc] block_bytes_bound [of "[1, 2, 3]" sample_crc]
    by (simp add: builder_items_def sample_builder_defs item_bytes_of_def template_data_def add_mono [of _ 200 _ 200, simplified])
  ultimately show ?thesis by (simp add: sample_bytes_def usize_max_def)
qed

lemma sample_built:
  "\<exists>bundle. builder_build sample_text sample_crc sample_builder sample_stamp = Some (Inr (bundle, sample_bytes))"
  unfolding builder_build_eq [OF sample_builder_ok] sample_bytes_def by blast

lemma sample_parsed: "\<exists>q. parse_bundle sample_text sample_crc sample_float sample_bytes = Some (Inr q)"
  using sample_built parse_built [OF sample_text_spec sample_builder_ok _ sample_bytes_short] by blast

section \<open>Properties\<close>

text \<open>C21. The one-shot parse returns an error or a bundle on every input that fits the address space:
  the block loop ends, and no index or slice of the parser is out of range and no \<^verbatim>\<open>expect\<close>,
  \<^verbatim>\<open>assert!\<close> or \<^verbatim>\<open>panic!\<close> of the parser, of the structural BPSec checks or of the completeness check is
  reached, the \<^verbatim>\<open>expect\<close> on the operation set of a BCB among them. (The decoders of the single items,
  which the parser calls on the slices it takes, are total functions.)\<close>

theorem parse_returns:
  assumes "length d \<le> usize_max"
  shows "\<exists>r. parse_bundle X C F d = Some r"
  using parse_bundle_total [OF assms, of X C F] by blast

theorem parse_returns_witness: "\<exists>r. parse_bundle sample_text sample_crc sample_float [0x9F, 0xFF] = Some r"
  using parse_returns [of "[0x9F, 0xFF]" sample_text sample_crc sample_float] by (simp add: usize_max_def)

text \<open>C5. A bundle that the one-shot parse accepts is exactly the outer array head, the primary
  block, the other blocks without a gap between them and the outer break. The index lists them in
  the order of the wire with distinct numbers, the primary block first and the payload last; every
  other block is a canonical header, as many data octets as it announces and a CRC that agrees
  with the block, and its payload range is those data octets.\<close>

theorem accepted_bundle_framed:
  assumes "parse_bundle X C F d = Some (Inr q)" and "length d \<le> usize_max"
  shows "pr_data q = d \<and> framed C d (bn_blocks (pr_bundle q)) \<and>
    primary_at X C F d (bn_primary (pr_bundle q)) (snd (hd (bn_blocks (pr_bundle q)))) \<and>
    d = 0x9F # concat (map (\<lambda>x. slice d (blk_start (snd x), blk_end (snd x))) (bn_blocks (pr_bundle q))) @ [0xFF]"
  using assms by (rule parse_bundle_framed)

theorem accepted_bundle_framed_witness:
  "\<exists>q. parse_bundle sample_text sample_crc sample_float sample_bytes = Some (Inr q) \<and>
    framed sample_crc sample_bytes (bn_blocks (pr_bundle q))"
  using sample_parsed accepted_bundle_framed [OF _ sample_bytes_short] by blast

text \<open>C11. A bundle that arrives in runs of any length never makes the streaming parser panic: no
  index or slice is out of range and no \<^verbatim>\<open>expect\<close>, \<^verbatim>\<open>assert!\<close> or \<^verbatim>\<open>panic!\<close> is reached in any push of a
  parser that is new or asked for more after every push before it, and once it reports that it is done,
  with the whole bundle or up to a payload that is to be streamed, it has handed back the concatenation
  of the runs and finishing it does not panic either.\<close>

theorem stream_never_panics:
  assumes "fed X C F d P" and "length (d @ r) \<le> usize_max"
  shows "\<exists>q P'. push X C F r P = Some (q, P') \<and>
    (case q of Inr (Ready b) \<Rightarrow> b = d @ r \<and> finish X F b P' \<noteq> None
     | Inr (Partial b t) \<Rightarrow> b = d @ r \<and> finish X F b P' \<noteq> None
     | _ \<Rightarrow> True)"
  using assms by (rule fed_never_panics)

theorem stream_never_panics_witness:
  "\<exists>q P'. push sample_text sample_crc sample_float sample_bytes (parser_new 64) = Some (q, P') \<and>
    (case q of Inr (Ready b) \<Rightarrow> b = sample_bytes \<and> finish sample_text sample_float b P' \<noteq> None
     | Inr (Partial b t) \<Rightarrow> b = sample_bytes \<and> finish sample_text sample_float b P' \<noteq> None
     | _ \<Rightarrow> True)"
  using stream_never_panics [OF fed_new, of sample_bytes sample_text sample_crc sample_float 64, unfolded append_Nil] sample_bytes_short by blast

text \<open>C20. The continuation of a payload that was too large for the buffer accepts a stream,
  however it is cut into runs, exactly when the stream is the payload octets that were missing,
  the CRC of the whole block in its place and the breaks, with nothing before, between or after.\<close>

theorem payload_tail_accepts:
  assumes "digest_for t dg"
  shows "(\<exists>T'. tail_pushes C (tail_new dg t i n r) rs = Some (Inr T') \<and> tail_finish T' = Inr ()) \<longleftrightarrow>
    (\<exists>body. length body = unat n \<and> concat rs = body @ tail_trailer C t i (map_option (digest_push body) dg))"
  using assms by (rule tail_runs_accepted)

theorem payload_tail_accepts_witness:
  "\<exists>T'. tail_pushes sample_crc (tail_new None NoCrc True 2 4) [[1], [2, 0xFF], [], [0xFF]] = Some (Inr T') \<and>
    tail_finish T' = Inr ()"
proof -
  have "digest_for NoCrc None" by (simp add: digest_for_def)
  moreover have "length [1, 2 :: byte] = unat (2 :: u64) \<and> concat [[1], [2, 0xFF], [], [0xFF]] =
      [1, 2] @ tail_trailer sample_crc NoCrc True (map_option (digest_push [1, 2]) None)"
    by (simp add: tail_trailer_def trailer_end_def)
  ultimately show ?thesis using payload_tail_accepts [of NoCrc None sample_crc True 2 4] by blast
qed

text \<open>C4. Parsing a built bundle gives back the very primary block and block index that the builder
  returned beside the bytes, for every builder whose bundle a receiver takes (\<open>builder_ok\<close>): identifiers
  in normal form, a creation time other than 0, a lifetime of a whole number of milliseconds in 64
  bits, known CRC types, flags whose unrecognised bits are none of the recognised ones, no status reports for an
  administrative record or a null source, \<open>do_not_fragment\<close> for a null source; every block with its
  data, extension blocks that are neither a payload nor a primary block nor a BIB or BCB, at most one
  previous node, bundle age and hop count block, and no \<open>report_on_failure\<close> on a block of an
  administrative record or of a null source. The builder itself asks for none of this: what it builds
  otherwise, as with \<open>with_hop_count\<close> in an administrative record, the parser may reject.\<close>

theorem build_parse_round_trip:
  assumes "text_spec X" and "builder_ok F B ts"
  shows "\<exists>bundle d. builder_build X C B ts = Some (Inr (bundle, d)) \<and>
    (length d \<le> usize_max \<longrightarrow>
      parse_bundle X C F d = Some (Inr \<lparr>pr_data = d, pr_bundle = bundle, pr_bcbs = [], pr_bibs = []\<rparr>))"
  using builder_build_eq [OF assms(2), of X C] parse_built [OF assms] by blast

theorem build_parse_round_trip_witness:
  "\<exists>bundle. builder_build sample_text sample_crc sample_builder sample_stamp = Some (Inr (bundle, sample_bytes)) \<and>
    parse_bundle sample_text sample_crc sample_float sample_bytes =
      Some (Inr \<lparr>pr_data = sample_bytes, pr_bundle = bundle, pr_bcbs = [], pr_bibs = []\<rparr>)"
  using build_parse_round_trip [OF sample_text_spec sample_builder_ok, of sample_crc] sample_built sample_bytes_short by auto

end
