(* ===== verification/Tcpcl_Codec.thy ===== *)
theory Tcpcl_Codec
  imports Bpv7_Eid_Codec
begin

unbundle bit_operations_syntax

text \<open>
  The message codec of the TCP convergence layer (RFC 9174), \<^verbatim>\<open>tcpclv4/src/codec.rs\<close>: the seven
  messages, their reason codes and flags, and the encoder and decoder that the framed transport
  calls. The encoder appends to a buffer; the decoder takes a message off the front of one, asks
  for more bytes and leaves the buffer alone, or fails. Reading past the end of a buffer panics in
  the \<^verbatim>\<open>bytes\<close> crate. Sums of lengths wrap, as in a release build.
\<close>

section \<open>Results of decoding\<close>

text \<open>Of an I/O error only the kind that stands for a vanished peer matters.\<close>

datatype io_error = UnexpectedEof | OtherIo

datatype codec_error = InvalidMessageType u8 | CodecIo io_error | InvalidNodeIdUtf8 | InvalidNodeIdText eid_error | InvalidExtensionLength

text \<open>A failure carries what is left in the buffer.\<close>

datatype 'a decoding = Panic | Fail codec_error bytes | Incomplete | Got 'a

fun dec_then :: "'a decoding \<Rightarrow> ('a \<Rightarrow> 'b decoding) \<Rightarrow> 'b decoding" where
  "dec_then Panic f = Panic"
| "dec_then (Fail e r) f = Fail e r"
| "dec_then Incomplete f = Incomplete"
| "dec_then (Got a) f = f a"

text \<open>\<^verbatim>\<open>get_u8\<close>, \<^verbatim>\<open>get_u16\<close>, \<^verbatim>\<open>get_u32\<close>, \<^verbatim>\<open>get_u64\<close>, \<^verbatim>\<open>advance\<close> and \<^verbatim>\<open>split_to\<close> of a buffer.\<close>

definition split_to :: "nat \<Rightarrow> bytes \<Rightarrow> (bytes \<times> bytes) decoding" where
  "split_to n src = (if length src < n then Panic else Got (take n src, drop n src))"

definition get_uint :: "bytes \<Rightarrow> ('a::len word \<times> bytes) decoding" where
  "get_uint src = dec_then (split_to (LENGTH('a) div 8) src) (\<lambda>(b, src). Got (from_be_bytes b, src))"

definition advance :: "nat \<Rightarrow> bytes \<Rightarrow> bytes decoding" where
  "advance n src = dec_then (split_to n src) (\<lambda>(_, src). Got src)"

text \<open>\<^verbatim>\<open>if src.len() < n { return Ok(None) }\<close>\<close>

definition at_least :: "nat \<Rightarrow> bytes \<Rightarrow> 'a decoding \<Rightarrow> 'a decoding" where
  "at_least n src k = (if length src < n then Incomplete else k)"

section \<open>Message types, flags and reason codes\<close>

datatype MessageType = XFER_SEGMENT | XFER_ACK | XFER_REFUSE | KEEPALIVE | SESS_TERM | MSG_REJECT | SESS_INIT

definition message_type_byte :: "MessageType \<Rightarrow> u8" where
  "message_type_byte t =
    (case t of XFER_SEGMENT \<Rightarrow> 1 | XFER_ACK \<Rightarrow> 2 | XFER_REFUSE \<Rightarrow> 3 | KEEPALIVE \<Rightarrow> 4 | SESS_TERM \<Rightarrow> 5
     | MSG_REJECT \<Rightarrow> 6 | SESS_INIT \<Rightarrow> 7)"

definition message_type_try_from :: "u8 \<Rightarrow> codec_error + MessageType" where
  "message_type_try_from v =
    (if v = 1 then Inr XFER_SEGMENT else if v = 2 then Inr XFER_ACK else if v = 3 then Inr XFER_REFUSE
     else if v = 4 then Inr KEEPALIVE else if v = 5 then Inr SESS_TERM else if v = 6 then Inr MSG_REJECT
     else if v = 7 then Inr SESS_INIT else Inl (InvalidMessageType v))"

record ExtensionFlags =
  ef_critical :: bool
  ef_reserved :: u8

definition extension_flags_from :: "u8 \<Rightarrow> ExtensionFlags" where
  "extension_flags_from v = \<lparr>ef_critical = (v AND 1 \<noteq> 0), ef_reserved = v AND 0xFE\<rparr>"

text \<open>The flags of a session extension drop the reserved bits when they are written, those of a
  transfer extension keep them.\<close>

definition session_extension_flags_into :: "ExtensionFlags \<Rightarrow> u8" where
  "session_extension_flags_into f = (if ef_critical f then 0 OR 1 else 0)"

definition transfer_extension_flags_into :: "ExtensionFlags \<Rightarrow> u8" where
  "transfer_extension_flags_into f = (if ef_critical f then ef_reserved f OR 1 else ef_reserved f)"

record Extension =
  ex_flags :: ExtensionFlags
  ex_type :: u16
  ex_length :: u16
  ex_value :: bytes

record SessionTermMessageFlags =
  tf_reply :: bool
  tf_reserved :: u8

definition term_flags_from :: "u8 \<Rightarrow> SessionTermMessageFlags" where
  "term_flags_from v = \<lparr>tf_reply = (v AND 1 \<noteq> 0), tf_reserved = v AND 0xFE\<rparr>"

definition term_flags_into :: "SessionTermMessageFlags \<Rightarrow> u8" where
  "term_flags_into f = (if tf_reply f then tf_reserved f OR 1 else tf_reserved f)"

datatype SessionTermReasonCode =
  TermUnknown | IdleTimeout | VersionMismatch | Busy | ContactFailure | ResourceExhaustion
  | TermUnassigned u8 | TermPrivate u8

definition term_reason_from :: "u8 \<Rightarrow> SessionTermReasonCode" where
  "term_reason_from v =
    (if v = 0 then TermUnknown else if v = 1 then IdleTimeout else if v = 2 then VersionMismatch
     else if v = 3 then Busy else if v = 4 then ContactFailure else if v = 5 then ResourceExhaustion
     else if v \<le> 0xEF then TermUnassigned v else TermPrivate v)"

definition term_reason_into :: "SessionTermReasonCode \<Rightarrow> u8" where
  "term_reason_into r =
    (case r of TermUnknown \<Rightarrow> 0 | IdleTimeout \<Rightarrow> 1 | VersionMismatch \<Rightarrow> 2 | Busy \<Rightarrow> 3 | ContactFailure \<Rightarrow> 4
     | ResourceExhaustion \<Rightarrow> 5 | TermUnassigned n \<Rightarrow> n | TermPrivate n \<Rightarrow> n)"

datatype MessageRejectionReasonCode = UnknownType | Unsupported | Unexpected | RejectUnassigned u8 | RejectPrivate u8

definition reject_reason_from :: "u8 \<Rightarrow> MessageRejectionReasonCode" where
  "reject_reason_from v =
    (if v = 1 then UnknownType else if v = 2 then Unsupported else if v = 3 then Unexpected
     else if v \<le> 0xEF then RejectUnassigned v else RejectPrivate v)"

definition reject_reason_into :: "MessageRejectionReasonCode \<Rightarrow> u8" where
  "reject_reason_into r =
    (case r of UnknownType \<Rightarrow> 1 | Unsupported \<Rightarrow> 2 | Unexpected \<Rightarrow> 3 | RejectUnassigned n \<Rightarrow> n | RejectPrivate n \<Rightarrow> n)"

datatype TransferRefuseReasonCode =
  RefuseUnknown | Completed | NoResources | Retransmit | NotAcceptable | ExtensionFailure | SessionTerminating
  | RefuseUnassigned u8 | RefusePrivate u8

definition refuse_reason_from :: "u8 \<Rightarrow> TransferRefuseReasonCode" where
  "refuse_reason_from v =
    (if v = 0 then RefuseUnknown else if v = 1 then Completed else if v = 2 then NoResources
     else if v = 3 then Retransmit else if v = 4 then NotAcceptable else if v = 5 then ExtensionFailure
     else if v = 6 then SessionTerminating else if v \<le> 0xEF then RefuseUnassigned v else RefusePrivate v)"

definition refuse_reason_into :: "TransferRefuseReasonCode \<Rightarrow> u8" where
  "refuse_reason_into r =
    (case r of RefuseUnknown \<Rightarrow> 0 | Completed \<Rightarrow> 1 | NoResources \<Rightarrow> 2 | Retransmit \<Rightarrow> 3 | NotAcceptable \<Rightarrow> 4
     | ExtensionFailure \<Rightarrow> 5 | SessionTerminating \<Rightarrow> 6 | RefuseUnassigned n \<Rightarrow> n | RefusePrivate n \<Rightarrow> n)"

record TransferSegmentMessageFlags =
  sf_start :: bool
  sf_end :: bool
  sf_reserved :: u8

definition segment_flags_from :: "u8 \<Rightarrow> TransferSegmentMessageFlags" where
  "segment_flags_from v = \<lparr>sf_start = (v AND 2 \<noteq> 0), sf_end = (v AND 1 \<noteq> 0), sf_reserved = v AND 0xFC\<rparr>"

definition segment_flags_into :: "TransferSegmentMessageFlags \<Rightarrow> u8" where
  "segment_flags_into f =
    (let flags = sf_reserved f;
         flags = (if sf_end f then flags OR 1 else flags)
     in if sf_start f then flags OR 2 else flags)"

section \<open>Messages\<close>

record SessionInitMessage =
  si_keepalive_interval :: u16
  si_segment_mru :: u64
  si_transfer_mru :: u64
  si_node_id :: "NodeId option"
  si_session_extensions :: "Extension list"

record SessionTermMessage =
  st_message_flags :: SessionTermMessageFlags
  st_reason_code :: SessionTermReasonCode

record MessageRejectMessage =
  mr_reason_code :: MessageRejectionReasonCode
  mr_rejected_message :: u8

record TransferRefuseMessage =
  tr_reason_code :: TransferRefuseReasonCode
  tr_transfer_id :: u64

record TransferAckMessage =
  ta_message_flags :: TransferSegmentMessageFlags
  ta_transfer_id :: u64
  ta_acknowledged_length :: u64

record TransferSegmentMessage =
  ts_message_flags :: TransferSegmentMessageFlags
  ts_transfer_id :: u64
  ts_transfer_extensions :: "Extension list"
  ts_data :: bytes

datatype Message =
  SessionInit SessionInitMessage
  | SessionTerm SessionTermMessage
  | Keepalive
  | TransferSegment TransferSegmentMessage
  | TransferAck TransferAckMessage
  | TransferRefuse TransferRefuseMessage
  | Reject MessageRejectMessage

definition message_type :: "Message \<Rightarrow> MessageType" where
  "message_type m =
    (case m of SessionInit _ \<Rightarrow> SESS_INIT | SessionTerm _ \<Rightarrow> SESS_TERM | Keepalive \<Rightarrow> KEEPALIVE
     | TransferSegment _ \<Rightarrow> XFER_SEGMENT | TransferAck _ \<Rightarrow> XFER_ACK | TransferRefuse _ \<Rightarrow> XFER_REFUSE
     | Reject _ \<Rightarrow> MSG_REJECT)"

section \<open>Encoding\<close>

definition ext_byte_length :: "Extension list \<Rightarrow> u32" where
  "ext_byte_length es = sum_list (map (\<lambda>e. 1 + 2 + 2 + of_nat (length (ex_value e))) es)"

definition put_extension :: "(ExtensionFlags \<Rightarrow> u8) \<Rightarrow> Extension \<Rightarrow> bytes" where
  "put_extension into e = [into (ex_flags e)] @ to_be_bytes (ex_type e) @ to_be_bytes (ex_length e) @ ex_value e"

definition put_extensions :: "(ExtensionFlags \<Rightarrow> u8) \<Rightarrow> Extension list \<Rightarrow> bytes" where
  "put_extensions into es = to_be_bytes (ext_byte_length es) @ concat (map (put_extension into) es)"

definition put_node_id :: "NodeId option \<Rightarrow> bytes" where
  "put_node_id n =
    (case n of
       Some node_id \<Rightarrow> to_be_bytes (of_nat (length (node_id_display node_id)) :: u16) @ node_id_display node_id
     | None \<Rightarrow> to_be_bytes (0 :: u16))"

definition session_init_encode :: "SessionInitMessage \<Rightarrow> bytes \<Rightarrow> bytes" where
  "session_init_encode m dst =
    dst @ [message_type_byte SESS_INIT] @ to_be_bytes (si_keepalive_interval m) @ to_be_bytes (si_segment_mru m) @
    to_be_bytes (si_transfer_mru m) @ put_node_id (si_node_id m) @
    put_extensions session_extension_flags_into (si_session_extensions m)"

definition session_term_encode :: "SessionTermMessage \<Rightarrow> bytes \<Rightarrow> bytes" where
  "session_term_encode m dst =
    dst @ [message_type_byte SESS_TERM, term_flags_into (st_message_flags m), term_reason_into (st_reason_code m)]"

definition message_reject_encode :: "MessageRejectMessage \<Rightarrow> bytes \<Rightarrow> bytes" where
  "message_reject_encode m dst =
    dst @ [message_type_byte MSG_REJECT, reject_reason_into (mr_reason_code m), mr_rejected_message m]"

definition transfer_refuse_encode :: "TransferRefuseMessage \<Rightarrow> bytes \<Rightarrow> bytes" where
  "transfer_refuse_encode m dst =
    dst @ [message_type_byte XFER_REFUSE, refuse_reason_into (tr_reason_code m)] @ to_be_bytes (tr_transfer_id m)"

definition transfer_ack_encode :: "TransferAckMessage \<Rightarrow> bytes \<Rightarrow> bytes" where
  "transfer_ack_encode m dst =
    dst @ [message_type_byte XFER_ACK, segment_flags_into (ta_message_flags m)] @ to_be_bytes (ta_transfer_id m) @
    to_be_bytes (ta_acknowledged_length m)"

definition transfer_segment_encode :: "TransferSegmentMessage \<Rightarrow> bytes \<Rightarrow> bytes" where
  "transfer_segment_encode m dst =
    dst @ [message_type_byte XFER_SEGMENT, segment_flags_into (ts_message_flags m)] @ to_be_bytes (ts_transfer_id m) @
    (if sf_start (ts_message_flags m)
     then put_extensions transfer_extension_flags_into (ts_transfer_extensions m) else []) @
    to_be_bytes (of_nat (length (ts_data m)) :: u64) @ ts_data m"

definition encode :: "Message \<Rightarrow> bytes \<Rightarrow> bytes" where
  "encode item dst =
    (case item of
       SessionInit m \<Rightarrow> session_init_encode m dst
     | SessionTerm m \<Rightarrow> session_term_encode m dst
     | Keepalive \<Rightarrow> dst @ [message_type_byte KEEPALIVE]
     | TransferSegment m \<Rightarrow> transfer_segment_encode m dst
     | TransferAck m \<Rightarrow> transfer_ack_encode m dst
     | TransferRefuse m \<Rightarrow> transfer_refuse_encode m dst
     | Reject m \<Rightarrow> message_reject_encode m dst)"

section \<open>Decoding\<close>

text \<open>The loop over the extension items of \<open>ext_remaining\<close> announced bytes. The two decoders have a
  copy each. Less than the head of an item is left over without being read.\<close>

function ext_loop ::
  "bytes \<Rightarrow> nat \<Rightarrow> bytes \<Rightarrow> Extension list \<Rightarrow> nat \<Rightarrow> (Extension list \<times> nat \<times> bytes) decoding" where
  "ext_loop src ext_remaining src_cloned exts consumed =
    (if ext_remaining < 5 then Got (exts, consumed, src_cloned)
     else
       at_least 5 src_cloned
         (dec_then (get_uint src_cloned) (\<lambda>(flags, src_cloned).
          dec_then (get_uint src_cloned) (\<lambda>(item_type, src_cloned).
          dec_then (get_uint src_cloned) (\<lambda>(item_length :: u16, src_cloned).
          at_least (unat item_length) src_cloned
            (dec_then (split_to (unat item_length) src_cloned) (\<lambda>(item_value, src_cloned).
              let ext_size = 5 + unat item_length
              in if ext_remaining < ext_size then Fail InvalidExtensionLength src
                 else ext_loop src (ext_remaining - ext_size) src_cloned
                   (exts @ [\<lparr>ex_flags = extension_flags_from flags, ex_type = item_type, ex_length = item_length,
                            ex_value = item_value\<rparr>]) (consumed + ext_size)))))))
    )"
  by pat_completeness auto
termination
  by (relation "measure (\<lambda>(_, n, _). n)") auto

declare ext_loop.simps [simp del]

definition node_id_decode :: "text_ops \<Rightarrow> bytes \<Rightarrow> nat \<Rightarrow> bytes \<Rightarrow> (NodeId option \<times> bytes) decoding" where
  "node_id_decode X src n src_cloned =
    (if n > 0 then
       at_least n src_cloned
         (dec_then (split_to n src_cloned) (\<lambda>(text, src_cloned).
           if \<not> utf8_valid text then Fail InvalidNodeIdUtf8 src
           else
             (case node_id_from_str X text of
                Inl e \<Rightarrow> Fail (InvalidNodeIdText e) src
              | Inr node_id \<Rightarrow> Got (Some node_id, src_cloned))))
     else Got (None, src_cloned))"

definition session_init_decode :: "text_ops \<Rightarrow> bytes \<Rightarrow> (Message \<times> bytes) decoding" where
  "session_init_decode X src =
    at_least 21 src
      (dec_then (advance 1 src) (\<lambda>src_cloned.
       dec_then (get_uint src_cloned) (\<lambda>(keepalive_interval, src_cloned).
       dec_then (get_uint src_cloned) (\<lambda>(segment_mru, src_cloned).
       dec_then (get_uint src_cloned) (\<lambda>(transfer_mru, src_cloned).
       dec_then (get_uint src_cloned) (\<lambda>(node_id_length :: u16, src_cloned).
       dec_then (node_id_decode X src (unat node_id_length) src_cloned) (\<lambda>(node_id, src_cloned).
       at_least 4 src_cloned
         (dec_then (get_uint src_cloned) (\<lambda>(ext_byte_length :: u32, src_cloned).
          dec_then (ext_loop src (unat ext_byte_length) src_cloned [] (1 + 2 + 8 + 8 + 2 + unat node_id_length + 4))
            (\<lambda>(session_extensions, consumed, _).
          dec_then (advance consumed src) (\<lambda>src.
            Got (SessionInit \<lparr>si_keepalive_interval = keepalive_interval, si_segment_mru = segment_mru,
                   si_transfer_mru = transfer_mru, si_node_id = node_id,
                   si_session_extensions = session_extensions\<rparr>, src))))))))))))"

definition session_term_decode :: "bytes \<Rightarrow> (Message \<times> bytes) decoding" where
  "session_term_decode src =
    at_least 3 src
      (dec_then (advance 1 src) (\<lambda>src.
       dec_then (get_uint src) (\<lambda>(flags, src).
       dec_then (get_uint src) (\<lambda>(reason, src).
         Got (SessionTerm \<lparr>st_message_flags = term_flags_from flags, st_reason_code = term_reason_from reason\<rparr>, src)))))"

text \<open>The rejected message has to be one that could have been sent; it is checked after its byte
  has been taken off the buffer.\<close>

definition message_reject_decode :: "bytes \<Rightarrow> (Message \<times> bytes) decoding" where
  "message_reject_decode src =
    at_least 3 src
      (dec_then (advance 1 src) (\<lambda>src.
       dec_then (get_uint src) (\<lambda>(reason, src).
       dec_then (get_uint src) (\<lambda>(rejected, src).
         (case message_type_try_from rejected of
            Inl e \<Rightarrow> Fail e src
          | Inr t \<Rightarrow>
              Got (Reject \<lparr>mr_reason_code = reject_reason_from reason, mr_rejected_message = message_type_byte t\<rparr>, src))))))"

definition transfer_refuse_decode :: "bytes \<Rightarrow> (Message \<times> bytes) decoding" where
  "transfer_refuse_decode src =
    at_least 10 src
      (dec_then (advance 1 src) (\<lambda>src.
       dec_then (get_uint src) (\<lambda>(reason, src).
       dec_then (get_uint src) (\<lambda>(transfer_id, src).
         Got (TransferRefuse \<lparr>tr_reason_code = refuse_reason_from reason, tr_transfer_id = transfer_id\<rparr>, src)))))"

definition transfer_ack_decode :: "bytes \<Rightarrow> (Message \<times> bytes) decoding" where
  "transfer_ack_decode src =
    at_least 18 src
      (dec_then (advance 1 src) (\<lambda>src.
       dec_then (get_uint src) (\<lambda>(flags, src).
       dec_then (get_uint src) (\<lambda>(transfer_id, src).
       dec_then (get_uint src) (\<lambda>(acknowledged_length, src).
         Got (TransferAck \<lparr>ta_message_flags = segment_flags_from flags, ta_transfer_id = transfer_id,
                ta_acknowledged_length = acknowledged_length\<rparr>, src))))))"

definition transfer_extensions_decode :: "bytes \<Rightarrow> bool \<Rightarrow> bytes \<Rightarrow> (Extension list \<times> nat \<times> bytes) decoding" where
  "transfer_extensions_decode src start src_cloned =
    (if start then
       at_least 4 src_cloned
         (dec_then (get_uint src_cloned) (\<lambda>(ext_byte_length :: u32, src_cloned).
           ext_loop src (unat ext_byte_length) src_cloned [] (10 + 4)))
     else Got ([], 10, src_cloned))"

definition transfer_segment_decode :: "bytes \<Rightarrow> (Message \<times> bytes) decoding" where
  "transfer_segment_decode src =
    at_least 10 src
      (dec_then (advance 1 src) (\<lambda>src_cloned.
       dec_then (get_uint src_cloned) (\<lambda>(flags, src_cloned).
       dec_then (get_uint src_cloned) (\<lambda>(transfer_id, src_cloned).
       let message_flags = segment_flags_from flags
       in dec_then (transfer_extensions_decode src (sf_start message_flags) src_cloned)
            (\<lambda>(transfer_extensions, consumed, src_cloned).
          at_least 8 src_cloned
            (dec_then (get_uint src_cloned) (\<lambda>(data_length :: u64, src_cloned).
             at_least (unat data_length) src_cloned
               (dec_then (split_to (consumed + 8) src) (\<lambda>(_, src).
                dec_then (split_to (unat data_length) src) (\<lambda>(data, src).
                  Got (TransferSegment \<lparr>ts_message_flags = message_flags, ts_transfer_id = transfer_id,
                         ts_transfer_extensions = transfer_extensions, ts_data = data\<rparr>, src)))))))))))"

definition decode :: "text_ops \<Rightarrow> bytes \<Rightarrow> (Message \<times> bytes) decoding" where
  "decode X src =
    (case src of
       [] \<Rightarrow> Incomplete
     | b # _ \<Rightarrow>
         (case message_type_try_from b of
            Inl e \<Rightarrow> Fail e src
          | Inr XFER_SEGMENT \<Rightarrow> transfer_segment_decode src
          | Inr XFER_ACK \<Rightarrow> transfer_ack_decode src
          | Inr XFER_REFUSE \<Rightarrow> transfer_refuse_decode src
          | Inr KEEPALIVE \<Rightarrow> dec_then (advance 1 src) (\<lambda>src. Got (Keepalive, src))
          | Inr SESS_TERM \<Rightarrow> session_term_decode src
          | Inr MSG_REJECT \<Rightarrow> message_reject_decode src
          | Inr SESS_INIT \<Rightarrow> session_init_decode X src))"

end
