(* ===== verification/Tcpcl_Codec_Laws.thy ===== *)
theory Tcpcl_Codec_Laws
  imports Tcpcl_Codec
begin

unbundle bit_operations_syntax

text \<open>
  Laws of the message codec of the TCP convergence layer: the decoder never panics, its answer
  does not change when more bytes arrive behind the ones it has seen, and it reads back what the
  encoder writes. \<open>drain\<close> and \<open>feed\<close> are the framed transport around the decoder.
\<close>

section \<open>More bytes behind\<close>

definition grows :: "bytes \<Rightarrow> ('a \<Rightarrow> 'a \<Rightarrow> bool) \<Rightarrow> 'a decoding \<Rightarrow> 'a decoding \<Rightarrow> bool" where
  "grows q R r r' =
    (case r of
       Panic \<Rightarrow> True
     | Incomplete \<Rightarrow> True
     | Fail e s \<Rightarrow> r' = Fail e (s @ q)
     | Got a \<Rightarrow> (\<exists>b. r' = Got b \<and> R a b))"

definition same_then :: "bytes \<Rightarrow> 'a \<times> bytes \<Rightarrow> 'a \<times> bytes \<Rightarrow> bool" where
  "same_then q x y \<longleftrightarrow> fst y = fst x \<and> snd y = snd x @ q"

definition same_then2 :: "bytes \<Rightarrow> 'a \<times> 'b \<times> bytes \<Rightarrow> 'a \<times> 'b \<times> bytes \<Rightarrow> bool" where
  "same_then2 q x y \<longleftrightarrow> fst y = fst x \<and> same_then q (snd x) (snd y)"

lemma grows_simps [simp]:
  "grows q R Panic r'" "grows q R Incomplete r'"
  "grows q R (Fail e s) r' \<longleftrightarrow> r' = Fail e (s @ q)"
  "grows q R (Got a) r' \<longleftrightarrow> (\<exists>b. r' = Got b \<and> R a b)"
  by (simp_all add: grows_def)

lemma grows_then:
  assumes "grows q R r r'" and "\<And>a b. R a b \<Longrightarrow> grows q S (f a) (g b)"
  shows "grows q S (dec_then r f) (dec_then r' g)"
  using assms by (cases r) auto

lemma grows_at_least:
  assumes "grows q R k k'"
  shows "grows q R (at_least n src k) (at_least n (src @ q) k')"
  using assms by (simp add: at_least_def)

lemma grows_split_to: "grows q (same_then q) (split_to n src) (split_to n (src @ q))"
  by (simp add: split_to_def same_then_def)

lemma grows_get_uint: "grows q (same_then q) (get_uint src) (get_uint (src @ q))"
  by (simp add: get_uint_def split_to_def same_then_def)

lemma grows_advance: "grows q (\<lambda>s t. t = s @ q) (advance n src) (advance n (src @ q))"
  by (simp add: advance_def split_to_def)

lemma same_thenE:
  assumes "same_then q a b"
  obtains x s where "a = (x, s)" "b = (x, s @ q)"
  using assms by (cases a; cases b) (auto simp: same_then_def)

lemma same_then2E:
  assumes "same_then2 q a b"
  obtains x y s where "a = (x, y, s)" "b = (x, y, s @ q)"
  using assms by (cases a; cases b) (auto simp: same_then_def same_then2_def)

lemmas grows_intros = grows_at_least grows_then [OF grows_get_uint] grows_then [OF grows_split_to] grows_then [OF grows_advance]

lemma grows_ext_loop:
  "grows q (same_then2 q) (ext_loop src n s exts c) (ext_loop (src @ q) n (s @ q) exts c)"
proof (induction src n s exts c rule: ext_loop.induct)
  case (1 src n s exts c)
  show ?case
  proof (cases "n < 5")
    case True
    then show ?thesis by (simp add: ext_loop.simps [of _ n] same_then2_def same_then_def)
  next
    case False
    show ?thesis
      by (subst ext_loop.simps, subst (2) ext_loop.simps)
        (auto simp: False Let_def intro!: grows_intros 1 elim!: same_thenE)
  qed
qed

lemma grows_node_id: "grows q (same_then q) (node_id_decode X src n s) (node_id_decode X (src @ q) n (s @ q))"
  by (auto simp: node_id_decode_def same_then_def split: sum.split intro!: grows_intros elim!: same_thenE)

lemma grows_session_init: "grows q (same_then q) (session_init_decode X src) (session_init_decode X (src @ q))"
  unfolding session_init_decode_def
  by (auto simp: same_then_def intro!: grows_intros grows_then [OF grows_node_id] grows_then [OF grows_ext_loop]
      elim!: same_thenE same_then2E)

lemma grows_transfer_extensions:
  "grows q (same_then2 q) (transfer_extensions_decode src b s) (transfer_extensions_decode (src @ q) b (s @ q))"
  unfolding transfer_extensions_decode_def
  by (auto simp: same_then_def same_then2_def intro!: grows_intros grows_ext_loop elim!: same_thenE)

lemma grows_transfer_segment: "grows q (same_then q) (transfer_segment_decode src) (transfer_segment_decode (src @ q))"
  unfolding transfer_segment_decode_def Let_def
  by (auto simp: same_then_def intro!: grows_intros grows_then [OF grows_transfer_extensions]
      elim!: same_thenE same_then2E)

lemma grows_small:
  "grows q (same_then q) (session_term_decode src) (session_term_decode (src @ q))"
  "grows q (same_then q) (transfer_refuse_decode src) (transfer_refuse_decode (src @ q))"
  "grows q (same_then q) (transfer_ack_decode src) (transfer_ack_decode (src @ q))"
  "grows q (same_then q) (message_reject_decode src) (message_reject_decode (src @ q))"
  unfolding session_term_decode_def transfer_refuse_decode_def transfer_ack_decode_def message_reject_decode_def
  by (auto simp: same_then_def split: sum.split intro!: grows_intros elim!: same_thenE)

lemma decode_grows: "grows q (same_then q) (decode X src) (decode X (src @ q))"
proof (cases src)
  case Nil
  then show ?thesis by (simp add: decode_def)
next
  case (Cons b bs)
  have k: "grows q (same_then q) (dec_then (advance 1 src) (\<lambda>src. Got (Keepalive, src)))
      (dec_then (advance 1 (src @ q)) (\<lambda>src. Got (Keepalive, src)))"
    by (auto simp: same_then_def intro!: grows_intros)
  show ?thesis
    using k grows_small [of q src] grows_session_init [of q X src] grows_transfer_segment [of q src]
    by (simp add: decode_def Cons split: sum.split MessageType.split)
qed

section \<open>No panic, and progress\<close>

text \<open>What a decoder takes off the buffer is a part of it of at least one byte.\<close>

definition takes_off :: "bytes \<Rightarrow> ('m \<times> bytes) decoding \<Rightarrow> bool" where
  "takes_off src r = (case r of Panic \<Rightarrow> False | Got (_, rest) \<Rightarrow> length rest < length src | _ \<Rightarrow> True)"

lemma takes_off_simps [simp]:
  "\<not> takes_off src Panic" "takes_off src Incomplete" "takes_off src (Fail e s)"
  "takes_off src (Got (m, rest)) \<longleftrightarrow> length rest < length src"
  by (simp_all add: takes_off_def)

lemma takes_off_at_least: "(n \<le> length s \<Longrightarrow> takes_off src k) \<Longrightarrow> takes_off src (at_least n s k)"
  by (auto simp: at_least_def)

lemma get_uint_enough:
  "LENGTH('a) div 8 \<le> length s \<Longrightarrow>
    get_uint s = Got (from_be_bytes (take (LENGTH('a) div 8) s) :: 'a::len word, drop (LENGTH('a) div 8) s)"
  by (simp add: get_uint_def split_to_def)

lemma split_to_enough: "n \<le> length s \<Longrightarrow> split_to n s = Got (take n s, drop n s)"
  by (simp add: split_to_def)

lemma advance_enough: "n \<le> length s \<Longrightarrow> advance n s = Got (drop n s)"
  by (simp add: advance_def split_to_def)

lemmas enough = get_uint_enough split_to_enough advance_enough

lemma ext_loop_consumed:
  "ext_loop src n s exts c \<noteq> Panic \<and>
   (ext_loop src n s exts c = Got (exts', c', s') \<longrightarrow> c' + length s' = c + length s \<and> c \<le> c')"
proof (induction src n s exts c rule: ext_loop.induct)
  case (1 src n s exts c)
  show ?case
  proof (cases "n < 5 \<or> length s < 5")
    case True
    then show ?thesis by (auto simp: ext_loop.simps [of _ n] at_least_def)
  next
    case False
    define w where "w = (from_be_bytes (take 2 (drop 2 (drop 1 s))) :: u16)"
    define s5 where "s5 = drop 2 (drop 2 (drop 1 s))"
    have g: "get_uint s = Got (from_be_bytes (take 1 s) :: u8, drop 1 s)"
        "get_uint (drop 1 s) = Got (from_be_bytes (take 2 (drop 1 s)) :: u16, drop 2 (drop 1 s))"
        "get_uint (drop 2 (drop 1 s)) = Got (from_be_bytes (take 2 (drop 2 (drop 1 s))) :: u16, drop 2 (drop 2 (drop 1 s)))"
      using False by (auto simp: get_uint_def split_to_def)
    show ?thesis
    proof (cases "length s5 < unat w \<or> n < 5 + unat w")
      case True
      then show ?thesis
        using False g by (subst (1 2) ext_loop.simps) (auto simp: at_least_def w_def s5_def split_to_def)
    next
      case ok: False
      define e where "e = \<lparr>ex_flags = extension_flags_from (from_be_bytes (take 1 s)),
        ex_type = from_be_bytes (take 2 (drop 1 s)), ex_length = w, ex_value = take (unat w) s5\<rparr>"
      let ?r = "ext_loop src (n - (5 + unat w)) (drop (unat w) s5) (exts @ [e]) (c + (5 + unat w))"
      have "ext_loop src n s exts c = ?r"
        using False ok g by (subst ext_loop.simps) (simp add: at_least_def w_def s5_def e_def split_to_def Let_def)
      moreover have "?r \<noteq> Panic \<and> (?r = Got (exts', c', s') \<longrightarrow>
          c' + length s' = c + (5 + unat w) + length (drop (unat w) s5) \<and> c + (5 + unat w) \<le> c')"
        unfolding e_def using False ok by (intro 1 [OF _ refl]) auto
      moreover have "length s5 = length s - 5" by (simp add: s5_def)
      ultimately show ?thesis using False ok by auto
    qed
  qed
qed

lemma takes_off_then:
  "r \<noteq> Panic \<Longrightarrow> (\<And>a. r = Got a \<Longrightarrow> takes_off src (f a)) \<Longrightarrow> takes_off src (dec_then r f)"
  by (cases r) auto

lemma get_uint_length:
  "get_uint s = (Panic :: ('a::len word \<times> bytes) decoding) \<longleftrightarrow> length s < LENGTH('a) div 8"
  "get_uint s = Got (v :: 'a word, s') \<Longrightarrow> length s = LENGTH('a) div 8 + length s'"
  by (auto simp: get_uint_def split_to_def split: if_splits)

lemma split_to_length:
  "split_to n s = Panic \<longleftrightarrow> length s < n"
  "split_to n s = Got (b, s') \<Longrightarrow> length s = n + length s'"
  by (auto simp: split_to_def split: if_splits)

lemma advance_length:
  "advance n s = Panic \<longleftrightarrow> length s < n"
  "advance n s = Got s' \<Longrightarrow> length s = n + length s'"
  by (auto simp: advance_def split_to_def split: if_splits)

lemma node_id_length:
  "node_id_decode X src n s \<noteq> Panic"
  "node_id_decode X src n s = Got (v, s') \<Longrightarrow> length s = n + length s'"
  by (auto simp: node_id_decode_def at_least_def split_to_def split: if_splits sum.splits)

lemma ext_loop_length:
  "ext_loop src n s exts c \<noteq> Panic"
  "ext_loop src n s exts c = Got (exts', c', s') \<Longrightarrow> c' + length s' = c + length s \<and> c \<le> c'"
  using ext_loop_consumed [of src n s exts c] by blast+

lemma transfer_extensions_length:
  "transfer_extensions_decode src b s \<noteq> Panic"
  "transfer_extensions_decode src b s = Got (exts', c', s') \<Longrightarrow> c' + length s' = 10 + length s \<and> 10 \<le> c'"
proof -
  show "transfer_extensions_decode src b s \<noteq> Panic"
    by (auto simp: transfer_extensions_decode_def at_least_def get_uint_def split_to_def ext_loop_length)
  assume "transfer_extensions_decode src b s = Got (exts', c', s')"
  then show "c' + length s' = 10 + length s \<and> 10 \<le> c'"
    by (auto simp: transfer_extensions_decode_def at_least_def get_uint_def split_to_def dest!: ext_loop_length(2) split: if_splits)
qed

lemmas takes_off_intros = takes_off_at_least takes_off_then
lemmas length_rules = get_uint_length split_to_length advance_length node_id_length ext_loop_length transfer_extensions_length

text \<open>Descends into a decoder, carrying the lengths of what is left.\<close>

lemmas takes_off_facts = length_rules(1,3,5,7,9,11)
lemmas takes_off_dests = length_rules(2,4,6,8,10,12)

lemma session_init_takes_off: "takes_off src (session_init_decode X src)"
  unfolding session_init_decode_def
  by (intro takes_off_intros; auto intro!: takes_off_intros simp: takes_off_facts dest!: takes_off_dests)

lemma transfer_segment_takes_off: "takes_off src (transfer_segment_decode src)"
  unfolding transfer_segment_decode_def Let_def
  by (intro takes_off_intros; auto intro!: takes_off_intros simp: takes_off_facts dest!: takes_off_dests)

lemma small_takes_off:
  "takes_off src (session_term_decode src)" "takes_off src (transfer_refuse_decode src)"
  "takes_off src (transfer_ack_decode src)" "takes_off src (message_reject_decode src)"
  unfolding session_term_decode_def transfer_refuse_decode_def transfer_ack_decode_def message_reject_decode_def
  by (intro takes_off_intros;
      auto intro!: takes_off_intros simp: takes_off_facts dest!: takes_off_dests split: sum.split)+

lemma decode_takes_off: "takes_off src (decode X src)"
proof (cases src)
  case Nil
  then show ?thesis by (simp add: decode_def)
next
  case (Cons b bs)
  have "takes_off src (dec_then (advance 1 src) (\<lambda>src. Got (Keepalive, src)))"
    by (simp add: Cons advance_def split_to_def)
  then show ?thesis
    using small_takes_off [of src] session_init_takes_off [of src X] transfer_segment_takes_off [of src]
    by (simp add: decode_def Cons split: sum.split MessageType.split)
qed

section \<open>Reading back what was written\<close>

lemma get_uint_put [simp]:
  assumes "8 dvd LENGTH('a::len)"
  shows "get_uint (to_be_bytes (w :: 'a word) @ r) = Got (w, r)"
  using from_to_be_bytes [OF assms, of w] by (simp add: get_uint_def split_to_def)

lemma get_uint_byte [simp]: "get_uint (b # r) = Got (b :: u8, r)"
  by (simp add: get_uint_def split_to_def from_be_bytes_def be_val_def)

lemma advance_byte [simp]: "advance 1 (b # r) = Got r" "advance (Suc 0) (b # r) = Got r"
  by (simp_all add: advance_def split_to_def)

lemma split_to_append [simp]: "n = length b \<Longrightarrow> split_to n (b @ r) = Got (b, r)"
  by (simp add: split_to_def)

lemma at_least_enough [simp]: "n \<le> length s \<Longrightarrow> at_least n s k = k"
  by (simp add: at_least_def)

lemma reserved_bits:
  fixes r :: u8
  shows "r AND 1 = 0 \<Longrightarrow> r AND 0xFE = r" "r AND 3 = 0 \<Longrightarrow> r AND 0xFC = r"
proof -
  have "(0xFF :: u8) = - 1" by simp
  then have "r AND 0xFF = r" by (simp only: and.right_neutral)
  then have "r = (r AND 1) OR (r AND 0xFE)" "r = (r AND 3) OR (r AND 0xFC)"
    by (simp_all flip: word_ao_dist2)
  then show "r AND 1 = 0 \<Longrightarrow> r AND 0xFE = r" "r AND 3 = 0 \<Longrightarrow> r AND 0xFC = r" by auto
qed

definition extension_flags_ok :: "ExtensionFlags \<Rightarrow> bool" where
  "extension_flags_ok f \<longleftrightarrow> ef_reserved f AND 1 = 0"

definition segment_flags_ok :: "TransferSegmentMessageFlags \<Rightarrow> bool" where
  "segment_flags_ok f \<longleftrightarrow> sf_reserved f AND 3 = 0"

lemma flags_round_trip:
  "extension_flags_ok f \<Longrightarrow> extension_flags_from (transfer_extension_flags_into f) = f"
  "ef_reserved f = 0 \<Longrightarrow> extension_flags_from (session_extension_flags_into f) = f"
  "tf_reserved g AND 1 = 0 \<Longrightarrow> term_flags_from (term_flags_into g) = g"
  by (simp_all add: extension_flags_from_def transfer_extension_flags_into_def session_extension_flags_into_def
      extension_flags_ok_def term_flags_from_def term_flags_into_def reserved_bits word_ao_dist)

lemma segment_flags_round_trip:
  assumes "segment_flags_ok f"
  shows "segment_flags_from (segment_flags_into f) = f"
proof -
  have "sf_reserved f AND 3 = 0" using assms by (simp add: segment_flags_ok_def)
  moreover have "sf_reserved f AND 1 = (sf_reserved f AND 3) AND 1" "sf_reserved f AND 2 = (sf_reserved f AND 3) AND 2"
    by (simp_all add: and.assoc)
  ultimately have "sf_reserved f AND 1 = 0" "sf_reserved f AND 2 = 0" by simp_all
  then show ?thesis
    using assms by (simp add: segment_flags_from_def segment_flags_into_def segment_flags_ok_def reserved_bits word_ao_dist Let_def)
qed

definition term_reason_ok :: "SessionTermReasonCode \<Rightarrow> bool" where
  "term_reason_ok r = (case r of TermUnassigned n \<Rightarrow> 6 \<le> n \<and> n \<le> 0xEF | TermPrivate n \<Rightarrow> 0xF0 \<le> n | _ \<Rightarrow> True)"

definition reject_reason_ok :: "MessageRejectionReasonCode \<Rightarrow> bool" where
  "reject_reason_ok r =
    (case r of RejectUnassigned n \<Rightarrow> n = 0 \<or> 4 \<le> n \<and> n \<le> 0xEF | RejectPrivate n \<Rightarrow> 0xF0 \<le> n | _ \<Rightarrow> True)"

definition refuse_reason_ok :: "TransferRefuseReasonCode \<Rightarrow> bool" where
  "refuse_reason_ok r = (case r of RefuseUnassigned n \<Rightarrow> 7 \<le> n \<and> n \<le> 0xEF | RefusePrivate n \<Rightarrow> 0xF0 \<le> n | _ \<Rightarrow> True)"

lemma reasons_round_trip:
  "term_reason_ok a \<Longrightarrow> term_reason_from (term_reason_into a) = a"
  "reject_reason_ok b \<Longrightarrow> reject_reason_from (reject_reason_into b) = b"
  "refuse_reason_ok c \<Longrightarrow> refuse_reason_from (refuse_reason_into c) = c"
proof -
  have high: "\<not> n \<le> 0xEF" if "0xF0 \<le> n" for n :: u8
    using that by (simp add: word_le_nat_alt)
  have one: "\<not> 6 \<le> (1 :: u8)" "\<not> 7 \<le> (1 :: u8)" "\<not> 4 \<le> (1 :: u8)" "\<not> 0xF0 \<le> (1 :: u8)"
    by (simp_all add: word_le_nat_alt)
  show "term_reason_ok a \<Longrightarrow> term_reason_from (term_reason_into a) = a"
    by (cases a) (auto simp: term_reason_ok_def term_reason_from_def term_reason_into_def high one)
  show "reject_reason_ok b \<Longrightarrow> reject_reason_from (reject_reason_into b) = b"
    by (cases b) (auto simp: reject_reason_ok_def reject_reason_from_def reject_reason_into_def high one)
  show "refuse_reason_ok c \<Longrightarrow> refuse_reason_from (refuse_reason_into c) = c"
    by (cases c) (auto simp: refuse_reason_ok_def refuse_reason_from_def refuse_reason_into_def high one)
qed

text \<open>A node identifier in normal form whose text is short enough. The name of a \<^verbatim>\<open>dtn\<close> node is written
  as it is, without percent-encoding, so it must be one that has nothing to encode.\<close>

definition session_node_ok :: "text_ops \<Rightarrow> NodeId \<Rightarrow> bool" where
  "session_node_ok X n \<longleftrightarrow> length (node_id_display n) < 65536 \<and>
    (case n of
       NodeLocal \<Rightarrow> True
     | NodeIpn i \<Rightarrow> allocator_id i \<noteq> 0 \<or> (node_number i \<noteq> 0 \<and> node_number i \<noteq> 0xFFFFFFFF)
     | NodeDtn d \<Rightarrow> utf8_valid d \<and> tx_percent_encode X d = d)"

definition node_id_eid :: "NodeId \<Rightarrow> Eid" where
  "node_id_eid n = (case n of NodeLocal \<Rightarrow> LocalNode 0 | NodeIpn i \<Rightarrow> Ipn i 0 | NodeDtn d \<Rightarrow> Dtn d [])"

lemma node_id_text_round_trip:
  assumes "text_spec X" and "session_node_ok X n"
  shows "utf8_valid (node_id_display n)" and "node_id_from_str X (node_id_display n) = Inr n"
proof -
  have z: "dec_string 0 = ascii ''0''" by (simp add: dec_string.simps ascii_def)
  have l: "ascii ''.0'' = ascii ''.'' @ ascii ''0''" "ascii ''ipn:!.0'' = ascii ''ipn:!.'' @ ascii ''0''"
    by (simp_all add: ascii_def)
  have d: "node_id_display n = eid_display X (\<lambda>_ b. b) (node_id_eid n)"
    using assms(2)
    by (auto simp: node_id_display_def eid_display_def node_id_eid_def session_node_ok_def z l split: NodeId.split)
  have "eid_ok undefined (node_id_eid n)" "\<forall>c b. node_id_eid n \<noteq> Unknown c b"
    using assms(2) by (auto simp: node_id_eid_def session_node_ok_def eid_ok_def split: NodeId.splits)
  then have "eid_from_str X (node_id_display n) = Inr (case node_id_eid n of LegacyIpn n s \<Rightarrow> Ipn n s | _ \<Rightarrow> node_id_eid n)"
    unfolding d by (rule eid_display_parse [OF assms(1)])
  then show "node_id_from_str X (node_id_display n) = Inr n"
    by (simp add: node_id_from_str_def node_id_eid_def node_id_try_from_def split: NodeId.split)
  have digits: "list_all (\<lambda>b. b < 0x80) (dec_string k)" for k
    using dec_string_digits [of k] by (auto simp: list_all_iff digit_def word_le_nat_alt word_less_nat_alt)
  show "utf8_valid (node_id_display n)"
  proof (cases n)
    case (NodeDtn x)
    then have "utf8_valid x" "tx_percent_encode X x = x" using assms(2) by (simp_all add: session_node_ok_def)
    then have "list_all regname_char x" using text_specD(2) [OF assms(1)] by metis
    then show ?thesis using NodeDtn regname_ascii
      by (intro ascii_utf8) (auto simp: node_id_display_def ascii_def list_all_iff)
  qed (use digits in \<open>intro ascii_utf8; simp add: node_id_display_def ascii_def\<close>)+
qed

definition extensions_ok :: "(ExtensionFlags \<Rightarrow> bool) \<Rightarrow> Extension list \<Rightarrow> bool" where
  "extensions_ok flags_ok es \<longleftrightarrow>
    list_all (\<lambda>e. unat (ex_length e) = length (ex_value e) \<and> flags_ok (ex_flags e)) es \<and>
    (\<Sum>e\<leftarrow>es. 5 + length (ex_value e)) < 2 ^ 32"

text \<open>The messages that come back: reserved bits outside the defined ones, and none on a session
  extension, whose encoder drops them; reason codes in the range of their constructor; an extension
  announces the length of its value; transfer extensions on a start segment only; and only a message of
  a known type is rejected.\<close>

definition message_ok :: "text_ops \<Rightarrow> Message \<Rightarrow> bool" where
  "message_ok X m =
    (case m of
       SessionInit i \<Rightarrow> pred_option (session_node_ok X) (si_node_id i) \<and>
         extensions_ok (\<lambda>f. ef_reserved f = 0) (si_session_extensions i)
     | SessionTerm i \<Rightarrow> tf_reserved (st_message_flags i) AND 1 = 0 \<and> term_reason_ok (st_reason_code i)
     | Keepalive \<Rightarrow> True
     | TransferSegment i \<Rightarrow> segment_flags_ok (ts_message_flags i) \<and> length (ts_data i) \<le> usize_max \<and>
         (if sf_start (ts_message_flags i)
          then extensions_ok extension_flags_ok (ts_transfer_extensions i) else ts_transfer_extensions i = [])
     | TransferAck i \<Rightarrow> segment_flags_ok (ta_message_flags i)
     | TransferRefuse i \<Rightarrow> refuse_reason_ok (tr_reason_code i)
     | Reject i \<Rightarrow> reject_reason_ok (mr_reason_code i) \<and> mr_rejected_message i \<in> {1, 2, 3, 4, 5, 6, 7})"

lemma extension_fields: "\<lparr>ex_flags = ex_flags e, ex_type = ex_type e, ex_length = ex_length e, ex_value = ex_value e\<rparr> = e"
  by (cases e) simp

lemma ext_loop_put:
  assumes "list_all (\<lambda>e. unat (ex_length e) = length (ex_value e) \<and> extension_flags_from (into (ex_flags e)) = ex_flags e) es"
  shows "ext_loop src (\<Sum>e\<leftarrow>es. 5 + length (ex_value e)) (concat (map (put_extension into) es) @ rest) exts c =
    Got (exts @ es, c + (\<Sum>e\<leftarrow>es. 5 + length (ex_value e)), rest)"
  using assms
proof (induction es arbitrary: exts c)
  case Nil
  then show ?case by (simp add: ext_loop.simps)
next
  case (Cons e es)
  let ?n = "\<Sum>e\<leftarrow>es. 5 + length (ex_value e)" and ?t = "concat (map (put_extension into) es) @ rest"
  have l: "unat (ex_length e) = length (ex_value e)" using Cons.prems by simp
  have "ext_loop src (5 + length (ex_value e) + ?n) (put_extension into e @ ?t) exts c =
      ext_loop src ?n ?t (exts @ [e]) (c + (5 + length (ex_value e)))"
    using Cons.prems by (subst ext_loop.simps) (simp add: put_extension_def l Let_def extension_fields)
  also have "\<dots> = Got (exts @ [e] @ es, c + (5 + length (ex_value e)) + ?n, rest)"
    using Cons.prems Cons.IH [of "exts @ [e]" "c + (5 + length (ex_value e))"] by simp
  finally show ?case by (simp add: add.assoc)
qed

lemma ext_byte_length_sum:
  "(\<Sum>e\<leftarrow>es. 5 + length (ex_value e)) < 2 ^ 32 \<Longrightarrow> unat (ext_byte_length es) = (\<Sum>e\<leftarrow>es. 5 + length (ex_value e))"
proof -
  have "ext_byte_length es = of_nat (\<Sum>e\<leftarrow>es. 5 + length (ex_value e))"
    by (induction es) (simp_all add: ext_byte_length_def)
  then show "(\<Sum>e\<leftarrow>es. 5 + length (ex_value e)) < 2 ^ 32 \<Longrightarrow> ?thesis"
    by (simp add: unat_of_nat)
qed

lemma length_put_extensions:
  "length (concat (map (put_extension into) es)) = (\<Sum>e\<leftarrow>es. 5 + length (ex_value e))"
  by (induction es) (simp_all add: put_extension_def)

lemma put_extensions_decode:
  assumes "extensions_ok flags_ok es" and "\<And>f. flags_ok f \<Longrightarrow> extension_flags_from (into f) = f"
  shows "ext_loop src (unat (ext_byte_length es)) (concat (map (put_extension into) es) @ rest) [] c =
    Got (es, c + length (concat (map (put_extension into) es)), rest)"
proof -
  have "list_all (\<lambda>e. unat (ex_length e) = length (ex_value e) \<and> extension_flags_from (into (ex_flags e)) = ex_flags e) es"
    using assms by (auto simp: extensions_ok_def list_all_iff)
  then show ?thesis
    using assms(1) by (simp add: extensions_ok_def ext_byte_length_sum ext_loop_put length_put_extensions)
qed

lemma node_id_put:
  assumes "text_spec X" and "pred_option (session_node_ok X) n"
  obtains l :: u16 and t where "put_node_id n = to_be_bytes l @ t" "length t = unat l"
    "\<And>src rest. node_id_decode X src (unat l) (t @ rest) = Got (n, rest)"
proof (cases n)
  case None
  then show thesis by (intro that [of 0 "[]"]) (simp_all add: put_node_id_def node_id_decode_def)
next
  case (Some i)
  let ?t = "node_id_display i"
  have ok: "length ?t < 65536" "utf8_valid ?t" "node_id_from_str X ?t = Inr i"
    using assms Some node_id_text_round_trip [OF assms(1)] by (auto simp: session_node_ok_def)
  have l: "unat (of_nat (length ?t) :: u16) = length ?t" using ok(1) by (simp add: unat_of_nat)
  have "?t \<noteq> []" by (auto simp: node_id_display_def ascii_def split: NodeId.split)
  then show thesis
    using ok Some by (intro that [of "of_nat (length ?t)" ?t]) (simp_all add: put_node_id_def node_id_decode_def l)
qed

lemma advance_append: "n = length b \<Longrightarrow> advance n (b @ r) = Got r"
  by (simp add: advance_def)

lemma session_init_round_trip:
  assumes "text_spec X" and "message_ok X (SessionInit m)"
  shows "session_init_decode X (session_init_encode m [] @ rest) = Got (SessionInit m, rest)"
proof -
  let ?es = "si_session_extensions m" and ?n = "si_node_id m"
  have ok: "extensions_ok (\<lambda>f. ef_reserved f = 0) ?es" "pred_option (session_node_ok X) ?n"
    using assms(2) by (simp_all add: message_ok_def)
  obtain l :: u16 and t where n: "put_node_id ?n = to_be_bytes l @ t" "length t = unat l"
      "\<And>src r. node_id_decode X src (unat l) (t @ r) = Got (?n, r)"
    using node_id_put [OF assms(1) ok(2)] by metis
  let ?x = "concat (map (put_extension session_extension_flags_into) ?es)"
  have enc: "session_init_encode m [] = message_type_byte SESS_INIT # to_be_bytes (si_keepalive_interval m) @
      to_be_bytes (si_segment_mru m) @ to_be_bytes (si_transfer_mru m) @ to_be_bytes l @ t @
      to_be_bytes (ext_byte_length ?es) @ ?x"
    by (simp add: session_init_encode_def put_extensions_def n(1))
  have a: "advance (25 + unat l + length ?x) (session_init_encode m [] @ rest) = Got rest"
    by (rule advance_append) (simp add: enc n(2))
  have m: "\<lparr>si_keepalive_interval = si_keepalive_interval m, si_segment_mru = si_segment_mru m,
      si_transfer_mru = si_transfer_mru m, si_node_id = ?n, si_session_extensions = ?es\<rparr> = m"
    by (cases m) simp
  show ?thesis
    using n(2,3) put_extensions_decode [OF ok(1) flags_round_trip(2)] a
    by (simp add: session_init_decode_def enc m del: length_concat)
qed

lemma transfer_segment_round_trip:
  assumes "message_ok X (TransferSegment m)"
  shows "transfer_segment_decode (transfer_segment_encode m [] @ rest) = Got (TransferSegment m, rest)"
proof -
  let ?f = "ts_message_flags m" and ?es = "ts_transfer_extensions m" and ?d = "ts_data m"
  define e where "e = (if sf_start ?f then put_extensions transfer_extension_flags_into ?es else [])"
  have f: "segment_flags_from (segment_flags_into ?f) = ?f"
    using assms by (simp add: message_ok_def segment_flags_round_trip)
  have d: "unat (of_nat (length ?d) :: u64) = length ?d"
    using assms by (simp add: message_ok_def usize_max_def unat_of_nat)
  have enc: "transfer_segment_encode m [] = [message_type_byte XFER_SEGMENT, segment_flags_into ?f] @
      to_be_bytes (ts_transfer_id m) @ e @ to_be_bytes (of_nat (length ?d) :: u64) @ ?d"
    by (simp add: transfer_segment_encode_def e_def)
  have x: "transfer_extensions_decode src (sf_start ?f) (e @ r) = Got (?es, 10 + length e, r)" for src r
    using assms put_extensions_decode [where flags_ok = extension_flags_ok and es = ?es and src = src and rest = r and c = "10 + 4", OF _ flags_round_trip(1)]
    by (auto simp: message_ok_def transfer_extensions_decode_def e_def put_extensions_def)
  have m: "\<lparr>ts_message_flags = ?f, ts_transfer_id = ts_transfer_id m, ts_transfer_extensions = ?es, ts_data = ?d\<rparr> = m"
    by (cases m) simp
  let ?h = "[message_type_byte XFER_SEGMENT, segment_flags_into ?f] @ to_be_bytes (ts_transfer_id m) @ e @
    to_be_bytes (of_nat (length ?d) :: u64)"
  have "split_to (10 + length e + 8) (?h @ ?d @ rest) = Got (?h, ?d @ rest)"
    by (rule split_to_append) simp
  then show ?thesis
    using f d x by (simp add: transfer_segment_decode_def enc Let_def m)
qed

lemma small_round_trip:
  "message_ok X (SessionTerm a) \<Longrightarrow> session_term_decode (session_term_encode a [] @ rest) = Got (SessionTerm a, rest)"
  "message_ok X (TransferRefuse b) \<Longrightarrow> transfer_refuse_decode (transfer_refuse_encode b [] @ rest) = Got (TransferRefuse b, rest)"
  "message_ok X (TransferAck c) \<Longrightarrow> transfer_ack_decode (transfer_ack_encode c [] @ rest) = Got (TransferAck c, rest)"
  "message_ok X (Reject d) \<Longrightarrow> message_reject_decode (message_reject_encode d [] @ rest) = Got (Reject d, rest)"
  by (auto simp: message_ok_def session_term_decode_def session_term_encode_def transfer_refuse_decode_def
      transfer_refuse_encode_def transfer_ack_decode_def transfer_ack_encode_def message_reject_decode_def
      message_reject_encode_def flags_round_trip segment_flags_round_trip reasons_round_trip message_type_try_from_def
      message_type_byte_def)

lemma decode_by_type:
  assumes "src = message_type_byte t # bs"
  shows "decode X src =
    (case t of
       XFER_SEGMENT \<Rightarrow> transfer_segment_decode src | XFER_ACK \<Rightarrow> transfer_ack_decode src
     | XFER_REFUSE \<Rightarrow> transfer_refuse_decode src | KEEPALIVE \<Rightarrow> Got (Keepalive, bs)
     | SESS_TERM \<Rightarrow> session_term_decode src | MSG_REJECT \<Rightarrow> message_reject_decode src
     | SESS_INIT \<Rightarrow> session_init_decode X src)"
proof -
  have "message_type_try_from (message_type_byte t) = Inr t"
    by (cases t) (simp_all add: message_type_byte_def message_type_try_from_def)
  then show ?thesis unfolding assms by (cases t) (simp_all add: decode_def)
qed

lemma encode_type: "\<exists>bs. encode m [] = message_type_byte (message_type m) # bs"
  by (cases m) (simp_all add: encode_def message_type_def session_init_encode_def session_term_encode_def
      transfer_refuse_encode_def transfer_ack_encode_def message_reject_encode_def transfer_segment_encode_def)

lemma decode_encode:
  assumes "text_spec X" and "message_ok X m"
  shows "decode X (encode m [] @ rest) = Got (m, rest)"
proof -
  obtain bs where b: "encode m [] = message_type_byte (message_type m) # bs" using encode_type by blast
  then have s: "encode m [] @ rest = message_type_byte (message_type m) # bs @ rest" by simp
  have k: "m = Keepalive \<Longrightarrow> bs = []" using b by (simp add: encode_def)
  show ?thesis
    unfolding decode_by_type [OF s, of X]
    using assms k by (cases m) (simp_all add: message_type_def encode_def small_round_trip session_init_round_trip
        transfer_segment_round_trip)
qed

section \<open>Streams\<close>

text \<open>The transport keeps the bytes it has received and calls the decoder until it asks for more:
  the messages so far and how it stands. A decoder that took nothing off the buffer would be called
  for ever.\<close>

datatype stream_end = Waiting bytes | Failed codec_error | Panicked

function drain :: "(bytes \<Rightarrow> ('m \<times> bytes) decoding) \<Rightarrow> bytes \<Rightarrow> 'm list \<times> stream_end" where
  "drain dec src =
    (case dec src of
       Got (m, rest) \<Rightarrow> if length rest < length src then apfst ((#) m) (drain dec rest) else ([], Panicked)
     | Incomplete \<Rightarrow> ([], Waiting src)
     | Fail e _ \<Rightarrow> ([], Failed e)
     | Panic \<Rightarrow> ([], Panicked))"
  by pat_completeness auto
termination by (relation "measure (\<lambda>(_, src). length src)") auto

declare drain.simps [simp del]

fun feed :: "(bytes \<Rightarrow> ('m \<times> bytes) decoding) \<Rightarrow> bytes \<Rightarrow> bytes list \<Rightarrow> 'm list \<times> stream_end" where
  "feed dec buf [] = ([], Waiting buf)"
| "feed dec buf (r # rs) =
    (case drain dec (buf @ r) of
       (ms, Waiting buf) \<Rightarrow> apfst ((@) ms) (feed dec buf rs)
     | (ms, e) \<Rightarrow> (ms, e))"

lemma apfst_append: "apfst ((#) m) (apfst ((@) a) p) = apfst ((@) (m # a)) p" "apfst ((@) []) p = p"
  by (cases p; simp)+

text \<open>What the transport relies on: the decoder makes progress without panicking, and more bytes behind
  do not change its answer.\<close>

locale framed_decoder =
  fixes dec :: "bytes \<Rightarrow> ('m \<times> bytes) decoding"
  assumes dec_takes_off: "takes_off src (dec src)"
    and dec_grows: "grows q (same_then q) (dec src) (dec (src @ q))"
begin

lemma drain_Got: "dec src = Got (m, rest) \<Longrightarrow> drain dec src = apfst ((#) m) (drain dec rest)"
  using dec_takes_off [of src] by (simp add: drain.simps [of _ src])

lemma drain_not_panicked: "snd (drain dec src) \<noteq> Panicked"
proof (induction src rule: length_induct)
  case (1 src)
  then show ?case
    using dec_takes_off [of src] by (subst drain.simps) (auto split: decoding.split)
qed

lemma drain_waiting: "drain dec src = (ms, Waiting b) \<Longrightarrow> dec b = Incomplete"
proof (induction src arbitrary: ms rule: length_induct)
  case (1 src)
  show ?case
  proof (cases "dec src")
    case (Got x)
    then obtain m rest where x: "dec src = Got (m, rest)" "length rest < length src"
      using dec_takes_off [of src] by (cases x) auto
    then obtain ns where "drain dec rest = (ns, Waiting b)"
      using 1(2) drain_Got [OF x(1)] by (cases "drain dec rest") auto
    then show ?thesis using 1(1) x(2) by blast
  qed (use 1(2) in \<open>simp_all add: drain.simps [of _ src]\<close>)
qed

lemma drain_append:
  "drain dec (src @ q) =
    (case drain dec src of (ms, Waiting b) \<Rightarrow> apfst ((@) ms) (drain dec (b @ q)) | (ms, e) \<Rightarrow> (ms, e))"
proof (induction src rule: length_induct)
  case (1 src)
  note g = dec_grows [of q src]
  show ?case
  proof (cases "dec src")
    case Panic
    then show ?thesis using dec_takes_off [of src] by simp
  next
    case (Fail e s)
    then show ?thesis using g by (simp add: drain.simps [of _ src] drain.simps [of _ "src @ q"])
  next
    case Incomplete
    then show ?thesis by (simp add: drain.simps [of _ src] apfst_append)
  next
    case (Got x)
    then obtain m rest where x: "dec src = Got (m, rest)" "length rest < length src"
      using dec_takes_off [of src] by (cases x) auto
    then have "drain dec (src @ q) = apfst ((#) m) (drain dec (rest @ q))"
      using g by (intro drain_Got) (auto simp: same_then_def)
    then show ?thesis
      using 1 x drain_Got [OF x(1)] by (cases "drain dec rest") (auto simp: apfst_append split: stream_end.split)
  qed
qed

text \<open>However the bytes are cut into runs, the transport yields the same.\<close>

lemma feed_drain: "dec buf = Incomplete \<Longrightarrow> feed dec buf rs = drain dec (buf @ concat rs)"
proof (induction rs arbitrary: buf)
  case Nil
  then show ?case by (simp add: drain.simps)
next
  case (Cons r rs)
  have "drain dec (buf @ concat (r # rs)) = drain dec ((buf @ r) @ concat rs)" by simp
  then show ?case
    unfolding drain_append [of "buf @ r"] using Cons.IH drain_waiting [of "buf @ r"]
    by (cases "drain dec (buf @ r)") (auto split: stream_end.split)
qed

lemma drain_encoded:
  assumes "\<And>m rest. P m \<Longrightarrow> dec (enc m @ rest) = Got (m, rest)" and "dec [] = Incomplete" and "list_all P ms"
  shows "drain dec (concat (map enc ms)) = (ms, Waiting [])"
  using assms(3)
proof (induction ms)
  case Nil
  then show ?case using assms(2) by (simp add: drain.simps)
next
  case (Cons m ms)
  then show ?case using drain_Got [OF assms(1), of m "concat (map enc ms)"] by simp
qed

end

interpretation message_stream: framed_decoder "decode X"
  by unfold_locales (rule decode_takes_off decode_grows)+

lemma encode_append: "encode m dst = dst @ encode m []"
  by (cases m) (simp_all add: encode_def session_init_encode_def session_term_encode_def transfer_refuse_encode_def
      transfer_ack_encode_def message_reject_encode_def transfer_segment_encode_def)

lemma encode_all: "fold encode ms dst = dst @ concat (map (\<lambda>m. encode m []) ms)"
proof (induction ms arbitrary: dst)
  case (Cons m ms)
  then show ?case by (simp add: encode_append [of m dst])
qed simp

end
