(* ===== verification/Tcpcl_Session.thy ===== *)
theory Tcpcl_Session
  imports Tcpcl_Codec
begin

text \<open>
  A session of the TCP convergence layer, \<^verbatim>\<open>tcpclv4/src/session.rs\<close>: reassembly of incoming
  transfers, segmentation and acknowledgement of outgoing ones, and the two ways of ending a session.

  The session waits for its peer, for room in the writer and for bundles to send. What it waits
  for arrives as a list of events, taken in the order in which the session takes them; a run that
  has used up its events is blocked. An event that makes the session write or queue something
  carries the answer of the writer and of the ingest queue. What the session does to the outside
  is the list of its outputs. Waiting for a permit to dispatch only delays a step.
\<close>

section \<open>Errors\<close>

datatype session_error =
  PeerHangup | PeerTimeout | ShuttingDown | InvalidProtocol | PeerTerminated SessionTermMessage
  | LocalShutdown SessionTermReasonCode | WriterClosed | IngestStopped | SessionIo io_error | SessionCodec codec_error

datatype send_error = SendClosed | SendTransport codec_error

definition session_of_codec :: "codec_error \<Rightarrow> session_error" where
  "session_of_codec e = (case e of CodecIo e \<Rightarrow> SessionIo e | e \<Rightarrow> SessionCodec e)"

definition session_of_send :: "send_error \<Rightarrow> session_error" where
  "session_of_send e = (case e of SendClosed \<Rightarrow> WriterClosed | SendTransport e \<Rightarrow> session_of_codec e)"

section \<open>The session\<close>

record XferAck =
  xa_flags :: TransferSegmentMessageFlags
  xa_transfer_id :: u64
  xa_acknowledged_length :: nat

datatype SendState = Continue | Refused TransferRefuseReasonCode

datatype Ingest = IngestAck TransferAckMessage | IngestDispatch bytes TransferAckMessage

record Session =
  ss_keepalive_interval :: "u16 option"
  ss_segment_mtu :: nat
  ss_transfer_mru :: nat
  ss_transfer_id :: u64
  ss_acks :: "XferAck list"
  ss_ingress_bundle :: "bytes option"
  ss_refusing :: "u64 option"

definition session_new :: "u16 option \<Rightarrow> nat \<Rightarrow> nat \<Rightarrow> Session" where
  "session_new keepalive_interval segment_mtu transfer_mru =
    \<lparr>ss_keepalive_interval = keepalive_interval, ss_segment_mtu = segment_mtu, ss_transfer_mru = transfer_mru,
     ss_transfer_id = 0, ss_acks = [], ss_ingress_bundle = None, ss_refusing = None\<rparr>"

text \<open>What the session does: a message sent and flushed, a message fed to the writer, work for the
  ingest task, a transfer reported complete to the caller.\<close>

datatype effect = Sent Message | Fed Message | Queued Ingest | ReportedCompleted

text \<open>How the writer and the ingest queue answer.\<close>

record answers =
  an_send :: "send_error option"
  an_ingest :: bool

type_synonym 'a handled = "(session_error + 'a) \<times> Session \<times> effect list"

definition writer_send :: "answers \<Rightarrow> Message \<Rightarrow> Session \<Rightarrow> unit handled" where
  "writer_send w m S = (case an_send w of None \<Rightarrow> (Inr (), S, [Sent m]) | Some e \<Rightarrow> (Inl (session_of_send e), S, []))"

definition reject_msg :: "answers \<Rightarrow> MessageRejectionReasonCode \<Rightarrow> u8 \<Rightarrow> Session \<Rightarrow> unit handled" where
  "reject_msg w reason_code rejected_message S =
    writer_send w (Reject \<lparr>mr_reason_code = reason_code, mr_rejected_message = rejected_message\<rparr>) S"

definition unexpected_msg :: "answers \<Rightarrow> MessageType \<Rightarrow> Session \<Rightarrow> unit handled" where
  "unexpected_msg w t S = reject_msg w Unexpected (message_type_byte t) S"

section \<open>Incoming transfers\<close>

definition then_some :: "bool \<Rightarrow> 'a \<Rightarrow> 'a option" where
  "then_some b x = (if b then Some x else None)"

text \<open>The second half of \<^verbatim>\<open>on_transfer\<close>: a segment of the transfer that is being reassembled.\<close>

definition on_segment :: "answers \<Rightarrow> TransferSegmentMessage \<Rightarrow> Session \<Rightarrow> unit handled" where
  "on_segment w msg S =
    (case ss_ingress_bundle S of
       None \<Rightarrow> unexpected_msg w XFER_SEGMENT S
     | Some bundle \<Rightarrow>
         if length (ts_data msg) + length bundle > ss_transfer_mru S then
           writer_send w (TransferRefuse \<lparr>tr_reason_code = NotAcceptable, tr_transfer_id = ts_transfer_id msg\<rparr>)
             (S\<lparr>ss_ingress_bundle := None,
                ss_refusing := then_some (\<not> sf_end (ts_message_flags msg)) (ts_transfer_id msg)\<rparr>)
         else
           let bundle = bundle @ ts_data msg;
               ack = \<lparr>ta_message_flags = ts_message_flags msg, ta_transfer_id = ts_transfer_id msg,
                      ta_acknowledged_length = of_nat (length bundle)\<rparr>;
               (S, item) = (if sf_end (ts_message_flags msg) then (S\<lparr>ss_ingress_bundle := None\<rparr>, IngestDispatch bundle ack)
                            else (S\<lparr>ss_ingress_bundle := Some bundle\<rparr>, IngestAck ack))
           in if an_ingest w then (Inr (), S, [Queued item]) else (Inl IngestStopped, S, []))"

definition on_transfer :: "answers \<Rightarrow> TransferSegmentMessage \<Rightarrow> Session \<Rightarrow> unit handled" where
  "on_transfer w msg S =
    (if sf_start (ts_message_flags msg) then
       if ss_ingress_bundle S \<noteq> None then
         unexpected_msg w XFER_SEGMENT
           (S\<lparr>ss_ingress_bundle := None,
              ss_refusing := then_some (\<not> sf_end (ts_message_flags msg)) (ts_transfer_id msg)\<rparr>)
       else on_segment w msg (S\<lparr>ss_refusing := None, ss_ingress_bundle := Some []\<rparr>)
     else if ss_refusing S = Some (ts_transfer_id msg) then
       (Inr (), if sf_end (ts_message_flags msg) then S\<lparr>ss_refusing := None\<rparr> else S, [])
     else on_segment w msg S)"

text \<open>The ingest task: acknowledgements go to the writer in the order of the queue, a completed bundle
  is dispatched first. The task stops when the dispatch fails or the writer has closed.\<close>

datatype acceptance = Accepted | RefusedBundle | DispatchFailed

fun run_ingest :: "(bytes \<Rightarrow> acceptance) \<Rightarrow> (Message \<Rightarrow> bool) \<Rightarrow> Ingest list \<Rightarrow> Message list \<times> bytes list \<times> bool" where
  "run_ingest sink open [] = ([], [], True)"
| "run_ingest sink open (IngestAck ack # items) =
    (if open (TransferAck ack) then apfst ((#) (TransferAck ack)) (run_ingest sink open items) else ([], [], False))"
| "run_ingest sink open (IngestDispatch bundle ack # items) =
    (case sink bundle of
       Accepted \<Rightarrow>
         if open (TransferAck ack) then
           apfst ((#) (TransferAck ack)) (apsnd (apfst ((#) bundle)) (run_ingest sink open items))
         else ([], [bundle], False)
     | RefusedBundle \<Rightarrow>
         let refuse = TransferRefuse \<lparr>tr_reason_code = NotAcceptable, tr_transfer_id = ta_transfer_id ack\<rparr>
         in if open refuse then apfst ((#) refuse) (run_ingest sink open items) else ([], [], False)
     | DispatchFailed \<Rightarrow> ([], [], False))"

section \<open>Messages while sending\<close>

definition ack_matches :: "XferAck \<Rightarrow> TransferAckMessage \<Rightarrow> bool" where
  "ack_matches a m \<longleftrightarrow> xa_transfer_id a = ta_transfer_id m \<and> xa_flags a = ta_message_flags m \<and>
    of_nat (xa_acknowledged_length a) = ta_acknowledged_length m"

definition rejected_shutdown :: "unit handled \<Rightarrow> 'a handled" where
  "rejected_shutdown h = (case h of (Inl e, S, outs) \<Rightarrow> (Inl e, S, outs) | (Inr _, S, outs) \<Rightarrow> (Inl (LocalShutdown TermUnknown), S, outs))"

definition continue_after :: "unit handled \<Rightarrow> SendState handled" where
  "continue_after h = (case h of (Inl e, S, outs) \<Rightarrow> (Inl e, S, outs) | (Inr _, S, outs) \<Rightarrow> (Inr Continue, S, outs))"

definition on_peer_msg_while_sending :: "answers \<Rightarrow> Message \<Rightarrow> Session \<Rightarrow> SendState handled" where
  "on_peer_msg_while_sending w msg S =
    (case msg of
       SessionTerm m \<Rightarrow> (Inl (PeerTerminated m), S, [])
     | TransferSegment m \<Rightarrow> continue_after (on_transfer w m S)
     | TransferAck m \<Rightarrow>
         (case ss_acks S of
            a # acks \<Rightarrow>
              let S = S\<lparr>ss_acks := acks\<rparr>
              in if ack_matches a m then (Inr Continue, S, [])
                 else rejected_shutdown (reject_msg w Unexpected (message_type_byte XFER_ACK) S)
          | [] \<Rightarrow> rejected_shutdown (reject_msg w Unexpected (message_type_byte XFER_ACK) S))
     | TransferRefuse m \<Rightarrow>
         (case ss_acks S of
            a # _ \<Rightarrow>
              if xa_transfer_id a = tr_transfer_id m then
                (Inr (Refused (tr_reason_code m)),
                 S\<lparr>ss_acks := filter (\<lambda>a. xa_transfer_id a \<noteq> tr_transfer_id m) (ss_acks S)\<rparr>, [])
              else rejected_shutdown (reject_msg w Unexpected (message_type_byte XFER_REFUSE) S)
          | [] \<Rightarrow> rejected_shutdown (reject_msg w Unexpected (message_type_byte XFER_REFUSE) S))
     | m \<Rightarrow> continue_after (unexpected_msg w (message_type m) S))"

section \<open>Reading from the peer\<close>

text \<open>What the reader yields: a timeout of twice the keepalive interval, the end of the stream, or a
  message or an error.\<close>

datatype read_event = ReadTimeout | ReadNext "(codec_error + Message) option"

text \<open>One turn of \<^verbatim>\<open>next_msg\<close>; \<open>None\<close> goes round the loop again. Without a keepalive interval there is
  no timeout.\<close>

definition next_msg :: "u16 option \<Rightarrow> read_event \<Rightarrow> (session_error + Message) option" where
  "next_msg keepalive_interval r =
    (case r of
       ReadTimeout \<Rightarrow> (case keepalive_interval of Some _ \<Rightarrow> Some (Inl (LocalShutdown IdleTimeout)) | None \<Rightarrow> None)
     | ReadNext None \<Rightarrow> Some (Inl PeerHangup)
     | ReadNext (Some (Inl e)) \<Rightarrow> Some (Inl (session_of_codec e))
     | ReadNext (Some (Inr m)) \<Rightarrow>
         if keepalive_interval \<noteq> None \<and> m = Keepalive then None else Some (Inr m))"

text \<open>One turn of \<^verbatim>\<open>recv_from_peer\<close>: a message of unknown type is rejected and the loop goes on.\<close>

definition recv_from_peer :: "answers \<Rightarrow> read_event \<Rightarrow> Session \<Rightarrow> Message option handled" where
  "recv_from_peer w r S =
    (case next_msg (ss_keepalive_interval S) r of
       None \<Rightarrow> (Inr None, S, [])
     | Some (Inl (SessionCodec (InvalidMessageType b))) \<Rightarrow>
         (case reject_msg w UnknownType b S of
            (Inl e, S, outs) \<Rightarrow> (Inl e, S, outs)
          | (Inr _, S, outs) \<Rightarrow> (Inr None, S, outs))
     | Some (Inl e) \<Rightarrow> (Inl e, S, [])
     | Some (Inr m) \<Rightarrow> (Inr (Some m), S, []))"

text \<open>While a transfer is being sent: read, and match the acknowledgements.\<close>

definition read_while_sending :: "answers \<Rightarrow> read_event \<Rightarrow> Session \<Rightarrow> SendState handled" where
  "read_while_sending w r S =
    (case recv_from_peer w r S of
       (Inl e, S, outs) \<Rightarrow> (Inl e, S, outs)
     | (Inr None, S, outs) \<Rightarrow> (Inr Continue, S, outs)
     | (Inr (Some m), S, _) \<Rightarrow> on_peer_msg_while_sending w m S)"

section \<open>Outgoing transfers\<close>

datatype event = Read read_event answers | Permit bool

datatype 'a run = Blocked Session "effect list" | Returned "session_error + 'a" Session "effect list" "event list"

fun emitting :: "effect list \<Rightarrow> 'a run \<Rightarrow> 'a run" where
  "emitting outs (Blocked S outs') = Blocked S (outs @ outs')"
| "emitting outs (Returned r S outs' evs) = Returned r S (outs @ outs') evs"

fun run_then :: "'a run \<Rightarrow> ('a \<Rightarrow> Session \<Rightarrow> event list \<Rightarrow> 'b run) \<Rightarrow> 'b run" where
  "run_then (Blocked S outs) f = Blocked S outs"
| "run_then (Returned (Inl e) S outs evs) f = Returned (Inl e) S outs evs"
| "run_then (Returned (Inr a) S outs evs) f = emitting outs (f a S evs)"

text \<open>The loop that feeds a segment once the writer has room and reads from the peer until then. The
  result is the reason when the peer refuses the transfer.\<close>

fun feed_segment :: "Message \<Rightarrow> event list \<Rightarrow> Session \<Rightarrow> TransferRefuseReasonCode option run" where
  "feed_segment segment [] S = Blocked S []"
| "feed_segment segment (Permit room # evs) S =
    (if room then Returned (Inr None) S [Fed segment] evs else Returned (Inl WriterClosed) S [] evs)"
| "feed_segment segment (Read r w # evs) S =
    (case read_while_sending w r S of
       (Inl e, S, outs) \<Rightarrow> Returned (Inl e) S outs evs
     | (Inr Continue, S, outs) \<Rightarrow> emitting outs (feed_segment segment evs S)
     | (Inr (Refused reason), S, outs) \<Rightarrow> Returned (Inr (Some reason)) S outs evs)"

text \<open>Waiting for the acknowledgements that are outstanding; room in the writer matters to nobody.\<close>

fun wait_acks :: "event list \<Rightarrow> Session \<Rightarrow> TransferRefuseReasonCode option run" where
  "wait_acks [] S = (if ss_acks S = [] then Returned (Inr None) S [] [] else Blocked S [])"
| "wait_acks (Permit room # evs) S =
    (if ss_acks S = [] then Returned (Inr None) S [] (Permit room # evs) else wait_acks evs S)"
| "wait_acks (Read r w # evs) S =
    (if ss_acks S = [] then Returned (Inr None) S [] (Read r w # evs)
     else
       (case read_while_sending w r S of
          (Inl e, S, outs) \<Rightarrow> Returned (Inl e) S outs evs
        | (Inr Continue, S, outs) \<Rightarrow> emitting outs (wait_acks evs S)
        | (Inr (Refused reason), S, outs) \<Rightarrow> Returned (Inr (Some reason)) S outs evs))"

definition segment_message :: "u64 \<Rightarrow> TransferSegmentMessageFlags \<Rightarrow> bytes \<Rightarrow> TransferSegmentMessage" where
  "segment_message transfer_id flags d =
    \<lparr>ts_message_flags = flags, ts_transfer_id = transfer_id, ts_transfer_extensions = [], ts_data = d\<rparr>"

definition send_segment ::
  "u64 \<Rightarrow> nat \<Rightarrow> TransferSegmentMessageFlags \<Rightarrow> bytes \<Rightarrow> event list \<Rightarrow> Session \<Rightarrow> TransferRefuseReasonCode option run" where
  "send_segment transfer_id cumulative flags d evs S =
    (let S = S\<lparr>ss_acks := ss_acks S @
           [\<lparr>xa_flags = flags, xa_transfer_id = transfer_id, xa_acknowledged_length = cumulative\<rparr>]\<rparr>
     in run_then (feed_segment (TransferSegment (segment_message transfer_id flags d)) evs S) (\<lambda>refused S evs.
          if refused \<noteq> None \<or> \<not> sf_end flags then Returned (Inr refused) S [] evs else wait_acks evs S))"

definition segment_flags :: "bool \<Rightarrow> bool \<Rightarrow> TransferSegmentMessageFlags" where
  "segment_flags start e = \<lparr>sf_start = start, sf_end = e, sf_reserved = 0\<rparr>"

text \<open>Every event that is taken shortens the list, and a segment takes one.\<close>

fun run_events :: "'a run \<Rightarrow> event list" where
  "run_events (Blocked S outs) = []"
| "run_events (Returned r S outs evs) = evs"

lemma run_events_emitting [simp]: "run_events (emitting outs r) = run_events r"
  by (cases r) simp_all

lemma feed_segment_events: "evs \<noteq> [] \<Longrightarrow> length (run_events (feed_segment m evs S)) < length evs"
proof (induction m evs S rule: feed_segment.induct)
  case (3 m r w evs S)
  have "length (run_events (feed_segment m evs T)) \<le> length evs" if "read_while_sending w r S = (Inr Continue, T, os)" for T os
    using 3(1) [OF that [symmetric] refl refl refl] by (cases "evs = []") auto
  then show ?case by (auto simp: less_Suc_eq_le split: prod.split sum.split SendState.split)
qed simp_all

lemma wait_acks_events: "length (run_events (wait_acks evs S)) \<le> length evs"
proof (induction evs S rule: wait_acks.induct)
  case (3 r w evs S)
  then show ?case by (auto split: prod.split sum.split SendState.split intro: le_SucI)
qed (auto intro: le_SucI)

lemma send_segment_events:
  assumes "send_segment i n f d evs S = Returned (Inr r) S' outs evs'"
  shows "length evs' < length evs"
proof (cases evs)
  case Nil
  then show ?thesis using assms by (simp add: send_segment_def Let_def)
next
  case (Cons e es)
  define S2 where "S2 = S\<lparr>ss_acks := ss_acks S @ [\<lparr>xa_flags = f, xa_transfer_id = i, xa_acknowledged_length = n\<rparr>]\<rparr>"
  define m where "m = TransferSegment (segment_message i f d)"
  have lt: "length (run_events (feed_segment m evs S2)) < length evs"
    using feed_segment_events [of evs] Cons by simp
  have run: "run_then (feed_segment m evs S2) (\<lambda>refused S evs.
      if refused \<noteq> None \<or> \<not> sf_end f then Returned (Inr refused) S [] evs else wait_acks evs S) = Returned (Inr r) S' outs evs'"
    using assms by (simp add: send_segment_def S2_def m_def Let_def)
  show ?thesis
  proof (cases "feed_segment m evs S2")
    case (Blocked T os)
    then show ?thesis using run by simp
  next
    case (Returned x T os es')
    then obtain y where x: "x = Inr y" using run by (cases x) auto
    let ?k = "if y \<noteq> None \<or> \<not> sf_end f then Returned (Inr y) T [] es' else wait_acks es' T"
    have "emitting os ?k = Returned (Inr r) S' outs evs'" using run Returned x by simp
    then have "evs' = run_events ?k" using run_events_emitting [of os ?k] by simp
    then have "length evs' \<le> length es'" using wait_acks_events [of es' T] by auto
    then show ?thesis using lt Returned by simp
  qed
qed

lemma run_then_cong [fundef_cong]:
  "x = y \<Longrightarrow> (\<And>a S outs evs. y = Returned (Inr a) S outs evs \<Longrightarrow> f a S evs = g a S evs) \<Longrightarrow> run_then x f = run_then y g"
  by (cases "(y, f)" rule: run_then.cases) auto

text \<open>The segmentation loop of \<^verbatim>\<open>send_once\<close>.\<close>

function send_segments ::
  "u64 \<Rightarrow> bool \<Rightarrow> nat \<Rightarrow> bytes \<Rightarrow> event list \<Rightarrow> Session \<Rightarrow> TransferRefuseReasonCode option run" where
  "send_segments transfer_id start cumulative bundle evs S =
    (if length bundle > ss_segment_mtu S then
       let segment = take (ss_segment_mtu S) bundle;
           cumulative = cumulative + length segment
       in run_then (send_segment transfer_id cumulative (segment_flags start False) segment evs S) (\<lambda>refused S' evs.
            case refused of
              Some r \<Rightarrow> Returned (Inr (Some r)) S' [] evs
            | None \<Rightarrow> send_segments transfer_id False cumulative (drop (ss_segment_mtu S) bundle) evs S')
     else send_segment transfer_id (cumulative + length bundle) (segment_flags start True) bundle evs S)"
  by pat_completeness auto
termination
  by (relation "measure (\<lambda>(_, _, _, _, evs, _). length evs)") (auto dest: send_segment_events)

declare send_segments.simps [simp del]

definition send_once :: "bytes \<Rightarrow> event list \<Rightarrow> Session \<Rightarrow> TransferRefuseReasonCode option run" where
  "send_once bundle evs S =
    send_segments (ss_transfer_id S) True 0 bundle evs (S\<lparr>ss_transfer_id := ss_transfer_id S + 1\<rparr>)"

lemma send_segments_events:
  "send_segments i b n d evs S = Returned (Inr r) S' outs evs' \<Longrightarrow> length evs' < length evs"
proof (induction i b n d evs S arbitrary: r S' outs evs' rule: send_segments.induct)
  case (1 i b n d evs S)
  show ?case
  proof (cases "length d > ss_segment_mtu S")
    case False
    then show ?thesis using 1(2) send_segment_events by (simp add: send_segments.simps [of i b])
  next
    case True
    let ?d = "take (ss_segment_mtu S) d" and ?n = "n + length (take (ss_segment_mtu S) d)"
    let ?r = "send_segment i ?n (segment_flags b False) ?d evs S"
    let ?k = "\<lambda>x T es. case x of Some r \<Rightarrow> Returned (Inr (Some r)) T [] es
      | None \<Rightarrow> send_segments i False ?n (drop (ss_segment_mtu S) d) es T"
    have run: "run_then ?r ?k = Returned (Inr r) S' outs evs'"
      using 1(2) True by (simp add: send_segments.simps [of i b] Let_def)
    then obtain x T os es where x: "?r = Returned (Inr x) T os es"
      by (cases "(?r, ?k)" rule: run_then.cases) auto
    then have k: "emitting os (?k x T es) = Returned (Inr r) S' outs evs'" using run by simp
    have "length es < length evs" using x by (rule send_segment_events)
    moreover have "length evs' \<le> length es"
    proof (cases x)
      case None
      then obtain os' where "send_segments i False ?n (drop (ss_segment_mtu S) d) es T = Returned (Inr r) S' os' evs'"
        using k by (cases "send_segments i False ?n (drop (ss_segment_mtu S) d) es T") auto
      then show ?thesis using 1(1) [OF True refl refl x None] by auto
    next
      case (Some y)
      then show ?thesis using k by simp
    qed
    ultimately show ?thesis by simp
  qed
qed

text \<open>\<^verbatim>\<open>forward_to_peer\<close>: a transfer the peer asks to have retransmitted is sent again under a new
  identifier.\<close>

function resend :: "bytes \<Rightarrow> event list \<Rightarrow> Session \<Rightarrow> unit run" where
  "resend bundle evs S =
    run_then (send_once bundle evs S) (\<lambda>refused S evs.
      case refused of
        None \<Rightarrow> Returned (Inr ()) S [ReportedCompleted] evs
      | Some reason \<Rightarrow>
          (case reason of
             Completed \<Rightarrow> Returned (Inr ()) S [ReportedCompleted] evs
           | Retransmit \<Rightarrow> resend bundle evs S
           | NoResources \<Rightarrow> Returned (Inl (LocalShutdown ResourceExhaustion)) S [] evs
           | _ \<Rightarrow> Returned (Inl (LocalShutdown TermUnknown)) S [] evs))"
  by pat_completeness auto
termination
  by (relation "measure (\<lambda>(_, evs, _). length evs)") (auto simp: send_once_def dest: send_segments_events)

declare resend.simps [simp del]

definition forward_to_peer :: "bytes \<Rightarrow> event list \<Rightarrow> Session \<Rightarrow> unit run" where
  "forward_to_peer bundle evs S =
    (if ss_transfer_id S = - 1 then Returned (Inl (LocalShutdown ResourceExhaustion)) S [] evs else resend bundle evs S)"

section \<open>The main loop\<close>

text \<open>What the main loop selects: cancellation (of the whole convergence layer or of this session by
  its ingest task), a bundle to send or the end of those, or something from the peer. \<open>answers\<close>
  are those of the handler that runs then.\<close>

datatype choice = Cancelled bool | FromSink "bytes option" | FromPeer read_event

definition on_message :: "answers \<Rightarrow> session_error + Message \<Rightarrow> Session \<Rightarrow> unit handled" where
  "on_message w msg S =
    (case msg of
       Inr (TransferSegment m) \<Rightarrow> on_transfer w m S
     | Inr (SessionTerm m) \<Rightarrow> (Inl (PeerTerminated m), S, [])
     | Inr m \<Rightarrow> unexpected_msg w (message_type m) S
     | Inl (SessionCodec (InvalidMessageType b)) \<Rightarrow> reject_msg w UnknownType b S
     | Inl e \<Rightarrow> (Inl e, S, []))"

definition returned :: "'a handled \<Rightarrow> event list \<Rightarrow> 'a run" where
  "returned h evs = (case h of (r, S, outs) \<Rightarrow> Returned r S outs evs)"

fun catching :: "unit run \<Rightarrow> (session_error \<Rightarrow> Session \<Rightarrow> event list \<Rightarrow> unit run) \<Rightarrow> unit run" where
  "catching (Returned (Inl e) S outs evs) f = emitting outs (f e S evs)"
| "catching r f = r"

text \<open>One turn; it ends the loop with an error. The events are those of a transfer that is sent in
  this turn.\<close>

definition session_turn :: "answers \<Rightarrow> choice \<Rightarrow> event list \<Rightarrow> Session \<Rightarrow> unit run" where
  "session_turn w c evs S =
    (case c of
       Cancelled whole \<Rightarrow>
         returned (on_message w (Inl (if whole then LocalShutdown TermUnknown else IngestStopped)) S) evs
     | FromSink None \<Rightarrow> returned (on_message w (Inl (LocalShutdown TermUnknown)) S) evs
     | FromSink (Some bundle) \<Rightarrow>
         catching (forward_to_peer bundle evs S) (\<lambda>e S evs. returned (on_message w (Inl e) S) evs)
     | FromPeer r \<Rightarrow>
         (case next_msg (ss_keepalive_interval S) r of
            None \<Rightarrow> Returned (Inr ()) S [] evs
          | Some msg \<Rightarrow> returned (on_message w msg S) evs))"

section \<open>Ending a session\<close>

datatype teardown = OnTerminate SessionTermMessage | Shutdown SessionTermReasonCode | JustClose

definition teardown_of :: "session_error \<Rightarrow> teardown" where
  "teardown_of e =
    (case e of
       PeerTerminated m \<Rightarrow> OnTerminate m
     | LocalShutdown reason \<Rightarrow> Shutdown reason
     | WriterClosed \<Rightarrow> JustClose
     | IngestStopped \<Rightarrow> Shutdown ResourceExhaustion
     | SessionIo _ \<Rightarrow> JustClose
     | SessionCodec _ \<Rightarrow> Shutdown TermUnknown
     | PeerHangup \<Rightarrow> JustClose
     | PeerTimeout \<Rightarrow> Shutdown TermUnknown
     | ShuttingDown \<Rightarrow> Shutdown TermUnknown
     | InvalidProtocol \<Rightarrow> Shutdown TermUnknown)"

text \<open>After its own SESS_TERM the session goes on reading until the peer's SESS_TERM, an error or a
  cancellation (\<open>None\<close>). The result says whether it has ended.\<close>

definition shutdown_msg :: "answers \<Rightarrow> Message \<Rightarrow> Session \<Rightarrow> unit handled" where
  "shutdown_msg w msg S =
    (case msg of TransferSegment m \<Rightarrow> on_transfer w m S | m \<Rightarrow> unexpected_msg w (message_type m) S)"

fun shutdown_loop :: "(read_event \<times> answers) option list \<Rightarrow> Session \<Rightarrow> bool \<times> Session \<times> effect list" where
  "shutdown_loop [] S = (False, S, [])"
| "shutdown_loop (None # evs) S = (True, S, [])"
| "shutdown_loop (Some (r, w) # evs) S =
    (case recv_from_peer w r S of
       (Inl _, S, outs) \<Rightarrow> (True, S, outs)
     | (Inr None, S, outs) \<Rightarrow> apsnd (apsnd ((@) outs)) (shutdown_loop evs S)
     | (Inr (Some (SessionTerm _)), S, outs) \<Rightarrow> (True, S, outs)
     | (Inr (Some m), S, outs) \<Rightarrow>
         (case shutdown_msg w m S of
            (Inl _, S, outs') \<Rightarrow> (True, S, outs @ outs')
          | (Inr _, S, outs') \<Rightarrow> apsnd (apsnd ((@) (outs @ outs'))) (shutdown_loop evs S)))"

definition shutdown ::
  "bool \<Rightarrow> SessionTermReasonCode \<Rightarrow> answers \<Rightarrow> (read_event \<times> answers) option list \<Rightarrow> Session \<Rightarrow>
   bool \<times> Session \<times> effect list" where
  "shutdown cla_cancelled reason w evs S =
    (if cla_cancelled then (True, S, [])
     else
       (case writer_send w (SessionTerm \<lparr>st_message_flags = \<lparr>tf_reply = False, tf_reserved = 0\<rparr>, st_reason_code = reason\<rparr>) S of
          (Inl _, S, outs) \<Rightarrow> (True, S, outs)
        | (Inr _, S, outs) \<Rightarrow> apsnd (apsnd ((@) outs)) (shutdown_loop evs S)))"

text \<open>Answering the peer's SESS_TERM: the session waits for its outstanding acknowledgements and
  refuses new transfers.\<close>

definition terminate_msg :: "answers \<Rightarrow> Message \<Rightarrow> Session \<Rightarrow> unit handled" where
  "terminate_msg w msg S =
    (case msg of
       TransferSegment m \<Rightarrow>
         if sf_start (ts_message_flags m) then
           writer_send w (TransferRefuse \<lparr>tr_reason_code = SessionTerminating, tr_transfer_id = ts_transfer_id m\<rparr>) S
         else on_transfer w m S
     | m \<Rightarrow> unexpected_msg w (message_type m) S)"

fun terminate_loop :: "(read_event \<times> answers) list \<Rightarrow> Session \<Rightarrow> bool \<times> Session \<times> effect list" where
  "terminate_loop [] S = (ss_acks S = [], S, [])"
| "terminate_loop ((r, w) # evs) S =
    (if ss_acks S = [] then (True, S, [])
     else
       (case recv_from_peer w r S of
          (Inl _, S, outs) \<Rightarrow> (True, S, outs)
        | (Inr None, S, outs) \<Rightarrow> apsnd (apsnd ((@) outs)) (terminate_loop evs S)
        | (Inr (Some m), S, outs) \<Rightarrow>
            (case terminate_msg w m S of
               (Inl _, S, outs') \<Rightarrow> (True, S, outs @ outs')
             | (Inr _, S, outs') \<Rightarrow> apsnd (apsnd ((@) (outs @ outs'))) (terminate_loop evs S))))"

definition on_terminate ::
  "SessionTermMessage \<Rightarrow> answers \<Rightarrow> (read_event \<times> answers) list \<Rightarrow> Session \<Rightarrow> bool \<times> Session \<times> effect list" where
  "on_terminate msg w evs S =
    (case writer_send w (SessionTerm (msg\<lparr>st_message_flags := (st_message_flags msg)\<lparr>tf_reply := True\<rparr>\<rparr>)) S of
       (Inl _, S, outs) \<Rightarrow> (True, S, outs)
     | (Inr _, S, outs) \<Rightarrow> apsnd (apsnd ((@) outs)) (terminate_loop evs S))"

end
