(* ===== verification/Tcpcl_Session_Laws.thy ===== *)
theory Tcpcl_Session_Laws
  imports Tcpcl_Session
begin

text \<open>
  Laws of the transfers of a session. A reference cuts a bundle into chunks and says which segments
  and acknowledgements they make. A sender that completes has fed exactly those segments and has
  read exactly those acknowledgements, whatever else the peer sent and however it was interleaved; a
  receiver that is handed those segments queues the bundle and those acknowledgements. A receiver
  that is handed anything dispatches only what one contiguous run of segments holds.
\<close>

section \<open>The reference\<close>

function chunks :: "nat \<Rightarrow> bytes \<Rightarrow> bytes list" where
  "chunks n b = (if n = 0 \<or> length b \<le> n then [b] else take n b # chunks n (drop n b))"
  by pat_completeness auto
termination by (relation "measure (\<lambda>(_, b). length b)") auto

declare chunks.simps [simp del]

fun segments :: "u64 \<Rightarrow> bool \<Rightarrow> bytes list \<Rightarrow> TransferSegmentMessage list" where
  "segments i start [] = []"
| "segments i start [c] = [segment_message i (segment_flags start True) c]"
| "segments i start (c # cs) = segment_message i (segment_flags start False) c # segments i False cs"

fun expected :: "u64 \<Rightarrow> bool \<Rightarrow> nat \<Rightarrow> bytes list \<Rightarrow> XferAck list" where
  "expected i start n [] = []"
| "expected i start n [c] =
    [\<lparr>xa_flags = segment_flags start True, xa_transfer_id = i, xa_acknowledged_length = n + length c\<rparr>]"
| "expected i start n (c # cs) =
    \<lparr>xa_flags = segment_flags start False, xa_transfer_id = i, xa_acknowledged_length = n + length c\<rparr> #
    expected i False (n + length c) cs"

definition ack_message :: "XferAck \<Rightarrow> TransferAckMessage" where
  "ack_message a = \<lparr>ta_message_flags = xa_flags a, ta_transfer_id = xa_transfer_id a,
    ta_acknowledged_length = of_nat (xa_acknowledged_length a)\<rparr>"

lemma chunks_not_Nil [simp]: "chunks n b \<noteq> []"
  by (simp add: chunks.simps [of n b])

lemma concat_chunks [simp]: "concat (chunks n b) = b"
  by (induction n b rule: chunks.induct) (simp add: chunks.simps)

lemma chunks_more: "n \<noteq> 0 \<Longrightarrow> n < length b \<Longrightarrow> chunks n b = take n b # chunks n (drop n b)"
  by (simp add: chunks.simps [of n b])

lemma chunks_last: "length b \<le> n \<Longrightarrow> chunks n b = [b]"
  by (simp add: chunks.simps [of n b])

lemma segments_more: "cs \<noteq> [] \<Longrightarrow> segments i s (c # cs) = segment_message i (segment_flags s False) c # segments i False cs"
  by (cases cs) simp_all

lemma expected_more:
  "cs \<noteq> [] \<Longrightarrow> expected i s n (c # cs) =
    \<lparr>xa_flags = segment_flags s False, xa_transfer_id = i, xa_acknowledged_length = n + length c\<rparr> # expected i False (n + length c) cs"
  by (cases cs) simp_all

lemma ack_matches_message: "ack_matches a m \<longleftrightarrow> m = ack_message a"
  by (cases m) (auto simp: ack_matches_def ack_message_def)

lemma list_all2_ack_matches: "list_all2 ack_matches as ms \<longleftrightarrow> ms = map ack_message as"
  by (induction as arbitrary: ms) (auto simp: list_all2_Cons1 ack_matches_message)

section \<open>What a sender has seen\<close>

definition fed_messages :: "effect list \<Rightarrow> Message list" where
  "fed_messages outs = List.map_filter (\<lambda>x. case x of Fed m \<Rightarrow> Some m | _ \<Rightarrow> None) outs"

fun acks_read :: "event list \<Rightarrow> TransferAckMessage list" where
  "acks_read [] = []"
| "acks_read (Read (ReadNext (Some (Inr (TransferAck m)))) w # evs) = m # acks_read evs"
| "acks_read (_ # evs) = acks_read evs"

lemma fed_messages_simps [simp]:
  "fed_messages [] = []" "fed_messages (a @ b) = fed_messages a @ fed_messages b"
  "fed_messages (Fed m # outs) = m # fed_messages outs" "fed_messages (Sent m # outs) = fed_messages outs"
  "fed_messages (Queued i # outs) = fed_messages outs"
  by (simp_all add: fed_messages_def map_filter_def)

lemma acks_read_append [simp]: "acks_read (a @ b) = acks_read a @ acks_read b"
  by (induction a rule: acks_read.induct) simp_all

text \<open>The acknowledgements that were read took a front part of the queue.\<close>

definition acked :: "XferAck list \<Rightarrow> TransferAckMessage list \<Rightarrow> XferAck list \<Rightarrow> bool" where
  "acked as ms as' \<longleftrightarrow> (\<exists>pre. as = pre @ as' \<and> ms = map ack_message pre)"

lemma acked_Nil [simp]: "acked as [] as' \<longleftrightarrow> as = as'" "acked as ms [] \<longleftrightarrow> ms = map ack_message as"
  by (auto simp: acked_def)

lemma acked_trans: "acked as ms (bs) \<Longrightarrow> acked (bs @ x) ns cs \<Longrightarrow> acked (as @ x) (ms @ ns) cs"
  by (force simp: acked_def)

definition same_setup :: "Session \<Rightarrow> Session \<Rightarrow> bool" where
  "same_setup S S' \<longleftrightarrow> ss_segment_mtu S' = ss_segment_mtu S \<and> ss_transfer_mru S' = ss_transfer_mru S \<and>
    ss_keepalive_interval S' = ss_keepalive_interval S \<and> ss_transfer_id S' = ss_transfer_id S"

lemma same_setup_refl [simp]: "same_setup S S"
  by (simp add: same_setup_def)

lemma same_setup_trans: "same_setup S T \<Longrightarrow> same_setup T U \<Longrightarrow> same_setup S U"
  by (simp add: same_setup_def)

lemma writer_send_keeps:
  assumes "writer_send w m S = (r, S', outs)"
  shows "S' = S \<and> fed_messages outs = []"
  using assms by (auto simp: writer_send_def split: option.splits)

lemma on_segment_keeps:
  assumes "on_segment w m S = (r, S', outs)"
  shows "same_setup S S' \<and> ss_acks S' = ss_acks S \<and> fed_messages outs = []"
  using assms
  by (auto simp: on_segment_def same_setup_def unexpected_msg_def reject_msg_def Let_def
      split: option.splits if_splits dest!: writer_send_keeps)

lemma on_transfer_keeps:
  assumes "on_transfer w m S = (r, S', outs)"
  shows "same_setup S S' \<and> ss_acks S' = ss_acks S \<and> fed_messages outs = []"
  using assms
  by (auto simp: on_transfer_def unexpected_msg_def reject_msg_def same_setup_def split: if_splits
      dest!: writer_send_keeps on_segment_keeps)

lemma on_peer_msg_continue:
  assumes "on_peer_msg_while_sending w m S = (Inr Continue, S', outs)"
  shows "same_setup S S' \<and> fed_messages outs = [] \<and>
    acked (ss_acks S) (case m of TransferAck a \<Rightarrow> [a] | _ \<Rightarrow> []) (ss_acks S')"
  using assms
  by (auto simp: on_peer_msg_while_sending_def same_setup_def continue_after_def rejected_shutdown_def unexpected_msg_def
      reject_msg_def acked_def ack_matches_message Let_def
      split: Message.splits list.splits if_splits sum.splits prod.splits
      dest!: writer_send_keeps on_transfer_keeps)

lemma recv_from_peer_keeps:
  assumes "recv_from_peer w r S = (x, S', outs)"
  shows "S' = S \<and> fed_messages outs = []"
  using assms
  by (auto simp: recv_from_peer_def reject_msg_def split: option.splits sum.splits session_error.splits codec_error.splits
      prod.splits dest!: writer_send_keeps)

lemma recv_from_peer_message:
  assumes "recv_from_peer w r S = (Inr x, S', outs)"
  shows "case x of Some m \<Rightarrow> r = ReadNext (Some (Inr m)) | None \<Rightarrow> \<forall>m. r \<noteq> ReadNext (Some (Inr (TransferAck m)))"
  using assms
  by (auto simp: recv_from_peer_def next_msg_def split: option.splits sum.splits session_error.splits codec_error.splits
      prod.splits read_event.splits if_splits)

lemma read_continue:
  assumes "read_while_sending w r S = (Inr Continue, S', outs)"
  shows "same_setup S S' \<and> fed_messages outs = [] \<and> acked (ss_acks S) (acks_read [Read r w]) (ss_acks S')"
proof -
  obtain x T os where x: "recv_from_peer w r S = (x, T, os)" by (cases "recv_from_peer w r S") auto
  then have T: "T = S" "fed_messages os = []" using recv_from_peer_keeps by auto
  show ?thesis
  proof (cases x)
    case (Inl e)
    then show ?thesis using assms x by (simp add: read_while_sending_def)
  next
    case (Inr y)
    note m = recv_from_peer_message [OF x [unfolded Inr]]
    show ?thesis
    proof (cases y)
      case None
      have "acks_read [Read r w] = []"
        using m None by (cases "[Read r w]" rule: acks_read.cases) auto
      then show ?thesis using assms x T Inr None by (simp add: read_while_sending_def)
    next
      case (Some msg)
      have "acks_read [Read r w] = (case msg of TransferAck a \<Rightarrow> [a] | _ \<Rightarrow> [])"
        using m Some by (simp split: Message.split)
      then show ?thesis
        using assms x T Inr Some on_peer_msg_continue [of w msg S S' outs] by (simp add: read_while_sending_def)
    qed
  qed
qed

lemma emitting_Returned:
  "emitting outs r = Returned x S os evs \<longleftrightarrow> (\<exists>os'. r = Returned x S os' evs \<and> os = outs @ os')"
  by (cases r) auto

lemma run_then_Returned:
  "run_then r f = Returned (Inr x) S os evs \<longleftrightarrow>
    (\<exists>a T os1 os2 es. r = Returned (Inr a) T os1 es \<and> f a T es = Returned (Inr x) S os2 evs \<and> os = os1 @ os2)"
  by (cases "(r, f)" rule: run_then.cases) (auto simp: emitting_Returned)

text \<open>\<open>progress S evs ms S' evs' outs\<close>: from \<open>S\<close> to \<open>S'\<close> the session took events off \<open>evs\<close>, fed \<open>ms\<close> and
  matched the acknowledgements among the events.\<close>

definition progress :: "Session \<Rightarrow> event list \<Rightarrow> Message list \<Rightarrow> Session \<Rightarrow> event list \<Rightarrow> effect list \<Rightarrow> bool" where
  "progress S evs ms S' evs' outs \<longleftrightarrow> same_setup S S' \<and> fed_messages outs = ms \<and>
    (\<exists>used. evs = used @ evs' \<and> acked (ss_acks S) (acks_read used) (ss_acks S'))"

lemma progress_refl: "progress S evs [] S evs []"
  by (simp add: progress_def)

lemma progress_read:
  assumes "read_while_sending w r S = (Inr Continue, T, os)" and "progress T evs ms S' evs' outs"
  shows "progress S (Read r w # evs) ms S' evs' (os @ outs)"
proof -
  obtain used where u: "evs = used @ evs'" "acked (ss_acks T) (acks_read used) (ss_acks S')"
    using assms(2) by (auto simp: progress_def)
  have "acks_read (Read r w # used) = acks_read [Read r w] @ acks_read used"
    using acks_read_append [of "[Read r w]" used] by simp
  then have "acked (ss_acks S) (acks_read (Read r w # used)) (ss_acks S')"
    using read_continue [OF assms(1)] acked_trans [of "ss_acks S" _ "ss_acks T" "[]"] u(2) by auto
  then show ?thesis
    using assms(2) read_continue [OF assms(1)] u(1) same_setup_trans
    by (auto simp: progress_def intro!: exI [of _ "Read r w # used"])
qed

lemma progress_permit: "progress S evs ms S' evs' outs \<Longrightarrow> progress S (Permit room # evs) ms S' evs' outs"
proof -
  assume p: "progress S evs ms S' evs' outs"
  then obtain used where "evs = used @ evs'" "acked (ss_acks S) (acks_read used) (ss_acks S')" by (auto simp: progress_def)
  then have "Permit room # evs = (Permit room # used) @ evs'" "acked (ss_acks S) (acks_read (Permit room # used)) (ss_acks S')"
    by simp_all
  then show ?thesis using p unfolding progress_def by blast
qed

lemma feed_segment_progress:
  "feed_segment m evs S = Returned (Inr None) S' outs evs' \<Longrightarrow> progress S evs [m] S' evs' outs"
proof (induction m evs S arbitrary: outs rule: feed_segment.induct)
  case (2 m room evs S)
  then show ?case by (auto simp: progress_def split: if_splits intro!: exI [of _ "[Permit True]"])
next
  case (3 m r w evs S)
  obtain T os where s: "read_while_sending w r S = (Inr Continue, T, os)" "emitting os (feed_segment m evs T) = Returned (Inr None) S' outs evs'"
    using 3(2) by (auto split: prod.splits sum.splits SendState.splits)
  then obtain os' where o': "feed_segment m evs T = Returned (Inr None) S' os' evs'" "outs = os @ os'"
    by (auto simp: emitting_Returned)
  show ?case using progress_read [OF s(1)] 3(1) [OF s(1) [symmetric] refl refl refl o'(1)] o'(2) by simp
qed simp

lemma wait_acks_progress:
  "wait_acks evs S = Returned (Inr None) S' outs evs' \<Longrightarrow> progress S evs [] S' evs' outs \<and> ss_acks S' = []"
proof (induction evs S arbitrary: outs rule: wait_acks.induct)
  case (1 S)
  then show ?case by (auto simp: progress_refl split: if_splits)
next
  case (2 room evs S)
  show ?case
  proof (cases "ss_acks S = []")
    case True
    then show ?thesis using 2(2) by (auto simp: progress_refl)
  next
    case False
    then show ?thesis using 2 progress_permit by auto
  qed
next
  case (3 r w evs S)
  show ?case
  proof (cases "ss_acks S = []")
    case True
    then show ?thesis using 3(2) by (auto simp: progress_refl)
  next
    case False
    obtain T os where s: "read_while_sending w r S = (Inr Continue, T, os)" "emitting os (wait_acks evs T) = Returned (Inr None) S' outs evs'"
      using 3(2) False by (auto split: prod.splits sum.splits SendState.splits)
    then obtain os' where o': "wait_acks evs T = Returned (Inr None) S' os' evs'" "outs = os @ os'"
      by (auto simp: emitting_Returned)
    show ?thesis using progress_read [OF s(1)] 3(1) [OF False s(1) [symmetric] refl refl refl o'(1)] o'(2) by simp
  qed
qed

lemma progress_trans:
  assumes "progress S evs ms T es os" and "progress (T\<lparr>ss_acks := ss_acks T @ x\<rparr>) es ns S' evs' os'"
  shows "progress (S\<lparr>ss_acks := ss_acks S @ x\<rparr>) evs (ms @ ns) S' evs' (os @ os')"
proof -
  obtain u v where "evs = u @ es" "acked (ss_acks S) (acks_read u) (ss_acks T)"
      "es = v @ evs'" "acked (ss_acks T @ x) (acks_read v) (ss_acks S')"
    using assms by (auto simp: progress_def)
  then have "evs = (u @ v) @ evs'" "acked (ss_acks S @ x) (acks_read (u @ v)) (ss_acks S')"
    by (auto intro: acked_trans)
  then show ?thesis
    using assms by (auto simp: progress_def same_setup_def)
qed

lemma send_segment_progress:
  assumes "send_segment i n f d evs S = Returned (Inr None) S' outs evs'"
  shows "progress (S\<lparr>ss_acks := ss_acks S @ [\<lparr>xa_flags = f, xa_transfer_id = i, xa_acknowledged_length = n\<rparr>]\<rparr>) evs
      [TransferSegment (segment_message i f d)] S' evs' outs \<and> (sf_end f \<longrightarrow> ss_acks S' = [])"
proof -
  let ?S = "S\<lparr>ss_acks := ss_acks S @ [\<lparr>xa_flags = f, xa_transfer_id = i, xa_acknowledged_length = n\<rparr>]\<rparr>"
  obtain x T os1 os2 es where r: "feed_segment (TransferSegment (segment_message i f d)) evs ?S = Returned (Inr x) T os1 es"
      "(if x \<noteq> None \<or> \<not> sf_end f then Returned (Inr x) T [] es else wait_acks es T) = Returned (Inr None) S' os2 evs'"
      "outs = os1 @ os2"
    using assms unfolding send_segment_def Let_def run_then_Returned by blast
  then have x: "x = None" by (auto split: if_splits)
  note p = feed_segment_progress [OF r(1) [unfolded x]]
  show ?thesis
  proof (cases "sf_end f")
    case True
    then have "wait_acks es T = Returned (Inr None) S' os2 evs'" using r(2) x by simp
    then show ?thesis
      using wait_acks_progress [of es T S' os2 evs'] progress_trans [OF p, of "[]" "[]"] r(3) by simp
  next
    case False
    then show ?thesis using r x p by simp
  qed
qed

lemma send_segments_progress:
  "send_segments i start n d evs S = Returned (Inr None) S' outs evs' \<Longrightarrow>
    progress (S\<lparr>ss_acks := ss_acks S @ expected i start n (chunks (ss_segment_mtu S) d)\<rparr>) evs
      (map TransferSegment (segments i start (chunks (ss_segment_mtu S) d))) S' evs' outs \<and>
    ss_acks S' = [] \<and> (ss_segment_mtu S = 0 \<longrightarrow> d = [])"
proof (induction i start n d evs S arbitrary: outs rule: send_segments.induct)
  case (1 i start n d evs S)
  let ?mtu = "ss_segment_mtu S"
  show ?case
  proof (cases "length d > ?mtu")
    case False
    then have "send_segment i (n + length d) (segment_flags start True) d evs S = Returned (Inr None) S' outs evs'"
      using 1(2) by (simp add: send_segments.simps [of i start])
    then show ?thesis
      using send_segment_progress False by (auto simp: chunks_last segment_flags_def)
  next
    case True
    let ?m = "n + length (take ?mtu d)" and ?f = "segment_flags start False"
    obtain x T os1 os2 es where r: "send_segment i ?m ?f (take ?mtu d) evs S = Returned (Inr x) T os1 es"
        "(case x of Some r \<Rightarrow> Returned (Inr (Some r)) T [] es | None \<Rightarrow> send_segments i False ?m (drop ?mtu d) es T) =
          Returned (Inr None) S' os2 evs'" "outs = os1 @ os2"
      using 1(2) True by (auto simp: send_segments.simps [of i start] Let_def run_then_Returned)
    then have x: "x = None" by (auto split: option.splits)
    note p = send_segment_progress [OF r(1) [unfolded x], THEN conjunct1]
    then have T: "ss_segment_mtu T = ?mtu" by (simp add: progress_def same_setup_def)
    have IH: "progress (T\<lparr>ss_acks := ss_acks T @ expected i False ?m (chunks ?mtu (drop ?mtu d))\<rparr>) es
        (map TransferSegment (segments i False (chunks ?mtu (drop ?mtu d)))) S' evs' os2 \<and> ss_acks S' = [] \<and>
        (?mtu = 0 \<longrightarrow> drop ?mtu d = [])"
      using 1(1) [OF True refl refl r(1) x, of os2] r(2) x T by simp
    then have mtu: "?mtu \<noteq> 0" using True by auto
    then show ?thesis
      using progress_trans [OF p IH [THEN conjunct1]] IH r(3) True
      by (simp add: chunks_more segments_more expected_more)
  qed
qed

section \<open>Refused transfers\<close>

text \<open>The peer's refusal of a transfer, as the sender reads it.\<close>

definition refusal :: "u64 \<Rightarrow> TransferRefuseReasonCode \<Rightarrow> event \<Rightarrow> bool" where
  "refusal i reason e \<longleftrightarrow>
    (\<exists>w. e = Read (ReadNext (Some (Inr (TransferRefuse \<lparr>tr_reason_code = reason, tr_transfer_id = i\<rparr>)))) w)"

definition acks_of :: "u64 \<Rightarrow> Session \<Rightarrow> bool" where
  "acks_of i S \<longleftrightarrow> (\<forall>a \<in> set (ss_acks S). xa_transfer_id a = i)"

text \<open>\<open>refused_run i reason S evs ms S' evs' outs\<close>: the last event taken is the refusal of transfer \<open>i\<close>, no
  acknowledgement is waited for any more, and a front part of \<open>ms\<close> has been fed.\<close>

definition refused_run ::
  "u64 \<Rightarrow> TransferRefuseReasonCode \<Rightarrow> Session \<Rightarrow> event list \<Rightarrow> Message list \<Rightarrow> Session \<Rightarrow> event list \<Rightarrow> effect list \<Rightarrow> bool" where
  "refused_run i reason S evs ms S' evs' outs \<longleftrightarrow> same_setup S S' \<and> ss_acks S' = [] \<and>
    (\<exists>rest. ms = fed_messages outs @ rest) \<and> (\<exists>used e. evs = used @ e # evs' \<and> refusal i reason e)"

lemma acked_acks_of: "acked (ss_acks S) ms (ss_acks S') \<Longrightarrow> acks_of i S \<Longrightarrow> acks_of i S'"
  by (auto simp: acked_def acks_of_def)

lemma on_peer_msg_refused:
  assumes "on_peer_msg_while_sending w m S = (Inr (Refused reason), S', outs)" and "acks_of i S"
  shows "m = TransferRefuse \<lparr>tr_reason_code = reason, tr_transfer_id = i\<rparr> \<and> same_setup S S' \<and> ss_acks S' = [] \<and> outs = []"
  using assms
  by (auto simp: on_peer_msg_while_sending_def same_setup_def continue_after_def rejected_shutdown_def acks_of_def
      Let_def filter_empty_conv split: Message.splits list.splits if_splits sum.splits prod.splits)

lemma read_refused:
  assumes "read_while_sending w r S = (Inr (Refused reason), S', outs)" and "acks_of i S"
  shows "refused_run i reason S (Read r w # evs) ms S' evs outs"
proof -
  obtain x T os where x: "recv_from_peer w r S = (x, T, os)" by (cases "recv_from_peer w r S") auto
  then obtain m where m: "x = Inr (Some m)" using assms(1) by (auto simp: read_while_sending_def split: sum.splits option.splits)
  have T: "T = S" using recv_from_peer_keeps [OF x] by simp
  have r: "r = ReadNext (Some (Inr m))" using recv_from_peer_message [OF x [unfolded m]] by simp
  have "on_peer_msg_while_sending w m S = (Inr (Refused reason), S', outs)"
    using assms(1) x m T by (simp add: read_while_sending_def)
  from on_peer_msg_refused [OF this assms(2)] show ?thesis
    using r by (auto simp: refused_run_def refusal_def intro!: exI [of _ "[]"])
qed

lemma refused_read:
  assumes "read_while_sending w r S = (Inr Continue, T, os)" and "refused_run i reason T evs ms S' evs' outs"
  shows "refused_run i reason S (Read r w # evs) ms S' evs' (os @ outs)"
  using read_continue [OF assms(1)] assms(2) same_setup_trans
  unfolding refused_run_def by (metis append_Cons append_Nil fed_messages_simps(2))

lemma refused_permit:
  assumes "refused_run i reason S evs ms S' evs' outs"
  shows "refused_run i reason S (Permit room # evs) ms S' evs' outs"
  using assms unfolding refused_run_def by (metis append_Cons)

lemma feed_segment_refused:
  "feed_segment m evs S = Returned (Inr (Some reason)) S' outs evs' \<Longrightarrow> acks_of i S \<Longrightarrow>
    refused_run i reason S evs ms S' evs' outs"
proof (induction m evs S arbitrary: outs rule: feed_segment.induct)
  case (3 m r w evs S)
  consider (again) T os where "read_while_sending w r S = (Inr Continue, T, os)"
      "emitting os (feed_segment m evs T) = Returned (Inr (Some reason)) S' outs evs'"
    | (refused) "read_while_sending w r S = (Inr (Refused reason), S', outs)" "evs' = evs"
    using 3(2) by (auto split: prod.splits sum.splits SendState.splits)
  then show ?case
  proof cases
    case again
    then obtain os' where o': "feed_segment m evs T = Returned (Inr (Some reason)) S' os' evs'" "outs = os @ os'"
      by (auto simp: emitting_Returned)
    have "acks_of i T" using read_continue [OF again(1)] 3(3) acked_acks_of by blast
    then show ?thesis using refused_read [OF again(1)] 3(1) [OF again(1) [symmetric] refl refl refl o'(1)] o'(2) by simp
  next
    case refused
    then show ?thesis using read_refused 3(3) by simp
  qed
qed (simp_all split: if_splits)

lemma wait_acks_refused:
  "wait_acks evs S = Returned (Inr (Some reason)) S' outs evs' \<Longrightarrow> acks_of i S \<Longrightarrow>
    refused_run i reason S evs ms S' evs' outs"
proof (induction evs S arbitrary: outs rule: wait_acks.induct)
  case (2 room evs S)
  then show ?case using refused_permit by (simp split: if_splits)
next
  case (3 r w evs S)
  have ne: "ss_acks S \<noteq> []" using 3(2) by auto
  consider (again) T os where "read_while_sending w r S = (Inr Continue, T, os)"
      "emitting os (wait_acks evs T) = Returned (Inr (Some reason)) S' outs evs'"
    | (refused) "read_while_sending w r S = (Inr (Refused reason), S', outs)" "evs' = evs"
    using 3(2) ne by (auto split: prod.splits sum.splits SendState.splits)
  then show ?case
  proof cases
    case again
    then obtain os' where o': "wait_acks evs T = Returned (Inr (Some reason)) S' os' evs'" "outs = os @ os'"
      by (auto simp: emitting_Returned)
    have "acks_of i T" using read_continue [OF again(1)] 3(3) acked_acks_of by blast
    then show ?thesis using refused_read [OF again(1)] 3(1) [OF ne again(1) [symmetric] refl refl refl o'(1)] o'(2) by simp
  next
    case refused
    then show ?thesis using read_refused 3(3) by simp
  qed
qed (simp split: if_splits)

lemma refused_trans:
  assumes "progress S evs ms T es os" and "refused_run i reason T es ns S' evs' outs"
  shows "refused_run i reason S evs (ms @ ns) S' evs' (os @ outs)"
proof -
  obtain u where "evs = u @ es" using assms(1) by (auto simp: progress_def)
  then show ?thesis using assms same_setup_trans by (auto simp: refused_run_def progress_def)
qed

lemma send_segment_refused:
  assumes "send_segment i n f d evs S = Returned (Inr (Some reason)) S' outs evs'" and "acks_of i S"
  shows "refused_run i reason S evs (TransferSegment (segment_message i f d) # ms) S' evs' outs"
proof -
  let ?S = "S\<lparr>ss_acks := ss_acks S @ [\<lparr>xa_flags = f, xa_transfer_id = i, xa_acknowledged_length = n\<rparr>]\<rparr>"
  let ?m = "TransferSegment (segment_message i f d)"
  have i: "acks_of i ?S" using assms(2) by (auto simp: acks_of_def)
  obtain x T os1 os2 es where r: "feed_segment ?m evs ?S = Returned (Inr x) T os1 es"
      "(if x \<noteq> None \<or> \<not> sf_end f then Returned (Inr x) T [] es else wait_acks es T) = Returned (Inr (Some reason)) S' os2 evs'"
      "outs = os1 @ os2"
    using assms(1) unfolding send_segment_def Let_def run_then_Returned by blast
  have "refused_run i reason ?S evs (?m # ms) S' evs' outs"
  proof (cases x)
    case None
    then have w: "wait_acks es T = Returned (Inr (Some reason)) S' os2 evs'" using r(2) by (simp split: if_splits)
    note p = feed_segment_progress [OF r(1) [unfolded None]]
    have "acks_of i T" using p i acked_acks_of unfolding progress_def by blast
    then show ?thesis using refused_trans [OF p wait_acks_refused [OF w]] r(3) by simp
  next
    case (Some y)
    then show ?thesis using r feed_segment_refused [of ?m evs ?S y S' os1 evs', OF _ i] by simp
  qed
  then show ?thesis by (simp add: refused_run_def same_setup_def)
qed

lemma send_segments_refused:
  "send_segments i start n d evs S = Returned (Inr (Some reason)) S' outs evs' \<Longrightarrow> acks_of i S \<Longrightarrow>
    \<exists>ms. refused_run i reason S evs ms S' evs' outs \<and>
      (ss_segment_mtu S \<noteq> 0 \<longrightarrow> ms = map TransferSegment (segments i start (chunks (ss_segment_mtu S) d)))"
proof (induction i start n d evs S arbitrary: outs rule: send_segments.induct)
  case (1 i start n d evs S)
  let ?mtu = "ss_segment_mtu S"
  show ?case
  proof (cases "length d > ?mtu")
    case False
    then have "send_segment i (n + length d) (segment_flags start True) d evs S = Returned (Inr (Some reason)) S' outs evs'"
      using 1(2) by (simp add: send_segments.simps [of i start])
    then show ?thesis
      using send_segment_refused [OF _ 1(3), of _ _ _ _ _ _ _ _ "[]"] False
      by (intro exI [of _ "[TransferSegment (segment_message i (segment_flags start True) d)]"]) (simp add: chunks_last)
  next
    case True
    let ?m = "n + length (take ?mtu d)" and ?f = "segment_flags start False"
    let ?first = "TransferSegment (segment_message i ?f (take ?mtu d))"
    let ?rest = "map TransferSegment (segments i False (chunks ?mtu (drop ?mtu d)))"
    obtain x T os1 os2 es where r: "send_segment i ?m ?f (take ?mtu d) evs S = Returned (Inr x) T os1 es"
        "(case x of Some r \<Rightarrow> Returned (Inr (Some r)) T [] es | None \<Rightarrow> send_segments i False ?m (drop ?mtu d) es T) =
          Returned (Inr (Some reason)) S' os2 evs'" "outs = os1 @ os2"
      using 1(2) True by (auto simp: send_segments.simps [of i start] Let_def run_then_Returned)
    have segs: "?mtu \<noteq> 0 \<Longrightarrow> map TransferSegment (segments i start (chunks ?mtu d)) = ?first # ?rest"
      using True by (simp add: chunks_more segments_more)
    show ?thesis
    proof (cases x)
      case None
      note p = send_segment_progress [OF r(1) [unfolded None], THEN conjunct1]
      let ?S = "S\<lparr>ss_acks := ss_acks S @ [\<lparr>xa_flags = ?f, xa_transfer_id = i, xa_acknowledged_length = ?m\<rparr>]\<rparr>"
      have T: "ss_segment_mtu T = ?mtu" using p by (simp add: progress_def same_setup_def)
      have "acks_of i ?S" using 1(3) by (auto simp: acks_of_def)
      then have "acks_of i T" using p acked_acks_of unfolding progress_def by blast
      then obtain ms where ms: "refused_run i reason T es ms S' evs' os2" "?mtu \<noteq> 0 \<longrightarrow> ms = ?rest"
        using 1(1) [OF True refl refl r(1) None, of os2] r(2) None T by auto
      then have "refused_run i reason ?S evs (?first # ms) S' evs' outs"
        using refused_trans [OF p] r(3) by simp
      then have "refused_run i reason S evs (?first # ms) S' evs' outs" by (simp add: refused_run_def same_setup_def)
      moreover have "?mtu \<noteq> 0 \<longrightarrow> ?first # ms = map TransferSegment (segments i start (chunks ?mtu d))"
        using segs ms(2) by simp
      ultimately show ?thesis by (intro exI [of _ "?first # ms"] conjI)
    next
      case (Some y)
      then have "refused_run i reason S evs (?first # ?rest) S' evs' outs" using r send_segment_refused [OF _ 1(3)] by simp
      then show ?thesis using segs by metis
    qed
  qed
qed

text \<open>The two ways in which a transfer \<open>i\<close> of bundle \<open>d\<close> ends well: every segment was fed and
  acknowledged, in order; or the peer, after some of the segments, refused the rest because it has the
  bundle already.\<close>

definition acknowledged_in_full :: "nat \<Rightarrow> u64 \<Rightarrow> bytes \<Rightarrow> event list \<Rightarrow> effect list \<Rightarrow> bool" where
  "acknowledged_in_full mtu i d used outs \<longleftrightarrow>
    fed_messages outs = map TransferSegment (segments i True (chunks mtu d)) \<and>
    acks_read used = map ack_message (expected i True 0 (chunks mtu d))"

definition refused_after :: "nat \<Rightarrow> u64 \<Rightarrow> bytes \<Rightarrow> TransferRefuseReasonCode \<Rightarrow> event list \<Rightarrow> effect list \<Rightarrow> bool" where
  "refused_after mtu i d reason used outs \<longleftrightarrow> used \<noteq> [] \<and> refusal i reason (last used) \<and>
    (mtu \<noteq> 0 \<longrightarrow> (\<exists>rest. map TransferSegment (segments i True (chunks mtu d)) = fed_messages outs @ rest))"

lemma send_once_outcome:
  assumes "send_once d evs S = Returned (Inr x) S' outs evs'" and "ss_acks S = []"
  shows "same_setup (S\<lparr>ss_transfer_id := ss_transfer_id S + 1\<rparr>) S' \<and> ss_acks S' = [] \<and>
    (\<exists>used. evs = used @ evs' \<and>
      (case x of None \<Rightarrow> acknowledged_in_full (ss_segment_mtu S) (ss_transfer_id S) d used outs
       | Some reason \<Rightarrow> refused_after (ss_segment_mtu S) (ss_transfer_id S) d reason used outs))"
proof (cases x)
  case None
  show ?thesis
    using send_segments_progress [OF assms(1) [unfolded send_once_def None]] assms(2) None
    by (auto simp: progress_def acknowledged_in_full_def same_setup_def)
next
  case (Some reason)
  let ?S = "S\<lparr>ss_transfer_id := ss_transfer_id S + 1\<rparr>"
  have "acks_of (ss_transfer_id S) ?S" using assms(2) by (simp add: acks_of_def)
  from send_segments_refused [OF assms(1) [unfolded send_once_def Some] this]
  obtain ms where ms: "refused_run (ss_transfer_id S) reason ?S evs ms S' evs' outs"
      "ss_segment_mtu S \<noteq> 0 \<longrightarrow> ms = map TransferSegment (segments (ss_transfer_id S) True (chunks (ss_segment_mtu S) d))"
    by auto
  obtain used e where u: "evs = (used @ [e]) @ evs'" "refusal (ss_transfer_id S) reason e"
    using ms(1) by (auto simp: refused_run_def)
  then have "refused_after (ss_segment_mtu S) (ss_transfer_id S) d reason (used @ [e]) outs"
    using ms unfolding refused_run_def refused_after_def by auto metis
  then show ?thesis using ms(1) u(1) Some unfolding refused_run_def by auto
qed

text \<open>Sending with retransmissions: each attempt but the last ends with the peer asking for another
  one, under the next transfer identifier.\<close>

definition retransmit_requests :: "u64 \<Rightarrow> event list list \<Rightarrow> bool" where
  "retransmit_requests i attempts \<longleftrightarrow>
    (\<forall>j < length attempts. attempts ! j \<noteq> [] \<and> refusal (i + of_nat j) Retransmit (last (attempts ! j)))"

lemma retransmit_requests_Cons:
  "retransmit_requests i (a # as) \<longleftrightarrow> a \<noteq> [] \<and> refusal i Retransmit (last a) \<and> retransmit_requests (i + 1) as"
  by (auto simp: retransmit_requests_def less_Suc_eq_0_disj nth_Cons add.assoc all_conj_distrib split: nat.splits)

lemma resend_outcome:
  "resend d evs S = Returned (Inr ()) S' outs evs' \<Longrightarrow> ss_acks S = [] \<Longrightarrow>
    \<exists>attempts used before outs'. evs = concat attempts @ used @ evs' \<and> outs = before @ outs' @ [ReportedCompleted] \<and>
      ss_acks S' = [] \<and> retransmit_requests (ss_transfer_id S) attempts \<and>
      (let i = ss_transfer_id S + of_nat (length attempts) in
        acknowledged_in_full (ss_segment_mtu S) i d used outs' \<or> refused_after (ss_segment_mtu S) i d Completed used outs')"
proof (induction d evs S arbitrary: outs rule: resend.induct)
  case (1 d evs S)
  let ?k = "\<lambda>x S evs. case x of
        None \<Rightarrow> Returned (Inr ()) S [ReportedCompleted] evs
      | Some reason \<Rightarrow>
          (case reason of
             Completed \<Rightarrow> Returned (Inr ()) S [ReportedCompleted] evs
           | Retransmit \<Rightarrow> resend d evs S
           | NoResources \<Rightarrow> Returned (Inl (LocalShutdown ResourceExhaustion)) S [] evs
           | _ \<Rightarrow> Returned (Inl (LocalShutdown TermUnknown)) S [] evs)"
  have "run_then (send_once d evs S) ?k = Returned (Inr ()) S' outs evs'" using 1(2) by (simp add: resend.simps [of d])
  then obtain x T os1 os2 es where r: "send_once d evs S = Returned (Inr x) T os1 es"
      "?k x T es = Returned (Inr ()) S' os2 evs'" "outs = os1 @ os2"
    unfolding run_then_Returned by blast
  from send_once_outcome [OF r(1) 1(3)] obtain used where
    T: "same_setup (S\<lparr>ss_transfer_id := ss_transfer_id S + 1\<rparr>) T" "ss_acks T = []" and
    u: "evs = used @ es"
      "case x of None \<Rightarrow> acknowledged_in_full (ss_segment_mtu S) (ss_transfer_id S) d used os1
       | Some reason \<Rightarrow> refused_after (ss_segment_mtu S) (ss_transfer_id S) d reason used os1" by blast
  consider (finished) "x = None \<or> x = Some Completed" "T = S'" "os2 = [ReportedCompleted]" "es = evs'"
    | (again) "x = Some Retransmit" "resend d es T = Returned (Inr ()) S' os2 evs'"
    using r(2) by (auto split: option.splits TransferRefuseReasonCode.splits)
  then show ?case
  proof cases
    case finished
    have "acknowledged_in_full (ss_segment_mtu S) (ss_transfer_id S) d used os1 \<or>
        refused_after (ss_segment_mtu S) (ss_transfer_id S) d Completed used os1"
      using finished(1) u(2) by auto
    then show ?thesis
      using finished T(2) u(1) r(3)
      by (intro exI [of _ "[]"] exI [of _ used] exI [of _ os1]) (simp add: retransmit_requests_def)
  next
    case again
    obtain attempts used' before outs' where h: "es = concat attempts @ used' @ evs'" "os2 = before @ outs' @ [ReportedCompleted]"
        "ss_acks S' = []" "retransmit_requests (ss_transfer_id T) attempts"
        "let i = ss_transfer_id T + of_nat (length attempts) in
          acknowledged_in_full (ss_segment_mtu T) i d used' outs' \<or> refused_after (ss_segment_mtu T) i d Completed used' outs'"
      using 1(1) [OF r(1) again(1) refl again(2) T(2)] by blast
    have id: "ss_transfer_id T = ss_transfer_id S + 1" "ss_segment_mtu T = ss_segment_mtu S"
      using T(1) by (simp_all add: same_setup_def)
    have "retransmit_requests (ss_transfer_id S) (used # attempts)"
      using h(4) u(2) again(1) id by (simp add: retransmit_requests_Cons refused_after_def)
    then show ?thesis
      using h u(1) r(3) id
      by (intro exI [of _ "used # attempts"] exI [of _ used'] exI [of _ "os1 @ before"] exI [of _ outs'])
        (simp add: Let_def add.assoc)
  qed
qed

section \<open>Completion\<close>

text \<open>With room in the writer and the acknowledgements of all segments a transfer completes.\<close>

definition ack_event :: "answers \<Rightarrow> XferAck \<Rightarrow> event" where
  "ack_event w a = Read (ReadNext (Some (Inr (TransferAck (ack_message a))))) w"

lemma wait_acks_all: "wait_acks (map (ack_event w) (ss_acks S) @ evs) S = Returned (Inr None) (S\<lparr>ss_acks := []\<rparr>) [] evs"
proof (induction "ss_acks S" arbitrary: S)
  case Nil
  then have "wait_acks evs S = Returned (Inr None) S [] evs"
    by (cases "(evs, S)" rule: wait_acks.cases) simp_all
  then show ?case using Nil [symmetric] by simp
next
  case (Cons a as)
  have "read_while_sending w (ReadNext (Some (Inr (TransferAck (ack_message a))))) S = (Inr Continue, S\<lparr>ss_acks := as\<rparr>, [])"
    by (simp add: read_while_sending_def recv_from_peer_def next_msg_def on_peer_msg_while_sending_def
        Cons.hyps(2) [symmetric] ack_matches_message)
  then show ?case
    using Cons.hyps(1) [of "S\<lparr>ss_acks := as\<rparr>"] Cons.hyps(2) [symmetric]
    by (simp add: ack_event_def)
qed

lemma send_segments_completes:
  assumes "ss_segment_mtu S \<noteq> 0"
  shows "send_segments i start n d
      (replicate (length (chunks (ss_segment_mtu S) d)) (Permit True) @
       map (ack_event w) (ss_acks S @ expected i start n (chunks (ss_segment_mtu S) d)) @ evs) S =
    Returned (Inr None) (S\<lparr>ss_acks := []\<rparr>) (map (Fed \<circ> TransferSegment) (segments i start (chunks (ss_segment_mtu S) d))) evs"
  using assms
proof (induction "ss_segment_mtu S" d arbitrary: start n S rule: chunks.induct)
  case (1 d)
  let ?mtu = "ss_segment_mtu S"
  show ?case
  proof (cases "length d > ?mtu")
    case False
    let ?a = "\<lparr>xa_flags = segment_flags start True, xa_transfer_id = i, xa_acknowledged_length = n + length d\<rparr>"
    have "wait_acks (map (ack_event w) (ss_acks S @ [?a]) @ evs) (S\<lparr>ss_acks := ss_acks S @ [?a]\<rparr>) =
        Returned (Inr None) (S\<lparr>ss_acks := []\<rparr>) [] evs"
      using wait_acks_all [of w "S\<lparr>ss_acks := ss_acks S @ [?a]\<rparr>" evs] by simp
    then show ?thesis
      using False by (simp add: send_segments.simps [of i start] chunks_last send_segment_def segment_flags_def Let_def)
  next
    case True
    let ?a = "\<lparr>xa_flags = segment_flags start False, xa_transfer_id = i, xa_acknowledged_length = n + length (take ?mtu d)\<rparr>"
    let ?cs = "chunks ?mtu (drop ?mtu d)" and ?T = "S\<lparr>ss_acks := ss_acks S @ [?a]\<rparr>"
    have "send_segments i False (n + length (take ?mtu d)) (drop ?mtu d)
        (replicate (length ?cs) (Permit True) @
         map (ack_event w) (ss_acks ?T @ expected i False (n + length (take ?mtu d)) ?cs) @ evs) ?T =
      Returned (Inr None) (?T\<lparr>ss_acks := []\<rparr>) (map (Fed \<circ> TransferSegment) (segments i False ?cs)) evs"
      using 1(1) [of ?T False] 1(2) True by simp
    then show ?thesis
      using True 1(2)
      by (simp add: send_segments.simps [of i start _ d] chunks_more segments_more expected_more send_segment_def
          segment_flags_def Let_def)
  qed
qed

section \<open>The receiver of a transfer\<close>

fun on_transfers :: "(answers \<times> TransferSegmentMessage) list \<Rightarrow> Session \<Rightarrow> unit handled" where
  "on_transfers [] S = (Inr (), S, [])"
| "on_transfers ((w, m) # ms) S =
    (case on_transfer w m S of
       (Inl e, S, outs) \<Rightarrow> (Inl e, S, outs)
     | (Inr _, S, outs) \<Rightarrow> apsnd (apsnd ((@) outs)) (on_transfers ms S))"

definition queued :: "effect list \<Rightarrow> Ingest list" where
  "queued outs = List.map_filter (\<lambda>x. case x of Queued i \<Rightarrow> Some i | _ \<Rightarrow> None) outs"

lemma queued_simps [simp]:
  "queued [] = []" "queued (a @ b) = queued a @ queued b" "queued (Queued i # outs) = i # queued outs"
  "queued (Sent m # outs) = queued outs"
  by (simp_all add: queued_def map_filter_def)

fun ingest_items :: "bytes \<Rightarrow> XferAck list \<Rightarrow> Ingest list" where
  "ingest_items b [] = []"
| "ingest_items b [a] = [IngestDispatch b (ack_message a)]"
| "ingest_items b (a # as) = IngestAck (ack_message a) # ingest_items b as"

lemma ingest_items_more: "as \<noteq> [] \<Longrightarrow> ingest_items b (a # as) = IngestAck (ack_message a) # ingest_items b as"
  by (cases as) simp_all

lemma expected_not_Nil: "cs \<noteq> [] \<Longrightarrow> expected i s n cs \<noteq> []"
  by (cases cs rule: list.exhaust; cases "tl cs") auto

lemma on_segment_ok:
  assumes "ss_ingress_bundle S = Some b" and "length b + length c \<le> ss_transfer_mru S" and "an_ingest w"
  shows "on_segment w (segment_message i (segment_flags s e) c) S =
    (let a = \<lparr>xa_flags = segment_flags s e, xa_transfer_id = i, xa_acknowledged_length = length b + length c\<rparr>
     in if e then (Inr (), S\<lparr>ss_ingress_bundle := None\<rparr>, [Queued (IngestDispatch (b @ c) (ack_message a))])
        else (Inr (), S\<lparr>ss_ingress_bundle := Some (b @ c)\<rparr>, [Queued (IngestAck (ack_message a))]))"
  using assms by (simp add: on_segment_def segment_message_def segment_flags_def ack_message_def Let_def)

lemma on_transfers_segments:
  assumes "cs \<noteq> []" and "an_ingest w" and "ss_refusing S = None"
    and "if start then ss_ingress_bundle S = None \<and> b = [] else ss_ingress_bundle S = Some b"
    and "length b + length (concat cs) \<le> ss_transfer_mru S"
  shows "on_transfers (map (Pair w) (segments i start cs)) S =
    (Inr (), S\<lparr>ss_ingress_bundle := None\<rparr>, map Queued (ingest_items (b @ concat cs) (expected i start (length b) cs)))"
  using assms
proof (induction cs arbitrary: start b S)
  case Nil
  then show ?case by simp
next
  case (Cons c cs)
  let ?S = "S\<lparr>ss_ingress_bundle := Some b\<rparr>"
  have t: "on_transfer w (segment_message i (segment_flags start e) c) S = on_segment w (segment_message i (segment_flags start e) c) ?S" for e
    using Cons.prems by (cases S) (auto simp: on_transfer_def segment_message_def segment_flags_def)
  show ?case
  proof (cases "cs = []")
    case True
    then show ?thesis
      using Cons.prems by (simp add: t on_segment_ok Let_def)
  next
    case False
    have "on_transfers (map (Pair w) (segments i False cs)) (S\<lparr>ss_ingress_bundle := Some (b @ c)\<rparr>) =
      (Inr (), S\<lparr>ss_ingress_bundle := None\<rparr>,
        map Queued (ingest_items (b @ c @ concat cs) (expected i False (length b + length c) cs)))"
      using Cons.IH [of "S\<lparr>ss_ingress_bundle := Some (b @ c)\<rparr>" False "b @ c"] Cons.prems False by simp
    then show ?thesis
      using Cons.prems False
      by (simp add: t on_segment_ok Let_def segments_more expected_more ingest_items_more expected_not_Nil)
  qed
qed

lemma run_ingest_items:
  assumes "sink b = Accepted" and "as \<noteq> []"
  shows "run_ingest sink (\<lambda>_. True) (ingest_items b as) = (map (TransferAck \<circ> ack_message) as, [b], True)"
  using assms(2)
proof (induction as)
  case (Cons a as)
  then show ?case using assms(1) by (cases "as = []") (simp_all add: ingest_items_more)
qed simp

section \<open>Any segments\<close>

text \<open>A contiguous run of segments that starts a transfer, with no other start in it and no end before
  its last.\<close>

definition transfer_run :: "TransferSegmentMessage list \<Rightarrow> bool" where
  "transfer_run ys \<longleftrightarrow> ys \<noteq> [] \<and> sf_start (ts_message_flags (hd ys)) \<and>
    list_all (\<lambda>m. \<not> sf_start (ts_message_flags m)) (tl ys) \<and> list_all (\<lambda>m. \<not> sf_end (ts_message_flags m)) (butlast ys)"

definition reassembling :: "TransferSegmentMessage list \<Rightarrow> Session \<Rightarrow> bool" where
  "reassembling h S =
    (case ss_ingress_bundle S of
       None \<Rightarrow> True
     | Some b \<Rightarrow> ss_refusing S = None \<and> length b \<le> ss_transfer_mru S \<and>
         (\<exists>xs ys. h = xs @ ys \<and> transfer_run ys \<and> \<not> sf_end (ts_message_flags (last ys)) \<and> b = concat (map ts_data ys)))"

definition dispatch_ok :: "TransferSegmentMessage list \<Rightarrow> nat \<Rightarrow> Ingest \<Rightarrow> bool" where
  "dispatch_ok h mru i =
    (case i of
       IngestAck _ \<Rightarrow> True
     | IngestDispatch b a \<Rightarrow> length b \<le> mru \<and> ta_acknowledged_length a = of_nat (length b) \<and>
         (\<exists>xs ys zs. h = xs @ ys @ zs \<and> transfer_run ys \<and> sf_end (ts_message_flags (last ys)) \<and>
           b = concat (map ts_data ys)))"

lemma dispatch_ok_more: "dispatch_ok h mru i \<Longrightarrow> dispatch_ok (h @ x) mru i"
  by (force simp: dispatch_ok_def split: Ingest.splits)

lemma transfer_run_single: "sf_start (ts_message_flags m) \<Longrightarrow> transfer_run [m]"
  by (simp add: transfer_run_def)

lemma transfer_run_snoc:
  "transfer_run ys \<Longrightarrow> \<not> sf_end (ts_message_flags (last ys)) \<Longrightarrow> \<not> sf_start (ts_message_flags m) \<Longrightarrow> transfer_run (ys @ [m])"
proof -
  assume a: "transfer_run ys" "\<not> sf_end (ts_message_flags (last ys))" "\<not> sf_start (ts_message_flags m)"
  have "list_all (\<lambda>m. \<not> sf_end (ts_message_flags m)) ys"
    using a by (cases ys rule: rev_cases) (auto simp: transfer_run_def)
  then show ?thesis using a by (auto simp: transfer_run_def)
qed

text \<open>One segment that goes on with the buffer \<open>b\<close>.\<close>

lemma on_segment_reassembles:
  assumes "on_segment w m S = (r, S', outs)" and "ss_ingress_bundle S = Some b" and "ss_refusing S = None"
    and "transfer_run (ys @ [m])" and "b = concat (map ts_data ys)"
  shows "reassembling (xs @ ys @ [m]) S' \<and> ss_transfer_mru S' = ss_transfer_mru S \<and>
    list_all (dispatch_ok (xs @ ys @ [m]) (ss_transfer_mru S)) (queued outs)"
proof (cases "length (ts_data m) + length b > ss_transfer_mru S")
  case True
  then show ?thesis
    using assms by (auto simp: on_segment_def writer_send_def reassembling_def split: option.splits)
next
  case False
  let ?a = "\<lparr>ta_message_flags = ts_message_flags m, ta_transfer_id = ts_transfer_id m,
    ta_acknowledged_length = of_nat (length (b @ ts_data m))\<rparr>"
  have v: "transfer_run (ys @ [m])" "b @ ts_data m = concat (map ts_data (ys @ [m]))" "length (b @ ts_data m) \<le> ss_transfer_mru S"
    using assms(4,5) False by simp_all
  show ?thesis
  proof (cases "sf_end (ts_message_flags m)")
    case True
    have "dispatch_ok (xs @ ys @ [m]) (ss_transfer_mru S) (IngestDispatch (b @ ts_data m) ?a)"
      unfolding dispatch_ok_def Ingest.case
      using v True by (intro conjI exI [of _ xs] exI [of _ "ys @ [m]"] exI [of _ "[]"]) simp_all
    then show ?thesis
      using assms(1,2) False True by (auto simp: on_segment_def reassembling_def Let_def split: if_splits)
  next
    case False
    have "reassembling (xs @ ys @ [m]) (S\<lparr>ss_ingress_bundle := Some (b @ ts_data m)\<rparr>)"
      unfolding reassembling_def using v False assms(3)
      by (simp, intro exI [of _ xs] exI [of _ "ys @ [m]"]) simp
    then show ?thesis
      using assms(1,2) \<open>\<not> ss_transfer_mru S < _\<close> False by (auto simp: on_segment_def dispatch_ok_def Let_def split: if_splits)
  qed
qed

lemma on_transfer_reassembles:
  assumes "on_transfer w m S = (r, S', outs)" and "reassembling h S"
  shows "reassembling (h @ [m]) S' \<and> ss_transfer_mru S' = ss_transfer_mru S \<and>
    list_all (dispatch_ok (h @ [m]) (ss_transfer_mru S)) (queued outs)"
proof (cases "sf_start (ts_message_flags m)")
  case True
  show ?thesis
  proof (cases "ss_ingress_bundle S")
    case None
    then show ?thesis
      using assms(1) True on_segment_reassembles [of w m "S\<lparr>ss_refusing := None, ss_ingress_bundle := Some []\<rparr>" r S' outs "[]" "[]" h]
        transfer_run_single [of m]
      by (simp add: on_transfer_def)
  next
    case (Some b)
    then show ?thesis
      using assms(1) True
      by (auto simp: on_transfer_def unexpected_msg_def reject_msg_def writer_send_def reassembling_def split: option.splits)
  qed
next
  case False
  show ?thesis
  proof (cases "ss_ingress_bundle S")
    case None
    then show ?thesis
      using assms(1) False
      by (auto simp: on_transfer_def on_segment_def unexpected_msg_def reject_msg_def writer_send_def reassembling_def
          split: option.splits if_splits)
  next
    case (Some b)
    then obtain xs ys where h: "h = xs @ ys" "transfer_run ys" "\<not> sf_end (ts_message_flags (last ys))"
        "b = concat (map ts_data ys)" "ss_refusing S = None"
      using assms(2) by (auto simp: reassembling_def)
    then have "on_segment w m S = (r, S', outs)" using assms(1) False by (simp add: on_transfer_def)
    then show ?thesis
      using on_segment_reassembles [OF _ Some h(5) transfer_run_snoc [OF h(2,3) False] h(4), of w r S' outs xs] h(1) by simp
  qed
qed

lemma on_transfers_reassembles:
  "on_transfers ms S = (r, S', outs) \<Longrightarrow> reassembling h S \<Longrightarrow>
    list_all (dispatch_ok (h @ map snd ms) (ss_transfer_mru S)) (queued outs)"
proof (induction ms arbitrary: S h outs)
  case (Cons x ms)
  obtain w m where x: "x = (w, m)" by (cases x)
  obtain q T os where t: "on_transfer w m S = (q, T, os)" by (cases "on_transfer w m S") auto
  note p = on_transfer_reassembles [OF t Cons.prems(2)]
  have first: "list_all (dispatch_ok (h @ map snd (x # ms)) (ss_transfer_mru S)) (queued os)"
    using p dispatch_ok_more [of "h @ [m]" _ _ "map snd ms"] x by (auto simp: list_all_iff)
  show ?case
  proof (cases q)
    case (Inl e)
    then show ?thesis using Cons.prems(1) first t x by simp
  next
    case (Inr u)
    then obtain os' where o': "on_transfers ms T = (r, S', os')" "outs = os @ os'"
      using Cons.prems(1) t x by (cases "on_transfers ms T") auto
    then show ?thesis using Cons.IH [OF o'(1), of "h @ [m]"] p first x by simp
  qed
qed simp

end
