(* ===== verification/Tcpcl_Contact.thy ===== *)
theory Tcpcl_Contact
  imports Tcpcl_Session
begin

unbundle bit_operations_syntax

text \<open>
  Setting up a session of the TCP convergence layer: the contact headers of
  \<^verbatim>\<open>tcpclv4/src/connection/context.rs\<close> (accepting) and \<^verbatim>\<open>connect.rs\<close> (dialing), what is negotiated
  from the SESS_INIT messages, and the timeouts of \<^verbatim>\<open>tcpclv4/src/lib.rs\<close>. Sockets, certificates and
  the TLS handshake itself are outside; whether TLS material is configured, requires TLS and has an
  identity to serve with is its part here.
\<close>

section \<open>Intervals\<close>

definition contact_timeout_new :: "u16 \<Rightarrow> u16 option" where
  "contact_timeout_new seconds = (if seconds = 0 \<or> seconds > 60 then None else Some seconds)"

definition keepalive_negotiate :: "u16 \<Rightarrow> u16 \<Rightarrow> u16" where
  "keepalive_negotiate own peer_keepalive = min own peer_keepalive"

definition keepalive_as_duration :: "u16 \<Rightarrow> u16 option" where
  "keepalive_as_duration interval_secs = (if interval_secs \<noteq> 0 then Some interval_secs else None)"

definition isize_max :: nat where
  "isize_max = 2 ^ 63 - 1"

definition negotiate_segment_mtu :: "nat option \<Rightarrow> u64 \<Rightarrow> nat" where
  "negotiate_segment_mtu local_mtu peer_segment_mru =
    (let peer = min (unat peer_segment_mru) isize_max
     in case local_mtu of Some mtu \<Rightarrow> min mtu peer | None \<Rightarrow> peer)"

section \<open>Contact headers\<close>

record tls_material =
  tls_required :: bool
  tls_identity :: bool

definition contact_header :: "bool \<Rightarrow> bytes" where
  "contact_header can_tls = ascii ''dtn!'' @ [4, if can_tls then 1 else 0]"

definition dialing_contact_header :: "tls_material option \<Rightarrow> bytes" where
  "dialing_contact_header tls = contact_header (tls \<noteq> None)"

definition accepting_contact_header :: "tls_material option \<Rightarrow> bytes" where
  "accepting_contact_header tls = contact_header (case tls of Some t \<Rightarrow> tls_identity t | None \<Rightarrow> False)"

text \<open>What becomes of a contact; a version 3 peer gets the shutdown message of its own protocol.\<close>

datatype contact = NotDtn | Terminated SessionTermReasonCode | ShutdownV3 | TlsSession | PlainSession

text \<open>The accepting side: the decision on the six bytes of the peer's header, and the header it replies
  with.\<close>

definition new_contact :: "tls_material option \<Rightarrow> bytes \<Rightarrow> contact \<times> bytes" where
  "new_contact tls buffer =
    (if take 4 buffer \<noteq> ascii ''dtn!'' then (NotDtn, [])
     else
       (if buffer ! 4 \<noteq> 4 then Terminated VersionMismatch
        else if buffer ! 5 AND 1 \<noteq> 0 then
          (case tls of Some t \<Rightarrow> if tls_identity t then TlsSession else PlainSession | None \<Rightarrow> PlainSession)
        else if (case tls of Some t \<Rightarrow> tls_required t | None \<Rightarrow> False) then Terminated ContactFailure
        else PlainSession,
        accepting_contact_header tls))"

text \<open>The dialing side, on the header it is replied.\<close>

definition connect :: "tls_material option \<Rightarrow> bytes \<Rightarrow> contact" where
  "connect tls buffer =
    (if take 4 buffer \<noteq> ascii ''dtn!'' then NotDtn
     else if buffer ! 4 \<noteq> 4 then if buffer ! 4 = 3 then ShutdownV3 else Terminated VersionMismatch
     else if buffer ! 5 AND 1 \<noteq> 0 then (case tls of Some _ \<Rightarrow> TlsSession | None \<Rightarrow> PlainSession)
     else if (case tls of Some t \<Rightarrow> tls_required t | None \<Rightarrow> False) then Terminated ContactFailure
     else PlainSession)"

text \<open>Listeners with material that requires TLS and has no identity are refused when the entity is built.\<close>

definition listener_material_ok :: "tls_material option \<Rightarrow> bool" where
  "listener_material_ok tls = (case tls of Some t \<Rightarrow> \<not> (tls_required t \<and> \<not> tls_identity t) | None \<Rightarrow> True)"

section \<open>Session initialisation\<close>

record connection_context =
  cc_keepalive_interval :: u16
  cc_segment_mru :: u64
  cc_transfer_mru :: u64
  cc_node_ids :: "NodeId list"

definition node_id_suits :: "NodeId option \<Rightarrow> NodeId \<Rightarrow> bool" where
  "node_id_suits peer n =
    (case peer of
       None \<Rightarrow> True
     | Some (NodeIpn _) \<Rightarrow> (case n of NodeIpn _ \<Rightarrow> True | _ \<Rightarrow> False)
     | Some (NodeDtn _) \<Rightarrow> (case n of NodeDtn _ \<Rightarrow> True | _ \<Rightarrow> False)
     | Some NodeLocal \<Rightarrow> False)"

definition first_node_id :: "connection_context \<Rightarrow> NodeId option" where
  "first_node_id c = (case cc_node_ids c of n # _ \<Rightarrow> Some n | [] \<Rightarrow> None)"

definition passive_node_id :: "connection_context \<Rightarrow> NodeId option \<Rightarrow> NodeId option" where
  "passive_node_id c peer =
    (case find (node_id_suits peer) (cc_node_ids c) of Some n \<Rightarrow> Some n | None \<Rightarrow> first_node_id c)"

definition session_init_message :: "connection_context \<Rightarrow> NodeId option \<Rightarrow> SessionInitMessage" where
  "session_init_message c n =
    \<lparr>si_keepalive_interval = cc_keepalive_interval c, si_segment_mru = cc_segment_mru c,
     si_transfer_mru = cc_transfer_mru c, si_node_id = n, si_session_extensions = []\<rparr>"

text \<open>The loop that reads until the peer's SESS_INIT is there. Each element is what reading with the
  contact timeout gives, an error or a message, with whether the reply to it could be sent: any other
  message is answered with MSG_REJECT and the loop goes on; an error ends it. The messages sent come
  along.\<close>

datatype init_wait = InitReceived SessionInitMessage | InitFailed | InitAwaited

fun await_session_init :: "((session_error + Message) \<times> bool) list \<Rightarrow> init_wait \<times> Message list" where
  "await_session_init [] = (InitAwaited, [])"
| "await_session_init ((Inl _, _) # incoming) = (InitFailed, [])"
| "await_session_init ((Inr (SessionInit init), _) # incoming) = (InitReceived init, [])"
| "await_session_init ((Inr msg, sent) # incoming) =
    (if \<not> sent then (InitFailed, [])
     else let (r, out) = await_session_init incoming
          in (r, Reject \<lparr>mr_reason_code = Unexpected, mr_rejected_message = message_type_byte (message_type msg)\<rparr> # out))"

text \<open>What \<^verbatim>\<open>new_passive\<close> and \<^verbatim>\<open>new_active\<close> decide once it is there: a critical extension ends the
  contact with a timeout for the reply, otherwise the session starts. The two sides clamp the transfer
  MRU differently.\<close>

definition start_session ::
  "connection_context \<Rightarrow> nat option \<Rightarrow> (u64 \<Rightarrow> nat) \<Rightarrow> SessionInitMessage \<Rightarrow> (SessionTermReasonCode \<times> u16) + Session" where
  "start_session c segment_mtu clamp peer_init =
    (let keepalive = keepalive_negotiate (cc_keepalive_interval c) (si_keepalive_interval peer_init)
     in if list_ex (\<lambda>e. ef_critical (ex_flags e)) (si_session_extensions peer_init) then Inl (ContactFailure, keepalive * 2)
        else Inr (session_new (keepalive_as_duration keepalive)
               (negotiate_segment_mtu segment_mtu (si_segment_mru peer_init)) (clamp (cc_transfer_mru c))))"

text \<open>The accepting side reads the peer's SESS_INIT first and then sends its own (the flag says whether
  that could be sent); the dialing side sends its own first. No session comes of it when a read or a
  send fails.\<close>

definition new_passive :: "connection_context \<Rightarrow> nat option \<Rightarrow> ((session_error + Message) \<times> bool) list \<Rightarrow> bool \<Rightarrow>
    Message list \<times> ((SessionTermReasonCode \<times> u16) + Session) option" where
  "new_passive c segment_mtu incoming sent =
    (case await_session_init incoming of
       (InitReceived peer_init, out) \<Rightarrow>
         if \<not> sent then (out, None)
         else (out @ [SessionInit (session_init_message c (passive_node_id c (si_node_id peer_init)))],
               Some (start_session c segment_mtu
                 (\<lambda>mru. case usize_try_from mru of Some n \<Rightarrow> n | None \<Rightarrow> usize_max) peer_init))
     | (_, out) \<Rightarrow> (out, None))"

definition new_active :: "connection_context \<Rightarrow> nat option \<Rightarrow> ((session_error + Message) \<times> bool) list \<Rightarrow> bool \<Rightarrow>
    Message list \<times> ((SessionTermReasonCode \<times> u16) + Session) option" where
  "new_active c segment_mtu incoming sent =
    (if \<not> sent then ([], None)
     else let init = SessionInit (session_init_message c (first_node_id c))
          in case await_session_init incoming of
               (InitReceived peer_init, out) \<Rightarrow>
                 (init # out, Some (start_session c segment_mtu (\<lambda>mru. min (unat mru) isize_max) peer_init))
             | (_, out) \<Rightarrow> (init # out, None))"

section \<open>Agreement\<close>

lemma contact_header_bytes:
  "take 4 (contact_header b) = ascii ''dtn!''" "contact_header b ! 4 = 4" "(contact_header b ! 5 AND 1 \<noteq> 0) = b"
  by (simp_all add: contact_header_def ascii_def)

text \<open>How the two ends leave the exchange of headers, told from their configurations alone: TLS when the
  dialer has material and the listener an identity; otherwise in the clear, except for an end that
  requires TLS, which ends the contact. An end with no material requires nothing.\<close>

definition requires_tls :: "tls_material option \<Rightarrow> bool" where
  "requires_tls tls = (\<exists>t. tls = Some t \<and> tls_required t)"

definition serves_tls :: "tls_material option \<Rightarrow> bool" where
  "serves_tls tls = (\<exists>t. tls = Some t \<and> tls_identity t)"

definition clear_outcome :: "bool \<Rightarrow> contact" where
  "clear_outcome required = (if required then Terminated ContactFailure else PlainSession)"

lemma contact_agreement:
  assumes "listener_material_ok B"
  shows "connect A (snd (new_contact B (dialing_contact_header A))) =
      (if A \<noteq> None \<and> serves_tls B then TlsSession else clear_outcome (requires_tls A))"
    and "fst (new_contact B (dialing_contact_header A)) =
      (if A \<noteq> None \<and> serves_tls B then TlsSession else clear_outcome (requires_tls B))"
  using assms
  by (cases A; cases B;
      simp add: connect_def new_contact_def dialing_contact_header_def accepting_contact_header_def contact_header_bytes
        listener_material_ok_def requires_tls_def serves_tls_def clear_outcome_def)+

text \<open>What is read before the SESS_INIT is rejected message by message and otherwise ignored.\<close>

lemma await_session_init_rejects:
  assumes "list_all (\<lambda>(r, sent). sent \<and> (\<exists>m. r = Inr m \<and> message_type m \<noteq> SESS_INIT)) before"
  shows "await_session_init (before @ (Inr (SessionInit init), sent) # incoming) =
    (InitReceived init, map (\<lambda>(r, _). Reject \<lparr>mr_reason_code = Unexpected,
       mr_rejected_message = message_type_byte (message_type (projr r))\<rparr>) before)"
  using assms
proof (induction before)
  case (Cons x before)
  then obtain m where x: "x = (Inr m, True)" "message_type m \<noteq> SESS_INIT" by auto
  then show ?case using Cons by (cases m) (simp_all add: message_type_def Let_def)
qed simp

text \<open>Both ends keep the smaller of the two keepalive intervals, and no sender exceeds the segment size
  the peer announced.\<close>

lemma keepalive_agrees:
  assumes "new_active a m ra sa = (oa, Some (Inr S))" and "new_passive b n rb sb = (ob, Some (Inr T))"
    and "fst (await_session_init ra) = InitReceived (session_init_message b i)"
    and "fst (await_session_init rb) = InitReceived (session_init_message a j)"
  shows "ss_keepalive_interval S = ss_keepalive_interval T"
  using assms
  by (auto simp: new_active_def new_passive_def start_session_def session_new_def session_init_message_def
      keepalive_negotiate_def Let_def min.commute split: if_splits prod.splits init_wait.splits)

lemma segment_mtu_within: "negotiate_segment_mtu m mru \<le> unat mru"
  by (simp add: negotiate_segment_mtu_def Let_def min_def split: option.split)

text \<open>A peer that announces a segment size of zero is taken at its word.\<close>

lemma segment_mtu_zero: "negotiate_segment_mtu m 0 = 0"
  by (simp add: negotiate_segment_mtu_def split: option.split)

end
