(* ===== verification/Tcpcl_Props.thy ===== *)
theory Tcpcl_Props
  imports Tcpcl_Codec_Laws Tcpcl_Session_Laws Tcpcl_Contact Bpv7_Samples
begin

unbundle bit_operations_syntax

text \<open>
  The properties of the TCP convergence layer: its message stream, its transfers and its contacts.
\<close>

section \<open>The message stream\<close>

text \<open>C18. Messages written one after the other into the transport are read back as they were, in the
  same order and with nothing left over, however the stream is cut into runs on its way. The messages
  are those of \<open>message_ok\<close>: the reserved flag bits do not overlap the defined ones, and a session
  extension has none; reason codes are in the range of their constructor; an extension carries as many
  bytes as it announces, all together less than 2^32 bytes, and only a start segment has any; a node
  identifier is in normal form with a text of less than 2^16 bytes, the name of a \<^verbatim>\<open>dtn\<close> node having
  nothing to percent-encode; and a MSG_REJECT rejects one of the seven known types. That excludes the
  MSG_REJECT which the session itself sends for an unknown type: the decoder fails on it, see
  \<open>reject_of_unknown_type_fails\<close> below.\<close>

theorem stream_round_trip:
  assumes "text_spec X" and "list_all (message_ok X) ms" and "concat rs = fold encode ms []"
  shows "feed (decode X) [] rs = (ms, Waiting [])"
proof -
  have "concat rs = concat (map (\<lambda>m. encode m []) ms)" using assms(3) by (simp add: encode_all)
  moreover have "decode X [] = Incomplete" by (simp add: decode_def)
  ultimately show ?thesis
    using message_stream.feed_drain [of X "[]" rs]
      message_stream.drain_encoded [OF decode_encode [OF assms(1)] _ assms(2)] by simp
qed

definition sample_messages :: "Message list" where
  "sample_messages =
    [SessionInit \<lparr>si_keepalive_interval = 60, si_segment_mru = 16384, si_transfer_mru = 0x40000000, si_node_id = Some (NodeIpn \<lparr>allocator_id = 977, node_number = 3\<rparr>),
       si_session_extensions = [\<lparr>ex_flags = \<lparr>ef_critical = True, ef_reserved = 0\<rparr>, ex_type = 255, ex_length = 2, ex_value = [1, 2]\<rparr>]\<rparr>,
     Keepalive,
     TransferSegment (segment_message 7 (segment_flags True True) [1, 2, 3]),
     SessionTerm \<lparr>st_message_flags = \<lparr>tf_reply = False, tf_reserved = 0\<rparr>, st_reason_code = Busy\<rparr>]"

lemma sample_messages_ok: "list_all (message_ok X) sample_messages"
  by (simp add: sample_messages_def message_ok_def extensions_ok_def session_node_ok_def node_id_display_def dec_string.simps
      ascii_def segment_message_def segment_flags_def segment_flags_ok_def term_reason_ok_def usize_max_def
      extension_flags_ok_def)

theorem stream_round_trip_witness:
  "feed (decode sample_text) [] [take 5 (fold encode sample_messages []), drop 5 (fold encode sample_messages [])] =
    (sample_messages, Waiting [])"
  using stream_round_trip [OF sample_text_spec sample_messages_ok,
      of "[take 5 (fold encode sample_messages []), drop 5 (fold encode sample_messages [])]"]
  by simp

text \<open>C19. Whatever bytes a peer sends, the messages and the error that the session gets to see do not
  depend on how the bytes are cut into runs, and the decoder never panics on them.\<close>

theorem stream_runs_irrelevant:
  "feed (decode X) [] rs = drain (decode X) (concat rs) \<and> snd (drain (decode X) (concat rs)) \<noteq> Panicked"
  using message_stream.feed_drain [of X "[]" rs] message_stream.drain_not_panicked by (simp add: decode_def)

section \<open>Transfers\<close>


definition sample_answers :: answers where
  "sample_answers = \<lparr>an_send = None, an_ingest = True\<rparr>"

definition sample_session :: Session where
  "sample_session = session_new (Some 60) 2 100"

lemma send_once_completes:
  assumes "ss_segment_mtu S \<noteq> 0" and "ss_acks S = []"
  shows "send_once d (replicate (length (chunks (ss_segment_mtu S) d)) (Permit True) @
      map (ack_event w) (expected (ss_transfer_id S) True 0 (chunks (ss_segment_mtu S) d))) S =
    Returned (Inr None) (S\<lparr>ss_transfer_id := ss_transfer_id S + 1\<rparr>)
      (map (Fed \<circ> TransferSegment) (segments (ss_transfer_id S) True (chunks (ss_segment_mtu S) d))) []"
  using assms send_segments_completes [of "S\<lparr>ss_transfer_id := ss_transfer_id S + 1\<rparr>" "ss_transfer_id S" True 0 d w "[]"]
  by (cases S) (simp add: send_once_def)


text \<open>C8. A transfer arrives, under these conditions: the segment size of the sender is not zero and it
  waits for no acknowledgement; the receiver is idle, the bundle is no longer than its transfer MRU and
  its ingest queue takes what it is given; the agent behind it accepts the bundle; and both writers have
  room. Then the sender feeds segments; handed those, the receiver queues them, and its ingest task
  dispatches exactly the bundle, once, and emits acknowledgements; and reading those acknowledgements
  the sender completes. (With a segment size of zero the sender never comes to an end, see
  \<open>zero_segment_size_never_completes\<close> below.)\<close>

theorem transfer_delivered:
  assumes "ss_segment_mtu S \<noteq> 0" and "ss_acks S = []"
    and "ss_ingress_bundle R = None" and "ss_refusing R = None" and "length d \<le> ss_transfer_mru R"
    and "an_ingest w" and "sink d = Accepted"
  shows "\<exists>segs outs acks. on_transfers (map (Pair w) segs) R = (Inr (), R, outs) \<and>
    run_ingest sink (\<lambda>_. True) (queued outs) = (acks, [d], True) \<and>
    send_once d (replicate (length segs) (Permit True) @ map (\<lambda>m. Read (ReadNext (Some (Inr m))) w) acks) S =
      Returned (Inr None) (S\<lparr>ss_transfer_id := ss_transfer_id S + 1\<rparr>) (map (Fed \<circ> TransferSegment) segs) []"
proof -
  let ?cs = "chunks (ss_segment_mtu S) d" and ?i = "ss_transfer_id S"
  let ?as = "expected ?i True 0 ?cs" and ?segs = "segments ?i True ?cs"
  have q: "queued (map Queued is) = is" for "is" by (induction "is") simp_all
  have l: "length (segments i s cs) = length cs" for i s cs by (induction i s cs rule: segments.induct) simp_all
  have r: "R\<lparr>ss_ingress_bundle := None\<rparr> = R" using assms(3) by (cases R) simp
  have "on_transfers (map (Pair w) ?segs) R = (Inr (), R, map Queued (ingest_items d ?as))"
    using on_transfers_segments [of ?cs w R True "[]" ?i] assms r by simp
  moreover have "run_ingest sink (\<lambda>_. True) (queued (map Queued (ingest_items d ?as))) =
      (map (TransferAck \<circ> ack_message) ?as, [d], True)"
    using run_ingest_items [of sink d ?as] assms(7) expected_not_Nil [of ?cs] by (simp add: q)
  moreover have "map (ack_event w) ?as = map (\<lambda>m. Read (ReadNext (Some (Inr m))) w) (map (TransferAck \<circ> ack_message) ?as)"
    by (simp add: ack_event_def)
  moreover note send_once_completes [OF assms(1,2), of d w, folded l [of ?i True ?cs]]
  ultimately show ?thesis by metis
qed

theorem transfer_delivered_witness:
  "\<exists>segs outs acks. on_transfers (map (Pair sample_answers) segs) sample_session = (Inr (), sample_session, outs) \<and>
    run_ingest (\<lambda>_. Accepted) (\<lambda>_. True) (queued outs) = (acks, [[1, 2, 3]], True) \<and>
    send_once [1, 2, 3] (replicate (length segs) (Permit True) @
        map (\<lambda>m. Read (ReadNext (Some (Inr m))) sample_answers) acks) sample_session =
      Returned (Inr None) (sample_session\<lparr>ss_transfer_id := 1\<rparr>) (map (Fed \<circ> TransferSegment) segs) []"
proof -
  have s: "ss_segment_mtu sample_session \<noteq> 0" "ss_acks sample_session = []" "ss_ingress_bundle sample_session = None"
      "ss_refusing sample_session = None" "length [1, 2, 3 :: byte] \<le> ss_transfer_mru sample_session"
      "an_ingest sample_answers" "ss_transfer_id sample_session + 1 = 1"
    by (simp_all add: sample_session_def session_new_def sample_answers_def)
  show ?thesis using transfer_delivered [OF s(1-6), of "\<lambda>_. Accepted"] s(7) by simp
qed

text \<open>C17. Whatever segments a peer sends, as long as the session hands each of them to \<^verbatim>\<open>on_transfer\<close>
  (it does so in its main loop, while it sends and while it shuts down; the exception is its answer to
  the peer's SESS_TERM, see \<open>terminating_mixes_transfers\<close> below), a bundle that it hands to the agent is
  the data of one contiguous run of them that begins with a start segment and ends with the first end
  segment after it, it is no longer than the transfer MRU, and it is acknowledged with its own length.\<close>

theorem dispatched_bundle_contiguous:
  assumes "on_transfers ms (session_new k mtu mru) = (r, S', outs)" and "IngestDispatch b a \<in> set (queued outs)"
  shows "length b \<le> mru \<and> ta_acknowledged_length a = of_nat (length b) \<and>
    (\<exists>xs ys zs. map snd ms = xs @ ys @ zs \<and> transfer_run ys \<and> sf_end (ts_message_flags (last ys)) \<and>
      b = concat (map ts_data ys))"
  using on_transfers_reassembles [OF assms(1), of "[]"] assms(2)
  by (auto simp: reassembling_def session_new_def dispatch_ok_def list_all_iff)

theorem dispatched_bundle_contiguous_witness:
  "length [1, 2, 3 :: byte] \<le> 100 \<and>
    (\<exists>xs ys zs. map snd (map (Pair sample_answers) (segments 0 True [[1, 2], [3]])) = xs @ ys @ zs \<and> transfer_run ys \<and>
      sf_end (ts_message_flags (last ys)) \<and> [1, 2, 3] = concat (map ts_data ys))"
proof -
  have "on_transfers (map (Pair sample_answers) (segments 0 True [[1, 2], [3]])) (session_new (Some 60) 2 100) =
      (Inr (), session_new (Some 60) 2 100, map Queued (ingest_items [1, 2, 3] (expected 0 True 0 [[1, 2], [3]])))"
    using on_transfers_segments [of "[[1, 2], [3]]" sample_answers "session_new (Some 60) 2 100" True "[]" 0]
    by (simp add: sample_answers_def session_new_def)
  note r = this
  obtain a where a: "IngestDispatch [1, 2, 3] a \<in> set (queued (map Queued (ingest_items [1, 2, 3] (expected 0 True 0 [[1, 2], [3]]))))"
    by simp
  show ?thesis using dispatched_bundle_contiguous [OF r a] by blast
qed

section \<open>Contacts\<close>

text \<open>C39. A dialer and a listener that exchange their contact headers agree on TLS, and the outcome is
  fixed by their configurations: with TLS material at the dialer and an identity at the listener both
  secure the session; otherwise neither does, each end goes on in the clear when it does not require
  TLS and ends the contact with a contact failure when it does. The listener's material is assumed to
  have an identity if it requires TLS, which is checked when the entity is built.\<close>

theorem contact_peers_agree:
  assumes "listener_material_ok B"
  shows "(let (accepted, reply) = new_contact B (dialing_contact_header A); dialed = connect A reply;
          secured = (A \<noteq> None \<and> (\<exists>t. B = Some t \<and> tls_identity t))
    in (dialed = TlsSession \<longleftrightarrow> secured) \<and> (accepted = TlsSession \<longleftrightarrow> secured) \<and>
       (dialed = Terminated ContactFailure \<longleftrightarrow> \<not> secured \<and> (\<exists>t. A = Some t \<and> tls_required t)) \<and>
       (accepted = Terminated ContactFailure \<longleftrightarrow> \<not> secured \<and> (\<exists>t. B = Some t \<and> tls_required t)) \<and>
       (dialed = PlainSession \<longleftrightarrow> \<not> secured \<and> \<not> (\<exists>t. A = Some t \<and> tls_required t)) \<and>
       (accepted = PlainSession \<longleftrightarrow> \<not> secured \<and> \<not> (\<exists>t. B = Some t \<and> tls_required t)))"
  using contact_agreement [OF assms, of A]
  by (auto simp: Let_def split_beta clear_outcome_def requires_tls_def serves_tls_def)

theorem contact_peers_agree_witness:
  "connect (Some \<lparr>tls_required = True, tls_identity = False\<rparr>)
     (snd (new_contact None (dialing_contact_header (Some \<lparr>tls_required = True, tls_identity = False\<rparr>)))) =
       Terminated ContactFailure \<and>
   connect (Some \<lparr>tls_required = True, tls_identity = False\<rparr>)
     (snd (new_contact (Some \<lparr>tls_required = True, tls_identity = True\<rparr>)
        (dialing_contact_header (Some \<lparr>tls_required = True, tls_identity = False\<rparr>)))) = TlsSession"
  using contact_peers_agree [of None "Some \<lparr>tls_required = True, tls_identity = False\<rparr>"]
    contact_peers_agree [of "Some \<lparr>tls_required = True, tls_identity = True\<rparr>" "Some \<lparr>tls_required = True, tls_identity = False\<rparr>"]
  by (simp add: listener_material_ok_def Let_def split: prod.splits)

section \<open>Corners of the code\<close>

text \<open>With a segment size of zero, which a peer may announce, no bundle is ever sent to the end.\<close>

lemma zero_segment_size_never_completes:
  assumes "ss_segment_mtu S = 0" and "d \<noteq> []"
  shows "send_once d evs S \<noteq> Returned (Inr None) S' outs evs'"
  using send_segments_progress [of "ss_transfer_id S" True 0 d evs "S\<lparr>ss_transfer_id := ss_transfer_id S + 1\<rparr>" S' outs evs'] assms
  by (auto simp: send_once_def)

text \<open>The identifier of a segment that goes on with a transfer is not compared with that of its start.\<close>

lemma segments_of_two_transfers_mixed:
  "queued (snd (snd (on_transfers
      [(sample_answers, segment_message 1 (segment_flags True False) [1, 2]),
       (sample_answers, segment_message 2 (segment_flags False True) [3])] sample_session))) =
    [IngestAck \<lparr>ta_message_flags = segment_flags True False, ta_transfer_id = 1, ta_acknowledged_length = 2\<rparr>,
     IngestDispatch [1, 2, 3] \<lparr>ta_message_flags = segment_flags False True, ta_transfer_id = 2, ta_acknowledged_length = 3\<rparr>]"
  by (simp add: on_transfer_def on_segment_def segment_message_def segment_flags_def sample_session_def session_new_def
      sample_answers_def Let_def)

text \<open>While the session answers the peer's SESS_TERM, the refusal of a start segment leaves the transfer
  that is being reassembled in place and does not mark the refused one: its later segments are appended
  to the bytes of the other transfer and dispatched with them.\<close>

lemma terminating_mixes_transfers:
  assumes "ss_acks S \<noteq> []" and "ss_ingress_bundle S = Some a" and "ss_refusing S = None"
    and "i \<noteq> j" and "length a + length y \<le> ss_transfer_mru S"
  shows "queued (snd (snd (terminate_loop
      [(ReadNext (Some (Inr (TransferSegment (segment_message j (segment_flags True False) x)))), sample_answers),
       (ReadNext (Some (Inr (TransferSegment (segment_message j (segment_flags False True) y)))), sample_answers)] S))) =
    [IngestDispatch (a @ y) \<lparr>ta_message_flags = segment_flags False True, ta_transfer_id = j,
       ta_acknowledged_length = of_nat (length (a @ y))\<rparr>]"
  using assms
  by (simp add: recv_from_peer_def next_msg_def terminate_msg_def writer_send_def on_transfer_def on_segment_def
      segment_message_def segment_flags_def sample_answers_def queued_def map_filter_def Let_def)

text \<open>A session that answers the peer's SESS_TERM rejects the acknowledgements it waits for.\<close>

lemma terminating_rejects_acks:
  "terminate_msg sample_answers (TransferAck a) S =
    (Inr (), S, [Sent (Reject \<lparr>mr_reason_code = Unexpected, mr_rejected_message = 2\<rparr>)])"
  by (simp add: terminate_msg_def unexpected_msg_def reject_msg_def writer_send_def sample_answers_def message_type_def
      message_type_byte_def)

text \<open>The MSG_REJECT that a session sends for a message of unknown type is itself refused by the decoder
  of the other end, with the error that stands for a message of unknown type.\<close>

lemma reject_of_unknown_type_fails:
  assumes "b \<notin> {1, 2, 3, 4, 5, 6, 7}"
  shows "decode X (encode (Reject \<lparr>mr_reason_code = r, mr_rejected_message = b\<rparr>) [] @ rest) = Fail (InvalidMessageType b) rest"
proof -
  have "message_reject_decode (6 # reject_reason_into r # b # rest) = Fail (InvalidMessageType b) rest"
    using assms by (simp add: message_reject_decode_def message_type_try_from_def)
  then show ?thesis
    using decode_by_type [of "6 # reject_reason_into r # b # rest" MSG_REJECT]
    by (simp add: encode_def message_reject_encode_def message_type_byte_def)
qed

text \<open>The reserved bits of a session extension are lost.\<close>

lemma session_extension_reserved_dropped:
  "extension_flags_from (session_extension_flags_into f) = f\<lparr>ef_reserved := 0\<rparr>"
  by (cases f) (simp add: extension_flags_from_def session_extension_flags_into_def)

text \<open>Less than five announced bytes of extension items stay in the buffer.\<close>

lemma short_extensions_left_over:
  assumes "unat (n :: u32) < 5"
  shows "decode X ([7] @ to_be_bytes (k :: u16) @ to_be_bytes (s :: u64) @ to_be_bytes (m :: u64) @ to_be_bytes (0 :: u16) @
      to_be_bytes n @ rest) =
    Got (SessionInit \<lparr>si_keepalive_interval = k, si_segment_mru = s, si_transfer_mru = m, si_node_id = None,
      si_session_extensions = []\<rparr>, rest)"
proof -
  let ?h = "[7] @ to_be_bytes k @ to_be_bytes s @ to_be_bytes m @ to_be_bytes (0 :: u16) @ to_be_bytes n"
  have "advance 25 (?h @ rest) = Got rest" by (rule advance_append) simp
  then show ?thesis
    using assms decode_by_type [of "?h @ rest" SESS_INIT "tl (?h @ rest)" X]
    by (simp add: message_type_byte_def session_init_decode_def node_id_decode_def ext_loop.simps)
qed

end
