(* ===== verification/Tvr_Cron.thy ===== *)
theory Tvr_Cron
  imports Prelude
begin

unbundle bit_operations_syntax

text \<open>
  The cron expressions of \<^verbatim>\<open>tvr/src/cron.rs\<close>: their text syntax and the search for the next and
  the previous matching instant. A \<^verbatim>\<open>str\<close> is its list of code points. The calendar is the
  \<^verbatim>\<open>time\<close> crate's: an \<^verbatim>\<open>OffsetDateTime\<close> in UTC is the number of nanoseconds since the epoch, and
  the accessors, the replacements and the addition of a duration are the argument \<open>cal_ops\<close>.
\<close>

section \<open>Text\<close>

type_synonym text_chars = "nat list"

definition lit :: "string \<Rightarrow> text_chars" where
  "lit s = map of_char s"

text \<open>\<^verbatim>\<open>char::is_whitespace\<close>.\<close>

definition is_whitespace :: "nat \<Rightarrow> bool" where
  "is_whitespace c \<longleftrightarrow> 9 \<le> c \<and> c \<le> 13 \<or> c = 32 \<or> c = 0x85 \<or> c = 0xA0 \<or> c = 0x1680 \<or>
     0x2000 \<le> c \<and> c \<le> 0x200A \<or> c = 0x2028 \<or> c = 0x2029 \<or> c = 0x202F \<or> c = 0x205F \<or> c = 0x3000"

definition trim_text :: "text_chars \<Rightarrow> text_chars" where
  "trim_text s = rev (dropWhile is_whitespace (rev (dropWhile is_whitespace s)))"

fun split_on :: "(nat \<Rightarrow> bool) \<Rightarrow> text_chars \<Rightarrow> text_chars list" where
  "split_on p [] = [[]]"
| "split_on p (c # cs) =
    (if p c then [] # split_on p cs
     else (case split_on p cs of w # ws \<Rightarrow> (c # w) # ws | [] \<Rightarrow> [[c]]))"

definition split_whitespace :: "text_chars \<Rightarrow> text_chars list" where
  "split_whitespace s = filter (\<lambda>w. w \<noteq> []) (split_on is_whitespace s)"

fun split_once :: "nat \<Rightarrow> text_chars \<Rightarrow> (text_chars \<times> text_chars) option" where
  "split_once d [] = None"
| "split_once d (c # cs) =
    (if c = d then Some ([], cs)
     else map_option (\<lambda>(a, b). (c # a, b)) (split_once d cs))"

definition to_ascii_uppercase :: "text_chars \<Rightarrow> text_chars" where
  "to_ascii_uppercase s = map (\<lambda>c. if 97 \<le> c \<and> c \<le> 122 then c - 32 else c) s"

definition to_ascii_lowercase :: "text_chars \<Rightarrow> text_chars" where
  "to_ascii_lowercase s = map (\<lambda>c. if 65 \<le> c \<and> c \<le> 90 then c + 32 else c) s"

text \<open>\<^verbatim>\<open>str::parse\<close> for an unsigned type: an optional plus sign, then at least one digit, and no
  value above the type's maximum.\<close>

definition decimal_value :: "text_chars \<Rightarrow> nat" where
  "decimal_value ds = foldl (\<lambda>a d. a * 10 + (d - 48)) 0 ds"

definition parse_unsigned :: "text_chars \<Rightarrow> 'a::len word option" where
  "parse_unsigned s =
    (let ds = (case s of c # cs \<Rightarrow> if c = 43 then cs else s | [] \<Rightarrow> [])
     in if ds \<noteq> [] \<and> (\<forall>d \<in> set ds. 48 \<le> d \<and> d \<le> 57) \<and> decimal_value ds < 2 ^ LENGTH('a)
        then Some (of_nat (decimal_value ds)) else None)"

section \<open>Expressions\<close>

record CronExpr =
  cron_second :: u64
  cron_minute :: u64
  cron_hour :: u32
  cron_dom :: u32
  cron_month :: u16
  cron_dow :: u8
  cron_source :: text_chars

text \<open>\<^verbatim>\<open>PartialEq\<close> leaves the source text out.\<close>

definition cron_eq :: "CronExpr \<Rightarrow> CronExpr \<Rightarrow> bool" where
  "cron_eq a b \<longleftrightarrow> cron_second a = cron_second b \<and> cron_minute a = cron_minute b \<and>
     cron_hour a = cron_hour b \<and> cron_dom a = cron_dom b \<and> cron_month a = cron_month b \<and>
     cron_dow a = cron_dow b"

datatype cron_error =
    FieldCount nat
  | UnknownShortcut text_chars
  | EmptyListItem string
  | MatchesNothing string
  | InvalidValue string text_chars
  | InvalidStep string text_chars
  | ZeroStep string
  | OutOfRange string u32 u32 u32
  | EmptyRange string u32 u32

definition DOW_NAMES :: "text_chars list" where
  "DOW_NAMES = map lit [''SUN'', ''MON'', ''TUE'', ''WED'', ''THU'', ''FRI'', ''SAT'']"

definition MONTH_NAMES :: "text_chars list" where
  "MONTH_NAMES = map lit [''JAN'', ''FEB'', ''MAR'', ''APR'', ''MAY'', ''JUN'', ''JUL'', ''AUG'',
    ''SEP'', ''OCT'', ''NOV'', ''DEC'']"

definition ALL_HOURS :: u32 where
  "ALL_HOURS = push_bit 24 1 - 1"

definition ALL_DOM :: u32 where
  "ALL_DOM = NOT 1"

definition ALL_MONTHS :: u16 where
  "ALL_MONTHS = 0x1FFE"

definition ALL_DOW :: u8 where
  "ALL_DOW = 0x7F"

section \<open>Fields\<close>

text \<open>\<^verbatim>\<open>iter().position\<close>.\<close>

fun name_position :: "text_chars \<Rightarrow> text_chars list \<Rightarrow> nat option" where
  "name_position x [] = None"
| "name_position x (y # ys) = (if y = x then Some 0 else map_option Suc (name_position x ys))"

definition cron_parse_value :: "text_chars \<Rightarrow> u32 \<Rightarrow> string \<Rightarrow> text_chars list \<Rightarrow> cron_error + u32" where
  "cron_parse_value s mn name names =
    (case name_position (to_ascii_uppercase s) names of
       Some pos \<Rightarrow> Inr (mn + of_nat pos)
     | None \<Rightarrow> ok_or (parse_unsigned s) (InvalidValue name s))"

text \<open>The loop that generates the bits of a stepped range. The counter is a \<^verbatim>\<open>u32\<close> and wraps;
  \<open>None\<close> is a loop that does not end.\<close>

partial_function (option) step_bits :: "u32 \<Rightarrow> u32 \<Rightarrow> u32 \<Rightarrow> u64 \<Rightarrow> u64 option" where
  "step_bits hi step v bits =
    (if v \<le> hi then step_bits hi step (v + step) (bits OR push_bit (unat v) 1) else Some bits)"

text \<open>The part of an item before the slash, as a range; a single value without a step is the
  early return.\<close>

definition parse_range :: "text_chars \<Rightarrow> bool \<Rightarrow> u32 \<Rightarrow> u32 \<Rightarrow> string \<Rightarrow> text_chars list \<Rightarrow>
    cron_error + (u64 + (u32 \<times> u32))" where
  "parse_range r stepped mn mx name names =
    (if r = lit ''*'' then Inr (Inr (mn, mx))
     else case split_once 45 r of
       Some (a, b) \<Rightarrow>
         and_then (cron_parse_value a mn name names) (\<lambda>a.
         and_then (cron_parse_value b mn name names) (\<lambda>b.
           if a < mn \<or> a > mx then Inl (OutOfRange name a mn mx)
           else if b < mn \<or> b > mx then Inl (OutOfRange name b mn mx)
           else if a > b then Inl (EmptyRange name a b)
           else Inr (Inr (a, b))))
     | None \<Rightarrow>
         and_then (cron_parse_value r mn name names) (\<lambda>v.
           if v < mn \<or> v > mx then Inl (OutOfRange name v mn mx)
           else if stepped then Inr (Inr (v, mx))
           else Inr (Inl (push_bit (unat v) 1))))"

definition parse_step :: "text_chars \<Rightarrow> string \<Rightarrow> cron_error + (text_chars \<times> u32 option)" where
  "parse_step item name =
    (case split_once 47 item of
       Some (r, s) \<Rightarrow>
         and_then (ok_or (parse_unsigned s) (InvalidStep name s)) (\<lambda>step.
           if step = 0 then Inl (ZeroStep name) else Inr (r, Some step))
     | None \<Rightarrow> Inr (item, None))"

definition cron_parse_item :: "text_chars \<Rightarrow> u32 \<Rightarrow> u32 \<Rightarrow> string \<Rightarrow> text_chars list \<Rightarrow> (cron_error + u64) option" where
  "cron_parse_item item mn mx name names =
    (case and_then (parse_step item name) (\<lambda>(r, step).
            map_sum id (\<lambda>x. (step, x)) (parse_range r (step \<noteq> None) mn mx name names)) of
       Inl e \<Rightarrow> Some (Inl e)
     | Inr (step, Inl bits) \<Rightarrow> Some (Inr bits)
     | Inr (step, Inr (lo, hi)) \<Rightarrow>
         map_option Inr (step_bits hi (case step of Some k \<Rightarrow> k | None \<Rightarrow> 1) lo 0))"

fun parse_items :: "text_chars list \<Rightarrow> u32 \<Rightarrow> u32 \<Rightarrow> string \<Rightarrow> text_chars list \<Rightarrow> u64 \<Rightarrow> (cron_error + u64) option" where
  "parse_items [] mn mx name names bits = Some (Inr bits)"
| "parse_items (item # items) mn mx name names bits =
    (if item = [] then Some (Inl (EmptyListItem name))
     else case cron_parse_item item mn mx name names of
       None \<Rightarrow> None
     | Some (Inl e) \<Rightarrow> Some (Inl e)
     | Some (Inr b) \<Rightarrow> parse_items items mn mx name names (bits OR b))"

definition parse_field :: "text_chars \<Rightarrow> u32 \<Rightarrow> u32 \<Rightarrow> string \<Rightarrow> text_chars list \<Rightarrow> (cron_error + u64) option" where
  "parse_field field mn mx name names =
    (case parse_items (split_on (\<lambda>c. c = 44) field) mn mx name names 0 of
       None \<Rightarrow> None
     | Some (Inl e) \<Rightarrow> Some (Inl e)
     | Some (Inr bits) \<Rightarrow> Some (if bits = 0 then Inl (MatchesNothing name) else Inr bits))"

text \<open>Sequencing of parsers that may fail or not return.\<close>

definition try_parse :: "('e + 'a) option \<Rightarrow> ('a \<Rightarrow> ('e + 'b) option) \<Rightarrow> ('e + 'b) option" where
  "try_parse r f = (case r of None \<Rightarrow> None | Some (Inl e) \<Rightarrow> Some (Inl e) | Some (Inr a) \<Rightarrow> f a)"

definition parse_dow :: "text_chars \<Rightarrow> (cron_error + u8) option" where
  "parse_dow field =
    try_parse (parse_field field 0 7 ''dow'' DOW_NAMES) (\<lambda>bits.
      Some (Inr (ucast ((bits AND 0x7F) OR (drop_bit 7 bits AND 1)))))"

definition parse_5 :: "text_chars list \<Rightarrow> text_chars \<Rightarrow> (cron_error + CronExpr) option" where
  "parse_5 words source =
    try_parse (parse_field (words ! 0) 0 59 ''minute'' []) (\<lambda>minute.
    try_parse (parse_field (words ! 1) 0 23 ''hour'' []) (\<lambda>hour.
    try_parse (parse_field (words ! 2) 1 31 ''dom'' []) (\<lambda>dom.
    try_parse (parse_field (words ! 3) 1 12 ''month'' MONTH_NAMES) (\<lambda>month.
    try_parse (parse_dow (words ! 4)) (\<lambda>dow.
      Some (Inr \<lparr>cron_second = 1, cron_minute = minute, cron_hour = ucast hour, cron_dom = ucast dom,
        cron_month = ucast month, cron_dow = dow, cron_source = source\<rparr>))))))"

definition parse_6 :: "text_chars list \<Rightarrow> text_chars \<Rightarrow> (cron_error + CronExpr) option" where
  "parse_6 words source =
    try_parse (parse_field (words ! 0) 0 59 ''second'' []) (\<lambda>second.
    try_parse (parse_field (words ! 1) 0 59 ''minute'' []) (\<lambda>minute.
    try_parse (parse_field (words ! 2) 0 23 ''hour'' []) (\<lambda>hour.
    try_parse (parse_field (words ! 3) 1 31 ''dom'' []) (\<lambda>dom.
    try_parse (parse_field (words ! 4) 1 12 ''month'' MONTH_NAMES) (\<lambda>month.
    try_parse (parse_dow (words ! 5)) (\<lambda>dow.
      Some (Inr \<lparr>cron_second = second, cron_minute = minute, cron_hour = ucast hour, cron_dom = ucast dom,
        cron_month = ucast month, cron_dow = dow, cron_source = source\<rparr>)))))))"

definition parse_shortcut :: "text_chars \<Rightarrow> text_chars \<Rightarrow> cron_error + CronExpr" where
  "parse_shortcut shortcut source =
    (let s = to_ascii_lowercase shortcut;
         expr = \<lparr>cron_second = 1, cron_minute = 1, cron_hour = 1, cron_dom = ALL_DOM,
           cron_month = ALL_MONTHS, cron_dow = ALL_DOW, cron_source = source\<rparr>
     in if s = lit ''yearly'' \<or> s = lit ''annually'' then
          Inr (expr\<lparr>cron_dom := push_bit 1 1, cron_month := push_bit 1 1\<rparr>)
        else if s = lit ''monthly'' then Inr (expr\<lparr>cron_dom := push_bit 1 1\<rparr>)
        else if s = lit ''weekly'' then Inr (expr\<lparr>cron_dow := 1\<rparr>)
        else if s = lit ''daily'' \<or> s = lit ''midnight'' then Inr expr
        else if s = lit ''hourly'' then Inr (expr\<lparr>cron_hour := ALL_HOURS\<rparr>)
        else Inl (UnknownShortcut shortcut))"

definition parse_cron :: "text_chars \<Rightarrow> (cron_error + CronExpr) option" where
  "parse_cron s =
    (let trimmed = trim_text s
     in if trimmed \<noteq> [] \<and> hd trimmed = 64 then Some (parse_shortcut (tl trimmed) s)
        else
          let words = split_whitespace trimmed
          in if length words = 5 then parse_5 words s
             else if length words = 6 then parse_6 words s
             else Some (Inl (FieldCount (length words))))"

section \<open>The calendar\<close>

type_synonym datetime = int

record cal_ops =
  cal_year :: "datetime \<Rightarrow> int"
  cal_month :: "datetime \<Rightarrow> nat"
  cal_day :: "datetime \<Rightarrow> nat"
  cal_weekday :: "datetime \<Rightarrow> nat"
  cal_hour :: "datetime \<Rightarrow> nat"
  cal_minute :: "datetime \<Rightarrow> nat"
  cal_second :: "datetime \<Rightarrow> nat"
  replace_year :: "int \<Rightarrow> datetime \<Rightarrow> datetime option"
  replace_month :: "nat \<Rightarrow> datetime \<Rightarrow> datetime option"
  replace_day :: "nat \<Rightarrow> datetime \<Rightarrow> datetime option"
  replace_hour :: "nat \<Rightarrow> datetime \<Rightarrow> datetime option"
  replace_minute :: "nat \<Rightarrow> datetime \<Rightarrow> datetime option"
  replace_second :: "nat \<Rightarrow> datetime \<Rightarrow> datetime option"
  replace_nanosecond :: "nat \<Rightarrow> datetime \<Rightarrow> datetime option"
  cal_add :: "datetime \<Rightarrow> int \<Rightarrow> datetime option"

definition second_ns :: int where
  "second_ns = 1000000000"

definition minute_ns :: int where
  "minute_ns = 60 * second_ns"

definition hour_ns :: int where
  "hour_ns = 60 * minute_ns"

definition day_ns :: int where
  "day_ns = 24 * hour_ns"

definition SEARCH_DAYS :: int where
  "SEARCH_DAYS = 366 * 4"

text \<open>\<^verbatim>\<open>.ok()?\<close> ends the function with \<^verbatim>\<open>None\<close>, here \<open>Some None\<close>; a failed addition panics, here
  \<open>None\<close>.\<close>

definition try_ok :: "'a option \<Rightarrow> ('a \<Rightarrow> 'b option option) \<Rightarrow> 'b option option" where
  "try_ok r f = (case r of None \<Rightarrow> Some None | Some x \<Rightarrow> f x)"

definition must :: "'a option \<Rightarrow> 'a option option" where
  "must r = map_option Some r"

definition advance_minute :: "cal_ops \<Rightarrow> datetime \<Rightarrow> datetime option option" where
  "advance_minute C dt = try_ok (replace_second C 0 dt) (\<lambda>dt. must (cal_add C dt minute_ns))"

definition advance_hour :: "cal_ops \<Rightarrow> datetime \<Rightarrow> datetime option option" where
  "advance_hour C dt =
    try_ok (Option.bind (replace_second C 0 dt) (replace_minute C 0)) (\<lambda>dt. must (cal_add C dt hour_ns))"

definition advance_day :: "cal_ops \<Rightarrow> datetime \<Rightarrow> datetime option option" where
  "advance_day C dt =
    try_ok (Option.bind (Option.bind (replace_second C 0 dt) (replace_minute C 0)) (replace_hour C 0))
      (\<lambda>dt. must (cal_add C dt day_ns))"

definition month_next :: "nat \<Rightarrow> nat" where
  "month_next m = (if m = 12 then 1 else m + 1)"

definition month_previous :: "nat \<Rightarrow> nat" where
  "month_previous m = (if m = 1 then 12 else m - 1)"

definition advance_month :: "cal_ops \<Rightarrow> datetime \<Rightarrow> datetime option option" where
  "advance_month C dt =
    try_ok (Option.bind (Option.bind (Option.bind (replace_second C 0 dt) (replace_minute C 0))
              (replace_hour C 0)) (replace_day C 1)) (\<lambda>dt.
      let m = month_next (cal_month C dt);
          y = (if m = 1 then cal_year C dt + 1 else cal_year C dt)
      in Some (Option.bind (replace_month C m dt) (replace_year C y)))"

definition retreat_minute :: "cal_ops \<Rightarrow> datetime \<Rightarrow> datetime option option" where
  "retreat_minute C dt = try_ok (replace_second C 59 dt) (\<lambda>dt. must (cal_add C dt (- minute_ns)))"

definition retreat_hour :: "cal_ops \<Rightarrow> datetime \<Rightarrow> datetime option option" where
  "retreat_hour C dt =
    try_ok (Option.bind (replace_second C 59 dt) (replace_minute C 59)) (\<lambda>dt. must (cal_add C dt (- hour_ns)))"

definition retreat_day :: "cal_ops \<Rightarrow> datetime \<Rightarrow> datetime option option" where
  "retreat_day C dt =
    try_ok (Option.bind (Option.bind (replace_second C 59 dt) (replace_minute C 59)) (replace_hour C 23))
      (\<lambda>dt. must (cal_add C dt (- day_ns)))"

text \<open>The remainder of a negative year has the sign of the year, but it is zero for the same
  years.\<close>

definition days_in_month :: "int \<Rightarrow> nat \<Rightarrow> nat" where
  "days_in_month year month =
    (if month = 2 then (if 4 dvd year \<and> (\<not> 100 dvd year \<or> 400 dvd year) then 29 else 28)
     else if month \<in> {4, 6, 9, 11} then 30 else 31)"

definition retreat_month :: "cal_ops \<Rightarrow> datetime \<Rightarrow> datetime option option" where
  "retreat_month C dt =
    (let m = month_previous (cal_month C dt);
         y = (if m = 12 then cal_year C dt - 1 else cal_year C dt);
         last_day = days_in_month y m
     in Some (Option.bind (Option.bind (Option.bind (Option.bind (Option.bind (replace_month C m dt)
          (replace_year C y)) (replace_day C last_day)) (replace_hour C 23)) (replace_minute C 59))
          (replace_second C 59)))"

section \<open>Searching\<close>

definition has_seconds :: "CronExpr \<Rightarrow> bool" where
  "has_seconds c \<longleftrightarrow> cron_second c \<noteq> 1"

text \<open>The test of one field: \<^verbatim>\<open>(mask & (1 << n)) != 0\<close>.\<close>

definition selects :: "'a::len word \<Rightarrow> nat \<Rightarrow> bool" where
  "selects bits n \<longleftrightarrow> (bits AND push_bit n 1) \<noteq> 0"

text \<open>One turn of a search loop: \<open>Inl\<close> continues, \<open>Inr\<close> returns. The five moves are the helpers of
  the direction, the sixth the step of one second.\<close>

definition cron_turn :: "cal_ops \<Rightarrow> (datetime \<Rightarrow> datetime option option) \<Rightarrow> (datetime \<Rightarrow> datetime option option) \<Rightarrow>
    (datetime \<Rightarrow> datetime option option) \<Rightarrow> (datetime \<Rightarrow> datetime option option) \<Rightarrow>
    (datetime \<Rightarrow> datetime option option) \<Rightarrow> CronExpr \<Rightarrow> datetime \<Rightarrow> (datetime + datetime) option option" where
  "cron_turn C by_month by_day by_hour by_minute by_second c dt =
    (let continue_with = map_option (map_option Inl)
     in if \<not> selects (cron_month c) (cal_month C dt) then continue_with (by_month dt)
        else if \<not> selects (cron_dom c) (cal_day C dt) then continue_with (by_day dt)
        else if \<not> selects (cron_dow c) (cal_weekday C dt) then continue_with (by_day dt)
        else if \<not> selects (cron_hour c) (cal_hour C dt) then continue_with (by_hour dt)
        else if \<not> selects (cron_minute c) (cal_minute C dt) then continue_with (by_minute dt)
        else if \<not> selects (cron_second c) (cal_second C dt) then continue_with (by_second dt)
        else Some (Some (Inr dt)))"

definition next_turn :: "cal_ops \<Rightarrow> CronExpr \<Rightarrow> datetime \<Rightarrow> (datetime + datetime) option option" where
  "next_turn C = cron_turn C (advance_month C) (advance_day C) (advance_hour C) (advance_minute C)
    (\<lambda>dt. must (cal_add C dt second_ns))"

definition prev_turn :: "cal_ops \<Rightarrow> CronExpr \<Rightarrow> datetime \<Rightarrow> (datetime + datetime) option option" where
  "prev_turn C = cron_turn C (retreat_month C) (retreat_day C) (retreat_hour C) (retreat_minute C)
    (\<lambda>dt. must (cal_add C dt (- second_ns)))"

text \<open>The loops. \<open>None\<close> is a call that does not return, because a turn panics or because the loop
  never leaves.\<close>

partial_function (option) next_loop :: "cal_ops \<Rightarrow> CronExpr \<Rightarrow> datetime \<Rightarrow> datetime \<Rightarrow> datetime option option" where
  "next_loop C c limit dt =
    (if dt \<le> limit then
       Option.bind (next_turn C c dt) (\<lambda>r.
         case r of
           None \<Rightarrow> Some None
         | Some (Inl dt') \<Rightarrow> next_loop C c limit dt'
         | Some (Inr t) \<Rightarrow> Some (Some t))
     else Some None)"

partial_function (option) prev_loop :: "cal_ops \<Rightarrow> CronExpr \<Rightarrow> datetime \<Rightarrow> datetime \<Rightarrow> datetime option option" where
  "prev_loop C c limit dt =
    (if dt \<ge> limit then
       Option.bind (prev_turn C c dt) (\<lambda>r.
         case r of
           None \<Rightarrow> Some None
         | Some (Inl dt') \<Rightarrow> prev_loop C c limit dt'
         | Some (Inr t) \<Rightarrow> Some (Some t))
     else Some None)"

text \<open>The start of both searches: nanoseconds, and for an expression without seconds also the
  second, are cleared.\<close>

definition search_start :: "cal_ops \<Rightarrow> CronExpr \<Rightarrow> datetime \<Rightarrow> datetime option" where
  "search_start C c t =
    Option.bind (replace_nanosecond C 0 t) (\<lambda>dt. if has_seconds c then Some dt else replace_second C 0 dt)"

definition next_after :: "cal_ops \<Rightarrow> CronExpr \<Rightarrow> datetime \<Rightarrow> datetime option option" where
  "next_after C c after =
    try_ok (search_start C c after) (\<lambda>dt.
      Option.bind (cal_add C after (SEARCH_DAYS * day_ns)) (\<lambda>limit. next_loop C c limit dt))"

definition prev_before :: "cal_ops \<Rightarrow> CronExpr \<Rightarrow> datetime \<Rightarrow> datetime option option" where
  "prev_before C c before =
    try_ok (search_start C c before) (\<lambda>dt.
      Option.bind (cal_add C before (- (SEARCH_DAYS * day_ns))) (\<lambda>limit. prev_loop C c limit dt))"

declare step_bits.simps [code] next_loop.simps [code] prev_loop.simps [code]

end
