(* ===== verification/Tvr_Scheduler.thy ===== *)
theory Tvr_Scheduler
  imports Tvr_Cron Bpa_Routing Hash_Map
begin

text \<open>
  The contact scheduler of \<^verbatim>\<open>tvr/src/scheduler.rs\<close> with the contacts of \<^verbatim>\<open>tvr/src/contacts.rs\<close>.
  Contacts come from named sources, wait on a timeline of activations and deactivations, and while
  active each provides one route; routes are counted, so that the routing sink hears of a route
  when its first contact becomes active and when its last one stops. Hash maps and hash sets are
  lists in their iteration order. Counters wrap as \<^verbatim>\<open>u32\<close> and \<^verbatim>\<open>u64\<close> do. A function that searches a
  cron expression returns \<open>None\<close> when that search panics or does not return.
\<close>

section \<open>Contacts\<close>

datatype Schedule =
    Permanent
  | OneShot "datetime option" "datetime option"
  | Recurring CronExpr int "datetime option"

record Contact =
  ct_pattern :: EidPattern
  ct_action :: RouteAction
  ct_priority :: "u32 option"
  ct_schedule :: Schedule
  ct_bandwidth_bps :: "u64 option"
  ct_delay_us :: "u32 option"

text \<open>The derived equality of schedules, over the equality of cron expressions.\<close>

fun schedule_eq :: "Schedule \<Rightarrow> Schedule \<Rightarrow> bool" where
  "schedule_eq Permanent Permanent = True"
| "schedule_eq (OneShot s e) (OneShot s' e') = (s = s' \<and> e = e')"
| "schedule_eq (Recurring c d u) (Recurring c' d' u') = (cron_eq c c' \<and> d = d' \<and> u = u')"
| "schedule_eq _ _ = False"

definition contacts_match :: "Contact \<Rightarrow> Contact \<Rightarrow> bool" where
  "contacts_match a b \<longleftrightarrow>
     ct_pattern a = ct_pattern b \<and> ct_action a = ct_action b \<and>
     schedule_eq (ct_schedule a) (ct_schedule b) \<and> ct_priority a = ct_priority b \<and>
     ct_bandwidth_bps a = ct_bandwidth_bps b \<and> ct_delay_us a = ct_delay_us b"

section \<open>State\<close>

record RouteKey =
  rk_pattern :: EidPattern
  rk_action :: RouteAction
  rk_priority :: u32

record ManagedContact =
  mc_contact :: Contact
  mc_priority :: u32
  mc_active :: bool

definition route_key :: "ManagedContact \<Rightarrow> RouteKey" where
  "route_key mc = \<lparr>rk_pattern = ct_pattern (mc_contact mc), rk_action = ct_action (mc_contact mc),
     rk_priority = mc_priority mc\<rparr>"

datatype EventKind = Deactivate | Activate

record Event =
  ev_time :: datetime
  ev_kind :: EventKind
  ev_contact_id :: u64

fun kind_rank :: "EventKind \<Rightarrow> nat" where
  "kind_rank Deactivate = 0"
| "kind_rank Activate = 1"

definition event_cmp :: "Event \<Rightarrow> Event \<Rightarrow> ordering" where
  "event_cmp a b =
    then_with (then_with (compare (ev_time a) (ev_time b)) (compare (kind_rank (ev_kind a)) (kind_rank (ev_kind b))))
      (compare (ev_contact_id a) (ev_contact_id b))"

datatype PendingRouteOp = AddRoute RouteKey | RemoveRoute RouteKey

record Scheduler =
  sc_sources :: "(text_chars \<times> u64 list) list"
  sc_contacts :: "(u64 \<times> ManagedContact) list"
  sc_timeline :: "Event list"
  sc_route_refs :: "(RouteKey \<times> u32) list"
  sc_next_id :: u64

definition scheduler_new :: Scheduler where
  "scheduler_new = \<lparr>sc_sources = [], sc_contacts = [], sc_timeline = [], sc_route_refs = [], sc_next_id = 0\<rparr>"

definition resolve_priority :: "Contact \<Rightarrow> u32 \<Rightarrow> u32" where
  "resolve_priority c dflt = (case ct_priority c of Some p \<Rightarrow> p | None \<Rightarrow> dflt)"

definition alloc_id :: "Scheduler \<Rightarrow> u64 \<times> Scheduler" where
  "alloc_id s = (sc_next_id s, s\<lparr>sc_next_id := sc_next_id s + 1\<rparr>)"

section \<open>Timeline\<close>

definition insert_event :: "datetime \<Rightarrow> EventKind \<Rightarrow> u64 \<Rightarrow> Scheduler \<Rightarrow> Scheduler" where
  "insert_event t k cid s =
    s\<lparr>sc_timeline := snd (bs_insert event_cmp \<lparr>ev_time = t, ev_kind = k, ev_contact_id = cid\<rparr> (sc_timeline s))\<rparr>"

definition cancel_events :: "u64 \<Rightarrow> Scheduler \<Rightarrow> Scheduler" where
  "cancel_events cid s = s\<lparr>sc_timeline := filter (\<lambda>e. ev_contact_id e \<noteq> cid) (sc_timeline s)\<rparr>"

definition next_event_time :: "Scheduler \<Rightarrow> datetime option" where
  "next_event_time s = (case sc_timeline s of [] \<Rightarrow> None | e # _ \<Rightarrow> Some (ev_time e))"

section \<open>Routes\<close>

definition set_active :: "u64 \<Rightarrow> bool \<Rightarrow> Scheduler \<Rightarrow> Scheduler" where
  "set_active cid a s = s\<lparr>sc_contacts := hm_modify cid (\<lambda>mc. mc\<lparr>mc_active := a\<rparr>) (sc_contacts s)\<rparr>"

definition activate_contact :: "u64 \<Rightarrow> Scheduler \<Rightarrow> PendingRouteOp option \<times> Scheduler" where
  "activate_contact cid s =
    (case map_of (sc_contacts s) cid of
       None \<Rightarrow> (None, s)
     | Some mc \<Rightarrow>
         if mc_active mc then (None, s)
         else
           let key = route_key mc;
               count = (case map_of (sc_route_refs s) key of Some n \<Rightarrow> n | None \<Rightarrow> 0) + 1
           in (if count = 1 then Some (AddRoute key) else None,
               (set_active cid True s)\<lparr>sc_route_refs := hm_put key count (sc_route_refs s)\<rparr>))"

definition deactivate_contact :: "u64 \<Rightarrow> Scheduler \<Rightarrow> PendingRouteOp option \<times> Scheduler" where
  "deactivate_contact cid s =
    (case map_of (sc_contacts s) cid of
       None \<Rightarrow> (None, s)
     | Some mc \<Rightarrow>
         if \<not> mc_active mc then (None, s)
         else
           let key = route_key mc; s' = set_active cid False s
           in case map_of (sc_route_refs s) key of
                None \<Rightarrow> (None, s')
              | Some n \<Rightarrow>
                  if n - 1 = 0 then (Some (RemoveRoute key), s'\<lparr>sc_route_refs := hm_remove key (sc_route_refs s)\<rparr>)
                  else (None, s'\<lparr>sc_route_refs := hm_put key (n - 1) (sc_route_refs s)\<rparr>))"

section \<open>Ingestion\<close>

definition add_to_source :: "text_chars \<Rightarrow> u64 \<Rightarrow> Scheduler \<Rightarrow> Scheduler" where
  "add_to_source source cid s =
    (let cids = (case map_of (sc_sources s) source of Some cids \<Rightarrow> cids | None \<Rightarrow> [])
     in s\<lparr>sc_sources := hm_put source (if cid \<in> set cids then cids else cids @ [cid]) (sc_sources s)\<rparr>)"

definition register :: "text_chars \<Rightarrow> u64 \<Rightarrow> ManagedContact \<Rightarrow> Scheduler \<Rightarrow> Scheduler" where
  "register source cid mc s = add_to_source source cid (s\<lparr>sc_contacts := hm_put cid mc (sc_contacts s)\<rparr>)"

definition schedule_next_occurrence :: "cal_ops \<Rightarrow> u64 \<Rightarrow> datetime \<Rightarrow> Scheduler \<Rightarrow> Scheduler option" where
  "schedule_next_occurrence C cid after s =
    (case map_of (sc_contacts s) cid of
       None \<Rightarrow> Some s
     | Some mc \<Rightarrow>
         (case ct_schedule (mc_contact mc) of
            Recurring cron duration until \<Rightarrow>
              Option.bind (next_after C cron after) (\<lambda>r.
                case r of
                  None \<Rightarrow> Some s
                | Some next_start \<Rightarrow>
                    if (case until of Some u \<Rightarrow> next_start \<ge> u | None \<Rightarrow> False) then Some s
                    else Option.bind (cal_add C next_start duration) (\<lambda>next_end.
                      Some (insert_event next_end Deactivate cid (insert_event next_start Activate cid s))))
          | _ \<Rightarrow> Some s))"

text \<open>The occurrence of a recurring contact that is under way: its end.\<close>

definition occurrence_now :: "cal_ops \<Rightarrow> CronExpr \<Rightarrow> int \<Rightarrow> datetime option \<Rightarrow> datetime \<Rightarrow> datetime option option" where
  "occurrence_now C cron duration until now =
    Option.bind (prev_before C cron now) (\<lambda>r.
      case r of
        None \<Rightarrow> Some None
      | Some prev_start \<Rightarrow>
          Option.bind (cal_add C prev_start duration) (\<lambda>prev_end.
            Some (if prev_end > now \<and> (case until of None \<Rightarrow> True | Some u \<Rightarrow> prev_start < u)
                  then Some prev_end else None)))"

text \<open>The match on the schedule: whether the contact is kept, whether it is active, and the state
  with the contact registered and its events scheduled.\<close>

definition ingest_schedule :: "cal_ops \<Rightarrow> text_chars \<Rightarrow> u64 \<Rightarrow> ManagedContact \<Rightarrow> datetime \<Rightarrow> Scheduler \<Rightarrow>
    (bool \<times> bool \<times> Scheduler) option" where
  "ingest_schedule C source cid mc now s =
    (case ct_schedule (mc_contact mc) of
       Permanent \<Rightarrow> Some (True, True, register source cid mc s)
     | OneShot start end_ \<Rightarrow>
         let start = (case start of Some t \<Rightarrow> t | None \<Rightarrow> now);
             with_end = (case end_ of Some e \<Rightarrow> insert_event e Deactivate cid | None \<Rightarrow> (\<lambda>s. s))
         in if (case end_ of Some e \<Rightarrow> e \<le> now | None \<Rightarrow> False) then Some (False, False, s)
            else if start \<le> now then Some (True, True, with_end (register source cid mc s))
            else Some (True, False, with_end (insert_event start Activate cid (register source cid mc s)))
     | Recurring cron duration until \<Rightarrow>
         Option.bind (occurrence_now C cron duration until now) (\<lambda>active_now.
           case active_now of
             Some e \<Rightarrow> Some (True, True, insert_event e Deactivate cid (register source cid mc s))
           | None \<Rightarrow>
               map_option (\<lambda>s. (True, False, s)) (schedule_next_occurrence C cid now (register source cid mc s))))"

definition ingest :: "cal_ops \<Rightarrow> text_chars \<Rightarrow> Contact \<Rightarrow> u32 \<Rightarrow> datetime \<Rightarrow> Scheduler \<Rightarrow>
    (bool \<times> bool \<times> PendingRouteOp option \<times> Scheduler) option" where
  "ingest C source contact default_priority now s =
    (let (cid, s) = alloc_id s;
         mc = \<lparr>mc_contact = contact, mc_priority = resolve_priority contact default_priority, mc_active = False\<rparr>
     in map_option (\<lambda>(added, activated, s).
          let (rop, s) = (if activated then activate_contact cid s else (None, s))
          in (added, activated, rop, s)) (ingest_schedule C source cid mc now s))"

section \<open>Removal\<close>

definition remove_contact :: "u64 \<Rightarrow> Scheduler \<Rightarrow> PendingRouteOp option \<times> Scheduler" where
  "remove_contact cid s =
    (let (rop, s) = deactivate_contact cid (cancel_events cid s)
     in (rop, s\<lparr>sc_contacts := hm_remove cid (sc_contacts s)\<rparr>))"

definition op_list :: "PendingRouteOp option \<Rightarrow> PendingRouteOp list" where
  "op_list rop = (case rop of Some x \<Rightarrow> [x] | None \<Rightarrow> [])"

fun remove_contacts :: "u64 list \<Rightarrow> Scheduler \<Rightarrow> PendingRouteOp list \<times> Scheduler" where
  "remove_contacts [] s = ([], s)"
| "remove_contacts (cid # cids) s =
    (let (rop, s) = remove_contact cid s; (rops, s) = remove_contacts cids s in (op_list rop @ rops, s))"

definition withdraw_source :: "text_chars \<Rightarrow> Scheduler \<Rightarrow> PendingRouteOp list \<times> Scheduler" where
  "withdraw_source source s =
    (case map_of (sc_sources s) source of
       None \<Rightarrow> ([], s)
     | Some cids \<Rightarrow> remove_contacts cids (s\<lparr>sc_sources := hm_remove source (sc_sources s)\<rparr>))"

text \<open>Removing a contact and taking it off the list of its source, as the handlers of remove and
  replace do.\<close>

definition remove_from_source :: "text_chars \<Rightarrow> u64 \<Rightarrow> Scheduler \<Rightarrow> PendingRouteOp option \<times> Scheduler" where
  "remove_from_source source cid s =
    (let (rop, s) = remove_contact cid s
     in (rop, s\<lparr>sc_sources := hm_modify source (filter (\<lambda>i. i \<noteq> cid)) (sc_sources s)\<rparr>))"

fun remove_matching :: "text_chars \<Rightarrow> Contact list \<Rightarrow> u64 list \<Rightarrow> u32 \<Rightarrow> Scheduler \<Rightarrow> u32 \<times> PendingRouteOp list \<times> Scheduler" where
  "remove_matching source contacts [] removed s = (removed, [], s)"
| "remove_matching source contacts (cid # cids) removed s =
    (case map_of (sc_contacts s) cid of
       None \<Rightarrow> remove_matching source contacts cids removed s
     | Some mc \<Rightarrow>
         if list_ex (\<lambda>c. contacts_match c (mc_contact mc)) contacts then
           let (rop, s) = remove_from_source source cid s;
               (removed, rops, s) = remove_matching source contacts cids (removed + 1) s
           in (removed, op_list rop @ rops, s)
         else remove_matching source contacts cids removed s)"

definition handle_remove :: "text_chars \<Rightarrow> Contact list \<Rightarrow> Scheduler \<Rightarrow> u32 \<times> PendingRouteOp list \<times> Scheduler" where
  "handle_remove source contacts s =
    (case map_of (sc_sources s) source of
       None \<Rightarrow> (0, [], s)
     | Some cids \<Rightarrow> remove_matching source contacts cids 0 s)"

section \<open>Addition and replacement\<close>

text \<open>The loop over the contacts of an add command: how many were added, how many of them are
  active, how many were skipped.\<close>

fun add_contacts :: "cal_ops \<Rightarrow> text_chars \<Rightarrow> Contact list \<Rightarrow> u32 \<Rightarrow> datetime \<Rightarrow> u32 \<times> u32 \<times> u32 \<Rightarrow> Scheduler \<Rightarrow>
    ((u32 \<times> u32 \<times> u32) \<times> PendingRouteOp list \<times> Scheduler) option" where
  "add_contacts C source [] default_priority now counts s = Some (counts, [], s)"
| "add_contacts C source (c # cs) default_priority now (added, active, skipped) s =
    Option.bind (ingest C source c default_priority now s) (\<lambda>(was_added, was_active, rop, s).
      let counts = (if was_added then (added + 1, if was_active then active + 1 else active, skipped)
                    else (added, active, skipped + 1))
      in map_option (\<lambda>(counts, rops, s). (counts, op_list rop @ rops, s))
           (add_contacts C source cs default_priority now counts s))"

fun remove_listed :: "text_chars \<Rightarrow> u64 list \<Rightarrow> Scheduler \<Rightarrow> PendingRouteOp list \<times> Scheduler" where
  "remove_listed source [] s = ([], s)"
| "remove_listed source (cid # cids) s =
    (let (rop, s) = remove_from_source source cid s; (rops, s) = remove_listed source cids s
     in (op_list rop @ rops, s))"

definition source_contacts :: "text_chars \<Rightarrow> Scheduler \<Rightarrow> (u64 \<times> Contact) list" where
  "source_contacts source s =
    List.map_filter (\<lambda>cid. map_option (\<lambda>mc. (cid, mc_contact mc)) (map_of (sc_contacts s) cid))
      (case map_of (sc_sources s) source of Some cids \<Rightarrow> cids | None \<Rightarrow> [])"

definition handle_replace :: "cal_ops \<Rightarrow> text_chars \<Rightarrow> Contact list \<Rightarrow> u32 \<Rightarrow> datetime \<Rightarrow> Scheduler \<Rightarrow>
    ((u32 \<times> u32 \<times> u32) \<times> PendingRouteOp list \<times> Scheduler) option" where
  "handle_replace C source contacts default_priority now s =
    (let old_contacts = source_contacts source s;
         kept = filter (\<lambda>(_, old). list_ex (\<lambda>c. contacts_match c old) contacts) old_contacts;
         to_remove = map fst (filter (\<lambda>(_, old). \<not> list_ex (\<lambda>c. contacts_match c old) contacts) old_contacts);
         to_add = filter (\<lambda>c. \<not> list_ex (\<lambda>(_, old). contacts_match c old) old_contacts) contacts;
         (rops, s) = remove_listed source to_remove s
     in map_option (\<lambda>((added, _, _), rops', s).
          ((added, of_nat (length to_remove), of_nat (length kept)), rops @ rops', s))
          (add_contacts C source to_add default_priority now (0, 0, 0) s))"

section \<open>Due events\<close>

definition fire_event :: "cal_ops \<Rightarrow> Event \<Rightarrow> Scheduler \<Rightarrow> (PendingRouteOp option \<times> Scheduler) option" where
  "fire_event C e s =
    (case ev_kind e of
       Activate \<Rightarrow> Some (activate_contact (ev_contact_id e) s)
     | Deactivate \<Rightarrow>
         let (rop, s) = deactivate_contact (ev_contact_id e) s
         in case map_of (sc_contacts s) (ev_contact_id e) of
              Some mc \<Rightarrow>
                (case ct_schedule (mc_contact mc) of
                   Recurring _ _ _ \<Rightarrow>
                     map_option (\<lambda>s. (rop, s)) (schedule_next_occurrence C (ev_contact_id e) (ev_time e) s)
                 | _ \<Rightarrow> Some (rop, s))
            | None \<Rightarrow> Some (rop, s))"

partial_function (option) process_due_events ::
    "cal_ops \<Rightarrow> datetime \<Rightarrow> Scheduler \<Rightarrow> (PendingRouteOp list \<times> Scheduler) option" where
  "process_due_events C now s =
    (case sc_timeline s of
       [] \<Rightarrow> Some ([], s)
     | e # es \<Rightarrow>
         if ev_time e > now then Some ([], s)
         else Option.bind (fire_event C e (s\<lparr>sc_timeline := es\<rparr>)) (\<lambda>(rop, s).
                Option.bind (process_due_events C now s) (\<lambda>(rops, s). Some (op_list rop @ rops, s))))"

declare process_due_events.simps [code]

section \<open>The task\<close>

datatype Command =
    CmdAdd text_chars "Contact list" u32
  | CmdRemove text_chars "Contact list"
  | CmdReplace text_chars "Contact list" u32
  | CmdWithdrawAll text_chars

datatype sched_reply =
    AddResult u32 u32 u32
  | RemoveResult u32
  | ReplaceResult u32 u32 u32

definition handle_command :: "cal_ops \<Rightarrow> datetime \<Rightarrow> Command \<Rightarrow> Scheduler \<Rightarrow>
    (sched_reply option \<times> PendingRouteOp list \<times> Scheduler) option" where
  "handle_command C now cmd s =
    (case cmd of
       CmdAdd source contacts priority \<Rightarrow>
         map_option (\<lambda>((added, active, skipped), rops, s). (Some (AddResult added active skipped), rops, s))
           (add_contacts C source contacts priority now (0, 0, 0) s)
     | CmdRemove source contacts \<Rightarrow>
         let (removed, rops, s) = handle_remove source contacts s in Some (Some (RemoveResult removed), rops, s)
     | CmdReplace source contacts priority \<Rightarrow>
         map_option (\<lambda>((added, removed, unchanged), rops, s). (Some (ReplaceResult added removed unchanged), rops, s))
           (handle_replace C source contacts priority now s)
     | CmdWithdrawAll source \<Rightarrow>
         let (rops, s) = withdraw_source source s in Some (None, rops, s))"

text \<open>One turn of the task at the time it reads from the clock: a command, or the wake-up.\<close>

definition scheduler_turn :: "cal_ops \<Rightarrow> datetime \<times> Command option \<Rightarrow> Scheduler \<Rightarrow> (PendingRouteOp list \<times> Scheduler) option" where
  "scheduler_turn C turn s =
    (case turn of
       (now, None) \<Rightarrow> process_due_events C now s
     | (now, Some cmd) \<Rightarrow> map_option (\<lambda>(_, rops, s). (rops, s)) (handle_command C now cmd s))"

fun scheduler_run :: "cal_ops \<Rightarrow> (datetime \<times> Command option) list \<Rightarrow> Scheduler \<Rightarrow> (PendingRouteOp list \<times> Scheduler) option" where
  "scheduler_run C [] s = Some ([], s)"
| "scheduler_run C (turn # turns) s =
    Option.bind (scheduler_turn C turn s) (\<lambda>(rops, s).
      map_option (\<lambda>(rops', s). (rops @ rops', s)) (scheduler_run C turns s))"

end
