(* ===== verification/Tvr_Cron_Laws.thy ===== *)
theory Tvr_Cron_Laws
  imports Tvr_Cron
begin

unbundle bit_operations_syntax

text \<open>
  Laws of cron expressions: what the search functions need of the calendar, that a forward search
  returns and finds the earliest match, and that a parsed expression selects values of its fields.
\<close>

section \<open>The documented calendar\<close>

text \<open>The order of dates, as a number.\<close>

definition date_key :: "cal_ops \<Rightarrow> datetime \<Rightarrow> int" where
  "date_key C dt = (cal_year C dt * 12 + (int (cal_month C dt) - 1)) * 31 + (int (cal_day C dt) - 1)"

text \<open>Documented behaviour of \<^verbatim>\<open>OffsetDateTime\<close> in UTC for the years from \<open>L\<close> to \<open>Y\<close>, when those and the
  year after \<open>Y\<close> are representable (the crate represents the years from -9999 to 9999, and its
  replacements and additions fail beyond): the clock fields are those of the number of nanoseconds, a
  date is the same for a whole day and later for every later day, a replacement of a field of a date in
  these years changes that field only, the year by one from \<open>L\<close> to \<open>Y + 1\<close>, and an addition to such a
  date of at most a day, or one that stays in these years, succeeds.\<close>

definition in_years :: "cal_ops \<Rightarrow> int \<Rightarrow> int \<Rightarrow> datetime \<Rightarrow> bool" where
  "in_years C L Y dt \<longleftrightarrow> L \<le> cal_year C dt \<and> cal_year C dt \<le> Y"

definition clock_spec :: "cal_ops \<Rightarrow> bool" where
  "clock_spec C \<longleftrightarrow> (\<forall>dt.
     cal_second C dt = nat (dt div second_ns mod 60) \<and>
     cal_minute C dt = nat (dt div minute_ns mod 60) \<and>
     cal_hour C dt = nat (dt div hour_ns mod 24))"

definition date_spec :: "cal_ops \<Rightarrow> bool" where
  "date_spec C \<longleftrightarrow>
     (\<forall>dt. 1 \<le> cal_month C dt \<and> cal_month C dt \<le> 12 \<and> 1 \<le> cal_day C dt \<and> cal_day C dt \<le> 31) \<and>
     (\<forall>dt u. dt div day_ns = u div day_ns \<longrightarrow>
        cal_year C dt = cal_year C u \<and> cal_month C dt = cal_month C u \<and> cal_day C dt = cal_day C u \<and>
        cal_weekday C dt = cal_weekday C u) \<and>
     (\<forall>dt u. dt div day_ns < u div day_ns \<longrightarrow> date_key C dt < date_key C u)"

definition replace_spec :: "cal_ops \<Rightarrow> int \<Rightarrow> int \<Rightarrow> bool" where
  "replace_spec C L Y \<longleftrightarrow> (\<forall>dt. in_years C L Y dt \<longrightarrow>
     replace_nanosecond C 0 dt = Some (dt - dt mod second_ns) \<and>
     replace_second C 0 dt = Some (dt - int (cal_second C dt) * second_ns) \<and>
     replace_minute C 0 dt = Some (dt - int (cal_minute C dt) * minute_ns) \<and>
     replace_hour C 0 dt = Some (dt - int (cal_hour C dt) * hour_ns) \<and>
     replace_day C 1 dt = Some (dt - (int (cal_day C dt) - 1) * day_ns) \<and>
     cal_year C (dt - (int (cal_day C dt) - 1) * day_ns) = cal_year C dt \<and>
     cal_month C (dt - (int (cal_day C dt) - 1) * day_ns) = cal_month C dt \<and>
     cal_day C (dt - (int (cal_day C dt) - 1) * day_ns) = 1 \<and>
     (cal_day C dt = 1 \<longrightarrow> (\<forall>m. 1 \<le> m \<and> m \<le> 12 \<longrightarrow> (\<exists>t. replace_month C m dt = Some t \<and>
        cal_year C t = cal_year C dt \<and> cal_month C t = m \<and> cal_day C t = 1 \<and> t mod day_ns = dt mod day_ns))) \<and>
     (cal_day C dt = 1 \<longrightarrow> (\<forall>y. L \<le> y \<and> y \<le> Y + 1 \<longrightarrow> (\<exists>t. replace_year C y dt = Some t \<and>
        cal_year C t = y \<and> cal_month C t = cal_month C dt \<and> cal_day C t = 1 \<and> t mod day_ns = dt mod day_ns))))"

definition add_spec :: "cal_ops \<Rightarrow> int \<Rightarrow> int \<Rightarrow> bool" where
  "add_spec C L Y \<longleftrightarrow> (\<forall>dt n. in_years C L Y dt \<longrightarrow> 0 \<le> n \<longrightarrow> n \<le> day_ns \<or> in_years C L Y (dt + n) \<longrightarrow>
     cal_add C dt n = Some (dt + n))"

definition cal_spec :: "cal_ops \<Rightarrow> int \<Rightarrow> int \<Rightarrow> bool" where
  "cal_spec C L Y \<longleftrightarrow> clock_spec C \<and> date_spec C \<and> replace_spec C L Y \<and> add_spec C L Y"

lemmas ns_defs = second_ns_def minute_ns_def hour_ns_def day_ns_def

text \<open>A calendar of twelve months of thirty days has these properties.\<close>

definition sample_cal :: cal_ops where
  "sample_cal =
    \<lparr>cal_year = \<lambda>dt. dt div day_ns div 30 div 12,
     cal_month = \<lambda>dt. nat (dt div day_ns div 30 mod 12) + 1,
     cal_day = \<lambda>dt. nat (dt div day_ns mod 30) + 1,
     cal_weekday = \<lambda>dt. nat (dt div day_ns mod 7),
     cal_hour = \<lambda>dt. nat (dt div hour_ns mod 24),
     cal_minute = \<lambda>dt. nat (dt div minute_ns mod 60),
     cal_second = \<lambda>dt. nat (dt div second_ns mod 60),
     replace_year = \<lambda>y dt. Some (dt + (y - dt div day_ns div 30 div 12) * (360 * day_ns)),
     replace_month = \<lambda>m dt. Some (dt + (int m - 1 - dt div day_ns div 30 mod 12) * (30 * day_ns)),
     replace_day = \<lambda>d dt. Some (dt + (int d - 1 - dt div day_ns mod 30) * day_ns),
     replace_hour = \<lambda>h dt. Some (dt + (int h - dt div hour_ns mod 24) * hour_ns),
     replace_minute = \<lambda>m dt. Some (dt + (int m - dt div minute_ns mod 60) * minute_ns),
     replace_second = \<lambda>s dt. Some (dt + (int s - dt div second_ns mod 60) * second_ns),
     replace_nanosecond = \<lambda>n dt. Some (dt - dt mod second_ns + int n),
     cal_add = \<lambda>dt n. Some (dt + n)\<rparr>"

lemma sample_fields:
  "cal_year sample_cal dt = dt div day_ns div 30 div 12"
  "cal_month sample_cal dt = nat (dt div day_ns div 30 mod 12) + 1"
  "cal_day sample_cal dt = nat (dt div day_ns mod 30) + 1"
  by (simp_all add: sample_cal_def)

lemma day_shift: "(dt + k * day_ns) div day_ns = dt div day_ns + k" "(dt + k * day_ns) mod day_ns = dt mod day_ns"
  by (simp_all add: ns_defs)

lemma sample_date_key: "date_key sample_cal dt = (dt div day_ns div 30) * 31 + dt div day_ns mod 30"
proof -
  let ?q = "dt div day_ns div 30"
  have "date_key sample_cal dt = (?q div 12 * 12 + ?q mod 12) * 31 + dt div day_ns mod 30"
    by (simp add: date_key_def sample_cal_def)
  then show ?thesis by simp
qed

lemma sample_key_mono:
  assumes "(a :: int) < b"
  shows "(a div 30) * 31 + a mod 30 < (b div 30) * 31 + b mod 30"
  using assms zdiv_mono1 [of a b 30] div_mult_mod_eq [of a 30] div_mult_mod_eq [of b 30]
    pos_mod_bound [of 30 a] pos_mod_sign [of 30 b]
  by (cases "a div 30 = b div 30") linarith+

lemma sample_month_day:
  fixes d :: int
  shows "(d - d mod 30) div 30 = d div 30" "(d - d mod 30) mod 30 = 0"
  by presburger+

lemma sample_set_month:
  fixes d :: int
  assumes "0 \<le> m" "m < 12"
  shows "(d + (m - d div 30 mod 12) * 30) div 30 div 12 = d div 30 div 12"
    "(d + (m - d div 30 mod 12) * 30) div 30 mod 12 = m" "(d + (m - d div 30 mod 12) * 30) mod 30 = d mod 30"
proof -
  let ?q = "d div 30"
  have eq: "(d + (m - ?q mod 12) * 30) div 30 = m + ?q div 12 * 12"
    using div_mult_mod_eq [of ?q 12] div_mult_self1 [of 30 d "m - ?q mod 12"] by linarith
  show "(d + (m - d div 30 mod 12) * 30) div 30 div 12 = ?q div 12"
    "(d + (m - d div 30 mod 12) * 30) div 30 mod 12 = m"
    using assms by (simp_all only: eq) simp_all
  show "(d + (m - d div 30 mod 12) * 30) mod 30 = d mod 30" by (rule mod_mult_self1)
qed

lemma sample_set_year:
  fixes d :: int
  shows "(d + (y - d div 30 div 12) * 360) div 30 div 12 = y"
    "(d + (y - d div 30 div 12) * 360) div 30 mod 12 = d div 30 mod 12"
    "(d + (y - d div 30 div 12) * 360) mod 30 = d mod 30"
proof -
  let ?q = "d div 30"
  have split: "d + (y - ?q div 12) * 360 = d + ((y - ?q div 12) * 12) * 30" by simp
  have eq: "(d + (y - ?q div 12) * 360) div 30 = ?q + (y - ?q div 12) * 12"
    unfolding split using div_mult_self1 [of 30 d "(y - ?q div 12) * 12"] by simp
  show "(d + (y - d div 30 div 12) * 360) div 30 div 12 = y"
    "(d + (y - d div 30 div 12) * 360) div 30 mod 12 = d div 30 mod 12"
    by (simp_all only: eq div_mult_self1 mod_mult_self1)
  show "(d + (y - d div 30 div 12) * 360) mod 30 = d mod 30"
    by (simp only: split mod_mult_self1)
qed

lemma sample_replace_spec: "replace_spec sample_cal L Y"
proof (unfold replace_spec_def, intro allI impI conjI)
  fix dt :: datetime
  let ?d = "dt div day_ns"
  have first: "(dt - (int (cal_day sample_cal dt) - 1) * day_ns) div day_ns = ?d - ?d mod 30"
    using day_shift(1) [of dt "- (?d mod 30)"] by (simp add: sample_cal_def)
  show "cal_year sample_cal (dt - (int (cal_day sample_cal dt) - 1) * day_ns) = cal_year sample_cal dt"
    "cal_month sample_cal (dt - (int (cal_day sample_cal dt) - 1) * day_ns) = cal_month sample_cal dt"
    "cal_day sample_cal (dt - (int (cal_day sample_cal dt) - 1) * day_ns) = 1"
    using first by (simp_all add: sample_cal_def sample_month_day)
next
  fix dt :: datetime and m :: nat
  let ?d = "dt div day_ns"
  define t where "t = dt + ((int m - 1 - ?d div 30 mod 12) * 30) * day_ns"
  assume "cal_day sample_cal dt = 1" and m: "1 \<le> m \<and> m \<le> 12"
  then have d1: "?d mod 30 = 0" by (simp add: sample_cal_def)
  have "0 \<le> int m - 1" "int m - 1 < 12" using m by auto
  note s = day_shift [of dt "(int m - 1 - ?d div 30 mod 12) * 30", folded t_def] sample_set_month [OF this, of ?d]
  have "replace_month sample_cal m dt = Some t" by (simp add: sample_cal_def t_def)
  moreover have "cal_year sample_cal t = cal_year sample_cal dt \<and> cal_month sample_cal t = m \<and>
      cal_day sample_cal t = 1 \<and> t mod day_ns = dt mod day_ns"
    unfolding sample_fields s using m d1 by (simp add: nat_diff_distrib)
  ultimately show "\<exists>t. replace_month sample_cal m dt = Some t \<and> cal_year sample_cal t = cal_year sample_cal dt \<and>
    cal_month sample_cal t = m \<and> cal_day sample_cal t = 1 \<and> t mod day_ns = dt mod day_ns"
    by blast
next
  fix dt :: datetime and y :: int
  let ?d = "dt div day_ns"
  define t where "t = dt + ((y - ?d div 30 div 12) * 360) * day_ns"
  assume "cal_day sample_cal dt = 1"
  then have d1: "?d mod 30 = 0" by (simp add: sample_cal_def)
  note s = day_shift [of dt "(y - ?d div 30 div 12) * 360", folded t_def] sample_set_year [of ?d y]
  have "replace_year sample_cal y dt = Some t" by (simp add: sample_cal_def t_def)
  moreover have "cal_year sample_cal t = y \<and> cal_month sample_cal t = cal_month sample_cal dt \<and>
      cal_day sample_cal t = 1 \<and> t mod day_ns = dt mod day_ns"
    unfolding sample_fields s using d1 by simp
  ultimately show "\<exists>t. replace_year sample_cal y dt = Some t \<and> cal_year sample_cal t = y \<and>
    cal_month sample_cal t = cal_month sample_cal dt \<and> cal_day sample_cal t = 1 \<and> t mod day_ns = dt mod day_ns"
    by blast
qed (simp_all add: sample_cal_def)

lemma sample_date_spec: "date_spec sample_cal"
proof -
  have "1 \<le> cal_month sample_cal dt \<and> cal_month sample_cal dt \<le> 12 \<and> 1 \<le> cal_day sample_cal dt \<and> cal_day sample_cal dt \<le> 31" for dt
    using pos_mod_bound [of 12 "dt div day_ns div 30"] pos_mod_bound [of 30 "dt div day_ns"]
    by (auto simp: sample_cal_def)
  then show ?thesis
    by (auto simp: date_spec_def sample_date_key sample_key_mono) (simp_all add: sample_cal_def)
qed

lemma sample_cal_spec: "cal_spec sample_cal L Y"
  by (simp add: cal_spec_def sample_replace_spec sample_date_spec clock_spec_def add_spec_def)
    (simp add: sample_cal_def)


section \<open>Moving forward\<close>

definition start_of :: "int \<Rightarrow> datetime \<Rightarrow> datetime" where
  "start_of n dt = dt div n * n"

definition aligned :: "datetime \<Rightarrow> bool" where
  "aligned dt \<longleftrightarrow> dt mod second_ns = 0"

lemma ns_pos [simp]: "0 < second_ns" "0 < minute_ns" "0 < hour_ns" "0 < day_ns"
  by (simp_all add: ns_defs)

lemma start_of_le: "0 < n \<Longrightarrow> start_of n dt \<le> dt"
  using div_mult_mod_eq [of dt n] pos_mod_sign [of n dt] unfolding start_of_def by linarith

lemma start_of_div: "0 < n \<Longrightarrow> start_of n dt div n = dt div n"
  by (simp add: start_of_def)

lemma start_of_field:
  assumes "0 < (a :: int)" "0 < b" "dt mod a = 0"
  shows "dt - int (nat (dt div a mod b)) * a = start_of (a * b) dt"
proof -
  have "dt div (a * b) = dt div a div b" using assms by (simp add: zdiv_zmult2_eq)
  then have "start_of (a * b) dt = (dt div a - dt div a mod b) * a"
    by (simp add: start_of_def minus_mod_eq_div_mult)
  also have "\<dots> = dt - (dt div a mod b) * a"
    using assms(3) div_mult_mod_eq [of dt a] by (simp add: left_diff_distrib)
  finally show ?thesis using assms by simp
qed

lemma start_of_start:
  assumes "0 < (a :: int)" "0 < b"
  shows "start_of (a * b) (start_of a dt) = start_of (a * b) dt"
  using assms by (simp add: start_of_def zdiv_zmult2_eq)

lemma start_of_mod [simp]: "start_of n dt mod n = 0"
  by (simp add: start_of_def)

lemma ns_steps: "minute_ns = second_ns * 60" "hour_ns = minute_ns * 60" "day_ns = hour_ns * 24"
  by (simp_all add: ns_defs)

lemma date_range:
  assumes "date_spec C"
  shows "1 \<le> int (cal_month C dt)" "int (cal_month C dt) \<le> 12" "1 \<le> int (cal_day C dt)" "int (cal_day C dt) \<le> 31"
proof -
  have "1 \<le> cal_month C dt \<and> cal_month C dt \<le> 12 \<and> 1 \<le> cal_day C dt \<and> cal_day C dt \<le> 31"
    using assms unfolding date_spec_def by blast
  then show "1 \<le> int (cal_month C dt)" "int (cal_month C dt) \<le> 12" "1 \<le> int (cal_day C dt)" "int (cal_day C dt) \<le> 31"
    by auto
qed

lemma same_day:
  assumes "date_spec C" "dt div day_ns = u div day_ns"
  shows "cal_year C dt = cal_year C u" "cal_month C dt = cal_month C u" "cal_day C dt = cal_day C u"
    "cal_weekday C dt = cal_weekday C u"
  using assms unfolding date_spec_def by blast+

lemma later_day: "date_spec C \<Longrightarrow> dt div day_ns < u div day_ns \<Longrightarrow> date_key C dt < date_key C u"
  unfolding date_spec_def by blast

lemma key_mono:
  assumes "date_spec C" "dt \<le> u"
  shows "date_key C dt \<le> date_key C u"
proof (cases "dt div day_ns = u div day_ns")
  case True
  then show ?thesis by (simp add: date_key_def same_day [OF assms(1) True])
next
  case False
  moreover have "dt div day_ns \<le> u div day_ns" using assms(2) by (simp add: zdiv_mono1)
  ultimately show ?thesis using later_day [OF assms(1), of dt u] by simp
qed

lemma key_fields:
  fixes y m d y' m' d' :: int
  assumes "1 \<le> m" "m \<le> 12" "1 \<le> d" "d \<le> 31" "1 \<le> m'" "m' \<le> 12" "1 \<le> d'" "d' \<le> 31"
    and le: "(y * 12 + (m - 1)) * 31 + (d - 1) \<le> (y' * 12 + (m' - 1)) * 31 + (d' - 1)"
  shows "y \<le> y'" "(y' * 12 + (m' - 1)) * 31 + (d' - 1) < (y * 12 + m) * 31 \<Longrightarrow> m' = m"
proof -
  show "y \<le> y'" using assms by auto
  show "m' = m" if lt: "(y' * 12 + (m' - 1)) * 31 + (d' - 1) < (y * 12 + m) * 31"
  proof -
    have "y' \<le> y" using assms lt by auto
    with \<open>y \<le> y'\<close> have "y' = y" by simp
    with assms lt show ?thesis by auto
  qed
qed

lemma year_mono:
  assumes "date_spec C" "dt \<le> u"
  shows "cal_year C dt \<le> cal_year C u"
  using key_fields(1) [OF date_range [OF assms(1), of dt] date_range [OF assms(1), of u]] key_mono [OF assms]
  unfolding date_key_def by blast

lemma start_of_day: "0 < b \<Longrightarrow> 0 < n \<Longrightarrow> start_of n dt div (n * b) = dt div (n * (b :: int))"
  by (simp add: start_of_def zdiv_zmult2_eq)

lemma start_same_day:
  "start_of second_ns dt div day_ns = dt div day_ns" "start_of minute_ns dt div day_ns = dt div day_ns"
  "start_of hour_ns dt div day_ns = dt div day_ns" "start_of day_ns dt div day_ns = dt div day_ns"
  using start_of_day [of 86400 second_ns dt] start_of_day [of 1440 minute_ns dt] start_of_day [of 24 hour_ns dt]
    start_of_day [of 1 day_ns dt]
  by (simp_all add: ns_defs)

lemma year_start:
  assumes "cal_spec C L Y" and "in_years C L Y dt" and "n \<in> {second_ns, minute_ns, hour_ns, day_ns}"
  shows "in_years C L Y (start_of n dt)"
proof -
  have "start_of n dt div day_ns = dt div day_ns" using assms(3) start_same_day by auto
  then show ?thesis using assms(1,2) same_day(1) [of C "start_of n dt" dt] by (simp add: cal_spec_def in_years_def)
qed

lemma replace_to_start:
  assumes C: "cal_spec C L Y" and y: "in_years C L Y dt"
  shows "aligned dt \<Longrightarrow> replace_second C 0 dt = Some (start_of minute_ns dt)"
    "replace_minute C 0 (start_of minute_ns dt) = Some (start_of hour_ns dt)"
    "replace_hour C 0 (start_of hour_ns dt) = Some (start_of day_ns dt)"
proof -
  have r: "in_years C L Y x \<Longrightarrow> replace_second C 0 x = Some (x - int (nat (x div second_ns mod 60)) * second_ns) \<and>
      replace_minute C 0 x = Some (x - int (nat (x div minute_ns mod 60)) * minute_ns) \<and>
      replace_hour C 0 x = Some (x - int (nat (x div hour_ns mod 24)) * hour_ns)" for x
    using C unfolding cal_spec_def replace_spec_def clock_spec_def by metis
  show "replace_second C 0 dt = Some (start_of minute_ns dt)" if "aligned dt"
    using r [OF y] that start_of_field [of second_ns 60 dt] by (simp add: aligned_def ns_steps(1))
  show "replace_minute C 0 (start_of minute_ns dt) = Some (start_of hour_ns dt)"
    using r [OF year_start [OF C y]] start_of_field [of minute_ns 60 "start_of minute_ns dt"]
      start_of_start [of minute_ns 60 dt] by (simp add: ns_steps(2))
  show "replace_hour C 0 (start_of hour_ns dt) = Some (start_of day_ns dt)"
    using r [OF year_start [OF C y]] start_of_field [of hour_ns 24 "start_of hour_ns dt"]
      start_of_start [of hour_ns 24 dt] by (simp add: ns_steps(3))
qed

lemma add_ok: "cal_spec C L Y \<Longrightarrow> in_years C L Y dt \<Longrightarrow> 0 \<le> n \<Longrightarrow> n \<le> day_ns \<Longrightarrow> cal_add C dt n = Some (dt + n)"
  unfolding cal_spec_def add_spec_def by blast

lemma advance_clock:
  assumes C: "cal_spec C L Y" and y: "in_years C L Y dt" and al: "aligned dt"
  shows "advance_minute C dt = Some (Some (start_of minute_ns dt + minute_ns))"
    "advance_hour C dt = Some (Some (start_of hour_ns dt + hour_ns))"
    "advance_day C dt = Some (Some (start_of day_ns dt + day_ns))"
proof -
  note r = replace_to_start [OF C y] and ys = year_start [OF C y]
  have a: "cal_add C (start_of minute_ns dt) minute_ns = Some (start_of minute_ns dt + minute_ns)"
    "cal_add C (start_of hour_ns dt) hour_ns = Some (start_of hour_ns dt + hour_ns)"
    "cal_add C (start_of day_ns dt) day_ns = Some (start_of day_ns dt + day_ns)"
    by (rule add_ok [OF C ys]; simp add: ns_defs)+
  show "advance_minute C dt = Some (Some (start_of minute_ns dt + minute_ns))"
    "advance_hour C dt = Some (Some (start_of hour_ns dt + hour_ns))"
    "advance_day C dt = Some (Some (start_of day_ns dt + day_ns))"
    using r al a by (simp_all add: advance_minute_def advance_hour_def advance_day_def try_ok_def must_def)
qed

text \<open>Advancing the month lands on the first instant of the following one, and every instant on the
  way has the month left.\<close>

lemma first_of_month:
  assumes C: "cal_spec C L Y" and y: "in_years C L Y dt" and mid: "dt mod day_ns = 0"
  obtains first where "replace_day C 1 dt = Some first" "first mod day_ns = 0" "cal_day C first = 1"
    "cal_year C first = cal_year C dt" "cal_month C first = cal_month C dt"
proof -
  let ?first = "dt - (int (cal_day C dt) - 1) * day_ns"
  have D: "date_spec C" using C by (simp add: cal_spec_def)
  have "replace_day C 1 dt = Some ?first" "cal_day C ?first = 1" "cal_year C ?first = cal_year C dt"
    "cal_month C ?first = cal_month C dt"
    using C y unfolding cal_spec_def replace_spec_def by blast+
  moreover have "?first mod day_ns = 0" using mid day_shift(2) [of dt "1 - int (cal_day C dt)"] by (simp add: algebra_simps)
  ultimately show ?thesis using that [of ?first] by simp
qed

lemma next_month:
  assumes C: "cal_spec C L Y" and y: "in_years C L Y first" and day: "cal_day C first = 1"
    and mid: "first mod day_ns = 0"
    and m: "m = month_next (cal_month C first)"
    and yr: "yr = (if m = 1 then cal_year C first + 1 else cal_year C first)"
  obtains t where "Option.bind (replace_month C m first) (replace_year C yr) = Some t" "t mod day_ns = 0"
    "cal_year C t = yr" "cal_month C t = m" "cal_day C t = 1"
proof -
  have D: "date_spec C" using C by (simp add: cal_spec_def)
  have range: "1 \<le> m" "m \<le> 12"
    using date_range [OF D, of first] by (auto simp: m month_next_def)
  obtain s where s: "replace_month C m first = Some s" "cal_year C s = cal_year C first" "cal_month C s = m"
      "cal_day C s = 1" "s mod day_ns = first mod day_ns"
    using C y day range unfolding cal_spec_def replace_spec_def by meson
  have "L \<le> yr" "yr \<le> Y + 1" using y by (simp_all add: yr in_years_def)
  then obtain t where "replace_year C yr s = Some t" "cal_year C t = yr" "cal_month C t = cal_month C s"
      "cal_day C t = 1" "t mod day_ns = s mod day_ns"
    using C y s(2,4) unfolding cal_spec_def replace_spec_def in_years_def by metis
  with s mid show ?thesis using that [of t] by simp
qed

lemma before_next_month:
  assumes D: "date_spec C" and t: "t mod day_ns = 0" "cal_day C t = 1" "cal_month C t = month_next (cal_month C dt)"
      "cal_year C t = (if month_next (cal_month C dt) = 1 then cal_year C dt + 1 else cal_year C dt)"
  shows "dt < t" "dt \<le> u \<Longrightarrow> u < t \<Longrightarrow> cal_month C u = cal_month C dt"
proof -
  have key: "date_key C t = (cal_year C dt * 12 + int (cal_month C dt)) * 31"
    using t date_range(1) [OF D, of dt] by (auto simp: date_key_def month_next_def)
  have up: "date_key C u < date_key C t" if "u < t" for u
  proof -
    have "u div day_ns * day_ns < t div day_ns * day_ns"
      using that t(1) div_mult_mod_eq [of t day_ns] div_mult_mod_eq [of u day_ns] pos_mod_sign [of day_ns u] ns_pos(4)
      by linarith
    then show ?thesis by (auto intro: later_day [OF D])
  qed
  have "date_key C dt < date_key C t"
    unfolding key unfolding date_key_def using date_range [OF D, of dt] by simp
  then show "dt < t" using key_mono [OF D, of t dt] by linarith
  show "cal_month C u = cal_month C dt" if le: "dt \<le> u" and lt: "u < t"
  proof -
    have "date_key C dt \<le> date_key C u" "date_key C u < (cal_year C dt * 12 + int (cal_month C dt)) * 31"
      using up [OF lt] key_mono [OF D le] key by auto
    then show ?thesis
      using key_fields(2) [OF date_range [OF D, of dt] date_range [OF D, of u]] unfolding date_key_def by simp
  qed
qed

lemma advance_month_ok:
  assumes C: "cal_spec C L Y" and y: "in_years C L Y dt" and al: "aligned dt"
  obtains t where "advance_month C dt = Some (Some t)" "dt < t" "t mod day_ns = 0"
    "\<forall>u. dt \<le> u \<longrightarrow> u < t \<longrightarrow> cal_month C u = cal_month C dt"
proof -
  have D: "date_spec C" using C by (simp add: cal_spec_def)
  let ?d = "start_of day_ns dt"
  have same: "cal_year C ?d = cal_year C dt" "cal_month C ?d = cal_month C dt"
    using same_day [OF D, of ?d dt] by (simp_all add: start_of_div)
  have yd: "in_years C L Y ?d" using year_start [OF C y] by simp
  obtain first where f: "replace_day C 1 ?d = Some first" "first mod day_ns = 0" "cal_day C first = 1"
      "cal_year C first = cal_year C dt" "cal_month C first = cal_month C dt"
    by (rule first_of_month [OF C yd start_of_mod, unfolded same])
  let ?m = "month_next (cal_month C first)"
  let ?y = "if ?m = 1 then cal_year C first + 1 else cal_year C first"
  have yf: "in_years C L Y first" using f(4) y by (simp add: in_years_def)
  obtain t where t: "Option.bind (replace_month C ?m first) (replace_year C ?y) = Some t" "t mod day_ns = 0"
      "cal_year C t = ?y" "cal_month C t = ?m" "cal_day C t = 1"
    by (rule next_month [OF C yf f(3) f(2) refl refl])
  have adv: "advance_month C dt = Some (Some t)"
    using replace_to_start [OF C y] al f(1) t(1) by (simp add: advance_month_def try_ok_def Let_def)
  note b = before_next_month [OF D t(2,5) t(4) [unfolded f(5)] t(3) [unfolded f(4,5)]]
  show ?thesis by (rule that [OF adv b(1) t(2)]) (intro allI impI, rule b(2))
qed

section \<open>The forward search\<close>

text \<open>An instant matches when every field of it is selected.\<close>

definition cron_matches :: "cal_ops \<Rightarrow> CronExpr \<Rightarrow> datetime \<Rightarrow> bool" where
  "cron_matches C c dt \<longleftrightarrow>
     selects (cron_second c) (cal_second C dt) \<and>
     selects (cron_minute c) (cal_minute C dt) \<and>
     selects (cron_hour c) (cal_hour C dt) \<and>
     selects (cron_dom c) (cal_day C dt) \<and>
     selects (cron_month c) (cal_month C dt) \<and>
     selects (cron_dow c) (cal_weekday C dt)"

text \<open>A turn either returns a match or moves on past instants none of which match.\<close>

definition skips_to :: "cal_ops \<Rightarrow> CronExpr \<Rightarrow> datetime \<Rightarrow> datetime \<Rightarrow> bool" where
  "skips_to C c dt t \<longleftrightarrow> dt < t \<and> aligned t \<and>
     (\<forall>u. aligned u \<longrightarrow> dt \<le> u \<longrightarrow> u < t \<longrightarrow> \<not> cron_matches C c u)"

lemma start_of_span:
  assumes "0 < n" "dt \<le> u" "u < start_of n dt + n"
  shows "u div n = dt div n"
proof -
  have "start_of n dt \<le> u" using start_of_le [OF assms(1), of dt] assms(2) by simp
  then have "0 \<le> u - dt div n * n" "u - dt div n * n < n" using assms(3) by (simp_all add: start_of_def)
  then show ?thesis using int_div_pos_eq [of u n "dt div n" "u - dt div n * n"] by (simp add: mult.commute)
qed

lemma start_of_next: "0 < n \<Longrightarrow> dt < start_of n dt + n"
  using div_mult_mod_eq [of dt n] pos_mod_bound [of n dt] unfolding start_of_def by linarith

lemma aligned_start: "aligned (start_of minute_ns dt + minute_ns)" "aligned (start_of hour_ns dt + hour_ns)"
    "aligned (start_of day_ns dt + day_ns)" "t mod day_ns = 0 \<Longrightarrow> aligned t"
  by (simp_all add: aligned_def start_of_def ns_defs mod_eq_0_iff_dvd) (auto simp: dvd_def)

lemma next_turn_ok:
  assumes C: "cal_spec C L Y" and y: "in_years C L Y dt" and al: "aligned dt"
  shows "next_turn C c dt = Some (Some (Inr dt)) \<and> cron_matches C c dt \<or>
    (\<exists>t. next_turn C c dt = Some (Some (Inl t)) \<and> skips_to C c dt t)"
proof -
  have D: "date_spec C" and K: "clock_spec C" using C by (simp_all add: cal_spec_def)
  note adv = advance_clock [OF C y al]
  obtain t where t: "advance_month C dt = Some (Some t)" "dt < t" "t mod day_ns = 0"
      "\<forall>u. dt \<le> u \<longrightarrow> u < t \<longrightarrow> cal_month C u = cal_month C dt"
    by (rule advance_month_ok [OF C y al])
  have day: "cal_day C u = cal_day C dt" "cal_weekday C u = cal_weekday C dt"
    if "dt \<le> u" "u < start_of day_ns dt + day_ns" for u
    using same_day [OF D start_of_span [OF _ that]] by simp_all
  have hour: "cal_hour C u = cal_hour C dt" if "dt \<le> u" "u < start_of hour_ns dt + hour_ns" for u
    using start_of_span [OF _ that] K by (simp add: clock_spec_def)
  have minute: "cal_minute C u = cal_minute C dt" if "dt \<le> u" "u < start_of minute_ns dt + minute_ns" for u
    using start_of_span [OF _ that] K by (simp add: clock_spec_def)
  have one: "u = dt" if "aligned u" "dt \<le> u" "u < dt + second_ns" for u
    using that al start_of_span [of second_ns dt u] div_mult_mod_eq [of u second_ns] div_mult_mod_eq [of dt second_ns]
    by (simp add: aligned_def start_of_def)
  have sec: "cal_add C dt second_ns = Some (dt + second_ns)" "aligned (dt + second_ns)"
    using add_ok [OF C y, of second_ns] al by (simp_all add: aligned_def ns_defs)
  consider (m) "\<not> selects (cron_month c) (cal_month C dt)"
    | (d) "selects (cron_month c) (cal_month C dt)"
        "\<not> selects (cron_dom c) (cal_day C dt) \<or> \<not> selects (cron_dow c) (cal_weekday C dt)"
    | (h) "selects (cron_month c) (cal_month C dt)" "selects (cron_dom c) (cal_day C dt)"
        "selects (cron_dow c) (cal_weekday C dt)"
    by blast
  then show ?thesis
  proof cases
    case m
    have "\<not> cron_matches C c u" if "dt \<le> u" "u < t" for u
      using m t(4) [rule_format, OF that] by (simp add: cron_matches_def)
    then have "skips_to C c dt t" using t(2) aligned_start(4) [OF t(3)] by (simp add: skips_to_def)
    with m t(1) show ?thesis by (simp add: next_turn_def cron_turn_def Let_def)
  next
    case d
    have "\<not> cron_matches C c u" if "dt \<le> u" "u < start_of day_ns dt + day_ns" for u
      using d(2) day [OF that] by (auto simp: cron_matches_def)
    then have "skips_to C c dt (start_of day_ns dt + day_ns)"
      using start_of_next [of day_ns dt] aligned_start(3) by (simp add: skips_to_def)
    with d adv(3) show ?thesis by (auto simp: next_turn_def cron_turn_def Let_def)
  next
    case h
    have "\<not> cron_matches C c u" if "\<not> selects (cron_hour c) (cal_hour C dt)"
      "dt \<le> u" "u < start_of hour_ns dt + hour_ns" for u
      using that(1) hour [OF that(2,3)] by (simp add: cron_matches_def)
    then have hs: "skips_to C c dt (start_of hour_ns dt + hour_ns)" if "\<not> selects (cron_hour c) (cal_hour C dt)"
      using that start_of_next [of hour_ns dt] aligned_start(2) by (simp add: skips_to_def)
    have "\<not> cron_matches C c u" if "\<not> selects (cron_minute c) (cal_minute C dt)"
      "dt \<le> u" "u < start_of minute_ns dt + minute_ns" for u
      using that(1) minute [OF that(2,3)] by (simp add: cron_matches_def)
    then have ms: "skips_to C c dt (start_of minute_ns dt + minute_ns)" if "\<not> selects (cron_minute c) (cal_minute C dt)"
      using that start_of_next [of minute_ns dt] aligned_start(1) by (simp add: skips_to_def)
    have "\<not> cron_matches C c u" if "\<not> selects (cron_second c) (cal_second C dt)"
      "aligned u" "dt \<le> u" "u < dt + second_ns" for u
      using that(1) one [OF that(2-4)] by (simp add: cron_matches_def)
    then have ss: "skips_to C c dt (dt + second_ns)" if "\<not> selects (cron_second c) (cal_second C dt)"
      using that sec by (simp add: skips_to_def)
    show ?thesis using h adv(1,2) sec(1) hs ms ss
      by (simp add: next_turn_def cron_turn_def Let_def must_def) (simp add: cron_matches_def)
  qed
qed

text \<open>The outcome of a search from \<open>dt\<close> to \<open>limit\<close>: the earliest match, or none.\<close>

definition earliest_match :: "cal_ops \<Rightarrow> CronExpr \<Rightarrow> datetime \<Rightarrow> datetime \<Rightarrow> datetime option \<Rightarrow> bool" where
  "earliest_match C c dt limit r =
    (case r of
       None \<Rightarrow> \<forall>u. aligned u \<longrightarrow> dt \<le> u \<longrightarrow> u \<le> limit \<longrightarrow> \<not> cron_matches C c u
     | Some t \<Rightarrow> aligned t \<and> dt \<le> t \<and> t \<le> limit \<and> cron_matches C c t \<and>
         (\<forall>u. aligned u \<longrightarrow> dt \<le> u \<longrightarrow> u < t \<longrightarrow> \<not> cron_matches C c u))"

lemma earliest_skip:
  assumes "skips_to C c dt t" "earliest_match C c t limit r"
  shows "earliest_match C c dt limit r"
proof -
  have none: "\<not> cron_matches C c u" if "aligned u" "dt \<le> u" "u < t" for u
    using assms(1) that by (simp add: skips_to_def)
  have "\<not> cron_matches C c u" if "aligned u" "dt \<le> u" "t \<le> u \<Longrightarrow> \<not> cron_matches C c u" for u
    using none that by (cases "u < t") auto
  then show ?thesis using assms by (auto simp: earliest_match_def skips_to_def split: option.splits)
qed

lemma next_loop_ok:
  assumes C: "cal_spec C L Y" and lim: "cal_year C limit \<le> Y" and "aligned dt" and "L \<le> cal_year C dt"
  shows "\<exists>r. next_loop C c limit dt = Some r \<and> earliest_match C c dt limit r"
  using assms(3,4)
proof (induction "nat (limit + 1 - dt)" arbitrary: dt rule: less_induct)
  case less
  show ?case
  proof (cases "dt \<le> limit")
    case False
    then show ?thesis by (auto simp: next_loop.simps earliest_match_def)
  next
    case True
    have "in_years C L Y dt" using year_mono [OF _ True, of C] C lim less.prems(2) by (simp add: cal_spec_def in_years_def)
    from next_turn_ok [OF C this less.prems(1), of c] show ?thesis
    proof (elim disjE exE conjE)
      assume "next_turn C c dt = Some (Some (Inr dt))" "cron_matches C c dt"
      with True less.prems show ?thesis by (simp add: next_loop.simps [of C c limit dt] earliest_match_def)
    next
      fix t assume t: "next_turn C c dt = Some (Some (Inl t))" "skips_to C c dt t"
      then have "nat (limit + 1 - t) < nat (limit + 1 - dt)" "aligned t" using True by (auto simp: skips_to_def)
      moreover have "L \<le> cal_year C t"
        using year_mono [of C dt t] C less.prems(2) t(2) by (simp add: cal_spec_def skips_to_def)
      ultimately obtain r where "next_loop C c limit t = Some r" "earliest_match C c t limit r"
        using less.hyps by blast
      with True t show ?thesis by (simp add: next_loop.simps [of C c limit dt] earliest_skip)
    qed
  qed
qed

text \<open>Where a search starts: at the second, or at the minute, of the instant given.\<close>

definition search_from :: "CronExpr \<Rightarrow> datetime \<Rightarrow> datetime" where
  "search_from c t = start_of (if has_seconds c then second_ns else minute_ns) t"

lemma search_start_ok:
  assumes C: "cal_spec C L Y" and y: "in_years C L Y t"
  shows "search_start C c t = Some (search_from c t)" "aligned (search_from c t)" "search_from c t \<le> t"
proof -
  have n: "replace_nanosecond C 0 t = Some (start_of second_ns t)"
    using C y unfolding cal_spec_def replace_spec_def start_of_def minus_mod_eq_div_mult by blast
  have "aligned (start_of second_ns t)" by (simp add: aligned_def)
  then have "replace_second C 0 (start_of second_ns t) = Some (start_of minute_ns t)"
    using replace_to_start(1) [OF C year_start [OF C y]] start_of_start [of second_ns 60 t] by (simp add: ns_steps(1))
  with n show "search_start C c t = Some (search_from c t)" by (simp add: search_start_def search_from_def)
  show "aligned (search_from c t)"
    by (auto simp: aligned_def search_from_def start_of_def ns_defs)
  show "search_from c t \<le> t" by (simp add: search_from_def start_of_le)
qed

lemma search_from_year:
  assumes "date_spec C"
  shows "cal_year C (search_from c t) = cal_year C t"
  using same_day(1) [OF assms, of "search_from c t" t] by (simp add: search_from_def start_same_day)

lemma next_after_ok:
  assumes C: "cal_spec C L Y" and l: "L \<le> cal_year C after" and y: "cal_year C (after + SEARCH_DAYS * day_ns) \<le> Y"
  shows "\<exists>r. next_after C c after = Some r \<and>
    earliest_match C c (search_from c after) (after + SEARCH_DAYS * day_ns) r"
proof -
  have pos: "0 \<le> SEARCH_DAYS * day_ns" by (simp add: SEARCH_DAYS_def ns_defs)
  have D: "date_spec C" using C by (simp add: cal_spec_def)
  have le: "cal_year C after \<le> cal_year C (after + SEARCH_DAYS * day_ns)" using pos by (intro year_mono [OF D]) simp
  have ya: "in_years C L Y after" "in_years C L Y (after + SEARCH_DAYS * day_ns)"
    using le l y by (simp_all add: in_years_def)
  have "cal_add C after (SEARCH_DAYS * day_ns) = Some (after + SEARCH_DAYS * day_ns)"
    using C ya pos unfolding cal_spec_def add_spec_def by blast
  with search_start_ok [OF C ya(1)] next_loop_ok [OF C y] l show ?thesis
    by (simp add: next_after_def try_ok_def search_from_year [OF D])
qed

end
