(* ===== verification/Tvr_Scheduler_Laws.thy ===== *)
theory Tvr_Scheduler_Laws
  imports Tvr_Scheduler Tvr_Cron_Laws
begin

text \<open>
  Laws of the contact scheduler. The counted routes are those of the active contacts, and the
  operations passed to the routing sink keep the sink's routes equal to them.
\<close>

section \<open>Counting entries of a hash map\<close>

definition hm_count :: "('v \<Rightarrow> bool) \<Rightarrow> ('k \<times> 'v) list \<Rightarrow> nat" where
  "hm_count P m = length (filter (\<lambda>e. P (snd e)) m)"

lemma hm_modify_absent: "k \<notin> fst ` set m \<Longrightarrow> hm_modify k f m = m"
  by (induction m) (auto simp: hm_modify_def)

lemma hm_count_modify:
  assumes "hm_ok m" "map_of m k = Some v"
  shows "hm_count P (hm_modify k f m) + (if P v then 1 else 0) = hm_count P m + (if P (f v) then 1 else 0)"
  using assms
proof (induction m)
  case (Cons e m)
  show ?case
  proof (cases "fst e = k")
    case True
    then have "hm_modify k f m = m"
      using Cons.prems(1) by (auto simp: hm_ok_def intro: hm_modify_absent)
    then show ?thesis using True Cons.prems by (cases e) (simp add: hm_count_def hm_modify_def)
  next
    case False
    then show ?thesis using Cons by (cases e) (auto simp: hm_count_def hm_modify_def hm_ok_def)
  qed
qed simp

lemma hm_remove_absent: "k \<notin> fst ` set m \<Longrightarrow> hm_remove k m = m"
  by (auto simp: hm_remove_def intro!: filter_True)

lemma hm_count_remove:
  assumes "hm_ok m" "map_of m k = Some v"
  shows "hm_count P (hm_remove k m) + (if P v then 1 else 0) = hm_count P m"
  using assms
proof (induction m)
  case (Cons e m)
  show ?case
  proof (cases "fst e = k")
    case True
    then have "hm_remove k m = m" using Cons.prems(1) by (auto simp: hm_ok_def intro: hm_remove_absent)
    then show ?thesis using True Cons.prems by (cases e) (simp add: hm_count_def hm_remove_def)
  next
    case False
    then show ?thesis using Cons by (cases e) (auto simp: hm_count_def hm_remove_def hm_ok_def)
  qed
qed simp

lemma hm_count_put_fresh: "map_of m k = None \<Longrightarrow> hm_count P (hm_put k v m) = hm_count P m + (if P v then 1 else 0)"
  by (simp add: hm_put_fresh hm_count_def)

lemma hm_count_pos: "map_of m k = Some v \<Longrightarrow> P v \<Longrightarrow> hm_count P m \<noteq> 0"
  by (force simp: hm_count_def filter_empty_conv dest: map_of_SomeD)

lemma hm_count_length: "hm_count P m \<le> length m"
  by (simp add: hm_count_def)

lemma hm_keys_modify [simp]: "fst ` set (hm_modify k f m) = fst ` set m"
  by (force simp: hm_modify_def image_iff)

lemma hm_put_mem: "e \<in> set (hm_put k v m) \<Longrightarrow> e = (k, v) \<or> e \<in> set m"
  by (auto simp: hm_put_def)

lemma hm_remove_mem: "e \<in> set (hm_remove k m) \<Longrightarrow> e \<in> set m"
  by (auto simp: hm_remove_def)

section \<open>Counted routes\<close>

definition provides :: "RouteKey \<Rightarrow> ManagedContact \<Rightarrow> bool" where
  "provides key mc \<longleftrightarrow> mc_active mc \<and> route_key mc = key"

definition active_count :: "Scheduler \<Rightarrow> RouteKey \<Rightarrow> nat" where
  "active_count s key = hm_count (provides key) (sc_contacts s)"

text \<open>The routes of the active contacts.\<close>

definition active_routes :: "Scheduler \<Rightarrow> RouteKey set" where
  "active_routes s = set (map (route_key \<circ> snd) (filter (mc_active \<circ> snd) (sc_contacts s)))"

lemma active_routes_iff: "key \<in> active_routes s \<longleftrightarrow> active_count s key \<noteq> 0"
  by (auto simp: active_routes_def active_count_def hm_count_def provides_def filter_empty_conv)

text \<open>The invariant, while \<open>m\<close> more contacts may be submitted: a count per provided route, and fresh
  identifiers.\<close>

definition sched_ok :: "nat \<Rightarrow> Scheduler \<Rightarrow> bool" where
  "sched_ok m s \<longleftrightarrow> hm_ok (sc_contacts s) \<and> hm_ok (sc_route_refs s) \<and>
     unat (sc_next_id s) + m < 2 ^ 32 \<and> (\<forall>i \<in> fst ` set (sc_contacts s). i < sc_next_id s) \<and>
     (\<forall>key. map_of (sc_route_refs s) key =
        (if active_count s key = 0 then None else Some (of_nat (active_count s key))))"

lemma distinct_below:
  assumes "distinct ws" "\<forall>w \<in> set ws. w < (n :: 'a::len word)"
  shows "length ws \<le> unat n"
proof -
  have "inj_on unat (set ws)" by (rule inj_onI) (simp add: word_unat_eq_iff)
  then have "length ws = card (unat ` set ws)"
    using assms(1) by (simp add: card_image distinct_card)
  also have "\<dots> \<le> card {..<unat n}"
    using assms(2) by (intro card_mono) (auto simp: word_less_nat_alt)
  finally show ?thesis by simp
qed

lemma active_count_bound:
  assumes "sched_ok m s"
  shows "active_count s key < 2 ^ 32"
proof -
  have "length (map fst (sc_contacts s)) \<le> unat (sc_next_id s)"
    using assms by (intro distinct_below) (auto simp: sched_ok_def hm_ok_def)
  then show ?thesis
    using assms hm_count_length [of "provides key" "sc_contacts s"] by (simp add: active_count_def sched_ok_def)
qed

lemma sched_ok_frame:
  assumes "sc_contacts s' = sc_contacts s" "sc_route_refs s' = sc_route_refs s" "sc_next_id s' = sc_next_id s"
  shows "sched_ok m s' = sched_ok m s" "active_routes s' = active_routes s"
  using assms by (simp_all add: sched_ok_def active_count_def active_routes_def)

section \<open>The routing sink\<close>

text \<open>The routes a sink holds; an operation that adds a route already held or removes one not held
  has no result.\<close>

fun sink_op :: "PendingRouteOp \<Rightarrow> RouteKey set \<Rightarrow> RouteKey set option" where
  "sink_op (AddRoute k) R = (if k \<in> R then None else Some (insert k R))"
| "sink_op (RemoveRoute k) R = (if k \<in> R then Some (R - {k}) else None)"

fun sink_ops :: "PendingRouteOp list \<Rightarrow> RouteKey set \<Rightarrow> RouteKey set option" where
  "sink_ops [] R = Some R"
| "sink_ops (rop # rops) R = Option.bind (sink_op rop R) (sink_ops rops)"

lemma sink_ops_append: "sink_ops (a @ b) R = Option.bind (sink_ops a R) (sink_ops b)"
  by (induction a arbitrary: R) (auto split: bind_splits)

text \<open>What every step of the scheduler does, seen from the sink.\<close>

definition routes_step :: "nat \<Rightarrow> nat \<Rightarrow> Scheduler \<Rightarrow> PendingRouteOp list \<Rightarrow> Scheduler \<Rightarrow> bool" where
  "routes_step m m' s rops s' \<longleftrightarrow>
     (sched_ok m s \<longrightarrow> sched_ok m' s' \<and> sink_ops rops (active_routes s) = Some (active_routes s'))"

lemma routes_step_refl [simp]: "routes_step m m s [] s"
  by (simp add: routes_step_def)

lemma routes_step_trans:
  "routes_step m m' s a s' \<Longrightarrow> routes_step m' m'' s' b s'' \<Longrightarrow> routes_step m m'' s (a @ b) s''"
  by (auto simp: routes_step_def sink_ops_append)

lemma routes_step_frame:
  assumes "sc_contacts s' = sc_contacts s" "sc_route_refs s' = sc_route_refs s" "sc_next_id s' = sc_next_id s"
  shows "routes_step m m s [] s'"
  using sched_ok_frame [OF assms] by (simp add: routes_step_def)

lemma count_word:
  assumes "n < (2 :: nat) ^ 32"
  shows "(of_nat n :: u32) + 1 = of_nat (n + 1)" "((of_nat n :: u32) = 0) = (n = 0)"
  using assms by (auto simp: word_of_nat_eq_0_iff dest: dvd_imp_le)

lemma activate_step:
  assumes "activate_contact i s = (rop, s')"
  shows "routes_step m m s (op_list rop) s'"
proof (cases "\<exists>mc. map_of (sc_contacts s) i = Some mc \<and> \<not> mc_active mc")
  case False
  then have "rop = None" "s' = s" using assms by (auto simp: activate_contact_def split: option.splits if_splits)
  then show ?thesis by (simp add: op_list_def)
next
  case True
  then obtain mc where mc: "map_of (sc_contacts s) i = Some mc" "\<not> mc_active mc" by blast
  let ?key = "route_key mc"
  show ?thesis
    unfolding routes_step_def
  proof (intro impI)
    assume ok: "sched_ok m s"
    let ?n = "active_count s ?key"
    have refs: "map_of (sc_route_refs s) ?key = (if ?n = 0 then None else Some (of_nat ?n))"
      using ok by (simp add: sched_ok_def)
    have s': "s' = (set_active i True s)\<lparr>sc_route_refs := hm_put ?key (of_nat (?n + 1)) (sc_route_refs s)\<rparr>"
      and rop: "rop = (if ?n = 0 then Some (AddRoute ?key) else None)"
      using assms mc refs count_word [OF active_count_bound [OF ok, of ?key]]
      by (auto simp: activate_contact_def Let_def add.commute split: if_splits)
    have count: "active_count s' k = (if k = ?key then ?n + 1 else active_count s k)" for k
      using hm_count_modify [of "sc_contacts s" i mc "provides k" "\<lambda>mc. mc\<lparr>mc_active := True\<rparr>"] ok mc
      by (auto simp: s' active_count_def set_active_def sched_ok_def provides_def route_key_def)
    have "sched_ok m s'"
      using ok count by (auto simp: sched_ok_def s' set_active_def)
    moreover have "active_routes s' = insert ?key (active_routes s)"
      by (auto simp: active_routes_iff count split: if_splits)
    ultimately show "sched_ok m s' \<and> sink_ops (op_list rop) (active_routes s) = Some (active_routes s')"
      by (auto simp: rop op_list_def active_routes_iff insert_absorb)
  qed
qed

lemma deactivate_step:
  assumes "deactivate_contact i s = (rop, s')"
  shows "routes_step m m s (op_list rop) s'"
proof (cases "\<exists>mc. map_of (sc_contacts s) i = Some mc \<and> mc_active mc")
  case False
  then have "rop = None" "s' = s" using assms by (auto simp: deactivate_contact_def split: option.splits if_splits)
  then show ?thesis by (simp add: op_list_def)
next
  case True
  then obtain mc where mc: "map_of (sc_contacts s) i = Some mc" "mc_active mc" by blast
  let ?key = "route_key mc"
  show ?thesis
    unfolding routes_step_def
  proof (intro impI)
    assume ok: "sched_ok m s"
    obtain n where n: "active_count s ?key = Suc n"
      using hm_count_pos [OF mc(1), of "provides ?key"] mc(2)
      by (cases "active_count s ?key") (auto simp: active_count_def provides_def)
    have refs: "map_of (sc_route_refs s) ?key = Some (of_nat n + 1)"
      using ok n by (simp add: sched_ok_def)
    have "n < 2 ^ 32" using active_count_bound [OF ok, of ?key] n by simp
    then have s': "s' = (set_active i False s)\<lparr>sc_route_refs :=
        (if n = 0 then hm_remove ?key (sc_route_refs s) else hm_put ?key (of_nat n) (sc_route_refs s))\<rparr>"
      and rop: "rop = (if n = 0 then Some (RemoveRoute ?key) else None)"
      using assms mc refs count_word(2) by (auto simp: deactivate_contact_def Let_def split: if_splits)
    have count: "active_count s' k = (if k = ?key then n else active_count s k)" for k
      using hm_count_modify [of "sc_contacts s" i mc "provides k" "\<lambda>mc. mc\<lparr>mc_active := False\<rparr>"] ok mc n
      by (auto simp: s' active_count_def set_active_def sched_ok_def provides_def)
    have "sched_ok m s'"
      using ok count by (auto simp: sched_ok_def s' set_active_def)
    moreover have "active_routes s' = (if n = 0 then active_routes s - {?key} else active_routes s)"
      using n by (auto simp: active_routes_iff count split: if_splits)
    moreover have "?key \<in> active_routes s" using n by (simp add: active_routes_iff)
    ultimately show "sched_ok m s' \<and> sink_ops (op_list rop) (active_routes s) = Some (active_routes s')"
      by (auto simp: rop op_list_def)
  qed
qed

section \<open>Every operation is such a step\<close>

lemma timeline_frames [simp]:
  "sc_contacts (insert_event t k i s) = sc_contacts s" "sc_route_refs (insert_event t k i s) = sc_route_refs s"
  "sc_next_id (insert_event t k i s) = sc_next_id s" "sc_sources (insert_event t k i s) = sc_sources s"
  "sc_contacts (cancel_events i s) = sc_contacts s" "sc_route_refs (cancel_events i s) = sc_route_refs s"
  "sc_next_id (cancel_events i s) = sc_next_id s" "sc_sources (cancel_events i s) = sc_sources s"
  by (simp_all add: insert_event_def cancel_events_def)

lemma schedule_next_cases:
  assumes "schedule_next_occurrence C i t s = Some s'"
  obtains "s' = s"
  | mc cron d u a e where "map_of (sc_contacts s) i = Some mc" "ct_schedule (mc_contact mc) = Recurring cron d u"
      "next_after C cron t = Some (Some a)" "cal_add C a d = Some e"
      "s' = insert_event e Deactivate i (insert_event a Activate i s)"
  using assms
  by (auto simp: schedule_next_occurrence_def
      split: option.split_asm Schedule.split_asm if_split_asm Option.bind_split_asm)

lemma schedule_next_frame:
  assumes "schedule_next_occurrence C i t s = Some s'"
  shows "sc_contacts s' = sc_contacts s" "sc_route_refs s' = sc_route_refs s" "sc_next_id s' = sc_next_id s"
    "sc_sources s' = sc_sources s"
  using assms by (auto elim: schedule_next_cases)

lemma register_contacts [simp]:
  "sc_contacts (register src i mc s) = hm_put i mc (sc_contacts s)"
  "sc_route_refs (register src i mc s) = sc_route_refs s" "sc_next_id (register src i mc s) = sc_next_id s"
  "sc_timeline (register src i mc s) = sc_timeline s"
  by (simp_all add: register_def add_to_source_def Let_def)

lemma ingest_schedule_frame:
  assumes "ingest_schedule C src i mc now s = Some (added, activated, s')"
  shows "sc_contacts s' = (if added then hm_put i mc (sc_contacts s) else sc_contacts s)"
    "sc_route_refs s' = sc_route_refs s" "sc_next_id s' = sc_next_id s" "activated \<Longrightarrow> added"
  using assms
  by (auto simp: ingest_schedule_def Let_def schedule_next_frame
      split: option.split_asm Schedule.split_asm if_split_asm Option.bind_split_asm)

text \<open>Registering an inactive contact under a fresh identifier.\<close>

lemma ingest_schedule_step:
  assumes "ingest_schedule C src i mc now (s\<lparr>sc_next_id := i + 1\<rparr>) = Some (added, activated, s')"
    and "i = sc_next_id s" "\<not> mc_active mc"
  shows "routes_step (Suc m) m s [] s'"
  unfolding routes_step_def
proof (intro impI)
  assume ok: "sched_ok (Suc m) s"
  note f = ingest_schedule_frame [OF assms(1)]
  have "i \<notin> fst ` set (sc_contacts s)" using ok assms(2) by (auto simp: sched_ok_def)
  then have fresh: "map_of (sc_contacts s) i = None" by (simp add: map_of_eq_None_iff)
  have count: "active_count s' k = active_count s k" for k
    using hm_count_put_fresh [OF fresh] assms(3) by (simp add: active_count_def f provides_def)
  have n: "unat (i + 1) = unat i + 1"
    using ok assms(2) by (simp add: sched_ok_def unat_word_ariths)
  have less: "j < i + 1" if "j < i \<or> j = i" for j
    using that n by (auto simp: word_less_nat_alt)
  have "sched_ok m s'"
    using ok assms(2) n less by (auto simp: sched_ok_def count f dest!: hm_put_mem)
  moreover have "active_routes s' = active_routes s" by (auto simp: active_routes_iff count)
  ultimately show "sched_ok m s' \<and> sink_ops [] (active_routes s) = Some (active_routes s')" by simp
qed

lemma ingest_step:
  assumes "ingest C src c prio now s = Some (added, activated, rop, s')"
  shows "routes_step (Suc m) m s (op_list rop) s'"
proof -
  let ?i = "sc_next_id s"
  let ?mc = "\<lparr>mc_contact = c, mc_priority = resolve_priority c prio, mc_active = False\<rparr>"
  obtain s1 where s1: "ingest_schedule C src ?i ?mc now (s\<lparr>sc_next_id := ?i + 1\<rparr>) = Some (added, activated, s1)"
      and a: "(rop, s') = (if activated then activate_contact ?i s1 else (None, s1))"
    using assms by (auto simp: ingest_def alloc_id_def Let_def split: prod.splits)
  have "routes_step (Suc m) m s [] s1" by (rule ingest_schedule_step [OF s1]) simp_all
  moreover have "routes_step m m s1 (op_list rop) s'"
    using a activate_step [of ?i s1 rop s' m] by (cases activated) (auto simp: op_list_def)
  ultimately show ?thesis using routes_step_trans [of "Suc m" m s "[]" s1 m] by simp
qed

lemma deactivate_contacts:
  assumes "deactivate_contact i s = (rop, s')"
  shows "sc_timeline s' = sc_timeline s" "sc_next_id s' = sc_next_id s" "sc_sources s' = sc_sources s"
    "map_of (sc_contacts s') j =
      (if j = i then map_option (\<lambda>mc. mc\<lparr>mc_active := False\<rparr>) (map_of (sc_contacts s) j) else map_of (sc_contacts s) j)"
  using assms
  by (auto simp: deactivate_contact_def set_active_def Let_def split: option.splits if_splits)

lemma forget_inactive_step:
  assumes "\<And>mc. map_of (sc_contacts s) i = Some mc \<Longrightarrow> \<not> mc_active mc"
  shows "routes_step m m s [] (s\<lparr>sc_contacts := hm_remove i (sc_contacts s)\<rparr>)"
  unfolding routes_step_def
proof (intro impI)
  let ?s' = "s\<lparr>sc_contacts := hm_remove i (sc_contacts s)\<rparr>"
  assume ok: "sched_ok m s"
  have count: "active_count ?s' k = active_count s k" for k
  proof (cases "map_of (sc_contacts s) i")
    case None
    then show ?thesis by (simp add: active_count_def hm_remove_absent map_of_eq_None_iff)
  next
    case (Some mc)
    then show ?thesis
      using hm_count_remove [of "sc_contacts s" i mc "provides k"] ok assms
      by (simp add: active_count_def sched_ok_def provides_def)
  qed
  have "sched_ok m ?s'"
    using ok by (auto simp: sched_ok_def count dest!: hm_remove_mem)
  moreover have "active_routes ?s' = active_routes s" by (auto simp: active_routes_iff count)
  ultimately show "sched_ok m ?s' \<and> sink_ops [] (active_routes s) = Some (active_routes ?s')" by simp
qed

lemma remove_step:
  assumes "remove_contact i s = (rop, s')"
  shows "routes_step m m s (op_list rop) s'"
proof -
  obtain s1 where d: "deactivate_contact i (cancel_events i s) = (rop, s1)"
      and s': "s' = s1\<lparr>sc_contacts := hm_remove i (sc_contacts s1)\<rparr>"
    using assms by (auto simp: remove_contact_def split: prod.splits)
  have "routes_step m m s [] (cancel_events i s)" by (rule routes_step_frame) simp_all
  moreover have "routes_step m m (cancel_events i s) (op_list rop) s1" by (rule deactivate_step [OF d])
  moreover have "routes_step m m s1 [] s'"
    unfolding s' by (rule forget_inactive_step) (auto simp: deactivate_contacts(4) [OF d])
  ultimately show ?thesis using routes_step_trans [of m m s "[]"] routes_step_trans [of m m s _ s1 m "[]" s'] by simp
qed

lemma remove_contacts_step: "remove_contacts cids s = (rops, s') \<Longrightarrow> routes_step m m s rops s'"
  by (induction cids arbitrary: s rops) (force split: prod.splits intro: routes_step_trans remove_step)+

lemma withdraw_step:
  assumes "withdraw_source src s = (rops, s')"
  shows "routes_step m m s rops s'"
proof (cases "map_of (sc_sources s) src")
  case None
  then show ?thesis using assms by (simp add: withdraw_source_def)
next
  case (Some cids)
  let ?s1 = "s\<lparr>sc_sources := hm_remove src (sc_sources s)\<rparr>"
  have "remove_contacts cids ?s1 = (rops, s')" using assms Some by (simp add: withdraw_source_def)
  from routes_step_trans [OF routes_step_frame remove_contacts_step [OF this], of s m] show ?thesis by simp
qed

lemma remove_from_source_step:
  assumes "remove_from_source src i s = (rop, s')"
  shows "routes_step m m s (op_list rop) s'"
proof -
  obtain s1 where r: "remove_contact i s = (rop, s1)"
      and s': "s' = s1\<lparr>sc_sources := hm_modify src (filter (\<lambda>j. j \<noteq> i)) (sc_sources s1)\<rparr>"
    using assms by (auto simp: remove_from_source_def split: prod.splits)
  have "routes_step m m s1 [] s'" by (rule routes_step_frame) (simp_all add: s')
  with remove_step [OF r, of m] show ?thesis using routes_step_trans [of m m s _ s1 m "[]" s'] by simp
qed

lemma remove_listed_step: "remove_listed src cids s = (rops, s') \<Longrightarrow> routes_step m m s rops s'"
  by (induction cids arbitrary: s rops) (force split: prod.splits intro: routes_step_trans remove_from_source_step)+

lemma remove_matching_step: "remove_matching src cs cids n s = (n', rops, s') \<Longrightarrow> routes_step m m s rops s'"
proof (induction cids arbitrary: s rops n)
  case (Cons i cids)
  show ?case
  proof (cases "\<exists>mc. map_of (sc_contacts s) i = Some mc \<and> list_ex (\<lambda>c. contacts_match c (mc_contact mc)) cs")
    case True
    then obtain rop s1 rops' where "remove_from_source src i s = (rop, s1)"
        "remove_matching src cs cids (n + 1) s1 = (n', rops', s')" "rops = op_list rop @ rops'"
      using Cons.prems by (auto split: prod.splits)
    then show ?thesis using routes_step_trans [OF remove_from_source_step Cons.IH] by blast
  next
    case False
    then have "remove_matching src cs cids n s = (n', rops, s')" using Cons.prems by (auto split: option.splits)
    then show ?thesis by (rule Cons.IH)
  qed
qed simp

lemma add_step:
  assumes "add_contacts C src cs prio now counts s = Some (counts', rops, s')"
  shows "routes_step (length cs + m) m s rops s'"
  using assms
proof (induction cs arbitrary: s rops counts)
  case (Cons c cs)
  obtain added active skipped where counts: "counts = (added, active, skipped)" by (cases counts)
  from Cons.prems obtain wa wc rop s1 where i: "ingest C src c prio now s = Some (wa, wc, rop, s1)"
    by (auto simp: counts bind_eq_Some_conv)
  define counts1 where "counts1 = (if wa then (added + 1, if wc then active + 1 else active, skipped) else (added, active, skipped + 1))"
  from Cons.prems i obtain rops' where
      a: "add_contacts C src cs prio now counts1 s1 = Some (counts', rops', s')" "rops = op_list rop @ rops'"
    by (auto simp: counts Let_def counts1_def)
  from routes_step_trans [OF ingest_step [OF i] Cons.IH [OF a(1)]] a(2) show ?case by simp
qed simp

text \<open>The contacts a turn submits.\<close>

fun submitted :: "datetime \<times> Command option \<Rightarrow> Contact list" where
  "submitted (now, Some (CmdAdd src cs prio)) = cs"
| "submitted (now, Some (CmdReplace src cs prio)) = cs"
| "submitted _ = []"

lemma routes_step_weaken: "routes_step n m s rops s' \<Longrightarrow> n \<le> n' \<Longrightarrow> routes_step n' m s rops s'"
  by (auto simp: routes_step_def sched_ok_def)

lemma replace_step:
  assumes "handle_replace C src cs prio now s = Some (counts, rops, s')"
  shows "routes_step (length cs + m) m s rops s'"
proof -
  let ?to_remove = "map fst (filter (\<lambda>(_, old). \<not> list_ex (\<lambda>c. contacts_match c old) cs) (source_contacts src s))"
  let ?to_add = "filter (\<lambda>c. \<not> list_ex (\<lambda>(_, old). contacts_match c old) (source_contacts src s)) cs"
  obtain rops1 s1 where r: "remove_listed src ?to_remove s = (rops1, s1)" by fastforce
  then obtain rops2 c2 where a: "add_contacts C src ?to_add prio now (0, 0, 0) s1 = Some (c2, rops2, s')" "rops = rops1 @ rops2"
    using assms by (auto simp: handle_replace_def Let_def)
  have "routes_step (length ?to_add + m) m s rops s'"
    unfolding a(2) by (rule routes_step_trans [OF remove_listed_step [OF r] add_step [OF a(1)]])
  then show ?thesis by (rule routes_step_weaken) simp
qed

section \<open>Due events\<close>

lemma fire_step:
  assumes "fire_event C e s = Some (rop, s')"
  shows "routes_step m m s (op_list rop) s'"
proof (cases "ev_kind e")
  case Activate
  then show ?thesis using assms by (intro activate_step) (simp add: fire_event_def)
next
  case Deactivate
  obtain s1 where d: "deactivate_contact (ev_contact_id e) s = (rop, s1)"
      and n: "s' = s1 \<or> schedule_next_occurrence C (ev_contact_id e) (ev_time e) s1 = Some s'"
    using assms Deactivate
    by (cases "deactivate_contact (ev_contact_id e) s") (auto simp: fire_event_def split: option.splits Schedule.splits)
  have "routes_step m m s1 [] s'" using n by (auto intro!: routes_step_frame simp: schedule_next_frame)
  with deactivate_step [OF d, of m] show ?thesis using routes_step_trans [of m m s _ s1 m "[]" s'] by simp
qed

text \<open>A loop that returns: it stops where nothing is due, and a relation that holds there and is kept
  by firing the first event holds of its result.\<close>

definition nothing_due :: "datetime \<Rightarrow> Scheduler \<Rightarrow> bool" where
  "nothing_due now s \<longleftrightarrow> (case sc_timeline s of [] \<Rightarrow> True | e # _ \<Rightarrow> ev_time e > now)"

lemma process_due_induct:
  assumes ret: "process_due_events C now s = Some (rops, s')"
    and stop: "\<And>s. nothing_due now s \<Longrightarrow> P s [] s"
    and fire: "\<And>s e es rop s1 rops s'. sc_timeline s = e # es \<Longrightarrow> ev_time e \<le> now \<Longrightarrow>
      fire_event C e (s\<lparr>sc_timeline := es\<rparr>) = Some (rop, s1) \<Longrightarrow> P s1 rops s' \<Longrightarrow> P s (op_list rop @ rops) s'"
  shows "P s rops s'"
proof -
  have "C = C \<longrightarrow> now = now \<longrightarrow> P s (fst (rops, s')) (snd (rops, s'))"
  proof (rule process_due_events.raw_induct
      [where P = "\<lambda>C' now' s r. C' = C \<longrightarrow> now' = now \<longrightarrow> P s (fst r) (snd r)", OF _ ret])
    fix f C' now' s r
    assume IH: "\<And>C' now' s r. f C' now' s = Some r \<Longrightarrow> C' = C \<longrightarrow> now' = now \<longrightarrow> P s (fst r) (snd r)"
      and eq: "(case sc_timeline s of [] \<Rightarrow> Some ([], s)
         | e # es \<Rightarrow> if now' < ev_time e then Some ([], s)
             else Option.bind (fire_event C' e (s\<lparr>sc_timeline := es\<rparr>)) (\<lambda>(rop, s).
               Option.bind (f C' now' s) (\<lambda>(rops, s). Some (op_list rop @ rops, s)))) = Some r"
    show "C' = C \<longrightarrow> now' = now \<longrightarrow> P s (fst r) (snd r)"
    proof (intro impI)
      assume [simp]: "C' = C" "now' = now"
      show "P s (fst r) (snd r)"
      proof (cases "nothing_due now s")
        case True
        with eq have "r = ([], s)" by (auto simp: nothing_due_def split: list.splits)
        then show ?thesis using stop [OF True] by simp
      next
        case False
        then obtain e es where e: "sc_timeline s = e # es" "ev_time e \<le> now"
          by (auto simp: nothing_due_def split: list.splits)
        with eq obtain rop s1 rops s2 where "fire_event C e (s\<lparr>sc_timeline := es\<rparr>) = Some (rop, s1)"
            "f C now s1 = Some (rops, s2)" "r = (op_list rop @ rops, s2)"
          by (auto simp: bind_eq_Some_conv)
        then show ?thesis using fire [OF e] IH [of C now s1 "(rops, s2)"] by simp
      qed
    qed
  qed
  then show ?thesis by simp
qed

lemma process_due_step:
  assumes "process_due_events C now s = Some (rops, s')"
  shows "routes_step m m s rops s'"
  using assms
proof (rule process_due_induct)
  fix s e es rop s1 rops s'
  assume "fire_event C e (s\<lparr>sc_timeline := es\<rparr>) = Some (rop, s1)" and rest: "routes_step m m s1 rops s'"
  then have "routes_step m m (s\<lparr>sc_timeline := es\<rparr>) (op_list rop) s1" by (intro fire_step)
  from routes_step_trans [OF routes_step_trans [OF routes_step_frame this] rest, of s]
  show "routes_step m m s (op_list rop @ rops) s'" by simp
qed simp

lemma process_due_stops: "process_due_events C now s = Some (rops, s') \<Longrightarrow> nothing_due now s'"
  by (erule process_due_induct)

lemma turn_step:
  assumes "scheduler_turn C turn s = Some (rops, s')"
  shows "routes_step (length (submitted turn) + m) m s rops s'"
proof -
  obtain now cmd where turn: "turn = (now, cmd)" by (cases turn)
  show ?thesis
  proof (cases cmd)
    case None
    then show ?thesis using assms by (simp add: turn scheduler_turn_def process_due_step)
  next
    case (Some c)
    then show ?thesis
      using assms
      by (cases c) (auto simp: turn scheduler_turn_def handle_command_def handle_remove_def
          intro: add_step replace_step withdraw_step remove_matching_step split: prod.splits option.splits)
  qed
qed

lemma run_step:
  assumes "scheduler_run C turns s = Some (rops, s')"
  shows "routes_step (length (concat (map submitted turns)) + m) m s rops s'"
  using assms
proof (induction turns arbitrary: s rops)
  case (Cons turn turns)
  then obtain rops1 s1 rops2 where t: "scheduler_turn C turn s = Some (rops1, s1)"
      and r: "scheduler_run C turns s1 = Some (rops2, s')" "rops = rops1 @ rops2"
    by (auto simp: bind_eq_Some_conv)
  from routes_step_trans [OF turn_step [OF t] Cons.IH [OF r(1)]] r(2) show ?case by (simp add: add.assoc)
qed simp

lemma sched_ok_new: "m < 2 ^ 32 \<Longrightarrow> sched_ok m scheduler_new" "active_routes scheduler_new = {}"
  by (simp_all add: sched_ok_def scheduler_new_def active_count_def hm_count_def active_routes_def)

end
