(* ===== verification/Tvr_Timeline.thy ===== *)
theory Tvr_Timeline
  imports Tvr_Scheduler_Laws
begin

text \<open>
  The timeline of the contact scheduler: which events are pending for a contact in each phase of
  its life, that due events keep this, and when the loop over due events ends.
\<close>

section \<open>The order of events\<close>

definition event_key :: "Event \<Rightarrow> datetime \<times> nat \<times> u64" where
  "event_key e = (ev_time e, kind_rank (ev_kind e), ev_contact_id e)"

lemma then_with_assoc: "then_with (then_with a b) c = then_with a (then_with b c)"
  by (cases a) simp_all

lemma event_cmp_key: "event_cmp a b = compare (event_key a) (event_key b)"
  by (simp add: event_cmp_def event_key_def compare_pair then_with_assoc)

interpretation event_order: cmp_order event_cmp
  by (rule cmp_order_by_key [of _ event_key]) (rule event_cmp_key)

lemma kind_rank_inject [simp]: "kind_rank a = kind_rank b \<longleftrightarrow> a = b"
  by (cases a; cases b) simp_all

lemma event_cmp_Equal: "event_cmp a b = Equal \<longleftrightarrow> a = b"
  by (auto simp: event_cmp_key event_key_def)

lemma event_cmp_Less: "event_cmp a b = Less \<Longrightarrow> ev_time a \<le> ev_time b \<and> a \<noteq> b"
  by (auto simp: event_cmp_key event_key_def)

definition timeline_sorted :: "Scheduler \<Rightarrow> bool" where
  "timeline_sorted s \<longleftrightarrow> ascending event_cmp (sc_timeline s)"

lemma insert_event_sorted [simp]: "timeline_sorted s \<Longrightarrow> timeline_sorted (insert_event t k i s)"
  by (simp add: timeline_sorted_def insert_event_def event_order.ascending_insert)

lemma cancel_events_sorted [simp]: "timeline_sorted s \<Longrightarrow> timeline_sorted (cancel_events i s)"
  by (simp add: timeline_sorted_def cancel_events_def ascending_filter)

lemma insert_event_set:
  assumes "timeline_sorted s"
  shows "set (sc_timeline (insert_event t k i s)) =
    insert \<lparr>ev_time = t, ev_kind = k, ev_contact_id = i\<rparr> (set (sc_timeline s))"
  using assms event_order.insert_mem [of "\<lparr>ev_time = t, ev_kind = k, ev_contact_id = i\<rparr>" "sc_timeline s"]
    event_order.insert_new [of "sc_timeline s" "\<lparr>ev_time = t, ev_kind = k, ev_contact_id = i\<rparr>"]
  by (auto simp: insert_event_def timeline_sorted_def event_cmp_Equal)

text \<open>The events pending for a contact.\<close>

definition events_of :: "u64 \<Rightarrow> Scheduler \<Rightarrow> (datetime \<times> EventKind) set" where
  "events_of i s = {(t, k). \<lparr>ev_time = t, ev_kind = k, ev_contact_id = i\<rparr> \<in> set (sc_timeline s)}"

lemma event_surj: "e = \<lparr>ev_time = ev_time e, ev_kind = ev_kind e, ev_contact_id = ev_contact_id e\<rparr>"
  by (cases e) simp

lemma events_of_insert [simp]:
  "timeline_sorted s \<Longrightarrow> events_of j (insert_event t k i s) = (if j = i then insert (t, k) (events_of j s) else events_of j s)"
  by (auto simp: events_of_def insert_event_set)

lemma events_of_cancel [simp]: "events_of j (cancel_events i s) = (if j = i then {} else events_of j s)"
  by (auto simp: events_of_def cancel_events_def)

lemma events_of_frame: "sc_timeline s' = sc_timeline s \<Longrightarrow> events_of i s' = events_of i s"
  by (simp add: events_of_def)

lemma events_of_pop:
  assumes "timeline_sorted s" "sc_timeline s = e # es"
  shows "events_of j (s\<lparr>sc_timeline := es\<rparr>) =
    (if j = ev_contact_id e then events_of j s - {(ev_time e, ev_kind e)} else events_of j s)"
    "timeline_sorted (s\<lparr>sc_timeline := es\<rparr>)"
proof -
  have "e \<notin> set es" using assms event_cmp_Less by (force simp: timeline_sorted_def)
  then show "events_of j (s\<lparr>sc_timeline := es\<rparr>) =
    (if j = ev_contact_id e then events_of j s - {(ev_time e, ev_kind e)} else events_of j s)"
    using assms(2) by (cases e) (auto simp: events_of_def)
  show "timeline_sorted (s\<lparr>sc_timeline := es\<rparr>)" using assms by (simp add: timeline_sorted_def)
qed

lemma nothing_due_events:
  assumes "timeline_sorted s" "nothing_due now s" "(t, k) \<in> events_of i s"
  shows "now < t"
proof -
  obtain e es where e: "sc_timeline s = e # es" "now < ev_time e"
    using assms(2,3) by (auto simp: nothing_due_def events_of_def split: list.splits)
  obtain x where x: "x \<in> set (sc_timeline s)" "ev_time x = t"
    using assms(3) unfolding events_of_def by (metis (no_types, lifting) Event.select_convs(1) case_prodD mem_Collect_eq)
  have "x = e \<or> ev_time e \<le> ev_time x" using x(1) e(1) assms(1) event_cmp_Less by (auto simp: timeline_sorted_def)
  then show ?thesis using x(2) e(2) by auto
qed

section \<open>The phases of a contact\<close>

definition end_events :: "datetime option \<Rightarrow> (datetime \<times> EventKind) set" where
  "end_events en = (case en of Some e \<Rightarrow> {(e, Deactivate)} | None \<Rightarrow> {})"

fun window_valid :: "Schedule \<Rightarrow> bool" where
  "window_valid (OneShot (Some a) (Some e)) \<longleftrightarrow> a < e"
| "window_valid _ \<longleftrightarrow> True"

text \<open>A permanent contact is active and has nothing pending. A one-shot contact waits for its start,
  or is active, or is over.\<close>

fun phase_ok :: "datetime \<Rightarrow> Schedule \<Rightarrow> bool \<Rightarrow> (datetime \<times> EventKind) set \<Rightarrow> bool" where
  "phase_ok now Permanent active E \<longleftrightarrow> active \<and> E = {}"
| "phase_ok now (OneShot st en) active E \<longleftrightarrow>
     (if active then E = end_events en \<and> (case st of Some a \<Rightarrow> a \<le> now | None \<Rightarrow> True)
      else (case st of Some a \<Rightarrow> E = insert (a, Activate) (end_events en) | None \<Rightarrow> False) \<or>
        E = {} \<and> (case en of Some e \<Rightarrow> e \<le> now | None \<Rightarrow> False))"
| "phase_ok now (Recurring c d u) active E \<longleftrightarrow> True"

definition window_ok :: "nat \<Rightarrow> datetime \<Rightarrow> Scheduler \<Rightarrow> bool" where
  "window_ok m now s \<longleftrightarrow> sched_ok m s \<and> timeline_sorted s \<and>
     (\<forall>i. map_of (sc_contacts s) i = None \<longrightarrow> events_of i s = {}) \<and>
     (\<forall>i mc. map_of (sc_contacts s) i = Some mc \<longrightarrow>
        window_valid (ct_schedule (mc_contact mc)) \<and>
        phase_ok now (ct_schedule (mc_contact mc)) (mc_active mc) (events_of i s))"

lemma phase_ok_later: "phase_ok now sch a E \<Longrightarrow> now \<le> now' \<Longrightarrow> phase_ok now' sch a E"
  by (cases sch) (auto split: option.splits if_splits)

lemma window_ok_later: "window_ok m now s \<Longrightarrow> now \<le> now' \<Longrightarrow> window_ok m now' s"
  unfolding window_ok_def using phase_ok_later by blast

lemma window_ok_new: "m < 2 ^ 32 \<Longrightarrow> window_ok m now scheduler_new"
  using sched_ok_new(1) by (simp add: window_ok_def scheduler_new_def timeline_sorted_def events_of_def)

lemma activate_contacts:
  assumes "activate_contact i s = (rop, s')"
  shows "sc_timeline s' = sc_timeline s" "sc_next_id s' = sc_next_id s" "sc_sources s' = sc_sources s"
    "map_of (sc_contacts s') j =
      (if j = i then map_option (\<lambda>mc. mc\<lparr>mc_active := True\<rparr>) (map_of (sc_contacts s) j) else map_of (sc_contacts s) j)"
  using assms
  by (auto simp: activate_contact_def set_active_def Let_def split: option.splits if_splits)

text \<open>An operation that concerns one contact.\<close>

lemma window_update:
  assumes "window_ok m now s" "sched_ok m' s'" "timeline_sorted s'"
    and "\<And>j. j \<noteq> i \<Longrightarrow> map_of (sc_contacts s') j = map_of (sc_contacts s) j"
    and "\<And>j. j \<noteq> i \<Longrightarrow> events_of j s' = events_of j s"
    and "map_of (sc_contacts s') i = None \<Longrightarrow> events_of i s' = {}"
    and "\<And>mc. map_of (sc_contacts s') i = Some mc \<Longrightarrow> window_valid (ct_schedule (mc_contact mc)) \<and>
      phase_ok now (ct_schedule (mc_contact mc)) (mc_active mc) (events_of i s')"
  shows "window_ok m' now s'"
proof -
  have "events_of j s' = {}" if "map_of (sc_contacts s') j = None" for j
    using assms(1,4-6) that by (cases "j = i") (auto simp: window_ok_def)
  moreover have "window_valid (ct_schedule (mc_contact mc)) \<and> phase_ok now (ct_schedule (mc_contact mc)) (mc_active mc) (events_of j s')"
    if "map_of (sc_contacts s') j = Some mc" for j mc
    using assms(1,4,5,7) that by (cases "j = i") (auto simp: window_ok_def)
  ultimately show ?thesis using assms(2,3) by (simp add: window_ok_def)
qed

lemma end_events_Activate [simp]: "(t, Activate) \<notin> end_events en"
  by (auto simp: end_events_def split: option.splits)

lemma phase_activate:
  assumes "phase_ok now sch a E" "(t, Activate) \<in> E" "t \<le> now"
  shows "phase_ok now sch True (E - {(t, Activate)})"
  using assms by (cases sch) (auto split: if_splits option.splits)

lemma phase_deactivate:
  assumes "phase_ok now sch a E" "(t, Deactivate) \<in> E" "t \<le> now" "window_valid sch"
    and "\<And>x. (x, Activate) \<in> E \<Longrightarrow> t \<le> x"
  shows "phase_ok now sch False (E - {(t, Deactivate)})"
  using assms by (cases sch) (auto simp: end_events_def split: if_splits option.splits)

lemma first_event_least:
  assumes "timeline_sorted s" "sc_timeline s = e # es" "(t, k) \<in> events_of i s"
  shows "ev_time e \<le> t"
proof -
  let ?x = "\<lparr>ev_time = t, ev_kind = k, ev_contact_id = i\<rparr>"
  have "?x = e \<or> event_cmp e ?x = Less" using assms by (auto simp: timeline_sorted_def events_of_def)
  then show ?thesis using event_cmp_Less [of e ?x] by auto
qed

lemma fire_cases:
  assumes "fire_event C e s = Some (rop, s')"
  obtains (activate) "ev_kind e = Activate" "activate_contact (ev_contact_id e) s = (rop, s')"
  | (deactivate) "ev_kind e = Deactivate" "deactivate_contact (ev_contact_id e) s = (rop, s')"
  | (reschedule) s1 mc c d u where "ev_kind e = Deactivate" "deactivate_contact (ev_contact_id e) s = (rop, s1)"
      "map_of (sc_contacts s1) (ev_contact_id e) = Some mc" "ct_schedule (mc_contact mc) = Recurring c d u"
      "schedule_next_occurrence C (ev_contact_id e) (ev_time e) s1 = Some s'"
proof (cases "ev_kind e")
  case Activate
  then show thesis using assms by (intro activate) (simp_all add: fire_event_def)
next
  case Deactivate
  obtain rop1 s1 where d: "deactivate_contact (ev_contact_id e) s = (rop1, s1)" by fastforce
  from assms Deactivate d show thesis
    by (auto simp: fire_event_def intro: deactivate reschedule
        split: option.split_asm Schedule.split_asm)
qed

lemma schedule_next_events:
  assumes "schedule_next_occurrence C i t s = Some s'" "timeline_sorted s"
  shows "timeline_sorted s'" "j \<noteq> i \<Longrightarrow> events_of j s' = events_of j s"
  using assms by (auto elim: schedule_next_cases)

text \<open>Taking the first event off the timeline and switching its contact.\<close>

lemma switch_window:
  assumes w: "window_ok m now s" and tl: "sc_timeline s = e # es" and ok: "sched_ok m s'" and t: "sc_timeline s' = es"
    and c: "\<And>j. map_of (sc_contacts s') j = (if j = ev_contact_id e
      then map_option (\<lambda>mc. mc\<lparr>mc_active := b\<rparr>) (map_of (sc_contacts s) j) else map_of (sc_contacts s) j)"
    and mc: "map_of (sc_contacts s) (ev_contact_id e) = Some mc"
    and p: "phase_ok now (ct_schedule (mc_contact mc)) b (events_of (ev_contact_id e) s - {(ev_time e, ev_kind e)})"
  shows "window_ok m now s'"
proof (rule window_update [OF w ok, of "ev_contact_id e"])
  have srt: "timeline_sorted s" using w by (simp add: window_ok_def)
  note pop = events_of_pop [OF srt tl]
  have ev: "events_of j s' = events_of j (s\<lparr>sc_timeline := es\<rparr>)" for j using t by (simp add: events_of_def)
  show "timeline_sorted s'" using pop(2) t by (simp add: timeline_sorted_def)
  show "events_of j s' = events_of j s" if "j \<noteq> ev_contact_id e" for j using that pop(1) ev by simp
  show "events_of (ev_contact_id e) s' = {}" if "map_of (sc_contacts s') (ev_contact_id e) = None"
    using that mc by (simp add: c)
  have "window_valid (ct_schedule (mc_contact mc))" using w mc by (auto simp: window_ok_def)
  then show "window_valid (ct_schedule (mc_contact x)) \<and>
      phase_ok now (ct_schedule (mc_contact x)) (mc_active x) (events_of (ev_contact_id e) s')"
    if "map_of (sc_contacts s') (ev_contact_id e) = Some x" for x
    using that mc p pop(1) ev by (auto simp: c)
qed (simp add: c)

lemma reschedule_window:
  assumes w: "window_ok m now s" and n: "schedule_next_occurrence C i t s = Some s'"
  shows "window_ok m now s'"
  using n
proof (cases rule: schedule_next_cases)
  case 1
  then show ?thesis using w by simp
next
  case (2 mc cron d u a e)
  have srt: "timeline_sorted s" using w by (simp add: window_ok_def)
  note f = schedule_next_frame [OF n] and ev = schedule_next_events [OF n srt]
  have ok: "sched_ok m s'" using w sched_ok_frame(1) [OF f(1-3)] by (simp add: window_ok_def)
  show ?thesis by (rule window_update [OF w ok ev(1), of i]) (simp_all add: f ev(2) 2(1,2))
qed

lemma fire_window:
  assumes w: "window_ok m now s" and tl: "sc_timeline s = e # es" and due: "ev_time e \<le> now"
    and f: "fire_event C e (s\<lparr>sc_timeline := es\<rparr>) = Some (rop, s')"
  shows "window_ok m now s'"
proof -
  let ?i = "ev_contact_id e" and ?s0 = "s\<lparr>sc_timeline := es\<rparr>"
  have srt: "timeline_sorted s" using w by (simp add: window_ok_def)
  note pop = events_of_pop [OF srt tl]
  have in_E: "(ev_time e, ev_kind e) \<in> events_of ?i s" using tl event_surj [of e] by (simp add: events_of_def)
  then obtain mc where mc: "map_of (sc_contacts s) ?i = Some mc" using w by (force simp: window_ok_def)
  then have ph: "window_valid (ct_schedule (mc_contact mc))"
      "phase_ok now (ct_schedule (mc_contact mc)) (mc_active mc) (events_of ?i s)"
    using w by (auto simp: window_ok_def)
  have "routes_step m m s [] ?s0" by (rule routes_step_frame) simp_all
  then have ok: "sched_ok m s'"
    using fire_step [OF f, of m] w by (auto simp: routes_step_def window_ok_def)
  have ev: "events_of j x = events_of j ?s0" "timeline_sorted x = timeline_sorted ?s0"
    if "sc_timeline x = es" for j x using that by (simp_all add: events_of_def timeline_sorted_def)
  show ?thesis
    using f
  proof (cases rule: fire_cases)
    case activate
    note a = activate_contacts [OF activate(2)]
    have "phase_ok now (ct_schedule (mc_contact mc)) True (events_of ?i s - {(ev_time e, Activate)})"
      using phase_activate [OF ph(2) _ due] in_E activate(1) by metis
    with a show ?thesis by (intro switch_window [OF w tl ok, where b = True]) (simp_all add: mc activate(1))
  next
    case deactivate
    note a = deactivate_contacts [OF deactivate(2)]
    have "phase_ok now (ct_schedule (mc_contact mc)) False (events_of ?i s - {(ev_time e, Deactivate)})"
      using phase_deactivate [OF ph(2) _ due ph(1)] first_event_least [OF srt tl] in_E deactivate(1) by metis
    with a show ?thesis by (intro switch_window [OF w tl ok, where b = False]) (simp_all add: mc deactivate(1))
  next
    case (reschedule s1 mc' c d u)
    note a = deactivate_contacts [OF reschedule(2)]
    have "routes_step m m s (op_list rop) s1"
      using routes_step_trans [OF \<open>routes_step m m s [] ?s0\<close> deactivate_step [OF reschedule(2)]] by simp
    then have "sched_ok m s1" using w by (simp add: routes_step_def window_ok_def)
    moreover have rec: "ct_schedule (mc_contact mc) = Recurring c d u"
      using reschedule(3,4) mc by (auto simp: a(4))
    ultimately have "window_ok m now s1"
      by (intro switch_window [OF w tl _ _ _ mc, where b = False]) (simp_all add: rec a)
    then show ?thesis using reschedule(5) by (rule reschedule_window)
  qed
qed

lemma process_due_window:
  assumes "process_due_events C now s = Some (rops, s')" "window_ok m now s"
  shows "window_ok m now s'"
proof -
  have "window_ok m now s \<longrightarrow> window_ok m now s'"
    using assms(1) by (rule process_due_induct) (auto intro: fire_window)
  then show ?thesis using assms(2) by simp
qed

section \<open>The commands\<close>

lemma remove_window:
  assumes w: "window_ok m now s" and r: "remove_contact i s = (rop, s')"
  shows "window_ok m now s'"
proof -
  obtain s1 where d: "deactivate_contact i (cancel_events i s) = (rop, s1)"
      and s': "s' = s1\<lparr>sc_contacts := hm_remove i (sc_contacts s1)\<rparr>"
    using r by (auto simp: remove_contact_def split: prod.splits)
  note a = deactivate_contacts [OF d]
  have srt: "timeline_sorted (cancel_events i s)" using w by (simp add: window_ok_def)
  have t: "sc_timeline s' = sc_timeline (cancel_events i s)" by (simp add: s' a)
  have ok: "sched_ok m s'" using w remove_step [OF r, of m] by (simp add: routes_step_def window_ok_def)
  show ?thesis
    by (rule window_update [OF w ok, of i])
      (use srt t in \<open>simp_all add: s' a timeline_sorted_def events_of_frame [OF t, unfolded s']\<close>)
qed

lemma window_sources: "window_ok m now (s\<lparr>sc_sources := x\<rparr>) = window_ok m now s"
  using sched_ok_frame(1) [of "s\<lparr>sc_sources := x\<rparr>" s m] by (simp add: window_ok_def timeline_sorted_def events_of_def)

lemma remove_contacts_window:
  "window_ok m now s \<Longrightarrow> remove_contacts cids s = (rops, s') \<Longrightarrow> window_ok m now s'"
  by (induction cids arbitrary: s rops) (auto split: prod.splits dest: remove_window)

lemma remove_from_source_window:
  "window_ok m now s \<Longrightarrow> remove_from_source src i s = (rop, s') \<Longrightarrow> window_ok m now s'"
  by (auto simp: remove_from_source_def window_sources split: prod.splits dest: remove_window)

lemma remove_listed_window:
  "window_ok m now s \<Longrightarrow> remove_listed src cids s = (rops, s') \<Longrightarrow> window_ok m now s'"
  by (induction cids arbitrary: s rops) (auto split: prod.splits dest: remove_from_source_window)

lemma remove_matching_window:
  "window_ok m now s \<Longrightarrow> remove_matching src cs cids n s = (n', rops, s') \<Longrightarrow> window_ok m now s'"
  by (induction cids arbitrary: s rops n)
    (auto split: prod.split_asm option.split_asm if_split_asm dest: remove_from_source_window)

lemma register_events [simp]:
  "events_of j (register src i mc s) = events_of j s" "timeline_sorted (register src i mc s) = timeline_sorted s"
  by (simp_all add: events_of_def timeline_sorted_def)

lemma ingest_schedule_events:
  assumes "ingest_schedule C src i mc now s = Some (added, activated, s')" "timeline_sorted s" "events_of i s = {}"
  shows "timeline_sorted s'" "j \<noteq> i \<Longrightarrow> events_of j s' = events_of j s" "\<not> added \<Longrightarrow> events_of i s' = {}"
    "added \<Longrightarrow> phase_ok now (ct_schedule (mc_contact mc)) activated (events_of i s')"
proof -
  show "timeline_sorted s'"
    using assms by (cases "ct_schedule (mc_contact mc)")
      (auto simp: ingest_schedule_def Let_def schedule_next_events(1)
        split: option.split_asm if_split_asm Option.bind_split_asm)
  show "j \<noteq> i \<Longrightarrow> events_of j s' = events_of j s"
    using assms by (cases "ct_schedule (mc_contact mc)")
      (auto simp: ingest_schedule_def Let_def schedule_next_events(2)
        split: option.split_asm if_split_asm Option.bind_split_asm)
  show "\<not> added \<Longrightarrow> events_of i s' = {}"
    using assms by (cases "ct_schedule (mc_contact mc)")
      (auto simp: ingest_schedule_def Let_def split: option.split_asm if_split_asm Option.bind_split_asm)
  show "added \<Longrightarrow> phase_ok now (ct_schedule (mc_contact mc)) activated (events_of i s')"
    using assms by (cases "ct_schedule (mc_contact mc)")
      (auto simp: ingest_schedule_def Let_def end_events_def split: option.split_asm if_split_asm)
qed

lemma ingest_window:
  assumes w: "window_ok (Suc m) now s" and i: "ingest C src c prio now s = Some (added, activated, rop, s')"
    and v: "window_valid (ct_schedule c)"
  shows "window_ok m now s'"
proof -
  let ?i = "sc_next_id s" and ?s0 = "s\<lparr>sc_next_id := sc_next_id s + 1\<rparr>"
  define mc where "mc = \<lparr>mc_contact = c, mc_priority = resolve_priority c prio, mc_active = False\<rparr>"
  have mcc: "mc_contact mc = c" "\<not> mc_active mc" by (simp_all add: mc_def)
  obtain s1 where s1: "ingest_schedule C src ?i mc now ?s0 = Some (added, activated, s1)"
      and a: "(rop, s') = (if activated then activate_contact ?i s1 else (None, s1))"
    using i by (auto simp: ingest_def alloc_id_def Let_def mc_def split: prod.splits)
  have ok: "sched_ok m s'" using w ingest_step [OF i, of m] by (simp add: routes_step_def window_ok_def)
  have "?i \<notin> fst ` set (sc_contacts s)" using w by (auto simp: window_ok_def sched_ok_def)
  then have fresh: "map_of (sc_contacts s) ?i = None" by (simp add: map_of_eq_None_iff)
  have E0: "events_of j ?s0 = events_of j s" "timeline_sorted ?s0" for j
    using w by (simp_all add: events_of_def window_ok_def timeline_sorted_def)
  have none: "events_of ?i ?s0 = {}" using w fresh E0(1) by (simp add: window_ok_def)
  note ev = ingest_schedule_events [OF s1 E0(2) none] and f = ingest_schedule_frame [OF s1]
  have t: "sc_timeline s' = sc_timeline s1" using a activate_contacts(1) by (metis prod.inject)
  have ct: "map_of (sc_contacts s') j = (if added \<and> j = ?i then Some (mc\<lparr>mc_active := activated\<rparr>) else map_of (sc_contacts s) j)" for j
    using a f fresh mcc(2) activate_contacts(4) [of ?i s1 rop s' j]
    by (cases activated) (auto simp: mc_def split: if_splits)
  show ?thesis
  proof (rule window_update [OF w ok, of ?i])
    show "timeline_sorted s'" using ev(1) t by (simp add: timeline_sorted_def)
    show "events_of j s' = events_of j s" if "j \<noteq> ?i" for j using ev(2) [OF that] E0(1) events_of_frame [OF t] by simp
    show "events_of ?i s' = {}" if "map_of (sc_contacts s') ?i = None"
      using that ct ev(3) events_of_frame [OF t] by (auto split: if_splits)
    show "window_valid (ct_schedule (mc_contact x)) \<and> phase_ok now (ct_schedule (mc_contact x)) (mc_active x) (events_of ?i s')"
      if "map_of (sc_contacts s') ?i = Some x" for x
      using that ct fresh ev(4) v events_of_frame [OF t] by (auto simp: mcc split: if_splits)
  qed (use ct in simp)
qed

lemma add_window:
  assumes "add_contacts C src cs prio now counts s = Some (counts', rops, s')"
    and "window_ok (length cs + m) now s" "\<forall>c \<in> set cs. window_valid (ct_schedule c)"
  shows "window_ok m now s'"
  using assms
proof (induction cs arbitrary: s rops counts)
  case (Cons c cs)
  obtain added active skipped where counts: "counts = (added, active, skipped)" by (cases counts)
  from Cons.prems(1) obtain wa wc rop s1 where i: "ingest C src c prio now s = Some (wa, wc, rop, s1)"
    by (auto simp: counts bind_eq_Some_conv)
  define counts1 where "counts1 = (if wa then (added + 1, if wc then active + 1 else active, skipped) else (added, active, skipped + 1))"
  from Cons.prems(1) i obtain rops' where a: "add_contacts C src cs prio now counts1 s1 = Some (counts', rops', s')"
    by (auto simp: counts Let_def counts1_def)
  have "window_ok (length cs + m) now s1" using ingest_window [OF _ i] Cons.prems(2,3) by simp
  then show ?case using Cons.IH [OF a] Cons.prems(3) by simp
qed simp

lemma window_fewer: "window_ok n now s \<Longrightarrow> m \<le> n \<Longrightarrow> window_ok m now s"
  by (auto simp: window_ok_def sched_ok_def)

lemma replace_window:
  assumes "handle_replace C src cs prio now s = Some (counts, rops, s')"
    and w: "window_ok (length cs + m) now s" and v: "\<forall>c \<in> set cs. window_valid (ct_schedule c)"
  shows "window_ok m now s'"
proof -
  let ?to_remove = "map fst (filter (\<lambda>(_, old). \<not> list_ex (\<lambda>c. contacts_match c old) cs) (source_contacts src s))"
  let ?to_add = "filter (\<lambda>c. \<not> list_ex (\<lambda>(_, old). contacts_match c old) (source_contacts src s)) cs"
  obtain rops1 s1 where r: "remove_listed src ?to_remove s = (rops1, s1)" by fastforce
  then obtain rops2 c2 where a: "add_contacts C src ?to_add prio now (0, 0, 0) s1 = Some (c2, rops2, s')"
    using assms(1) by (auto simp: handle_replace_def Let_def)
  have "window_ok (length ?to_add + m) now s1"
    by (rule window_fewer [OF remove_listed_window [OF w r]]) simp
  then show ?thesis using add_window [OF a] v by simp
qed

lemma turn_window:
  assumes t: "scheduler_turn C turn s = Some (rops, s')" and w: "window_ok (length (submitted turn) + m) (fst turn) s"
    and v: "\<forall>c \<in> set (submitted turn). window_valid (ct_schedule c)"
  shows "window_ok m (fst turn) s'"
proof -
  obtain now cmd where turn: "turn = (now, cmd)" by (cases turn)
  show ?thesis
  proof (cases cmd)
    case None
    then show ?thesis using t w by (simp add: turn scheduler_turn_def process_due_window)
  next
    case (Some c)
    then show ?thesis
    proof (cases c)
      case (CmdAdd src cs prio)
      then show ?thesis using t w v Some
        by (auto simp: turn scheduler_turn_def handle_command_def intro: add_window)
    next
      case (CmdRemove src cs)
      then show ?thesis using t w Some
        by (auto simp: turn scheduler_turn_def handle_command_def handle_remove_def
            intro: remove_matching_window split: prod.splits option.splits)
    next
      case (CmdReplace src cs prio)
      then show ?thesis using t w v Some
        by (auto simp: turn scheduler_turn_def handle_command_def intro: replace_window)
    next
      case (CmdWithdrawAll src)
      then show ?thesis using t w Some
        by (auto simp: turn scheduler_turn_def handle_command_def withdraw_source_def window_sources
            intro: remove_contacts_window [of m now "s\<lparr>sc_sources := hm_remove src (sc_sources s)\<rparr>"]
            split: prod.splits option.splits)
    qed
  qed
qed

text \<open>A run whose clock does not go back.\<close>

lemma run_window:
  assumes "scheduler_run C turns s = Some (rops, s')" "sorted (now # map fst turns)"
    and "window_ok (length (concat (map submitted turns)) + m) now s"
    and "\<forall>c \<in> set (concat (map submitted turns)). window_valid (ct_schedule c)"
  shows "window_ok m (last (now # map fst turns)) s'"
  using assms
proof (induction turns arbitrary: s rops now)
  case (Cons turn turns)
  from Cons.prems(1) obtain rops1 s1 rops2 where t: "scheduler_turn C turn s = Some (rops1, s1)"
      and r: "scheduler_run C turns s1 = Some (rops2, s')"
    by (auto simp: bind_eq_Some_conv)
  have "window_ok (length (submitted turn) + (length (concat (map submitted turns)) + m)) (fst turn) s"
    using window_ok_later [OF Cons.prems(3)] Cons.prems(2) by (simp add: add.assoc)
  then have "window_ok (length (concat (map submitted turns)) + m) (fst turn) s1"
    using turn_window [OF t] Cons.prems(4) by simp
  then show ?case using Cons.IH [OF r, of "fst turn"] Cons.prems(2,4) by simp
qed simp

text \<open>Where a contact should be active.\<close>

fun in_window :: "datetime \<Rightarrow> Schedule \<Rightarrow> bool" where
  "in_window now Permanent \<longleftrightarrow> True"
| "in_window now (OneShot st en) \<longleftrightarrow>
     (case st of Some a \<Rightarrow> a \<le> now | None \<Rightarrow> True) \<and> (case en of Some e \<Rightarrow> now < e | None \<Rightarrow> True)"
| "in_window now (Recurring c d u) \<longleftrightarrow> False"

fun is_recurring :: "Schedule \<Rightarrow> bool" where
  "is_recurring (Recurring c d u) = True"
| "is_recurring _ = False"

lemma phase_in_window:
  assumes "phase_ok now sch active E" "\<forall>e \<in> E. now < fst e" "\<not> is_recurring sch"
  shows "active \<longleftrightarrow> in_window now sch"
  using assms by (cases sch) (auto simp: end_events_def split: if_splits option.splits)

lemma settled_in_window:
  assumes "window_ok m now s" "nothing_due now s" "map_of (sc_contacts s) i = Some mc"
    and "\<not> is_recurring (ct_schedule (mc_contact mc))"
  shows "mc_active mc \<longleftrightarrow> in_window now (ct_schedule (mc_contact mc))"
  using assms(1,3,4) nothing_due_events [OF _ assms(2), of _ _ i]
  by (intro phase_in_window [of _ _ _ "events_of i s"]) (auto simp: window_ok_def)

lemma run_append:
  "scheduler_run C (a @ b) s = Option.bind (scheduler_run C a s) (\<lambda>(rops, s).
    map_option (\<lambda>(rops', s). (rops @ rops', s)) (scheduler_run C b s))"
  by (induction a arbitrary: s) (auto split: bind_splits option.splits prod.splits simp: map_option_case)

lemma run_last_settled:
  assumes "scheduler_run C (turns @ [(now, None)]) s = Some (rops, s')"
  shows "nothing_due now s'"
  using assms
  by (auto simp: run_append bind_eq_Some_conv scheduler_turn_def dest: process_due_stops)

end
