(* ===== verification/Tvr_Cron_Parse.thy ===== *)
theory Tvr_Cron_Parse
  imports Tvr_Cron
begin

unbundle bit_operations_syntax

text \<open>
  Parsing cron expressions returns, and an accepted expression has at least one value selected in
  every field and none above the field's maximum.
\<close>

definition bits_upto :: "nat \<Rightarrow> 'a::len word \<Rightarrow> bool" where
  "bits_upto n w \<longleftrightarrow> (\<forall>k. bit w k \<longrightarrow> k \<le> n)"

lemma bits_upto_simps [simp]:
  "bits_upto n 0" "bits_upto n (a OR b) \<longleftrightarrow> bits_upto n a \<and> bits_upto n b"
  "j \<le> n \<Longrightarrow> bits_upto n (2 ^ j)" "bits_upto n 1"
  by (auto simp: bits_upto_def bit_or_iff bit_exp_iff bit_1_iff)

lemma bits_upto_ucast:
  fixes w :: u64
  assumes "bits_upto n w" "w \<noteq> 0" "n < LENGTH('b)"
  shows "bits_upto n (ucast w :: 'b::len word)" "(ucast w :: 'b word) \<noteq> 0"
proof -
  show "bits_upto n (ucast w :: 'b word)" using assms(1) by (simp add: bits_upto_def bit_ucast_iff)
  obtain k where "bit w k" using assms(2) by (metis bit_eqI bit_0_eq bot_apply bot_bool_def)
  then have "bit (ucast w :: 'b word) k" using assms(1,3) by (auto simp: bits_upto_def bit_ucast_iff)
  then show "(ucast w :: 'b word) \<noteq> 0" by auto
qed

text \<open>The loop over a stepped range ends even when its counter wraps: a step that can wrap from a
  value of the range either leaves the range or goes down.\<close>

lemma step_bits_returns:
  assumes "unat hi < 64" "step \<noteq> 0"
  shows "bits_upto (unat hi) bits \<Longrightarrow> \<exists>r. step_bits hi step v bits = Some r \<and> bits_upto (unat hi) r"
proof (induction "if unat step < 2 ^ 32 - 64 then unat hi + 1 - unat v else unat v"
    arbitrary: v bits rule: less_induct)
  case less
  show ?case
  proof (cases "v \<le> hi")
    case False
    then show ?thesis using less.prems by (simp add: step_bits.simps)
  next
    case True
    then have le: "unat v \<le> unat hi" by (simp add: word_le_nat_alt)
    have pos: "0 < unat step" using assms(2) by (simp add: unat_gt_0)
    have sum: "unat (v + step) = (unat v + unat step) mod 2 ^ 32" by (simp add: unat_word_ariths)
    have b: "bits_upto (unat hi) (bits OR push_bit (unat v) 1)" using less.prems le by simp
    have "\<exists>r. step_bits hi step (v + step) (bits OR push_bit (unat v) 1) = Some r \<and> bits_upto (unat hi) r"
    proof (cases "unat step < 2 ^ 32 - 64")
      case True
      then have "unat (v + step) = unat v + unat step" using sum le assms(1) by simp
      then show ?thesis using less.hyps [OF _ b] True le pos by simp
    next
      case False
      show ?thesis
      proof (cases "unat v + unat step < 2 ^ 32")
        case True
        then have "\<not> v + step \<le> hi" using sum False assms(1) by (simp add: word_le_nat_alt)
        then show ?thesis using b by (simp add: step_bits.simps [of hi step "v + step"])
      next
        case wrap: False
        have "unat step < 2 ^ 32" using unat_lt2p [of step] by simp
        then have "unat (v + step) = unat v + unat step - 2 ^ 32"
          using sum wrap le assms(1) by (simp add: le_mod_geq)
        then have "unat (v + step) < unat v" using \<open>unat step < 2 ^ 32\<close> wrap by linarith
        then show ?thesis using less.hyps [OF _ b] False by simp
      qed
    qed
    then show ?thesis using True by (simp add: step_bits.simps [of hi step v])
  qed
qed

lemma parse_range_upto:
  assumes "parse_range r st mn mx name names = Inr x"
  shows "x = Inl bits \<Longrightarrow> bits_upto (unat mx) bits" "x = Inr (lo, hi) \<Longrightarrow> hi \<le> mx"
  using assms
  by (auto simp: parse_range_def and_then_Inr word_le_nat_alt not_less split: if_splits option.splits)

lemma parse_step_nonzero: "parse_step item name = Inr (r, Some k) \<Longrightarrow> k \<noteq> 0"
  by (auto simp: parse_step_def and_then_Inr split: option.splits if_splits)

lemma map_sum_Inr: "map_sum f g r = Inr b \<longleftrightarrow> (\<exists>a. r = Inr a \<and> b = g a)"
  by (cases r) auto

lemma parse_item_ok:
  assumes "unat mx < 64"
  shows "\<exists>r. cron_parse_item item mn mx name names = Some r \<and> (\<forall>bits. r = Inr bits \<longrightarrow> bits_upto (unat mx) bits)"
proof (cases "and_then (parse_step item name) (\<lambda>(r, step).
    map_sum id (\<lambda>x. (step, x)) (parse_range r (step \<noteq> None) mn mx name names))")
  case (Inl e)
  then show ?thesis by (simp add: cron_parse_item_def)
next
  case (Inr z)
  then obtain r step x where s: "parse_step item name = Inr (r, step)" and z: "z = (step, x)"
      and x: "parse_range r (step \<noteq> None) mn mx name names = Inr x"
    by (auto simp: and_then_Inr map_sum_Inr)
  show ?thesis
  proof (cases x)
    case (Inl bits)
    then show ?thesis using Inr z x parse_range_upto(1) [OF x] by (simp add: cron_parse_item_def)
  next
    case xr: (Inr p)
    obtain lo hi where p: "p = (lo, hi)" by (cases p)
    let ?k = "case step of Some k \<Rightarrow> k | None \<Rightarrow> 1"
    have hi: "hi \<le> mx" using parse_range_upto(2) [OF x] xr p by simp
    have "?k \<noteq> 0" using parse_step_nonzero s by (auto split: option.splits)
    moreover have "unat hi < 64" using hi assms by (simp add: word_le_nat_alt)
    ultimately obtain b where "step_bits hi ?k lo 0 = Some b" "bits_upto (unat hi) b"
      using step_bits_returns [of hi ?k 0 lo] by auto
    then show ?thesis using Inr z xr p hi by (auto simp: cron_parse_item_def bits_upto_def word_le_nat_alt)
  qed
qed

lemma parse_items_ok:
  assumes "unat mx < 64"
  shows "bits_upto (unat mx) acc \<Longrightarrow> \<exists>r. parse_items items mn mx name names acc = Some r \<and>
    (\<forall>bits. r = Inr bits \<longrightarrow> bits_upto (unat mx) bits)"
proof (induction items arbitrary: acc)
  case (Cons item items)
  obtain r where r: "cron_parse_item item mn mx name names = Some r" "\<forall>bits. r = Inr bits \<longrightarrow> bits_upto (unat mx) bits"
    using parse_item_ok [OF assms] by blast
  show ?case
  proof (cases r)
    case (Inl e)
    then show ?thesis using r by simp
  next
    case (Inr b)
    then show ?thesis using r Cons.IH [of "acc OR b"] Cons.prems by simp
  qed
qed simp

lemma parse_field_ok:
  assumes "unat mx < 64"
  shows "\<exists>r. parse_field field mn mx name names = Some r \<and>
    (\<forall>bits. r = Inr bits \<longrightarrow> bits \<noteq> 0 \<and> bits_upto (unat mx) bits)"
proof -
  obtain r where "parse_items (split_on (\<lambda>c. c = 44) field) mn mx name names 0 = Some r"
      "\<forall>bits. r = Inr bits \<longrightarrow> bits_upto (unat mx) bits"
    using parse_items_ok [OF assms, of 0] bits_upto_simps(1) by blast
  then show ?thesis by (cases r) (auto simp: parse_field_def)
qed

text \<open>The expressions a parse can give.\<close>

definition cron_ok :: "CronExpr \<Rightarrow> bool" where
  "cron_ok c \<longleftrightarrow>
     cron_second c \<noteq> 0 \<and> bits_upto 59 (cron_second c) \<and> cron_minute c \<noteq> 0 \<and> bits_upto 59 (cron_minute c) \<and>
     cron_hour c \<noteq> 0 \<and> bits_upto 23 (cron_hour c) \<and> cron_dom c \<noteq> 0 \<and> bits_upto 31 (cron_dom c) \<and>
     cron_month c \<noteq> 0 \<and> bits_upto 12 (cron_month c) \<and> cron_dow c \<noteq> 0 \<and> bits_upto 6 (cron_dow c)"

text \<open>A parser that returns, and whose results satisfy a predicate.\<close>

definition parses :: "('a \<Rightarrow> bool) \<Rightarrow> ('e + 'a) option \<Rightarrow> bool" where
  "parses P p \<longleftrightarrow> (\<exists>r. p = Some r \<and> (\<forall>a. r = Inr a \<longrightarrow> P a))"

lemma parses_try: "parses P p \<Longrightarrow> (\<And>a. P a \<Longrightarrow> parses Q (f a)) \<Longrightarrow> parses Q (try_parse p f)"
  by (auto simp: parses_def try_parse_def split: sum.splits)

lemma parses_done: "P a \<Longrightarrow> parses P (Some (Inr a))"
  by (simp add: parses_def)

lemma parses_field: "unat mx < 64 \<Longrightarrow> parses (\<lambda>bits. bits \<noteq> 0 \<and> bits_upto (unat mx) bits) (parse_field field mn mx name names)"
  unfolding parses_def by (rule parse_field_ok)

lemma dow_fold_ok:
  fixes bits :: u64
  assumes "bits \<noteq> 0" "bits_upto 7 bits"
  shows "(ucast ((bits AND 0x7F) OR (drop_bit 7 bits AND 1)) :: u8) \<noteq> 0"
    "bits_upto 6 (ucast ((bits AND 0x7F) OR (drop_bit 7 bits AND 1)) :: u8)"
proof -
  let ?w = "(bits AND 0x7F) OR (drop_bit 7 bits AND 1)"
  have mask: "(0x7F :: u64) = mask 7" by (simp add: mask_eq_exp_minus_1)
  have bit_w: "bit ?w k \<longleftrightarrow> bit bits k \<and> k < 7 \<or> bit bits 7 \<and> k = 0" for k
    by (auto simp: bit_or_iff bit_and_iff mask bit_mask_iff bit_drop_bit_eq bit_1_iff)
  obtain k where k: "bit bits k" using assms(1) by (metis bit_eqI bit_0_eq bot_apply bot_bool_def)
  then have "k < 7 \<or> k = 7" using assms(2) by (auto simp: bits_upto_def)
  then have nz: "?w \<noteq> 0" using bit_w [of k] bit_w [of 0] k by (metis bit_0_eq bot_apply bot_bool_def)
  have "bits_upto 6 ?w" by (auto simp: bits_upto_def bit_w)
  from bits_upto_ucast [OF this nz, where 'b = 8]
  show "(ucast ?w :: u8) \<noteq> 0" "bits_upto 6 (ucast ?w :: u8)" by simp_all
qed

lemma parses_dow: "parses (\<lambda>w. w \<noteq> 0 \<and> bits_upto 6 w) (parse_dow field)"
  unfolding parse_dow_def
  by (rule parses_try [OF parses_field]) (auto intro!: parses_done simp: dow_fold_ok)

lemma parses_5: "parses cron_ok (parse_5 words source)"
  unfolding parse_5_def
  by (intro parses_try [OF parses_field] parses_try [OF parses_dow] parses_done)
    (auto simp: cron_ok_def bits_upto_ucast)

lemma parses_6: "parses cron_ok (parse_6 words source)"
  unfolding parse_6_def
  by (intro parses_try [OF parses_field] parses_try [OF parses_dow] parses_done)
    (auto simp: cron_ok_def bits_upto_ucast)

lemma shortcut_masks:
  "bits_upto 23 ALL_HOURS" "ALL_HOURS \<noteq> 0" "bits_upto 31 ALL_DOM" "ALL_DOM \<noteq> 0"
  "bits_upto 12 ALL_MONTHS" "ALL_MONTHS \<noteq> 0" "bits_upto 6 ALL_DOW" "ALL_DOW \<noteq> 0"
  "1 \<le> n \<Longrightarrow> bits_upto n 2"
proof -
  have m: "ALL_HOURS = mask 24" "ALL_DOW = mask 7" by (simp_all add: ALL_HOURS_def ALL_DOW_def mask_eq_exp_minus_1)
  show "bits_upto 23 ALL_HOURS" "bits_upto 6 ALL_DOW" unfolding m by (auto simp: bits_upto_def bit_mask_iff)
  show "bits_upto 31 ALL_DOM" by (auto simp: bits_upto_def dest!: bit_imp_le_length)
  have "k \<le> 12" if b: "bit ALL_MONTHS k" for k
  proof (rule ccontr)
    assume "\<not> k \<le> 12"
    moreover have "k < 16" using bit_imp_le_length [OF b] by simp
    ultimately have "k \<in> {13, 14, 15}" by auto
    then show False using b by (auto simp: ALL_MONTHS_def bit_iff_odd)
  qed
  then show "bits_upto 12 ALL_MONTHS" by (simp add: bits_upto_def)
  show "ALL_HOURS \<noteq> 0" "ALL_DOM \<noteq> 0" "ALL_MONTHS \<noteq> 0" "ALL_DOW \<noteq> 0"
    by (simp_all add: ALL_HOURS_def ALL_DOM_def ALL_MONTHS_def ALL_DOW_def)
  show "1 \<le> n \<Longrightarrow> bits_upto n 2" using bits_upto_simps(3) [of 1 n] by simp
qed

lemma shortcut_ok: "parse_shortcut s source = Inr c \<Longrightarrow> cron_ok c"
  by (auto simp: parse_shortcut_def Let_def cron_ok_def shortcut_masks split: if_splits)

lemma parse_cron_parses: "parses cron_ok (parse_cron s)"
proof -
  have "parses cron_ok (Some (parse_shortcut x y))" for x y by (auto simp: parses_def shortcut_ok)
  moreover have "parses cron_ok (Some (Inl (FieldCount n)))" for n by (simp add: parses_def)
  ultimately show ?thesis using parses_5 parses_6 by (simp add: parse_cron_def Let_def)
qed

end
