(* ===== verification/Tvr_Contacts.thy ===== *)
theory Tvr_Contacts
  imports Tvr_Timeline Tvr_Cron_Parse
begin

text \<open>
  Where contacts come from. A contact plan line has its fields collected and its schedule resolved
  (\<^verbatim>\<open>tvr/src/parser.rs\<close>); a session over gRPC converts the messages of \<^verbatim>\<open>tvr.proto\<close> and turns them into
  scheduler commands (\<^verbatim>\<open>tvr/src/server.rs\<close>). The text parsers of patterns and identifiers are
  arguments, and so is \<^verbatim>\<open>OffsetDateTime::from_unix_timestamp\<close>. A conversion that panics has no
  result.
\<close>

section \<open>Contact plan fields\<close>

record ContactFields =
  cf_priority :: "u32 option"
  cf_start :: "datetime option"
  cf_end :: "datetime option"
  cf_cron :: "CronExpr option"
  cf_duration :: "int option"
  cf_until :: "datetime option"
  cf_bps :: "u64 option"
  cf_delay :: "u32 option"

datatype Field =
    FieldPriority u32
  | FieldStart datetime
  | FieldEnd datetime
  | FieldCron CronExpr
  | FieldDuration int
  | FieldUntil datetime
  | FieldBps u64
  | FieldDelay u32

datatype plan_error =
    DuplicateField string
  | MixedSchedule
  | UntilWithoutCron
  | DurationWithoutCron
  | CronWithoutDuration
  | EndNotAfterStart
  | ZeroDuration
  | InvalidBandwidth
  | BandwidthOverflow

definition no_fields :: ContactFields where
  "no_fields = \<lparr>cf_priority = None, cf_start = None, cf_end = None, cf_cron = None, cf_duration = None,
     cf_until = None, cf_bps = None, cf_delay = None\<rparr>"

definition set_once :: "'a option \<Rightarrow> string \<Rightarrow> ContactFields \<Rightarrow> plan_error + ContactFields" where
  "set_once old name cf = (if old \<noteq> None then Inl (DuplicateField name) else Inr cf)"

fun add_field :: "Field \<Rightarrow> ContactFields \<Rightarrow> plan_error + ContactFields" where
  "add_field (FieldPriority v) cf = set_once (cf_priority cf) ''priority'' (cf\<lparr>cf_priority := Some v\<rparr>)"
| "add_field (FieldStart v) cf = set_once (cf_start cf) ''start'' (cf\<lparr>cf_start := Some v\<rparr>)"
| "add_field (FieldEnd v) cf = set_once (cf_end cf) ''end'' (cf\<lparr>cf_end := Some v\<rparr>)"
| "add_field (FieldCron v) cf = set_once (cf_cron cf) ''cron'' (cf\<lparr>cf_cron := Some v\<rparr>)"
| "add_field (FieldDuration v) cf = set_once (cf_duration cf) ''duration'' (cf\<lparr>cf_duration := Some v\<rparr>)"
| "add_field (FieldUntil v) cf = set_once (cf_until cf) ''until'' (cf\<lparr>cf_until := Some v\<rparr>)"
| "add_field (FieldBps v) cf = set_once (cf_bps cf) ''bps'' (cf\<lparr>cf_bps := Some v\<rparr>)"
| "add_field (FieldDelay v) cf = set_once (cf_delay cf) ''delay'' (cf\<lparr>cf_delay := Some v\<rparr>)"

fun collect_fields :: "Field list \<Rightarrow> ContactFields \<Rightarrow> plan_error + ContactFields" where
  "collect_fields [] cf = Inr cf"
| "collect_fields (f # fs) cf = and_then (add_field f cf) (collect_fields fs)"

text \<open>The value of a duration field, once \<^verbatim>\<open>humantime\<close> has read it.\<close>

definition duration_value :: "int \<Rightarrow> plan_error + int" where
  "duration_value d = (if d = 0 then Inl ZeroDuration else Inr d)"

definition resolve_schedule :: "ContactFields \<Rightarrow> plan_error + Schedule" where
  "resolve_schedule cf =
    (let has_oneshot = (cf_start cf \<noteq> None \<or> cf_end cf \<noteq> None);
         has_recurring = (cf_cron cf \<noteq> None \<or> cf_duration cf \<noteq> None)
     in if has_oneshot \<and> has_recurring then Inl MixedSchedule
        else if cf_until cf \<noteq> None \<and> \<not> has_recurring then Inl UntilWithoutCron
        else if has_recurring then
          and_then (ok_or (cf_cron cf) DurationWithoutCron) (\<lambda>cron.
          and_then (ok_or (cf_duration cf) CronWithoutDuration) (\<lambda>duration.
            Inr (Recurring cron duration (cf_until cf))))
        else if has_oneshot then
          (if (case (cf_start cf, cf_end cf) of (Some s, Some e) \<Rightarrow> e \<le> s | _ \<Rightarrow> False) then Inl EndNotAfterStart
           else Inr (OneShot (cf_start cf) (cf_end cf)))
        else Inr Permanent)"

definition contact_of_fields :: "EidPattern \<Rightarrow> RouteAction \<Rightarrow> Field list \<Rightarrow> plan_error + Contact" where
  "contact_of_fields pattern action fs =
    and_then (collect_fields fs no_fields) (\<lambda>cf.
    and_then (resolve_schedule cf) (\<lambda>schedule.
      Inr \<lparr>ct_pattern = pattern, ct_action = action, ct_priority = cf_priority cf, ct_schedule = schedule,
        ct_bandwidth_bps = cf_bps cf, ct_delay_us = cf_delay cf\<rparr>))"

text \<open>\<^verbatim>\<open>strip_suffix\<close> and the bandwidth with its SI suffix.\<close>

definition strip_suffix :: "text_chars \<Rightarrow> text_chars \<Rightarrow> text_chars option" where
  "strip_suffix suf s =
    (if length suf \<le> length s \<and> drop (length s - length suf) s = suf then Some (take (length s - length suf) s) else None)"

definition strip_unit :: "string \<Rightarrow> string \<Rightarrow> text_chars \<Rightarrow> text_chars option" where
  "strip_unit long short s = (case strip_suffix (lit long) s of Some n \<Rightarrow> Some n | None \<Rightarrow> strip_suffix (lit short) s)"

definition parse_bandwidth :: "text_chars \<Rightarrow> plan_error + u64" where
  "parse_bandwidth s =
    (let u = to_ascii_uppercase s;
         (num, mult) =
           (case strip_unit ''TBPS'' ''T'' u of Some n \<Rightarrow> (n, 1000000000000)
            | None \<Rightarrow> (case strip_unit ''GBPS'' ''G'' u of Some n \<Rightarrow> (n, 1000000000)
            | None \<Rightarrow> (case strip_unit ''MBPS'' ''M'' u of Some n \<Rightarrow> (n, 1000000)
            | None \<Rightarrow> (case strip_unit ''KBPS'' ''K'' u of Some n \<Rightarrow> (n, 1000)
            | None \<Rightarrow> (case strip_suffix (lit ''BPS'') u of Some n \<Rightarrow> (n, 1) | None \<Rightarrow> (u, 1))))))
     in and_then (ok_or (parse_unsigned num) InvalidBandwidth) (\<lambda>n :: u64.
          if unat n * mult < 2 ^ 64 then Inr (of_nat (unat n * mult)) else Inl BandwidthOverflow))"

section \<open>Messages\<close>

record ProtoTimestamp =
  ts_seconds :: int
  ts_nanos :: int

record ProtoDuration =
  du_seconds :: int
  du_nanos :: int

datatype ProtoAction = ProtoVia text_chars | ProtoDrop u32

datatype ProtoSchedule =
    ProtoOneShot "ProtoTimestamp option" "ProtoTimestamp option"
  | ProtoRecurring text_chars "ProtoDuration option" "ProtoTimestamp option"

record ProtoContact =
  pc_eid_pattern :: text_chars
  pc_priority :: "u32 option"
  pc_action :: "ProtoAction option"
  pc_schedule :: "ProtoSchedule option"
  pc_bandwidth_bps :: "u64 option"
  pc_delay_us :: "u32 option"

datatype tvr_status =
    InvalidTimestamp
  | NegativeDuration
  | InvalidPattern
  | InvalidNextHop
  | InvalidReasonCode
  | MissingAction
  | WindowBackwards
  | InvalidCron
  | MissingDuration
  | DurationZero
  | AlreadyOpen

text \<open>The code outside these files: the calendar, the conversion from Unix seconds, the parsers of
  patterns and endpoint identifiers.\<close>

record tvr_ops =
  tv_cal :: cal_ops
  tv_from_unix :: "int \<Rightarrow> datetime option"
  tv_parse_pattern :: "text_chars \<Rightarrow> EidPattern option"
  tv_parse_eid :: "text_chars \<Rightarrow> Eid option"

definition convert_timestamp :: "tvr_ops \<Rightarrow> ProtoTimestamp \<Rightarrow> (tvr_status + datetime) option" where
  "convert_timestamp V t =
    (case tv_from_unix V (ts_seconds t) of
       None \<Rightarrow> Some (Inl InvalidTimestamp)
     | Some dt \<Rightarrow> map_option Inr (cal_add (tv_cal V) dt (ts_nanos t)))"

definition convert_duration :: "ProtoDuration \<Rightarrow> tvr_status + int" where
  "convert_duration d =
    (if du_seconds d < 0 \<or> du_nanos d < 0 \<or> du_nanos d > 999999999 then Inl NegativeDuration
     else Inr (du_seconds d * second_ns + du_nanos d))"

text \<open>\<^verbatim>\<open>Option::map(..).transpose()?\<close>.\<close>

definition convert_optional :: "('a \<Rightarrow> (tvr_status + 'b) option) \<Rightarrow> 'a option \<Rightarrow> (tvr_status + 'b option) option" where
  "convert_optional f x = (case x of None \<Rightarrow> Some (Inr None) | Some a \<Rightarrow> try_parse (f a) (\<lambda>b. Some (Inr (Some b))))"

definition convert_action :: "tvr_ops \<Rightarrow> ProtoAction option \<Rightarrow> tvr_status + RouteAction" where
  "convert_action V a =
    (case a of
       Some (ProtoVia eid) \<Rightarrow> map_sum id Via (ok_or (tv_parse_eid V eid) InvalidNextHop)
     | Some (ProtoDrop code) \<Rightarrow>
         if code = 0 then Inr (DropBundle None)
         else map_sum (\<lambda>_. InvalidReasonCode) (\<lambda>r. DropBundle (Some r)) (reason_try_from (ucast code))
     | None \<Rightarrow> Inl MissingAction)"

definition convert_schedule :: "tvr_ops \<Rightarrow> ProtoSchedule option \<Rightarrow> (tvr_status + Schedule) option" where
  "convert_schedule V sch =
    (case sch of
       Some (ProtoOneShot st en) \<Rightarrow>
         try_parse (convert_optional (convert_timestamp V) st) (\<lambda>st.
         try_parse (convert_optional (convert_timestamp V) en) (\<lambda>en.
           if (case (st, en) of (Some s, Some e) \<Rightarrow> e \<le> s | _ \<Rightarrow> False) then Some (Inl WindowBackwards)
           else Some (Inr (OneShot st en))))
     | Some (ProtoRecurring cron duration until) \<Rightarrow>
         try_parse (map_option (map_sum (\<lambda>_. InvalidCron) id) (parse_cron cron)) (\<lambda>cron.
         try_parse (convert_optional (\<lambda>d. Some (convert_duration d)) duration) (\<lambda>duration.
           case duration of
             None \<Rightarrow> Some (Inl MissingDuration)
           | Some d \<Rightarrow>
               if d = 0 then Some (Inl DurationZero)
               else try_parse (convert_optional (convert_timestamp V) until) (\<lambda>until.
                 Some (Inr (Recurring cron d until)))))
     | None \<Rightarrow> Some (Inr Permanent))"

definition convert_contact :: "tvr_ops \<Rightarrow> ProtoContact \<Rightarrow> (tvr_status + Contact) option" where
  "convert_contact V p =
    try_parse (Some (ok_or (tv_parse_pattern V (pc_eid_pattern p)) InvalidPattern)) (\<lambda>pattern.
    try_parse (Some (convert_action V (pc_action p))) (\<lambda>action.
    try_parse (convert_schedule V (pc_schedule p)) (\<lambda>schedule.
      Some (Inr \<lparr>ct_pattern = pattern, ct_action = action, ct_priority = pc_priority p, ct_schedule = schedule,
        ct_bandwidth_bps = pc_bandwidth_bps p, ct_delay_us = pc_delay_us p\<rparr>))))"

fun convert_contacts :: "tvr_ops \<Rightarrow> ProtoContact list \<Rightarrow> (tvr_status + Contact list) option" where
  "convert_contacts V [] = Some (Inr [])"
| "convert_contacts V (p # ps) =
    try_parse (convert_contact V p) (\<lambda>c. try_parse (convert_contacts V ps) (\<lambda>cs. Some (Inr (c # cs))))"

section \<open>Sessions\<close>

datatype client_msg = MsgOpen | MsgAdd "ProtoContact list" | MsgRemove "ProtoContact list" | MsgReplace "ProtoContact list"

datatype server_msg =
    StatusMsg tvr_status
  | AddResponse u32 u32 u32
  | RemoveResponse u32
  | ReplaceResponse u32 u32 u32

text \<open>The answer to a scheduler reply; \<open>None\<close> is a scheduler that has shut down.\<close>

definition reply_msg :: "Command \<Rightarrow> sched_reply option \<Rightarrow> server_msg" where
  "reply_msg cmd r =
    (case r of
       Some (AddResult a b c) \<Rightarrow> AddResponse a b c
     | Some (RemoveResult a) \<Rightarrow> RemoveResponse a
     | Some (ReplaceResult a b c) \<Rightarrow> ReplaceResponse a b c
     | None \<Rightarrow>
         (case cmd of
            CmdRemove _ _ \<Rightarrow> RemoveResponse 0
          | CmdReplace _ _ _ \<Rightarrow> ReplaceResponse 0 0 0
          | _ \<Rightarrow> AddResponse 0 0 0))"

text \<open>What a message asks of the scheduler, or the status answered at once; an empty message is
  ignored.\<close>

definition message_command :: "tvr_ops \<Rightarrow> text_chars \<Rightarrow> u32 \<Rightarrow> client_msg \<Rightarrow> (tvr_status + Command) option" where
  "message_command V source default_priority msg =
    (case msg of
       MsgOpen \<Rightarrow> Some (Inl AlreadyOpen)
     | MsgAdd cs \<Rightarrow> try_parse (convert_contacts V cs) (\<lambda>cs. Some (Inr (CmdAdd source cs default_priority)))
     | MsgRemove cs \<Rightarrow> try_parse (convert_contacts V cs) (\<lambda>cs. Some (Inr (CmdRemove source cs)))
     | MsgReplace cs \<Rightarrow> try_parse (convert_contacts V cs) (\<lambda>cs. Some (Inr (CmdReplace source cs default_priority))))"

definition handle_message :: "tvr_ops \<Rightarrow> text_chars \<Rightarrow> u32 \<Rightarrow> datetime \<Rightarrow> client_msg option \<Rightarrow> Scheduler \<Rightarrow>
    (server_msg option \<times> PendingRouteOp list \<times> Scheduler) option" where
  "handle_message V source default_priority now msg s =
    (case msg of
       None \<Rightarrow> Some (None, [], s)
     | Some m \<Rightarrow>
         (case message_command V source default_priority m of
            None \<Rightarrow> None
          | Some (Inl e) \<Rightarrow> Some (Some (StatusMsg e), [], s)
          | Some (Inr cmd) \<Rightarrow>
              map_option (\<lambda>(reply, rops, s). (Some (reply_msg cmd reply), rops, s))
                (handle_command (tv_cal V) now cmd s)))"

section \<open>Accepted schedules\<close>

text \<open>The schedules both sources can give: a window that ends after it starts, an occurrence that
  lasts.\<close>

fun schedule_ok :: "Schedule \<Rightarrow> bool" where
  "schedule_ok (Recurring c d u) \<longleftrightarrow> d \<noteq> 0"
| "schedule_ok sch \<longleftrightarrow> window_valid sch"

lemma schedule_ok_window: "schedule_ok sch \<Longrightarrow> window_valid sch"
  by (cases sch) simp_all

lemma window_valid_oneshot:
  "window_valid (OneShot st en) \<longleftrightarrow> \<not> (case (st, en) of (Some s, Some e) \<Rightarrow> e \<le> s | _ \<Rightarrow> False)"
  by (cases st; cases en) auto

lemma resolve_schedule_ok:
  assumes "resolve_schedule cf = Inr sch" "cf_duration cf \<noteq> Some 0"
  shows "schedule_ok sch"
proof (cases sch)
  case (OneShot st en)
  then have "st = cf_start cf" "en = cf_end cf" "\<not> (case (cf_start cf, cf_end cf) of (Some s, Some e) \<Rightarrow> e \<le> s | _ \<Rightarrow> False)"
    using assms(1) by (auto simp: resolve_schedule_def Let_def and_then_Inr split: if_splits)
  then show ?thesis using OneShot by (simp only: schedule_ok.simps window_valid_oneshot not_False_eq_True)
next
  case (Recurring c d u)
  then show ?thesis using assms by (auto simp: resolve_schedule_def Let_def and_then_Inr split: if_splits)
qed simp

lemma try_parse_Inr: "try_parse r f = Some (Inr b) \<longleftrightarrow> (\<exists>a. r = Some (Inr a) \<and> f a = Some (Inr b))"
  by (auto simp: try_parse_def split: option.splits sum.splits)

lemma convert_schedule_ok:
  assumes "convert_schedule V p = Some (Inr sch)"
  shows "schedule_ok sch"
proof (cases sch)
  case (OneShot st en)
  then have "\<not> (case (st, en) of (Some s, Some e) \<Rightarrow> e \<le> s | _ \<Rightarrow> False)"
    using assms by (auto simp: convert_schedule_def try_parse_Inr split: option.split_asm ProtoSchedule.split_asm if_split_asm)
  then show ?thesis using OneShot by (simp only: schedule_ok.simps window_valid_oneshot not_False_eq_True)
next
  case (Recurring c d u)
  then show ?thesis
    using assms by (auto simp: convert_schedule_def try_parse_Inr split: option.split_asm ProtoSchedule.split_asm if_split_asm)
qed simp

lemma convert_contacts_ok:
  "convert_contacts V ps = Some (Inr cs) \<Longrightarrow> \<forall>c \<in> set cs. schedule_ok (ct_schedule c)"
proof (induction ps arbitrary: cs)
  case (Cons p ps)
  then obtain c cs' where c: "convert_contact V p = Some (Inr c)" "convert_contacts V ps = Some (Inr cs')" "cs = c # cs'"
    by (auto simp: try_parse_Inr)
  then have "schedule_ok (ct_schedule c)" by (auto simp: convert_contact_def try_parse_Inr convert_schedule_ok)
  then show ?case using Cons.IH [OF c(2)] c(3) by simp
qed simp

end
