(* ===== verification/Tvr_Due.thy ===== *)
theory Tvr_Due
  imports Tvr_Timeline
begin

text \<open>
  When the loop over due events ends. A recurring contact is rescheduled from the end of its
  occurrence, rounded down to the granularity of its expression, so the loop moves on exactly when
  occurrences are at least that long.
\<close>

section \<open>Occurrences that move on\<close>

definition granularity :: "CronExpr \<Rightarrow> int" where
  "granularity c = (if has_seconds c then second_ns else minute_ns)"

fun moves_on :: "int \<Rightarrow> Schedule \<Rightarrow> bool" where
  "moves_on D (Recurring c d u) \<longleftrightarrow> granularity c \<le> d \<and> d \<le> D"
| "moves_on D _ \<longleftrightarrow> True"

definition all_move_on :: "int \<Rightarrow> Scheduler \<Rightarrow> bool" where
  "all_move_on D s \<longleftrightarrow> (\<forall>i mc. map_of (sc_contacts s) i = Some mc \<longrightarrow> moves_on D (ct_schedule (mc_contact mc)))"

lemma search_from_near: "after - granularity c < search_from c after"
  using start_of_next [of second_ns after] start_of_next [of minute_ns after]
  by (simp add: search_from_def granularity_def)

lemma granularity_pos: "0 < granularity c"
  by (simp add: granularity_def)

text \<open>Rescheduling succeeds and ends later than the occurrence just over.\<close>

lemma reschedule_ok:
  assumes C: "cal_spec C L Y" and y: "cal_year C (now + SEARCH_DAYS * day_ns + D) \<le> Y"
    and l: "L \<le> cal_year C t" and t: "t \<le> now" and on: "all_move_on D s"
  obtains s' where "schedule_next_occurrence C i t s = Some s'"
    "s' = s \<or> (\<exists>a e. t < e \<and> s' = insert_event e Deactivate i (insert_event a Activate i s))"
proof (cases "\<exists>mc c d u. map_of (sc_contacts s) i = Some mc \<and> ct_schedule (mc_contact mc) = Recurring c d u")
  case False
  then have "schedule_next_occurrence C i t s = Some s"
    by (auto simp: schedule_next_occurrence_def split: option.splits Schedule.splits)
  then show ?thesis using that by blast
next
  case True
  then obtain mc c d u where mc: "map_of (sc_contacts s) i = Some mc" "ct_schedule (mc_contact mc) = Recurring c d u"
    by blast
  with on have d: "granularity c \<le> d" "d \<le> D" by (force simp: all_move_on_def)+
  have D: "date_spec C" using C by (simp add: cal_spec_def)
  have yt: "cal_year C x \<le> Y" if "x \<le> now + SEARCH_DAYS * day_ns + D" for x
    using year_mono [OF D that] y by simp
  have D0: "0 \<le> D" using d granularity_pos [of c] by simp
  obtain r where r: "next_after C c t = Some r" "earliest_match C c (search_from c t) (t + SEARCH_DAYS * day_ns) r"
    using next_after_ok [OF C l yt, of c] t D0 by auto
  show ?thesis
  proof (cases "\<exists>a. r = Some a \<and> (case u of Some x \<Rightarrow> a < x | None \<Rightarrow> True)")
    case False
    then have "schedule_next_occurrence C i t s = Some s"
      using mc r(1) by (cases r) (auto simp: schedule_next_occurrence_def split: option.splits)
    then show ?thesis using that by blast
  next
    case True
    then obtain a where a: "r = Some a" "case u of Some x \<Rightarrow> a < x | None \<Rightarrow> True" by blast
    have le: "search_from c t \<le> a" "a \<le> t + SEARCH_DAYS * day_ns" using r(2) a(1) by (auto simp: earliest_match_def)
    have "cal_year C a \<le> Y" "cal_year C (a + d) \<le> Y" using le(2) t d(2) D0 by (auto intro!: yt)
    moreover have "L \<le> cal_year C a" using year_mono [OF D le(1)] l by (simp add: search_from_year [OF D])
    moreover have "cal_year C a \<le> cal_year C (a + d)" using d(1) granularity_pos [of c] by (intro year_mono [OF D]) simp
    ultimately have "in_years C L Y a" "in_years C L Y (a + d)" by (simp_all add: in_years_def)
    then have "cal_add C a d = Some (a + d)"
      using C d(1) granularity_pos [of c] unfolding cal_spec_def add_spec_def by auto
    then have "schedule_next_occurrence C i t s = Some (insert_event (a + d) Deactivate i (insert_event a Activate i s))"
      using mc r(1) a by (auto simp: schedule_next_occurrence_def split: option.splits)
    moreover have "t < a + d" using search_from_near [of t c] le(1) d(1) by linarith
    ultimately show ?thesis using that by blast
  qed
qed

section \<open>The loop ends\<close>

text \<open>What is left to do before \<open>now\<close>: an activation is one turn, a deactivation may cause two more
  for every later instant.\<close>

definition event_weight :: "datetime \<Rightarrow> Event \<Rightarrow> nat" where
  "event_weight now e =
    (if ev_time e > now then 0
     else case ev_kind e of Activate \<Rightarrow> 1 | Deactivate \<Rightarrow> 2 * nat (now + 1 - ev_time e))"

definition work_left :: "datetime \<Rightarrow> Scheduler \<Rightarrow> nat" where
  "work_left now s = sum_list (map (event_weight now) (sc_timeline s))"

lemma bs_insert_weight:
  "sum_list (map (w :: 'a \<Rightarrow> nat) (snd (bs_insert cmp x xs))) \<le> w x + sum_list (map w xs)"
  by (induction xs) (auto split: ordering.splits prod.splits)

lemma work_insert:
  "work_left now (insert_event t k i s) \<le>
    event_weight now \<lparr>ev_time = t, ev_kind = k, ev_contact_id = i\<rparr> + work_left now s"
  unfolding work_left_def insert_event_def using bs_insert_weight by simp

lemma work_reschedule:
  assumes "t < e" "t \<le> now"
  shows "work_left now (insert_event e Deactivate i (insert_event a Activate i s)) < 2 * nat (now + 1 - t) + work_left now s"
proof -
  have "event_weight now \<lparr>ev_time = e, ev_kind = Deactivate, ev_contact_id = i\<rparr> +
      event_weight now \<lparr>ev_time = a, ev_kind = Activate, ev_contact_id = i\<rparr> < 2 * nat (now + 1 - t)"
    using assms by (auto simp: event_weight_def)
  then show ?thesis
    using work_insert [of now e Deactivate i "insert_event a Activate i s"] work_insert [of now a Activate i s] by linarith
qed

text \<open>The ends of occurrences on the timeline are in the years of the calendar; every later one is too.\<close>

definition ends_since :: "cal_ops \<Rightarrow> int \<Rightarrow> Scheduler \<Rightarrow> bool" where
  "ends_since C L s \<longleftrightarrow> (\<forall>e \<in> set (sc_timeline s). ev_kind e = Deactivate \<longrightarrow> L \<le> cal_year C (ev_time e))"

lemma ends_since_insert:
  assumes "ends_since C L s" and "k = Deactivate \<Longrightarrow> L \<le> cal_year C t"
  shows "ends_since C L (insert_event t k i s)"
  using assms event_order.insert_mem [of "\<lparr>ev_time = t, ev_kind = k, ev_contact_id = i\<rparr>" "sc_timeline s"]
  by (auto simp: ends_since_def insert_event_def split: if_splits)

lemma fire_progress:
  assumes C: "cal_spec C L Y" and y: "cal_year C (now + SEARCH_DAYS * day_ns + D) \<le> Y"
    and tl: "sc_timeline s = e # es" and due: "ev_time e \<le> now" and on: "all_move_on D s" and l: "ends_since C L s"
  obtains rop s' where "fire_event C e (s\<lparr>sc_timeline := es\<rparr>) = Some (rop, s')" "all_move_on D s'" "ends_since C L s'"
    "work_left now s' < work_left now s"
proof -
  let ?i = "ev_contact_id e" and ?s0 = "s\<lparr>sc_timeline := es\<rparr>"
  have on0: "all_move_on D ?s0" using on by (simp add: all_move_on_def)
  have l0: "ends_since C L ?s0" using l tl by (simp add: ends_since_def)
  have w: "work_left now s = event_weight now e + work_left now ?s0" by (simp add: work_left_def tl)
  show thesis
  proof (cases "ev_kind e")
    case Activate
    obtain rop s' where a: "activate_contact ?i ?s0 = (rop, s')" by fastforce
    note c = activate_contacts [OF a]
    have "fire_event C e ?s0 = Some (rop, s')" using a Activate by (simp add: fire_event_def)
    moreover have "all_move_on D s'" using on0 by (auto simp: all_move_on_def c(4) split: if_splits)
    moreover have "ends_since C L s'" using l0 c(1) by (simp add: ends_since_def)
    moreover have "work_left now s' < work_left now s"
      unfolding w using due Activate c(1) by (simp add: work_left_def event_weight_def)
    ultimately show thesis by (rule that)
  next
    case Deactivate
    obtain rop s1 where d: "deactivate_contact ?i ?s0 = (rop, s1)" by fastforce
    note c = deactivate_contacts [OF d]
    have on1: "all_move_on D s1" using on0 by (auto simp: all_move_on_def c(4) split: if_splits)
    have l1: "ends_since C L s1" "L \<le> cal_year C (ev_time e)"
      using l0 c(1) l tl Deactivate by (simp_all add: ends_since_def)
    have w1: "work_left now s1 = work_left now ?s0" using c(1) by (simp add: work_left_def)
    have we: "event_weight now e = 2 * nat (now + 1 - ev_time e)" "0 < event_weight now e"
      using due Deactivate by (simp_all add: event_weight_def)
    obtain s2 where s2: "schedule_next_occurrence C ?i (ev_time e) s1 = Some s2"
        "s2 = s1 \<or> (\<exists>a t. ev_time e < t \<and> s2 = insert_event t Deactivate ?i (insert_event a Activate ?i s1))"
      by (rule reschedule_ok [OF C y l1(2) due on1])
    have on2: "all_move_on D s2" using on1 schedule_next_frame(1) [OF s2(1)] by (simp add: all_move_on_def)
    have l2: "ends_since C L s2"
    proof -
      have "L \<le> cal_year C t" if "ev_time e < t" for t
        using year_mono [of C "ev_time e" t] that C l1(2) by (simp add: cal_spec_def)
      then show ?thesis using s2(2) l1(1) by (auto intro!: ends_since_insert)
    qed
    have less: "work_left now s2 < work_left now s"
      using s2(2) work_reschedule [OF _ due] we unfolding w w1 [symmetric] by auto
    have less1: "work_left now s1 < work_left now s" using we w w1 by simp
    have "fire_event C e ?s0 = Some (rop, s2) \<or> fire_event C e ?s0 = Some (rop, s1)"
      using Deactivate d s2(1) by (auto simp: fire_event_def split: option.splits Schedule.splits)
    then show thesis using that on1 on2 l1(1) l2 less less1 by blast
  qed
qed

lemma process_due_returns:
  assumes C: "cal_spec C L Y" and y: "cal_year C (now + SEARCH_DAYS * day_ns + D) \<le> Y" and "all_move_on D s" and "ends_since C L s"
  shows "\<exists>rops s'. process_due_events C now s = Some (rops, s')"
  using assms(3,4)
proof (induction "work_left now s" arbitrary: s rule: less_induct)
  case less
  show ?case
  proof (cases "nothing_due now s")
    case True
    then have "process_due_events C now s = Some ([], s)"
      by (subst process_due_events.simps) (auto simp: nothing_due_def split: list.splits)
    then show ?thesis by blast
  next
    case False
    then obtain e es where e: "sc_timeline s = e # es" "ev_time e \<le> now"
      by (auto simp: nothing_due_def split: list.splits)
    obtain rop s1 where f: "fire_event C e (s\<lparr>sc_timeline := es\<rparr>) = Some (rop, s1)" "all_move_on D s1" "ends_since C L s1"
        "work_left now s1 < work_left now s"
      by (rule fire_progress [OF C y e less.prems])
    then obtain rops s' where "process_due_events C now s1 = Some (rops, s')" using less.hyps by blast
    then show ?thesis using e f(1) by (subst process_due_events.simps) auto
  qed
qed

section \<open>The loop that does not end\<close>

text \<open>The first turns of the loop over due events, as far as nothing panics and something is due.\<close>

fun due_turns :: "cal_ops \<Rightarrow> datetime \<Rightarrow> nat \<Rightarrow> Scheduler \<Rightarrow> Scheduler option" where
  "due_turns C now 0 s = Some s"
| "due_turns C now (Suc n) s =
    (case sc_timeline s of
       [] \<Rightarrow> None
     | e # es \<Rightarrow>
         if ev_time e > now then None
         else Option.bind (fire_event C e (s\<lparr>sc_timeline := es\<rparr>)) (\<lambda>(rop, s). due_turns C now n s))"

abbreviation start_event :: "u64 \<Rightarrow> datetime \<Rightarrow> Event" where
  "start_event i t \<equiv> \<lparr>ev_time = t, ev_kind = Activate, ev_contact_id = i\<rparr>"

abbreviation end_event :: "u64 \<Rightarrow> datetime \<Rightarrow> Event" where
  "end_event i t \<equiv> \<lparr>ev_time = t, ev_kind = Deactivate, ev_contact_id = i\<rparr>"

text \<open>Contact \<open>i\<close> recurs with the occurrence from \<open>m\<close> before its \<^verbatim>\<open>until\<close>.\<close>

definition recurs_at :: "u64 \<Rightarrow> CronExpr \<Rightarrow> int \<Rightarrow> datetime \<Rightarrow> Scheduler \<Rightarrow> bool" where
  "recurs_at i c d m s \<longleftrightarrow>
     (\<exists>mc until. map_of (sc_contacts s) i = Some mc \<and> ct_schedule (mc_contact mc) = Recurring c d until \<and>
        (\<forall>u. until = Some u \<longrightarrow> m < u))"

text \<open>The two states the loop alternates between when the occurrence from \<open>m\<close> is shorter than the
  granularity.\<close>

definition stuck_state :: "u64 \<Rightarrow> CronExpr \<Rightarrow> int \<Rightarrow> datetime \<Rightarrow> Event list \<Rightarrow> Scheduler \<Rightarrow> bool" where
  "stuck_state i c d m es s \<longleftrightarrow> recurs_at i c d m s \<and>
     (sc_timeline s = end_event i (m + d) # es \<or> sc_timeline s = start_event i m # end_event i (m + d) # es)"

lemma next_is_same:
  assumes C: "cal_spec C L Y" and l: "L \<le> cal_year C m" and y: "cal_year C (m + d + SEARCH_DAYS * day_ns) \<le> Y"
    and m: "m mod granularity c = 0" "cron_matches C c m" and d: "0 < d" "d < granularity c"
  shows "next_after C c (m + d) = Some (Some m)"
proof -
  have "(m + d) div granularity c = m div granularity c"
    using m(1) d div_mult_mod_eq [of m "granularity c"]
    by (intro int_div_pos_eq [of _ _ _ d]) (simp_all add: mult.commute)
  then have start: "search_from c (m + d) = m"
    using m(1) div_mult_mod_eq [of m "granularity c"] by (simp add: search_from_def start_of_def granularity_def split: if_splits)
  have l': "L \<le> cal_year C (m + d)" using year_mono [of C m "m + d"] C d(1) l by (simp add: cal_spec_def)
  obtain r where r: "next_after C c (m + d) = Some r" "earliest_match C c m (m + d + SEARCH_DAYS * day_ns) r"
    using next_after_ok [OF C l' y, of c] start by auto
  have al: "aligned m" using m(1) by (auto simp: granularity_def aligned_def ns_defs mod_eq_0_iff_dvd split: if_splits)
  have "m \<le> m + d + SEARCH_DAYS * day_ns" using d(1) by (simp add: SEARCH_DAYS_def ns_defs)
  then have "r = Some m" using r(2) al m(2) by (cases r) (auto simp: earliest_match_def)
  then show ?thesis using r(1) by simp
qed

lemma recurs_at_keep:
  assumes "recurs_at i c d m s" and "\<And>mc. map_of (sc_contacts s) i = Some mc \<Longrightarrow>
      \<exists>b. map_of (sc_contacts s') i = Some (mc\<lparr>mc_active := b\<rparr>)"
  shows "recurs_at i c d m s'"
proof -
  obtain mc until where mc: "map_of (sc_contacts s) i = Some mc" "ct_schedule (mc_contact mc) = Recurring c d until"
      "\<forall>u. until = Some u \<longrightarrow> m < u"
    using assms(1) by (auto simp: recurs_at_def)
  obtain b where "map_of (sc_contacts s') i = Some (mc\<lparr>mc_active := b\<rparr>)" using assms(2) [OF mc(1)] by blast
  then show ?thesis using mc(2,3) by (auto simp: recurs_at_def)
qed

text \<open>Firing the end of the occurrence schedules the same occurrence again.\<close>

lemma short_end_fires:
  assumes C: "cal_spec C L Y" and l: "L \<le> cal_year C m" and y: "cal_year C (m + d + SEARCH_DAYS * day_ns) \<le> Y"
    and m: "m mod granularity c = 0" "cron_matches C c m" and d: "0 < d" "d < granularity c"
    and i: "recurs_at i c d m s" and later: "\<forall>e \<in> set es. m + d < ev_time e"
  obtains rop s' where "fire_event C (end_event i (m + d)) (s\<lparr>sc_timeline := es\<rparr>) = Some (rop, s')" "recurs_at i c d m s'"
    "sc_timeline s' = start_event i m # end_event i (m + d) # es"
proof -
  obtain mc until where mc: "map_of (sc_contacts s) i = Some mc" "ct_schedule (mc_contact mc) = Recurring c d until"
      "\<forall>u. until = Some u \<longrightarrow> m < u"
    using i by (auto simp: recurs_at_def)
  obtain rop s1 where d1: "deactivate_contact i (s\<lparr>sc_timeline := es\<rparr>) = (rop, s1)" by fastforce
  note a = deactivate_contacts [OF d1]
  have mc1: "map_of (sc_contacts s1) i = Some (mc\<lparr>mc_active := False\<rparr>)" using mc(1) by (simp add: a(4))
  have "m \<le> m + d + SEARCH_DAYS * day_ns" using d(1) by (simp add: SEARCH_DAYS_def ns_defs)
  from year_mono [of C m, OF _ this] have "in_years C L Y m" using C y l by (simp add: cal_spec_def in_years_def)
  then have add: "cal_add C m d = Some (m + d)"
    using add_ok [OF C] d by (simp add: granularity_def ns_defs split: if_splits)
  let ?s2 = "insert_event (m + d) Deactivate i (insert_event m Activate i s1)"
  have "schedule_next_occurrence C i (m + d) s1 = Some ?s2"
    using mc1 mc(2,3) next_is_same [OF C l y m d] add by (auto simp: schedule_next_occurrence_def split: option.split)
  then have f: "fire_event C (end_event i (m + d)) (s\<lparr>sc_timeline := es\<rparr>) = Some (rop, ?s2)"
    using d1 mc1 mc(2) by (simp add: fire_event_def)
  have tl: "sc_timeline ?s2 = start_event i m # end_event i (m + d) # es"
    using a(1) d(1) later by (cases es) (auto simp: insert_event_def event_cmp_def compare_def)
  have "recurs_at i c d m ?s2" using mc1 mc by (auto simp: recurs_at_def insert_event_def)
  then show thesis using that f tl by blast
qed

text \<open>Firing its start brings the first state back.\<close>

lemma short_start_fires:
  assumes "recurs_at i c d m s"
  obtains rop s' where "fire_event C (start_event i m) (s\<lparr>sc_timeline := es\<rparr>) = Some (rop, s')" "recurs_at i c d m s'"
    "sc_timeline s' = es"
proof -
  obtain rop s' where a: "activate_contact i (s\<lparr>sc_timeline := es\<rparr>) = (rop, s')" by fastforce
  note k = activate_contacts [OF a]
  have "recurs_at i c d m s'" using assms by (rule recurs_at_keep) (auto simp: k(4))
  then show thesis using a k(1) by (intro that [of rop s']) (simp_all add: fire_event_def)
qed

lemma stuck_turn:
  assumes C: "cal_spec C L Y" and l: "L \<le> cal_year C m" and y: "cal_year C (m + d + SEARCH_DAYS * day_ns) \<le> Y"
    and m: "m mod granularity c = 0" "cron_matches C c m" and d: "0 < d" "d < granularity c"
    and st: "stuck_state i c d m es s" and later: "\<forall>e \<in> set es. m + d < ev_time e" and tl: "sc_timeline s = e # es'"
  obtains rop s' where "fire_event C e (s\<lparr>sc_timeline := es'\<rparr>) = Some (rop, s')" "stuck_state i c d m es s'"
proof -
  have r: "recurs_at i c d m s" using st by (simp add: stuck_state_def)
  consider "e = end_event i (m + d)" "es' = es" | "e = start_event i m" "es' = end_event i (m + d) # es"
    using st tl by (auto simp: stuck_state_def)
  then show thesis
  proof cases
    case 1
    then show thesis using short_end_fires [OF C l y m d r later] that by (metis stuck_state_def)
  next
    case 2
    then show thesis using short_start_fires [OF r, of C es'] that by (metis stuck_state_def)
  qed
qed

lemma stuck_never_returns:
  assumes C: "cal_spec C L Y" and l: "L \<le> cal_year C m" and y: "cal_year C (m + d + SEARCH_DAYS * day_ns) \<le> Y"
    and m: "m mod granularity c = 0" "cron_matches C c m" and d: "0 < d" "d < granularity c"
    and st: "stuck_state i c d m es s" and later: "\<forall>e \<in> set es. m + d < ev_time e" and now: "m + d \<le> now"
  shows "due_turns C now n s \<noteq> None" and "process_due_events C now s = None"
proof -
  have due: "\<exists>e es'. sc_timeline s = e # es' \<and> ev_time e \<le> now" if "stuck_state i c d m es s" for s
    using that now d(1) by (auto simp: stuck_state_def)
  show "due_turns C now n s \<noteq> None"
    using st
  proof (induction n arbitrary: s)
    case (Suc n)
    obtain e es' where e: "sc_timeline s = e # es'" "ev_time e \<le> now" using due [OF Suc.prems] by blast
    obtain rop s' where "fire_event C e (s\<lparr>sc_timeline := es'\<rparr>) = Some (rop, s')" "stuck_state i c d m es s'"
      by (rule stuck_turn [OF C l y m d Suc.prems later e(1)])
    then show ?case using e Suc.IH by simp
  qed simp
  show "process_due_events C now s = None"
  proof (rule ccontr)
    assume "process_due_events C now s \<noteq> None"
    then obtain rops s' where ret: "process_due_events C now s = Some (rops, s')" by auto
    have "\<not> stuck_state i c d m es s"
      using ret
    proof (rule process_due_induct)
      show "\<not> stuck_state i c d m es s" if "nothing_due now s" for s
        using that due by (force simp: nothing_due_def)
      show "\<not> stuck_state i c d m es s" if "sc_timeline s = e # es'" "fire_event C e (s\<lparr>sc_timeline := es'\<rparr>) = Some (rop, s1)"
        "\<not> stuck_state i c d m es s1" for s e es' rop s1
      proof
        assume "stuck_state i c d m es s"
        from stuck_turn [OF C l y m d this later that(1)] that(2,3) show False by (metis option.inject snd_conv)
      qed
    qed
    then show False using st by simp
  qed
qed

end
