(* ===== verification/Tvr_Props.thy ===== *)
theory Tvr_Props
  imports Tvr_Contacts Tvr_Due
begin

text \<open>
  The properties of time-variant routing: cron expressions are read and searched as written, the
  scheduler keeps the routing sink in step with the contacts that are active, one-shot contacts
  are active in their window, and due events are worked off when occurrences are long enough.
\<close>

section \<open>Samples\<close>

definition sample_key :: EidPattern where
  "sample_key = AnyPattern"

definition sample_contact :: "u32 option \<Rightarrow> Schedule \<Rightarrow> Contact" where
  "sample_contact prio sch = \<lparr>ct_pattern = sample_key, ct_action = Via (LocalNode 1), ct_priority = prio,
     ct_schedule = sch, ct_bandwidth_bps = None, ct_delay_us = None\<rparr>"

definition every_minute :: CronExpr where
  "every_minute = \<lparr>cron_second = 1, cron_minute = -1, cron_hour = -1, cron_dom = -1, cron_month = -1, cron_dow = -1,
     cron_source = lit ''* * * * *''\<rparr>"

section \<open>Cron expressions\<close>

text \<open>C25. Parsing a cron expression returns on every text, also when the counter of a stepped range
  wraps, and an accepted expression selects at least one value in each of its six fields and no
  value above the maximum of the field.\<close>

theorem cron_parse_total:
  "\<exists>r. parse_cron s = Some r \<and> (\<forall>c. r = Inr c \<longrightarrow> cron_ok c)"
  using parse_cron_parses [of s] by (simp add: parses_def)

theorem cron_parse_total_witness:
  "\<exists>r. parse_cron (lit ''*/15 8 * JAN MON-FRI'') = Some r \<and> (\<forall>c. r = Inr c \<longrightarrow> cron_ok c)"
  by (rule cron_parse_total)

text \<open>C22. A forward search of a cron expression returns. What it returns is the earliest whole second
  that the expression selects, from the start of the second of the given instant on (from the start of
  its minute on when the expression has no seconds) and within four years; it returns nothing exactly
  when there is no such second. Because the start is rounded down, the result may lie before the given
  instant, which the comment on the function rules out. The years searched are among those for which
  the calendar behaves as documented.\<close>

theorem cron_search_earliest:
  assumes "cal_spec C L Y" and "L \<le> cal_year C after" and "cal_year C (after + SEARCH_DAYS * day_ns) \<le> Y"
  shows "\<exists>r. next_after C c after = Some r \<and>
    earliest_match C c (search_from c after) (after + SEARCH_DAYS * day_ns) r"
  using assms by (rule next_after_ok)

theorem cron_search_earliest_witness:
  "\<exists>r. next_after sample_cal every_minute (90 * second_ns) = Some r \<and>
    earliest_match sample_cal every_minute (search_from every_minute (90 * second_ns))
      (90 * second_ns + SEARCH_DAYS * day_ns) r"
  by (rule cron_search_earliest [OF sample_cal_spec order_refl order_refl])

section \<open>The scheduler\<close>

text \<open>C15. Refinement of the set of active routes: over any run of commands and wake-ups from an empty
  scheduler, every operation passed to the routing sink takes effect there (no route is added
  twice, none is removed that is not there), and the sink ends with exactly the routes of the
  contacts that are active. The run submits fewer than \<open>2 ^ 32\<close> contacts, which keeps the \<^verbatim>\<open>u32\<close>
  counts exact.\<close>

theorem scheduler_routes_refine:
  assumes "scheduler_run C turns scheduler_new = Some (rops, s)"
    and "length (concat (map submitted turns)) < 2 ^ 32"
  shows "sink_ops rops {} = Some (active_routes s)"
  using run_step [OF assms(1), of 0] sched_ok_new(1) [OF assms(2)]
  by (simp add: routes_step_def sched_ok_new(2))

definition sample_turns :: "(datetime \<times> Command option) list" where
  "sample_turns =
    [(0, Some (CmdAdd (lit ''a'') [sample_contact None Permanent, sample_contact None (OneShot None (Some 5))] 7)),
     (9, None), (9, Some (CmdWithdrawAll (lit ''a'')))]"

definition sample_turns_end :: "PendingRouteOp list \<times> Scheduler" where
  "sample_turns_end =
    (let key = \<lparr>rk_pattern = sample_key, rk_action = Via (LocalNode 1), rk_priority = 7\<rparr>
     in ([AddRoute key, RemoveRoute key],
         \<lparr>sc_sources = [], sc_contacts = [], sc_timeline = [], sc_route_refs = [], sc_next_id = 2\<rparr>))"

lemmas scheduler_eval = scheduler_turn_def handle_command_def withdraw_source_def remove_contact_def
  deactivate_contact_def activate_contact_def set_active_def cancel_events_def insert_event_def
  ingest_def ingest_schedule_def alloc_id_def resolve_priority_def register_def add_to_source_def
  fire_event_def route_key_def op_list_def hm_put_def hm_remove_def hm_modify_def

lemma process_due_eval:
  "sc_timeline s = [] \<Longrightarrow> process_due_events C now s = Some ([], s)"
  "sc_timeline s = e # es \<Longrightarrow> now < ev_time e \<Longrightarrow> process_due_events C now s = Some ([], s)"
  "sc_timeline s = e # es \<Longrightarrow> ev_time e \<le> now \<Longrightarrow> process_due_events C now s =
     Option.bind (fire_event C e (s\<lparr>sc_timeline := es\<rparr>)) (\<lambda>(rop, s).
       Option.bind (process_due_events C now s) (\<lambda>(rops, s). Some (op_list rop @ rops, s)))"
  by (simp_all add: process_due_events.simps [of C now s])

lemma sample_run: "scheduler_run sample_cal sample_turns scheduler_new = Some sample_turns_end"
  unfolding sample_turns_def sample_turns_end_def sample_contact_def scheduler_new_def
  by (simp add: scheduler_turn_def handle_command_def) (simp add: scheduler_eval Let_def process_due_eval)

theorem scheduler_routes_refine_witness:
  "sink_ops (fst sample_turns_end) {} = Some (active_routes (snd sample_turns_end))"
  by (rule scheduler_routes_refine [of sample_cal sample_turns]) (simp add: sample_run, simp add: sample_turns_def)

text \<open>C16. After a wake-up at the end of a run whose clock does not go back, and whose windows end
  after they start, every permanent and one-shot contact the scheduler still manages is active
  exactly when the time of the wake-up lies in its window: from its start on, before its end.\<close>

theorem contacts_active_in_window:
  assumes "scheduler_run C (turns @ [(now, None)]) scheduler_new = Some (rops, s)"
    and "sorted (map fst turns @ [now])"
    and "length (concat (map submitted turns)) < 2 ^ 32"
    and "\<forall>c \<in> set (concat (map submitted turns)). schedule_ok (ct_schedule c)"
    and "map_of (sc_contacts s) i = Some mc" and "\<not> is_recurring (ct_schedule (mc_contact mc))"
  shows "mc_active mc \<longleftrightarrow> in_window now (ct_schedule (mc_contact mc))"
proof -
  let ?turns = "turns @ [(now, None)]"
  let ?t0 = "fst (hd ?turns)"
  have "sorted (?t0 # map fst ?turns)" using assms(2) by (cases turns) auto
  moreover have "window_ok (length (concat (map submitted ?turns)) + 0) ?t0 scheduler_new"
    using window_ok_new assms(3) by simp
  moreover have "\<forall>c \<in> set (concat (map submitted ?turns)). window_valid (ct_schedule c)"
    using assms(4) schedule_ok_window by auto
  ultimately have "window_ok 0 (last (?t0 # map fst ?turns)) s" using run_window [OF assms(1)] by blast
  then have "window_ok 0 now s" by simp
  moreover have "nothing_due now s" using run_last_settled [OF assms(1)] .
  ultimately show ?thesis using assms(5,6) by (rule settled_in_window)
qed

definition sample_window_end :: "PendingRouteOp list \<times> Scheduler" where
  "sample_window_end =
    (let key = \<lparr>rk_pattern = sample_key, rk_action = Via (LocalNode 1), rk_priority = 7\<rparr>
     in ([AddRoute key],
         \<lparr>sc_sources = [(lit ''a'', [0, 1])],
          sc_contacts =
            [(0, \<lparr>mc_contact = sample_contact None Permanent, mc_priority = 7, mc_active = True\<rparr>),
             (1, \<lparr>mc_contact = sample_contact None (OneShot None (Some 5)), mc_priority = 7, mc_active = False\<rparr>)],
          sc_timeline = [], sc_route_refs = [(key, 1)], sc_next_id = 2\<rparr>))"

lemma sample_window_run:
  "scheduler_run sample_cal ([hd sample_turns] @ [(9, None)]) scheduler_new = Some sample_window_end"
  unfolding sample_turns_def sample_window_end_def sample_contact_def scheduler_new_def
  by (simp add: scheduler_turn_def handle_command_def) (simp add: scheduler_eval Let_def process_due_eval)

theorem contacts_active_in_window_witness:
  "\<not> in_window 9 (OneShot None (Some 5)) \<and>
    (mc_active (snd (sc_contacts (snd sample_window_end) ! 1)) \<longleftrightarrow>
      in_window 9 (ct_schedule (mc_contact (snd (sc_contacts (snd sample_window_end) ! 1)))))"
proof (intro conjI)
  have run: "scheduler_run sample_cal ([hd sample_turns] @ [(9, None)]) scheduler_new =
      Some (fst sample_window_end, snd sample_window_end)"
    using sample_window_run by simp
  show "mc_active (snd (sc_contacts (snd sample_window_end) ! 1)) \<longleftrightarrow>
      in_window 9 (ct_schedule (mc_contact (snd (sc_contacts (snd sample_window_end) ! 1))))"
    by (rule contacts_active_in_window [OF run, where i = 1])
      (simp_all add: sample_turns_def sample_window_end_def sample_contact_def Let_def)
qed simp

text \<open>C23. Working off the due events returns, with nothing due left, when every occurrence of a
  recurring contact lasts at least as long as the granularity of its expression (a minute, or a second
  for an expression with seconds) and no longer than some \<open>D\<close>, and when the ends of occurrences on the
  timeline and everything up to four years and \<open>D\<close> after now are in years for which the calendar behaves
  as documented. Activations and deactivations that fall due on the way are worked off in the same
  call.\<close>

theorem due_events_return:
  assumes "cal_spec C L Y" and "cal_year C (now + SEARCH_DAYS * day_ns + D) \<le> Y" and "all_move_on D s"
    and "\<forall>e \<in> set (sc_timeline s). ev_kind e = Deactivate \<longrightarrow> L \<le> cal_year C (ev_time e)"
  shows "\<exists>rops s'. process_due_events C now s = Some (rops, s') \<and> nothing_due now s'"
  using process_due_returns [OF assms(1-3)] assms(4) process_due_stops unfolding ends_since_def by blast

definition sample_recurring :: "int \<Rightarrow> Scheduler" where
  "sample_recurring d =
    \<lparr>sc_sources = [(lit ''a'', [0])],
     sc_contacts = [(0, \<lparr>mc_contact = sample_contact None (Recurring every_minute d None), mc_priority = 7, mc_active = True\<rparr>)],
     sc_timeline = [\<lparr>ev_time = d, ev_kind = Deactivate, ev_contact_id = 0\<rparr>],
     sc_route_refs = [(\<lparr>rk_pattern = sample_key, rk_action = Via (LocalNode 1), rk_priority = 7\<rparr>, 1)],
     sc_next_id = 1\<rparr>"

theorem due_events_return_witness:
  "\<exists>rops s'. process_due_events sample_cal (300 * second_ns) (sample_recurring (90 * second_ns)) = Some (rops, s') \<and>
    nothing_due (300 * second_ns) s'"
  by (rule due_events_return [OF sample_cal_spec order_refl, where D = "90 * second_ns" and L = 0])
    (auto simp: all_move_on_def sample_recurring_def sample_contact_def every_minute_def granularity_def
      has_seconds_def ns_defs sample_fields split: if_splits)

text \<open>C24. A shorter occurrence never settles. Let contact \<open>i\<close> recur with an expression that selects the
  instant \<open>m\<close> (a whole minute, or a whole second for an expression with seconds), for a duration \<open>d\<close> that
  is positive and less than that granularity, \<open>m\<close> lying before its \<^verbatim>\<open>until\<close> if it has one; let the first
  event of the timeline be the end \<open>m + d\<close> of the occurrence from \<open>m\<close>, which is due, and all others be
  later. Then firing that event succeeds and puts the start and the end of the very same occurrence back
  on the timeline, because the search from \<open>m + d\<close> starts at \<open>m\<close>; firing that start succeeds and leaves
  the timeline as it was at first, with the contact still recurring. So the loop over the due events
  takes any number of turns, none of which panics, and the call never returns.\<close>

theorem short_occurrence_never_settles:
  assumes "cal_spec C L Y" and "L \<le> cal_year C m" and "cal_year C (m + d + SEARCH_DAYS * day_ns) \<le> Y"
    and "m mod granularity c = 0" and "cron_matches C c m" and "0 < d" and "d < granularity c"
    and "recurs_at i c d m s" and "sc_timeline s = end_event i (m + d) # es"
    and "\<forall>e \<in> set es. m + d < ev_time e" and "m + d \<le> now"
  shows "(\<exists>rop s1 rop' s2.
      fire_event C (end_event i (m + d)) (s\<lparr>sc_timeline := es\<rparr>) = Some (rop, s1) \<and>
      sc_timeline s1 = start_event i m # end_event i (m + d) # es \<and>
      fire_event C (start_event i m) (s1\<lparr>sc_timeline := end_event i (m + d) # es\<rparr>) = Some (rop', s2) \<and>
      sc_timeline s2 = sc_timeline s \<and> recurs_at i c d m s2) \<and>
    (\<forall>n. due_turns C now n s \<noteq> None) \<and> process_due_events C now s = None"
proof (intro conjI)
  obtain rop s1 where e: "fire_event C (end_event i (m + d)) (s\<lparr>sc_timeline := es\<rparr>) = Some (rop, s1)" "recurs_at i c d m s1"
      "sc_timeline s1 = start_event i m # end_event i (m + d) # es"
    by (rule short_end_fires [OF assms(1-8,10)])
  obtain rop' s2 where "fire_event C (start_event i m) (s1\<lparr>sc_timeline := end_event i (m + d) # es\<rparr>) = Some (rop', s2)"
      "recurs_at i c d m s2" "sc_timeline s2 = end_event i (m + d) # es"
    by (rule short_start_fires [OF e(2)])
  then show "\<exists>rop s1 rop' s2.
      fire_event C (end_event i (m + d)) (s\<lparr>sc_timeline := es\<rparr>) = Some (rop, s1) \<and>
      sc_timeline s1 = start_event i m # end_event i (m + d) # es \<and>
      fire_event C (start_event i m) (s1\<lparr>sc_timeline := end_event i (m + d) # es\<rparr>) = Some (rop', s2) \<and>
      sc_timeline s2 = sc_timeline s \<and> recurs_at i c d m s2"
    using e assms(9) by metis
  have st: "stuck_state i c d m es s" using assms(8,9) by (simp add: stuck_state_def)
  show "\<forall>n. due_turns C now n s \<noteq> None" "process_due_events C now s = None"
    using stuck_never_returns [OF assms(1-7) st assms(10,11)] by blast+
qed

lemma every_minute_matches: "cron_matches sample_cal every_minute 0"
  by (simp add: cron_matches_def sample_cal_def every_minute_def selects_def)

lemma every_minute_granularity: "granularity every_minute = minute_ns"
  by (simp add: granularity_def has_seconds_def every_minute_def)

theorem short_occurrence_never_settles_witness:
  "(\<forall>n. due_turns sample_cal (30 * second_ns) n (sample_recurring (30 * second_ns)) \<noteq> None) \<and>
    process_due_events sample_cal (30 * second_ns) (sample_recurring (30 * second_ns)) = None"
proof -
  let ?s = "sample_recurring (30 * second_ns)"
  have d: "0 < 30 * second_ns" "30 * second_ns < granularity every_minute"
    by (simp_all add: every_minute_granularity ns_defs)
  have s: "recurs_at 0 every_minute (30 * second_ns) 0 ?s" "sc_timeline ?s = end_event 0 (0 + 30 * second_ns) # []"
    by (simp_all add: recurs_at_def sample_recurring_def sample_contact_def)
  show ?thesis
    using short_occurrence_never_settles [OF sample_cal_spec order_refl order_refl _ every_minute_matches d s,
        of "30 * second_ns"]
    by simp
qed

end
