(* ===== verification/Spec2Isabelle.thy ===== *)
theory Spec2Isabelle
  imports Cbor_Props Bpv7_Props Bpa_Props Bpv7_Parse_Props Tcpcl_Props Tvr_Props
begin

text \<open>
  A verification library for Hardy, an implementation of the Bundle Protocol version 7 (RFC 9171)
  in Rust. Hardy is a workspace of crates: \<^verbatim>\<open>src/cbor\<close> is a CBOR encoder and decoder,
  \<^verbatim>\<open>src/bpv7\<close> the bundle format on top of it (endpoint identifiers, blocks, bundles, block
  security), \<^verbatim>\<open>src/eid-patterns\<close> the patterns routes are written with, \<^verbatim>\<open>src/bpa\<close> the bundle
  processing agent with its routing information base, \<^verbatim>\<open>src/tcpclv4\<close> the TCP convergence layer (RFC 9174) that
  carries bundles between two agents, \<^verbatim>\<open>src/tvr\<close> the agent for time-variant routing, which
  installs routes while scheduled contacts last. The other crates (the other convergence layers, storage
  back ends, the server and the tools) connect the agent to the outside.

  \<^bold>\<open>Conventions.\<close> A Rust struct is a record and an enum a datatype with the source's
  constructors; \<^verbatim>\<open>u64\<close>, \<^verbatim>\<open>u32\<close> and \<^verbatim>\<open>u8\<close> are words of that width, \<^verbatim>\<open>usize\<close> is a natural number
  with its overflow checks written out against \<open>usize_max\<close>. \<^verbatim>\<open>Result\<close> is a sum with the error
  on the left; a function that can panic (a failed \<^verbatim>\<open>expect\<close> or \<^verbatim>\<open>assert\<close>, an index or a slice out
  of range) returns an option whose \<open>None\<close> is the panic. Decoders of single items read their slice
  with total operations; \<open>Bpv7_Bounds\<close> shows that they stay inside it. \<^verbatim>\<open>&mut self\<close> is state passing. Code outside the repository is
  an argument: \<open>text_ops\<close> (decimal and percent encoding), \<open>crc_ops\<close> (the checksums of the crc
  crate), \<open>float_ops\<close> (half precision conversion), \<open>glob_ops\<close> (the glob crate), \<open>time_ops\<close> (the
  time crate); where a theorem needs a law of such an argument, the law is a named hypothesis and
  \<open>Bpv7_Samples\<close> has an instance.

  \<^bold>\<open>Shared theories.\<close> \<open>Prelude\<close> has the byte and word types, the result combinators and the list
  and word lemmas; \<open>Btree\<close> the ordered maps and sets over a comparison function and \<open>Hash_Map\<close>
  the hash maps, each with its lookup laws.

  \<^bold>\<open>CBOR.\<close> \<open>Cbor_Encode\<close> models \<^verbatim>\<open>cbor/src/encode.rs\<close> and \<open>Cbor_Float\<close> the float narrowing;
  \<open>Cbor_Head\<close> the heads with the table-driven fast path (\<^verbatim>\<open>decode/head.rs\<close>); \<open>Cbor_Decode\<close> the
  series, skipping and typed parsing (\<^verbatim>\<open>decode/series.rs\<close>, \<^verbatim>\<open>decode/mod.rs\<close>); \<open>Cbor_Impls\<close> the
  \<^verbatim>\<open>FromCbor\<close> implementations. \<open>Cbor_Float_Laws\<close> has the bytes of floats and the documented behaviour
  of the float conversions (\<open>float_spec\<close>), \<open>Cbor_Items\<close> and \<open>Cbor_Local\<close> hold the laws of items, \<open>Cbor_Props\<close>
  the properties: the head decoder equals a reference decoder, what the encoder writes is skipped
  and decoded back, a definite head flagged shortest is the encoder's, skipping stays inside the buffer and
  ignores what follows.

  \<^bold>\<open>The bundle format.\<close> \<open>Bpv7_Error\<close> and \<open>Bpv7_Codec\<close> have the error domains and the canonical-form
  helpers; \<open>Bpv7_Types\<close> the scalar types; \<open>Bpv7_Timestamp\<close> the creation timestamps and the lock-free
  issuer as a step relation of interleaved threads; \<open>Bpv7_Flags\<close> and \<open>Bpv7_Block\<close> the flags, block
  types, the CRC driver and block emission; \<open>Bpv7_Eid\<close> and \<open>Bpv7_Eid_Codec\<close> the endpoint identifiers
  with their text and CBOR forms; \<open>Bpv7_Primary\<close> the primary block and the bundle identifier;
  \<open>Bpv7_Primary_Crc\<close> which bytes the checksum of an accepted primary block covers;
  \<open>Bpv7_Status\<close> the administrative records. \<open>Bpv7_Props\<close> has the round trips, the CRC check, the
  behaviour of non-canonical forms and the order of issued timestamps.

  \<^bold>\<open>Parsing and building bundles.\<close> \<open>Bpv7_Bpsec\<close> decodes the security blocks and has their structural
  checks; \<open>Bpv7_Tail\<close> is the continuation of a payload that exceeds the buffer; \<open>Bpv7_Parse\<close> the
  streaming parser and the one-shot parse (\<^verbatim>\<open>bpv7/src/parse.rs\<close>); \<open>Bpv7_Builder\<close> the builder
  (\<^verbatim>\<open>bpv7/src/builder.rs\<close>). Every index, slice and \<^verbatim>\<open>expect\<close> of \<^verbatim>\<open>parse.rs\<close> is a branch of the model
  that may panic. \<open>Bpv7_Parse_Laws\<close> and \<open>Bpv7_Frame\<close> show what one block on the wire is, that one turn
  of the block loop does not panic, and carry the invariant of the loop, \<open>Bpv7_Bounds\<close> that every decoder takes no more than it
  was given, \<open>Bpv7_Total\<close> that the parser never panics on any sequence of runs, and
  \<open>Bpv7_Build_Laws\<close> that the builder's output is a sequence of such blocks. \<open>Bpv7_Parse_Props\<close>
  states the results: the parse returns on every input, what it accepts is exactly a framed
  bundle, streaming never panics, the payload continuation accepts exactly the missing octets,
  and parsing a built bundle gives back the builder's view of it.

  \<^bold>\<open>Patterns and routing.\<close> \<open>Eid_Pattern\<close> has the patterns of \<^verbatim>\<open>eid-patterns\<close> with matching, subset
  and specificity, \<open>Eid_Pattern_Laws\<close> their laws. \<open>Bpa_Routing\<close> models the route table and the
  lookup of \<^verbatim>\<open>bpa/src/routing\<close>, \<open>Bpa_Table\<close> that the table refines a set of routes, \<open>Bpa_Lookup\<close> the
  termination and completeness of the lookup, \<open>Bpa_Rib\<close> the routing information base with its
  published snapshot as an interleaving step relation. \<open>Bpa_Props\<close> has the properties.

  \<^bold>\<open>The TCP convergence layer.\<close> \<open>Tcpcl_Codec\<close> models the messages with their encoder and incremental
  decoder (\<^verbatim>\<open>tcpclv4/src/codec.rs\<close>); \<open>Tcpcl_Codec_Laws\<close> states the contract of a framed decoder as
  the locale \<open>framed_decoder\<close>, whose interpretation \<open>message_stream\<close> is this codec.
  \<open>Tcpcl_Session\<close> models the session (\<^verbatim>\<open>tcpclv4/src/session.rs\<close>): its state is a record, what the
  peer, the agent and the clock do is a list of events, what the agent answers is a function, and
  what the session does is the list of effects (messages sent, bundles dispatched, transfers
  finished). \<open>Tcpcl_Session_Laws\<close> has the laws of sending and receiving, \<open>Tcpcl_Contact\<close> the contact
  headers, the wait for SESS_INIT and the parameter negotiation (\<^verbatim>\<open>connection/context.rs\<close>,
  \<^verbatim>\<open>connection/connect.rs\<close>).
  \<open>Tcpcl_Props\<close> shows that messages survive the wire in whatever pieces they arrive, that a transfer
  to an idle receiver is dispatched once and its acknowledgements complete it, that a bundle reported
  as transferred was acknowledged in full or refused because the peer has it, that a bundle
  dispatched from \<open>on_transfer\<close> is the contiguous run of its segments within the receive limit, and
  how the configurations of both peers decide a contact. It also has concrete runs in which the code
  does not do what it means to.

  \<^bold>\<open>Time-variant routing.\<close> \<open>Tvr_Cron\<close> models cron expressions (\<^verbatim>\<open>tvr/src/cron.rs\<close>), their text over
  code points and the searches over the calendar of the \<^verbatim>\<open>time\<close> crate, an argument \<open>cal_ops\<close> whose
  documented behaviour, in a range of years, is \<open>cal_spec\<close>; \<open>Tvr_Scheduler\<close> the contact scheduler (\<^verbatim>\<open>tvr/src/scheduler.rs\<close>)
  and \<open>Tvr_Contacts\<close> the fields of a contact plan and the messages of a session (\<^verbatim>\<open>parser.rs\<close>,
  \<^verbatim>\<open>server.rs\<close>). \<open>Tvr_Cron_Laws\<close> and \<open>Tvr_Cron_Parse\<close> show what a search finds and that parsing
  returns; \<open>Tvr_Scheduler_Laws\<close> that every operation keeps the counted routes and the sink in step;
  \<open>Tvr_Timeline\<close> has the order of events (an interpretation of \<open>cmp_order\<close>) and the phases of a
  contact; \<open>Tvr_Due\<close> when the loop over due events ends. \<open>Tvr_Props\<close> has the properties, among them
  one about a loop of the code that does not end.

  \<^bold>\<open>Bounds and fuel.\<close> The loops over a definite CBOR array take its item count as fuel, which is
  the number of turns the source makes. Everything else recurses on the bytes or items left, with
  a termination proof; the route lookup recurses on the trail of next hops not visited yet; the
  loops of a session recurse on the events still to come, each turn of the source taking one. The
  loops of time-variant routing are partial functions whose \<open>None\<close> is a call that does not return,
  and that they return is proved with its conditions. The
  theorems about whole buffers ask that the buffer fits the address space (\<open>usize_max\<close>), as every
  slice does.

  \<^bold>\<open>Not modelled.\<close> Signing, verifying, encrypting and key wrapping (they drive cipher crates) and
  the editors that rest on them; the glob engine and the text syntax of patterns; the agent's
  dispatcher, filters, storage and convergence layers, which are asynchronous code around
  external services; the writer task, the connection pool, the listener and the TLS handshake of
  TCPCLv4; the grammar of contact plans; the storage back ends, the server and the command line
  tools.
\<close>

end
